(* ===== verification/Go_Prelude.thy ===== *)
theory Go_Prelude
  imports Main "HOL-Library.Word" "HOL-Library.Monad_Syntax"
begin

text \<open>
  Shared ground of the development: the machine integers of Go that the program depends on
  (64-bit durations with wrap-around, division that truncates towards zero), decimal and
  hexadecimal printing as \<^verbatim>\<open>strconv\<close> and \<^verbatim>\<open>fmt\<close> do it, joining and splitting of strings, and
  the results type every fallible function returns.  The lemma collections declared here are
  the simplification sets the component theories extend.
\<close>

unbundle bit_operations_syntax

named_theorems go_defs \<open>definitions the component proofs unfold\<close>
named_theorems go_bits \<open>facts that read single bits of addresses and masks\<close>
named_theorems go_eval \<open>equations that evaluate closed terms\<close>

lemma replicate_numeral [go_eval]: "replicate (numeral k) x = x # replicate (pred_numeral k) x"
  by (simp add: numeral_eq_Suc)

subsection \<open>Results\<close>

text \<open>
  A Go function returning \<^verbatim>\<open>(T, error)\<close> returns a value of \<open>'e + 'a\<close>: \<open>Inl\<close> carries the error,
  \<open>Inr\<close> the value.
\<close>

abbreviation Err :: "'e \<Rightarrow> 'e + 'a" where
  "Err e \<equiv> Inl e"

abbreviation Ok :: "'a \<Rightarrow> 'e + 'a" where
  "Ok x \<equiv> Inr x"

definition is_ok :: "'e + 'a \<Rightarrow> bool" where
  "is_ok r = (case r of Inl _ \<Rightarrow> False | Inr _ \<Rightarrow> True)"

lemma is_ok_simps [simp]: "is_ok (Ok x)" "\<not> is_ok (Err e)"
  by (simp_all add: is_ok_def)

text \<open>A loop that collects results and stops at the first error.\<close>

fun traverse :: "('a \<Rightarrow> 'e + 'b) \<Rightarrow> 'a list \<Rightarrow> 'e + 'b list" where
  "traverse f [] = Ok []"
| "traverse f (x # xs) =
     (case f x of Inl e \<Rightarrow> Err e
      | Inr y \<Rightarrow> (case traverse f xs of Inl e \<Rightarrow> Err e | Inr ys \<Rightarrow> Ok (y # ys)))"

lemma traverse_Ok_iff:
  "traverse f xs = Ok ys \<longleftrightarrow> list_all2 (\<lambda>x y. f x = Ok y) xs ys"
proof (induction xs arbitrary: ys)
  case Nil
  show ?case by auto
next
  case (Cons a xs)
  show ?case
  proof (cases "traverse f xs")
    case (Inl e)
    then show ?thesis
      using Cons.IH by (auto split: sum.splits simp: list_all2_Cons1)
  next
    case (Inr zs)
    then have "list_all2 (\<lambda>x y. f x = Ok y) xs ws \<longleftrightarrow> ws = zs" for ws
      using Cons.IH [of ws] by auto
    with Inr show ?thesis
      by (auto split: sum.splits simp: list_all2_Cons1)
  qed
qed

lemma traverse_Ok_length: "traverse f xs = Ok ys \<Longrightarrow> length ys = length xs"
  by (auto simp: traverse_Ok_iff dest: list_all2_lengthD)

lemma traverse_ErrD: "traverse f xs = Err e \<Longrightarrow> \<exists>x \<in> set xs. f x = Err e"
  by (induction xs) (auto split: sum.splits)

lemma traverse_is_ok_iff: "is_ok (traverse f xs) \<longleftrightarrow> (\<forall>x \<in> set xs. is_ok (f x))"
  by (induction xs) (auto simp: is_ok_def split: sum.splits)

subsection \<open>Machine integers\<close>

type_synonym byte = "8 word"

text \<open>Go's integer division and remainder truncate towards zero.\<close>

definition go_div :: "int \<Rightarrow> int \<Rightarrow> int" where
  "go_div a b = sgn a * sgn b * (\<bar>a\<bar> div \<bar>b\<bar>)"

definition go_mod :: "int \<Rightarrow> int \<Rightarrow> int" where
  "go_mod a b = a - b * go_div a b"

lemma go_div_nonneg [simp]: "0 \<le> a \<Longrightarrow> 0 < b \<Longrightarrow> go_div a b = a div b"
  by (cases "a = 0") (simp_all add: go_div_def)

lemma go_mod_nonneg [simp]: "0 \<le> a \<Longrightarrow> 0 < b \<Longrightarrow> go_mod a b = a mod b"
  by (simp add: go_mod_def minus_mult_div_eq_mod)

text \<open>A signed 64-bit result: \<^verbatim>\<open>int64\<close> and \<^verbatim>\<open>time.Duration\<close> arithmetic wraps into this range.\<close>

definition wrap64 :: "int \<Rightarrow> int" where
  "wrap64 x = (x + 2 ^ 63) mod 2 ^ 64 - 2 ^ 63"

definition in_int64 :: "int \<Rightarrow> bool" where
  "in_int64 x \<longleftrightarrow> - (2 ^ 63) \<le> x \<and> x < 2 ^ 63"

lemma wrap64_id: "in_int64 x \<Longrightarrow> wrap64 x = x"
  by (simp add: in_int64_def wrap64_def)

lemma in_int64_wrap64 [simp]: "in_int64 (wrap64 x)"
  using pos_mod_bound [of "2 ^ 64" "x + 2 ^ 63"] pos_mod_sign [of "2 ^ 64" "x + 2 ^ 63"]
  by (simp add: in_int64_def wrap64_def)

text \<open>Time: an instant is a count of nanoseconds, a duration a 64-bit count of them.\<close>

type_synonym duration = int
type_synonym instant = int

definition second :: duration where "second = 1000000000"
definition minute :: duration where "minute = 60 * second"

subsection \<open>Decimal and hexadecimal text\<close>

definition digit_char :: "nat \<Rightarrow> char" where
  "digit_char d = (if d < 10 then char_of (48 + d) else char_of (87 + d))"

text \<open>Digits of a number in a base, most significant first, as \<^verbatim>\<open>strconv\<close> prints them.\<close>

fun digits_in :: "nat \<Rightarrow> nat \<Rightarrow> string" where
  "digits_in b n = (if b \<le> 1 \<or> n < b then [digit_char n] else digits_in b (n div b) @ [digit_char (n mod b)])"

declare digits_in.simps [simp del]

definition dec :: "nat \<Rightarrow> string" where
  "dec n = digits_in 10 n"

definition hex :: "nat \<Rightarrow> string" where
  "hex n = digits_in 16 n"

definition dec_int :: "int \<Rightarrow> string" where
  "dec_int i = (if i < 0 then CHR ''-'' # dec (nat (- i)) else dec (nat i))"

text \<open>\<^verbatim>\<open>strings.Join\<close> and \<^verbatim>\<open>strings.Split\<close> with a one-byte separator.\<close>

fun join :: "char \<Rightarrow> string list \<Rightarrow> string" where
  "join c [] = []"
| "join c [x] = x"
| "join c (x # y # zs) = x @ c # join c (y # zs)"

fun split :: "char \<Rightarrow> string \<Rightarrow> string list" where
  "split c [] = [[]]"
| "split c (x # xs) =
     (if x = c then [] # split c xs
      else (case split c xs of [] \<Rightarrow> [[x]] | y # ys \<Rightarrow> (x # y) # ys))"

lemma split_nonempty [simp]: "split c s \<noteq> []"
  by (induction s) (auto split: list.splits)

lemma split_no_sep: "c \<notin> set s \<Longrightarrow> split c s = [s]"
  by (induction s) auto

lemma split_append_sep: "c \<notin> set s \<Longrightarrow> split c (s @ c # t) = s # split c t"
  by (induction s) auto

lemma split_join:
  "xs \<noteq> [] \<Longrightarrow> (\<forall>x \<in> set xs. c \<notin> set x) \<Longrightarrow> split c (join c xs) = xs"
  by (induction c xs rule: join.induct) (auto simp: split_no_sep split_append_sep)

lemma set_join: "set (join c xs) \<subseteq> insert c (\<Union> (set ` set xs))"
  by (induction c xs rule: join.induct) auto

subsection \<open>Properties of digits\<close>

lemma digit_char_code: "d < 16 \<Longrightarrow> of_char (digit_char d) = (if d < 10 then 48 + d else 87 + d)"
  by (simp add: digit_char_def)

lemma digits_in_nonempty [simp]: "digits_in b n \<noteq> []"
  by (subst digits_in.simps) simp

text \<open>Reading the digits back as a number, the left inverse of printing.\<close>

definition char_digit :: "char \<Rightarrow> nat" where
  "char_digit c = (let k = of_char c in if k < 58 then k - 48 else k - 87)"

lemma char_digit_digit_char [simp]: "d < 16 \<Longrightarrow> char_digit (digit_char d) = d"
  by (simp add: char_digit_def digit_char_code Let_def)

definition read_base :: "nat \<Rightarrow> nat \<Rightarrow> string \<Rightarrow> nat" where
  "read_base b acc s = foldl (\<lambda>a c. a * b + char_digit c) acc s"

lemma read_digits_in: "1 < b \<Longrightarrow> b \<le> 16 \<Longrightarrow> read_base b 0 (digits_in b n) = n"
proof (induction b n rule: digits_in.induct)
  case (1 b n)
  show ?case
  proof (cases "n < b")
    case True
    with "1.prems" show ?thesis
      by (simp add: digits_in.simps [of b n] read_base_def)
  next
    case False
    then have "read_base b 0 (digits_in b (n div b)) = n div b"
      using 1 by simp
    moreover have "n mod b < 16"
      using "1.prems" mod_less_divisor [of b n] by linarith
    ultimately show ?thesis
      using False "1.prems" by (simp add: digits_in.simps [of b n] read_base_def)
  qed
qed

lemma digits_in_inj: "1 < b \<Longrightarrow> b \<le> 16 \<Longrightarrow> digits_in b m = digits_in b n \<longleftrightarrow> m = n"
  by (metis read_digits_in)

lemma dec_inj [simp]: "dec m = dec n \<longleftrightarrow> m = n"
  by (simp add: dec_def digits_in_inj)

lemma set_digits_in:
  "1 < b \<Longrightarrow> set (digits_in b n) \<subseteq> digit_char ` {0..<b}"
proof (induction b n rule: digits_in.induct)
  case (1 b n)
  then show ?case
    by (subst digits_in.simps) auto
qed

lemma set_dec: "set (dec n) \<subseteq> digit_char ` {0..<10}"
  by (simp add: dec_def set_digits_in)

lemma set_hex: "set (hex n) \<subseteq> digit_char ` {0..<16}"
  by (simp add: hex_def set_digits_in)

lemma dec_nonempty [simp]: "dec n \<noteq> []" and hex_nonempty [simp]: "hex n \<noteq> []"
  by (simp_all add: dec_def hex_def)

lemma digit_char_inj: "d < 16 \<Longrightarrow> e < 16 \<Longrightarrow> digit_char d = digit_char e \<longleftrightarrow> d = e"
  by (metis char_digit_digit_char)

lemma digits_in_head:
  "1 < b \<Longrightarrow> b \<le> 16 \<Longrightarrow> n \<noteq> 0 \<Longrightarrow> hd (digits_in b n) \<noteq> digit_char 0"
proof (induction b n rule: digits_in.induct)
  case (1 b n)
  show ?case
  proof (cases "n < b")
    case True
    with "1.prems" show ?thesis
      by (simp add: digits_in.simps [of b n] digit_char_inj)
  next
    case False
    with 1 have "hd (digits_in b (n div b)) \<noteq> digit_char 0"
      by (simp add: div_eq_0_iff)
    with False "1.prems" show ?thesis
      by (simp add: digits_in.simps [of b n])
  qed
qed

lemma dec_int_inj [simp]: "dec_int i = dec_int j \<longleftrightarrow> i = j"
proof -
  have no_minus: "hd (dec n) \<noteq> CHR ''-''" for n
  proof -
    have "hd (dec n) \<in> set (dec n)"
      by (rule hd_in_set) simp
    then have "hd (dec n) \<in> digit_char ` {0..<10}"
      using set_dec by blast
    then obtain d where "d < 10" "hd (dec n) = digit_char d"
      by auto
    then have "of_char (hd (dec n)) = 48 + d"
      by (simp add: digit_char_code)
    then show ?thesis
      by (auto dest!: arg_cong [where f = "of_char :: char \<Rightarrow> nat"])
  qed
  have "dec n \<noteq> CHR ''-'' # s" for n s
    using no_minus [of n] by auto
  then show ?thesis
    by (auto simp: dec_int_def dest: sym [of "CHR ''-'' # _"])
qed

end
