(* ===== verification/Netip.thy ===== *)
theory Netip
  imports Go_Prelude
begin

text \<open>
  The part of Go's \<^verbatim>\<open>net/netip\<close> the operator computes with: addresses, prefixes, their byte
  arrays, masking, containment and classification.  \<^verbatim>\<open>netip.Addr\<close> is the invalid zero value, an
  IPv4 address or an IPv6 address with an optional zone; \<^verbatim>\<open>netip.Prefix\<close> keeps an address and the
  prefix length plus one, zero marking an invalid prefix.  The lemmas read addresses bit by
  bit: the byte arrays agree with the 128-bit value, masking keeps exactly the leading bits,
  and a prefix contains exactly the addresses that share them.
\<close>

subsection \<open>Addresses\<close>

datatype addr = AddrZero | Addr4 "32 word" | Addr6 "128 word" string

definition BitLen :: "addr \<Rightarrow> int" where
  "BitLen a = (case a of AddrZero \<Rightarrow> 0 | Addr4 _ \<Rightarrow> 32 | Addr6 _ _ \<Rightarrow> 128)"

definition Is4 :: "addr \<Rightarrow> bool" where
  "Is4 a = (case a of Addr4 _ \<Rightarrow> True | _ \<Rightarrow> False)"

definition Is6 :: "addr \<Rightarrow> bool" where
  "Is6 a = (case a of Addr6 _ _ \<Rightarrow> True | _ \<Rightarrow> False)"

definition Zone :: "addr \<Rightarrow> string" where
  "Zone a = (case a of Addr6 _ z \<Rightarrow> z | _ \<Rightarrow> [])"

text \<open>\<^verbatim>\<open>WithZone\<close> leaves an address that is not IPv6 alone.\<close>

definition WithZone :: "addr \<Rightarrow> string \<Rightarrow> addr" where
  "WithZone a z = (case a of Addr6 w _ \<Rightarrow> Addr6 w z | _ \<Rightarrow> a)"

text \<open>The 128-bit value every address carries; IPv4 sits in the mapped range.\<close>

definition v4mapped :: "128 word" where
  "v4mapped = push_bit 32 0xFFFF"

definition addr128 :: "addr \<Rightarrow> 128 word" where
  "addr128 a = (case a of AddrZero \<Rightarrow> 0 | Addr4 w \<Rightarrow> v4mapped OR ucast w | Addr6 w _ \<Rightarrow> w)"

definition Is4In6 :: "addr \<Rightarrow> bool" where
  "Is4In6 a = (case a of Addr6 w _ \<Rightarrow> drop_bit 32 w = 0xFFFF | _ \<Rightarrow> False)"

definition Unmap :: "addr \<Rightarrow> addr" where
  "Unmap a = (if Is4In6 a then Addr4 (ucast (addr128 a)) else a)"

text \<open>
  \<^verbatim>\<open>Addr.Compare\<close>: shorter address families first, then the value, then the zone of IPv6
  addresses.  The three-way result is an integer, as in Go.
\<close>

fun str_less :: "string \<Rightarrow> string \<Rightarrow> bool" where
  "str_less [] ys = (ys \<noteq> [])"
| "str_less (x # xs) [] = False"
| "str_less (x # xs) (y # ys) =
     ((of_char x :: nat) < of_char y \<or> x = y \<and> str_less xs ys)"

definition Compare :: "addr \<Rightarrow> addr \<Rightarrow> int" where
  "Compare a b =
     (if BitLen a < BitLen b then -1
      else if BitLen b < BitLen a then 1
      else if addr128 a < addr128 b then -1
      else if addr128 b < addr128 a then 1
      else if Is6 a then
        (if str_less (Zone a) (Zone b) then -1 else if str_less (Zone b) (Zone a) then 1 else 0)
      else 0)"

subsection \<open>Byte arrays\<close>

definition bytes16 :: "128 word \<Rightarrow> byte list" where
  "bytes16 w = map (\<lambda>i. ucast (drop_bit (8 * (15 - i)) w)) [0..<16]"

definition word_of_bytes :: "byte list \<Rightarrow> 128 word" where
  "word_of_bytes bs = foldl (\<lambda>acc b. push_bit 8 acc OR ucast b) 0 bs"

definition As16 :: "addr \<Rightarrow> byte list" where
  "As16 a = bytes16 (addr128 a)"

definition AddrFrom16 :: "byte list \<Rightarrow> addr" where
  "AddrFrom16 bs = Addr6 (word_of_bytes bs) []"

subsection \<open>Prefixes\<close>

record ipprefix =
  pfx_ip :: addr
  pfx_bitsPlusOne :: nat

definition PrefixZero :: ipprefix where
  "PrefixZero = \<lparr>pfx_ip = AddrZero, pfx_bitsPlusOne = 0\<rparr>"

definition PrefixFrom :: "addr \<Rightarrow> int \<Rightarrow> ipprefix" where
  "PrefixFrom a bits =
     \<lparr>pfx_ip = WithZone a [],
      pfx_bitsPlusOne =
        (if a \<noteq> AddrZero \<and> 0 \<le> bits \<and> bits \<le> BitLen a then nat (bits + 1) else 0)\<rparr>"

definition Bits :: "ipprefix \<Rightarrow> int" where
  "Bits p = int (pfx_bitsPlusOne p) - 1"

definition IsValid :: "ipprefix \<Rightarrow> bool" where
  "IsValid p \<longleftrightarrow> pfx_bitsPlusOne p > 0"

definition mask6 :: "nat \<Rightarrow> 128 word" where
  "mask6 n = NOT (mask (128 - n))"

definition mask4 :: "nat \<Rightarrow> 32 word" where
  "mask4 n = NOT (mask (32 - n))"

text \<open>\<^verbatim>\<open>Addr.Prefix\<close> masks off all but the leading bits; it fails on a length the family lacks.\<close>

definition AddrPrefix :: "addr \<Rightarrow> int \<Rightarrow> ipprefix option" where
  "AddrPrefix a b =
     (if b < 0 then None
      else case a of
        AddrZero \<Rightarrow> Some PrefixZero
      | Addr4 w \<Rightarrow>
          if b > 32 then None else Some (PrefixFrom (Addr4 (w AND mask4 (nat b))) b)
      | Addr6 w z \<Rightarrow>
          if b > 128 then None else Some (PrefixFrom (Addr6 (w AND mask6 (nat b)) z) b))"

text \<open>\<^verbatim>\<open>Masked\<close> drops the error of \<^verbatim>\<open>Addr.Prefix\<close>, whose value is then the zero prefix.\<close>

definition Masked :: "ipprefix \<Rightarrow> ipprefix" where
  "Masked p = (case AddrPrefix (pfx_ip p) (Bits p) of None \<Rightarrow> PrefixZero | Some q \<Rightarrow> q)"

definition Contains :: "ipprefix \<Rightarrow> addr \<Rightarrow> bool" where
  "Contains p a \<longleftrightarrow>
     IsValid p \<and> Zone a = [] \<and>
     (case (pfx_ip p, a) of
        (Addr4 v, Addr4 w) \<Rightarrow> (v XOR w) AND mask4 (nat (Bits p)) = 0
      | (Addr6 v _, Addr6 w _) \<Rightarrow> (v XOR w) AND mask6 (nat (Bits p)) = 0
      | _ \<Rightarrow> False)"

subsection \<open>Classification\<close>

definition v6u16 :: "128 word \<Rightarrow> nat \<Rightarrow> 16 word" where
  "v6u16 w i = ucast (drop_bit (16 * (7 - i)) w)"

definition IsUnspecified :: "addr \<Rightarrow> bool" where
  "IsUnspecified a \<longleftrightarrow> a = Addr4 0 \<or> a = Addr6 0 []"

definition IsLoopback :: "addr \<Rightarrow> bool" where
  "IsLoopback a =
     (case Unmap a of
        Addr4 w \<Rightarrow> drop_bit 24 w = 127
      | Addr6 w _ \<Rightarrow> w = 1
      | AddrZero \<Rightarrow> False)"

definition IsMulticast :: "addr \<Rightarrow> bool" where
  "IsMulticast a =
     (case Unmap a of
        Addr4 w \<Rightarrow> drop_bit 28 w = 14
      | Addr6 w _ \<Rightarrow> drop_bit 120 w = 0xFF
      | AddrZero \<Rightarrow> False)"

definition IsLinkLocalUnicast :: "addr \<Rightarrow> bool" where
  "IsLinkLocalUnicast a =
     (case Unmap a of
        Addr4 w \<Rightarrow> drop_bit 16 w = 0xA9FE
      | Addr6 w _ \<Rightarrow> v6u16 w 0 AND 0xFFC0 = 0xFE80
      | AddrZero \<Rightarrow> False)"

subsection \<open>Byte arrays and 128-bit values agree\<close>

lemma length_bytes16 [simp]: "length (bytes16 w) = 16"
  by (simp add: bytes16_def)

lemma length_As16 [simp]: "length (As16 a) = 16"
  by (simp add: As16_def)

lemma nth_bytes16: "i < 16 \<Longrightarrow> bytes16 w ! i = ucast (drop_bit (8 * (15 - i)) w)"
  by (simp add: bytes16_def)

lemma bit_bytes16 [go_bits]:
  "i < 16 \<Longrightarrow> bit (bytes16 w ! i) j \<longleftrightarrow> j < 8 \<and> bit w (8 * (15 - i) + j)"
  by (auto simp: nth_bytes16 bit_ucast_iff bit_drop_bit_eq)

lemma bit_foldl_bytes:
  "bit (foldl (\<lambda>acc b. push_bit 8 acc OR ucast (b :: byte)) (acc :: 'a :: len word) bs) n \<longleftrightarrow>
     n < LENGTH('a) \<and>
     (if n < 8 * length bs then bit (bs ! (length bs - 1 - n div 8)) (n mod 8)
      else bit acc (n - 8 * length bs))"
proof (induction bs arbitrary: n rule: rev_induct)
  case Nil
  then show ?case
    using bit_imp_le_length [of acc n] by auto
next
  case (snoc b bs)
  let ?w = "foldl (\<lambda>acc b. push_bit 8 acc OR ucast (b :: byte)) acc bs"
  have step: "bit (foldl (\<lambda>acc b. push_bit 8 acc OR ucast b) acc (bs @ [b])) n \<longleftrightarrow>
      n < LENGTH('a) \<and> (8 \<le> n \<and> bit ?w (n - 8) \<or> n < 8 \<and> bit b n)"
    using bit_imp_le_length [of b n]
    by (auto simp: bit_or_iff bit_push_bit_iff bit_ucast_iff)
  show ?case
  proof (cases "n < 8")
    case True
    then show ?thesis
      unfolding step by (simp add: nth_append)
  next
    case False
    then have "n div 8 = Suc ((n - 8) div 8)" "n mod 8 = (n - 8) mod 8"
      by (simp_all add: le_div_geq le_mod_geq)
    with False show ?thesis
      unfolding step snoc.IH by (auto simp: nth_append less_diff_conv2)
  qed
qed

lemma bit_word_of_bytes [go_bits]:
  "length bs = 16 \<Longrightarrow>
     bit (word_of_bytes bs) n \<longleftrightarrow> n < 128 \<and> bit (bs ! (15 - n div 8)) (n mod 8)"
  by (simp add: word_of_bytes_def bit_foldl_bytes)

lemma word_of_bytes16 [simp]: "word_of_bytes (bytes16 w) = w"
proof (rule bit_word_eqI)
  fix n
  assume n: "n < LENGTH(128)"
  then have "15 - n div 8 < 16" "8 * (15 - (15 - n div 8)) + n mod 8 = n"
    by simp_all
  with n show "bit (word_of_bytes (bytes16 w)) n \<longleftrightarrow> bit w n"
    by (simp add: bit_word_of_bytes bit_bytes16)
qed

lemma bytes16_word_of_bytes:
  assumes "length bs = 16"
  shows "bytes16 (word_of_bytes bs) = bs"
proof (rule nth_equalityI)
  show "length (bytes16 (word_of_bytes bs)) = length bs"
    using assms by simp
next
  fix i
  assume "i < length (bytes16 (word_of_bytes bs))"
  then have i: "i < 16" by simp
  show "bytes16 (word_of_bytes bs) ! i = bs ! i"
  proof (rule bit_word_eqI)
    fix j
    assume "j < LENGTH(8)"
    then have "(8 * (15 - i) + j) div 8 = 15 - i" "(8 * (15 - i) + j) mod 8 = j" "j < 8"
      "8 * (15 - i) + j < 128"
      using i by simp_all
    with i assms show "bit (bytes16 (word_of_bytes bs) ! i) j \<longleftrightarrow> bit (bs ! i) j"
      by (simp add: bit_bytes16 bit_word_of_bytes)
  qed
qed

lemma AddrFrom16_As16 [simp]: "AddrFrom16 (As16 (Addr6 w z)) = Addr6 w []"
  by (simp add: AddrFrom16_def As16_def addr128_def)

lemma As16_AddrFrom16: "length bs = 16 \<Longrightarrow> As16 (AddrFrom16 bs) = bs"
  by (simp add: AddrFrom16_def As16_def addr128_def bytes16_word_of_bytes)

subsection \<open>Masks and containment\<close>

lemma bit_mask6 [go_bits]: "bit (mask6 n) k \<longleftrightarrow> k < 128 \<and> 128 - n \<le> k"
  by (auto simp: mask6_def bit_not_iff bit_mask_iff)

lemma mask6_0 [simp]: "mask6 0 = 0"
  by (rule bit_word_eqI) (simp add: bit_mask6)

lemma mask6_128 [simp]: "mask6 128 = -1"
  by (rule bit_word_eqI) (simp add: bit_mask6)

lemma IsValid_iff_Bits: "IsValid p \<longleftrightarrow> 0 \<le> Bits p"
  by (auto simp: IsValid_def Bits_def)

lemma Bits_PrefixFrom:
  "a \<noteq> AddrZero \<Longrightarrow> 0 \<le> b \<Longrightarrow> b \<le> BitLen a \<Longrightarrow> Bits (PrefixFrom a b) = b"
  by (simp add: PrefixFrom_def Bits_def)

lemma Bits_lower: "-1 \<le> Bits p"
  by (simp add: Bits_def)

text \<open>
  The prefixes Go code can hold: a valid length never exceeds the family's, and the stored
  address carries no zone.  Every constructor of \<^verbatim>\<open>netip\<close> yields one.
\<close>

definition wf_prefix :: "ipprefix \<Rightarrow> bool" where
  "wf_prefix p \<longleftrightarrow>
     Zone (pfx_ip p) = [] \<and> Bits p \<le> BitLen (pfx_ip p) \<and> (pfx_ip p = AddrZero \<longrightarrow> Bits p = -1)"

lemma wf_PrefixFrom [simp]: "wf_prefix (PrefixFrom a b)"
  by (auto simp: wf_prefix_def PrefixFrom_def Bits_def Zone_def WithZone_def BitLen_def split: addr.splits)

lemma wf_PrefixZero [simp]: "wf_prefix PrefixZero"
  by (simp add: wf_prefix_def PrefixZero_def Bits_def Zone_def BitLen_def)

lemma wf_AddrPrefix: "AddrPrefix a b = Some p \<Longrightarrow> wf_prefix p"
  by (auto simp: AddrPrefix_def split: addr.splits if_splits)

lemma wf_Masked [simp]: "wf_prefix (Masked p)"
  by (auto simp: Masked_def dest: wf_AddrPrefix split: option.splits)

lemma wf_prefix_v6_cases:
  assumes "wf_prefix p" "IsValid p" "Is6 (pfx_ip p)"
  obtains w n where "p = PrefixFrom (Addr6 w []) (int n)" "n \<le> 128"
proof -
  obtain w where w: "pfx_ip p = Addr6 w []"
    using assms(1,3) by (auto simp: wf_prefix_def Is6_def Zone_def split: addr.splits)
  let ?n = "nat (Bits p)"
  have "0 \<le> Bits p" "Bits p \<le> 128"
    using assms(1,2) w by (simp_all add: IsValid_iff_Bits wf_prefix_def BitLen_def)
  then have "p = PrefixFrom (Addr6 w []) (int ?n)" "?n \<le> 128"
    using w by (cases p; auto simp: PrefixFrom_def WithZone_def BitLen_def Bits_def)+
  then show thesis by (rule that)
qed

lemma pfx_ip_PrefixFrom6 [simp]: "pfx_ip (PrefixFrom (Addr6 w z) b) = Addr6 w []"
  by (simp add: PrefixFrom_def WithZone_def)

lemma Bits_PrefixFrom6 [simp]: "n \<le> 128 \<Longrightarrow> Bits (PrefixFrom (Addr6 w z) (int n)) = int n"
  by (simp add: Bits_PrefixFrom BitLen_def)

lemma IsValid_PrefixFrom6 [simp]: "IsValid (PrefixFrom (Addr6 w z) b) \<longleftrightarrow> 0 \<le> b \<and> b \<le> 128"
  by (auto simp: IsValid_def PrefixFrom_def BitLen_def)

lemma Masked_v6 [simp]:
  "n \<le> 128 \<Longrightarrow>
     Masked (PrefixFrom (Addr6 w z) (int n)) = PrefixFrom (Addr6 (w AND mask6 n) []) (int n)"
  by (simp add: Masked_def AddrPrefix_def)

lemma Contains_v6:
  "n \<le> 128 \<Longrightarrow>
     Contains (PrefixFrom (Addr6 v z) (int n)) (Addr6 w z') \<longleftrightarrow>
       z' = [] \<and> v AND mask6 n = w AND mask6 n"
proof -
  assume n: "n \<le> 128"
  have "(v XOR w) AND mask6 n = 0 \<longleftrightarrow> v AND mask6 n = w AND mask6 n"
    by (auto simp: bit_eq_iff bit_simps)
  with n show ?thesis
    by (auto simp: Contains_def Zone_def)
qed

text \<open>The same with the length as an integer, for evaluating closed terms.\<close>

lemma prefix6_int [go_eval]:
  assumes "0 \<le> b" "b \<le> 128"
  shows "Bits (PrefixFrom (Addr6 w z) b) = b"
    and "Masked (PrefixFrom (Addr6 w z) b) = PrefixFrom (Addr6 (w AND mask6 (nat b)) []) b"
    and "Contains (PrefixFrom (Addr6 v z) b) (Addr6 w z') \<longleftrightarrow>
           z' = [] \<and> v AND mask6 (nat b) = w AND mask6 (nat b)"
  using assms Bits_PrefixFrom6 [of "nat b" w z] Masked_v6 [of "nat b" w z] Contains_v6 [of "nat b" v z w z']
  by simp_all

lemmas mask6_eval [go_eval] = mask6_def mask_numeral

text \<open>Containment bit by bit: the leading bits agree.\<close>

lemma and_mask6_eq_iff:
  "v AND mask6 n = w AND mask6 n \<longleftrightarrow> (\<forall>k. 128 - n \<le> k \<and> k < 128 \<longrightarrow> bit v k = bit w k)"
  by (auto simp: bit_eq_iff bit_and_iff bit_mask6)

lemma Masked_idem [simp]: "Masked (Masked p) = Masked p"
proof (cases "AddrPrefix (pfx_ip p) (Bits p)")
  case None
  then show ?thesis
    by (simp add: Masked_def AddrPrefix_def PrefixZero_def Bits_def)
next
  case (Some q)
  have "AddrPrefix (pfx_ip q) (Bits q) = Some q \<or> q = PrefixZero"
  proof (cases "pfx_ip p")
    case AddrZero
    with Some show ?thesis
      by (simp add: AddrPrefix_def split: if_splits)
  next
    case (Addr4 w)
    with Some have "q = PrefixFrom (Addr4 (w AND mask4 (nat (Bits p)))) (Bits p)"
      "0 \<le> Bits p" "Bits p \<le> 32"
      by (auto simp: AddrPrefix_def split: if_splits)
    then show ?thesis
      by (simp add: AddrPrefix_def PrefixFrom_def WithZone_def BitLen_def Bits_def)
  next
    case (Addr6 w z)
    with Some have "q = PrefixFrom (Addr6 (w AND mask6 (nat (Bits p))) z) (Bits p)"
      "0 \<le> Bits p" "Bits p \<le> 128"
      by (auto simp: AddrPrefix_def split: if_splits)
    then show ?thesis
      by (simp add: AddrPrefix_def PrefixFrom_def WithZone_def BitLen_def Bits_def)
  qed
  with Some show ?thesis
    by (auto simp: Masked_def PrefixZero_def AddrPrefix_def Bits_def)
qed

text \<open>The value range of an IPv6 prefix: masked addresses are the multiples of the block size.\<close>

lemma unat128_less: "unat (w :: 128 word) < 2 ^ 128"
  using unsigned_less [where 'a = nat and w = w] by simp

lemma unat_and_mask6:
  assumes "n \<le> 128"
  shows "unat (w AND mask6 n) = unat w div 2 ^ (128 - n) * 2 ^ (128 - n)"
proof -
  have "w AND mask6 n = push_bit (128 - n) (drop_bit (128 - n) w)"
    by (rule bit_word_eqI) (auto simp: bit_and_iff bit_mask6 bit_push_bit_iff bit_drop_bit_eq)
  then have "unat (w AND mask6 n) = unat (push_bit (128 - n) (drop_bit (128 - n) w))"
    by simp
  moreover have "take_bit 128 (unat w) = unat w"
    using unat128_less [of w] by (simp add: take_bit_nat_eq_self)
  ultimately have "unat (w AND mask6 n) =
      take_bit 128 (push_bit (128 - n) (unat w div 2 ^ (128 - n)))"
    by (simp add: unsigned_push_bit_eq unsigned_drop_bit_eq flip: drop_bit_eq_div)
  also have "\<dots> = unat w div 2 ^ (128 - n) * 2 ^ (128 - n)"
  proof -
    have "unat w div 2 ^ (128 - n) * 2 ^ (128 - n) \<le> unat w"
      by (simp add: div_times_less_eq_dividend)
    also have "unat w < 2 ^ 128"
      using unat128_less [of w] by simp
    finally show ?thesis
      by (simp add: push_bit_eq_mult take_bit_nat_eq_self)
  qed
  finally show ?thesis .
qed

lemma and_mask6_eq_iff_unat:
  assumes "n \<le> 128"
  shows "v AND mask6 n = w AND mask6 n \<longleftrightarrow> unat v div 2 ^ (128 - n) = unat w div 2 ^ (128 - n)"
  by (simp add: word_unat_eq_iff unat_and_mask6 [OF assms])

end
