(* ===== verification/Netip_Text.thy ===== *)
theory Netip_Text
  imports Netip
begin

text \<open>
  The text forms of \<^verbatim>\<open>net/netip\<close>: \<^verbatim>\<open>ParseAddr\<close> and \<^verbatim>\<open>Addr.String\<close>, \<^verbatim>\<open>ParsePrefix\<close> and
  \<^verbatim>\<open>Prefix.String\<close>.  The operator stores addresses and prefixes as text in resource status and
  annotations and reads them back, so the central facts are that parsing inverts printing,
  hence that printing is injective, and which characters printed text can contain.
\<close>

subsection \<open>Parsing addresses\<close>

datatype addr_error =
    UnableToParse
  | MissingIPv6Address
  | V4LeadingZero
  | V4ValueTooLarge
  | V4EmptyField
  | V4TooLong
  | V4TooShort
  | UnexpectedCharacter
  | EmptyZone
  | GroupTooLong
  | FieldTooLarge
  | EmptyField
  | EmbeddedV4Misplaced
  | EmbeddedV4NoRoom
  | WantColon
  | TrailingColon
  | MultipleEllipsis
  | TrailingGarbage
  | AddressTooShort
  | EllipsisExpandsToNothing

definition dec_digit :: "char \<Rightarrow> nat option" where
  "dec_digit c = (let k = of_char c in if 48 \<le> k \<and> k \<le> 57 then Some (k - 48) else None)"

definition hex_digit :: "char \<Rightarrow> nat option" where
  "hex_digit c =
     (let k = of_char c in
      if 48 \<le> k \<and> k \<le> 57 then Some (k - 48)
      else if 97 \<le> k \<and> k \<le> 102 then Some (k - 87)
      else if 65 \<le> k \<and> k \<le> 70 then Some (k - 55)
      else None)"

text \<open>
  \<^verbatim>\<open>parseIPv4Fields\<close>: the value and digit count of the current octet and the octets finished
  so far.  A dot is refused at the start, at the end and after another dot, which is when no
  digit precedes it or nothing follows.
\<close>

fun parse4 :: "string \<Rightarrow> nat \<Rightarrow> nat \<Rightarrow> nat list \<Rightarrow> addr_error + nat list" where
  "parse4 [] val digLen octets =
     (if length octets < 3 then Err V4TooShort else Ok (octets @ [val]))"
| "parse4 (c # s) val digLen octets =
     (case dec_digit c of
        Some d \<Rightarrow>
          if digLen = 1 \<and> val = 0 then Err V4LeadingZero
          else if val * 10 + d > 255 then Err V4ValueTooLarge
          else parse4 s (val * 10 + d) (digLen + 1) octets
      | None \<Rightarrow>
          if c = CHR ''.'' then
            if digLen = 0 \<or> s = [] then Err V4EmptyField
            else if length octets = 3 then Err V4TooLong
            else parse4 s 0 0 (octets @ [val])
          else Err UnexpectedCharacter)"

definition word4 :: "nat list \<Rightarrow> 32 word" where
  "word4 fs = foldl (\<lambda>acc b. push_bit 8 acc OR ucast (of_nat b :: byte)) 0 fs"

definition parseIPv4 :: "string \<Rightarrow> addr_error + addr" where
  "parseIPv4 s = (case parse4 s 0 0 [] of Inl e \<Rightarrow> Err e | Inr fs \<Rightarrow> Ok (Addr4 (word4 fs)))"

text \<open>
  The hexadecimal number at the head of the text: its value, its digit count and what follows.
\<close>

fun hexscan :: "string \<Rightarrow> nat \<Rightarrow> nat \<Rightarrow> addr_error + (nat \<times> nat \<times> string)" where
  "hexscan [] off acc = Ok (acc, off, [])"
| "hexscan (c # s) off acc =
     (case hex_digit c of
        None \<Rightarrow> Ok (acc, off, c # s)
      | Some d \<Rightarrow>
          if off > 3 then Err GroupTooLong
          else if acc * 16 + d > 65535 then Err FieldTooLarge
          else hexscan s (off + 1) (acc * 16 + d))"

text \<open>
  The field loop of \<^verbatim>\<open>parseIPv6\<close>: the rest of the text, the bytes read so far and the position
  of the ellipsis.
\<close>

function parse6_loop ::
  "string \<Rightarrow> byte list \<Rightarrow> nat option \<Rightarrow> addr_error + (string \<times> byte list \<times> nat option)" where
  "parse6_loop s ip ell =
     (if length ip \<ge> 16 then Ok (s, ip, ell)
      else case hexscan s 0 0 of
        Inl e \<Rightarrow> Err e
      | Inr (acc, off, s') \<Rightarrow>
          if off = 0 then Err EmptyField
          else if s' \<noteq> [] \<and> hd s' = CHR ''.'' then
            if ell = None \<and> length ip \<noteq> 12 then Err EmbeddedV4Misplaced
            else if length ip + 4 > 16 then Err EmbeddedV4NoRoom
            else (case parse4 s 0 0 [] of
                Inl e \<Rightarrow> Err e
              | Inr fs \<Rightarrow> Ok ([], ip @ map of_nat fs, ell))
          else
            let ip' = ip @ [of_nat (acc div 256), of_nat acc] in
            if s' = [] then Ok ([], ip', ell)
            else if hd s' \<noteq> CHR '':'' then Err WantColon
            else if tl s' = [] then Err TrailingColon
            else if hd (tl s') = CHR '':'' then
              if ell \<noteq> None then Err MultipleEllipsis
              else if tl (tl s') = [] then Ok ([], ip', Some (length ip'))
              else parse6_loop (tl (tl s')) ip' (Some (length ip'))
            else parse6_loop (tl s') ip' ell)"
  by pat_completeness auto
termination
  by (relation "measure (\<lambda>(s, ip, ell). 16 - length ip)") auto

declare parse6_loop.simps [simp del]

text \<open>What follows the loop: the whole text is used, the ellipsis stands for missing fields.\<close>

definition parse6_finish ::
  "string \<times> byte list \<times> nat option \<Rightarrow> addr_error + byte list" where
  "parse6_finish r =
     (case r of (s, ip, ell) \<Rightarrow>
        if s \<noteq> [] then Err TrailingGarbage
        else if length ip < 16 then
          (case ell of
             None \<Rightarrow> Err AddressTooShort
           | Some e \<Rightarrow> Ok (take e ip @ replicate (16 - length ip) 0 @ drop e ip))
        else if ell \<noteq> None then Err EllipsisExpandsToNothing
        else Ok ip)"

definition split_zone :: "string \<Rightarrow> addr_error + string \<times> string" where
  "split_zone s =
     (let body = takeWhile (\<lambda>c. c \<noteq> CHR ''%'') s in
      case dropWhile (\<lambda>c. c \<noteq> CHR ''%'') s of [] \<Rightarrow> Ok (body, [])
      | _ # zone \<Rightarrow> if zone = [] then Err EmptyZone else Ok (body, zone))"

definition parseIPv6 :: "string \<Rightarrow> addr_error + addr" where
  "parseIPv6 inp =
     (case split_zone inp of
        Inl e \<Rightarrow> Err e
      | Inr (s, zone) \<Rightarrow>
          let lead = take 2 s = ''::'';
              s' = (if lead then drop 2 s else s);
              ell = (if lead then Some 0 else None)
          in if lead \<and> s' = [] then Ok (Addr6 0 zone)
             else (case parse6_loop s' [] ell of
                 Inl e \<Rightarrow> Err e
               | Inr r \<Rightarrow>
                   (case parse6_finish r of
                      Inl e \<Rightarrow> Err e
                    | Inr bs \<Rightarrow> Ok (WithZone (AddrFrom16 bs) zone))))"

definition ParseAddr :: "string \<Rightarrow> addr_error + addr" where
  "ParseAddr s =
     (case find (\<lambda>c. c \<in> {CHR ''.'', CHR '':'', CHR ''%''}) s of
        None \<Rightarrow> Err UnableToParse
      | Some c \<Rightarrow>
          if c = CHR ''.'' then parseIPv4 s
          else if c = CHR '':'' then parseIPv6 s
          else Err MissingIPv6Address)"

subsection \<open>Printing addresses\<close>

definition string4 :: "32 word \<Rightarrow> string" where
  "string4 w = join (CHR ''.'') (map (\<lambda>i. dec (unat (ucast (drop_bit (8 * (3 - i)) w) :: byte))) [0..<4])"

definition groups :: "128 word \<Rightarrow> nat list" where
  "groups w = map (\<lambda>i. unat (v6u16 w i)) [0..<8]"

text \<open>The first longest run of at least two zero groups, as the loop of \<^verbatim>\<open>appendTo6\<close> finds it.\<close>

definition zero_run_at :: "nat list \<Rightarrow> nat \<Rightarrow> nat" where
  "zero_run_at gs i = length (takeWhile (\<lambda>g. g = 0) (drop i gs))"

definition zero_run :: "nat list \<Rightarrow> (nat \<times> nat) option" where
  "zero_run gs =
     fold (\<lambda>i best.
        let l = zero_run_at gs i in
        if 2 \<le> l \<and> (case best of None \<Rightarrow> True | Some (s, e) \<Rightarrow> e - s < l)
        then Some (i, i + l) else best) [0..<length gs] None"

definition string6 :: "128 word \<Rightarrow> string" where
  "string6 w =
     (let gs = groups w in
      case zero_run gs of
        None \<Rightarrow> join (CHR '':'') (map hex gs)
      | Some (s, e) \<Rightarrow>
          join (CHR '':'') (map hex (take s gs)) @ ''::'' @ join (CHR '':'') (map hex (drop e gs)))"

definition zone_suffix :: "string \<Rightarrow> string" where
  "zone_suffix z = (if z = [] then [] else CHR ''%'' # z)"

definition AddrString :: "addr \<Rightarrow> string" where
  "AddrString a =
     (case a of
        AddrZero \<Rightarrow> ''invalid IP''
      | Addr4 w \<Rightarrow> string4 w
      | Addr6 w z \<Rightarrow>
          (if Is4In6 a then ''::ffff:'' @ string4 (ucast w) else string6 w) @ zone_suffix z)"

subsection \<open>Prefixes as text\<close>

datatype prefix_error =
    NoSlash
  | PrefixAddr addr_error
  | ZoneInPrefix
  | BadBits
  | BitsOutOfRange

text \<open>\<^verbatim>\<open>strconv.Atoi\<close> on text that does not start with a sign or a redundant zero.\<close>

definition atoi :: "string \<Rightarrow> nat option" where
  "atoi s = (if s = [] \<or> (\<exists>c \<in> set s. dec_digit c = None) then None
             else let n = read_base 10 0 s in if n < 2 ^ 63 then Some n else None)"

definition rsplit_slash :: "string \<Rightarrow> (string \<times> string) option" where
  "rsplit_slash s =
     (case dropWhile (\<lambda>c. c \<noteq> CHR ''/'') (rev s) of
        [] \<Rightarrow> None
      | _ # hd_rev \<Rightarrow> Some (rev hd_rev, rev (takeWhile (\<lambda>c. c \<noteq> CHR ''/'') (rev s))))"

definition netip_ParsePrefix :: "string \<Rightarrow> prefix_error + ipprefix" where
  "netip_ParsePrefix s =
     (case rsplit_slash s of
        None \<Rightarrow> Err NoSlash
      | Some (addrText, bitsStr) \<Rightarrow>
          (case ParseAddr addrText of
             Inl e \<Rightarrow> Err (PrefixAddr e)
           | Inr ip \<Rightarrow>
               if Is6 ip \<and> Zone ip \<noteq> [] then Err ZoneInPrefix
               else if length bitsStr > 1 \<and>
                 (case dec_digit (hd bitsStr) of None \<Rightarrow> True | Some d \<Rightarrow> d = 0)
               then Err BadBits
               else (case atoi bitsStr of
                   None \<Rightarrow> Err BadBits
                 | Some bits \<Rightarrow>
                     if int bits > BitLen ip then Err BitsOutOfRange
                     else Ok (PrefixFrom ip (int bits)))))"

definition PrefixString :: "ipprefix \<Rightarrow> string" where
  "PrefixString p =
     (if IsValid p then AddrString (pfx_ip p) @ ''/'' @ dec (nat (Bits p)) else ''invalid Prefix'')"

lemmas text_eval [go_eval] =
  ParseAddr_def parseIPv6_def split_zone_def parse6_loop.simps hex_digit_def parse6_finish_def
  AddrFrom16_def WithZone_def word_of_bytes_def

subsection \<open>Digits\<close>

lemma digit_code:
  "c \<in> digit_char ` {0..<b} \<Longrightarrow> b \<le> 16 \<Longrightarrow>
     (of_char c :: nat) \<in> {48..57} \<or> (of_char c :: nat) \<in> {97..102}"
  by (auto simp: digit_char_code split: if_splits)

lemma not_digit:
  assumes "b \<le> 16"
  shows "CHR ''.'' \<notin> digit_char ` {0..<b}" "CHR '':'' \<notin> digit_char ` {0..<b}"
    "CHR ''%'' \<notin> digit_char ` {0..<b}" "CHR ''/'' \<notin> digit_char ` {0..<b}"
    "CHR '','' \<notin> digit_char ` {0..<b}" "CHR ''|'' \<notin> digit_char ` {0..<b}"
    "CHR ''-'' \<notin> digit_char ` {0..<b}"
  using digit_code [OF _ assms, of "CHR ''.''"] digit_code [OF _ assms, of "CHR '':''"]
    digit_code [OF _ assms, of "CHR ''%''"] digit_code [OF _ assms, of "CHR ''/''"]
    digit_code [OF _ assms, of "CHR '',''"] digit_code [OF _ assms, of "CHR ''|''"]
    digit_code [OF _ assms, of "CHR ''-''"]
  by auto

lemmas not_dec = not_digit [of 10, simplified]
lemmas not_hex = not_digit [of 16, simplified]

lemma dec_digit_digit_char [simp]: "d < 10 \<Longrightarrow> dec_digit (digit_char d) = Some d"
  by (simp add: dec_digit_def digit_char_code)

lemma hex_digit_digit_char [simp]: "d < 16 \<Longrightarrow> hex_digit (digit_char d) = Some d"
  by (simp add: hex_digit_def digit_char_code)

lemma hex_digit_seps [simp]:
  "hex_digit (CHR '':'') = None" "hex_digit (CHR ''.'') = None" "dec_digit (CHR ''.'') = None"
  by (simp_all add: hex_digit_def dec_digit_def)

lemma length_digits_in: "1 < b \<Longrightarrow> n < b ^ k \<Longrightarrow> 0 < k \<Longrightarrow> length (digits_in b n) \<le> k"
proof (induction b n arbitrary: k rule: digits_in.induct)
  case (1 b n)
  show ?case
  proof (cases "n < b")
    case True
    with "1.prems" show ?thesis
      by (simp add: digits_in.simps [of b n])
  next
    case False
    then obtain k' where k: "k = Suc k'" "0 < k'"
      using "1.prems" by (cases k; cases "k - 1") auto
    with "1.prems" have "n div b < b ^ k'"
      by (simp add: less_mult_imp_div_less mult.commute)
    with 1 k False have "length (digits_in b (n div b)) \<le> k'"
      by simp
    with k False "1.prems" show ?thesis
      by (simp add: digits_in.simps [of b n])
  qed
qed

lemma read_base_Cons [simp]: "read_base b acc (c # s) = read_base b (acc * b + char_digit c) s"
  by (simp add: read_base_def)

lemma read_base_Nil [simp]: "read_base b acc [] = acc"
  by (simp add: read_base_def)

lemma read_base_mono: "0 < b \<Longrightarrow> acc \<le> read_base b acc s"
proof (induction s arbitrary: acc)
  case Nil
  then show ?case by simp
next
  case (Cons c s)
  have "acc \<le> acc * b + char_digit c"
    using Cons.prems by (simp add: trans_le_add1)
  also have "\<dots> \<le> read_base b (acc * b + char_digit c) s"
    using Cons by simp
  finally show ?case by simp
qed

lemma hexscan_digits:
  assumes "set s \<subseteq> digit_char ` {0..<16}" "off + length s \<le> 4" "read_base 16 acc s \<le> 65535"
    and "rest = [] \<or> hex_digit (hd rest) = None"
  shows "hexscan (s @ rest) off acc = Ok (read_base 16 acc s, off + length s, rest)"
  using assms
proof (induction s arbitrary: off acc)
  case Nil
  then show ?case by (cases rest) auto
next
  case (Cons c s)
  then obtain d where d: "c = digit_char d" "d < 16"
    by auto
  have "acc * 16 + d \<le> read_base 16 (acc * 16 + d) s"
    by (rule read_base_mono) simp
  with Cons d show ?case by simp
qed

lemma hexscan_hex:
  assumes "g < 65536" "rest = [] \<or> hex_digit (hd rest) = None"
  shows "hexscan (hex g @ rest) 0 0 = Ok (g, length (hex g), rest)"
  using hexscan_digits [of "hex g" 0 0 rest] assms set_hex [of g]
    length_digits_in [of 16 g 4] read_digits_in [of 16 g]
  by (simp add: hex_def)

lemma hd_hex: "hd (hex g) \<in> digit_char ` {0..<16}" and hd_dec: "hd (dec g) \<in> digit_char ` {0..<10}"
  using set_hex [of g] set_dec [of g] hd_in_set [of "hex g"] hd_in_set [of "dec g"] by auto

subsection \<open>Printed IPv4 addresses parse back\<close>

lemma parse4_digits:
  assumes "set s \<subseteq> digit_char ` {0..<10}" "0 < v" "read_base 10 v s \<le> 255"
  shows "parse4 (s @ rest) v k octets = parse4 rest (read_base 10 v s) (k + length s) octets"
  using assms
proof (induction s arbitrary: v k)
  case Nil
  then show ?case by simp
next
  case (Cons c s)
  then obtain d where d: "c = digit_char d" "d < 10"
    by auto
  have "v * 10 + d \<le> read_base 10 (v * 10 + d) s"
    by (rule read_base_mono) simp
  with Cons d show ?case by simp
qed

lemma parse4_dec:
  assumes "n \<le> 255"
  shows "parse4 (dec n @ rest) 0 0 octets = parse4 rest n (length (dec n)) octets"
proof (cases "n = 0")
  case True
  then show ?thesis by (simp add: dec_def digits_in.simps)
next
  case False
  obtain c s where cs: "dec n = c # s"
    by (cases "dec n") simp_all
  then obtain d where d: "c = digit_char d" "d < 10"
    using hd_dec [of n] by auto
  have "d \<noteq> 0"
  proof
    assume "d = 0"
    with cs d have "hd (digits_in 10 n) = digit_char 0"
      by (simp add: dec_def)
    with digits_in_head [of 10 n] False show False by simp
  qed
  have r: "read_base 10 d s = n"
    using read_digits_in [of 10 n] cs d by (simp add: dec_def)
  then have "d \<le> 255"
    using read_base_mono [of 10 d s] assms by simp
  then show ?thesis
    using parse4_digits [of s d rest 1 octets] set_dec [of n] cs d r assms \<open>d \<noteq> 0\<close> by simp
qed

lemma parse4_join:
  assumes "\<forall>n \<in> set ns. n \<le> 255" "ns \<noteq> []" "length octets + length ns = 4"
  shows "parse4 (join (CHR ''.'') (map dec ns)) 0 0 octets = Ok (octets @ ns)"
  using assms
proof (induction ns arbitrary: octets)
  case Nil
  then show ?case by simp
next
  case (Cons n ns)
  show ?case
  proof (cases ns)
    case Nil
    then show ?thesis
      using Cons.prems parse4_dec [of n "[]" octets] by simp
  next
    case (Cons m ms)
    have ne: "join (CHR ''.'') (map dec ns) \<noteq> []"
      using \<open>ns = m # ms\<close> by (cases ms) simp_all
    have "parse4 (join (CHR ''.'') (map dec (n # ns))) 0 0 octets
        = parse4 (CHR ''.'' # join (CHR ''.'') (map dec ns)) n (length (dec n)) octets"
      using Cons.prems \<open>ns = m # ms\<close> by (simp add: parse4_dec)
    also have "\<dots> = parse4 (join (CHR ''.'') (map dec ns)) 0 0 (octets @ [n])"
      using Cons.prems \<open>ns = m # ms\<close> ne by simp
    also have "\<dots> = Ok (octets @ n # ns)"
      using Cons.IH [of "octets @ [n]"] Cons.prems \<open>ns = m # ms\<close> by simp
    finally show ?thesis .
  qed
qed

definition octets4 :: "32 word \<Rightarrow> nat list" where
  "octets4 w = map (\<lambda>i. unat (ucast (drop_bit (8 * (3 - i)) w) :: byte)) [0..<4]"

lemma string4_octets: "string4 w = join (CHR ''.'') (map dec (octets4 w))"
  by (simp add: string4_def octets4_def comp_def)

lemma octets4_bound: "\<forall>n \<in> set (octets4 w). n \<le> 255"
proof -
  have "unat (b :: byte) \<le> 255" for b
    using unsigned_less [where 'a = nat and w = b] by simp
  then show ?thesis by (simp add: octets4_def)
qed

lemma length_octets4 [simp]: "length (octets4 w) = 4"
  by (simp add: octets4_def)

lemma parse4_string4: "parse4 (string4 w) 0 0 [] = Ok (octets4 w)"
  using parse4_join [of "octets4 w" "[]"] octets4_bound [of w]
  by (simp add: string4_octets) (metis length_octets4 list.size(3) zero_neq_numeral)

lemma word4_octets4 [simp]: "word4 (octets4 w) = w"
proof (rule bit_word_eqI)
  fix n
  assume n: "n < LENGTH(32)"
  let ?bs = "map (of_nat :: nat \<Rightarrow> byte) (octets4 w)"
  have "word4 (octets4 w) = foldl (\<lambda>acc b. push_bit 8 acc OR ucast b) 0 ?bs"
    by (simp add: word4_def foldl_map)
  moreover have "8 * (3 - (3 - n div 8)) + n mod 8 = n" "3 - n div 8 < 4" "n mod 8 < 8"
    using n by simp_all
  ultimately show "bit (word4 (octets4 w)) n \<longleftrightarrow> bit w n"
    using n by (simp add: bit_foldl_bytes octets4_def bit_ucast_iff bit_drop_bit_eq)
qed

subsection \<open>Printed IPv6 addresses parse back\<close>

lemma groups_bound: "g \<in> set (groups w) \<Longrightarrow> g < 65536"
proof -
  have "unat (x :: 16 word) < 65536" for x
    using unsigned_less [where 'a = nat and w = x] by simp
  then show "g \<in> set (groups w) \<Longrightarrow> g < 65536"
    by (auto simp: groups_def)
qed

lemma length_groups [simp]: "length (groups w) = 8"
  by (simp add: groups_def)

definition group_bytes :: "nat list \<Rightarrow> byte list" where
  "group_bytes gs = concat (map (\<lambda>g. [of_nat (g div 256), of_nat g]) gs)"

lemma group_bytes_simps [simp]:
  "group_bytes [] = []"
  "group_bytes (g # gs) = of_nat (g div 256) # of_nat g # group_bytes gs"
  "group_bytes (xs @ ys) = group_bytes xs @ group_bytes ys"
  by (simp_all add: group_bytes_def)

lemma length_group_bytes [simp]: "length (group_bytes gs) = 2 * length gs"
  by (induction gs) simp_all

lemma group_bytes_zeros: "group_bytes (replicate n 0) = replicate (2 * n) 0"
  by (induction n) simp_all

lemma nth_group_bytes:
  "i < length gs \<Longrightarrow>
     group_bytes gs ! (2 * i) = of_nat (gs ! i div 256) \<and> group_bytes gs ! Suc (2 * i) = of_nat (gs ! i)"
proof (induction gs arbitrary: i)
  case Nil
  then show ?case by simp
next
  case (Cons g gs)
  then show ?case by (cases i) simp_all
qed

lemma group_bytes_groups: "group_bytes (groups w) = bytes16 w"
proof (rule nth_equalityI)
  show "length (group_bytes (groups w)) = length (bytes16 w)" by simp
next
  fix k
  assume "k < length (group_bytes (groups w))"
  then have k: "k < 16" by simp
  define i where "i = k div 2"
  have i: "i < 8"
    using k by (simp add: i_def)
  then have gi: "groups w ! i = unat (v6u16 w i)"
    by (simp add: groups_def)
  consider "k = 2 * i" | "k = Suc (2 * i)"
    unfolding i_def by linarith
  then show "group_bytes (groups w) ! k = bytes16 w ! k"
  proof cases
    case 1
    have "(of_nat (unat (v6u16 w i) div 256) :: byte) = ucast (drop_bit 8 (v6u16 w i))"
    proof -
      have "unat (v6u16 w i) div 256 = unat (drop_bit 8 (v6u16 w i))"
        by (simp add: unat_drop_bit_eq drop_bit_eq_div [of 8 "unat _"])
      then show ?thesis by simp
    qed
    also have "\<dots> = bytes16 w ! k"
      using i 1 by (intro bit_word_eqI)
        (simp add: bit_bytes16 bit_ucast_iff bit_drop_bit_eq v6u16_def algebra_simps)
    finally show ?thesis
      using nth_group_bytes [of i "groups w"] i gi 1 by simp
  next
    case 2
    have "(of_nat (unat (v6u16 w i)) :: byte) = ucast (v6u16 w i)"
      by simp
    also have "\<dots> = bytes16 w ! k"
      using i 2 by (intro bit_word_eqI)
        (simp add: bit_bytes16 bit_ucast_iff bit_drop_bit_eq v6u16_def algebra_simps)
    finally show ?thesis
      using nth_group_bytes [of i "groups w"] i gi 2 by simp
  qed
qed

lemma hd_join_hex:
  "gs \<noteq> [] \<Longrightarrow> join (CHR '':'') (map hex gs) \<noteq> [] \<and>
     hd (join (CHR '':'') (map hex gs)) \<in> digit_char ` {0..<16}"
proof (cases gs)
  case (Cons g gs')
  then show ?thesis
    using hd_hex [of g] by (cases gs') simp_all
qed simp

lemma hd_hex_not_colon: "x \<in> digit_char ` {0..<16} \<Longrightarrow> x \<noteq> CHR '':'' \<and> x \<noteq> CHR ''.''"
  using not_hex(1,2) by blast

text \<open>One field followed by a colon and a further field.\<close>

lemma parse6_loop_field:
  assumes "g < 65536" "length ip < 16" "t \<noteq> []" "hd t \<noteq> CHR '':''"
  shows "parse6_loop (hex g @ CHR '':'' # t) ip ell =
     parse6_loop t (ip @ group_bytes [g]) ell"
  using assms hexscan_hex [of g "CHR '':'' # t"]
  by (subst parse6_loop.simps) (simp add: Let_def)

lemma parse6_loop_last:
  assumes "g < 65536" "length ip < 16"
  shows "parse6_loop (hex g) ip ell = Ok ([], ip @ group_bytes [g], ell)"
  using assms hexscan_hex [of g "[]"]
  by (subst parse6_loop.simps) (simp add: Let_def)

lemma parse6_loop_ellipsis:
  assumes "g < 65536" "length ip < 16"
  shows "parse6_loop (hex g @ ''::'' @ t) ip None =
     (let ip' = ip @ group_bytes [g] in
      if t = [] then Ok ([], ip', Some (length ip')) else parse6_loop t ip' (Some (length ip')))"
  using assms hexscan_hex [of g "''::'' @ t"]
  by (subst parse6_loop.simps) (simp add: Let_def)

lemma parse6_loop_groups:
  assumes "gs \<noteq> []" "\<forall>g \<in> set gs. g < 65536" "length ip + 2 * length gs \<le> 16"
  shows "parse6_loop (join (CHR '':'') (map hex gs)) ip ell = Ok ([], ip @ group_bytes gs, ell)"
  using assms
proof (induction gs arbitrary: ip)
  case Nil
  then show ?case by simp
next
  case (Cons g gs)
  show ?case
  proof (cases gs)
    case Nil
    then show ?thesis
      using Cons.prems by (simp add: parse6_loop_last)
  next
    case (Cons h hs)
    then have "join (CHR '':'') (map hex (g # gs)) = hex g @ CHR '':'' # join (CHR '':'') (map hex gs)"
      by simp
    moreover have "join (CHR '':'') (map hex gs) \<noteq> []" "hd (join (CHR '':'') (map hex gs)) \<noteq> CHR '':''"
      using hd_join_hex [of gs] hd_hex_not_colon \<open>gs = h # hs\<close> by auto
    ultimately show ?thesis
      using Cons.IH [of "ip @ group_bytes [g]"] Cons.prems \<open>gs = h # hs\<close>
      by (simp add: parse6_loop_field del: join.simps)
  qed
qed

lemma parse6_loop_front:
  assumes "gs \<noteq> []" "\<forall>g \<in> set gs. g < 65536" "length ip + 2 * length gs \<le> 16"
  shows "parse6_loop (join (CHR '':'') (map hex gs) @ ''::'' @ t) ip None =
     (let ip' = ip @ group_bytes gs in
      if t = [] then Ok ([], ip', Some (length ip')) else parse6_loop t ip' (Some (length ip')))"
  using assms
proof (induction gs arbitrary: ip)
  case Nil
  then show ?case by simp
next
  case (Cons g gs)
  show ?case
  proof (cases gs)
    case Nil
    then show ?thesis
      using Cons.prems parse6_loop_ellipsis [of g ip t] by simp
  next
    case (Cons h hs)
    then have "join (CHR '':'') (map hex (g # gs)) @ ''::'' @ t =
        hex g @ CHR '':'' # (join (CHR '':'') (map hex gs) @ ''::'' @ t)"
      by simp
    moreover have "join (CHR '':'') (map hex gs) @ ''::'' @ t \<noteq> []"
        "hd (join (CHR '':'') (map hex gs) @ ''::'' @ t) \<noteq> CHR '':''"
      using hd_join_hex [of gs] hd_hex_not_colon \<open>gs = h # hs\<close> by auto
    ultimately have "parse6_loop (join (CHR '':'') (map hex (g # gs)) @ ''::'' @ t) ip None =
        parse6_loop (join (CHR '':'') (map hex gs) @ ''::'' @ t) (ip @ group_bytes [g]) None"
      using Cons.prems parse6_loop_field [of g ip "join (CHR '':'') (map hex gs) @ ''::'' @ t" None]
      by simp
    also have "\<dots> = (let ip' = (ip @ group_bytes [g]) @ group_bytes gs in
      if t = [] then Ok ([], ip', Some (length ip')) else parse6_loop t ip' (Some (length ip')))"
      using Cons.prems \<open>gs = h # hs\<close> by (intro Cons.IH) simp_all
    finally show ?thesis by simp
  qed
qed

lemma zero_run_Some:
  assumes "zero_run gs = Some (s, e)"
  shows "s + 2 \<le> e \<and> e \<le> length gs \<and> drop s gs = replicate (e - s) 0 @ drop e gs"
proof -
  let ?ok = "\<lambda>r. case r of None \<Rightarrow> True
    | Some (s, e) \<Rightarrow> s + 2 \<le> e \<and> e \<le> length gs \<and> drop s gs = replicate (e - s) (0 :: nat) @ drop e gs"
  let ?f = "\<lambda>i best. let l = zero_run_at gs i in
        if 2 \<le> l \<and> (case best of None \<Rightarrow> True | Some (s, e) \<Rightarrow> e - s < l)
        then Some (i, i + l) else best"
  have step: "?ok (Some (i, i + zero_run_at gs i))" if "2 \<le> zero_run_at gs i" for i
  proof -
    let ?l = "zero_run_at gs i"
    have tw: "takeWhile (\<lambda>g. g = 0) (drop i gs) = replicate ?l 0"
      unfolding zero_run_at_def by (rule replicate_eqI) (auto dest: set_takeWhileD)
    have dw: "dropWhile (\<lambda>g. g = 0) (drop i gs) = drop (i + ?l) gs"
      by (simp add: dropWhile_eq_drop zero_run_at_def add.commute)
    have "drop i gs = replicate ?l 0 @ drop (i + ?l) gs"
      using takeWhile_dropWhile_id [of "\<lambda>g. g = 0" "drop i gs"] tw dw by simp
    moreover have "?l \<le> length (drop i gs)"
      unfolding zero_run_at_def by (rule length_takeWhile_le)
    moreover from this have "i + ?l \<le> length gs"
      using that by simp
    ultimately show ?thesis
      using that by simp
  qed
  have "?ok (fold ?f is best)" if "?ok best" for "is" best
    using that
  proof (induction "is" arbitrary: best)
    case Nil
    then show ?case by simp
  next
    case (Cons i "is")
    have "?ok (?f i best)"
      using Cons.prems step [of i] by (auto simp: Let_def)
    then show ?case
      using Cons.IH by simp
  qed
  from this [of None "[0..<length gs]"] assms show ?thesis
    by (simp add: zero_run_def)
qed

lemma parse6_finish_ellipsis:
  assumes "length (group_bytes gs) + length (group_bytes hs) < 16"
  shows "parse6_finish ([], group_bytes gs @ group_bytes hs, Some (length (group_bytes gs))) =
     Ok (group_bytes (gs @ replicate (8 - length gs - length hs) 0 @ hs))"
proof -
  have "16 - (2 * length gs + 2 * length hs) = 2 * (8 - length gs - length hs)"
    by simp
  then show ?thesis
    using assms by (simp add: parse6_finish_def group_bytes_zeros)
qed

lemma hex_text_chars:
  "set (join (CHR '':'') (map hex gs)) \<subseteq> insert (CHR '':'') (digit_char ` {0..<16})"
proof -
  have "\<Union> (set ` set (map hex gs)) \<subseteq> digit_char ` {0..<16}"
    using set_hex by fastforce
  then show ?thesis
    using set_join [of "CHR '':''" "map hex gs"] by blast
qed

lemma set_string6: "set (string6 w) \<subseteq> insert (CHR '':'') (digit_char ` {0..<16})"
  using hex_text_chars by (auto simp: string6_def Let_def split: option.splits)

lemma colon_in_string6: "CHR '':'' \<in> set (string6 w)"
proof (cases "zero_run (groups w)")
  case None
  obtain g h gs where "groups w = g # h # gs"
    using length_groups [of w] by (cases "groups w"; cases "tl (groups w)") auto
  with None show ?thesis
    by (simp add: string6_def)
qed (auto simp: string6_def Let_def)

text \<open>The body of \<^verbatim>\<open>parseIPv6\<close> once the zone is split off.\<close>

definition parse6_body :: "string \<Rightarrow> addr_error + byte list" where
  "parse6_body s =
     (let lead = take 2 s = ''::'' in
      if lead \<and> drop 2 s = [] then Ok (replicate 16 0)
      else (case parse6_loop (if lead then drop 2 s else s) [] (if lead then Some 0 else None) of
          Inl e \<Rightarrow> Err e | Inr r \<Rightarrow> parse6_finish r))"

lemma word_of_zero_bytes: "word_of_bytes (replicate 16 0) = 0"
  by (rule bit_word_eqI) (simp add: bit_word_of_bytes)

lemma parseIPv6_body:
  assumes "CHR ''%'' \<notin> set s"
  shows "parseIPv6 (s @ zone_suffix z) =
     (case parse6_body s of Inl e \<Rightarrow> Err e | Inr bs \<Rightarrow> Ok (Addr6 (word_of_bytes bs) z))"
proof -
  have "takeWhile (\<lambda>c. c \<noteq> CHR ''%'') (s @ zone_suffix z) = s"
    "dropWhile (\<lambda>c. c \<noteq> CHR ''%'') (s @ zone_suffix z) = zone_suffix z"
    using assms by (auto simp: zone_suffix_def takeWhile_append dropWhile_append3 takeWhile_eq_all_conv)
  then have "split_zone (s @ zone_suffix z) = Ok (s, z)"
    by (simp add: split_zone_def zone_suffix_def)
  then show ?thesis
    by (simp add: parseIPv6_def parse6_body_def Let_def word_of_zero_bytes AddrFrom16_def WithZone_def
        split: sum.splits)
qed

lemma parse6_body_string6: "parse6_body (string6 w) = Ok (bytes16 w)"
proof -
  define gs where "gs = groups w"
  have len: "length gs = 8" and bnd: "\<forall>g \<in> set gs. g < 65536"
    using groups_bound by (auto simp: gs_def)
  have gb: "group_bytes gs = bytes16 w"
    by (simp add: gs_def group_bytes_groups)
  show ?thesis
  proof (cases "zero_run gs")
    case None
    let ?t = "join (CHR '':'') (map hex gs)"
    have "gs \<noteq> []"
      using len by auto
    then have "hd ?t \<noteq> CHR '':''"
      using hd_join_hex [of gs] hd_hex_not_colon by blast
    then have "take 2 ?t \<noteq> ''::''"
      by (cases ?t) auto
    moreover have "parse6_loop ?t [] None = Ok ([], bytes16 w, None)"
      using parse6_loop_groups [of gs "[]" None] len bnd gb \<open>gs \<noteq> []\<close> by simp
    ultimately show ?thesis
      using None by (simp add: string6_def parse6_body_def parse6_finish_def flip: gs_def)
  next
    case (Some se)
    obtain s e where se: "se = (s, e)" by fastforce
    have run: "s + 2 \<le> e" "e \<le> 8" "drop s gs = replicate (e - s) 0 @ drop e gs"
      using zero_run_Some [of gs s e] Some se len by auto
    let ?f = "take s gs" and ?r = "drop e gs"
    let ?front = "join (CHR '':'') (map hex ?f)" and ?rear = "join (CHR '':'') (map hex ?r)"
    have form: "string6 w = ?front @ ''::'' @ ?rear"
      using Some se by (simp add: string6_def flip: gs_def)
    have "?f @ replicate (e - s) 0 @ ?r = gs"
      by (metis append_take_drop_id run(3))
    then have whole: "group_bytes (?f @ replicate (8 - length ?f - length ?r) 0 @ ?r) = bytes16 w"
      using gb len run by simp
    have fin: "parse6_finish ([], group_bytes ?f @ group_bytes ?r, Some (2 * s)) = Ok (bytes16 w)"
      using parse6_finish_ellipsis [of ?f ?r] run len whole by simp
    have bf: "\<forall>g \<in> set ?f. g < 65536" and br: "\<forall>g \<in> set ?r. g < 65536"
      using bnd by (auto dest: in_set_takeD in_set_dropD)
    have rear_loop: "?r \<noteq> [] \<Longrightarrow>
        parse6_loop ?rear (group_bytes ?f) ell = Ok ([], group_bytes ?f @ group_bytes ?r, ell)" for ell
      using run len br by (intro parse6_loop_groups) simp_all
    have rear_empty: "?rear = [] \<longleftrightarrow> ?r = []"
      using hd_join_hex [of ?r] by auto
    show ?thesis
    proof (cases "s = 0")
      case True
      then show ?thesis
        using fin rear_loop [of "Some 0"] rear_empty whole run len
        by (cases "?r = []") (auto simp: parse6_body_def form group_bytes_zeros)
    next
      case False
      then have "?f \<noteq> []" using len by auto
      then have "hd ?front \<noteq> CHR '':''" "?front \<noteq> []"
        using hd_join_hex [of ?f] hd_hex_not_colon by auto
      then have "take 2 (string6 w) \<noteq> ''::''"
        by (cases ?front) (auto simp: form)
      moreover have "parse6_loop (string6 w) [] None = Ok ([], group_bytes ?f @ group_bytes ?r, Some (2 * s))"
        using parse6_loop_front [of ?f "[]" ?rear] rear_loop [of "Some (2 * s)"] rear_empty
          \<open>?f \<noteq> []\<close> bf run len
        by (cases "?r = []") (auto simp: form Let_def)
      ultimately show ?thesis
        using fin by (simp add: parse6_body_def)
    qed
  qed
qed

lemma digit_char_mono: "digit_char ` {0..<10} \<subseteq> digit_char ` {0..<16}"
  by (rule image_mono) auto

lemma digit_char_f: "CHR ''f'' = digit_char 15"
proof -
  have "of_char (CHR ''f'') = (102 :: nat)"
    by simp
  then have "char_of (102 :: nat) = CHR ''f''"
    by (metis char_of_char)
  then show ?thesis by (simp add: digit_char_def)
qed

lemma octets4_list: "\<exists>a b c d. octets4 w = [a, b, c, d]"
proof -
  have "[0..<4] = [0, 1, 2, 3]"
    by (simp add: upt_rec)
  then show ?thesis
    by (simp add: octets4_def)
qed

lemma set_string4: "set (string4 w) \<subseteq> insert (CHR ''.'') (digit_char ` {0..<10})"
proof -
  have "\<Union> (set ` set (map dec (octets4 w))) \<subseteq> digit_char ` {0..<10}"
    using set_dec by fastforce
  then show ?thesis
    using set_join [of "CHR ''.''" "map dec (octets4 w)"] unfolding string4_octets by blast
qed

lemma dec_hexscan:
  assumes "n \<le> 255"
  shows "\<exists>acc off. hexscan (dec n @ CHR ''.'' # rest) 0 0 = Ok (acc, off, CHR ''.'' # rest) \<and> off \<noteq> 0"
proof -
  have len: "length (dec n) \<le> 3"
    using length_digits_in [of 10 n 3] assms by (simp add: dec_def)
  have sub: "set (dec n) \<subseteq> digit_char ` {0..<16}"
    using set_dec [of n] digit_char_mono by blast
  have bound: "set s \<subseteq> digit_char ` {0..<16} \<Longrightarrow>
      read_base 16 acc s + 1 \<le> (acc + 1) * 16 ^ length s" for s acc
  proof (induction s arbitrary: acc)
    case Nil
    then show ?case by simp
  next
    case (Cons c s)
    then obtain d where d: "c = digit_char d" "d < 16" by auto
    have "read_base 16 (acc * 16 + d) s + 1 \<le> (acc * 16 + d + 1) * 16 ^ length s"
      using Cons by simp
    also have "\<dots> \<le> ((acc + 1) * 16) * 16 ^ length s"
      using d by (intro mult_right_mono) simp_all
    finally show ?case
      using d by (simp add: algebra_simps)
  qed
  have "(16 :: nat) ^ length (dec n) \<le> 16 ^ 3"
    using len by (intro power_increasing) simp_all
  then have "read_base 16 0 (dec n) \<le> 65535"
    using bound [OF sub, of 0] by simp
  then show ?thesis
    using hexscan_digits [OF sub, of 0 0 "CHR ''.'' # rest"] len by auto
qed

lemma parse6_loop_string4:
  "parse6_loop (string4 v) [0xFF, 0xFF] (Some 0) =
     Ok ([], [0xFF, 0xFF] @ map of_nat (octets4 v), Some 0)"
proof -
  obtain a b c d where oct: "octets4 v = [a, b, c, d]"
    using octets4_list by blast
  then have "a \<le> 255"
    using octets4_bound [of v] by simp
  moreover have form: "string4 v = dec a @ CHR ''.'' # join (CHR ''.'') (map dec [b, c, d])"
    using oct by (simp add: string4_octets)
  ultimately obtain acc off where
    "hexscan (string4 v) 0 0 = Ok (acc, off, CHR ''.'' # join (CHR ''.'') (map dec [b, c, d]))"
    "off \<noteq> 0"
    using dec_hexscan [of a] by metis
  then show ?thesis
    using parse4_string4 [of v] by (subst parse6_loop.simps) simp
qed

lemma bytes16_mapped:
  assumes "drop_bit 32 w = (0xFFFF :: 128 word)"
  shows "bytes16 w = replicate 10 0 @ [0xFF, 0xFF] @ map of_nat (octets4 (ucast w))"
proof -
  have bits: "bit w (32 + k) \<longleftrightarrow> k < 16" for k
  proof -
    have "bit w (32 + k) \<longleftrightarrow> bit (drop_bit 32 w) k"
      by (simp add: bit_drop_bit_eq)
    also have "\<dots> \<longleftrightarrow> bit (mask 16 :: 128 word) k"
      using assms by (simp add: mask_numeral)
    also have "\<dots> \<longleftrightarrow> k < 16"
      by (auto simp: bit_mask_iff)
    finally show ?thesis .
  qed
  have high: "bit w k \<longleftrightarrow> k < 48" if "32 \<le> k" for k
    using bits [of "k - 32"] that by auto
  have zero: "(ucast (drop_bit k w) :: byte) = 0" if "48 \<le> k" for k
    using that by (intro bit_word_eqI) (simp add: bit_ucast_iff bit_drop_bit_eq high)
  have ones: "(ucast (drop_bit k w) :: byte) = 0xFF" if "k = 32 \<or> k = 40" for k
  proof -
    have "(ucast (drop_bit k w) :: byte) = -1"
      using that by (intro bit_word_eqI) (auto simp: bit_ucast_iff bit_drop_bit_eq high)
    then show ?thesis by simp
  qed
  have low: "(ucast (drop_bit k w) :: byte) = of_nat (unat (ucast (drop_bit k (ucast w :: 32 word)) :: byte))"
    if "k \<in> {0, 8, 16, 24}" for k
    using that by (intro bit_word_eqI) (auto simp: bit_ucast_iff bit_drop_bit_eq)
  have "[0..<16] = [0,1,2,3,4,5,6,7,8,9,10,11,12,13,14,15]" "[0..<4] = [0,1,2,3]"
    by (simp_all add: upt_rec)
  moreover have "replicate 10 (0 :: byte) = [0,0,0,0,0,0,0,0,0,0]"
    by (simp add: numeral_eq_Suc)
  ultimately show ?thesis
    using ones [of 32] ones [of 40] low [of 0] low [of 8] low [of 16] low [of 24]
    by (simp add: bytes16_def octets4_def zero)
qed

lemma parse6_body_mapped:
  assumes "drop_bit 32 w = (0xFFFF :: 128 word)"
  shows "parse6_body (''::ffff:'' @ string4 (ucast w)) = Ok (bytes16 w)"
proof -
  let ?v = "ucast w :: 32 word"
  have ne: "string4 ?v \<noteq> []"
    using parse4_string4 [of ?v] by (auto split: if_splits)
  moreover have "CHR '':'' \<notin> set (string4 ?v)"
    using set_string4 [of ?v] not_dec(2) by blast
  ultimately have hd: "hd (string4 ?v) \<noteq> CHR '':''"
    by (cases "string4 ?v") auto
  have hex: "hex 65535 = ''ffff''"
    by (simp add: hex_def digits_in.simps [of 16 65535] digits_in.simps [of 16 4095]
        digits_in.simps [of 16 255] digits_in.simps [of 16 15] digit_char_f)
  have "parse6_loop (''ffff:'' @ string4 ?v) [] (Some 0) =
      parse6_loop (string4 ?v) (group_bytes [65535]) (Some 0)"
    using parse6_loop_field [of 65535 "[]" "string4 ?v" "Some 0"] ne hd hex by simp
  also have "group_bytes [65535] = [0xFF, 0xFF]"
  proof -
    have "(65535 :: byte) = 0xFF" by (simp add: word_eq_iff_unsigned [where 'a = nat])
    then show ?thesis by simp
  qed
  also have "parse6_loop (string4 ?v) [0xFF, 0xFF] (Some 0) =
      Ok ([], [0xFF, 0xFF] @ map of_nat (octets4 ?v), Some 0)"
    by (rule parse6_loop_string4)
  finally show ?thesis
    using bytes16_mapped [OF assms] by (simp add: parse6_body_def parse6_finish_def)
qed

subsection \<open>Round trips\<close>

lemma find_only:
  assumes "\<forall>c \<in> set s. P c \<longrightarrow> c = x" "x \<in> set s" "P x"
  shows "find P (s @ t) = Some x"
  using assms
proof (induction s)
  case Nil
  then show ?case by simp
next
  case (Cons a s)
  show ?case
  proof (cases "P a")
    case True
    with Cons.prems(1) have "a = x" by (metis list.set_intros(1))
    with True show ?thesis by simp
  next
    case False
    have "find P (s @ t) = Some x"
    proof (rule Cons.IH)
      show "\<forall>c \<in> set s. P c \<longrightarrow> c = x" "P x"
        using Cons.prems by (metis list.set_intros(2))+
      show "x \<in> set s"
        using Cons.prems(2,3) False by (metis set_ConsD)
    qed
    with False show ?thesis by simp
  qed
qed

text \<open>
  Printing a valid address and parsing the text gives the address back, zone included.
\<close>

lemma ParseAddr_AddrString:
  assumes "a \<noteq> AddrZero"
  shows "ParseAddr (AddrString a) = Ok a"
proof (cases a)
  case AddrZero
  with assms show ?thesis by simp
next
  case (Addr4 w)
  let ?P = "\<lambda>c. c \<in> {CHR ''.'', CHR '':'', CHR ''%''}"
  have chars: "set (string4 w) \<subseteq> insert (CHR ''.'') (digit_char ` {0..<10})"
    by (rule set_string4)
  have "CHR ''.'' \<in> set (string4 w)"
    using octets4_list [of w] by (auto simp: string4_octets)
  moreover have "CHR '':'' \<notin> set (string4 w)" "CHR ''%'' \<notin> set (string4 w)"
    using chars not_dec(2,3) by blast+
  ultimately have "find ?P (string4 w @ []) = Some (CHR ''.'')"
    by (intro find_only) auto
  then show ?thesis
    using Addr4 parse4_string4 [of w] by (simp add: AddrString_def ParseAddr_def parseIPv4_def)
next
  case (Addr6 w z)
  let ?P = "\<lambda>c. c \<in> {CHR ''.'', CHR '':'', CHR ''%''}"
  show ?thesis
  proof (cases "Is4In6 a")
    case True
    then have w: "drop_bit 32 w = 0xFFFF"
      using Addr6 by (simp add: Is4In6_def)
    let ?s = "''::ffff:'' @ string4 (ucast w)"
    have "find ?P (?s @ zone_suffix z) = Some (CHR '':'')"
      by simp
    moreover have "CHR ''%'' \<notin> set (string4 (ucast w))"
      using set_string4 [of "ucast w"] not_dec(3) by blast
    then have "CHR ''%'' \<notin> set ?s"
      by simp
    then have "parseIPv6 (?s @ zone_suffix z) = Ok a"
      using parseIPv6_body [of ?s z] parse6_body_mapped [OF w] Addr6 by simp
    ultimately show ?thesis
      using True Addr6 by (simp add: AddrString_def ParseAddr_def)
  next
    case False
    have chars: "set (string6 w) \<subseteq> insert (CHR '':'') (digit_char ` {0..<16})"
      by (rule set_string6)
    have nin: "CHR ''.'' \<notin> set (string6 w)" "CHR ''%'' \<notin> set (string6 w)"
      using chars not_hex(1,3) by blast+
    then have "find ?P (string6 w @ zone_suffix z) = Some (CHR '':'')"
      using colon_in_string6 [of w] by (intro find_only) auto
    moreover have "parseIPv6 (string6 w @ zone_suffix z) = Ok a"
      using parseIPv6_body [of "string6 w" z] parse6_body_string6 [of w] Addr6 nin by simp
    ultimately show ?thesis
      using False Addr6 by (simp add: AddrString_def ParseAddr_def)
  qed
qed

lemma AddrString_inj:
  "a \<noteq> AddrZero \<Longrightarrow> b \<noteq> AddrZero \<Longrightarrow> AddrString a = AddrString b \<longleftrightarrow> a = b"
  by (metis ParseAddr_AddrString sum.inject(2))

text \<open>Characters of a zone-free address.\<close>

lemma set_AddrString:
  "a \<noteq> AddrZero \<Longrightarrow> Zone a = [] \<Longrightarrow>
     set (AddrString a) \<subseteq> {CHR '':'', CHR ''.''} \<union> digit_char ` {0..<16}"
proof -
  have ff: "set ''::ffff:'' \<subseteq> {CHR '':'', CHR ''.''} \<union> digit_char ` {0..<16}"
    unfolding digit_char_f by auto
  have s4: "set (string4 w) \<subseteq> {CHR '':'', CHR ''.''} \<union> digit_char ` {0..<16}" for w
    using set_string4 [of w] digit_char_mono by blast
  have s6: "set (string6 w) \<subseteq> {CHR '':'', CHR ''.''} \<union> digit_char ` {0..<16}" for w
    using set_string6 [of w] by blast
  assume "a \<noteq> AddrZero" "Zone a = []"
  then consider w where "a = Addr4 w" | w where "a = Addr6 w []"
    by (cases a) (auto simp: Zone_def)
  then show ?thesis
  proof cases
    case 1
    then show ?thesis using s4 by (simp add: AddrString_def)
  next
    case 2
    then show ?thesis
      using s4 [of "ucast w"] s6 [of w] ff
      by (cases "Is4In6 a") (simp_all add: AddrString_def zone_suffix_def)
  qed
qed

lemma rsplit_slash_append:
  "CHR ''/'' \<notin> set t \<Longrightarrow> rsplit_slash (s @ CHR ''/'' # t) = Some (s, t)"
proof -
  assume "CHR ''/'' \<notin> set t"
  then have "\<forall>x \<in> set (rev t). x \<noteq> CHR ''/''"
    by auto
  then have "dropWhile (\<lambda>c. c \<noteq> CHR ''/'') (rev t @ CHR ''/'' # rev s) = CHR ''/'' # rev s"
    "takeWhile (\<lambda>c. c \<noteq> CHR ''/'') (rev t @ CHR ''/'' # rev s) = rev t"
    by (simp_all add: dropWhile_append2 takeWhile_append2 del: set_rev)
  then show ?thesis
    by (simp add: rsplit_slash_def)
qed

lemma atoi_dec: "n < 2 ^ 63 \<Longrightarrow> atoi (dec n) = Some n"
proof -
  assume n: "n < 2 ^ 63"
  have "\<forall>c \<in> set (dec n). dec_digit c \<noteq> None"
    using set_dec [of n] by auto
  then show ?thesis
    using n read_digits_in [of 10 n] by (auto simp: atoi_def dec_def)
qed

text \<open>A printed prefix parses back to itself.\<close>

lemma ParsePrefix_PrefixString:
  assumes "wf_prefix p" "IsValid p"
  shows "netip_ParsePrefix (PrefixString p) = Ok p"
proof -
  let ?n = "nat (Bits p)"
  have ip: "pfx_ip p \<noteq> AddrZero" "Zone (pfx_ip p) = []"
    and bits: "0 \<le> Bits p" "Bits p \<le> BitLen (pfx_ip p)"
    using assms by (auto simp: wf_prefix_def IsValid_iff_Bits)
  have small: "?n < 2 ^ 63"
    using bits by (cases "pfx_ip p") (auto simp: BitLen_def)
  have "CHR ''/'' \<notin> set (dec ?n)"
    using set_dec [of ?n] not_dec(4) by blast
  then have spl: "rsplit_slash (AddrString (pfx_ip p) @ ''/'' @ dec ?n) = Some (AddrString (pfx_ip p), dec ?n)"
    using rsplit_slash_append by simp
  have lead: "\<not> (length (dec ?n) > 1 \<and> (case dec_digit (hd (dec ?n)) of None \<Rightarrow> True | Some d \<Rightarrow> d = 0))"
  proof (cases "?n = 0")
    case True
    then show ?thesis by (simp add: dec_def digits_in.simps)
  next
    case False
    obtain d where d: "hd (dec ?n) = digit_char d" "d < 10"
      using hd_dec [of ?n] by auto
    moreover have "d \<noteq> 0"
    proof
      assume "d = 0"
      with d digits_in_head [of 10 ?n] False show False by (simp add: dec_def)
    qed
    ultimately show ?thesis by simp
  qed
  have "PrefixFrom (pfx_ip p) (Bits p) = p"
    using ip bits by (cases p, cases "pfx_ip p")
      (auto simp: PrefixFrom_def WithZone_def Zone_def Bits_def BitLen_def split: addr.splits)
  then show ?thesis
    using assms(2) ip bits spl lead small
    by (simp add: netip_ParsePrefix_def PrefixString_def ParseAddr_AddrString atoi_dec)
qed

lemma PrefixString_inj:
  "wf_prefix p \<Longrightarrow> IsValid p \<Longrightarrow> wf_prefix q \<Longrightarrow> IsValid q \<Longrightarrow>
     PrefixString p = PrefixString q \<longleftrightarrow> p = q"
  by (metis ParsePrefix_PrefixString sum.inject(2))

end
