(* ===== verification/Address_Calc.thy ===== *)
theory Address_Calc
  imports Netip_Text
begin

text \<open>
  Address arithmetic inside a delegated prefix: \<^verbatim>\<open>internal/prefix/addressrange.go\<close> and
  \<^verbatim>\<open>internal/prefix/subnet.go\<close>.  Address ranges merge a configured suffix with the leading bits of
  the prefix byte by byte; subnets are carved by big-integer arithmetic.  The theorems give
  the meaning of both: the byte loop is a bit mask, ranges stay inside the prefix, the subnets
  of one length partition it, \<^verbatim>\<open>RangeToCIDR\<close> is the longest prefix around a range and
  \<^verbatim>\<open>AddressCount\<close> is its size in 64-bit arithmetic.
\<close>

subsection \<open>Address ranges\<close>

record AddressRangeConfig =
  arc_Name :: string
  arc_Start :: string
  arc_End :: string

record AddressRange =
  ar_Name :: string
  ar_Start :: addr
  ar_End :: addr

datatype suffix_error = InvalidSuffix addr_error | SuffixNotIPv6

datatype range_error =
    InvalidStart string suffix_error
  | InvalidEnd string suffix_error
  | StartAfterEnd addr addr
  | StartOutside addr ipprefix
  | EndOutside addr ipprefix

text \<open>\<^verbatim>\<open>for i := lo; i < hi; i++ { dst[i] = src[i] }\<close>\<close>

definition copy_bytes :: "byte list \<Rightarrow> nat \<Rightarrow> nat \<Rightarrow> byte list \<Rightarrow> byte list" where
  "copy_bytes src lo hi dst = fold (\<lambda>i d. d[i := src ! i]) [lo..<hi] dst"

definition parseOffsetSuffix :: "ipprefix \<Rightarrow> string \<Rightarrow> suffix_error + addr" where
  "parseOffsetSuffix basePrefix suffix =
     (case ParseAddr suffix of
        Inl e \<Rightarrow> Err (InvalidSuffix e)
      | Inr suffixAddr \<Rightarrow>
          if \<not> Is6 suffixAddr then Err SuffixNotIPv6
          else
            let baseBytes = As16 (pfx_ip (Masked basePrefix));
                suffixBytes = As16 suffixAddr;
                prefixBits = Bits basePrefix;
                fullBytes = nat (go_div prefixBits 8);
                remainingBits = go_mod prefixBits 8;
                copied = copy_bytes baseBytes 0 fullBytes (replicate 16 0);
                (mixed, next) =
                  (if remainingBits > 0 \<and> fullBytes < 16 then
                     let m = push_bit (8 - nat remainingBits) (0xFF :: byte) in
                     (copied[fullBytes :=
                        ((baseBytes ! fullBytes) AND m) OR ((suffixBytes ! fullBytes) AND NOT m)],
                      fullBytes + 1)
                   else (copied, fullBytes))
            in Ok (AddrFrom16 (copy_bytes suffixBytes next 16 mixed)))"

definition CalculateAddressRange ::
  "ipprefix \<Rightarrow> AddressRangeConfig \<Rightarrow> range_error + AddressRange" where
  "CalculateAddressRange basePrefix cfg =
     (case parseOffsetSuffix basePrefix (arc_Start cfg) of
        Inl e \<Rightarrow> Err (InvalidStart (arc_Start cfg) e)
      | Inr startAddr \<Rightarrow>
          (case parseOffsetSuffix basePrefix (arc_End cfg) of
             Inl e \<Rightarrow> Err (InvalidEnd (arc_End cfg) e)
           | Inr endAddr \<Rightarrow>
               if Compare startAddr endAddr > 0 then Err (StartAfterEnd startAddr endAddr)
               else if \<not> Contains basePrefix startAddr then Err (StartOutside startAddr basePrefix)
               else if \<not> Contains basePrefix endAddr then Err (EndOutside endAddr basePrefix)
               else Ok \<lparr>ar_Name = arc_Name cfg, ar_Start = startAddr, ar_End = endAddr\<rparr>))"

datatype ranges_error = RangesNotIPv6 | RangeFailed string range_error

definition CalculateAddressRanges ::
  "ipprefix \<Rightarrow> AddressRangeConfig list \<Rightarrow> ranges_error + AddressRange list" where
  "CalculateAddressRanges basePrefix configs =
     (if \<not> Is6 (pfx_ip basePrefix) then Err RangesNotIPv6
      else traverse (\<lambda>cfg.
        case CalculateAddressRange basePrefix cfg of
          Inl e \<Rightarrow> Err (RangeFailed (arc_Name cfg) e) | Inr ar \<Rightarrow> Ok ar) configs)"

text \<open>
  The common leading bits of two byte arrays.  The inner loop counts down from bit 7 of the
  first differing byte until it meets the difference.
\<close>

fun leading_equal :: "byte \<Rightarrow> nat \<Rightarrow> nat" where
  "leading_equal diff 0 = 0"
| "leading_equal diff (Suc b) = (if bit diff b then 0 else Suc (leading_equal diff b))"

fun common_bits :: "byte list \<Rightarrow> byte list \<Rightarrow> nat" where
  "common_bits (x # xs) (y # ys) =
     (if x = y then 8 + common_bits xs ys else leading_equal (x XOR y) 8)"
| "common_bits _ _ = 0"

definition RangeToCIDR :: "addr \<Rightarrow> addr \<Rightarrow> ipprefix" where
  "RangeToCIDR start endA =
     (case AddrPrefix start (int (common_bits (As16 start) (As16 endA))) of
        None \<Rightarrow> PrefixZero
      | Some p \<Rightarrow> Masked p)"

definition low64 :: "byte list \<Rightarrow> 64 word" where
  "low64 bs = foldl (\<lambda>acc b. push_bit 8 acc OR ucast b) 0 (drop 8 bs)"

definition AddressCount :: "addr \<Rightarrow> addr \<Rightarrow> 64 word" where
  "AddressCount start endA =
     (let startBytes = As16 start; endBytes = As16 endA in
      if \<exists>i \<in> set [0..<8]. startBytes ! i \<noteq> endBytes ! i then 0
      else let startLow = low64 startBytes; endLow = low64 endBytes in
        if endLow < startLow then 0 else endLow - startLow + 1)"

subsection \<open>Subnets\<close>

record SubnetConfig =
  sc_Name :: string
  sc_Offset :: int
  sc_PrefixLength :: int

record Subnet =
  sn_Name :: string
  sn_CIDR :: ipprefix

text \<open>
  The errors of \<^verbatim>\<open>CalculateSubnet\<close>; \<^verbatim>\<open>FillBytesPanic\<close> is the run-time panic of
  \<^verbatim>\<open>big.Int.FillBytes\<close> on a value wider than the buffer.
\<close>

datatype subnet_error =
    SubnetShorterThanBase int int
  | SubnetLengthExceeds128 int
  | SubnetOffsetOutOfRange int int ipprefix int
  | SubnetPrefixFailed
  | FillBytesPanic

definition big_of_bytes :: "byte list \<Rightarrow> int" where
  "big_of_bytes bs = uint (word_of_bytes bs)"

definition FillBytes16 :: "int \<Rightarrow> byte list option" where
  "FillBytes16 x = (if x < 2 ^ 128 then Some (bytes16 (word_of_int x)) else None)"

definition CalculateSubnet :: "ipprefix \<Rightarrow> SubnetConfig \<Rightarrow> subnet_error + Subnet" where
  "CalculateSubnet basePrefix cfg =
     (if sc_PrefixLength cfg < Bits basePrefix then
        Err (SubnetShorterThanBase (sc_PrefixLength cfg) (Bits basePrefix))
      else if sc_PrefixLength cfg > 128 then Err (SubnetLengthExceeds128 (sc_PrefixLength cfg))
      else
        let maxSubnets = 2 ^ nat (sc_PrefixLength cfg - Bits basePrefix) in
        if sc_Offset cfg < 0 \<or> sc_Offset cfg \<ge> maxSubnets then
          Err (SubnetOffsetOutOfRange (sc_Offset cfg) (sc_PrefixLength cfg) basePrefix maxSubnets)
        else
          let baseInt = big_of_bytes (As16 (pfx_ip (Masked basePrefix)));
              subnetSize = 2 ^ nat (128 - sc_PrefixLength cfg);
              subnetInt = baseInt + sc_Offset cfg * subnetSize
          in case FillBytes16 subnetInt of
               None \<Rightarrow> Err FillBytesPanic
             | Some subnetBytes \<Rightarrow>
                 (case AddrPrefix (AddrFrom16 subnetBytes) (sc_PrefixLength cfg) of
                    None \<Rightarrow> Err SubnetPrefixFailed
                  | Some p \<Rightarrow> Ok \<lparr>sn_Name = sc_Name cfg, sn_CIDR = p\<rparr>))"

datatype subnets_error = SubnetsNotIPv6 ipprefix | SubnetFailed string subnet_error

definition CalculateSubnets ::
  "ipprefix \<Rightarrow> SubnetConfig list \<Rightarrow> subnets_error + Subnet list" where
  "CalculateSubnets basePrefix configs =
     (if \<not> Is6 (pfx_ip basePrefix) then Err (SubnetsNotIPv6 basePrefix)
      else traverse (\<lambda>cfg.
        case CalculateSubnet basePrefix cfg of
          Inl e \<Rightarrow> Err (SubnetFailed (sc_Name cfg) e) | Inr s \<Rightarrow> Ok s) configs)"

datatype fits_error = SubnetInvalid subnet_error | SubnetOutside string ipprefix ipprefix

definition ValidateSubnetFitsInPrefix :: "ipprefix \<Rightarrow> SubnetConfig \<Rightarrow> fits_error option" where
  "ValidateSubnetFitsInPrefix basePrefix cfg =
     (case CalculateSubnet basePrefix cfg of
        Inl e \<Rightarrow> Some (SubnetInvalid e)
      | Inr subnet \<Rightarrow>
          if \<not> Contains basePrefix (pfx_ip (sn_CIDR subnet))
          then Some (SubnetOutside (sc_Name cfg) (sn_CIDR subnet) basePrefix)
          else None)"

definition ParsePrefix :: "string \<Rightarrow> (string \<times> prefix_error) + ipprefix" where
  "ParsePrefix cidr =
     (case netip_ParsePrefix cidr of
        Inl e \<Rightarrow> Err (cidr, e)
      | Inr p \<Rightarrow> Ok (Masked p))"

subsection \<open>The byte merge is a bit mask\<close>

lemma length_copy_bytes [simp]: "length (copy_bytes src lo hi dst) = length dst"
proof -
  have "length (fold (\<lambda>i d. d[i := src ! i]) is dst) = length dst" for "is" dst
    by (induction "is" arbitrary: dst) simp_all
  then show ?thesis by (simp add: copy_bytes_def)
qed

lemma nth_copy_bytes:
  "i < length dst \<Longrightarrow> copy_bytes src lo hi dst ! i = (if lo \<le> i \<and> i < hi then src ! i else dst ! i)"
proof (induction hi arbitrary: dst)
  case 0
  then show ?case by (simp add: copy_bytes_def)
next
  case (Suc hi)
  show ?case
  proof (cases "lo \<le> hi")
    case True
    then have "copy_bytes src lo (Suc hi) dst = (copy_bytes src lo hi dst)[hi := src ! hi]"
      by (simp add: copy_bytes_def)
    then have "copy_bytes src lo (Suc hi) dst ! i =
        (if hi = i then src ! i else copy_bytes src lo hi dst ! i)"
      using Suc.prems by (simp add: nth_list_update)
    also have "\<dots> = (if lo \<le> i \<and> i < Suc hi then src ! i else dst ! i)"
      using Suc.IH [OF Suc.prems] True by (auto simp: less_Suc_eq)
    finally show ?thesis .
  next
    case False
    then show ?thesis
      by (auto simp: copy_bytes_def)
  qed
qed

definition merge_bits :: "nat \<Rightarrow> 128 word \<Rightarrow> 128 word \<Rightarrow> 128 word" where
  "merge_bits n base suffix = (base AND mask6 n) OR (suffix AND NOT (mask6 n))"

lemma bit_merge_bits [go_bits]:
  "bit (merge_bits n b s) k \<longleftrightarrow> k < 128 \<and> (if 128 - n \<le> k then bit b k else bit s k)"
  using bit_imp_le_length [of s k] bit_imp_le_length [of b k]
  by (auto simp: merge_bits_def bit_or_iff bit_and_iff bit_not_iff bit_mask6)

text \<open>The bytes the three loops of \<^verbatim>\<open>parseOffsetSuffix\<close> leave behind.\<close>

definition merged_bytes :: "nat \<Rightarrow> byte list \<Rightarrow> byte list \<Rightarrow> byte list" where
  "merged_bytes n baseBytes suffixBytes =
     (let full = n div 8; r = n mod 8;
          copied = copy_bytes baseBytes 0 full (replicate 16 0);
          (mixed, next) =
            (if r > 0 \<and> full < 16 then
               let m = push_bit (8 - r) (0xFF :: byte) in
               (copied[full := ((baseBytes ! full) AND m) OR ((suffixBytes ! full) AND NOT m)], full + 1)
             else (copied, full))
      in copy_bytes suffixBytes next 16 mixed)"

lemma length_merged_bytes [simp]: "length (merged_bytes n b s) = 16"
  by (simp add: merged_bytes_def Let_def)

lemma nth_merged_bytes:
  assumes "i < 16" "n \<le> 128"
  shows "merged_bytes n b s ! i =
     (if i < n div 8 then b ! i
      else if i = n div 8 \<and> n mod 8 > 0 then
        ((b ! i) AND push_bit (8 - n mod 8) 0xFF) OR ((s ! i) AND NOT (push_bit (8 - n mod 8) 0xFF))
      else s ! i)"
  using assms by (auto simp: merged_bytes_def Let_def nth_copy_bytes nth_list_update)

lemma bit_byte_mask: "bit (push_bit k (0xFF :: byte)) j \<longleftrightarrow> k \<le> j \<and> j < 8"
proof -
  have "bit (push_bit k (0xFF :: byte)) j \<longleftrightarrow> j < 8 \<and> k \<le> j \<and> bit (mask 8 :: byte) (j - k)"
    by (auto simp: bit_push_bit_iff mask_numeral)
  then show ?thesis
    by (auto simp: bit_mask_iff)
qed

lemma word_of_merged_bytes:
  assumes "n \<le> 128"
  shows "word_of_bytes (merged_bytes n (bytes16 b) (bytes16 s)) = merge_bits n b s"
proof (rule bit_word_eqI)
  fix k
  assume "k < LENGTH(128)"
  then have k: "k < 128" by simp
  define i where "i = 15 - k div 8"
  define j where "j = k mod 8"
  have i: "i < 16" and j: "j < 8" and kij: "8 * (15 - i) + j = k"
    using k by (simp_all add: i_def j_def)
  have full: "i < n div 8 \<Longrightarrow> 128 - n \<le> k"
    "i = n div 8 \<Longrightarrow> 128 - n \<le> k \<longleftrightarrow> 8 - n mod 8 \<le> j"
    "n div 8 < i \<Longrightarrow> \<not> 128 - n \<le> k"
    using kij i j assms div_mult_mod_eq [of n 8] mod_less_divisor [of 8 n] by linarith+
  have "bit (merged_bytes n (bytes16 b) (bytes16 s) ! i) j \<longleftrightarrow>
      (if 128 - n \<le> k then bit b k else bit s k)"
    using full i j assms kij
    by (cases i "n div 8" rule: linorder_cases)
      (auto simp: nth_merged_bytes bit_bytes16 bit_or_iff bit_and_iff bit_not_iff bit_byte_mask)
  then show "bit (word_of_bytes (merged_bytes n (bytes16 b) (bytes16 s))) k \<longleftrightarrow> bit (merge_bits n b s) k"
    using k by (simp add: bit_word_of_bytes bit_merge_bits i_def j_def)
qed

lemma merge_bits_masked [simp]: "merge_bits n (b AND mask6 n) s = merge_bits n b s"
  by (rule bit_word_eqI) (auto simp: bit_merge_bits bit_and_iff bit_mask6)

lemma merge_bits_mask [simp]: "merge_bits n b s AND mask6 n = b AND mask6 n"
  by (rule bit_word_eqI) (auto simp: bit_merge_bits bit_and_iff bit_mask6)

lemma parseOffsetSuffix_v6:
  assumes "n \<le> 128" "ParseAddr suffix = Ok (Addr6 v z)"
  shows "parseOffsetSuffix (PrefixFrom (Addr6 w z') (int n)) suffix = Ok (Addr6 (merge_bits n w v) [])"
proof -
  have arith: "nat (int n div 8) = n div 8" "int n mod 8 > 0 \<longleftrightarrow> n mod 8 > 0" "nat (int n mod 8) = n mod 8"
    by (simp_all add: nat_div_distrib nat_mod_distrib) presburger
  have "parseOffsetSuffix (PrefixFrom (Addr6 w z') (int n)) suffix =
      Ok (AddrFrom16 (merged_bytes n (bytes16 (w AND mask6 n)) (bytes16 v)))"
    using assms by (simp add: parseOffsetSuffix_def Is6_def As16_def addr128_def merged_bytes_def Let_def arith)
  then show ?thesis
    using assms(1) by (simp add: AddrFrom16_def word_of_merged_bytes)
qed

subsection \<open>Ranges stay inside the prefix\<close>

lemma Compare_v6: "Compare (Addr6 a []) (Addr6 b []) > 0 \<longleftrightarrow> b < a"
  by (auto simp: Compare_def BitLen_def addr128_def Is6_def Zone_def)

lemma parseOffsetSuffix_OkD:
  assumes "parseOffsetSuffix p s = Ok a"
  shows "\<exists>w. a = Addr6 w []"
  using assms by (auto simp: parseOffsetSuffix_def AddrFrom16_def Let_def split: sum.splits if_splits prod.splits)

lemma Contains_between:
  assumes "wf_prefix p" "Contains p (Addr6 a [])" "Contains p (Addr6 b [])" "a \<le> x" "x \<le> b"
  shows "Contains p (Addr6 x [])"
proof -
  have "IsValid p" "Is6 (pfx_ip p)"
    using assms(2) by (auto simp: Contains_def Is6_def split: addr.splits)
  with assms(1) obtain w n where p: "p = PrefixFrom (Addr6 w []) (int n)" "n \<le> 128"
    by (rule wf_prefix_v6_cases)
  let ?h = "2 ^ (128 - n) :: nat"
  have "unat a div ?h = unat w div ?h" "unat b div ?h = unat w div ?h"
    using assms(2,3) p by (simp_all add: Contains_v6 and_mask6_eq_iff_unat)
  moreover have "unat a div ?h \<le> unat x div ?h" "unat x div ?h \<le> unat b div ?h"
    using assms(4,5) by (simp_all add: div_le_mono word_le_nat_alt)
  ultimately show ?thesis
    using p by (simp add: Contains_v6 and_mask6_eq_iff_unat)
qed

text \<open>
  The address range the operator reserves lies inside the delegated prefix: both ends are
  contained, the start does not pass the end, and so is every address between them.
\<close>

theorem address_range_inside_prefix:
  assumes "wf_prefix p" and "CalculateAddressRange p cfg = Ok r"
  shows "\<exists>s e. r = \<lparr>ar_Name = arc_Name cfg, ar_Start = Addr6 s [], ar_End = Addr6 e []\<rparr> \<and> s \<le> e \<and>
           (\<forall>x. s \<le> x \<and> x \<le> e \<longrightarrow> Contains p (Addr6 x []))"
proof -
  obtain a b where ab: "parseOffsetSuffix p (arc_Start cfg) = Ok a" "parseOffsetSuffix p (arc_End cfg) = Ok b"
    "\<not> Compare a b > 0" "Contains p a" "Contains p b"
    "r = \<lparr>ar_Name = arc_Name cfg, ar_Start = a, ar_End = b\<rparr>"
    using assms(2) by (auto simp: CalculateAddressRange_def split: sum.splits if_splits)
  then obtain s e where "a = Addr6 s []" "b = Addr6 e []"
    using parseOffsetSuffix_OkD by metis
  with ab assms(1) show ?thesis
    by (auto simp: Compare_v6 intro: Contains_between)
qed

theorem address_range_inside_prefix_witness:
  "let p = PrefixFrom (Addr6 0x20010DB8000100020000000000000000 []) 64;
       cfg = \<lparr>arc_Name = ''lb'', arc_Start = ''::f000:0:0:0'', arc_End = ''::ffff:ffff:ffff:ffff''\<rparr>
   in \<exists>r. CalculateAddressRange p cfg = Ok r \<and>
        (\<exists>s e. r = \<lparr>ar_Name = ''lb'', ar_Start = Addr6 s [], ar_End = Addr6 e []\<rparr> \<and> s \<le> e \<and>
           (\<forall>x. s \<le> x \<and> x \<le> e \<longrightarrow> Contains p (Addr6 x [])))"
proof -
  let ?p = "PrefixFrom (Addr6 0x20010DB8000100020000000000000000 []) (int 64)"
  let ?cfg = "\<lparr>arc_Name = ''lb'', arc_Start = ''::f000:0:0:0'', arc_End = ''::ffff:ffff:ffff:ffff''\<rparr>"
  have "ParseAddr ''::f000:0:0:0'' = Ok (Addr6 0xF000000000000000 [])"
    "ParseAddr ''::ffff:ffff:ffff:ffff'' = Ok (Addr6 0xFFFFFFFFFFFFFFFF [])"
    by (simp_all add: go_eval)
  then have r: "CalculateAddressRange ?p ?cfg = Ok \<lparr>ar_Name = ''lb'',
      ar_Start = Addr6 0x20010DB800010002F000000000000000 [],
      ar_End = Addr6 0x20010DB800010002FFFFFFFFFFFFFFFF []\<rparr>"
    using parseOffsetSuffix_v6 [of 64] by (simp add: CalculateAddressRange_def Compare_v6 merge_bits_def go_eval)
  show ?thesis
    using address_range_inside_prefix [OF wf_PrefixFrom r] r by (auto simp: Let_def)
qed

text \<open>
  On a valid IPv6 prefix the byte-wise merge is a bit mask: the leading bits come from the
  delegation and the rest from the configured suffix, so a range whose merged start does not
  pass its merged end is always produced, and the two checks for an address outside the prefix
  can never fire.
\<close>

theorem calculate_address_range_spec:
  assumes "n \<le> 128" and "ParseAddr (arc_Start cfg) = Ok (Addr6 u zu)"
    and "ParseAddr (arc_End cfg) = Ok (Addr6 v zv)"
  shows "CalculateAddressRange (PrefixFrom (Addr6 w []) (int n)) cfg =
     (let s = (w AND mask6 n) OR (u AND NOT (mask6 n)); e = (w AND mask6 n) OR (v AND NOT (mask6 n)) in
      if s \<le> e then Ok \<lparr>ar_Name = arc_Name cfg, ar_Start = Addr6 s [], ar_End = Addr6 e []\<rparr>
      else Err (StartAfterEnd (Addr6 s []) (Addr6 e [])))"
  using assms
  by (simp add: CalculateAddressRange_def parseOffsetSuffix_v6 Compare_v6 Contains_v6 Let_def not_less
      flip: merge_bits_def) (blast dest: leD)

theorem calculate_address_range_spec_witness:
  "CalculateAddressRange (PrefixFrom (Addr6 0x20010DB8000100020000000000000000 []) (int 60))
     \<lparr>arc_Name = ''a'', arc_Start = ''::f:0:0:0:5'', arc_End = ''::f:0:0:0:9''\<rparr> =
   Ok \<lparr>ar_Name = ''a'', ar_Start = Addr6 0x20010DB80001000F0000000000000005 [],
       ar_End = Addr6 0x20010DB80001000F0000000000000009 []\<rparr>"
proof -
  let ?cfg = "\<lparr>arc_Name = ''a'', arc_Start = ''::f:0:0:0:5'', arc_End = ''::f:0:0:0:9''\<rparr>"
  have "ParseAddr (arc_Start ?cfg) = Ok (Addr6 0xF0000000000000005 [])"
    "ParseAddr (arc_End ?cfg) = Ok (Addr6 0xF0000000000000009 [])"
    by (simp_all add: go_eval)
  from calculate_address_range_spec [OF _ this, of 60 "0x20010DB8000100020000000000000000"]
  show ?thesis
    by (simp add: mask6_def mask_numeral)
qed

subsection \<open>The smallest prefix around a range\<close>

lemma leading_equal_spec:
  "leading_equal d b \<le> b \<and> (\<forall>i < leading_equal d b. \<not> bit d (b - 1 - i)) \<and>
     (leading_equal d b < b \<longrightarrow> bit d (b - 1 - leading_equal d b))"
proof (induction b)
  case 0
  then show ?case by simp
next
  case (Suc b)
  have "\<not> bit d (b - i)" if "\<not> bit d b" "i < Suc (leading_equal d b)" for i
    using that Suc by (cases i) simp_all
  with Suc show ?case by auto
qed

definition stream_bit :: "byte list \<Rightarrow> nat \<Rightarrow> bool" where
  "stream_bit bs i = bit (bs ! (i div 8)) (7 - i mod 8)"

lemma stream_bit_Cons:
  "stream_bit (b # bs) i = (if i < 8 then bit b (7 - i) else stream_bit bs (i - 8))"
proof (cases "i < 8")
  case False
  then have "i div 8 = Suc ((i - 8) div 8)" "i mod 8 = (i - 8) mod 8"
    by (simp_all add: le_div_geq le_mod_geq)
  with False show ?thesis by (simp add: stream_bit_def)
qed (simp add: stream_bit_def)

lemma common_bits_spec:
  "length xs = length ys \<Longrightarrow>
     common_bits xs ys \<le> 8 * length xs \<and>
     (\<forall>i < common_bits xs ys. stream_bit xs i = stream_bit ys i) \<and>
     (common_bits xs ys < 8 * length xs \<longrightarrow>
        stream_bit xs (common_bits xs ys) \<noteq> stream_bit ys (common_bits xs ys))"
proof (induction xs ys rule: common_bits.induct)
  case (1 x xs y ys)
  show ?case
  proof (cases "x = y")
    case True
    with 1 show ?thesis by (auto simp: stream_bit_Cons)
  next
    case False
    let ?c = "leading_equal (x XOR y) 8"
    have le: "?c \<le> 8" and same: "\<And>i. i < ?c \<Longrightarrow> \<not> bit (x XOR y) (7 - i)"
      and diff: "?c < 8 \<Longrightarrow> bit (x XOR y) (7 - ?c)"
      using leading_equal_spec [of "x XOR y" 8] by simp_all
    have "?c \<noteq> 8"
    proof
      assume "?c = 8"
      have "bit x j = bit y j" if "j < 8" for j
        using same [of "7 - j"] \<open>?c = 8\<close> that by (auto simp: bit_xor_iff)
      then have "x = y" by (intro bit_word_eqI) simp
      with False show False by simp
    qed
    then have "?c < 8" using le by simp
    with same diff False show ?thesis
      by (auto simp: stream_bit_Cons bit_xor_iff)
  qed
qed auto

lemma stream_bit_bytes16: "i < 128 \<Longrightarrow> stream_bit (bytes16 w) i = bit w (127 - i)"
proof -
  assume i: "i < 128"
  have "8 * (15 - i div 8) + (7 - i mod 8) = 127 - i"
    using i div_mult_mod_eq [of i 8] by linarith
  moreover have "7 - i mod 8 < 8"
    by simp
  ultimately show ?thesis
    using i by (simp add: stream_bit_def bit_bytes16 del: diff_less_mono2)
qed

lemma common_bits_words:
  shows "common_bits (bytes16 a) (bytes16 b) \<le> 128"
    and "a AND mask6 (common_bits (bytes16 a) (bytes16 b)) = b AND mask6 (common_bits (bytes16 a) (bytes16 b))"
    and "m \<le> 128 \<Longrightarrow> a AND mask6 m = b AND mask6 m \<Longrightarrow> m \<le> common_bits (bytes16 a) (bytes16 b)"
proof -
  let ?n = "common_bits (bytes16 a) (bytes16 b)"
  have le: "?n \<le> 128"
    and same: "i < ?n \<Longrightarrow> stream_bit (bytes16 a) i = stream_bit (bytes16 b) i"
    and diff: "?n < 128 \<Longrightarrow> stream_bit (bytes16 a) ?n \<noteq> stream_bit (bytes16 b) ?n" for i
    using common_bits_spec [of "bytes16 a" "bytes16 b"] by auto
  show "?n \<le> 128" by (rule le)
  have "bit a k = bit b k" if "128 - ?n \<le> k" "k < 128" for k
    using same [of "127 - k"] stream_bit_bytes16 [of "127 - k"] that by auto
  then show "a AND mask6 ?n = b AND mask6 ?n"
    by (simp add: and_mask6_eq_iff)
  show "m \<le> ?n" if "m \<le> 128" "a AND mask6 m = b AND mask6 m"
  proof (rule ccontr)
    assume "\<not> m \<le> ?n"
    then have "?n < 128" "128 - m \<le> 127 - ?n"
      using that by auto
    then have "bit a (127 - ?n) = bit b (127 - ?n)"
      using that by (auto simp: and_mask6_eq_iff)
    with diff \<open>?n < 128\<close> show False
      by (simp add: stream_bit_bytes16)
  qed
qed

lemma RangeToCIDR_v6:
  "RangeToCIDR (Addr6 a za) (Addr6 b zb) =
     (let n = common_bits (bytes16 a) (bytes16 b) in PrefixFrom (Addr6 (a AND mask6 n) []) (int n))"
  using common_bits_words(1) [of a b]
  by (simp add: RangeToCIDR_def As16_def addr128_def AddrPrefix_def Let_def)

text \<open>
  C26: \<^verbatim>\<open>RangeToCIDR\<close> returns the smallest prefix around an IPv6 range: it contains every
  address of the range, and no valid prefix that contains both ends is longer.
\<close>

theorem range_to_cidr_smallest:
  assumes "a \<le> b"
  shows "let q = RangeToCIDR (Addr6 a za) (Addr6 b zb) in
     IsValid q \<and> Masked q = q \<and>
     (\<forall>x. a \<le> x \<and> x \<le> b \<longrightarrow> Contains q (Addr6 x [])) \<and>
     (\<forall>p. wf_prefix p \<and> Contains p (Addr6 a []) \<and> Contains p (Addr6 b []) \<longrightarrow> Bits p \<le> Bits q)"
proof -
  let ?n = "common_bits (bytes16 a) (bytes16 b)"
  let ?q = "PrefixFrom (Addr6 (a AND mask6 ?n) []) (int ?n)"
  have n: "?n \<le> 128" and eq: "a AND mask6 ?n = b AND mask6 ?n"
    by (rule common_bits_words)+
  have ends: "Contains ?q (Addr6 a [])" "Contains ?q (Addr6 b [])"
    using n eq by (simp_all add: Contains_v6 and.assoc)
  have "Bits p \<le> int ?n" if "wf_prefix p" "Contains p (Addr6 a [])" "Contains p (Addr6 b [])" for p
  proof -
    have "IsValid p" "Is6 (pfx_ip p)"
      using that(2) by (auto simp: Contains_def Is6_def split: addr.splits)
    with that(1) obtain w m where p: "p = PrefixFrom (Addr6 w []) (int m)" "m \<le> 128"
      by (rule wf_prefix_v6_cases)
    with that(2,3) have "a AND mask6 m = b AND mask6 m"
      by (simp add: Contains_v6)
    then have "m \<le> ?n"
      using p(2) by (intro common_bits_words(3))
    with p show ?thesis by simp
  qed
  then show ?thesis
    using n ends assms Contains_between [OF wf_PrefixFrom ends]
    by (simp add: RangeToCIDR_v6 Let_def and.assoc)
qed

theorem range_to_cidr_smallest_witness:
  "Contains (RangeToCIDR (Addr6 16 []) (Addr6 31 [])) (Addr6 20 [])"
  using range_to_cidr_smallest [of 16 31 "[]" "[]"] by (simp add: Let_def)

text \<open>
  C17: On IPv4 addresses \<^verbatim>\<open>RangeToCIDR\<close> silently yields the zero prefix: the sixteen-byte form
  always shares 96 leading bits, which no IPv4 prefix can have.
\<close>

theorem range_to_cidr_ipv4_is_zero_prefix:
  "RangeToCIDR (Addr4 a) (Addr4 b) = PrefixZero"
proof -
  let ?m = "\<lambda>w. v4mapped OR ucast (w :: 32 word) :: 128 word"
  have "bit (?m a) k = bit (?m b) k" if "32 \<le> k" for k
    using that bit_imp_le_length [of a k] bit_imp_le_length [of b k]
    by (auto simp: bit_or_iff bit_ucast_iff)
  then have "?m a AND mask6 96 = ?m b AND mask6 96"
    by (simp add: and_mask6_eq_iff)
  then have "96 \<le> common_bits (bytes16 (?m a)) (bytes16 (?m b))"
    using common_bits_words(3) [of 96 "?m a" "?m b"] by simp
  then show ?thesis
    by (simp add: RangeToCIDR_def As16_def addr128_def AddrPrefix_def)
qed

subsection \<open>Counting addresses\<close>

lemma low64_bytes16: "low64 (bytes16 w) = ucast w"
proof (rule bit_word_eqI)
  fix n
  assume "n < LENGTH(64)"
  then have n: "n < 64" by simp
  then have "8 * (15 - (15 - n div 8)) + n mod 8 = n" "15 - n div 8 < 16" "8 + (7 - n div 8) = 15 - n div 8"
    by simp_all
  with n show "bit (low64 (bytes16 w)) n \<longleftrightarrow> bit (ucast w :: 64 word) n"
    by (simp add: low64_def bit_foldl_bytes bit_bytes16 bit_ucast_iff)
qed

lemma high_bytes_eq_iff:
  "(\<exists>i \<in> set [0..<8]. bytes16 a ! i \<noteq> bytes16 b ! i) \<longleftrightarrow> drop_bit 64 a \<noteq> drop_bit 64 b"
proof -
  have "bit a k = bit b k" if "\<forall>i < 8. bytes16 a ! i = bytes16 b ! i" "64 \<le> k" "k < 128" for k :: nat
  proof -
    have i: "15 - k div 8 < 8" "8 * (15 - (15 - k div 8)) + k mod 8 = k"
      using that by auto
    with that(1) have "bit (bytes16 a ! (15 - k div 8)) (k mod 8) = bit (bytes16 b ! (15 - k div 8)) (k mod 8)"
      by simp
    with i that(3) show ?thesis
      by (simp add: bit_bytes16)
  qed
  moreover have "bytes16 a ! i = bytes16 b ! i"
    if "\<forall>k. 64 \<le> k \<and> k < 128 \<longrightarrow> bit a k = bit b k" "i < 8" for i
  proof (rule bit_word_eqI)
    fix n
    assume "n < LENGTH(8)"
    then have "64 \<le> 8 * (15 - i) + n" "8 * (15 - i) + n < 128"
      using that(2) by simp_all
    with that show "bit (bytes16 a ! i) n = bit (bytes16 b ! i) n"
      by (simp add: bit_bytes16)
  qed
  ultimately have "(\<forall>i < 8. bytes16 a ! i = bytes16 b ! i) \<longleftrightarrow>
      (\<forall>k. 64 \<le> k \<and> k < 128 \<longrightarrow> bit a k = bit b k)"
    by blast
  also have "\<dots> \<longleftrightarrow> drop_bit 64 a = drop_bit 64 b"
  proof
    assume h: "\<forall>k. 64 \<le> k \<and> k < 128 \<longrightarrow> bit a k = bit b k"
    show "drop_bit 64 a = drop_bit 64 b"
    proof (rule bit_word_eqI)
      fix n
      show "bit (drop_bit 64 a) n = bit (drop_bit 64 b) n"
        using h bit_imp_le_length [of a "64 + n"] bit_imp_le_length [of b "64 + n"]
        by (cases "64 + n < 128") (auto simp: bit_drop_bit_eq)
    qed
  next
    assume "drop_bit 64 a = drop_bit 64 b"
    then have eq: "bit (drop_bit 64 a) (k - 64) = bit (drop_bit 64 b) (k - 64)" for k
      by simp
    have "bit a k = bit b k" if "64 \<le> k" for k
      using eq [of k] that by (simp add: bit_drop_bit_eq)
    then show "\<forall>k. 64 \<le> k \<and> k < 128 \<longrightarrow> bit a k = bit b k"
      by blast
  qed
  finally show ?thesis by auto
qed

lemma card_word_interval:
  fixes a b :: "'a :: len word"
  assumes "a \<le> b"
  shows "card {a..b} = unat b - unat a + 1"
proof -
  have "unat ` {a..b} = {unat a..unat b}"
  proof (intro equalityI subsetI)
    fix k
    assume k: "k \<in> {unat a..unat b}"
    then have "k \<le> unat b" by simp
    also have "unat b < 2 ^ LENGTH('a)"
      by (rule unsigned_less)
    finally have "k < 2 ^ LENGTH('a)" .
    then have "unat (of_nat k :: 'a word) = k"
      by (simp add: unat_of_nat take_bit_nat_eq_self)
    with k show "k \<in> unat ` {a..b}"
      by (intro image_eqI [where x = "of_nat k"]) (auto simp: word_le_nat_alt)
  qed (auto simp: word_le_nat_alt)
  moreover have "card (unat ` {a..b}) = card {a..b}"
    by (rule card_image) (auto simp: inj_on_def word_unat_eq_iff)
  ultimately show ?thesis
    using assms by (simp add: word_le_nat_alt)
qed

text \<open>
  C15: \<^verbatim>\<open>AddressCount\<close> is the number of addresses of the range in 64-bit arithmetic when the range
  lies in one /64, and zero when it is reversed or crosses a /64; a whole /64 wraps to zero,
  the value it shares with \<open>too large\<close>.
\<close>

theorem address_count_counts_range:
  "unat (AddressCount (Addr6 a za) (Addr6 b zb)) =
     (if drop_bit 64 a = drop_bit 64 b \<and> a \<le> b then card {a..b} mod 2 ^ 64 else 0)"
proof (cases "drop_bit 64 a = drop_bit 64 b")
  case False
  then show ?thesis
    using high_bytes_eq_iff [of a b] by (simp add: AddressCount_def As16_def addr128_def Let_def)
next
  case True
  have div_eq: "unat a div 2 ^ 64 = unat b div 2 ^ 64"
    using arg_cong [OF True, of unat] by (simp add: unat_drop_bit_eq drop_bit_eq_div [where a = "unat _"])
  have low: "unat (ucast w :: 64 word) = unat w mod 2 ^ 64" for w :: "128 word"
    by (simp add: unsigned_ucast_eq take_bit_eq_mod)
  define q where "q = unat b div 2 ^ 64"
  have a: "unat a = q * 2 ^ 64 + unat a mod 2 ^ 64" and b: "unat b = q * 2 ^ 64 + unat b mod 2 ^ 64"
    unfolding q_def by (metis div_mult_mod_eq div_eq) (metis div_mult_mod_eq)
  have le: "a \<le> b \<longleftrightarrow> unat a mod 2 ^ 64 \<le> unat b mod 2 ^ 64"
    unfolding word_le_nat_alt by (subst a, subst b) simp
  have cnt: "AddressCount (Addr6 a za) (Addr6 b zb) =
      (if (ucast b :: 64 word) < ucast a then 0 else ucast b - ucast a + 1)"
    using high_bytes_eq_iff [of a b] True
    by (simp add: AddressCount_def As16_def addr128_def Let_def low64_bytes16)
  show ?thesis
  proof (cases "a \<le> b")
    case False
    then have "(ucast b :: 64 word) < ucast a"
      using le by (simp add: word_less_nat_alt low)
    with False show ?thesis by (simp add: cnt)
  next
    case le_ab: True
    then have ge: "(ucast a :: 64 word) \<le> ucast b"
      using le by (simp add: word_le_nat_alt low)
    have "unat (ucast b - ucast a + 1 :: 64 word) = (unat (ucast b - ucast a :: 64 word) + 1) mod 2 ^ 64"
      by (simp add: unat_word_ariths)
    also have "unat (ucast b - ucast a :: 64 word) = unat b mod 2 ^ 64 - unat a mod 2 ^ 64"
      using unat_sub [OF ge] by (simp add: low)
    also have "unat b mod 2 ^ 64 - unat a mod 2 ^ 64 = unat b - unat a"
      using a b by linarith
    finally have "unat (ucast b - ucast a + 1 :: 64 word) = card {a..b} mod 2 ^ 64"
      using card_word_interval [OF le_ab] by simp
    then show ?thesis
      using ge le_ab True by (simp add: cnt leD)
  qed
qed

subsection \<open>Subnets partition the prefix\<close>

text \<open>The first address of a subnet as a number, and the bounds that keep it inside 128 bits.\<close>

lemma subnet_value_bounds:
  assumes "n \<le> l" "l \<le> 128" "off < 2 ^ (l - n)"
  shows "unat (w AND mask6 n) + off * 2 ^ (128 - l) < 2 ^ 128"
    and "(unat (w AND mask6 n) + off * 2 ^ (128 - l)) div 2 ^ (128 - n) = unat w div 2 ^ (128 - n)"
    and "2 ^ (128 - l) dvd unat (w AND mask6 n)"
proof -
  let ?q = "unat w div 2 ^ (128 - n)"
  have B: "unat (w AND mask6 n) = ?q * 2 ^ (128 - n)"
    using assms by (simp add: unat_and_mask6)
  have pow: "2 ^ (128 - n) = 2 ^ (l - n) * (2 :: nat) ^ (128 - l)"
    using assms by (simp flip: power_add)
  have off: "off * 2 ^ (128 - l) < 2 ^ (128 - n)"
    using assms(3) by (simp add: pow)
  have "Suc ?q * 2 ^ (128 - n) \<le> 2 ^ 128"
  proof -
    have "?q < 2 ^ n"
      using unat128_less [of w] assms
      by (simp add: less_mult_imp_div_less flip: power_add)
    then have "Suc ?q * 2 ^ (128 - n) \<le> 2 ^ n * (2 :: nat) ^ (128 - n)"
      by (intro mult_right_mono) simp_all
    then show ?thesis
      using assms by (simp flip: power_add)
  qed
  with off show "unat (w AND mask6 n) + off * 2 ^ (128 - l) < 2 ^ 128"
    by (simp add: B)
  show "(unat (w AND mask6 n) + off * 2 ^ (128 - l)) div 2 ^ (128 - n) = ?q"
    using off by (simp add: B)
  show "2 ^ (128 - l) dvd unat (w AND mask6 n)"
    using assms by (simp add: B pow)
qed

definition subnet_word :: "128 word \<Rightarrow> nat \<Rightarrow> nat \<Rightarrow> nat \<Rightarrow> 128 word" where
  "subnet_word w n l off = (w AND mask6 n) + of_nat off * 2 ^ (128 - l)"

lemma unat_subnet_word:
  assumes "n \<le> l" "l \<le> 128" "off < 2 ^ (l - n)"
  shows "unat (subnet_word w n l off) = unat (w AND mask6 n) + off * 2 ^ (128 - l)"
proof -
  let ?v = "unat (w AND mask6 n) + off * 2 ^ (128 - l)"
  have eq: "subnet_word w n l off = of_nat ?v"
    by (simp add: subnet_word_def)
  have "?v mod 2 ^ 128 = ?v"
    by (rule mod_less) (rule subnet_value_bounds(1) [OF assms])
  then show ?thesis
    unfolding eq by (simp only: unat_of_nat) simp
qed

lemma subnet_word_masked:
  assumes "n \<le> l" "l \<le> 128" "off < 2 ^ (l - n)"
  shows "subnet_word w n l off AND mask6 l = subnet_word w n l off"
proof -
  have "2 ^ (128 - l) dvd unat (subnet_word w n l off)"
    using subnet_value_bounds(3) [OF assms] by (simp add: unat_subnet_word [OF assms])
  then show ?thesis
    using assms by (simp add: word_unat_eq_iff unat_and_mask6)
qed

text \<open>Every branch of \<^verbatim>\<open>CalculateSubnet\<close> on a valid IPv6 prefix.\<close>

lemma CalculateSubnet_v6:
  assumes "n \<le> 128"
  shows "CalculateSubnet (PrefixFrom (Addr6 w []) (int n)) cfg =
     (let l = sc_PrefixLength cfg; off = sc_Offset cfg in
      if l < int n then Err (SubnetShorterThanBase l (int n))
      else if l > 128 then Err (SubnetLengthExceeds128 l)
      else if off < 0 \<or> off \<ge> 2 ^ nat (l - int n) then
        Err (SubnetOffsetOutOfRange off l (PrefixFrom (Addr6 w []) (int n)) (2 ^ nat (l - int n)))
      else Ok \<lparr>sn_Name = sc_Name cfg,
               sn_CIDR = PrefixFrom (Addr6 (subnet_word w n (nat l) (nat off)) []) l\<rparr>)"
proof (cases "int n \<le> sc_PrefixLength cfg \<and> sc_PrefixLength cfg \<le> 128 \<and>
    0 \<le> sc_Offset cfg \<and> sc_Offset cfg < 2 ^ nat (sc_PrefixLength cfg - int n)")
  case False
  then show ?thesis
    using assms by (auto simp: CalculateSubnet_def Let_def)
next
  case True
  define l where "l = nat (sc_PrefixLength cfg)"
  define off where "off = nat (sc_Offset cfg)"
  have l: "sc_PrefixLength cfg = int l" "n \<le> l" "l \<le> 128" and o: "sc_Offset cfg = int off"
    using True by (auto simp: l_def off_def)
  have "int off < 2 ^ (l - n)"
    using True l o by (simp add: nat_diff_distrib')
  then have off: "off < 2 ^ (l - n)"
    by (metis of_nat_less_iff of_nat_numeral of_nat_power)
  let ?V = "subnet_word w n l off"
  have base: "big_of_bytes (As16 (pfx_ip (Masked (PrefixFrom (Addr6 w []) (int n))))) = int (unat (w AND mask6 n))"
    using assms by (simp add: big_of_bytes_def As16_def addr128_def)
  have val: "int (unat (w AND mask6 n)) + int off * 2 ^ (128 - l) = int (unat ?V)"
    by (simp add: unat_subnet_word [OF l(2,3) off])
  have lt: "int (unat ?V) < 2 ^ 128"
    using unat128_less [of ?V] by (metis of_nat_less_iff of_nat_numeral of_nat_power)
  have "FillBytes16 (int (unat ?V)) = Some (bytes16 ?V)"
    using lt by (simp add: FillBytes16_def)
  moreover have "nat (128 - int l) = 128 - l"
    using l by simp
  ultimately show ?thesis
    using True l assms o base val subnet_word_masked [OF l(2,3) off, of w]
    by (simp add: CalculateSubnet_def Let_def AddrFrom16_def AddrPrefix_def)
qed

lemma CalculateSubnet_v6_Ok_iff:
  assumes "n \<le> 128"
  shows "CalculateSubnet (PrefixFrom (Addr6 w []) (int n)) \<lparr>sc_Name = nm, sc_Offset = off, sc_PrefixLength = int l\<rparr> = Ok s \<longleftrightarrow>
     n \<le> l \<and> l \<le> 128 \<and> 0 \<le> off \<and> off < 2 ^ (l - n) \<and>
     s = \<lparr>sn_Name = nm, sn_CIDR = PrefixFrom (Addr6 (subnet_word w n l (nat off)) []) (int l)\<rparr>"
proof -
  have "nat (int l - int n) = l - n" by simp
  then show ?thesis
    using assms by (auto simp: CalculateSubnet_v6 Let_def)
qed

lemma Contains_subnet_word:
  assumes "n \<le> l" "l \<le> 128" "off < 2 ^ (l - n)"
  shows "Contains (PrefixFrom (Addr6 (subnet_word w n l off) []) (int l)) (Addr6 x []) \<longleftrightarrow>
     unat x div 2 ^ (128 - l) = unat (w AND mask6 n) div 2 ^ (128 - l) + off"
  using assms subnet_value_bounds(3) [OF assms, of w]
  by (auto simp: Contains_v6 and_mask6_eq_iff_unat unat_subnet_word)



text \<open>
  C12: On a well-formed, valid IPv6 prefix \<^verbatim>\<open>CalculateSubnet\<close> never reaches the panic of
  \<^verbatim>\<open>FillBytes\<close> nor the failure of \<^verbatim>\<open>Addr.Prefix\<close>: the three range checks are complete.
\<close>

theorem calculate_subnet_never_panics:
  assumes "wf_prefix p" and "IsValid p" and "Is6 (pfx_ip p)"
  shows "CalculateSubnet p cfg \<noteq> Err FillBytesPanic \<and> CalculateSubnet p cfg \<noteq> Err SubnetPrefixFailed"
proof -
  obtain w n where "p = PrefixFrom (Addr6 w []) (int n)" "n \<le> 128"
    using assms by (rule wf_prefix_v6_cases)
  then show ?thesis
    by (simp add: CalculateSubnet_v6 Let_def)
qed

theorem calculate_subnet_never_panics_witness:
  "CalculateSubnet (PrefixFrom (Addr6 0x20010DB8000100000000000000000000 []) 48)
     \<lparr>sc_Name = ''s'', sc_Offset = 65535, sc_PrefixLength = 64\<rparr> \<noteq> Err FillBytesPanic"
  using calculate_subnet_never_panics [of "PrefixFrom (Addr6 0x20010DB8000100000000000000000000 []) 48"]
  by (simp add: Is6_def)

text \<open>
  The validity check before the arithmetic is necessary: a Router Advertisement length above
  128 makes an invalid prefix whose length reads -1, the range checks let an offset through,
  and the buffer is too small for the result, which is a panic in the reconciler.
\<close>

theorem invalid_prefix_panics_subnet_math:
  "CalculateSubnets (PrefixFrom (Addr6 w []) 200)
     [\<lparr>sc_Name = nm, sc_Offset = 1, sc_PrefixLength = 0\<rparr>] = Err (SubnetFailed nm FillBytesPanic)"
proof -
  let ?p = "PrefixFrom (Addr6 w []) 200"
  have "Bits ?p = -1"
    by (simp add: Bits_def PrefixFrom_def BitLen_def)
  then have "Masked ?p = PrefixZero"
    by (simp add: Masked_def AddrPrefix_def)
  then have "big_of_bytes (As16 (pfx_ip (Masked ?p))) = 0"
    by (simp add: big_of_bytes_def As16_def addr128_def PrefixZero_def)
  with \<open>Bits ?p = -1\<close> show ?thesis
    by (simp add: CalculateSubnets_def CalculateSubnet_def Is6_def FillBytes16_def Let_def)
qed

text \<open>
  C39: Reading back the text of a valid prefix with the operator's \<^verbatim>\<open>ParsePrefix\<close> yields the network
  that was printed, so what one controller writes to status is what another reads.
\<close>

theorem parse_prefix_reads_printed_network:
  assumes "wf_prefix p" and "IsValid p"
  shows "ParsePrefix (PrefixString p) = Ok (Masked p)"
  using ParsePrefix_PrefixString [OF assms] by (simp add: ParsePrefix_def)

theorem parse_prefix_reads_printed_network_witness:
  "ParsePrefix (PrefixString (PrefixFrom (Addr6 0x20010DB8000100000000000000000007 []) (int 48))) =
     Ok (PrefixFrom (Addr6 0x20010DB8000100000000000000000000 []) (int 48))"
  using parse_prefix_reads_printed_network
    [of "PrefixFrom (Addr6 0x20010DB8000100000000000000000007 []) (int 48)"]
  by (simp add: go_eval)

end
