(* ===== verification/Prefix_Policy.thy ===== *)
theory Prefix_Policy
  imports Address_Calc "HOL-Library.List_Lexorder" "HOL-Library.Char_ord"
begin

text \<open>
  Which prefixes and which routers are believed: \<^verbatim>\<open>internal/prefix/validate.go\<close>,
  \<^verbatim>\<open>internal/prefix/policy.go\<close> and the address classes of \<^verbatim>\<open>ra_receiver.go\<close>.  The theorems show
  that the strict bit test on the network address covers every address derived from it, that
  the length bounds act as stated, that a parsed allowlist contains link-local addresses only,
  and that the textual key under which receivers are shared determines the policy: equal keys
  give equal acceptance and trust decisions.
\<close>

subsection \<open>Address classes\<close>

definition isGlobalUnicast :: "addr \<Rightarrow> bool" where
  "isGlobalUnicast a \<longleftrightarrow> Is6 a \<and> (As16 a ! 0) AND 0xE0 = 0x20"

definition isULA :: "addr \<Rightarrow> bool" where
  "isULA a \<longleftrightarrow> Is6 a \<and> (As16 a ! 0) AND 0xFE = 0xFC"

definition isLinkLocal :: "addr \<Rightarrow> bool" where
  "isLinkLocal a = IsLinkLocalUnicast a"

definition IsGlobalUnicastPrefix :: "ipprefix \<Rightarrow> bool" where
  "IsGlobalUnicastPrefix p = isGlobalUnicast (pfx_ip p)"

definition IsULAPrefix :: "ipprefix \<Rightarrow> bool" where
  "IsULAPrefix p = isULA (pfx_ip p)"

subsection \<open>Validation of a delegated prefix\<close>

datatype delegated_error =
    PrefixNotValid
  | PrefixNotIPv6 ipprefix
  | PrefixZeroLength ipprefix
  | PrefixLengthOutOfRange ipprefix
  | PrefixNotUnicast ipprefix
  | PrefixLinkLocal ipprefix
  | PrefixUniqueLocal ipprefix
  | PrefixNotGlobalUnicast ipprefix

definition ValidateDelegatedPrefix :: "ipprefix \<Rightarrow> bool \<Rightarrow> delegated_error option" where
  "ValidateDelegatedPrefix p requireGlobalUnicast =
     (if \<not> IsValid p then Some PrefixNotValid
      else if \<not> Is6 (pfx_ip p) \<or> Is4In6 (pfx_ip p) then Some (PrefixNotIPv6 p)
      else if Bits p \<le> 0 then Some (PrefixZeroLength p)
      else if Bits p > BitLen (pfx_ip p) then Some (PrefixLengthOutOfRange p)
      else if IsLoopback (pfx_ip p) \<or> IsMulticast (pfx_ip p) \<or> IsUnspecified (pfx_ip p)
        then Some (PrefixNotUnicast p)
      else if IsLinkLocalUnicast (pfx_ip p) then Some (PrefixLinkLocal p)
      else if requireGlobalUnicast \<and> \<not> isGlobalUnicast (pfx_ip p) then
        (if isULA (pfx_ip p) then Some (PrefixUniqueLocal p) else Some (PrefixNotGlobalUnicast p))
      else None)"

subsection \<open>Policies\<close>

record Policy =
  RequireGlobalUnicast :: bool
  MinPrefixLength :: int
  MaxPrefixLength :: int

definition DefaultPolicy :: Policy where
  "DefaultPolicy = \<lparr>RequireGlobalUnicast = True, MinPrefixLength = 0, MaxPrefixLength = 0\<rparr>"

datatype length_error = LengthBelowMin int int | LengthAboveMax int int

definition checkLength :: "Policy \<Rightarrow> int \<Rightarrow> length_error option" where
  "checkLength p bits =
     (if MinPrefixLength p > 0 \<and> bits < MinPrefixLength p then
        Some (LengthBelowMin bits (MinPrefixLength p))
      else if MaxPrefixLength p > 0 \<and> bits > MaxPrefixLength p then
        Some (LengthAboveMax bits (MaxPrefixLength p))
      else None)"

datatype policy_error = PolicyDelegated delegated_error | PolicyLength length_error

definition Policy_Validate :: "Policy \<Rightarrow> ipprefix \<Rightarrow> policy_error option" where
  "Policy_Validate p network =
     (case ValidateDelegatedPrefix network (RequireGlobalUnicast p) of
        Some e \<Rightarrow> Some (PolicyDelegated e)
      | None \<Rightarrow> map_option PolicyLength (checkLength p (Bits network)))"

definition bool_text :: "bool \<Rightarrow> string" where
  "bool_text b = (if b then ''true'' else ''false'')"

definition Policy_Key :: "Policy \<Rightarrow> string" where
  "Policy_Key p =
     ''gua='' @ bool_text (RequireGlobalUnicast p) @ ''|min='' @ dec_int (MinPrefixLength p) @
     ''|max='' @ dec_int (MaxPrefixLength p)"

record RAPolicy =
  ra_Policy :: Policy
  TrustedRouters :: "addr list"

definition DefaultRAPolicy :: RAPolicy where
  "DefaultRAPolicy = \<lparr>ra_Policy = DefaultPolicy, TrustedRouters = []\<rparr>"

definition Trusts :: "RAPolicy \<Rightarrow> addr \<Rightarrow> bool" where
  "Trusts p source =
     (if TrustedRouters p = [] then True
      else list_ex (\<lambda>trusted. trusted = WithZone source []) (TrustedRouters p))"

definition RAPolicy_Key :: "RAPolicy \<Rightarrow> string" where
  "RAPolicy_Key p =
     (if TrustedRouters p = [] then Policy_Key (ra_Policy p) @ ''|trusted=''
      else Policy_Key (ra_Policy p) @ ''|trusted='' @
        join (CHR '','') (sort (map AddrString (TrustedRouters p))))"

datatype router_error =
    RouterNotAddress string addr_error
  | RouterHasZone string
  | RouterNotIPv6 string
  | RouterNotLinkLocal string

definition parseTrustedRouter :: "string \<Rightarrow> router_error + addr" where
  "parseTrustedRouter v =
     (case ParseAddr v of
        Inl e \<Rightarrow> Err (RouterNotAddress v e)
      | Inr a \<Rightarrow>
          if Zone a \<noteq> [] then Err (RouterHasZone v)
          else if \<not> Is6 a \<or> Is4In6 a then Err (RouterNotIPv6 v)
          else if \<not> IsLinkLocalUnicast a then Err (RouterNotLinkLocal v)
          else Ok a)"

definition ParseTrustedRouters :: "string list \<Rightarrow> router_error + addr list" where
  "ParseTrustedRouters values = (if values = [] then Ok [] else traverse parseTrustedRouter values)"

subsection \<open>What an accepted prefix contains\<close>

lemma first_byte_bits: "j < 8 \<Longrightarrow> bit (As16 (Addr6 w z) ! 0) j = bit w (120 + j)"
  by (simp add: As16_def addr128_def bit_bytes16)

lemma isGlobalUnicast_bits:
  "isGlobalUnicast (Addr6 w z) \<longleftrightarrow> \<not> bit w 127 \<and> \<not> bit w 126 \<and> bit w 125"
proof -
  let ?b = "As16 (Addr6 w z) ! 0"
  have "?b AND 0xE0 = 0x20 \<longleftrightarrow> (\<forall>j < 8. bit (?b AND 0xE0) j = bit (0x20 :: byte) j)"
    by (auto simp: bit_eq_iff)
  also have "\<dots> \<longleftrightarrow> \<not> bit ?b 7 \<and> \<not> bit ?b 6 \<and> bit ?b 5"
    by (simp add: numeral_eq_Suc All_less_Suc bit_and_iff)
  also have "\<dots> \<longleftrightarrow> \<not> bit w 127 \<and> \<not> bit w 126 \<and> bit w 125"
    by (simp add: first_byte_bits)
  finally show ?thesis
    by (simp add: isGlobalUnicast_def Is6_def)
qed

lemma Contains_same_bit:
  assumes "wf_prefix p" "Contains p (Addr6 x z)" "pfx_ip p = Addr6 w z'" "128 - nat (Bits p) \<le> k" "k < 128"
  shows "bit x k = bit w k"
proof -
  have "IsValid p" "Is6 (pfx_ip p)"
    using assms(2,3) by (auto simp: Contains_def Is6_def)
  with assms(1) obtain v n where p: "p = PrefixFrom (Addr6 v []) (int n)" "n \<le> 128"
    by (rule wf_prefix_v6_cases)
  with assms show ?thesis
    by (simp add: Contains_v6 and_mask6_eq_iff)
qed

lemma Masked_low_bit:
  assumes "wf_prefix p" "Masked p = p" "IsValid p" "pfx_ip p = Addr6 w z" "bit w k" "k < 128"
  shows "128 - nat (Bits p) \<le> k"
proof -
  have "Is6 (pfx_ip p)"
    using assms(4) by (simp add: Is6_def)
  with assms(1,3) obtain v n where p: "p = PrefixFrom (Addr6 v []) (int n)" "n \<le> 128"
    using wf_prefix_v6_cases by blast
  have "pfx_ip (Masked p) = pfx_ip p"
    using assms(2) by simp
  with p have "v AND mask6 n = v"
    by (simp add: Masked_v6)
  moreover have "w = v"
    using assms(4) p by simp
  ultimately have "bit (v AND mask6 n) k"
    using assms(5) by simp
  then show ?thesis
    using p by (simp add: bit_and_iff bit_mask6)
qed

lemma Validate_None_iff:
  "Policy_Validate pol p = None \<longleftrightarrow>
     ValidateDelegatedPrefix p (RequireGlobalUnicast pol) = None \<and> checkLength pol (Bits p) = None"
  by (auto simp: Policy_Validate_def split: option.splits)

lemma ValidateDelegated_NoneD:
  assumes "ValidateDelegatedPrefix p g = None"
  shows "IsValid p" "Is6 (pfx_ip p)" "\<not> Is4In6 (pfx_ip p)" "0 < Bits p" "Bits p \<le> BitLen (pfx_ip p)"
    "\<not> IsLinkLocalUnicast (pfx_ip p)" "\<not> IsMulticast (pfx_ip p)" "g \<Longrightarrow> isGlobalUnicast (pfx_ip p)"
  using assms by (auto simp: ValidateDelegatedPrefix_def split: if_splits)

text \<open>
  A network accepted under a policy that requires global unicast hands out global unicast
  addresses only: the test on the three leading bits of the masked network address rules out
  prefixes too short to fix them, so every address inside the prefix passes the same test, and
  the length lies within the configured bounds.
\<close>

theorem accepted_prefix_is_global_unicast:
  assumes "wf_prefix p" and "Masked p = p" and "RequireGlobalUnicast pol"
    and "Policy_Validate pol p = None"
  shows "3 \<le> Bits p \<and> Bits p \<le> 128 \<and>
     (MinPrefixLength pol > 0 \<longrightarrow> MinPrefixLength pol \<le> Bits p) \<and>
     (MaxPrefixLength pol > 0 \<longrightarrow> Bits p \<le> MaxPrefixLength pol) \<and>
     (\<forall>a. Contains p a \<longrightarrow> isGlobalUnicast a)"
proof -
  have v: "ValidateDelegatedPrefix p True = None" and len: "checkLength pol (Bits p) = None"
    using assms(3,4) by (simp_all add: Validate_None_iff)
  note val = ValidateDelegated_NoneD [OF v]
  obtain w where w: "pfx_ip p = Addr6 w []"
    using assms(1) val(2) by (auto simp: wf_prefix_def Is6_def Zone_def split: addr.splits)
  have gua: "\<not> bit w 127" "\<not> bit w 126" "bit w 125"
    using val(8) w by (auto simp: isGlobalUnicast_bits)
  have "128 - nat (Bits p) \<le> 125"
    using Masked_low_bit [OF assms(1,2) val(1) w gua(3)] by simp
  then have three: "3 \<le> Bits p" by simp
  have "isGlobalUnicast a" if "Contains p a" for a
  proof -
    obtain x where x: "a = Addr6 x []"
      using \<open>Contains p a\<close> w by (cases a) (simp_all add: Contains_def Zone_def)
    have "bit x k = bit w k" if "k \<in> {125, 126, 127}" for k
      using Contains_same_bit [OF assms(1) \<open>Contains p a\<close> [unfolded x] w, of k] that three by auto
    then show ?thesis
      using gua x by (simp add: isGlobalUnicast_bits)
  qed
  then show ?thesis
    using three val(5) w len by (auto simp: BitLen_def checkLength_def split: if_splits)
qed

theorem accepted_prefix_is_global_unicast_witness:
  "let p = PrefixFrom (Addr6 0x20010DB8000100020000000000000000 []) 64 in
   isGlobalUnicast (Addr6 0x20010DB80001000200000000DEADBEEF []) \<and>
   Contains p (Addr6 0x20010DB80001000200000000DEADBEEF [])"
proof -
  let ?p = "PrefixFrom (Addr6 0x20010DB8000100020000000000000000 []) 64"
  have "Masked ?p = ?p"
    by (simp add: go_eval)
  moreover have "isGlobalUnicast (Addr6 0x20010DB8000100020000000000000000 [])"
    by (simp add: isGlobalUnicast_def As16_def addr128_def nth_bytes16 Is6_def)
  then have "Policy_Validate DefaultPolicy ?p = None"
    by (simp add: Policy_Validate_def ValidateDelegatedPrefix_def DefaultPolicy_def checkLength_def
        Is6_def Is4In6_def go_eval BitLen_def IsLoopback_def IsMulticast_def IsUnspecified_def
        IsLinkLocalUnicast_def Unmap_def v6u16_def)
  moreover have "Contains ?p (Addr6 0x20010DB80001000200000000DEADBEEF [])"
    by (simp add: go_eval)
  ultimately show ?thesis
    using accepted_prefix_is_global_unicast [of ?p DefaultPolicy] by (simp add: DefaultPolicy_def Let_def)
qed

subsection \<open>Trusted routers\<close>

lemma parseTrustedRouter_OkD:
  "parseTrustedRouter v = Ok a \<Longrightarrow>
     ParseAddr v = Ok a \<and> Zone a = [] \<and> Is6 a \<and> \<not> Is4In6 a \<and> IsLinkLocalUnicast a"
  by (auto simp: parseTrustedRouter_def split: sum.splits if_splits)

lemma ParseTrustedRouters_OkD:
  assumes "ParseTrustedRouters vs = Ok rs"
  shows "length rs = length vs"
    and "r \<in> set rs \<Longrightarrow> Zone r = [] \<and> Is6 r \<and> \<not> Is4In6 r \<and> IsLinkLocalUnicast r"
proof -
  have t: "traverse parseTrustedRouter vs = Ok rs"
    using assms by (auto simp: ParseTrustedRouters_def split: if_splits)
  then show "length rs = length vs"
    by (rule traverse_Ok_length)
  show "Zone r = [] \<and> Is6 r \<and> \<not> Is4In6 r \<and> IsLinkLocalUnicast r" if "r \<in> set rs"
    using t that by (auto simp: traverse_Ok_iff in_set_conv_nth list_all2_conv_all_nth
        dest!: parseTrustedRouter_OkD)
qed

text \<open>
  A configured allowlist is enforced exactly: when it parses, an advertisement's source is
  trusted iff the source without its zone is one of the listed addresses, each of which is a
  zone-free link-local IPv6 address; a list that names no router trusts every source.
\<close>

theorem trusted_routers_enforced:
  assumes "ParseTrustedRouters vs = Ok rs"
  shows "Trusts \<lparr>ra_Policy = pol, TrustedRouters = rs\<rparr> src \<longleftrightarrow>
           vs = [] \<or> (WithZone src [] \<in> set rs \<and> IsLinkLocalUnicast (WithZone src []) \<and> Is6 src)"
proof -
  have "rs = [] \<longleftrightarrow> vs = []"
    using ParseTrustedRouters_OkD(1) [OF assms] by auto
  moreover have "IsLinkLocalUnicast (WithZone src []) \<and> Is6 src" if "WithZone src [] \<in> set rs"
    using ParseTrustedRouters_OkD(2) [OF assms that]
    by (auto simp: Is6_def WithZone_def split: addr.splits)
  ultimately show ?thesis
    by (auto simp: Trusts_def list_ex_iff)
qed

theorem trusted_routers_enforced_witness:
  "ParseTrustedRouters [''fe80::1''] = Ok [Addr6 0xFE800000000000000000000000000001 []] \<and>
   Trusts \<lparr>ra_Policy = DefaultPolicy, TrustedRouters = [Addr6 0xFE800000000000000000000000000001 []]\<rparr>
     (Addr6 0xFE800000000000000000000000000001 ''eth0'')"
proof -
  have p: "ParseTrustedRouters [''fe80::1''] = Ok [Addr6 0xFE800000000000000000000000000001 []]"
    by (simp add: ParseTrustedRouters_def parseTrustedRouter_def go_eval Zone_def Is6_def Is4In6_def
        IsLinkLocalUnicast_def Unmap_def v6u16_def)
  then show ?thesis
    using trusted_routers_enforced [OF p, of DefaultPolicy "Addr6 0xFE800000000000000000000000000001 ''eth0''"]
    by (simp add: WithZone_def IsLinkLocalUnicast_def Unmap_def v6u16_def Is4In6_def Is6_def)
qed

subsection \<open>The policy key determines the policy\<close>

lemma set_dec_int: "set (dec_int i) \<subseteq> insert (CHR ''-'') (digit_char ` {0..<10})"
  using set_dec by (auto simp: dec_int_def)

lemma bar_notin_dec_int: "CHR ''|'' \<notin> set (dec_int i)"
  using set_dec_int [of i] not_dec(6) by auto

lemma split_append: "split c (s @ c # t) = split c s @ split c t"
  by (induction s) (auto split: list.splits)

lemma join_split: "join c (split c s) = s"
proof (induction s)
  case Nil
  then show ?case by simp
next
  case (Cons x s)
  then show ?case
    by (cases "split c s"; cases "tl (split c s)") (auto split: list.splits)
qed

lemma split_inj: "split c s = split c t \<longleftrightarrow> s = t"
  by (metis join_split)

text \<open>Routers as the factory admits them: printed without a zone, hence free of separators.\<close>

definition plain_routers :: "addr list \<Rightarrow> bool" where
  "plain_routers rs \<longleftrightarrow> (\<forall>r \<in> set rs. r \<noteq> AddrZero \<and> Zone r = [])"

lemma router_text:
  assumes "plain_routers rs" "r \<in> set rs"
  shows "CHR '','' \<notin> set (AddrString r)" "CHR ''|'' \<notin> set (AddrString r)" "AddrString r \<noteq> []"
proof -
  have r: "r \<noteq> AddrZero" "Zone r = []"
    using assms by (auto simp: plain_routers_def)
  then have "set (AddrString r) \<subseteq> {CHR '':'', CHR ''.''} \<union> digit_char ` {0..<16}"
    by (rule set_AddrString)
  then show "CHR '','' \<notin> set (AddrString r)" "CHR ''|'' \<notin> set (AddrString r)"
    using not_hex(5,6) by auto
  show "AddrString r \<noteq> []"
    using ParseAddr_AddrString [OF r(1)] by (auto simp: ParseAddr_def)
qed

definition routers_text :: "addr list \<Rightarrow> string" where
  "routers_text rs = join (CHR '','') (sort (map AddrString rs))"

lemma RAPolicy_Key_routers:
  "RAPolicy_Key p = Policy_Key (ra_Policy p) @ ''|trusted='' @ routers_text (TrustedRouters p)"
  by (simp add: RAPolicy_Key_def routers_text_def)

lemma bar_notin_routers_text: "plain_routers rs \<Longrightarrow> CHR ''|'' \<notin> set (routers_text rs)"
  using set_join [of "CHR '',''" "sort (map AddrString rs)"] router_text(2) [of rs]
  by (fastforce simp: routers_text_def)

lemma routers_text_inj:
  assumes "plain_routers rs" "plain_routers qs" "routers_text rs = routers_text qs"
  shows "set rs = set qs"
proof -
  have empty: "routers_text xs = [] \<longleftrightarrow> xs = []" if "plain_routers xs" for xs
  proof (cases "sort (map AddrString xs)")
    case Nil
    then show ?thesis
      by (metis (no_types) join.simps(1) length_map length_sort length_0_conv routers_text_def)
  next
    case (Cons y ys)
    then have "y \<in> AddrString ` set xs"
      by (metis list.set_intros(1) set_map set_sort)
    then have "y \<noteq> []"
      using router_text(3) [OF that] by auto
    then show ?thesis
      using Cons by (cases ys) (auto simp: routers_text_def)
  qed
  have splits: "split (CHR '','') (routers_text xs) = sort (map AddrString xs)"
    if "plain_routers xs" "xs \<noteq> []" for xs
  proof -
    have "CHR '','' \<notin> set s" if "s \<in> set (sort (map AddrString xs))" for s
    proof -
      from that have "s \<in> AddrString ` set xs"
        by simp
      then show ?thesis
        by (rule imageE) (simp only: router_text(1) [OF \<open>plain_routers xs\<close>] simp_thms)
    qed
    moreover have "length (sort (map AddrString xs)) = length xs"
      by simp
    then have "sort (map AddrString xs) \<noteq> []"
      using \<open>xs \<noteq> []\<close> by (metis length_0_conv)
    ultimately show ?thesis
      unfolding routers_text_def by (intro split_join ballI)
  qed
  have "sort (map AddrString rs) = sort (map AddrString qs)"
  proof (cases "rs = []")
    case True
    then have "routers_text qs = []"
      using empty [OF assms(1)] assms(3) by simp
    with True show ?thesis
      using empty [OF assms(2)] by simp
  next
    case False
    then have "qs \<noteq> []"
      using empty [OF assms(1)] empty [OF assms(2)] assms(3) by simp
    with False show ?thesis
      using splits [OF assms(1)] splits [OF assms(2)] assms(3) by simp
  qed
  then have "AddrString ` set rs = AddrString ` set qs"
    by (metis set_map set_sort)
  moreover have "inj_on AddrString (set rs \<union> set qs)"
    using assms(1,2) by (auto simp: inj_on_def plain_routers_def AddrString_inj)
  ultimately show ?thesis
    by (metis Un_upper1 Un_upper2 inj_on_image_eq_iff)
qed

lemma split_key:
  assumes "plain_routers (TrustedRouters p)"
  shows "split (CHR ''|'') (iface @ CHR ''|'' # RAPolicy_Key p) =
     split (CHR ''|'') iface @
       [''gua='' @ bool_text (RequireGlobalUnicast (ra_Policy p)),
        ''min='' @ dec_int (MinPrefixLength (ra_Policy p)),
        ''max='' @ dec_int (MaxPrefixLength (ra_Policy p)),
        ''trusted='' @ routers_text (TrustedRouters p)]"
proof -
  let ?g = "''gua='' @ bool_text (RequireGlobalUnicast (ra_Policy p))"
  let ?m = "''min='' @ dec_int (MinPrefixLength (ra_Policy p))"
  let ?M = "''max='' @ dec_int (MaxPrefixLength (ra_Policy p))"
  let ?t = "''trusted='' @ routers_text (TrustedRouters p)"
  have "RAPolicy_Key p = ?g @ CHR ''|'' # ?m @ CHR ''|'' # ?M @ CHR ''|'' # ?t"
    by (simp add: RAPolicy_Key_routers Policy_Key_def)
  moreover have "CHR ''|'' \<notin> set ?g" "CHR ''|'' \<notin> set ?m" "CHR ''|'' \<notin> set ?M" "CHR ''|'' \<notin> set ?t"
    using bar_notin_dec_int bar_notin_routers_text [OF assms] by (auto simp: bool_text_def)
  ultimately show ?thesis
    by (simp add: split_append split_no_sep del: append.simps append_assoc)
qed

text \<open>Equal interface-and-policy keys mean the same interface and the same decisions.\<close>

lemma policy_key_sound:
  assumes "plain_routers (TrustedRouters p)" "plain_routers (TrustedRouters q)"
    and "i @ CHR ''|'' # RAPolicy_Key p = j @ CHR ''|'' # RAPolicy_Key q"
  shows "i = j" "ra_Policy p = ra_Policy q" "set (TrustedRouters p) = set (TrustedRouters q)"
proof -
  have "split (CHR ''|'') (i @ CHR ''|'' # RAPolicy_Key p) = split (CHR ''|'') (j @ CHR ''|'' # RAPolicy_Key q)"
    using assms(3) by simp
  then have eq: "split (CHR ''|'') i = split (CHR ''|'') j"
    "bool_text (RequireGlobalUnicast (ra_Policy p)) = bool_text (RequireGlobalUnicast (ra_Policy q))"
    "dec_int (MinPrefixLength (ra_Policy p)) = dec_int (MinPrefixLength (ra_Policy q))"
    "dec_int (MaxPrefixLength (ra_Policy p)) = dec_int (MaxPrefixLength (ra_Policy q))"
    "routers_text (TrustedRouters p) = routers_text (TrustedRouters q)"
    unfolding split_key [OF assms(1)] split_key [OF assms(2)] by (auto simp: append_eq_append_conv)
  show "i = j"
    using eq(1) by (simp add: split_inj)
  have "RequireGlobalUnicast (ra_Policy p) = RequireGlobalUnicast (ra_Policy q)"
    using eq(2) by (auto simp: bool_text_def split: if_splits)
  with eq(3,4) show "ra_Policy p = ra_Policy q"
    by (cases "ra_Policy p"; cases "ra_Policy q") simp
  show "set (TrustedRouters p) = set (TrustedRouters q)"
    using routers_text_inj [OF assms(1,2) eq(5)] .
qed

end
