(* ===== verification/Receiver_Core.thy ===== *)
theory Receiver_Core
  imports Prefix_Policy
begin

text \<open>
  What every prefix receiver shares: the data of \<^verbatim>\<open>internal/prefix/types.go\<close>, the health tracker
  of \<^verbatim>\<open>health.go\<close>, the bounded event channel into which all receivers send without blocking,
  and the \<^verbatim>\<open>Receiver\<close> interface.  The interface is a record of operations (the method table a Go
  interface value carries) and its contract is the locale \<open>receiver_contract\<close>, which the
  Router Advertisement, DHCPv6-PD, shared and composite receivers interpret.
\<close>

subsection \<open>Prefixes and events\<close>

datatype Source =
    SourceDHCPv6PD
  | SourceRouterAdvertisement
  | SourceStatic
  | SourceUnknown

record Prefix =
  Network :: ipprefix
  ValidLifetime :: duration
  PreferredLifetime :: duration
  prefix_Source :: Source
  ReceivedAt :: instant

datatype EventType =
    EventTypeAcquired
  | EventTypeRenewed
  | EventTypeChanged
  | EventTypeExpired
  | EventTypeFailed

text \<open>
  Failures the receivers report.  The text of an error that the operating system or a library
  returned is carried as it is.
\<close>

datatype message_type = MsgSolicit | MsgAdvertise | MsgRequest | MsgReply | MsgRenew | MsgRebind

datatype status_error = NoBinding string | ServerReported nat string

datatype pd_error =
    PDInterfaceLookup string string
  | PDDialFailed string
  | PDIndexOutOfRange string int
  | PDNewMessageFailed message_type string
  | PDNoAnswer message_type string
  | PDAdvertiseWithoutIAPD
  | PDAdvertiseRefused status_error
  | PDAdvertiseWithoutServerID
  | PDReplyRefused status_error
  | PDReplyWithoutIAPD
  | PDIAPDRefused status_error
  | PDWithoutPrefixes
  | PDWithoutValidPrefix
  | PDInvalidAddress
  | PDInvalidLength
  | PDRejectedByPolicy policy_error
  | PDNoLeaseToRenew
  | PDNoLeaseToRebind
  | PDReplyWithoutServerID

datatype recv_error =
    InterfaceLookupFailed string string
  | NDPListenFailed string string
  | SetReadDeadlineFailed string
  | ReadNDPFailed string
  | NDPConnNotInitialized
  | SetWriteDeadlineFailed string
  | WriteSolicitationFailed string
  | RALeaseExpired ipprefix duration instant
  | SocketCloseFailed string
  | PDInitialAcquisitionFailed pd_error
  | PDAcquisitionFailed pd_error
  | PDRenewalFailed pd_error
  | PDRebindFailed pd_error

record Event =
  event_Type :: EventType
  event_Prefix :: "Prefix option"
  event_Error :: "recv_error option"

subsection \<open>The event channel\<close>

text \<open>\<^verbatim>\<open>make(chan Event, 10)\<close>, written only by a \<^verbatim>\<open>select\<close> with a \<^verbatim>\<open>default\<close> branch: a full channel
  drops the event.\<close>

definition eventCap :: nat where
  "eventCap = 10"

definition trySend :: "Event \<Rightarrow> Event list \<Rightarrow> Event list" where
  "trySend ev ch = (if length ch < eventCap then ch @ [ev] else ch)"

lemma length_trySend [simp]: "length ch \<le> eventCap \<Longrightarrow> length (trySend ev ch) \<le> eventCap"
  by (simp add: trySend_def)

lemma set_trySend: "set (trySend ev ch) \<subseteq> insert ev (set ch)"
  by (auto simp: trySend_def)

lemma trySend_ballI: "\<forall>x \<in> set ch. P x \<Longrightarrow> P ev \<Longrightarrow> \<forall>x \<in> set (trySend ev ch). P x"
  using set_trySend by blast

subsection \<open>Health\<close>

type_synonym healthTracker = "recv_error option"

definition recordFailure :: "recv_error \<Rightarrow> healthTracker \<Rightarrow> healthTracker" where
  "recordFailure err h = Some err"

definition recordSuccess :: "healthTracker \<Rightarrow> healthTracker" where
  "recordSuccess h = None"

definition LastError :: "healthTracker \<Rightarrow> recv_error option" where
  "LastError h = h"

subsection \<open>Invariants of step relations\<close>

text \<open>
  The components with goroutines are step relations; an invariant of the initial states that
  every step keeps holds wherever the steps lead.
\<close>

locale transition_invariant =
  fixes initial :: "'s \<Rightarrow> bool"
    and step :: "'s \<Rightarrow> 's \<Rightarrow> bool"
    and inv :: "'s \<Rightarrow> bool"
  assumes initial_inv: "initial s \<Longrightarrow> inv s"
    and step_inv: "inv s \<Longrightarrow> step s s' \<Longrightarrow> inv s'"
begin

lemma steps_inv: "step\<^sup>*\<^sup>* s s' \<Longrightarrow> inv s \<Longrightarrow> inv s'"
  by (induction rule: rtranclp_induct) (auto intro: step_inv)

lemma reachable_inv: "initial s \<Longrightarrow> step\<^sup>*\<^sup>* s s' \<Longrightarrow> inv s'"
  using initial_inv steps_inv by blast

end

subsection \<open>The Receiver interface\<close>

text \<open>
  The method table of a \<^verbatim>\<open>Receiver\<close> value.  \<open>'r\<close> is the state the methods work on and \<open>'e\<close> what the
  environment answers during a call.  \<^verbatim>\<open>Stop\<close> yields \<open>None\<close> where the code would panic.  \<open>op_take\<close> is
  a receive from the \<^verbatim>\<open>Events()\<close> channel, \<open>None\<close> while it is empty.
\<close>

record ('r, 'e) receiver_ops =
  op_Start :: "'e \<Rightarrow> 'r \<Rightarrow> recv_error option \<times> 'r"
  op_Stop :: "'e \<Rightarrow> 'r \<Rightarrow> (recv_error option \<times> 'r) option"
  op_take :: "'r \<Rightarrow> (Event \<times> 'r) option"
  op_CurrentPrefix :: "'r \<Rightarrow> Prefix option"
  op_Source :: "'r \<Rightarrow> Source"
  op_LastError :: "'r \<Rightarrow> recv_error option"
  op_RARejections :: "'r \<Rightarrow> (64 word \<times> string) option"

datatype 'e receiver_call = CallStart 'e | CallStop 'e

locale receiver_contract =
  fixes ops :: "('r, 'e) receiver_ops"
    and inv :: "'r \<Rightarrow> bool"
    and running :: "'r \<Rightarrow> bool"
  assumes start_running: "inv r \<Longrightarrow> running r \<Longrightarrow> op_Start ops e r = (None, r)"
    and start_inv: "inv r \<Longrightarrow> inv (snd (op_Start ops e r))"
    and start_result: "inv r \<Longrightarrow> running (snd (op_Start ops e r)) \<longleftrightarrow> fst (op_Start ops e r) = None"
    and start_current: "inv r \<Longrightarrow> op_CurrentPrefix ops (snd (op_Start ops e r)) = op_CurrentPrefix ops r"
    and stop_returns: "inv r \<Longrightarrow> \<exists>err r'. op_Stop ops e r = Some (err, r') \<and> inv r' \<and> \<not> running r' \<and>
                         op_CurrentPrefix ops r' = op_CurrentPrefix ops r"
    and take_keeps: "inv r \<Longrightarrow> op_take ops r = Some (ev, r') \<Longrightarrow>
                         inv r' \<and> running r' = running r \<and> op_CurrentPrefix ops r' = op_CurrentPrefix ops r"
begin

text \<open>A sequence of calls, and what the last of them leaves.\<close>

primrec call :: "'e receiver_call \<Rightarrow> 'r \<Rightarrow> 'r option" where
  "call (CallStart e) r = Some (snd (op_Start ops e r))"
| "call (CallStop e) r = map_option snd (op_Stop ops e r)"

primrec calls :: "'e receiver_call list \<Rightarrow> 'r \<Rightarrow> 'r option" where
  "calls [] r = Some r"
| "calls (c # cs) r = Option.bind (call c r) (calls cs)"

lemma call_returns:
  assumes "inv r"
  shows "\<exists>r'. call c r = Some r' \<and> inv r' \<and> op_CurrentPrefix ops r' = op_CurrentPrefix ops r"
proof (cases c)
  case (CallStart e)
  then show ?thesis
    using start_inv [OF assms, of e] start_current [OF assms, of e] by simp
next
  case (CallStop e)
  then show ?thesis
    using stop_returns [OF assms, of e] by auto
qed

lemma calls_return:
  "inv r \<Longrightarrow> \<exists>r'. calls cs r = Some r' \<and> inv r' \<and> op_CurrentPrefix ops r' = op_CurrentPrefix ops r"
proof (induction cs arbitrary: r)
  case (Cons c cs)
  then obtain r1 where "call c r = Some r1" "inv r1" "op_CurrentPrefix ops r1 = op_CurrentPrefix ops r"
    using call_returns by blast
  with Cons.IH [of r1] show ?case
    by auto
qed simp

lemma calls_append: "calls (cs @ ds) r = Option.bind (calls cs r) (calls ds)"
proof (induction cs arbitrary: r)
  case (Cons c cs)
  then show ?case
    by (cases "call c r") simp_all
qed simp

lemma stopped_after_stop:
  assumes "inv r" "calls (cs @ [CallStop e]) r = Some r'"
  shows "\<not> running r'"
proof -
  obtain r1 where "calls cs r = Some r1" "inv r1"
    using calls_return [OF assms(1)] by blast
  then show ?thesis
    using assms(2) stop_returns [of r1 e] by (auto simp: calls_append)
qed

end

end
