(* ===== verification/RA_Receiver.thy ===== *)
theory RA_Receiver
  imports Receiver_Core
begin

text \<open>
  The Router Advertisement receiver of \<^verbatim>\<open>internal/prefix/ra_receiver.go\<close>: validation of a received
  advertisement, selection of the prefix to track, the lease it implies and its expiry, and the
  goroutines that run between \<^verbatim>\<open>Start\<close> and \<^verbatim>\<open>Stop\<close>.  Sockets, the interface table and the NDP decoder
  are the environment: what they return is an argument of each operation.  Every generation of
  goroutines carries its own stop channel and hop-limit flag, and \<open>ra_step\<close> interleaves them
  with the calls, since \<^verbatim>\<open>Stop\<close> does not wait for a loop that is inside \<^verbatim>\<open>ReadFrom\<close>.
\<close>

subsection \<open>Messages as the decoder delivers them\<close>

record PrefixInformation =
  PrefixLength :: byte
  OnLink :: bool
  AutonomousAddressConfiguration :: bool
  pi_ValidLifetime :: duration
  pi_PreferredLifetime :: duration
  pi_Prefix :: addr

datatype ndp_option = OptPrefixInformation PrefixInformation | OptOther

datatype ndp_message = MsgRouterAdvertisement "ndp_option list" | MsgOther

text \<open>A control message, of which only \<^verbatim>\<open>HopLimit\<close> is read; \<^verbatim>\<open>nil\<close> is \<open>None\<close>.\<close>

type_synonym control_message = "int option"

definition ndp_HopLimit :: int where
  "ndp_HopLimit = 255"

datatype read_outcome =
    ReadTimeout
  | ReadError string
  | ReadMessage ndp_message control_message addr

subsection \<open>The receiver\<close>

definition defaultMaxRouterSolicitations :: int where
  "defaultMaxRouterSolicitations = 3"

definition defaultRouterSolicitationInterval :: duration where
  "defaultRouterSolicitationInterval = 4 * second"

text \<open>
  A stop channel is a number; \<open>ra_closed\<close> holds the closed ones and \<open>ra_nextCh\<close> is the next
  channel \<^verbatim>\<open>make\<close> returns.  \<open>ra_onReject\<close> and \<open>ra_onHopLimit\<close> say whether an observer is installed
  and \<open>ra_rejectCalls\<close>, \<open>ra_hopLimitCalls\<close> list the calls made to it.
\<close>

record RAReceiver =
  ra_health :: healthTracker
  ra_iface :: string
  ra_conn :: "nat option"
  ra_currentPrefix :: "Prefix option"
  ra_events :: "Event list"
  ra_stopCh :: nat
  ra_closed :: "nat list"
  ra_nextCh :: nat
  ra_started :: bool
  ra_maxRouterSolicitations :: int
  ra_routerSolicitationInterval :: duration
  ra_policy :: RAPolicy
  ra_verifyHopLimit :: bool
  ra_rejected :: "64 word"
  ra_onReject :: bool
  ra_rejectCalls :: "(string \<times> string) list"
  ra_onHopLimit :: bool
  ra_hopLimitCalls :: "(string \<times> bool) list"
  ra_lastReason :: string

definition NewRAReceiverWithPolicy :: "string \<Rightarrow> RAPolicy \<Rightarrow> bool \<Rightarrow> bool \<Rightarrow> RAReceiver" where
  "NewRAReceiverWithPolicy iface policy observer hopObserver =
     \<lparr>ra_health = None, ra_iface = iface, ra_conn = None, ra_currentPrefix = None, ra_events = [],
      ra_stopCh = 0, ra_closed = [], ra_nextCh = 1, ra_started = False,
      ra_maxRouterSolicitations = defaultMaxRouterSolicitations,
      ra_routerSolicitationInterval = defaultRouterSolicitationInterval,
      ra_policy = policy, ra_verifyHopLimit = False, ra_rejected = 0,
      ra_onReject = observer, ra_rejectCalls = [],
      ra_onHopLimit = hopObserver, ra_hopLimitCalls = [], ra_lastReason = []\<rparr>"

definition NewRAReceiver :: "string \<Rightarrow> RAReceiver" where
  "NewRAReceiver iface = NewRAReceiverWithPolicy iface DefaultRAPolicy False False"

text \<open>What the operating system answers while a receiver starts.\<close>

record ra_start_env =
  env_lookup :: "string + byte list"
  env_listen :: "string option"
  env_setControl :: "string option"

definition RA_Start :: "ra_start_env \<Rightarrow> RAReceiver \<Rightarrow> recv_error option \<times> RAReceiver" where
  "RA_Start env r =
     (if ra_started r then (None, r)
      else case env_lookup env of
        Inl e \<Rightarrow> (Some (InterfaceLookupFailed (ra_iface r) e), r)
      | Inr hw \<Rightarrow>
          (case env_listen env of
             Some e \<Rightarrow> (Some (NDPListenFailed (ra_iface r) e), r)
           | None \<Rightarrow>
               let verify = (env_setControl env = None) in
               (None, r\<lparr>ra_verifyHopLimit := verify,
                        ra_hopLimitCalls := (if ra_onHopLimit r
                          then ra_hopLimitCalls r @ [(ra_iface r, verify)] else ra_hopLimitCalls r),
                        ra_conn := Some (ra_nextCh r),
                        ra_stopCh := ra_nextCh r,
                        ra_nextCh := ra_nextCh r + 1,
                        ra_started := True\<rparr>)))"

text \<open>\<open>None\<close> is the panic of closing a channel twice.\<close>

definition RA_Stop :: "string option \<Rightarrow> RAReceiver \<Rightarrow> (recv_error option \<times> RAReceiver) option" where
  "RA_Stop closeErr r =
     (if \<not> ra_started r then Some (None, r)
      else if ra_stopCh r \<in> set (ra_closed r) then None
      else Some (if ra_conn r \<noteq> None then map_option SocketCloseFailed closeErr else None,
                 r\<lparr>ra_started := False, ra_closed := ra_stopCh r # ra_closed r\<rparr>))"

definition RA_CurrentPrefix :: "RAReceiver \<Rightarrow> Prefix option" where
  "RA_CurrentPrefix r = ra_currentPrefix r"

definition RA_LastError :: "RAReceiver \<Rightarrow> recv_error option" where
  "RA_LastError r = LastError (ra_health r)"

definition recordRejection :: "string \<Rightarrow> RAReceiver \<Rightarrow> 64 word \<times> RAReceiver" where
  "recordRejection reason r =
     (let count = ra_rejected r + 1 in
      (count, r\<lparr>ra_lastReason := reason, ra_rejected := count,
                ra_rejectCalls := (if ra_onReject r then ra_rejectCalls r @ [(ra_iface r, reason)]
                                   else ra_rejectCalls r)\<rparr>))"

definition RARejections :: "RAReceiver \<Rightarrow> 64 word \<times> string" where
  "RARejections r = (ra_rejected r, ra_lastReason r)"

definition RA_Source :: "RAReceiver \<Rightarrow> Source" where
  "RA_Source r = SourceRouterAdvertisement"

definition ra_sendError :: "recv_error \<Rightarrow> RAReceiver \<Rightarrow> RAReceiver" where
  "ra_sendError err r =
     r\<lparr>ra_health := recordFailure err (ra_health r),
       ra_events := trySend \<lparr>event_Type = EventTypeFailed, event_Prefix = None, event_Error = Some err\<rparr>
                      (ra_events r)\<rparr>"

subsection \<open>Validation\<close>

definition rejectReasonNotLinkLocal :: string where
  "rejectReasonNotLinkLocal = ''source-not-link-local''"
definition rejectReasonHopLimitUnknown :: string where
  "rejectReasonHopLimitUnknown = ''hop-limit-unreported''"
definition rejectReasonForwarded :: string where
  "rejectReasonForwarded = ''forwarded-hop-limit''"
definition rejectReasonUntrustedSource :: string where
  "rejectReasonUntrustedSource = ''untrusted-source''"
definition rejectReasonPrefixLength :: string where
  "rejectReasonPrefixLength = ''prefix-length-out-of-bounds''"

text \<open>The reason alone is modelled; the accompanying description is only logged.\<close>

definition rejectRouterAdvertisement :: "RAReceiver \<Rightarrow> addr \<Rightarrow> control_message \<Rightarrow> bool \<Rightarrow> string" where
  "rejectRouterAdvertisement r from cm verifyHopLimit =
     (if \<not> isLinkLocal from then rejectReasonNotLinkLocal
      else if \<not> Trusts (ra_policy r) from then rejectReasonUntrustedSource
      else if \<not> verifyHopLimit then []
      else case cm of
        None \<Rightarrow> rejectReasonHopLimitUnknown
      | Some hop \<Rightarrow> if hop \<noteq> ndp_HopLimit then rejectReasonForwarded else [])"

subsection \<open>Selection of the prefix to track\<close>

text \<open>One turn of the loop over the options, with the best prefix so far.\<close>

definition consider_option ::
    "ndp_option \<Rightarrow> RAReceiver \<times> PrefixInformation option \<Rightarrow> RAReceiver \<times> PrefixInformation option" where
  "consider_option opt st = (case st of (r, best) \<Rightarrow> case opt of
       OptOther \<Rightarrow> (r, best)
     | OptPrefixInformation p \<Rightarrow>
         if \<not> OnLink p then (r, best)
         else if pi_ValidLifetime p = 0 then (r, best)
         else if checkLength (ra_Policy (ra_policy r)) (int (unat (PrefixLength p))) \<noteq> None
           then (snd (recordRejection rejectReasonPrefixLength r), best)
         else if isGlobalUnicast (pi_Prefix p) then
           (case best of
              None \<Rightarrow> (r, Some p)
            | Some b \<Rightarrow> (r, if \<not> isGlobalUnicast (pi_Prefix b) then Some p else Some b))
         else if isULA (pi_Prefix p) then
           (if RequireGlobalUnicast (ra_Policy (ra_policy r)) then (r, best)
            else (case best of None \<Rightarrow> (r, Some p) | Some b \<Rightarrow> (r, Some b)))
         else (r, best))"

definition updatePrefix ::
    "instant \<Rightarrow> ipprefix \<Rightarrow> duration \<Rightarrow> duration \<Rightarrow> RAReceiver \<Rightarrow> RAReceiver" where
  "updatePrefix now prefix validLifetime preferredLifetime r =
     (let newPrefix = \<lparr>Network = prefix, ValidLifetime = validLifetime,
                       PreferredLifetime = preferredLifetime,
                       prefix_Source = SourceRouterAdvertisement, ReceivedAt = now\<rparr>;
          eventType = (case ra_currentPrefix r of
                         None \<Rightarrow> EventTypeAcquired
                       | Some c \<Rightarrow> if Network c \<noteq> prefix then EventTypeChanged else EventTypeRenewed)
      in r\<lparr>ra_currentPrefix := Some newPrefix,
           ra_health := recordSuccess (ra_health r),
           ra_events := trySend \<lparr>event_Type = eventType, event_Prefix = Some newPrefix, event_Error = None\<rparr>
                          (ra_events r)\<rparr>)"

definition handleRouterAdvertisement :: "instant \<Rightarrow> ndp_option list \<Rightarrow> RAReceiver \<Rightarrow> RAReceiver" where
  "handleRouterAdvertisement now options r =
     (case fold consider_option options (r, None) of
        (r', None) \<Rightarrow> r'
      | (r', Some best) \<Rightarrow>
          if int (unat (PrefixLength best)) > BitLen (Addr6 0 []) then r'
          else updatePrefix now
                 (Masked (PrefixFrom (pi_Prefix best) (int (unat (PrefixLength best)))))
                 (pi_ValidLifetime best) (pi_PreferredLifetime best) r')"

subsection \<open>Expiry\<close>

definition raLeaseExpiryCheckInterval :: duration where
  "raLeaseExpiryCheckInterval = 30 * second"

definition expireLeaseIfStale :: "instant \<Rightarrow> RAReceiver \<Rightarrow> RAReceiver" where
  "expireLeaseIfStale now r =
     (case ra_currentPrefix r of
        None \<Rightarrow> r
      | Some current \<Rightarrow>
          if ValidLifetime current \<le> 0 then r
          else if \<not> now > ReceivedAt current + ValidLifetime current then r
          else r\<lparr>ra_currentPrefix := None,
                 ra_health := recordFailure (RALeaseExpired (Network current) (ValidLifetime current)
                                (ReceivedAt current)) (ra_health r),
                 ra_events := trySend \<lparr>event_Type = EventTypeExpired, event_Prefix = None,
                                       event_Error = None\<rparr> (ra_events r)\<rparr>)"

subsection \<open>Router solicitations\<close>

record solicitation =
  sol_sourceLinkLayer :: "byte list option"
  sol_dst :: addr

definition allRoutersMulticast :: addr where
  "allRoutersMulticast = Addr6 0xFF020000000000000000000000000002 []"

definition sendRouterSolicitation ::
    "RAReceiver \<Rightarrow> byte list \<Rightarrow> string option \<Rightarrow> string option \<Rightarrow> recv_error + solicitation" where
  "sendRouterSolicitation r hwAddr deadlineErr writeErr =
     (if ra_conn r = None then Err NDPConnNotInitialized
      else case deadlineErr of
        Some e \<Rightarrow> Err (SetWriteDeadlineFailed e)
      | None \<Rightarrow>
          (case writeErr of
             Some e \<Rightarrow> Err (WriteSolicitationFailed e)
           | None \<Rightarrow> Ok \<lparr>sol_sourceLinkLayer = (if length hwAddr > 0 then Some hwAddr else None),
                         sol_dst = allRoutersMulticast\<rparr>))"

text \<open>
  What an attempt of the solicitation loop meets: the receiver as it is then, whether it has been
  stopped before the attempt or while waiting for the next, and what the socket answers.
\<close>

record attempt_env =
  at_receiver :: RAReceiver
  at_stopped :: bool
  at_deadlineErr :: "string option"
  at_writeErr :: "string option"
  at_stoppedWaiting :: bool

function solicit_from ::
    "int \<Rightarrow> byte list \<Rightarrow> (int \<Rightarrow> attempt_env) \<Rightarrow> int \<Rightarrow> (recv_error + solicitation) list" where
  "solicit_from maxS hw env attempt =
     (if attempt > maxS then []
      else if ra_currentPrefix (at_receiver (env attempt)) \<noteq> None then []
      else if at_stopped (env attempt) then []
      else let res = sendRouterSolicitation (at_receiver (env attempt)) hw
                       (at_deadlineErr (env attempt)) (at_writeErr (env attempt)) in
        if attempt = maxS then [res]
        else if at_stoppedWaiting (env attempt) then [res]
        else res # solicit_from maxS hw env (attempt + 1))"
  by pat_completeness auto

termination
  by (relation "measure (\<lambda>(m, _, _, a). nat (m + 1 - a))") auto

declare solicit_from.simps [simp del]

definition sendInitialRouterSolicitations ::
    "RAReceiver \<Rightarrow> byte list \<Rightarrow> (int \<Rightarrow> attempt_env) \<Rightarrow> (recv_error + solicitation) list" where
  "sendInitialRouterSolicitations r hw env =
     (let maxS = (if ra_maxRouterSolicitations r \<le> 0 then defaultMaxRouterSolicitations
                  else ra_maxRouterSolicitations r)
      in solicit_from maxS hw env 1)"

subsection \<open>The receive loop\<close>

text \<open>Control points of one generation of \<^verbatim>\<open>receiveLoop\<close>.\<close>

datatype loop_pc = LoopTop | LoopRead | LoopWait

record ra_loop =
  loop_gen :: nat
  loop_verifyHopLimit :: bool
  loop_pc :: loop_pc

text \<open>The head of the loop: the stop check, then the read deadline.  \<open>None\<close> ends the goroutine.\<close>

definition receiveLoop_top ::
    "bool \<Rightarrow> string option \<Rightarrow> ra_loop \<Rightarrow> RAReceiver \<Rightarrow> ra_loop option \<times> RAReceiver" where
  "receiveLoop_top stopped deadlineErr l r =
     (if stopped then (None, r)
      else case deadlineErr of
        Some e \<Rightarrow> (Some (l\<lparr>loop_pc := LoopWait\<rparr>), ra_sendError (SetReadDeadlineFailed e) r)
      | None \<Rightarrow> (Some (l\<lparr>loop_pc := LoopRead\<rparr>), r))"

definition receiveLoop_read ::
    "instant \<Rightarrow> read_outcome \<Rightarrow> ra_loop \<Rightarrow> RAReceiver \<Rightarrow> ra_loop \<times> RAReceiver" where
  "receiveLoop_read now outcome l r =
     (case outcome of
        ReadTimeout \<Rightarrow> (l\<lparr>loop_pc := LoopTop\<rparr>, r)
      | ReadError e \<Rightarrow> (l\<lparr>loop_pc := LoopWait\<rparr>, ra_sendError (ReadNDPFailed e) r)
      | ReadMessage MsgOther cm from \<Rightarrow> (l\<lparr>loop_pc := LoopTop\<rparr>, r)
      | ReadMessage (MsgRouterAdvertisement options) cm from \<Rightarrow>
          let reason = rejectRouterAdvertisement r from cm (loop_verifyHopLimit l) in
          if reason \<noteq> [] then (l\<lparr>loop_pc := LoopTop\<rparr>, snd (recordRejection reason r))
          else (l\<lparr>loop_pc := LoopTop\<rparr>, handleRouterAdvertisement now options r))"

text \<open>\<^verbatim>\<open>waitAfterError\<close>: false when the receiver was stopped while waiting.\<close>

definition waitAfterError :: "bool \<Rightarrow> ra_loop \<Rightarrow> ra_loop option" where
  "waitAfterError stoppedWaiting l = (if stoppedWaiting then None else Some (l\<lparr>loop_pc := LoopTop\<rparr>))"

subsection \<open>The receiver and its goroutines\<close>

record ra_sys =
  sys_ra :: RAReceiver
  sys_loops :: "ra_loop list"
  sys_watchers :: "nat list"

text \<open>\<^verbatim>\<open>Start\<close> with the goroutines a successful first call launches.\<close>

definition ra_start_sys :: "ra_start_env \<Rightarrow> ra_sys \<Rightarrow> ra_sys" where
  "ra_start_sys env s =
     (case RA_Start env (sys_ra s) of (err, r') \<Rightarrow>
        if err = None \<and> \<not> ra_started (sys_ra s) then
          \<lparr>sys_ra = r',
           sys_loops = \<lparr>loop_gen = ra_stopCh r', loop_verifyHopLimit = ra_verifyHopLimit r',
                        loop_pc = LoopTop\<rparr> # sys_loops s,
           sys_watchers = ra_stopCh r' # sys_watchers s\<rparr>
        else s\<lparr>sys_ra := r'\<rparr>)"

definition replace_loop :: "ra_loop \<Rightarrow> ra_loop option \<Rightarrow> ra_loop list \<Rightarrow> ra_loop list" where
  "replace_loop l l' ls = (case l' of None \<Rightarrow> remove1 l ls | Some m \<Rightarrow> m # remove1 l ls)"

text \<open>\<open>parentDone\<close>: the context the receiver was started under is cancelled.\<close>

definition gen_stopped :: "bool \<Rightarrow> nat \<Rightarrow> RAReceiver \<Rightarrow> bool" where
  "gen_stopped parentDone g r \<longleftrightarrow> g \<in> set (ra_closed r) \<or> parentDone"

inductive ra_step :: "ra_sys \<Rightarrow> ra_sys \<Rightarrow> bool" where
  step_start: "ra_step s (ra_start_sys env s)"
| step_stop: "RA_Stop closeErr (sys_ra s) = Some (err, r') \<Longrightarrow> ra_step s (s\<lparr>sys_ra := r'\<rparr>)"
| step_top:
    "l \<in> set (sys_loops s) \<Longrightarrow> loop_pc l = LoopTop \<Longrightarrow>
     receiveLoop_top (gen_stopped parentDone (loop_gen l) (sys_ra s)) deadlineErr l (sys_ra s) = (l', r') \<Longrightarrow>
     ra_step s (s\<lparr>sys_ra := r', sys_loops := replace_loop l l' (sys_loops s)\<rparr>)"
| step_read:
    "l \<in> set (sys_loops s) \<Longrightarrow> loop_pc l = LoopRead \<Longrightarrow>
     receiveLoop_read now outcome l (sys_ra s) = (l', r') \<Longrightarrow>
     ra_step s (s\<lparr>sys_ra := r', sys_loops := replace_loop l (Some l') (sys_loops s)\<rparr>)"
| step_wait:
    "l \<in> set (sys_loops s) \<Longrightarrow> loop_pc l = LoopWait \<Longrightarrow>
     (stoppedWaiting \<longrightarrow> gen_stopped parentDone (loop_gen l) (sys_ra s)) \<Longrightarrow>
     ra_step s (s\<lparr>sys_loops := replace_loop l (waitAfterError stoppedWaiting l) (sys_loops s)\<rparr>)"
| step_watch_tick:
    "g \<in> set (sys_watchers s) \<Longrightarrow> ra_step s (s\<lparr>sys_ra := expireLeaseIfStale now (sys_ra s)\<rparr>)"
| step_watch_exit:
    "g \<in> set (sys_watchers s) \<Longrightarrow> gen_stopped parentDone g (sys_ra s) \<Longrightarrow>
     ra_step s (s\<lparr>sys_watchers := remove1 g (sys_watchers s)\<rparr>)"
| step_take:
    "ra_events (sys_ra s) = ev # evs \<Longrightarrow> ra_step s (s\<lparr>sys_ra := (sys_ra s)\<lparr>ra_events := evs\<rparr>\<rparr>)"

inductive_cases ra_stepE: "ra_step s s'"

definition ra_initial :: "string \<Rightarrow> RAPolicy \<Rightarrow> bool \<Rightarrow> bool \<Rightarrow> ra_sys" where
  "ra_initial iface policy o1 o2 =
     \<lparr>sys_ra = NewRAReceiverWithPolicy iface policy o1 o2, sys_loops = [], sys_watchers = []\<rparr>"

subsection \<open>Selection\<close>

text \<open>
  What the loop over the options computes: among the prefixes that are on-link, alive and within
  the length bounds, the first global unicast one, or else the first unique-local one unless
  global unicast is required.
\<close>

fun prefix_options :: "ndp_option list \<Rightarrow> PrefixInformation list" where
  "prefix_options [] = []"
| "prefix_options (OptPrefixInformation p # os) = p # prefix_options os"
| "prefix_options (OptOther # os) = prefix_options os"

definition alive :: "PrefixInformation \<Rightarrow> bool" where
  "alive p \<longleftrightarrow> OnLink p \<and> pi_ValidLifetime p \<noteq> 0"

definition length_ok :: "RAPolicy \<Rightarrow> PrefixInformation \<Rightarrow> bool" where
  "length_ok pol p \<longleftrightarrow> checkLength (ra_Policy pol) (int (unat (PrefixLength p))) = None"

definition usable :: "RAPolicy \<Rightarrow> ndp_option list \<Rightarrow> PrefixInformation list" where
  "usable pol os = filter (\<lambda>p. alive p \<and> length_ok pol p) (prefix_options os)"

definition first_gua :: "PrefixInformation list \<Rightarrow> PrefixInformation option" where
  "first_gua ps = List.find (\<lambda>p. isGlobalUnicast (pi_Prefix p)) ps"

definition select_prefix :: "RAPolicy \<Rightarrow> ndp_option list \<Rightarrow> PrefixInformation option" where
  "select_prefix pol os =
     (case first_gua (usable pol os) of
        Some p \<Rightarrow> Some p
      | None \<Rightarrow> if RequireGlobalUnicast (ra_Policy pol) then None
                else List.find (\<lambda>p. isULA (pi_Prefix p)) (usable pol os))"

definition out_of_bounds :: "RAPolicy \<Rightarrow> ndp_option list \<Rightarrow> nat" where
  "out_of_bounds pol os = length (filter (\<lambda>p. alive p \<and> \<not> length_ok pol p) (prefix_options os))"

definition reject_times :: "nat \<Rightarrow> RAReceiver \<Rightarrow> RAReceiver" where
  "reject_times n r = ((\<lambda>r. snd (recordRejection rejectReasonPrefixLength r)) ^^ n) r"

lemma recordRejection_keeps [simp]:
  "ra_policy (snd (recordRejection x r)) = ra_policy r"
  "ra_currentPrefix (snd (recordRejection x r)) = ra_currentPrefix r"
  "ra_events (snd (recordRejection x r)) = ra_events r"
  "ra_health (snd (recordRejection x r)) = ra_health r"
  "ra_stopCh (snd (recordRejection x r)) = ra_stopCh r"
  "ra_closed (snd (recordRejection x r)) = ra_closed r"
  "ra_nextCh (snd (recordRejection x r)) = ra_nextCh r"
  "ra_started (snd (recordRejection x r)) = ra_started r"
  "ra_conn (snd (recordRejection x r)) = ra_conn r"
  "ra_verifyHopLimit (snd (recordRejection x r)) = ra_verifyHopLimit r"
  by (simp_all add: recordRejection_def Let_def)

lemma reject_times_0 [simp]: "reject_times 0 r = r"
  by (simp add: reject_times_def)

lemma reject_times_Suc: "reject_times (Suc n) r = reject_times n (snd (recordRejection rejectReasonPrefixLength r))"
  unfolding reject_times_def by (subst funpow_Suc_right) simp

lemma reject_times_keeps [simp]:
  "ra_policy (reject_times n r) = ra_policy r"
  "ra_currentPrefix (reject_times n r) = ra_currentPrefix r"
  "ra_events (reject_times n r) = ra_events r"
  "ra_health (reject_times n r) = ra_health r"
  "ra_stopCh (reject_times n r) = ra_stopCh r"
  "ra_closed (reject_times n r) = ra_closed r"
  "ra_nextCh (reject_times n r) = ra_nextCh r"
  "ra_started (reject_times n r) = ra_started r"
  "ra_conn (reject_times n r) = ra_conn r"
  "ra_verifyHopLimit (reject_times n r) = ra_verifyHopLimit r"
  by (induction n arbitrary: r) (simp_all add: reject_times_Suc)

definition better ::
    "RAPolicy \<Rightarrow> ndp_option list \<Rightarrow> PrefixInformation option \<Rightarrow> PrefixInformation option" where
  "better pol os best =
     (case best of
        None \<Rightarrow> select_prefix pol os
      | Some b \<Rightarrow> if isGlobalUnicast (pi_Prefix b) then Some b
                  else (case first_gua (usable pol os) of Some p \<Rightarrow> Some p | None \<Rightarrow> Some b))"

lemma gua_not_ula: "isGlobalUnicast a \<Longrightarrow> \<not> isULA a"
proof
  assume "isGlobalUnicast a" "isULA a"
  then have "(As16 a ! 0) AND 0xE0 = 0x20" "(As16 a ! 0) AND 0xFE = 0xFC"
    by (auto simp: isGlobalUnicast_def isULA_def)
  then have "bit ((As16 a ! 0) AND 0xE0) 7 = bit (0x20 :: byte) 7" "bit ((As16 a ! 0) AND 0xFE) 7 = bit (0xFC :: byte) 7"
    by simp_all
  then show False
    by (simp add: bit_and_iff numeral_eq_Suc)
qed

lemma usable_Cons:
  "usable pol (OptOther # os) = usable pol os"
  "usable pol (OptPrefixInformation p # os) =
     (if alive p \<and> length_ok pol p then p # usable pol os else usable pol os)"
  by (simp_all add: usable_def)

lemma out_of_bounds_Cons:
  "out_of_bounds pol (OptOther # os) = out_of_bounds pol os"
  "out_of_bounds pol (OptPrefixInformation p # os) =
     (if alive p \<and> \<not> length_ok pol p then Suc (out_of_bounds pol os) else out_of_bounds pol os)"
  by (simp_all add: out_of_bounds_def)

lemma better_cong: "usable pol os = usable pol os' \<Longrightarrow> better pol os best = better pol os' best"
  by (cases best; cases "first_gua (usable pol os')") (simp_all add: better_def select_prefix_def)

lemma better_usable:
  assumes "alive p" "length_ok pol p"
  shows "better pol (OptPrefixInformation p # os) best =
     better pol os (better pol [OptPrefixInformation p] best)"
  using assms gua_not_ula [of "pi_Prefix p"]
  by (cases "isGlobalUnicast (pi_Prefix p)"; cases "isULA (pi_Prefix p)"; cases best)
    (simp_all add: better_def select_prefix_def usable_Cons first_gua_def usable_def [of pol "[]"]
       split: option.splits)

lemma consider_usable:
  assumes "alive p" "length_ok (ra_policy r) p"
  shows "consider_option (OptPrefixInformation p) (r, best) =
     (r, better (ra_policy r) [OptPrefixInformation p] best)"
  using assms
  by (cases best) (simp_all add: consider_option_def alive_def length_ok_def better_def
      select_prefix_def usable_def first_gua_def)

lemma consider_unusable:
  "consider_option OptOther (r, best) = (r, best)"
  "\<not> alive p \<Longrightarrow> consider_option (OptPrefixInformation p) (r, best) = (r, best)"
  "alive p \<Longrightarrow> \<not> length_ok (ra_policy r) p \<Longrightarrow> consider_option (OptPrefixInformation p) (r, best) =
     (snd (recordRejection rejectReasonPrefixLength r), best)"
  by (auto simp: consider_option_def alive_def length_ok_def)

lemma options_loop:
  "fold consider_option os (r, best) =
     (reject_times (out_of_bounds (ra_policy r) os) r, better (ra_policy r) os best)"
proof (induction os arbitrary: r best)
  case Nil
  show ?case
    by (simp add: out_of_bounds_def better_def select_prefix_def usable_def first_gua_def split: option.splits)
next
  case (Cons opt os)
  show ?case
  proof (cases opt)
    case OptOther
    then show ?thesis
      using Cons better_cong [OF usable_Cons(1)] by (simp add: consider_unusable out_of_bounds_Cons)
  next
    case (OptPrefixInformation p)
    consider "\<not> alive p" | "alive p" "\<not> length_ok (ra_policy r) p" | "alive p" "length_ok (ra_policy r) p"
      by blast
    then show ?thesis
    proof cases
      case 1
      then have "better (ra_policy r) (opt # os) best = better (ra_policy r) os best"
        by (intro better_cong) (simp add: OptPrefixInformation usable_Cons)
      with 1 show ?thesis
        using Cons OptPrefixInformation by (simp add: consider_unusable out_of_bounds_Cons)
    next
      case 2
      then have "better (ra_policy r) (opt # os) best = better (ra_policy r) os best"
        by (intro better_cong) (simp add: OptPrefixInformation usable_Cons)
      with 2 show ?thesis
        using Cons OptPrefixInformation by (simp add: consider_unusable out_of_bounds_Cons reject_times_Suc)
    next
      case 3
      then show ?thesis
        using Cons better_usable [OF 3, of os best]
        by (simp add: OptPrefixInformation consider_usable out_of_bounds_Cons)
    qed
  qed
qed

lemma handleRouterAdvertisement_eq:
  "handleRouterAdvertisement now os r =
     (let r' = reject_times (out_of_bounds (ra_policy r) os) r in
      case select_prefix (ra_policy r) os of
        None \<Rightarrow> r'
      | Some p \<Rightarrow>
          if 128 < int (unat (PrefixLength p)) then r'
          else updatePrefix now (Masked (PrefixFrom (pi_Prefix p) (int (unat (PrefixLength p)))))
                 (pi_ValidLifetime p) (pi_PreferredLifetime p) r')"
  by (auto simp: handleRouterAdvertisement_def options_loop better_def BitLen_def Let_def
      split: option.splits)

text \<open>
  C27: What a Router Advertisement does to the receiver: the options outside the length bounds are
  counted as rejections, and the lease moves to the first usable global unicast prefix, else to
  the first usable unique-local one when those are admitted, masked to its length; with no usable
  prefix, or one of impossible length, nothing else changes.
\<close>

theorem router_advertisement_selects_prefix:
  "handleRouterAdvertisement now os r =
     (let r' = reject_times (out_of_bounds (ra_policy r) os) r in
      case select_prefix (ra_policy r) os of
        None \<Rightarrow> r'
      | Some p \<Rightarrow>
          if 128 < int (unat (PrefixLength p)) then r'
          else updatePrefix now (Masked (PrefixFrom (pi_Prefix p) (int (unat (PrefixLength p)))))
                 (pi_ValidLifetime p) (pi_PreferredLifetime p) r')"
  by (rule handleRouterAdvertisement_eq)

subsection \<open>Well-formed receivers\<close>

text \<open>
  What a tracked lease satisfies: a masked, valid network of admissible length that holds an
  address of the class the policy asks for.
\<close>

definition ra_lease_ok :: "RAPolicy \<Rightarrow> Prefix \<Rightarrow> bool" where
  "ra_lease_ok pol p \<longleftrightarrow>
     wf_prefix (Network p) \<and> IsValid (Network p) \<and> Masked (Network p) = Network p \<and>
     prefix_Source p = SourceRouterAdvertisement \<and> ValidLifetime p \<noteq> 0 \<and>
     checkLength (ra_Policy pol) (Bits (Network p)) = None \<and>
     (\<exists>a. Contains (Network p) a \<and>
        (isGlobalUnicast a \<or> isULA a \<and> \<not> RequireGlobalUnicast (ra_Policy pol)))"

definition ra_leases_ok :: "RAPolicy \<Rightarrow> RAReceiver \<Rightarrow> bool" where
  "ra_leases_ok pol r \<longleftrightarrow>
     ra_policy r = pol \<and> length (ra_events r) \<le> eventCap \<and>
     (\<forall>p. ra_currentPrefix r = Some p \<longrightarrow> ra_lease_ok pol p) \<and>
     (\<forall>ev \<in> set (ra_events r). \<forall>p. event_Prefix ev = Some p \<longrightarrow> ra_lease_ok pol p)"

definition ra_channels_ok :: "RAReceiver \<Rightarrow> bool" where
  "ra_channels_ok r \<longleftrightarrow>
     ra_stopCh r < ra_nextCh r \<and> (\<forall>c \<in> set (ra_closed r). 0 < c \<and> c < ra_nextCh r) \<and>
     (if ra_started r then 0 < ra_stopCh r \<and> ra_stopCh r \<notin> set (ra_closed r)
      else ra_stopCh r = 0 \<or> ra_stopCh r \<in> set (ra_closed r))"

definition gens_ok :: "nat list \<Rightarrow> RAReceiver \<Rightarrow> bool" where
  "gens_ok gs r \<longleftrightarrow> distinct gs \<and>
     (\<forall>g \<in> set gs. 0 < g \<and> g < ra_nextCh r \<and>
        (g \<notin> set (ra_closed r) \<longrightarrow> ra_started r \<and> g = ra_stopCh r))"

definition ra_sys_ok :: "RAPolicy \<Rightarrow> ra_sys \<Rightarrow> bool" where
  "ra_sys_ok pol s \<longleftrightarrow>
     ra_leases_ok pol (sys_ra s) \<and> ra_channels_ok (sys_ra s) \<and>
     gens_ok (map loop_gen (sys_loops s)) (sys_ra s) \<and> gens_ok (sys_watchers s) (sys_ra s) \<and>
     (\<forall>l \<in> set (sys_loops s). loop_gen l \<notin> set (ra_closed (sys_ra s)) \<longrightarrow>
        loop_verifyHopLimit l = ra_verifyHopLimit (sys_ra s))"

text \<open>Operations of the goroutines leave the run of the receiver alone.\<close>

definition same_run :: "RAReceiver \<Rightarrow> RAReceiver \<Rightarrow> bool" where
  "same_run r r' \<longleftrightarrow>
     ra_stopCh r' = ra_stopCh r \<and> ra_closed r' = ra_closed r \<and> ra_nextCh r' = ra_nextCh r \<and>
     ra_started r' = ra_started r \<and> ra_verifyHopLimit r' = ra_verifyHopLimit r"

lemma same_run_ok:
  assumes "same_run r r'"
  shows "ra_channels_ok r' = ra_channels_ok r" "gens_ok gs r' = gens_ok gs r"
  using assms by (auto simp: same_run_def ra_channels_ok_def gens_ok_def)

lemma same_run_sendError [simp]: "same_run r (ra_sendError e r)"
  by (simp add: same_run_def ra_sendError_def)

lemma same_run_updatePrefix: "same_run r (updatePrefix now p v w r') = same_run r r'"
  by (simp add: same_run_def updatePrefix_def Let_def)

lemma same_run_refl [simp]: "same_run r r"
  by (simp add: same_run_def)

lemma same_run_handle [simp]: "same_run r (handleRouterAdvertisement now os r)"
proof -
  have "same_run r (reject_times n r)" for n
    by (simp add: same_run_def)
  then show ?thesis
    by (auto simp: handleRouterAdvertisement_def options_loop same_run_updatePrefix split: option.splits)
qed

lemma same_run_expire [simp]: "same_run r (expireLeaseIfStale now r)"
  by (auto simp: same_run_def expireLeaseIfStale_def split: option.splits)

lemma same_run_reject [simp]: "same_run r (snd (recordRejection x r))"
  by (simp add: same_run_def)

lemma same_run_read: "receiveLoop_read now outcome l r = (l', r') \<Longrightarrow> same_run r r'"
  by (auto simp: receiveLoop_read_def Let_def split: read_outcome.splits ndp_message.splits if_splits)

lemma same_run_top: "receiveLoop_top b e l r = (l', r') \<Longrightarrow> same_run r r'"
  by (auto simp: receiveLoop_top_def split: if_splits option.splits)

subsection \<open>Leases stay admissible\<close>

lemma find_SomeD: "List.find P xs = Some x \<Longrightarrow> x \<in> set xs \<and> P x"
  by (auto simp: find_Some_iff)

lemma select_prefixD:
  assumes "select_prefix pol os = Some p"
  shows "p \<in> set (usable pol os)"
    "isGlobalUnicast (pi_Prefix p) \<or> isULA (pi_Prefix p) \<and> \<not> RequireGlobalUnicast (ra_Policy pol)"
  using assms
  by (auto simp: select_prefix_def first_gua_def dest: find_SomeD split: option.splits if_splits)

lemma selected_lease_ok:
  assumes "select_prefix pol os = Some p" "unat (PrefixLength p) \<le> 128"
  shows "ra_lease_ok pol
     \<lparr>Network = Masked (PrefixFrom (pi_Prefix p) (int (unat (PrefixLength p)))),
      ValidLifetime = pi_ValidLifetime p, PreferredLifetime = pl,
      prefix_Source = SourceRouterAdvertisement, ReceivedAt = now\<rparr>"
proof -
  let ?n = "unat (PrefixLength p)"
  note sel = select_prefixD [OF assms(1)]
  have "Is6 (pi_Prefix p)"
    using sel(2) by (auto simp: isGlobalUnicast_def isULA_def)
  then obtain w z where w: "pi_Prefix p = Addr6 w z"
    by (auto simp: Is6_def split: addr.splits)
  have "alive p" "length_ok pol p"
    using sel(1) by (auto simp: usable_def)
  moreover have "Masked (PrefixFrom (pi_Prefix p) (int ?n)) = PrefixFrom (Addr6 (w AND mask6 ?n) []) (int ?n)"
    using assms(2) by (simp only: w Masked_v6)
  moreover have "Contains (PrefixFrom (Addr6 (w AND mask6 ?n) []) (int ?n)) (Addr6 w [])"
    using assms(2) by (simp only: Contains_v6) (simp add: and.assoc)
  moreover have "isGlobalUnicast (Addr6 w []) = isGlobalUnicast (pi_Prefix p)"
    "isULA (Addr6 w []) = isULA (pi_Prefix p)"
    by (simp_all add: w isGlobalUnicast_def isULA_def As16_def addr128_def Is6_def)
  moreover have "Masked (PrefixFrom (Addr6 (w AND mask6 ?n) []) (int ?n)) = PrefixFrom (Addr6 (w AND mask6 ?n) []) (int ?n)"
    using assms(2) by (simp only: Masked_v6) (simp add: and.assoc)
  moreover have "Bits (PrefixFrom (Addr6 (w AND mask6 ?n) []) (int ?n)) = int ?n"
    using assms(2) by (simp only: Bits_PrefixFrom6)
  moreover have "IsValid (PrefixFrom (Addr6 (w AND mask6 ?n) []) (int ?n))"
    using assms(2) by (simp only: IsValid_PrefixFrom6) (simp del: of_nat_unat)
  ultimately show ?thesis
    using sel(2) unfolding ra_lease_ok_def length_ok_def alive_def
    by (simp del: of_nat_unat) blast
qed

lemma leases_ok_sendError [simp]: "ra_leases_ok pol r \<Longrightarrow> ra_leases_ok pol (ra_sendError e r)"
  by (auto simp: ra_leases_ok_def ra_sendError_def dest!: subsetD [OF set_trySend])

lemma leases_ok_reject [simp]: "ra_leases_ok pol r \<Longrightarrow> ra_leases_ok pol (snd (recordRejection x r))"
  by (simp add: ra_leases_ok_def)

lemma leases_ok_expire [simp]: "ra_leases_ok pol r \<Longrightarrow> ra_leases_ok pol (expireLeaseIfStale now r)"
  by (auto simp: ra_leases_ok_def expireLeaseIfStale_def dest!: subsetD [OF set_trySend] split: option.splits)

lemma leases_ok_update:
  assumes "ra_leases_ok pol r"
    and "ra_lease_ok pol \<lparr>Network = n, ValidLifetime = v, PreferredLifetime = w,
           prefix_Source = SourceRouterAdvertisement, ReceivedAt = now\<rparr>"
  shows "ra_leases_ok pol (updatePrefix now n v w r)"
  using assms by (auto simp: ra_leases_ok_def updatePrefix_def Let_def dest!: subsetD [OF set_trySend])

lemma leases_ok_handle [simp]:
  assumes "ra_leases_ok pol r"
  shows "ra_leases_ok pol (handleRouterAdvertisement now os r)"
proof -
  have pol: "ra_policy r = pol"
    using assms by (simp add: ra_leases_ok_def)
  have rej: "ra_leases_ok pol (reject_times n r)" for n
    using assms by (simp add: ra_leases_ok_def)
  show ?thesis
    using selected_lease_ok [of pol os] rej pol
    by (auto simp: handleRouterAdvertisement_def options_loop better_def BitLen_def
        simp del: of_nat_unat split: option.splits intro!: leases_ok_update)
qed

lemma leases_ok_read:
  "receiveLoop_read now outcome l r = (l', r') \<Longrightarrow> ra_leases_ok pol r \<Longrightarrow> ra_leases_ok pol r'"
  by (auto simp: receiveLoop_read_def Let_def split: read_outcome.splits ndp_message.splits if_splits)

lemma leases_ok_top:
  "receiveLoop_top b e l r = (l', r') \<Longrightarrow> ra_leases_ok pol r \<Longrightarrow> ra_leases_ok pol r'"
  by (auto simp: receiveLoop_top_def split: if_splits option.splits)

subsection \<open>The invariant of the running receiver\<close>

lemma ra_sys_ok_same_run:
  assumes "ra_sys_ok pol s" "same_run (sys_ra s) r'" "ra_leases_ok pol r'"
  shows "ra_sys_ok pol (s\<lparr>sys_ra := r'\<rparr>)"
  using assms same_run_ok [OF assms(2)] by (auto simp: ra_sys_ok_def same_run_def)

lemma gens_ok_remove1: "gens_ok gs r \<Longrightarrow> gens_ok (remove1 g gs) r"
  by (auto simp: gens_ok_def)

lemma map_loop_gen_remove1:
  "l \<in> set ls \<Longrightarrow> distinct (map loop_gen ls) \<Longrightarrow> map loop_gen (remove1 l ls) = remove1 (loop_gen l) (map loop_gen ls)"
  by (induction ls) (auto simp: image_iff)

lemma gens_ok_move:
  assumes "gens_ok gs r" "g \<in> set gs"
  shows "gens_ok (g # remove1 g gs) r"
  using assms by (auto simp: gens_ok_def)

lemma ra_sys_ok_replace_loop:
  assumes ok: "ra_sys_ok pol s" and l: "l \<in> set (sys_loops s)"
    and l': "l' = None \<or> (\<exists>pc. l' = Some (l\<lparr>loop_pc := pc\<rparr>))"
  shows "ra_sys_ok pol (s\<lparr>sys_loops := replace_loop l l' (sys_loops s)\<rparr>)"
proof -
  have d: "distinct (map loop_gen (sys_loops s))"
    using ok by (simp add: ra_sys_ok_def gens_ok_def)
  then have "distinct (sys_loops s)"
    by (simp add: distinct_map)
  note [simp] = map_loop_gen_remove1 [OF l d] set_remove1_eq [OF this]
  have "loop_gen l \<in> set (map loop_gen (sys_loops s))"
    using l by auto
  then show ?thesis
    using ok l l' by (auto simp: ra_sys_ok_def replace_loop_def gens_ok_remove1 gens_ok_move)
qed

lemma ra_start_sys_ok:
  assumes "ra_sys_ok pol s"
  shows "ra_sys_ok pol (ra_start_sys env s)"
proof (cases "ra_started (sys_ra s) \<or> fst (RA_Start env (sys_ra s)) \<noteq> None")
  case True
  then have "snd (RA_Start env (sys_ra s)) = sys_ra s"
    by (auto simp: RA_Start_def Let_def split: sum.splits option.splits)
  then show ?thesis
    using assms True by (auto simp: ra_start_sys_def split: prod.splits)
next
  case False
  let ?r = "sys_ra s"
  have closed: "g \<in> set (ra_closed ?r)" if "g \<in> set (sys_watchers s) \<or> g \<in> loop_gen ` set (sys_loops s)" for g
    using assms False that by (auto simp: ra_sys_ok_def gens_ok_def)
  have below: "g < ra_nextCh ?r" if "g \<in> set (ra_closed ?r)" for g
    using assms that by (auto simp: ra_sys_ok_def ra_channels_ok_def)
  have fresh: "ra_nextCh ?r \<notin> set (ra_closed ?r)"
    using below by blast
  have pos: "0 < ra_nextCh ?r"
    using assms by (auto simp: ra_sys_ok_def ra_channels_ok_def)
  have "ra_channels_ok (snd (RA_Start env ?r))" "ra_leases_ok pol (snd (RA_Start env ?r))"
    using assms False fresh pos
    by (auto simp: RA_Start_def Let_def ra_sys_ok_def ra_channels_ok_def ra_leases_ok_def
        split: sum.splits option.splits)
  moreover have "gens_ok (ra_stopCh (snd (RA_Start env ?r)) # gs) (snd (RA_Start env ?r))"
    if "gens_ok gs ?r" for gs
    using that False fresh pos closed
    by (fastforce simp: RA_Start_def Let_def gens_ok_def split: sum.splits option.splits)
  ultimately show ?thesis
    using assms False closed
    by (auto simp: ra_start_sys_def ra_sys_ok_def RA_Start_def Let_def
        split: sum.splits option.splits)
qed

lemma RA_Stop_ok:
  assumes "ra_sys_ok pol s" "RA_Stop ce (sys_ra s) = Some (err, r')"
  shows "ra_sys_ok pol (s\<lparr>sys_ra := r'\<rparr>)"
proof (cases "ra_started (sys_ra s)")
  case True
  then have r': "r' = (sys_ra s)\<lparr>ra_started := False, ra_closed := ra_stopCh (sys_ra s) # ra_closed (sys_ra s)\<rparr>"
    using assms(2) by (simp add: RA_Stop_def split: if_splits)
  have "gens_ok gs r'" if "gens_ok gs (sys_ra s)" for gs
    using that True r' by (auto simp: gens_ok_def)
  moreover have "ra_channels_ok r'" "ra_leases_ok pol r'"
    using assms(1) True r' by (auto simp: ra_sys_ok_def ra_channels_ok_def ra_leases_ok_def)
  ultimately show ?thesis
    using assms(1) r' by (simp add: ra_sys_ok_def)
next
  case False
  then have "r' = sys_ra s"
    using assms(2) by (simp add: RA_Stop_def)
  then show ?thesis
    using assms(1) by (auto intro: ra_sys_ok_same_run simp: ra_sys_ok_def [of pol s])
qed

lemma ra_step_ok:
  assumes "ra_sys_ok pol s" "ra_step s s'"
  shows "ra_sys_ok pol s'"
  using assms(2)
proof cases
  case (step_start env)
  then show ?thesis
    using assms(1) by (simp add: ra_start_sys_ok)
next
  case (step_stop ce err r')
  then show ?thesis
    using assms(1) RA_Stop_ok by blast
next
  case (step_top l pd de l' r')
  then have "ra_sys_ok pol (s\<lparr>sys_ra := r'\<rparr>)"
    using assms(1) same_run_top leases_ok_top by (blast intro: ra_sys_ok_same_run dest: ra_sys_ok_def [THEN iffD1])
  moreover have "l' = None \<or> (\<exists>pc. l' = Some (l\<lparr>loop_pc := pc\<rparr>))"
    using step_top(4) by (auto simp: receiveLoop_top_def split: if_splits option.splits)
  ultimately show ?thesis
    using ra_sys_ok_replace_loop [of pol "s\<lparr>sys_ra := r'\<rparr>" l l'] step_top by simp
next
  case (step_read l now outcome l' r')
  then have "ra_sys_ok pol (s\<lparr>sys_ra := r'\<rparr>)"
    using assms(1) same_run_read leases_ok_read by (blast intro: ra_sys_ok_same_run dest: ra_sys_ok_def [THEN iffD1])
  moreover have "\<exists>pc. l' = l\<lparr>loop_pc := pc\<rparr>"
    using step_read(4) by (auto simp: receiveLoop_read_def Let_def split: read_outcome.splits ndp_message.splits if_splits)
  ultimately show ?thesis
    using ra_sys_ok_replace_loop [of pol "s\<lparr>sys_ra := r'\<rparr>" l "Some l'"] step_read by simp
next
  case (step_wait l w pd)
  moreover have "waitAfterError w l = None \<or> (\<exists>pc. waitAfterError w l = Some (l\<lparr>loop_pc := pc\<rparr>))"
    by (auto simp: waitAfterError_def)
  ultimately show ?thesis
    using assms(1) ra_sys_ok_replace_loop [of pol s l "waitAfterError w l"] by simp
next
  case (step_watch_tick g now)
  then show ?thesis
    using assms(1) by (auto intro!: ra_sys_ok_same_run simp: ra_sys_ok_def [of pol s])
next
  case (step_watch_exit g pd)
  then show ?thesis
    using assms(1) by (auto simp: ra_sys_ok_def gens_ok_remove1)
next
  case (step_take ev evs)
  have "ra_leases_ok pol (sys_ra s)"
    using assms(1) by (simp add: ra_sys_ok_def)
  then have "ra_leases_ok pol ((sys_ra s)\<lparr>ra_events := evs\<rparr>)"
    using step_take by (simp add: ra_leases_ok_def)
  then show ?thesis
    using step_take assms(1) ra_sys_ok_same_run [of pol s] by (simp add: same_run_def)
qed

lemma ra_initial_ok: "ra_sys_ok pol (ra_initial iface pol o1 o2)"
  by (simp add: ra_sys_ok_def ra_initial_def NewRAReceiverWithPolicy_def ra_leases_ok_def
      ra_channels_ok_def gens_ok_def)

interpretation ra: transition_invariant
  "\<lambda>s. \<exists>iface o1 o2. s = ra_initial iface pol o1 o2" ra_step "ra_sys_ok pol" for pol
  by unfold_locales (auto intro: ra_initial_ok ra_step_ok)

text \<open>
  C12: Whatever the interleaving of calls and goroutines, an RA receiver only ever holds and
  announces leases its policy admits, its event channel never exceeds its capacity, at most one
  generation of its receive loop is live, and no call of Stop closes a channel twice.
\<close>

theorem ra_receiver_invariant:
  assumes "ra_step\<^sup>*\<^sup>* (ra_initial iface pol o1 o2) s"
  shows "(\<forall>p. RA_CurrentPrefix (sys_ra s) = Some p \<longrightarrow> ra_lease_ok pol p) \<and>
     length (ra_events (sys_ra s)) \<le> 10 \<and>
     (\<forall>l \<in> set (sys_loops s). \<forall>m \<in> set (sys_loops s).
        loop_gen l \<notin> set (ra_closed (sys_ra s)) \<longrightarrow> loop_gen m \<notin> set (ra_closed (sys_ra s)) \<longrightarrow> l = m) \<and>
     RA_Stop closeErr (sys_ra s) \<noteq> None"
proof -
  have ok: "ra_sys_ok pol s"
    using assms by (intro ra.reachable_inv) blast+
  then have "inj_on loop_gen (set (sys_loops s))"
    by (simp add: ra_sys_ok_def gens_ok_def distinct_map)
  moreover have "loop_gen l = ra_stopCh (sys_ra s)"
    if "l \<in> set (sys_loops s)" "loop_gen l \<notin> set (ra_closed (sys_ra s))" for l
    using ok that by (auto simp: ra_sys_ok_def gens_ok_def)
  ultimately have one: "\<forall>l \<in> set (sys_loops s). \<forall>m \<in> set (sys_loops s).
        loop_gen l \<notin> set (ra_closed (sys_ra s)) \<longrightarrow> loop_gen m \<notin> set (ra_closed (sys_ra s)) \<longrightarrow> l = m"
    by (metis inj_on_def)
  have "RA_Stop closeErr (sys_ra s) \<noteq> None"
    using ok by (simp add: ra_sys_ok_def RA_Stop_def ra_channels_ok_def)
  moreover have "length (ra_events (sys_ra s)) \<le> 10" "\<forall>p. RA_CurrentPrefix (sys_ra s) = Some p \<longrightarrow> ra_lease_ok pol p"
    using ok by (simp_all add: ra_sys_ok_def ra_leases_ok_def RA_CurrentPrefix_def eventCap_def)
  ultimately show ?thesis
    using one by (intro conjI)
qed

lemma accepted_iff:
  "rejectRouterAdvertisement r from cm verify = [] \<longleftrightarrow>
     isLinkLocal from \<and> Trusts (ra_policy r) from \<and> (verify \<longrightarrow> cm = Some 255)"
  by (auto simp: rejectRouterAdvertisement_def rejectReasonNotLinkLocal_def rejectReasonUntrustedSource_def
      rejectReasonHopLimitUnknown_def rejectReasonForwarded_def ndp_HopLimit_def split: option.splits)

text \<open>A run that acquires a prefix: start, one pass over the head of the loop, one advertisement.\<close>

definition sample_option :: PrefixInformation where
  "sample_option =
     \<lparr>PrefixLength = 64, OnLink = True, AutonomousAddressConfiguration = True,
      pi_ValidLifetime = 7200 * second, pi_PreferredLifetime = 3600 * second,
      pi_Prefix = Addr6 0x20010DB8000100020000000000000001 []\<rparr>"

definition sample_source :: addr where
  "sample_source = Addr6 0xFE800000000000000000000000000001 ''eth0''"

definition sample_env :: ra_start_env where
  "sample_env = \<lparr>env_lookup = Ok [1, 2, 3, 4, 5, 6], env_listen = None, env_setControl = None\<rparr>"

definition sample_lease :: Prefix where
  "sample_lease =
     \<lparr>Network = PrefixFrom (Addr6 0x20010DB8000100020000000000000000 []) 64,
      ValidLifetime = 7200 * second, PreferredLifetime = 3600 * second,
      prefix_Source = SourceRouterAdvertisement, ReceivedAt = 5\<rparr>"

lemma sample_gua: "isGlobalUnicast (Addr6 0x20010DB8000100020000000000000001 [])"
  by (simp add: isGlobalUnicast_def As16_def addr128_def nth_bytes16 Is6_def)

lemma sample_accepted:
  assumes "ra_policy r = DefaultRAPolicy"
  shows "rejectRouterAdvertisement r sample_source (Some 255) True = []"
  by (simp add: accepted_iff assms sample_source_def isLinkLocal_def IsLinkLocalUnicast_def
      Unmap_def v6u16_def Is4In6_def Trusts_def DefaultRAPolicy_def)

lemma sample_selected: "select_prefix DefaultRAPolicy [OptOther, OptPrefixInformation sample_option] = Some sample_option"
  by (simp add: select_prefix_def usable_def alive_def length_ok_def sample_option_def second_def
      first_gua_def sample_gua DefaultRAPolicy_def DefaultPolicy_def checkLength_def)

lemma sample_handled:
  assumes "ra_policy r = DefaultRAPolicy"
  shows "ra_currentPrefix (handleRouterAdvertisement 5 [OptOther, OptPrefixInformation sample_option] r) = Some sample_lease"
  by (simp add: handleRouterAdvertisement_eq assms sample_selected updatePrefix_def Let_def)
    (simp add: sample_option_def sample_lease_def go_eval)

definition sample_loop :: ra_loop where
  "sample_loop = \<lparr>loop_gen = 1, loop_verifyHopLimit = True, loop_pc = LoopRead\<rparr>"

definition sample_reading :: "bool \<Rightarrow> ra_sys" where
  "sample_reading o1 =
     (ra_start_sys sample_env (ra_initial ''eth0'' DefaultRAPolicy o1 False))\<lparr>sys_loops := [sample_loop]\<rparr>"

lemma sample_reading_fields:
  "ra_policy (sys_ra (sample_reading o1)) = DefaultRAPolicy" "sys_loops (sample_reading o1) = [sample_loop]"
  "ra_iface (sys_ra (sample_reading o1)) = ''eth0''" "ra_onReject (sys_ra (sample_reading o1)) = o1"
  "ra_rejectCalls (sys_ra (sample_reading o1)) = []" "ra_currentPrefix (sys_ra (sample_reading o1)) = None"
  by (simp_all add: sample_reading_def ra_start_sys_def RA_Start_def sample_env_def ra_initial_def
      NewRAReceiverWithPolicy_def)

lemma sample_reading_reachable:
  "ra_step\<^sup>*\<^sup>* (ra_initial ''eth0'' DefaultRAPolicy o1 False) (sample_reading o1)"
proof -
  let ?s0 = "ra_initial ''eth0'' DefaultRAPolicy o1 False"
  let ?s1 = "ra_start_sys sample_env ?s0"
  let ?l = "sample_loop\<lparr>loop_pc := LoopTop\<rparr>"
  have s1: "sys_loops ?s1 = [?l]" "ra_closed (sys_ra ?s1) = []"
    by (simp_all add: ra_start_sys_def RA_Start_def sample_env_def ra_initial_def
        NewRAReceiverWithPolicy_def sample_loop_def)
  have "ra_step ?s1 (sample_reading o1)"
    using step_top [of ?l ?s1 False None "Some sample_loop" "sys_ra ?s1"] s1
    by (simp add: receiveLoop_top_def gen_stopped_def replace_loop_def sample_loop_def sample_reading_def)
  then show ?thesis
    using step_start [of ?s0 sample_env] by (meson converse_rtranclp_into_rtranclp rtranclp.rtrancl_refl)
qed

lemma sample_read_step:
  assumes "receiveLoop_read now outcome sample_loop (sys_ra (sample_reading o1)) = (l', r')"
  shows "ra_step (sample_reading o1) ((sample_reading o1)\<lparr>sys_ra := r', sys_loops := [l']\<rparr>)"
  using step_read [OF _ _ assms] by (simp add: sample_reading_fields replace_loop_def sample_loop_def)

lemma sample_run:
  "\<exists>s. ra_step\<^sup>*\<^sup>* (ra_initial ''eth0'' DefaultRAPolicy False False) s \<and>
       RA_CurrentPrefix (sys_ra s) = Some sample_lease"
proof -
  let ?os = "[OptOther, OptPrefixInformation sample_option]"
  let ?r = "sys_ra (sample_reading False)"
  have "receiveLoop_read 5 (ReadMessage (MsgRouterAdvertisement ?os) (Some 255) sample_source)
      sample_loop ?r = (sample_loop\<lparr>loop_pc := LoopTop\<rparr>, handleRouterAdvertisement 5 ?os ?r)"
    using sample_accepted [of ?r] by (simp add: receiveLoop_read_def sample_reading_fields sample_loop_def)
  note sample_read_step [OF this]
  with sample_reading_reachable [of False] show ?thesis
    using sample_handled [of ?r]
    by (intro exI [of _ "(sample_reading False)\<lparr>sys_ra := handleRouterAdvertisement 5 ?os ?r,
          sys_loops := [sample_loop\<lparr>loop_pc := LoopTop\<rparr>]\<rparr>"])
      (auto simp: RA_CurrentPrefix_def sample_reading_fields)
qed

theorem ra_receiver_invariant_witness: "ra_lease_ok DefaultRAPolicy sample_lease"
proof -
  obtain s where "ra_step\<^sup>*\<^sup>* (ra_initial ''eth0'' DefaultRAPolicy False False) s"
    and c: "RA_CurrentPrefix (sys_ra s) = Some sample_lease"
    using sample_run by blast
  from ra_receiver_invariant [OF this(1)] c show ?thesis
    by simp
qed

subsection \<open>Where a tracked prefix comes from\<close>

lemma updatePrefix_current: "ra_currentPrefix (updatePrefix now n v w r) =
   Some \<lparr>Network = n, ValidLifetime = v, PreferredLifetime = w, prefix_Source = SourceRouterAdvertisement, ReceivedAt = now\<rparr>"
  by (simp add: updatePrefix_def Let_def)

lemma handle_current:
  "ra_currentPrefix (handleRouterAdvertisement now os r) = ra_currentPrefix r \<or>
   (\<exists>p. select_prefix (ra_policy r) os = Some p \<and>
     ra_currentPrefix (handleRouterAdvertisement now os r) =
       Some \<lparr>Network = Masked (PrefixFrom (pi_Prefix p) (int (unat (PrefixLength p)))),
             ValidLifetime = pi_ValidLifetime p, PreferredLifetime = pi_PreferredLifetime p,
             prefix_Source = SourceRouterAdvertisement, ReceivedAt = now\<rparr>)"
  by (auto simp: handleRouterAdvertisement_def options_loop better_def updatePrefix_current
      simp del: of_nat_unat split: option.splits)

lemma expire_current:
  "ra_currentPrefix (expireLeaseIfStale now r) = ra_currentPrefix r \<or>
   ra_currentPrefix (expireLeaseIfStale now r) = None"
  by (auto simp: expireLeaseIfStale_def split: option.splits)

lemma read_current:
  assumes "receiveLoop_read now outcome l r = (l', r')" "ra_currentPrefix r' \<noteq> ra_currentPrefix r"
  obtains os cm src where "outcome = ReadMessage (MsgRouterAdvertisement os) cm src"
    "rejectRouterAdvertisement r src cm (loop_verifyHopLimit l) = []"
    "r' = handleRouterAdvertisement now os r"
  using assms
  by (auto simp: receiveLoop_read_def Let_def ra_sendError_def
      split: read_outcome.splits ndp_message.splits if_splits)



subsection \<open>Expiry, rejections and solicitations\<close>

text \<open>
  A check for expiry keeps a lease exactly while it is inside its valid lifetime (or has no
  positive one), and giving it up is visible twice: the health tracker holds the expiry as the
  last failure and an expired event is sent unless the channel is full.
\<close>

theorem lease_kept_iff_within_lifetime:
  "let r' = expireLeaseIfStale now r in
   (\<forall>p. RA_CurrentPrefix r' = Some p \<longleftrightarrow>
      RA_CurrentPrefix r = Some p \<and> (ValidLifetime p \<le> 0 \<or> now \<le> ReceivedAt p + ValidLifetime p)) \<and>
   (case RA_CurrentPrefix r of
      Some p \<Rightarrow> RA_CurrentPrefix r' = None \<longrightarrow>
        RA_LastError r' = Some (RALeaseExpired (Network p) (ValidLifetime p) (ReceivedAt p)) \<and>
        (length (ra_events r) < 10 \<longrightarrow>
           ra_events r' = ra_events r @
             [\<lparr>event_Type = EventTypeExpired, event_Prefix = None, event_Error = None\<rparr>])
    | None \<Rightarrow> r' = r)"
  by (auto simp: expireLeaseIfStale_def RA_CurrentPrefix_def RA_LastError_def LastError_def recordFailure_def
      trySend_def eventCap_def Let_def split: option.splits)

theorem lease_kept_iff_within_lifetime_witness:
  "let r = (NewRAReceiver ''eth0'')\<lparr>ra_currentPrefix := Some sample_lease\<rparr> in
   RA_CurrentPrefix (expireLeaseIfStale (7200 * second + 5) r) = Some sample_lease \<and>
   RA_CurrentPrefix (expireLeaseIfStale (7200 * second + 6) r) = None \<and>
   length (ra_events (expireLeaseIfStale (7200 * second + 6) r)) = 1"
proof -
  let ?r = "(NewRAReceiver ''eth0'')\<lparr>ra_currentPrefix := Some sample_lease\<rparr>"
  have c: "RA_CurrentPrefix ?r = Some sample_lease" "ra_events ?r = []"
    by (simp_all add: RA_CurrentPrefix_def NewRAReceiver_def NewRAReceiverWithPolicy_def)
  have l: "ValidLifetime sample_lease = 7200 * second" "ReceivedAt sample_lease = 5"
    by (simp_all add: sample_lease_def)
  have keep: "RA_CurrentPrefix (expireLeaseIfStale now ?r) = Some p \<longleftrightarrow>
      p = sample_lease \<and> now \<le> 5 + 7200 * second" for now p
    using lease_kept_iff_within_lifetime [of now ?r, unfolded Let_def, THEN conjunct1, rule_format, of p] c l
    by (auto simp: second_def)
  then have none: "RA_CurrentPrefix (expireLeaseIfStale (7200 * second + 6) ?r) = None"
    by (cases "RA_CurrentPrefix (expireLeaseIfStale (7200 * second + 6) ?r)") auto
  then have "ra_events (expireLeaseIfStale (7200 * second + 6) ?r) =
      [\<lparr>event_Type = EventTypeExpired, event_Prefix = None, event_Error = None\<rparr>]"
    using lease_kept_iff_within_lifetime [of "7200 * second + 6" ?r, unfolded Let_def, THEN conjunct2] c by simp
  then show ?thesis
    using keep none by (simp add: Let_def)
qed

lemma solicit_from_bounded:
  "length (solicit_from m hw env a) \<le> nat (m + 1 - a) \<and>
   (\<forall>i < length (solicit_from m hw env a). ra_currentPrefix (at_receiver (env (a + int i))) = None)"
proof (induction m hw env a rule: solicit_from.induct)
  case (1 m hw env a)
  let ?rest = "solicit_from m hw env (a + 1)"
  show ?case
  proof (cases "a > m \<or> ra_currentPrefix (at_receiver (env a)) \<noteq> None \<or> at_stopped (env a) \<or> a = m
      \<or> at_stoppedWaiting (env a)")
    case True
    then show ?thesis
      by (auto simp: solicit_from.simps [of m hw env a] Let_def)
  next
    case False
    then have eq: "length (solicit_from m hw env a) = Suc (length ?rest)"
      by (simp add: solicit_from.simps [of m hw env a] Let_def)
    have "ra_currentPrefix (at_receiver (env (a + int i))) = None" if "i < Suc (length ?rest)" for i
      using 1 False that by (cases i) (auto simp: add.assoc)
    then show ?thesis
      using 1 False eq by auto
  qed
qed

text \<open>
  At most the configured number of solicitations is sent (three by default), all of them
  while no prefix is held: the loop makes no attempt once a prefix is known.
\<close>

theorem solicitations_bounded:
  assumes "ra_maxRouterSolicitations r \<le> 3"
  shows "length (sendInitialRouterSolicitations r hw env) \<le> 3 \<and>
     (\<forall>i < length (sendInitialRouterSolicitations r hw env).
        ra_currentPrefix (at_receiver (env (1 + int i))) = None)"
  using assms solicit_from_bounded [of "ra_maxRouterSolicitations r" hw env 1]
    solicit_from_bounded [of defaultMaxRouterSolicitations hw env 1]
  by (auto simp: sendInitialRouterSolicitations_def Let_def defaultMaxRouterSolicitations_def)

theorem solicitations_bounded_witness:
  "let env = (\<lambda>_. \<lparr>at_receiver = NewRAReceiver ''eth0'', at_stopped = False, at_deadlineErr = None,
                  at_writeErr = None, at_stoppedWaiting = False\<rparr>)
   in length (sendInitialRouterSolicitations (NewRAReceiver ''eth0'') [1] env) \<le> 3"
  using solicitations_bounded [of "NewRAReceiver ''eth0''"]
  by (simp add: NewRAReceiver_def NewRAReceiverWithPolicy_def defaultMaxRouterSolicitations_def)

subsection \<open>Accounting of rejections\<close>

text \<open>The counter, the last reason and the calls to the observer describe the same rejections.\<close>

definition rejections_ok :: "RAReceiver \<Rightarrow> bool" where
  "rejections_ok r \<longleftrightarrow> ra_onReject r \<and>
     ra_rejected r = of_nat (length (ra_rejectCalls r)) \<and>
     ra_lastReason r = (if ra_rejectCalls r = [] then [] else snd (last (ra_rejectCalls r)))"

lemma rejections_ok_reject [simp]: "rejections_ok r \<Longrightarrow> rejections_ok (snd (recordRejection x r))"
  by (simp add: rejections_ok_def recordRejection_def Let_def)

lemma rejections_ok_reject_times [simp]: "rejections_ok r \<Longrightarrow> rejections_ok (reject_times n r)"
  by (induction n arbitrary: r) (simp_all add: reject_times_Suc)

lemma rejections_ok_others [simp]:
  "rejections_ok (ra_sendError e r) = rejections_ok r"
  "rejections_ok (updatePrefix now n v w r) = rejections_ok r"
  "rejections_ok (expireLeaseIfStale now r) = rejections_ok r"
  "rejections_ok (r\<lparr>ra_events := evs\<rparr>) = rejections_ok r"
  by (auto simp: rejections_ok_def ra_sendError_def updatePrefix_def expireLeaseIfStale_def Let_def
      split: option.splits)

lemma rejections_ok_handle [simp]:
  "rejections_ok r \<Longrightarrow> rejections_ok (handleRouterAdvertisement now os r)"
  by (auto simp: handleRouterAdvertisement_def options_loop split: option.splits)

lemma rejections_ok_start: "rejections_ok r \<Longrightarrow> rejections_ok (snd (RA_Start env r))"
  by (auto simp: RA_Start_def rejections_ok_def Let_def split: sum.splits option.splits)

lemma rejections_ok_stop: "rejections_ok r \<Longrightarrow> RA_Stop ce r = Some (e, r') \<Longrightarrow> rejections_ok r'"
  by (auto simp: RA_Stop_def rejections_ok_def split: if_splits)

lemma rejections_ok_step:
  assumes "rejections_ok (sys_ra s)" "ra_step s s'"
  shows "rejections_ok (sys_ra s')"
  using assms(2)
proof cases
  case (step_start env)
  then show ?thesis
    using rejections_ok_start [OF assms(1), of env] by (auto simp: ra_start_sys_def split: prod.splits)
next
  case (step_stop ce err r')
  then show ?thesis
    using rejections_ok_stop assms(1) by simp
next
  case (step_top l pd de l' r')
  then show ?thesis
    using assms(1) by (auto simp: receiveLoop_top_def split: if_splits option.splits)
next
  case (step_read l now outcome l' r')
  then show ?thesis
    using assms(1)
    by (auto simp: receiveLoop_read_def Let_def split: read_outcome.splits ndp_message.splits if_splits)
qed (use assms(1) in simp_all)

lemma rejections_ok_initial: "rejections_ok (sys_ra (ra_initial iface pol True o2))"
  by (simp add: ra_initial_def NewRAReceiverWithPolicy_def rejections_ok_def)

interpretation ra_rejections: transition_invariant
  "\<lambda>s. \<exists>iface pol o2. s = ra_initial iface pol True o2" ra_step "\<lambda>s. rejections_ok (sys_ra s)"
  using rejections_ok_initial rejections_ok_step by unfold_locales blast+

text \<open>
  The rejection report is coherent in every reachable state: with an observer installed, the
  reported total is the number of calls the observer has had (modulo its 64-bit width) and the
  reported reason is the one of the latest call, so no path moves one without the other.
\<close>

theorem rejection_report_matches_observer:
  assumes "ra_step\<^sup>*\<^sup>* (ra_initial iface pol True o2) s"
  shows "RARejections (sys_ra s) =
     (of_nat (length (ra_rejectCalls (sys_ra s))),
      if ra_rejectCalls (sys_ra s) = [] then [] else snd (last (ra_rejectCalls (sys_ra s))))"
proof -
  have "rejections_ok (sys_ra s)"
    using assms(1) by (intro ra_rejections.reachable_inv) blast+
  then show ?thesis
    by (simp add: rejections_ok_def RARejections_def)
qed

theorem rejection_report_matches_observer_witness:
  "let r = snd (recordRejection rejectReasonNotLinkLocal (sys_ra (sample_reading True))) in
   RARejections r = (1, ''source-not-link-local'') \<and>
   ra_rejectCalls r = [(''eth0'', ''source-not-link-local'')]"
proof -
  let ?r = "sys_ra (sample_reading True)"
  let ?r' = "snd (recordRejection rejectReasonNotLinkLocal ?r)"
  have "rejectRouterAdvertisement ?r (Addr6 1 []) (Some 255) True = rejectReasonNotLinkLocal"
    by (simp add: rejectRouterAdvertisement_def isLinkLocal_def IsLinkLocalUnicast_def Unmap_def v6u16_def Is4In6_def)
  then have "receiveLoop_read 5 (ReadMessage (MsgRouterAdvertisement []) (Some 255) (Addr6 1 []))
      sample_loop ?r = (sample_loop\<lparr>loop_pc := LoopTop\<rparr>, ?r')"
    by (simp add: receiveLoop_read_def sample_loop_def rejectReasonNotLinkLocal_def)
  note step = sample_read_step [OF this]
  have calls: "ra_rejectCalls ?r' = [(''eth0'', ''source-not-link-local'')]"
    by (simp add: recordRejection_def Let_def sample_reading_fields rejectReasonNotLinkLocal_def)
  show ?thesis
    using rejection_report_matches_observer [OF rtranclp.rtrancl_into_rtrancl [OF sample_reading_reachable step]]
    by (simp add: calls Let_def)
qed

subsection \<open>A prefix of impossible length\<close>

text \<open>
  Without configured bounds the length is not screened before selection: an advertisement
  that lists a global prefix of length 200 ahead of a usable /64 is ignored altogether, because
  the first one is selected and then dropped.
\<close>

theorem impossible_length_hides_usable_prefix:
  "handleRouterAdvertisement 5
     [OptPrefixInformation (sample_option\<lparr>PrefixLength := 200\<rparr>), OptPrefixInformation sample_option]
     (NewRAReceiver ''eth0'') = NewRAReceiver ''eth0'' \<and>
   RA_CurrentPrefix (handleRouterAdvertisement 5 [OptOther, OptPrefixInformation sample_option]
     (NewRAReceiver ''eth0'')) = Some sample_lease"
proof
  have pol: "ra_policy (NewRAReceiver ''eth0'') = DefaultRAPolicy"
    by (simp add: NewRAReceiver_def NewRAReceiverWithPolicy_def)
  have ok: "length_ok DefaultRAPolicy p" for p
    by (simp add: length_ok_def DefaultRAPolicy_def DefaultPolicy_def checkLength_def)
  have "alive sample_option" "alive (sample_option\<lparr>PrefixLength := 200\<rparr>)"
    by (simp_all add: alive_def sample_option_def second_def)
  moreover have "isGlobalUnicast (pi_Prefix sample_option)"
    using sample_gua by (simp add: sample_option_def)
  ultimately show "handleRouterAdvertisement 5
     [OptPrefixInformation (sample_option\<lparr>PrefixLength := 200\<rparr>), OptPrefixInformation sample_option]
     (NewRAReceiver ''eth0'') = NewRAReceiver ''eth0''"
    by (simp add: handleRouterAdvertisement_eq pol select_prefix_def usable_def ok first_gua_def
        out_of_bounds_def Let_def)
  show "RA_CurrentPrefix (handleRouterAdvertisement 5 [OptOther, OptPrefixInformation sample_option]
     (NewRAReceiver ''eth0'')) = Some sample_lease"
    using sample_handled [OF pol] by (simp add: RA_CurrentPrefix_def)
qed

subsection \<open>The receiver contract\<close>

definition ra_take :: "RAReceiver \<Rightarrow> (Event \<times> RAReceiver) option" where
  "ra_take r = (case ra_events r of [] \<Rightarrow> None | ev # evs \<Rightarrow> Some (ev, r\<lparr>ra_events := evs\<rparr>))"

definition ra_ops :: "(RAReceiver, ra_start_env \<times> string option) receiver_ops" where
  "ra_ops =
     \<lparr>op_Start = (\<lambda>e. RA_Start (fst e)), op_Stop = (\<lambda>e. RA_Stop (snd e)), op_take = ra_take,
      op_CurrentPrefix = RA_CurrentPrefix, op_Source = RA_Source, op_LastError = RA_LastError,
      op_RARejections = (\<lambda>r. Some (RARejections r))\<rparr>"

lemma RA_Start_channels: "ra_channels_ok r \<Longrightarrow> ra_channels_ok (snd (RA_Start e r))"
  by (fastforce simp: RA_Start_def ra_channels_ok_def Let_def split: sum.splits option.splits)

lemma RA_Stop_returns:
  assumes "ra_channels_ok r"
  shows "\<exists>err r'. RA_Stop ce r = Some (err, r') \<and> ra_channels_ok r' \<and> \<not> ra_started r' \<and>
           ra_currentPrefix r' = ra_currentPrefix r"
  using assms by (cases "ra_started r") (auto simp: RA_Stop_def ra_channels_ok_def)

interpretation ra_receiver: receiver_contract ra_ops ra_channels_ok ra_started
proof unfold_locales
  fix r e ev r'
  assume r: "ra_channels_ok r"
  show "op_Start ra_ops e r = (None, r)" if "ra_started r"
    using that by (simp add: ra_ops_def RA_Start_def)
  show "ra_channels_ok (snd (op_Start ra_ops e r))"
    using r by (simp add: ra_ops_def RA_Start_channels)
  show "ra_started (snd (op_Start ra_ops e r)) \<longleftrightarrow> fst (op_Start ra_ops e r) = None"
    by (auto simp: ra_ops_def RA_Start_def Let_def split: sum.splits option.splits)
  show "op_CurrentPrefix ra_ops (snd (op_Start ra_ops e r)) = op_CurrentPrefix ra_ops r"
    by (auto simp: ra_ops_def RA_CurrentPrefix_def RA_Start_def Let_def split: sum.splits option.splits)
  show "\<exists>err r'. op_Stop ra_ops e r = Some (err, r') \<and> ra_channels_ok r' \<and> \<not> ra_started r' \<and>
          op_CurrentPrefix ra_ops r' = op_CurrentPrefix ra_ops r"
    using RA_Stop_returns [OF r] by (simp add: ra_ops_def RA_CurrentPrefix_def)
  show "ra_channels_ok r' \<and> ra_started r' = ra_started r \<and> op_CurrentPrefix ra_ops r' = op_CurrentPrefix ra_ops r"
    if "op_take ra_ops r = Some (ev, r')"
    using that r by (auto simp: ra_ops_def ra_take_def RA_CurrentPrefix_def ra_channels_ok_def split: list.splits)
qed

end
