(* ===== verification/Shared_RA.thy ===== *)
theory Shared_RA
  imports RA_Receiver
begin

text \<open>
  The pool of shared Router Advertisement receivers of \<^verbatim>\<open>internal/prefix/shared_ra_receiver.go\<close>.  Entries
  and subscriptions are objects the code shares by pointer, so the model keeps them in two
  stores indexed by reference, and the pool's map from keys to entries holds references: an
  entry that was dropped from the map lives on while a subscription points to it.
\<close>

subsection \<open>State\<close>

record sharedRAReceiverEntry =
  en_iface :: string
  en_key :: string
  en_receiver :: RAReceiver
  en_subscribers :: "nat list"
  en_started :: bool

record sharedRAReceiverSubscription =
  su_entry :: nat
  su_iface :: string
  su_key :: string
  su_events :: "Event list"
  su_started :: bool

record sharedRAReceiverPool =
  pl_entries :: "string \<rightharpoonup> nat"
  pl_entry :: "nat \<rightharpoonup> sharedRAReceiverEntry"
  pl_sub :: "nat \<rightharpoonup> sharedRAReceiverSubscription"
  pl_next :: nat

definition newSharedRAReceiverPool :: sharedRAReceiverPool where
  "newSharedRAReceiverPool =
     \<lparr>pl_entries = Map.empty, pl_entry = Map.empty, pl_sub = Map.empty, pl_next = 0\<rparr>"

definition poolKey :: "string \<Rightarrow> RAPolicy \<Rightarrow> string" where
  "poolKey iface policy = iface @ ''|'' @ RAPolicy_Key policy"

subsection \<open>Operations\<close>

text \<open>\<open>newReceiver\<close> builds the receiver behind a new entry.\<close>

definition subscribe ::
    "(string \<Rightarrow> RAPolicy \<Rightarrow> RAReceiver) \<Rightarrow> string \<Rightarrow> RAPolicy \<Rightarrow> sharedRAReceiverPool \<Rightarrow> nat \<times> sharedRAReceiverPool" where
  "subscribe newReceiver iface policy p =
     (let key = poolKey iface policy;
          (ref, p1) = (case pl_entries p key of
             Some ref \<Rightarrow> (ref, p)
           | None \<Rightarrow> (pl_next p,
               p\<lparr>pl_entry := (pl_entry p)(pl_next p \<mapsto>
                   \<lparr>en_iface = iface, en_key = key, en_receiver = newReceiver iface policy,
                    en_subscribers = [], en_started = False\<rparr>),
                 pl_entries := (pl_entries p)(key \<mapsto> pl_next p),
                 pl_next := pl_next p + 1\<rparr>));
          sub = pl_next p1
      in (sub, p1\<lparr>pl_sub := (pl_sub p1)(sub \<mapsto>
                     \<lparr>su_entry = ref, su_iface = iface, su_key = key, su_events = [], su_started = False\<rparr>),
                  pl_next := sub + 1\<rparr>))"

definition addSubscriber ::
    "ra_start_env \<Rightarrow> nat \<Rightarrow> sharedRAReceiverEntry \<Rightarrow> recv_error option \<times> sharedRAReceiverEntry" where
  "addSubscriber env sub e =
     (if sub \<in> set (en_subscribers e) then (None, e)
      else if \<not> en_started e then
        (case RA_Start env (en_receiver e) of
           (Some err, r) \<Rightarrow> (Some err, e\<lparr>en_receiver := r\<rparr>)
         | (None, r) \<Rightarrow>
             (None, e\<lparr>en_receiver := r, en_started := True, en_subscribers := sub # en_subscribers e\<rparr>))
      else (None, e\<lparr>en_subscribers := sub # en_subscribers e\<rparr>))"

definition removeSubscriber :: "nat \<Rightarrow> sharedRAReceiverEntry \<Rightarrow> bool \<times> sharedRAReceiverEntry" where
  "removeSubscriber sub e =
     (let e' = e\<lparr>en_subscribers := remove1 sub (en_subscribers e)\<rparr> in
      (length (en_subscribers e') = 0 \<and> en_started e', e'))"

definition entry_stop ::
    "string option \<Rightarrow> sharedRAReceiverEntry \<Rightarrow> (recv_error option \<times> sharedRAReceiverEntry) option" where
  "entry_stop closeErr e =
     (if \<not> en_started e then Some (None, e)
      else (case RA_Stop closeErr (en_receiver e) of
              None \<Rightarrow> None
            | Some (err, r) \<Rightarrow> Some (err, e\<lparr>en_started := False, en_receiver := r\<rparr>)))"

text \<open>\<^verbatim>\<open>unsubscribe\<close> in its two parts: what happens under the pool's lock, and the stop after it.\<close>

definition unsubscribe_locked ::
    "string \<Rightarrow> nat \<Rightarrow> nat \<Rightarrow> sharedRAReceiverPool \<Rightarrow> bool \<times> sharedRAReceiverPool" where
  "unsubscribe_locked key ref sub p =
     (case pl_entry p ref of
        None \<Rightarrow> (False, p)
      | Some e \<Rightarrow>
          let current = (pl_entries p key = Some ref);
              (shouldStop, e') = removeSubscriber sub e;
              p' = p\<lparr>pl_entry := (pl_entry p)(ref \<mapsto> e')\<rparr>
          in (shouldStop,
              if shouldStop \<and> current then p'\<lparr>pl_entries := (pl_entries p')(key := None)\<rparr> else p'))"

definition stop_entry ::
    "string option \<Rightarrow> nat \<Rightarrow> sharedRAReceiverPool \<Rightarrow> (recv_error option \<times> sharedRAReceiverPool) option" where
  "stop_entry closeErr ref p =
     (case pl_entry p ref of
        None \<Rightarrow> Some (None, p)
      | Some e \<Rightarrow>
          (case entry_stop closeErr e of
             None \<Rightarrow> None
           | Some (err, e') \<Rightarrow> Some (err, p\<lparr>pl_entry := (pl_entry p)(ref \<mapsto> e')\<rparr>)))"

definition unsubscribe ::
    "string option \<Rightarrow> string \<Rightarrow> nat \<Rightarrow> nat \<Rightarrow> sharedRAReceiverPool \<Rightarrow> (recv_error option \<times> sharedRAReceiverPool) option" where
  "unsubscribe closeErr key ref sub p =
     (case unsubscribe_locked key ref sub p of
        (True, p') \<Rightarrow> stop_entry closeErr ref p'
      | (False, p') \<Rightarrow> Some (None, p'))"

definition set_started :: "nat \<Rightarrow> bool \<Rightarrow> sharedRAReceiverPool \<Rightarrow> sharedRAReceiverPool" where
  "set_started sub b p =
     p\<lparr>pl_sub := (pl_sub p)(sub := map_option (\<lambda>s. s\<lparr>su_started := b\<rparr>) (pl_sub p sub))\<rparr>"

definition sub_Start ::
    "ra_start_env \<Rightarrow> nat \<Rightarrow> sharedRAReceiverPool \<Rightarrow> recv_error option \<times> sharedRAReceiverPool" where
  "sub_Start env sub p =
     (case pl_sub p sub of
        None \<Rightarrow> (None, p)
      | Some s \<Rightarrow>
          if su_started s then (None, p)
          else let p1 = set_started sub True p in
            (case pl_entry p1 (su_entry s) of
               None \<Rightarrow> (None, p1)
             | Some e \<Rightarrow>
                 (case addSubscriber env sub e of
                    (Some err, e') \<Rightarrow>
                      (Some err, set_started sub False (p1\<lparr>pl_entry := (pl_entry p1)(su_entry s \<mapsto> e')\<rparr>))
                  | (None, e') \<Rightarrow> (None, p1\<lparr>pl_entry := (pl_entry p1)(su_entry s \<mapsto> e')\<rparr>))))"

definition sub_Stop ::
    "string option \<Rightarrow> nat \<Rightarrow> sharedRAReceiverPool \<Rightarrow> (recv_error option \<times> sharedRAReceiverPool) option" where
  "sub_Stop closeErr sub p =
     (case pl_sub p sub of
        None \<Rightarrow> Some (None, p)
      | Some s \<Rightarrow>
          if \<not> su_started s then Some (None, p)
          else unsubscribe closeErr (su_key s) (su_entry s) sub (set_started sub False p))"

definition sub_send :: "Event \<Rightarrow> sharedRAReceiverSubscription \<Rightarrow> sharedRAReceiverSubscription" where
  "sub_send ev s = s\<lparr>su_events := trySend ev (su_events s)\<rparr>"

definition deliver ::
    "Event \<Rightarrow> nat \<Rightarrow> (nat \<rightharpoonup> sharedRAReceiverSubscription) \<Rightarrow> (nat \<rightharpoonup> sharedRAReceiverSubscription)" where
  "deliver ev sub m = m(sub := map_option (sub_send ev) (m sub))"

definition broadcast :: "nat \<Rightarrow> Event \<Rightarrow> sharedRAReceiverPool \<Rightarrow> sharedRAReceiverPool" where
  "broadcast ref ev p =
     (case pl_entry p ref of
        None \<Rightarrow> p
      | Some e \<Rightarrow>
          p\<lparr>pl_sub := fold (deliver ev) (en_subscribers e) (pl_sub p)\<rparr>)"

text \<open>One turn of \<^verbatim>\<open>fanOut\<close>: an event of the shared receiver goes to all subscribers.\<close>

definition fanOut_turn :: "nat \<Rightarrow> sharedRAReceiverPool \<Rightarrow> sharedRAReceiverPool" where
  "fanOut_turn ref p =
     (case pl_entry p ref of
        None \<Rightarrow> p
      | Some e \<Rightarrow>
          (case ra_events (en_receiver e) of
             [] \<Rightarrow> p
           | ev # evs \<Rightarrow>
               broadcast ref ev (p\<lparr>pl_entry := (pl_entry p)(ref \<mapsto>
                 e\<lparr>en_receiver := (en_receiver e)\<lparr>ra_events := evs\<rparr>\<rparr>)\<rparr>)))"

definition sub_receiver :: "nat \<Rightarrow> sharedRAReceiverPool \<Rightarrow> RAReceiver option" where
  "sub_receiver sub p =
     Option.bind (pl_sub p sub) (\<lambda>s. map_option en_receiver (pl_entry p (su_entry s)))"

definition sub_CurrentPrefix :: "nat \<Rightarrow> sharedRAReceiverPool \<Rightarrow> Prefix option" where
  "sub_CurrentPrefix sub p = Option.bind (sub_receiver sub p) RA_CurrentPrefix"

definition sub_LastError :: "nat \<Rightarrow> sharedRAReceiverPool \<Rightarrow> recv_error option" where
  "sub_LastError sub p = Option.bind (sub_receiver sub p) RA_LastError"

definition sub_RARejections :: "nat \<Rightarrow> sharedRAReceiverPool \<Rightarrow> 64 word \<times> string" where
  "sub_RARejections sub p = (case sub_receiver sub p of None \<Rightarrow> (0, []) | Some r \<Rightarrow> RARejections r)"

definition sub_Source :: "nat \<Rightarrow> sharedRAReceiverPool \<Rightarrow> Source" where
  "sub_Source sub p = (case sub_receiver sub p of None \<Rightarrow> SourceUnknown | Some r \<Rightarrow> RA_Source r)"

text \<open>
  The pool at work.  Between its calls the goroutines of a shared receiver change its lease,
  health and events but not its run.
\<close>

inductive pool_step :: "sharedRAReceiverPool \<Rightarrow> sharedRAReceiverPool \<Rightarrow> bool" where
  pool_subscribe:
    "pool_step p (snd (subscribe (\<lambda>i pol. NewRAReceiverWithPolicy i pol o1 o2) iface policy p))"
| pool_start: "pool_step p (snd (sub_Start env sub p))"
| pool_stop: "sub_Stop closeErr sub p = Some (err, p') \<Longrightarrow> pool_step p p'"
| pool_fanOut: "pool_step p (fanOut_turn ref p)"
| pool_receive:
    "pl_entry p ref = Some e \<Longrightarrow> same_run (en_receiver e) r' \<Longrightarrow>
     ra_policy r' = ra_policy (en_receiver e) \<Longrightarrow> ra_iface r' = ra_iface (en_receiver e) \<Longrightarrow>
     pool_step p (p\<lparr>pl_entry := (pl_entry p)(ref \<mapsto> e\<lparr>en_receiver := r'\<rparr>)\<rparr>)"
| pool_take:
    "pl_sub p sub = Some s \<Longrightarrow> su_events s = ev # evs \<Longrightarrow>
     pool_step p (p\<lparr>pl_sub := (pl_sub p)(sub \<mapsto> s\<lparr>su_events := evs\<rparr>)\<rparr>)"

subsection \<open>The pool's invariant\<close>

text \<open>
  An entry: it runs exactly while it has subscribers, which are the started subscriptions that
  point to it, and its key is the key of its receiver's interface and policy.
\<close>

definition entry_ok :: "sharedRAReceiverPool \<Rightarrow> nat \<Rightarrow> sharedRAReceiverEntry \<Rightarrow> bool" where
  "entry_ok p ref e \<longleftrightarrow>
     ra_channels_ok (en_receiver e) \<and> ra_started (en_receiver e) = en_started e \<and>
     en_started e = (en_subscribers e \<noteq> []) \<and> distinct (en_subscribers e) \<and>
     (\<forall>sub. sub \<in> set (en_subscribers e) \<longleftrightarrow>
        (\<exists>s. pl_sub p sub = Some s \<and> su_started s \<and> su_entry s = ref)) \<and>
     en_key e = poolKey (en_iface e) (ra_policy (en_receiver e)) \<and> ra_iface (en_receiver e) = en_iface e"

definition pool_ok :: "sharedRAReceiverPool \<Rightarrow> bool" where
  "pool_ok p \<longleftrightarrow>
     (\<forall>key ref. pl_entries p key = Some ref \<longrightarrow> (\<exists>e. pl_entry p ref = Some e \<and> en_key e = key)) \<and>
     (\<forall>ref e. pl_entry p ref = Some e \<longrightarrow> ref < pl_next p \<and> entry_ok p ref e) \<and>
     (\<forall>sub s. pl_sub p sub = Some s \<longrightarrow> sub < pl_next p \<and> length (su_events s) \<le> eventCap \<and>
        (\<exists>e. pl_entry p (su_entry s) = Some e \<and> en_key e = su_key s))"

lemma pool_okD:
  assumes "pool_ok p"
  shows "pl_entries p key = Some ref \<Longrightarrow> \<exists>e. pl_entry p ref = Some e \<and> en_key e = key"
    "pl_entry p ref = Some e \<Longrightarrow> ref < pl_next p" "pl_entry p ref = Some e \<Longrightarrow> entry_ok p ref e"
    "pl_sub p sub = Some s \<Longrightarrow> sub < pl_next p" "pl_sub p sub = Some s \<Longrightarrow> length (su_events s) \<le> eventCap"
    "pl_sub p sub = Some s \<Longrightarrow> \<exists>e. pl_entry p (su_entry s) = Some e \<and> en_key e = su_key s"
  using assms by (auto simp: pool_ok_def)

text \<open>Entries only see which subscriptions are started and where they point.\<close>

definition same_links :: "(nat \<rightharpoonup> sharedRAReceiverSubscription) \<Rightarrow> (nat \<rightharpoonup> sharedRAReceiverSubscription) \<Rightarrow> bool" where
  "same_links m m' \<longleftrightarrow> (\<forall>sub.
     map_option (\<lambda>s. (su_started s, su_entry s, su_key s)) (m' sub) =
     map_option (\<lambda>s. (su_started s, su_entry s, su_key s)) (m sub))"

lemma same_linksD:
  assumes "same_links m m'"
  shows "(\<exists>s. m' sub = Some s \<and> su_started s \<and> su_entry s = ref) \<longleftrightarrow>
         (\<exists>s. m sub = Some s \<and> su_started s \<and> su_entry s = ref)"
    "m' sub = Some s' \<Longrightarrow> \<exists>s. m sub = Some s \<and> su_entry s = su_entry s' \<and> su_key s = su_key s'"
  using assms unfolding same_links_def
  by (cases "m sub"; cases "m' sub"; force dest: spec [of _ sub])+

lemma entry_ok_same_links:
  "same_links (pl_sub p) (pl_sub p') \<Longrightarrow> entry_ok p' ref e = entry_ok p ref e"
  by (simp add: entry_ok_def same_linksD)

lemma pool_ok_same_links:
  assumes "pool_ok p" "same_links (pl_sub p) m" "\<And>sub s. m sub = Some s \<Longrightarrow> length (su_events s) \<le> eventCap"
  shows "pool_ok (p\<lparr>pl_sub := m\<rparr>)"
proof -
  have e: "entry_ok (p\<lparr>pl_sub := m\<rparr>) ref e = entry_ok p ref e" for ref e
    using assms(2) by (simp add: entry_ok_same_links)
  have "sub < pl_next p \<and> (\<exists>e. pl_entry p (su_entry s) = Some e \<and> en_key e = su_key s)" if "m sub = Some s" for sub s
    using same_linksD(2) [OF assms(2) that] pool_okD(4,6) [OF assms(1)] by fastforce
  then show ?thesis
    using assms(1,3) by (simp add: pool_ok_def e)
qed

lemma entry_ok_cong: "pl_sub p' = pl_sub p \<Longrightarrow> entry_ok p' ref e = entry_ok p ref e"
  by (simp add: entry_ok_def)

lemma set_started_simps [simp]:
  "pl_entries (set_started sub b p) = pl_entries p" "pl_entry (set_started sub b p) = pl_entry p"
  "pl_next (set_started sub b p) = pl_next p"
  "pl_sub (set_started sub b p) k = (if k = sub then map_option (\<lambda>s. s\<lparr>su_started := b\<rparr>) (pl_sub p sub) else pl_sub p k)"
  by (simp_all add: set_started_def)

lemma entry_ok_other:
  assumes "pl_sub p sub = Some s" "ref \<noteq> su_entry s"
  shows "entry_ok (set_started sub b p) ref e = entry_ok p ref e"
  unfolding entry_ok_def using assms by (intro conj_cong refl all_cong1) auto

lemma pool_ok_change_entry:
  assumes ok: "pool_ok p" and e: "pl_entry p ref = Some e" and key: "en_key e' = en_key e"
    and sub: "\<And>k. map_option (\<lambda>s. (su_entry s, su_key s, su_events s)) (m k) =
                    map_option (\<lambda>s. (su_entry s, su_key s, su_events s)) (pl_sub p k)"
    and changed: "entry_ok (p\<lparr>pl_sub := m\<rparr>) ref e'"
    and other: "\<And>r f. r \<noteq> ref \<Longrightarrow> pl_entry p r = Some f \<Longrightarrow> entry_ok (p\<lparr>pl_sub := m\<rparr>) r f"
  shows "pool_ok (p\<lparr>pl_sub := m, pl_entry := (pl_entry p)(ref \<mapsto> e')\<rparr>)"
proof -
  let ?p = "p\<lparr>pl_sub := m, pl_entry := (pl_entry p)(ref \<mapsto> e')\<rparr>"
  have c: "entry_ok ?p r f = entry_ok (p\<lparr>pl_sub := m\<rparr>) r f" for r f
    by (rule entry_ok_cong) simp
  have "k < pl_next p \<and> length (su_events t) \<le> eventCap \<and>
      (\<exists>f. ((pl_entry p)(ref \<mapsto> e')) (su_entry t) = Some f \<and> en_key f = su_key t)" if t: "m k = Some t" for k t
  proof -
    obtain t0 where t0: "pl_sub p k = Some t0" "su_entry t0 = su_entry t" "su_key t0 = su_key t" "su_events t0 = su_events t"
      using sub [of k] t by (cases "pl_sub p k") auto
    show ?thesis
      using pool_okD(4,5,6) [OF ok t0(1)] t0(2-4) e key by auto
  qed
  moreover have "\<exists>f. ((pl_entry p)(ref \<mapsto> e')) r = Some f \<and> en_key f = key" if "pl_entries p key = Some r" for key r
    using pool_okD(1) [OF ok that] e key by auto
  moreover have "r < pl_next p \<and> entry_ok ?p r f" if "((pl_entry p)(ref \<mapsto> e')) r = Some f" for r f
    using that changed other pool_okD(2) [OF ok] e c by (auto split: if_splits)
  ultimately show ?thesis
    by (simp add: pool_ok_def)
qed

lemma addSubscriber_cases:
  assumes "entry_ok p ref e" "sub \<notin> set (en_subscribers e)"
  obtains err where "addSubscriber env sub e = (Some err, e)"
    | e' where "addSubscriber env sub e = (None, e')" "en_subscribers e' = sub # en_subscribers e" "en_started e'"
        "ra_channels_ok (en_receiver e')" "ra_started (en_receiver e')" "en_key e' = en_key e" "en_iface e' = en_iface e"
        "ra_policy (en_receiver e') = ra_policy (en_receiver e)" "ra_iface (en_receiver e') = ra_iface (en_receiver e)"
        "ra_currentPrefix (en_receiver e') = ra_currentPrefix (en_receiver e)"
proof (cases "en_started e")
  case True
  moreover have "ra_channels_ok (en_receiver e)" "ra_started (en_receiver e)"
    using assms(1) True by (simp_all add: entry_ok_def)
  ultimately show ?thesis
    using assms(2) that(2) [of "e\<lparr>en_subscribers := sub # en_subscribers e\<rparr>"] by (simp add: addSubscriber_def)
next
  case False
  then have ns: "\<not> ra_started (en_receiver e)" and ch: "ra_channels_ok (en_receiver e)"
    using assms by (auto simp: entry_ok_def)
  obtain res r where st: "RA_Start env (en_receiver e) = (res, r)"
    by fastforce
  show ?thesis
  proof (cases res)
    case (Some err)
    then have "r = en_receiver e"
      using st ns by (auto simp: RA_Start_def Let_def split: sum.splits option.splits)
    then show ?thesis
      using Some st False assms(2) that(1) by (simp add: addSubscriber_def)
  next
    case None
    then have "ra_started r" "ra_policy r = ra_policy (en_receiver e)" "ra_iface r = ra_iface (en_receiver e)"
      "ra_currentPrefix r = ra_currentPrefix (en_receiver e)"
      using st ns by (auto simp: RA_Start_def Let_def split: sum.splits option.splits)
    moreover have "ra_channels_ok r"
      using RA_Start_channels [OF ch, of env] st by simp
    ultimately show ?thesis
      using None st False assms(2) that(2) by (simp add: addSubscriber_def)
  qed
qed

lemma sub_Start_ok:
  assumes "pool_ok p"
  shows "pool_ok (snd (sub_Start env sub p))"
proof (cases "\<exists>s. pl_sub p sub = Some s \<and> \<not> su_started s")
  case False
  then show ?thesis
    using assms by (auto simp: sub_Start_def split: option.splits)
next
  case True
  then obtain s where s: "pl_sub p sub = Some s" "\<not> su_started s"
    by blast
  obtain e where e: "pl_entry p (su_entry s) = Some e"
    using pool_okD(6) [OF assms s(1)] by blast
  note eok = pool_okD(3) [OF assms e]
  have notin: "sub \<notin> set (en_subscribers e)"
    using eok s by (auto simp: entry_ok_def)
  from eok notin show ?thesis
  proof (cases rule: addSubscriber_cases [where env = env])
    case (1 err)
    have "s\<lparr>su_started := False\<rparr> = s"
      using s(2) by simp
    then have "(pl_sub p)(sub \<mapsto> s\<lparr>su_started := False\<rparr>) = pl_sub p"
      using s(1) by (simp add: fun_upd_idem)
    then have "snd (sub_Start env sub p) = p\<lparr>pl_entry := (pl_entry p)(su_entry s \<mapsto> e)\<rparr>"
      using s e 1 by (simp add: sub_Start_def set_started_def)
    also have "\<dots> = p"
      using e by (simp add: fun_upd_idem)
    finally show ?thesis
      using assms by simp
  next
    case (2 e')
    let ?m = "pl_sub (set_started sub True p)"
    have "entry_ok (p\<lparr>pl_sub := ?m\<rparr>) (su_entry s) e'"
      using eok 2 s notin by (auto simp: entry_ok_def)
    moreover have "entry_ok (p\<lparr>pl_sub := ?m\<rparr>) r f" if "r \<noteq> su_entry s" "pl_entry p r = Some f" for r f
      using entry_ok_other [OF s(1) that(1), of True f] pool_okD(3) [OF assms that(2)]
        entry_ok_cong [of "p\<lparr>pl_sub := ?m\<rparr>" "set_started sub True p"] by simp
    ultimately have "pool_ok (p\<lparr>pl_sub := ?m, pl_entry := (pl_entry p)(su_entry s \<mapsto> e')\<rparr>)"
      using s by (intro pool_ok_change_entry [OF assms e 2(6)]) (auto simp: option.map_comp)
    then show ?thesis
      using s e 2(1) by (simp add: sub_Start_def set_started_def)
  qed
qed

lemma entry_stop_ok:
  assumes "ra_channels_ok (en_receiver e)" "ra_started (en_receiver e) = en_started e"
  obtains err e' where "entry_stop closeErr e = Some (err, e')" "ra_channels_ok (en_receiver e')"
    "\<not> ra_started (en_receiver e')" "\<not> en_started e'" "en_subscribers e' = en_subscribers e"
    "en_key e' = en_key e" "en_iface e' = en_iface e" "ra_policy (en_receiver e') = ra_policy (en_receiver e)"
    "ra_iface (en_receiver e') = ra_iface (en_receiver e)"
    "ra_currentPrefix (en_receiver e') = ra_currentPrefix (en_receiver e)"
proof (cases "en_started e")
  case False
  then show ?thesis
    using assms that [of None e] by (simp add: entry_stop_def)
next
  case True
  obtain err r' where st: "RA_Stop closeErr (en_receiver e) = Some (err, r')" "ra_channels_ok r'" "\<not> ra_started r'"
    using RA_Stop_returns [OF assms(1)] by blast
  moreover have "ra_policy r' = ra_policy (en_receiver e)" "ra_iface r' = ra_iface (en_receiver e)"
    "ra_currentPrefix r' = ra_currentPrefix (en_receiver e)"
    using st(1) by (auto simp: RA_Stop_def split: if_splits)
  ultimately show ?thesis
    using True that [of err "e\<lparr>en_started := False, en_receiver := r'\<rparr>"] by (simp add: entry_stop_def)
qed

text \<open>Dropping a key from the map loses no entry.\<close>

lemma pool_ok_drop_key: "pool_ok p \<Longrightarrow> pool_ok (p\<lparr>pl_entries := (pl_entries p)(key := None)\<rparr>)"
proof -
  assume ok: "pool_ok p"
  have "entry_ok (p\<lparr>pl_entries := (pl_entries p)(key := None)\<rparr>) r f = entry_ok p r f" for r f
    by (rule entry_ok_cong) simp
  then show ?thesis
    using ok by (simp add: pool_ok_def)
qed

lemma sub_Stop_returns:
  assumes "pool_ok p"
  shows "\<exists>err p'. sub_Stop closeErr sub p = Some (err, p') \<and> pool_ok p' \<and>
     (\<forall>s. pl_sub p sub = Some s \<longrightarrow> pl_sub p' sub = Some (s\<lparr>su_started := False\<rparr>)) \<and>
     (\<forall>k. k \<noteq> sub \<longrightarrow> pl_sub p' k = pl_sub p k) \<and>
     (\<forall>k. sub_CurrentPrefix k p' = sub_CurrentPrefix k p)"
proof (cases "\<exists>s. pl_sub p sub = Some s \<and> su_started s")
  case False
  then show ?thesis
    using assms by (auto simp: sub_Stop_def split: option.splits)
next
  case True
  then obtain s where s: "pl_sub p sub = Some s" "su_started s"
    by blast
  let ?ref = "su_entry s" and ?key = "su_key s"
  obtain e where e: "pl_entry p ?ref = Some e" "en_key e = ?key"
    using pool_okD(6) [OF assms s(1)] by blast
  note eok = pool_okD(3) [OF assms e(1)]
  let ?e1 = "e\<lparr>en_subscribers := remove1 sub (en_subscribers e)\<rparr>"
  let ?m = "pl_sub (set_started sub False p)"
  let ?stop = "length (en_subscribers ?e1) = 0 \<and> en_started ?e1"
  have sets: "set (remove1 sub (en_subscribers e)) = set (en_subscribers e) - {sub}"
    using eok by (simp add: entry_ok_def set_remove1_eq)
  have "\<exists>err e2. (if ?stop then entry_stop closeErr ?e1 else Some (None, ?e1)) = Some (err, e2) \<and>
      entry_ok (p\<lparr>pl_sub := ?m\<rparr>) ?ref e2 \<and> en_key e2 = en_key e \<and>
      ra_currentPrefix (en_receiver e2) = ra_currentPrefix (en_receiver e)"
  proof (cases ?stop)
    case True
    have c: "ra_channels_ok (en_receiver ?e1)" "ra_started (en_receiver ?e1) = en_started ?e1"
      using eok by (simp_all add: entry_ok_def)
    from entry_stop_ok [OF c, of closeErr] obtain err e2 where e2:
      "entry_stop closeErr ?e1 = Some (err, e2)" "ra_channels_ok (en_receiver e2)"
      "\<not> ra_started (en_receiver e2)" "\<not> en_started e2" "en_subscribers e2 = en_subscribers ?e1"
      "en_key e2 = en_key ?e1" "en_iface e2 = en_iface ?e1"
      "ra_policy (en_receiver e2) = ra_policy (en_receiver ?e1)" "ra_iface (en_receiver e2) = ra_iface (en_receiver ?e1)"
      "ra_currentPrefix (en_receiver e2) = ra_currentPrefix (en_receiver ?e1)" .
    have empty: "en_subscribers e2 = []"
      using True e2(5) by simp
    have "t = sub" if "t \<in> set (en_subscribers e)" for t
      using sets True that by auto
    then have "\<not> (\<exists>t. ?m k = Some t \<and> su_started t \<and> su_entry t = ?ref)" for k
      using eok s(1) by (auto simp: entry_ok_def)
    then have "entry_ok (p\<lparr>pl_sub := ?m\<rparr>) ?ref e2"
      using eok e2 empty by (simp add: entry_ok_def)
    with e2 True show ?thesis
      by simp
  next
    case no: False
    have "en_started e"
      using eok s by (auto simp: entry_ok_def)
    with no have "entry_ok (p\<lparr>pl_sub := ?m\<rparr>) ?ref ?e1"
      using eok sets s by (auto simp: entry_ok_def)
    then show ?thesis
      using no by auto
  qed
  then obtain err e2 where e2: "(if ?stop then entry_stop closeErr ?e1 else Some (None, ?e1)) = Some (err, e2)"
    "entry_ok (p\<lparr>pl_sub := ?m\<rparr>) ?ref e2" "en_key e2 = en_key e"
    "ra_currentPrefix (en_receiver e2) = ra_currentPrefix (en_receiver e)"
    by blast
  have others: "entry_ok (p\<lparr>pl_sub := ?m\<rparr>) r f" if "r \<noteq> ?ref" "pl_entry p r = Some f" for r f
    using entry_ok_other [OF s(1) that(1), of False f] pool_okD(3) [OF assms that(2)]
      entry_ok_cong [of "p\<lparr>pl_sub := ?m\<rparr>" "set_started sub False p"] by simp
  let ?p2 = "p\<lparr>pl_sub := ?m, pl_entry := (pl_entry p)(?ref \<mapsto> e2)\<rparr>"
  have ok2: "pool_ok ?p2"
    using s by (intro pool_ok_change_entry [OF assms e(1) e2(3) _ e2(2) others]) (auto simp: option.map_comp)
  let ?p3 = "if ?stop \<and> pl_entries p ?key = Some ?ref then ?p2\<lparr>pl_entries := (pl_entries p)(?key := None)\<rparr> else ?p2"
  have "sub_Stop closeErr sub p = Some (err, ?p3)"
    using s e e2(1)
    by (auto simp: sub_Stop_def unsubscribe_def unsubscribe_locked_def removeSubscriber_def stop_entry_def
        set_started_def Let_def split: if_splits)
  moreover have "pool_ok ?p3"
    using ok2 pool_ok_drop_key [OF ok2, of ?key] by simp
  moreover have "sub_CurrentPrefix k ?p3 = sub_CurrentPrefix k p" for k
    using e e2(4) s by (auto simp: sub_CurrentPrefix_def sub_receiver_def RA_CurrentPrefix_def option.map_comp
        split: Option.bind_splits)
  ultimately show ?thesis
    using s by (intro exI [of _ err] exI [of _ ?p3]) simp
qed

lemma subscribe_ok:
  assumes "pool_ok p"
    and new: "\<And>i pol. ra_channels_ok (newR i pol) \<and> \<not> ra_started (newR i pol) \<and>
                ra_policy (newR i pol) = pol \<and> ra_iface (newR i pol) = i"
  shows "pool_ok (snd (subscribe newR iface pol p))"
proof -
  let ?key = "poolKey iface pol" and ?n = "pl_next p"
  have fresh: "pl_entry p k = None" "pl_sub p k = None" if "?n \<le> k" for k
    using pool_okD(2,4) [OF assms(1)] that by (meson leD not_None_eq)+
  have add_sub: "pool_ok (q\<lparr>pl_sub := (pl_sub q)(pl_next q \<mapsto>
        \<lparr>su_entry = ref, su_iface = iface, su_key = ?key, su_events = [], su_started = False\<rparr>),
        pl_next := pl_next q + 1\<rparr>)" (is "pool_ok ?q")
    if q: "pool_ok q" "pl_entry q ref = Some f" "en_key f = ?key" for q ref f
  proof -
    have n: "pl_sub q (pl_next q) = None"
      using pool_okD(4) [OF q(1)] by (meson less_irrefl not_None_eq)
    have "entry_ok ?q r g = entry_ok q r g" for r g
      unfolding entry_ok_def using n by (intro conj_cong refl all_cong1) auto
    then show ?thesis
      using q by (fastforce simp: pool_ok_def)
  qed
  show ?thesis
  proof (cases "pl_entries p ?key")
    case (Some ref)
    then obtain f where "pl_entry p ref = Some f" "en_key f = ?key"
      using pool_okD(1) [OF assms(1)] by blast
    then show ?thesis
      using add_sub [OF assms(1)] Some by (simp add: subscribe_def Let_def)
  next
    case None
    let ?e = "\<lparr>en_iface = iface, en_key = ?key, en_receiver = newR iface pol, en_subscribers = [], en_started = False\<rparr>"
    let ?p1 = "p\<lparr>pl_entry := (pl_entry p)(?n \<mapsto> ?e), pl_entries := (pl_entries p)(?key \<mapsto> ?n), pl_next := ?n + 1\<rparr>"
    have "su_entry s \<noteq> ?n" if "pl_sub p k = Some s" for k s
      using pool_okD(6) [OF assms(1) that] fresh(1) [of ?n] by auto
    then have "entry_ok ?p1 ?n ?e"
      using new [of iface pol] by (auto simp: entry_ok_def)
    moreover have "entry_ok ?p1 r f = entry_ok p r f" for r f
      by (rule entry_ok_cong) simp
    ultimately have "pool_ok ?p1"
      using assms(1) fresh by (fastforce simp: pool_ok_def)
    then show ?thesis
      using add_sub [of ?p1 ?n ?e] None by (simp add: subscribe_def Let_def)
  qed
qed

lemma same_links_trans: "same_links a b \<Longrightarrow> same_links b c \<Longrightarrow> same_links a c"
  by (simp add: same_links_def)

lemma deliver_links: "same_links m (deliver ev x m)"
  by (simp add: same_links_def deliver_def sub_send_def option.map_comp comp_def)

lemma deliver_all_links: "same_links m (fold (deliver ev) subs m)"
proof (induction subs arbitrary: m)
  case Nil
  show ?case by (simp add: same_links_def)
next
  case (Cons x xs)
  show ?case
    using same_links_trans [OF deliver_links Cons.IH] by simp
qed

lemma deliver_all_bounded:
  "\<forall>k s. m k = Some s \<longrightarrow> length (su_events s) \<le> eventCap \<Longrightarrow>
   \<forall>k s. fold (deliver ev) subs m k = Some s \<longrightarrow> length (su_events s) \<le> eventCap"
proof (induction subs arbitrary: m)
  case (Cons x xs)
  have "\<forall>k s. deliver ev x m k = Some s \<longrightarrow> length (su_events s) \<le> eventCap"
    using Cons.prems by (auto simp: deliver_def sub_send_def)
  from Cons.IH [OF this] show ?case
    by simp
qed simp

lemma broadcast_ok:
  assumes "pool_ok p"
  shows "pool_ok (broadcast ref ev p)"
proof -
  have b: "\<forall>k s. pl_sub p k = Some s \<longrightarrow> length (su_events s) \<le> eventCap"
    using pool_okD(5) [OF assms] by blast
  have "pool_ok (p\<lparr>pl_sub := fold (deliver ev) subs (pl_sub p)\<rparr>)" for subs
    using deliver_all_bounded [OF b, of ev subs] by (intro pool_ok_same_links [OF assms deliver_all_links]) blast
  then show ?thesis
    using assms by (simp add: broadcast_def split: option.split)
qed

lemma pool_ok_receiver:
  assumes "pool_ok p" "pl_entry p ref = Some e" "same_run (en_receiver e) r'"
    "ra_policy r' = ra_policy (en_receiver e)" "ra_iface r' = ra_iface (en_receiver e)"
  shows "pool_ok (p\<lparr>pl_entry := (pl_entry p)(ref \<mapsto> e\<lparr>en_receiver := r'\<rparr>)\<rparr>)"
proof -
  have "entry_ok p ref (e\<lparr>en_receiver := r'\<rparr>)"
    using pool_okD(3) [OF assms(1,2)] assms(3-5) same_run_ok(1) [OF assms(3)]
    by (simp add: entry_ok_def same_run_def)
  then show ?thesis
    using pool_ok_change_entry [OF assms(1,2), of "e\<lparr>en_receiver := r'\<rparr>" "pl_sub p"] pool_okD(3) [OF assms(1)]
    by simp
qed

lemma fanOut_ok: "pool_ok p \<Longrightarrow> pool_ok (fanOut_turn ref p)"
  by (auto simp: fanOut_turn_def same_run_def intro!: broadcast_ok pool_ok_receiver split: option.splits list.splits)

lemma new_receiver_ok:
  "ra_channels_ok (NewRAReceiverWithPolicy i pol o1 o2) \<and> \<not> ra_started (NewRAReceiverWithPolicy i pol o1 o2) \<and>
   ra_policy (NewRAReceiverWithPolicy i pol o1 o2) = pol \<and> ra_iface (NewRAReceiverWithPolicy i pol o1 o2) = i"
  by (simp add: NewRAReceiverWithPolicy_def ra_channels_ok_def)

lemma pool_step_ok:
  assumes "pool_ok p" "pool_step p p'"
  shows "pool_ok p'"
  using assms(2)
proof cases
  case (pool_subscribe o1 o2 iface policy)
  then show ?thesis
    using subscribe_ok [OF assms(1) new_receiver_ok] by simp
next
  case (pool_start env sub)
  then show ?thesis
    using sub_Start_ok [OF assms(1)] by simp
next
  case (pool_stop ce sub err)
  then show ?thesis
    using sub_Stop_returns [OF assms(1), of ce sub] by auto
next
  case (pool_fanOut ref)
  then show ?thesis
    using fanOut_ok [OF assms(1)] by simp
next
  case (pool_receive ref e r')
  then show ?thesis
    using pool_ok_receiver [OF assms(1)] by simp
next
  case (pool_take sub s ev evs)
  have "same_links (pl_sub p) ((pl_sub p)(sub \<mapsto> s\<lparr>su_events := evs\<rparr>))"
    using pool_take by (simp add: same_links_def)
  moreover have "length (su_events t) \<le> eventCap" if "((pl_sub p)(sub \<mapsto> s\<lparr>su_events := evs\<rparr>)) k = Some t" for k t
    using that pool_okD(5) [OF assms(1)] pool_take by (fastforce split: if_splits)
  ultimately have "pool_ok (p\<lparr>pl_sub := (pl_sub p)(sub \<mapsto> s\<lparr>su_events := evs\<rparr>)\<rparr>)"
    by (rule pool_ok_same_links [OF assms(1)])
  then show ?thesis
    using pool_take by simp
qed

lemma pool_initial_ok: "pool_ok newSharedRAReceiverPool"
  by (simp add: pool_ok_def newSharedRAReceiverPool_def)

interpretation pool: transition_invariant "\<lambda>p. p = newSharedRAReceiverPool" pool_step pool_ok
  using pool_initial_ok pool_step_ok by unfold_locales blast+


text \<open>A pool with two subscriptions to one interface, the first of them started.\<close>

definition sample_pool :: sharedRAReceiverPool where
  "sample_pool =
     (let new = (\<lambda>i pol. NewRAReceiverWithPolicy i pol False False);
          p1 = snd (subscribe new ''eth0'' DefaultRAPolicy newSharedRAReceiverPool);
          p2 = snd (subscribe new ''eth0'' DefaultRAPolicy p1)
      in snd (sub_Start sample_env 1 p2))"

lemma sample_pool_reachable: "pool_step\<^sup>*\<^sup>* newSharedRAReceiverPool sample_pool"
  unfolding sample_pool_def Let_def
  by (intro rtranclp.rtrancl_into_rtrancl [OF rtranclp.rtrancl_into_rtrancl
        [OF rtranclp.rtrancl_into_rtrancl [OF rtranclp.rtrancl_refl]]])
    (rule pool_subscribe pool_start)+

lemma sample_pool_state:
  "pl_sub sample_pool 1 = Some \<lparr>su_entry = 0, su_iface = ''eth0'', su_key = poolKey ''eth0'' DefaultRAPolicy,
     su_events = [], su_started = True\<rparr>"
  "pl_sub sample_pool 2 = Some \<lparr>su_entry = 0, su_iface = ''eth0'', su_key = poolKey ''eth0'' DefaultRAPolicy,
     su_events = [], su_started = False\<rparr>"
  "\<exists>e. pl_entry sample_pool 0 = Some e \<and> en_subscribers e = [1] \<and> en_started e \<and> ra_started (en_receiver e) \<and>
     ra_closed (en_receiver e) = [] \<and> ra_stopCh (en_receiver e) = 1"
  by (simp_all add: sample_pool_def subscribe_def newSharedRAReceiverPool_def sub_Start_def set_started_def
      addSubscriber_def RA_Start_def NewRAReceiverWithPolicy_def sample_env_def Let_def)


subsection \<open>Who shares a receiver\<close>

text \<open>
  Sharing never changes a decision.  The receiver a subscription gets, new or shared, listens
  on the interface asked for and applies the policy asked for: it accepts the same prefixes and
  trusts the same routers, because equal pool keys mean equal interfaces and equivalent policies.
\<close>

theorem subscription_gets_its_policy:
  assumes "pool_step\<^sup>*\<^sup>* newSharedRAReceiverPool p"
    and "plain_routers (TrustedRouters policy)"
    and "\<And>ref e. pl_entry p ref = Some e \<Longrightarrow> plain_routers (TrustedRouters (ra_policy (en_receiver e)))"
    and "subscribe (\<lambda>i pol. NewRAReceiverWithPolicy i pol o1 o2) iface policy p = (sub, p')"
  shows "\<exists>r. sub_receiver sub p' = Some r \<and> ra_iface r = iface \<and> ra_Policy (ra_policy r) = ra_Policy policy \<and>
     (\<forall>a. Trusts (ra_policy r) a = Trusts policy a)"
proof (cases "pl_entries p (poolKey iface policy)")
  case None
  then show ?thesis
    using assms(4) by (auto simp: subscribe_def Let_def sub_receiver_def NewRAReceiverWithPolicy_def)
next
  case (Some ref)
  have ok: "pool_ok p"
    using assms(1) by (intro pool.reachable_inv) blast+
  obtain e where e: "pl_entry p ref = Some e" "en_key e = poolKey iface policy"
    using pool_okD(1) [OF ok Some] by blast
  let ?q = "ra_policy (en_receiver e)"
  have eok: "en_key e = poolKey (en_iface e) ?q" "ra_iface (en_receiver e) = en_iface e"
    using pool_okD(3) [OF ok e(1)] by (simp_all add: entry_ok_def)
  have "en_iface e @ CHR ''|'' # RAPolicy_Key ?q = iface @ CHR ''|'' # RAPolicy_Key policy"
    using e(2) eok(1) by (simp add: poolKey_def)
  note same = policy_key_sound [OF assms(3) [OF e(1)] assms(2) this]
  have "TrustedRouters ?q = [] \<longleftrightarrow> TrustedRouters policy = []"
    using same(3) by (metis set_empty)
  then have "Trusts ?q a = Trusts policy a" for a
    using same(3) by (simp add: Trusts_def list_ex_iff)
  moreover have "sub_receiver sub p' = Some (en_receiver e)"
    using assms(4) Some e by (auto simp: subscribe_def Let_def sub_receiver_def)
  ultimately show ?thesis
    using same(1,2) eok(2) by auto
qed

theorem subscription_gets_its_policy_witness:
  "\<exists>r. sub_receiver 1 (snd (subscribe (\<lambda>i pol. NewRAReceiverWithPolicy i pol False False) ''eth0''
        DefaultRAPolicy newSharedRAReceiverPool)) = Some r \<and> ra_iface r = ''eth0''"
proof -
  have "subscribe (\<lambda>i pol. NewRAReceiverWithPolicy i pol False False) ''eth0'' DefaultRAPolicy newSharedRAReceiverPool =
      (1, snd (subscribe (\<lambda>i pol. NewRAReceiverWithPolicy i pol False False) ''eth0'' DefaultRAPolicy newSharedRAReceiverPool))"
    by (simp add: subscribe_def newSharedRAReceiverPool_def Let_def)
  from subscription_gets_its_policy [OF rtranclp.rtrancl_refl _ _ this] show ?thesis
    by (auto simp: plain_routers_def DefaultRAPolicy_def newSharedRAReceiverPool_def)
qed

subsection \<open>Delivery\<close>

lemma deliver_all_other: "k \<notin> set subs \<Longrightarrow> fold (deliver ev) subs m k = m k"
  by (induction subs arbitrary: m) (auto simp: deliver_def)

lemma deliver_all_in:
  "distinct subs \<Longrightarrow> k \<in> set subs \<Longrightarrow> fold (deliver ev) subs m k = map_option (sub_send ev) (m k)"
proof (induction subs arbitrary: m)
  case (Cons x xs)
  then show ?case
    by (cases "k = x") (auto simp: deliver_all_other, simp_all add: deliver_def)
qed simp

text \<open>
  An event of a shared receiver reaches every subscriber that has room for it, once each, and
  a full or foreign subscription is left exactly as it was: a slow subscriber holds nobody up.
\<close>

theorem broadcast_reaches_every_subscriber:
  assumes "pool_step\<^sup>*\<^sup>* newSharedRAReceiverPool p" and "pl_entry p ref = Some e" and "pl_sub p sub = Some s"
  shows "pl_sub (broadcast ref ev p) sub =
     Some (if su_started s \<and> su_entry s = ref \<and> length (su_events s) < 10
           then s\<lparr>su_events := su_events s @ [ev]\<rparr> else s)"
proof -
  have ok: "pool_ok p"
    using assms(1) by (intro pool.reachable_inv) blast+
  then have e: "distinct (en_subscribers e)" "sub \<in> set (en_subscribers e) \<longleftrightarrow> su_started s \<and> su_entry s = ref"
    using pool_okD(3) [OF ok assms(2)] assms(3) by (auto simp: entry_ok_def)
  show ?thesis
  proof (cases "sub \<in> set (en_subscribers e)")
    case True
    then show ?thesis
      using assms(2,3) e deliver_all_in [OF e(1) True, of ev "pl_sub p"]
      by (simp add: broadcast_def sub_send_def trySend_def eventCap_def)
  next
    case False
    then show ?thesis
      using assms(2,3) e deliver_all_other [OF False, of ev "pl_sub p"] by (auto simp: broadcast_def)
  qed
qed

theorem broadcast_reaches_every_subscriber_witness:
  "let ev = \<lparr>event_Type = EventTypeExpired, event_Prefix = None, event_Error = None\<rparr> in
   map_option su_events (pl_sub (broadcast 0 ev sample_pool) 1) = Some [ev] \<and>
   map_option su_events (pl_sub (broadcast 0 ev sample_pool) 2) = Some []"
proof -
  obtain e where e: "pl_entry sample_pool 0 = Some e"
    using sample_pool_state(3) by blast
  note b = broadcast_reaches_every_subscriber [OF sample_pool_reachable e]
  show ?thesis
    using b [OF sample_pool_state(1)] b [OF sample_pool_state(2)] by (simp add: Let_def)
qed

subsection \<open>A start between the two halves of an unsubscribe\<close>

text \<open>
  The two halves of an unsubscribe are not one step.  When the last subscriber has been removed
  but its receiver not yet stopped, a second subscription to the same entry starts without starting
  anything, and the stop that follows leaves it started on a receiver that is not running.
\<close>

theorem start_during_unsubscribe_is_lost:
  "let p0 = set_started 1 False sample_pool;
       (shouldStop, p1) = unsubscribe_locked (poolKey ''eth0'' DefaultRAPolicy) 0 1 p0;
       (err, p2) = sub_Start sample_env 2 p1
   in shouldStop \<and> err = None \<and>
      (\<exists>p3. stop_entry None 0 p2 = Some (None, p3) \<and>
         map_option su_started (pl_sub p3 2) = Some True \<and>
         map_option ra_started (sub_receiver 2 p3) = Some False)"
proof -
  obtain e where e: "pl_entry sample_pool 0 = Some e" "en_subscribers e = [1]" "en_started e" "ra_started (en_receiver e)"
    "ra_closed (en_receiver e) = []"
    using sample_pool_state(3) by blast
  show ?thesis
    using e sample_pool_state(1,2)
    by (simp add: unsubscribe_locked_def removeSubscriber_def sub_Start_def addSubscriber_def stop_entry_def
        entry_stop_def RA_Stop_def sub_receiver_def set_started_def Let_def split_beta split: prod.splits if_splits)
qed

subsection \<open>The receiver contract\<close>

definition sub_take :: "nat \<Rightarrow> sharedRAReceiverPool \<Rightarrow> (Event \<times> sharedRAReceiverPool) option" where
  "sub_take sub p =
     (case pl_sub p sub of
        None \<Rightarrow> None
      | Some s \<Rightarrow>
          (case su_events s of
             [] \<Rightarrow> None
           | ev # evs \<Rightarrow> Some (ev, p\<lparr>pl_sub := (pl_sub p)(sub \<mapsto> s\<lparr>su_events := evs\<rparr>)\<rparr>)))"

definition sub_ops :: "nat \<Rightarrow> (sharedRAReceiverPool, ra_start_env \<times> string option) receiver_ops" where
  "sub_ops sub =
     \<lparr>op_Start = (\<lambda>e. sub_Start (fst e) sub), op_Stop = (\<lambda>e. sub_Stop (snd e) sub), op_take = sub_take sub,
      op_CurrentPrefix = sub_CurrentPrefix sub, op_Source = sub_Source sub, op_LastError = sub_LastError sub,
      op_RARejections = (\<lambda>p. Some (sub_RARejections sub p))\<rparr>"

definition sub_running :: "nat \<Rightarrow> sharedRAReceiverPool \<Rightarrow> bool" where
  "sub_running sub p \<longleftrightarrow> (\<exists>s. pl_sub p sub = Some s \<and> su_started s)"

definition sub_inv :: "nat \<Rightarrow> sharedRAReceiverPool \<Rightarrow> bool" where
  "sub_inv sub p \<longleftrightarrow> pool_ok p \<and> pl_sub p sub \<noteq> None"

lemma sub_Start_result:
  assumes "sub_inv sub p"
  shows "sub_running sub (snd (sub_Start env sub p)) \<longleftrightarrow> fst (sub_Start env sub p) = None"
    "sub_CurrentPrefix k (snd (sub_Start env sub p)) = sub_CurrentPrefix k p"
    "pl_sub (snd (sub_Start env sub p)) sub \<noteq> None"
proof -
  obtain s where s: "pl_sub p sub = Some s" and ok: "pool_ok p"
    using assms by (auto simp: sub_inv_def)
  obtain e where e: "pl_entry p (su_entry s) = Some e"
    using pool_okD(6) [OF ok s] by blast
  have *: "(sub_running sub (snd (sub_Start env sub p)) \<longleftrightarrow> fst (sub_Start env sub p) = None) \<and>
     sub_CurrentPrefix k (snd (sub_Start env sub p)) = sub_CurrentPrefix k p \<and>
     pl_sub (snd (sub_Start env sub p)) sub \<noteq> None"
  proof (cases "su_started s")
    case True
    then show ?thesis
      using s by (simp add: sub_Start_def sub_running_def)
  next
    case False
    then have "sub \<notin> set (en_subscribers e)"
      using pool_okD(3) [OF ok e] s by (auto simp: entry_ok_def)
    from pool_okD(3) [OF ok e] this show ?thesis
      by (cases rule: addSubscriber_cases [where env = env])
        (use s e False in \<open>auto simp: sub_Start_def sub_running_def set_started_def sub_CurrentPrefix_def
           sub_receiver_def RA_CurrentPrefix_def split: Option.bind_splits\<close>)
  qed
  then show "sub_running sub (snd (sub_Start env sub p)) \<longleftrightarrow> fst (sub_Start env sub p) = None"
    "sub_CurrentPrefix k (snd (sub_Start env sub p)) = sub_CurrentPrefix k p"
    "pl_sub (snd (sub_Start env sub p)) sub \<noteq> None"
    by blast+
qed

lemma sub_take_keeps:
  assumes "sub_inv sub p" "sub_take sub p = Some (ev, p')"
  shows "sub_inv sub p' \<and> sub_running sub p' = sub_running sub p \<and> sub_CurrentPrefix sub p' = sub_CurrentPrefix sub p"
proof -
  obtain s evs where s: "pl_sub p sub = Some s" "su_events s = ev # evs"
    "p' = p\<lparr>pl_sub := (pl_sub p)(sub \<mapsto> s\<lparr>su_events := evs\<rparr>)\<rparr>"
    using assms(2) by (auto simp: sub_take_def split: option.splits list.splits)
  have "pool_ok p'"
    using pool_step_ok [OF _ pool_take [OF s(1,2)]] assms(1) s(3) by (simp add: sub_inv_def)
  then show ?thesis
    using s by (simp add: sub_inv_def sub_running_def sub_CurrentPrefix_def sub_receiver_def)
qed

interpretation sub_receiver: receiver_contract "sub_ops sub" "sub_inv sub" "sub_running sub" for sub
proof unfold_locales
  fix r e ev r'
  assume r: "sub_inv sub r"
  then have ok: "pool_ok r"
    by (simp add: sub_inv_def)
  show "op_Start (sub_ops sub) e r = (None, r)" if "sub_running sub r"
    using that by (auto simp: sub_ops_def sub_Start_def sub_running_def)
  show "sub_inv sub (snd (op_Start (sub_ops sub) e r))"
    using sub_Start_ok [OF ok] sub_Start_result(3) [OF r] by (simp add: sub_ops_def sub_inv_def)
  show "sub_running sub (snd (op_Start (sub_ops sub) e r)) \<longleftrightarrow> fst (op_Start (sub_ops sub) e r) = None"
    using sub_Start_result(1) [OF r] by (simp add: sub_ops_def)
  show "op_CurrentPrefix (sub_ops sub) (snd (op_Start (sub_ops sub) e r)) = op_CurrentPrefix (sub_ops sub) r"
    using sub_Start_result(2) [OF r] by (simp add: sub_ops_def)
  obtain s where s: "pl_sub r sub = Some s"
    using r by (auto simp: sub_inv_def)
  show "\<exists>err r'. op_Stop (sub_ops sub) e r = Some (err, r') \<and> sub_inv sub r' \<and> \<not> sub_running sub r' \<and>
          op_CurrentPrefix (sub_ops sub) r' = op_CurrentPrefix (sub_ops sub) r"
    using sub_Stop_returns [OF ok, of "snd e" sub] s by (auto simp: sub_ops_def sub_inv_def sub_running_def)
  show "sub_inv sub r' \<and> sub_running sub r' = sub_running sub r \<and>
      op_CurrentPrefix (sub_ops sub) r' = op_CurrentPrefix (sub_ops sub) r"
    if "op_take (sub_ops sub) r = Some (ev, r')"
    using sub_take_keeps [OF r] that by (simp add: sub_ops_def)
qed

end
