(* ===== verification/DHCPv6_PD.thy ===== *)
theory DHCPv6_PD
  imports Receiver_Core
begin

text \<open>
  The DHCPv6 prefix delegation client of \<^verbatim>\<open>internal/prefix/dhcpv6pd_receiver.go\<close>: retry pacing, the
  four-message acquisition, renewal and rebinding, the reading of a reply, and \<^verbatim>\<open>runLoop\<close> as a
  machine whose control points are the places where the goroutine waits or has sent a message.
  The DHCPv6 library, the interface table and the clock are the environment: \<open>pd_env\<close> answers
  for them.  An exchange is split into its sending half, which reads the lease, and the half
  that processes the reply, because a stopped generation of the loop may still be waiting for
  an answer when the next one runs.
\<close>

subsection \<open>Messages\<close>

type_synonym duid = "byte list"

record OptStatusCode =
  StatusCode :: nat
  StatusMessage :: string

text \<open>A \<^verbatim>\<open>net.IPNet\<close>: the address and the mask as byte slices of any length.\<close>

record IPNet =
  net_IP :: "byte list"
  net_Mask :: "byte list"

record OptIAPrefix =
  iap_PreferredLifetime :: duration
  iap_ValidLifetime :: duration
  iap_Prefix :: "IPNet option"

record OptIAPD =
  iapd_IaId :: "byte list"
  iapd_T1 :: duration
  iapd_T2 :: duration
  iapd_Status :: "OptStatusCode option"
  iapd_Prefixes :: "OptIAPrefix list"

text \<open>An option with the code of an IA_PD; the decoder may hand back a generic one.\<close>

datatype iapd_option = TypedIAPD OptIAPD | GenericIAPD

record Message =
  msg_Status :: "OptStatusCode option"
  msg_IAPDs :: "iapd_option list"
  msg_ServerID :: "duid option"

text \<open>A message the client sends.\<close>

record Request =
  req_Type :: message_type
  req_ClientID :: "byte list"
  req_ElapsedTime :: duration
  req_ServerID :: "duid option"
  req_IAPD :: iapd_option

subsection \<open>The receiver\<close>

record dhcpv6Lease =
  IAID :: "byte list"
  lease_Prefix :: ipprefix
  T1 :: duration
  T2 :: duration
  lease_ValidLifetime :: duration
  lease_PreferredLifetime :: duration
  lease_ReceivedAt :: instant
  ServerID :: duid

text \<open>\<^verbatim>\<open>releaseInterface\<close> with its \<^verbatim>\<open>sync.Once\<close>: no claim, a claim held, or the claim handed back.\<close>

datatype claim = NoClaim | Claimed | Released

record DHCPv6PDReceiver =
  pd_health :: healthTracker
  pd_iface :: string
  pd_requestedPrefixLength :: int
  pd_currentPrefix :: "Prefix option"
  pd_lease :: "dhcpv6Lease option"
  pd_events :: "Event list"
  pd_stopCh :: nat
  pd_closed :: "nat list"
  pd_nextCh :: nat
  pd_started :: bool
  pd_policy :: Policy
  pd_acquireBackoffMin :: duration
  pd_acquireBackoffMax :: duration
  pd_claim :: claim

definition defaultInitialAcquireBackoff :: duration where
  "defaultInitialAcquireBackoff = 10 * second"

definition defaultAcquireBackoffMax :: duration where
  "defaultAcquireBackoffMax = 5 * minute"

definition renewRetryInterval :: duration where
  "renewRetryInterval = 30 * second"

definition NewDHCPv6PDReceiverWithPolicy :: "string \<Rightarrow> int \<Rightarrow> Policy \<Rightarrow> DHCPv6PDReceiver" where
  "NewDHCPv6PDReceiverWithPolicy iface requestedPrefixLength policy =
     \<lparr>pd_health = None, pd_iface = iface,
      pd_requestedPrefixLength = (if requestedPrefixLength = 0 then 56 else requestedPrefixLength),
      pd_currentPrefix = None, pd_lease = None, pd_events = [],
      pd_stopCh = 0, pd_closed = [], pd_nextCh = 1, pd_started = False, pd_policy = policy,
      pd_acquireBackoffMin = defaultInitialAcquireBackoff,
      pd_acquireBackoffMax = defaultAcquireBackoffMax, pd_claim = NoClaim\<rparr>"

definition NewDHCPv6PDReceiver :: "string \<Rightarrow> int \<Rightarrow> DHCPv6PDReceiver" where
  "NewDHCPv6PDReceiver iface requestedPrefixLength =
     NewDHCPv6PDReceiverWithPolicy iface requestedPrefixLength DefaultPolicy"

definition PD_Start :: "DHCPv6PDReceiver \<Rightarrow> recv_error option \<times> DHCPv6PDReceiver" where
  "PD_Start r =
     (if pd_started r then (None, r)
      else (None, r\<lparr>pd_stopCh := pd_nextCh r, pd_nextCh := pd_nextCh r + 1, pd_started := True\<rparr>))"

definition releaseClaimedInterface :: "DHCPv6PDReceiver \<Rightarrow> DHCPv6PDReceiver" where
  "releaseClaimedInterface r =
     (if pd_claim r = NoClaim then r else r\<lparr>pd_claim := Released\<rparr>)"

definition PD_Stop :: "DHCPv6PDReceiver \<Rightarrow> (recv_error option \<times> DHCPv6PDReceiver) option" where
  "PD_Stop r0 =
     (let r = releaseClaimedInterface r0 in
      if \<not> pd_started r then Some (None, r)
      else if pd_stopCh r \<in> set (pd_closed r) then None
      else Some (None, r\<lparr>pd_started := False, pd_closed := pd_stopCh r # pd_closed r\<rparr>))"

definition PD_CurrentPrefix :: "DHCPv6PDReceiver \<Rightarrow> Prefix option" where
  "PD_CurrentPrefix r = pd_currentPrefix r"

definition PD_LastError :: "DHCPv6PDReceiver \<Rightarrow> recv_error option" where
  "PD_LastError r = LastError (pd_health r)"

definition PD_Source :: "DHCPv6PDReceiver \<Rightarrow> Source" where
  "PD_Source r = SourceDHCPv6PD"

definition pd_sendEvent :: "EventType \<Rightarrow> Prefix option \<Rightarrow> DHCPv6PDReceiver \<Rightarrow> DHCPv6PDReceiver" where
  "pd_sendEvent t p r =
     r\<lparr>pd_events := trySend \<lparr>event_Type = t, event_Prefix = p, event_Error = None\<rparr> (pd_events r)\<rparr>"

definition pd_sendError :: "recv_error \<Rightarrow> DHCPv6PDReceiver \<Rightarrow> DHCPv6PDReceiver" where
  "pd_sendError err r =
     r\<lparr>pd_health := recordFailure err (pd_health r),
       pd_events := trySend \<lparr>event_Type = EventTypeFailed, event_Prefix = None, event_Error = Some err\<rparr>
                      (pd_events r)\<rparr>"

definition dropLease :: "DHCPv6PDReceiver \<Rightarrow> DHCPv6PDReceiver" where
  "dropLease r = pd_sendEvent EventTypeExpired None (r\<lparr>pd_currentPrefix := None, pd_lease := None\<rparr>)"

subsection \<open>Pacing\<close>

definition nextBackoff :: "duration \<Rightarrow> duration \<Rightarrow> duration" where
  "nextBackoff cur ceiling =
     (if cur \<ge> ceiling \<or> cur > go_div ceiling 2 then ceiling else wrap64 (cur * 2))"

text \<open>\<open>rnd n\<close> is what \<^verbatim>\<open>rand.Int64N(n)\<close> draws: at least 0 and below \<open>n\<close>.\<close>

definition jittered :: "(int \<Rightarrow> int) \<Rightarrow> duration \<Rightarrow> duration" where
  "jittered rnd d =
     (if d \<le> 0 then d
      else let spread = go_div d 5 in
        if spread = 0 then d
        else wrap64 (d + (rnd (wrap64 (2 * spread + 1)) - spread)))"

record acquireBackoff =
  bo_min :: duration
  bo_max :: duration
  bo_cur :: duration

definition newAcquireBackoff :: "duration \<Rightarrow> duration \<Rightarrow> acquireBackoff" where
  "newAcquireBackoff minDelay maxDelay = \<lparr>bo_min = minDelay, bo_max = maxDelay, bo_cur = minDelay\<rparr>"

definition bo_current :: "acquireBackoff \<Rightarrow> duration" where
  "bo_current b = bo_cur b"

definition bo_wait :: "(int \<Rightarrow> int) \<Rightarrow> acquireBackoff \<Rightarrow> duration" where
  "bo_wait rnd b = jittered rnd (bo_cur b)"

definition bo_failed :: "acquireBackoff \<Rightarrow> acquireBackoff" where
  "bo_failed b = b\<lparr>bo_cur := nextBackoff (bo_cur b) (bo_max b)\<rparr>"

definition bo_succeeded :: "acquireBackoff \<Rightarrow> acquireBackoff" where
  "bo_succeeded b = b\<lparr>bo_cur := bo_min b\<rparr>"

subsection \<open>Exchanges\<close>

record net_interface =
  if_Name :: string
  if_Index :: int
  if_HardwareAddr :: "byte list"

text \<open>What the environment answers during one exchange.\<close>

record pd_env =
  env_lookupInterface :: "string + net_interface"
  env_dial :: "string option"
  env_newMessage :: "message_type \<Rightarrow> string option"
  env_sendAndRead :: "Request \<Rightarrow> string + Message"
  env_now :: instant

definition openClient :: "pd_env \<Rightarrow> DHCPv6PDReceiver \<Rightarrow> pd_error + net_interface" where
  "openClient env r =
     (case env_lookupInterface env of
        Inl e \<Rightarrow> Err (PDInterfaceLookup (pd_iface r) e)
      | Inr ifi \<Rightarrow> (case env_dial env of Some e \<Rightarrow> Err (PDDialFailed e) | None \<Rightarrow> Ok ifi))"

definition put_uint32 :: "32 word \<Rightarrow> byte list" where
  "put_uint32 w = map (\<lambda>i. ucast (drop_bit (8 * (3 - i)) w)) [0..<4]"

definition iaidForInterface :: "net_interface \<Rightarrow> pd_error + byte list" where
  "iaidForInterface ifi =
     (if if_Index ifi \<le> 0 \<or> if_Index ifi > 4294967295
      then Err (PDIndexOutOfRange (if_Name ifi) (if_Index ifi))
      else Ok (put_uint32 (word_of_int (if_Index ifi))))"

text \<open>The client identifier is a DUID-LL over the hardware address.\<close>

definition generateDUID :: "net_interface \<Rightarrow> byte list" where
  "generateDUID ifi = if_HardwareAddr ifi"

definition newPDMessage ::
    "pd_env \<Rightarrow> message_type \<Rightarrow> net_interface \<Rightarrow> duid option \<Rightarrow> iapd_option \<Rightarrow> pd_error + Request" where
  "newPDMessage env mt ifi server iapd =
     (case env_newMessage env mt of
        Some e \<Rightarrow> Err (PDNewMessageFailed mt e)
      | None \<Rightarrow> Ok \<lparr>req_Type = mt, req_ClientID = generateDUID ifi, req_ElapsedTime = 0,
                    req_ServerID = server, req_IAPD = iapd\<rparr>)"

text \<open>\<^verbatim>\<open>net.CIDRMask\<close>: nil outside its range.\<close>

definition CIDRMask :: "int \<Rightarrow> int \<Rightarrow> byte list" where
  "CIDRMask ones bits =
     (if (bits \<noteq> 32 \<and> bits \<noteq> 128) \<or> ones < 0 \<or> ones > bits then []
      else map (\<lambda>i. if 8 * (int i + 1) \<le> ones then 0xFF
                    else if ones \<le> 8 * int i then 0
                    else NOT (drop_bit (nat (ones - 8 * int i)) 0xFF)) [0..<nat (bits div 8)])"

definition iaPDHint :: "DHCPv6PDReceiver \<Rightarrow> byte list \<Rightarrow> OptIAPD" where
  "iaPDHint r iaid =
     \<lparr>iapd_IaId = iaid, iapd_T1 = 0, iapd_T2 = 0, iapd_Status = None,
      iapd_Prefixes = [\<lparr>iap_PreferredLifetime = 0, iap_ValidLifetime = 0,
        iap_Prefix = Some \<lparr>net_IP = replicate 16 0, net_Mask = CIDRMask (pd_requestedPrefixLength r) 128\<rparr>\<rparr>]\<rparr>"

text \<open>\<^verbatim>\<open>Addr.AsSlice\<close>.\<close>

definition AsSlice :: "addr \<Rightarrow> byte list" where
  "AsSlice a = (case a of AddrZero \<Rightarrow> [] | Addr4 w \<Rightarrow> put_uint32 w | Addr6 w z \<Rightarrow> As16 a)"

definition iaPDForLease :: "dhcpv6Lease \<Rightarrow> OptIAPD" where
  "iaPDForLease lease =
     \<lparr>iapd_IaId = IAID lease, iapd_T1 = 0, iapd_T2 = 0, iapd_Status = None,
      iapd_Prefixes = [\<lparr>iap_PreferredLifetime = lease_PreferredLifetime lease,
        iap_ValidLifetime = lease_ValidLifetime lease,
        iap_Prefix = Some \<lparr>net_IP = AsSlice (pfx_ip (lease_Prefix lease)),
                           net_Mask = CIDRMask (Bits (lease_Prefix lease)) 128\<rparr>\<rparr>]\<rparr>"

definition statusSuccess :: nat where "statusSuccess = 0"
definition statusNoBinding :: nat where "statusNoBinding = 3"

definition statusError :: "OptStatusCode option \<Rightarrow> status_error option" where
  "statusError status =
     (case status of
        None \<Rightarrow> None
      | Some s \<Rightarrow>
          if StatusCode s = statusSuccess then None
          else if StatusCode s = statusNoBinding then Some (NoBinding (StatusMessage s))
          else Some (ServerReported (StatusCode s) (StatusMessage s)))"

text \<open>\<^verbatim>\<open>errors.Is(err, errNoBinding)\<close>.\<close>

fun isNoBinding :: "pd_error \<Rightarrow> bool" where
  "isNoBinding (PDAdvertiseRefused (NoBinding _)) = True"
| "isNoBinding (PDReplyRefused (NoBinding _)) = True"
| "isNoBinding (PDIAPDRefused (NoBinding _)) = True"
| "isNoBinding _ = False"

subsection \<open>Reading a reply\<close>

text \<open>\<^verbatim>\<open>netip.AddrFromSlice\<close>.\<close>

definition AddrFromSlice :: "byte list \<Rightarrow> addr option" where
  "AddrFromSlice bs =
     (if length bs = 4 then Some (Addr4 (foldl (\<lambda>w b. push_bit 8 w OR ucast b) 0 bs))
      else if length bs = 16 then Some (AddrFrom16 bs) else None)"

text \<open>\<^verbatim>\<open>net.IPMask.Size\<close>: leading ones and total bits, (0, 0) for a mask with a gap.\<close>

fun byte_ones :: "nat \<Rightarrow> byte \<Rightarrow> nat \<times> byte" where
  "byte_ones 0 v = (0, v)"
| "byte_ones (Suc k) v =
     (if v AND 0x80 \<noteq> 0 then (case byte_ones k (push_bit 1 v) of (n, w) \<Rightarrow> (Suc n, w)) else (0, v))"

fun simpleMaskLength :: "byte list \<Rightarrow> nat option" where
  "simpleMaskLength [] = Some 0"
| "simpleMaskLength (v # vs) =
     (if v = 0xFF then map_option ((+) 8) (simpleMaskLength vs)
      else case byte_ones 8 v of (n, w) \<Rightarrow>
        if w \<noteq> 0 \<or> list_ex (\<lambda>x. x \<noteq> 0) vs then None else Some n)"

definition mask_Size :: "byte list \<Rightarrow> int \<times> int" where
  "mask_Size m = (case simpleMaskLength m of None \<Rightarrow> (0, 0) | Some n \<Rightarrow> (int n, int (length m) * 8))"

fun find_iapd :: "byte list \<Rightarrow> iapd_option list \<Rightarrow> OptIAPD option" where
  "find_iapd iaid [] = None"
| "find_iapd iaid (GenericIAPD # os) = find_iapd iaid os"
| "find_iapd iaid (TypedIAPD pd # os) = (if iapd_IaId pd = iaid then Some pd else find_iapd iaid os)"

definition lease_times :: "duration \<Rightarrow> duration \<Rightarrow> duration \<Rightarrow> duration \<times> duration" where
  "lease_times t1 t2 valid =
     (if t1 = 0 then go_div valid 2 else t1,
      if t2 = 0 then go_div (wrap64 (valid * 4)) 5 else t2)"

text \<open>The checks that come before the receiver's state changes.\<close>

definition readIAPDReply ::
    "Policy \<Rightarrow> Message \<Rightarrow> byte list \<Rightarrow> pd_error + (OptIAPD \<times> OptIAPrefix \<times> ipprefix)" where
  "readIAPDReply policy reply expectedIAID =
     (case statusError (msg_Status reply) of
        Some e \<Rightarrow> Err (PDReplyRefused e)
      | None \<Rightarrow>
     (case find_iapd expectedIAID (msg_IAPDs reply) of
        None \<Rightarrow> Err PDReplyWithoutIAPD
      | Some iaPD \<Rightarrow>
     (case statusError (iapd_Status iaPD) of
        Some e \<Rightarrow> Err (PDIAPDRefused e)
      | None \<Rightarrow>
      if length (iapd_Prefixes iaPD) = 0 then Err PDWithoutPrefixes
      else case List.find (\<lambda>p. iap_ValidLifetime p > 0 \<and> iap_Prefix p \<noteq> None) (iapd_Prefixes iaPD) of
        None \<Rightarrow> Err PDWithoutValidPrefix
      | Some best \<Rightarrow>
     (case AddrFromSlice (net_IP (the (iap_Prefix best))) of
        None \<Rightarrow> Err PDInvalidAddress
      | Some a \<Rightarrow>
     (case mask_Size (net_Mask (the (iap_Prefix best))) of (ones, bits) \<Rightarrow>
      if bits \<noteq> 128 \<or> ones = 0 then Err PDInvalidLength
      else let prefix = Masked (PrefixFrom a ones) in
      case Policy_Validate policy prefix of
        Some e \<Rightarrow> Err (PDRejectedByPolicy e)
      | None \<Rightarrow> Ok (iaPD, best, prefix))))))"

definition processIAPDReply ::
    "instant \<Rightarrow> Message \<Rightarrow> byte list \<Rightarrow> duid \<Rightarrow> DHCPv6PDReceiver \<Rightarrow> pd_error option \<times> DHCPv6PDReceiver" where
  "processIAPDReply now reply expectedIAID serverID r =
     (case readIAPDReply (pd_policy r) reply expectedIAID of
        Inl e \<Rightarrow> (Some e, r)
      | Inr (iaPD, best, prefix) \<Rightarrow>
          let (t1, t2) = lease_times (iapd_T1 iaPD) (iapd_T2 iaPD) (iap_ValidLifetime best);
              newLease = \<lparr>IAID = expectedIAID, lease_Prefix = prefix, T1 = t1, T2 = t2,
                          lease_ValidLifetime = iap_ValidLifetime best,
                          lease_PreferredLifetime = iap_PreferredLifetime best,
                          lease_ReceivedAt = now, ServerID = serverID\<rparr>;
              newPrefix = \<lparr>Network = prefix, ValidLifetime = iap_ValidLifetime best,
                           PreferredLifetime = iap_PreferredLifetime best,
                           prefix_Source = SourceDHCPv6PD, ReceivedAt = now\<rparr>;
              eventType = (case pd_currentPrefix r of
                             None \<Rightarrow> EventTypeAcquired
                           | Some old \<Rightarrow> if Network old \<noteq> prefix then EventTypeChanged else EventTypeRenewed)
          in (None, pd_sendEvent eventType (Some newPrefix)
                      (r\<lparr>pd_currentPrefix := Some newPrefix, pd_lease := Some newLease,
                         pd_health := recordSuccess (pd_health r)\<rparr>)))"

subsection \<open>Acquisition, renewal and rebinding\<close>

text \<open>The sending halves: what is asked, and the reply that is left to process.\<close>

type_synonym pending = "Message \<times> byte list \<times> duid"

definition send :: "pd_env \<Rightarrow> Request \<Rightarrow> message_type \<Rightarrow> pd_error + Message" where
  "send env req answer =
     (case env_sendAndRead env req of Inl e \<Rightarrow> Err (PDNoAnswer answer e) | Inr m \<Rightarrow> Ok m)"

definition acquireExchange :: "pd_env \<Rightarrow> DHCPv6PDReceiver \<Rightarrow> pd_error + pending" where
  "acquireExchange env r =
     (case openClient env r of Inl e \<Rightarrow> Err e | Inr ifi \<Rightarrow>
     (case iaidForInterface ifi of Inl e \<Rightarrow> Err e | Inr iaid \<Rightarrow>
     (case newPDMessage env MsgSolicit ifi None (TypedIAPD (iaPDHint r iaid)) of Inl e \<Rightarrow> Err e | Inr solicit \<Rightarrow>
     (case send env solicit MsgAdvertise of Inl e \<Rightarrow> Err e | Inr advertise \<Rightarrow>
     (case msg_IAPDs advertise of [] \<Rightarrow> Err PDAdvertiseWithoutIAPD | advIAPD # _ \<Rightarrow>
     (case (case advIAPD of TypedIAPD pd \<Rightarrow> statusError (iapd_Status pd) | GenericIAPD \<Rightarrow> None) of
        Some e \<Rightarrow> Err (PDAdvertiseRefused e) | None \<Rightarrow>
     (case msg_ServerID advertise of None \<Rightarrow> Err PDAdvertiseWithoutServerID | Some serverID \<Rightarrow>
     (case newPDMessage env MsgRequest ifi (Some serverID) advIAPD of Inl e \<Rightarrow> Err e | Inr request \<Rightarrow>
     (case send env request MsgReply of Inl e \<Rightarrow> Err e | Inr reply \<Rightarrow>
        Ok (reply, iaid, serverID))))))))))"

definition renewExchange :: "pd_env \<Rightarrow> DHCPv6PDReceiver \<Rightarrow> pd_error + pending" where
  "renewExchange env r =
     (case pd_lease r of None \<Rightarrow> Err PDNoLeaseToRenew | Some lease \<Rightarrow>
     (case openClient env r of Inl e \<Rightarrow> Err e | Inr ifi \<Rightarrow>
     (case newPDMessage env MsgRenew ifi (Some (ServerID lease)) (TypedIAPD (iaPDForLease lease)) of
        Inl e \<Rightarrow> Err e | Inr renew \<Rightarrow>
     (case send env renew MsgReply of Inl e \<Rightarrow> Err e | Inr reply \<Rightarrow>
        Ok (reply, IAID lease, ServerID lease)))))"

definition rebindExchange :: "pd_env \<Rightarrow> DHCPv6PDReceiver \<Rightarrow> pd_error + pending" where
  "rebindExchange env r =
     (case pd_lease r of None \<Rightarrow> Err PDNoLeaseToRebind | Some lease \<Rightarrow>
     (case openClient env r of Inl e \<Rightarrow> Err e | Inr ifi \<Rightarrow>
     (case newPDMessage env MsgRebind ifi None (TypedIAPD (iaPDForLease lease)) of
        Inl e \<Rightarrow> Err e | Inr rebind \<Rightarrow>
     (case send env rebind MsgReply of Inl e \<Rightarrow> Err e | Inr reply \<Rightarrow>
     (case msg_ServerID reply of None \<Rightarrow> Err PDReplyWithoutServerID | Some serverID \<Rightarrow>
        Ok (reply, IAID lease, serverID))))))"

definition finish_exchange ::
    "instant \<Rightarrow> pd_error + pending \<Rightarrow> DHCPv6PDReceiver \<Rightarrow> pd_error option \<times> DHCPv6PDReceiver" where
  "finish_exchange now x r =
     (case x of Inl e \<Rightarrow> (Some e, r)
      | Inr (reply, iaid, serverID) \<Rightarrow> processIAPDReply now reply iaid serverID r)"

definition acquirePrefix :: "pd_env \<Rightarrow> DHCPv6PDReceiver \<Rightarrow> pd_error option \<times> DHCPv6PDReceiver" where
  "acquirePrefix env r = finish_exchange (env_now env) (acquireExchange env r) r"

definition renewPrefix :: "pd_env \<Rightarrow> DHCPv6PDReceiver \<Rightarrow> pd_error option \<times> DHCPv6PDReceiver" where
  "renewPrefix env r = finish_exchange (env_now env) (renewExchange env r) r"

definition rebindPrefix :: "pd_env \<Rightarrow> DHCPv6PDReceiver \<Rightarrow> pd_error option \<times> DHCPv6PDReceiver" where
  "rebindPrefix env r = finish_exchange (env_now env) (rebindExchange env r) r"

subsection \<open>The loop\<close>

text \<open>
  Control points of \<^verbatim>\<open>runLoop\<close>.  A pending point holds what its exchange left to process; the
  renewal points keep the elapsed time and the lease read at the head of the turn.
\<close>

datatype pd_pc =
    PCInitial
  | PCInitialReply "pd_error + pending"
  | PCTop
  | PCBackoff duration
  | PCAcquire
  | PCAcquireReply "pd_error + pending"
  | PCRenew duration dhcpv6Lease
  | PCRenewReply duration dhcpv6Lease "pd_error + pending"
  | PCRebind
  | PCRebindReply "pd_error + pending"
  | PCRenewWait
  | PCSleep duration

record pd_loop =
  pdl_gen :: nat
  pdl_backoff :: acquireBackoff
  pdl_pc :: pd_pc

text \<open>\<^verbatim>\<open>time.Time.Sub\<close> saturates at the ends of the duration range.\<close>

definition time_Sub :: "instant \<Rightarrow> instant \<Rightarrow> duration" where
  "time_Sub a b = max (- (2 ^ 63)) (min (2 ^ 63 - 1) (a - b))"

definition new_pd_loop :: "DHCPv6PDReceiver \<Rightarrow> pd_loop" where
  "new_pd_loop r =
     \<lparr>pdl_gen = pd_stopCh r,
      pdl_backoff = newAcquireBackoff (pd_acquireBackoffMin r) (pd_acquireBackoffMax r),
      pdl_pc = PCInitial\<rparr>"

abbreviation goto :: "pd_pc \<Rightarrow> pd_loop \<Rightarrow> pd_loop" where
  "goto pc l \<equiv> l\<lparr>pdl_pc := pc\<rparr>"

text \<open>
  The head of a turn: without a lease the backoff wait; with one, renewal from T1 on and sleep,
  at most a minute at a time, before it.
\<close>

definition runLoop_top :: "pd_env \<Rightarrow> (int \<Rightarrow> int) \<Rightarrow> pd_loop \<Rightarrow> DHCPv6PDReceiver \<Rightarrow> pd_loop" where
  "runLoop_top env rnd l r =
     (case pd_lease r of
        None \<Rightarrow> goto (PCBackoff (bo_wait rnd (pdl_backoff l))) l
      | Some lease \<Rightarrow>
          let elapsed = time_Sub (env_now env) (lease_ReceivedAt lease) in
          if elapsed \<ge> T1 lease then goto (PCRenew elapsed lease) l
          else let sleepDuration = wrap64 (T1 lease - elapsed) in
            goto (PCSleep (if sleepDuration > minute then minute else sleepDuration)) l)"

definition runLoop_acquired ::
    "(pd_error \<Rightarrow> recv_error) \<Rightarrow> bool \<Rightarrow> pd_error option \<times> DHCPv6PDReceiver \<Rightarrow> pd_loop \<Rightarrow> pd_loop \<times> DHCPv6PDReceiver" where
  "runLoop_acquired wrap initial res l =
     (case res of
        (Some e, r) \<Rightarrow> (goto PCTop (l\<lparr>pdl_backoff := bo_failed (pdl_backoff l)\<rparr>), pd_sendError (wrap e) r)
      | (None, r) \<Rightarrow> (goto PCTop (if initial then l else l\<lparr>pdl_backoff := bo_succeeded (pdl_backoff l)\<rparr>), r))"

definition runLoop_renewed ::
    "duration \<Rightarrow> dhcpv6Lease \<Rightarrow> pd_error option \<times> DHCPv6PDReceiver \<Rightarrow> pd_loop \<Rightarrow> pd_loop \<times> DHCPv6PDReceiver" where
  "runLoop_renewed elapsed lease res l =
     (case res of
        (None, r) \<Rightarrow> (goto PCTop l, r)
      | (Some e, r) \<Rightarrow>
          let r' = pd_sendError (PDRenewalFailed e) r in
          if isNoBinding e then (goto PCTop l, dropLease r')
          else if elapsed \<ge> T2 lease then (goto PCRebind l, r')
          else (goto PCRenewWait l, r'))"

definition runLoop_rebound ::
    "pd_error option \<times> DHCPv6PDReceiver \<Rightarrow> pd_loop \<Rightarrow> pd_loop \<times> DHCPv6PDReceiver" where
  "runLoop_rebound res l =
     (case res of
        (None, r) \<Rightarrow> (goto PCTop l, r)
      | (Some e, r) \<Rightarrow> (goto PCTop l, dropLease (pd_sendError (PDRebindFailed e) r)))"

text \<open>
  One move of the loop.  \<open>stopped\<close> says that the stop channel or the context has fired: the head of
  the turn then leaves; a wait leaves when it sees that before its timer does.
\<close>

definition runLoop_step ::
    "pd_env \<Rightarrow> (int \<Rightarrow> int) \<Rightarrow> bool \<Rightarrow> pd_loop \<Rightarrow> DHCPv6PDReceiver \<Rightarrow> pd_loop option \<times> DHCPv6PDReceiver" where
  "runLoop_step env rnd stopped l r =
     (case pdl_pc l of
        PCInitial \<Rightarrow> (Some (goto (PCInitialReply (acquireExchange env r)) l), r)
      | PCInitialReply x \<Rightarrow>
          map_prod Some id (runLoop_acquired PDInitialAcquisitionFailed True (finish_exchange (env_now env) x r) l)
      | PCTop \<Rightarrow> if stopped then (None, r) else (Some (runLoop_top env rnd l r), r)
      | PCBackoff d \<Rightarrow> if stopped then (None, r) else (Some (goto PCAcquire l), r)
      | PCAcquire \<Rightarrow> (Some (goto (PCAcquireReply (acquireExchange env r)) l), r)
      | PCAcquireReply x \<Rightarrow>
          map_prod Some id (runLoop_acquired PDAcquisitionFailed False (finish_exchange (env_now env) x r) l)
      | PCRenew elapsed lease \<Rightarrow> (Some (goto (PCRenewReply elapsed lease (renewExchange env r)) l), r)
      | PCRenewReply elapsed lease x \<Rightarrow>
          map_prod Some id (runLoop_renewed elapsed lease (finish_exchange (env_now env) x r) l)
      | PCRebind \<Rightarrow> (Some (goto (PCRebindReply (rebindExchange env r)) l), r)
      | PCRebindReply x \<Rightarrow> map_prod Some id (runLoop_rebound (finish_exchange (env_now env) x r) l)
      | PCRenewWait \<Rightarrow> if stopped then (None, r) else (Some (goto PCTop l), r)
      | PCSleep d \<Rightarrow> if stopped then (None, r) else (Some (goto PCTop l), r))"

record pd_sys =
  psys_pd :: DHCPv6PDReceiver
  psys_loops :: "pd_loop list"

definition pd_gen_stopped :: "bool \<Rightarrow> nat \<Rightarrow> DHCPv6PDReceiver \<Rightarrow> bool" where
  "pd_gen_stopped parentDone g r \<longleftrightarrow> g \<in> set (pd_closed r) \<or> parentDone"

inductive pd_step :: "pd_sys \<Rightarrow> pd_sys \<Rightarrow> bool" where
  pd_start: "\<not> pd_started (psys_pd s) \<Longrightarrow> PD_Start (psys_pd s) = (None, r') \<Longrightarrow>
     pd_step s \<lparr>psys_pd = r', psys_loops = new_pd_loop r' # psys_loops s\<rparr>"
| pd_stop: "PD_Stop (psys_pd s) = Some (err, r') \<Longrightarrow> pd_step s (s\<lparr>psys_pd := r'\<rparr>)"
| pd_move:
    "psys_loops s = ls @ l # ms \<Longrightarrow>
     (stopped \<longrightarrow> pd_gen_stopped parentDone (pdl_gen l) (psys_pd s)) \<Longrightarrow>
     (pdl_pc l = PCTop \<longrightarrow> pd_gen_stopped parentDone (pdl_gen l) (psys_pd s) \<longrightarrow> stopped) \<Longrightarrow>
     runLoop_step env rnd stopped l (psys_pd s) = (l', r') \<Longrightarrow>
     pd_step s \<lparr>psys_pd = r', psys_loops = ls @ (case l' of None \<Rightarrow> [] | Some m \<Rightarrow> [m]) @ ms\<rparr>"
| pd_taken: "pd_events (psys_pd s) = ev # evs \<Longrightarrow>
     pd_step s (s\<lparr>psys_pd := (psys_pd s)\<lparr>pd_events := evs\<rparr>\<rparr>)"

definition pd_initial :: "string \<Rightarrow> int \<Rightarrow> Policy \<Rightarrow> pd_sys" where
  "pd_initial iface len policy = \<lparr>psys_pd = NewDHCPv6PDReceiverWithPolicy iface len policy, psys_loops = []\<rparr>"

subsection \<open>Pacing: the delays\<close>

lemma nextBackoff_min:
  assumes "0 < c" "0 \<le> m" "m < 2 ^ 63"
  shows "nextBackoff c m = min (2 * c) m"
proof (cases "c \<ge> m \<or> c > m div 2")
  case True
  then have "m \<le> 2 * c"
    using assms by auto
  then show ?thesis
    using True assms by (simp add: nextBackoff_def min_def)
next
  case False
  then have "2 * c \<le> m"
    by linarith
  moreover from this have "in_int64 (2 * c)"
    using assms by (simp add: in_int64_def)
  then have "wrap64 (c * 2) = 2 * c"
    by (simp add: wrap64_id mult.commute)
  ultimately show ?thesis
    using False assms by (simp add: nextBackoff_def)
qed

text \<open>
  C34: The pause before an acquisition doubles with every failure and never passes its ceiling:
  after \<open>n\<close> failures it is the least of the ceiling and \<open>2^n\<close> times the first pause, for every ceiling
  a duration can hold, so no doubling wraps into a negative delay; a success returns to the first.
\<close>

theorem acquire_backoff_doubles_to_ceiling:
  assumes "0 < lo" and "lo \<le> hi" and "hi < 2 ^ 63"
  shows "bo_current ((bo_failed ^^ n) (newAcquireBackoff lo hi)) = min (2 ^ n * lo) hi \<and>
     bo_current (bo_succeeded ((bo_failed ^^ n) (newAcquireBackoff lo hi))) = lo"
proof -
  have "(bo_failed ^^ n) (newAcquireBackoff lo hi) = \<lparr>bo_min = lo, bo_max = hi, bo_cur = min (2 ^ n * lo) hi\<rparr>"
  proof (induction n)
    case 0
    then show ?case
      using assms by (simp add: newAcquireBackoff_def)
  next
    case (Suc n)
    have pos: "0 < min (2 ^ n * lo) hi"
      using assms by simp
    show ?case
      using Suc nextBackoff_min [OF pos, of hi] assms by (simp add: bo_failed_def min_def)
  qed
  then show ?thesis
    by (simp add: bo_current_def bo_succeeded_def)
qed

theorem acquire_backoff_doubles_to_ceiling_witness:
  "bo_current ((bo_failed ^^ 3) (newAcquireBackoff defaultInitialAcquireBackoff defaultAcquireBackoffMax)) = 80 * second \<and>
   bo_current ((bo_failed ^^ 9) (newAcquireBackoff defaultInitialAcquireBackoff defaultAcquireBackoffMax)) = 300 * second"
  using acquire_backoff_doubles_to_ceiling [of defaultInitialAcquireBackoff defaultAcquireBackoffMax 3]
    acquire_backoff_doubles_to_ceiling [of defaultInitialAcquireBackoff defaultAcquireBackoffMax 9]
  by (simp add: defaultInitialAcquireBackoff_def defaultAcquireBackoffMax_def second_def minute_def)

text \<open>
  Jitter moves a delay by at most a fifth either way, whatever the generator draws, and never
  makes a positive delay negative.
\<close>

theorem jitter_within_a_fifth:
  assumes "0 < d" and "d < 2 ^ 62" and "\<And>n. 0 < n \<Longrightarrow> 0 \<le> rnd n \<and> rnd n < n"
  shows "5 * \<bar>jittered rnd d - d\<bar> \<le> d \<and> 0 < jittered rnd d"
proof (cases "d div 5 = 0")
  case True
  then show ?thesis
    using assms by (simp add: jittered_def)
next
  case False
  let ?s = "d div 5"
  have s: "0 < ?s" "5 * ?s \<le> d"
    using False assms(1) by auto
  have w: "wrap64 (2 * ?s + 1) = 2 * ?s + 1"
    using assms(2) s by (intro wrap64_id) (simp add: in_int64_def)
  have r: "0 \<le> rnd (2 * ?s + 1)" "rnd (2 * ?s + 1) \<le> 2 * ?s"
    using assms(3) [of "2 * ?s + 1"] s(1) by auto
  have "wrap64 (d + (rnd (2 * ?s + 1) - ?s)) = d + (rnd (2 * ?s + 1) - ?s)"
    using r assms(1,2) s by (intro wrap64_id) (simp add: in_int64_def)
  then have "jittered rnd d = d + (rnd (2 * ?s + 1) - ?s)"
    using False assms(1) by (simp add: jittered_def Let_def w)
  moreover have "5 * \<bar>(d + (q - s)) - d\<bar> \<le> d \<and> 0 < d + (q - s)"
    if "0 \<le> q" "q \<le> 2 * s" "0 < s" "5 * s \<le> d" for q s :: int
    using that by (auto simp: abs_if)
  ultimately show ?thesis
    using r s by simp
qed

theorem jitter_within_a_fifth_witness:
  "5 * \<bar>jittered (\<lambda>n. n - 1) (10 * second) - 10 * second\<bar> \<le> 10 * second"
  using jitter_within_a_fifth [of "10 * second" "\<lambda>n. n - 1"] by (simp add: second_def)

subsection \<open>Default renewal times\<close>

text \<open>
  When the server leaves T1 and T2 open, the defaults are ordered, half and four fifths of the
  valid lifetime, for lifetimes up to 2305843009 seconds; from 2305843010 seconds on the product
  behind T2 leaves the 64-bit range, and an infinite lifetime gives a T2 in the past, so that the
  first failed renewal already counts as past T2.
\<close>

theorem default_renewal_times:
  "(\<forall>v. 0 < v \<and> v \<le> 2305843009 * second \<longrightarrow>
      (case lease_times 0 0 v of (t1, t2) \<Rightarrow> t1 = v div 2 \<and> t2 = 4 * v div 5 \<and> t1 \<le> t2 \<and> t2 \<le> v)) \<and>
   snd (lease_times 0 0 (2305843010 * second)) < 0 \<and>
   snd (lease_times 0 0 (4294967295 * second)) < 0"
proof (intro conjI allI impI)
  fix v :: duration
  assume v: "0 < v \<and> v \<le> 2305843009 * second"
  then have "wrap64 (v * 4) = 4 * v"
    by (subst wrap64_id) (simp_all add: in_int64_def second_def)
  then show "case lease_times 0 0 v of (t1, t2) \<Rightarrow> t1 = v div 2 \<and> t2 = 4 * v div 5 \<and> t1 \<le> t2 \<and> t2 \<le> v"
    using v by (simp add: lease_times_def) arith
qed (simp_all add: lease_times_def wrap64_def second_def go_div_def)

theorem default_renewal_times_witness:
  "lease_times 0 0 (3600 * second) = (1800 * second, 2880 * second)"
  using default_renewal_times [THEN conjunct1, rule_format, of "3600 * second"]
  by (simp add: second_def split: prod.splits)

subsection \<open>What a reply installs\<close>

lemma find_iapd_SomeD: "find_iapd iaid os = Some pd \<Longrightarrow> iapd_IaId pd = iaid \<and> TypedIAPD pd \<in> set os"
  by (induction iaid os rule: find_iapd.induct) (auto split: if_splits)

lemma readIAPDReply_OkD:
  assumes "readIAPDReply pol reply iaid = Ok (pd, best, prefix)"
  shows "statusError (msg_Status reply) = None" "TypedIAPD pd \<in> set (msg_IAPDs reply)" "iapd_IaId pd = iaid"
    "statusError (iapd_Status pd) = None" "best \<in> set (iapd_Prefixes pd)" "iap_ValidLifetime best > 0"
    "wf_prefix prefix" "Masked prefix = prefix" "Policy_Validate pol prefix = None"
  using assms
  by (auto simp: readIAPDReply_def Let_def find_Some_iff
      dest: find_iapd_SomeD split: option.splits if_splits prod.splits)

lemma readIAPDReply_prefixD:
  assumes "readIAPDReply pol reply iaid = Ok (pd, best, prefix)"
  shows "\<exists>net a ones. iap_Prefix best = Some net \<and> AddrFromSlice (net_IP net) = Some a \<and>
     mask_Size (net_Mask net) = (ones, 128) \<and> ones \<noteq> 0 \<and> prefix = Masked (PrefixFrom a ones)"
  using assms
  by (auto simp: readIAPDReply_def Let_def find_Some_iff
      split: option.splits if_splits prod.splits)

lemma processIAPDReply_Ok:
  assumes "readIAPDReply (pd_policy r) reply iaid = Ok (pd, best, prefix)"
  shows "fst (processIAPDReply now reply iaid sid r) = None"
    "pd_currentPrefix (snd (processIAPDReply now reply iaid sid r)) =
       Some \<lparr>Network = prefix, ValidLifetime = iap_ValidLifetime best,
             PreferredLifetime = iap_PreferredLifetime best, prefix_Source = SourceDHCPv6PD, ReceivedAt = now\<rparr>"
    "pd_lease (snd (processIAPDReply now reply iaid sid r)) =
       Some \<lparr>IAID = iaid, lease_Prefix = prefix,
             T1 = fst (lease_times (iapd_T1 pd) (iapd_T2 pd) (iap_ValidLifetime best)),
             T2 = snd (lease_times (iapd_T1 pd) (iapd_T2 pd) (iap_ValidLifetime best)),
             lease_ValidLifetime = iap_ValidLifetime best,
             lease_PreferredLifetime = iap_PreferredLifetime best, lease_ReceivedAt = now, ServerID = sid\<rparr>"
    "pd_health (snd (processIAPDReply now reply iaid sid r)) = None"
  using assms by (simp_all add: processIAPDReply_def Let_def pd_sendEvent_def recordSuccess_def split_beta)

definition pd_lease_ok :: "Policy \<Rightarrow> Prefix \<Rightarrow> bool" where
  "pd_lease_ok pol p \<longleftrightarrow>
     wf_prefix (Network p) \<and> Masked (Network p) = Network p \<and> Policy_Validate pol (Network p) = None \<and>
     prefix_Source p = SourceDHCPv6PD \<and> ValidLifetime p > 0"

text \<open>The prefix that is served and the lease that is renewed are two views of one delegation.\<close>

definition same_delegation :: "Prefix option \<Rightarrow> dhcpv6Lease option \<Rightarrow> bool" where
  "same_delegation p l \<longleftrightarrow>
     (case (p, l) of
        (None, None) \<Rightarrow> True
      | (Some p, Some l) \<Rightarrow> Network p = lease_Prefix l \<and> ValidLifetime p = lease_ValidLifetime l \<and>
          PreferredLifetime p = lease_PreferredLifetime l \<and> ReceivedAt p = lease_ReceivedAt l
      | _ \<Rightarrow> False)"

definition pd_leases_ok :: "Policy \<Rightarrow> DHCPv6PDReceiver \<Rightarrow> bool" where
  "pd_leases_ok pol r \<longleftrightarrow>
     pd_policy r = pol \<and> length (pd_events r) \<le> eventCap \<and>
     same_delegation (pd_currentPrefix r) (pd_lease r) \<and>
     (\<forall>p. pd_currentPrefix r = Some p \<longrightarrow> pd_lease_ok pol p) \<and>
     (\<forall>ev \<in> set (pd_events r). \<forall>p. event_Prefix ev = Some p \<longrightarrow> pd_lease_ok pol p)"

definition pd_channels_ok :: "DHCPv6PDReceiver \<Rightarrow> bool" where
  "pd_channels_ok r \<longleftrightarrow>
     pd_stopCh r < pd_nextCh r \<and> (\<forall>c \<in> set (pd_closed r). 0 < c \<and> c < pd_nextCh r) \<and>
     (if pd_started r then 0 < pd_stopCh r \<and> pd_stopCh r \<notin> set (pd_closed r)
      else pd_stopCh r = 0 \<or> pd_stopCh r \<in> set (pd_closed r))"

definition pd_same_run :: "DHCPv6PDReceiver \<Rightarrow> DHCPv6PDReceiver \<Rightarrow> bool" where
  "pd_same_run r r' \<longleftrightarrow>
     pd_stopCh r' = pd_stopCh r \<and> pd_closed r' = pd_closed r \<and> pd_nextCh r' = pd_nextCh r \<and>
     pd_started r' = pd_started r \<and> pd_claim r' = pd_claim r"

lemma pd_same_run_simps [simp]:
  "pd_same_run r r"
  "pd_same_run r (pd_sendEvent t p r') = pd_same_run r r'"
  "pd_same_run r (pd_sendError e r') = pd_same_run r r'"
  "pd_same_run r (dropLease r') = pd_same_run r r'"
  by (simp_all add: pd_same_run_def pd_sendEvent_def pd_sendError_def dropLease_def)

lemma pd_leases_ok_sendError [simp]: "pd_leases_ok pol r \<Longrightarrow> pd_leases_ok pol (pd_sendError e r)"
  by (auto simp: pd_leases_ok_def pd_sendError_def dest!: subsetD [OF set_trySend])

lemma pd_leases_ok_drop [simp]: "pd_leases_ok pol r \<Longrightarrow> pd_leases_ok pol (dropLease r)"
  by (auto simp: pd_leases_ok_def dropLease_def pd_sendEvent_def same_delegation_def
      dest!: subsetD [OF set_trySend])

lemma processIAPDReply_ok:
  assumes "pd_leases_ok pol r" "processIAPDReply now reply iaid sid r = (res, r')"
  shows "pd_leases_ok pol r'" "pd_same_run r r'"
proof -
  have pol: "pd_policy r = pol"
    using assms(1) by (simp add: pd_leases_ok_def)
  show "pd_same_run r r'"
    using assms(2) by (auto simp: processIAPDReply_def pd_same_run_def pd_sendEvent_def Let_def
        split: sum.splits prod.splits)
  show "pd_leases_ok pol r'"
  proof (cases "readIAPDReply pol reply iaid")
    case (Inl e)
    then show ?thesis
      using assms by (simp add: processIAPDReply_def pol)
  next
    case (Inr y)
    then obtain pd best prefix where ok: "readIAPDReply pol reply iaid = Ok (pd, best, prefix)"
      by (cases y) auto
    obtain t1 t2 where t: "lease_times (iapd_T1 pd) (iapd_T2 pd) (iap_ValidLifetime best) = (t1, t2)"
      by fastforce
    have "pd_lease_ok pol \<lparr>Network = prefix, ValidLifetime = iap_ValidLifetime best,
        PreferredLifetime = iap_PreferredLifetime best, prefix_Source = SourceDHCPv6PD, ReceivedAt = now\<rparr>"
      using readIAPDReply_OkD [OF ok] by (simp add: pd_lease_ok_def)
    then show ?thesis
      using assms ok t
      by (auto simp: processIAPDReply_def pol Let_def pd_leases_ok_def pd_sendEvent_def same_delegation_def
          dest!: subsetD [OF set_trySend])
  qed
qed

lemma finish_exchange_ok:
  assumes "pd_leases_ok pol r" "finish_exchange now x r = (res, r')"
  shows "pd_leases_ok pol r'" "pd_same_run r r'"
  using assms by (auto simp: finish_exchange_def dest: processIAPDReply_ok split: sum.splits prod.splits)

lemma runLoop_step_ok:
  assumes "pd_leases_ok pol r" "runLoop_step env rnd stopped l r = (l', r')"
  shows "pd_leases_ok pol r' \<and> pd_same_run r r' \<and> (\<forall>m. l' = Some m \<longrightarrow> pdl_gen m = pdl_gen l)"
proof -
  have fin: "pd_leases_ok pol q \<and> pd_same_run r q" if "finish_exchange (env_now env) x r = (res, q)" for x res q
    using finish_exchange_ok [OF assms(1) that] by simp
  show ?thesis
    using assms
    by (cases "pdl_pc l")
      (auto simp: runLoop_step_def runLoop_top_def runLoop_acquired_def runLoop_renewed_def runLoop_rebound_def Let_def
        dest!: fin split: prod.splits option.splits if_splits)
qed

subsection \<open>The invariant of the running client\<close>

definition pd_gens_ok :: "nat list \<Rightarrow> DHCPv6PDReceiver \<Rightarrow> bool" where
  "pd_gens_ok gs r \<longleftrightarrow> distinct gs \<and>
     (\<forall>g \<in> set gs. 0 < g \<and> g < pd_nextCh r \<and>
        (g \<notin> set (pd_closed r) \<longrightarrow> pd_started r \<and> g = pd_stopCh r))"

definition pd_sys_ok :: "Policy \<Rightarrow> pd_sys \<Rightarrow> bool" where
  "pd_sys_ok pol s \<longleftrightarrow>
     pd_leases_ok pol (psys_pd s) \<and> pd_channels_ok (psys_pd s) \<and>
     pd_gens_ok (map pdl_gen (psys_loops s)) (psys_pd s)"

lemma pd_same_run_channels:
  assumes "pd_same_run r r'"
  shows "pd_channels_ok r' = pd_channels_ok r" "pd_gens_ok gs r' = pd_gens_ok gs r"
  using assms by (auto simp: pd_same_run_def pd_channels_ok_def pd_gens_ok_def)

lemma release_simps [simp]:
  "pd_stopCh (releaseClaimedInterface r) = pd_stopCh r" "pd_closed (releaseClaimedInterface r) = pd_closed r"
  "pd_nextCh (releaseClaimedInterface r) = pd_nextCh r" "pd_started (releaseClaimedInterface r) = pd_started r"
  "pd_currentPrefix (releaseClaimedInterface r) = pd_currentPrefix r"
  "pd_lease (releaseClaimedInterface r) = pd_lease r" "pd_events (releaseClaimedInterface r) = pd_events r"
  "pd_policy (releaseClaimedInterface r) = pd_policy r"
  "pd_claim (releaseClaimedInterface r) \<noteq> Claimed"
  by (auto simp: releaseClaimedInterface_def intro: claim.exhaust)

lemma PD_Start_ok:
  assumes ok: "pd_sys_ok pol s" and n: "\<not> pd_started (psys_pd s)" and st: "PD_Start (psys_pd s) = (None, r')"
  shows "pd_sys_ok pol \<lparr>psys_pd = r', psys_loops = new_pd_loop r' # psys_loops s\<rparr>"
proof -
  let ?r = "psys_pd s"
  have r': "r' = ?r\<lparr>pd_stopCh := pd_nextCh ?r, pd_nextCh := pd_nextCh ?r + 1, pd_started := True\<rparr>"
    using n st by (simp add: PD_Start_def)
  have below: "\<forall>g \<in> set (pd_closed ?r). 0 < g \<and> g < pd_nextCh ?r" "0 < pd_nextCh ?r"
    using ok by (auto simp: pd_sys_ok_def pd_channels_ok_def)
  have closed: "g \<in> set (pd_closed ?r)" if "g \<in> set (map pdl_gen (psys_loops s))" for g
    using ok n that by (auto simp: pd_sys_ok_def pd_gens_ok_def)
  have "pd_channels_ok r'" "pd_leases_ok pol r'"
    using ok below by (auto simp: r' pd_sys_ok_def pd_channels_ok_def pd_leases_ok_def)
  moreover have "pd_gens_ok (pd_nextCh ?r # map pdl_gen (psys_loops s)) r'"
    using ok below closed unfolding pd_sys_ok_def pd_gens_ok_def r' by fastforce
  ultimately show ?thesis
    by (simp add: pd_sys_ok_def new_pd_loop_def r')
qed

lemma PD_Stop_ok:
  assumes "pd_sys_ok pol s" "PD_Stop (psys_pd s) = Some (err, r')"
  shows "pd_sys_ok pol (s\<lparr>psys_pd := r'\<rparr>)"
proof -
  have "pd_leases_ok pol r'" "pd_channels_ok r'"
    using assms
    by (auto simp: PD_Stop_def Let_def pd_sys_ok_def pd_leases_ok_def pd_channels_ok_def split: if_splits)
  moreover have "pd_gens_ok gs r'" if "pd_gens_ok gs (psys_pd s)" for gs
    using assms(2) that by (auto simp: PD_Stop_def Let_def pd_gens_ok_def split: if_splits)
  ultimately show ?thesis
    using assms(1) by (simp add: pd_sys_ok_def)
qed

lemma pd_gens_ok_drop: "pd_gens_ok (gs @ g # hs) r \<Longrightarrow> pd_gens_ok (gs @ hs) r"
  unfolding pd_gens_ok_def by simp

lemma pd_move_ok:
  assumes ok: "pd_sys_ok pol s" and ls: "psys_loops s = ls @ l # ms"
    and st: "runLoop_step env rnd stopped l (psys_pd s) = (l', r')"
  shows "pd_sys_ok pol \<lparr>psys_pd = r', psys_loops = ls @ (case l' of None \<Rightarrow> [] | Some m \<Rightarrow> [m]) @ ms\<rparr>"
proof -
  have s: "pd_leases_ok pol r'" "pd_same_run (psys_pd s) r'" "\<forall>m. l' = Some m \<longrightarrow> pdl_gen m = pdl_gen l"
    using runLoop_step_ok [OF _ st] ok by (auto simp: pd_sys_ok_def)
  have g: "pd_gens_ok (map pdl_gen ls @ pdl_gen l # map pdl_gen ms) (psys_pd s)"
    using ok ls by (simp add: pd_sys_ok_def)
  have "pd_gens_ok (map pdl_gen (ls @ (case l' of None \<Rightarrow> [] | Some m \<Rightarrow> [m]) @ ms)) (psys_pd s)"
  proof (cases l')
    case (Some m)
    then have "pdl_gen m = pdl_gen l"
      using s(3) by blast
    then show ?thesis
      using g Some by simp
  qed (use pd_gens_ok_drop [OF g] in simp)
  then show ?thesis
    using ok s(1) pd_same_run_channels [OF s(2)] by (simp add: pd_sys_ok_def)
qed

lemma pd_step_ok:
  assumes "pd_sys_ok pol s" "pd_step s s'"
  shows "pd_sys_ok pol s'"
  using assms(2)
proof cases
  case (pd_start r')
  then show ?thesis
    using PD_Start_ok [OF assms(1)] by simp
next
  case (pd_stop err r')
  then show ?thesis
    using PD_Stop_ok [OF assms(1)] by simp
next
  case (pd_move ls l ms stopped pd env rnd l' r')
  then show ?thesis
    using pd_move_ok [OF assms(1) pd_move(2,5)] by simp
next
  case (pd_taken ev evs)
  have "pd_same_run (psys_pd s) ((psys_pd s)\<lparr>pd_events := evs\<rparr>)"
    by (simp add: pd_same_run_def)
  moreover have "pd_leases_ok pol ((psys_pd s)\<lparr>pd_events := evs\<rparr>)"
    using assms(1) pd_taken by (simp add: pd_sys_ok_def pd_leases_ok_def)
  ultimately show ?thesis
    using assms(1) pd_taken pd_same_run_channels by (simp add: pd_sys_ok_def)
qed

lemma pd_initial_ok: "pd_sys_ok pol (pd_initial iface len pol)"
  by (simp add: pd_sys_ok_def pd_initial_def NewDHCPv6PDReceiverWithPolicy_def pd_leases_ok_def
      pd_channels_ok_def pd_gens_ok_def same_delegation_def)

interpretation pd: transition_invariant
  "\<lambda>s. \<exists>iface len. s = pd_initial iface len pol" pd_step "pd_sys_ok pol" for pol
  by unfold_locales (auto intro: pd_initial_ok pd_step_ok)

text \<open>
  C11: In every interleaving of calls, loop generations and server answers, the delegated prefix a
  receiver serves is the one of the lease it renews, has passed the acceptance policy and has a
  positive valid lifetime; the event channel is bounded, at most one generation of the loop has
  an open stop channel, and Stop never closes a channel twice.
\<close>

theorem pd_receiver_invariant:
  assumes "pd_step\<^sup>*\<^sup>* (pd_initial iface len pol) s"
  shows "same_delegation (PD_CurrentPrefix (psys_pd s)) (pd_lease (psys_pd s)) \<and>
     (\<forall>p. PD_CurrentPrefix (psys_pd s) = Some p \<longrightarrow> pd_lease_ok pol p) \<and>
     length (pd_events (psys_pd s)) \<le> 10 \<and>
     distinct (map pdl_gen (psys_loops s)) \<and>
     (\<forall>l \<in> set (psys_loops s). pdl_gen l \<notin> set (pd_closed (psys_pd s)) \<longrightarrow>
        pdl_gen l = pd_stopCh (psys_pd s)) \<and>
     PD_Stop (psys_pd s) \<noteq> None"
proof -
  have ok: "pd_sys_ok pol s"
    using assms by (intro pd.reachable_inv) blast+
  then have "PD_Stop (psys_pd s) \<noteq> None"
    by (simp add: pd_sys_ok_def PD_Stop_def Let_def pd_channels_ok_def)
  moreover have "\<forall>l \<in> set (psys_loops s). pdl_gen l \<notin> set (pd_closed (psys_pd s)) \<longrightarrow>
      pdl_gen l = pd_stopCh (psys_pd s)" "distinct (map pdl_gen (psys_loops s))"
    using ok by (simp_all add: pd_sys_ok_def pd_gens_ok_def)
  ultimately show ?thesis
    using ok by (simp add: pd_sys_ok_def pd_leases_ok_def PD_CurrentPrefix_def eventCap_def)
qed

text \<open>A server that delegates 2001:db8:1::/56, sent with a host bit set.\<close>

definition pd_sample_iapd :: OptIAPD where
  "pd_sample_iapd =
     \<lparr>iapd_IaId = [0, 0, 0, 2], iapd_T1 = 0, iapd_T2 = 0, iapd_Status = None,
      iapd_Prefixes = [\<lparr>iap_PreferredLifetime = 1800 * second, iap_ValidLifetime = 3600 * second,
        iap_Prefix = Some \<lparr>net_IP = [0x20, 0x01, 0x0D, 0xB8, 0, 1, 0, 0, 0, 0, 0, 0, 0, 0, 0, 1],
                           net_Mask = replicate 7 0xFF @ replicate 9 0\<rparr>\<rparr>]\<rparr>"

definition pd_sample_message :: Message where
  "pd_sample_message = \<lparr>msg_Status = None, msg_IAPDs = [TypedIAPD pd_sample_iapd], msg_ServerID = Some [7]\<rparr>"

definition pd_sample_env :: pd_env where
  "pd_sample_env =
     \<lparr>env_lookupInterface = Ok \<lparr>if_Name = ''eth0'', if_Index = 2, if_HardwareAddr = [1, 2, 3, 4, 5, 6]\<rparr>,
      env_dial = None, env_newMessage = (\<lambda>_. None), env_sendAndRead = (\<lambda>_. Ok pd_sample_message),
      env_now = 5\<rparr>"

definition pd_sample_prefix :: Prefix where
  "pd_sample_prefix =
     \<lparr>Network = PrefixFrom (Addr6 0x20010DB8000100000000000000000000 []) 56,
      ValidLifetime = 3600 * second, PreferredLifetime = 1800 * second,
      prefix_Source = SourceDHCPv6PD, ReceivedAt = 5\<rparr>"

lemma pd_sample_exchange:
  "acquireExchange pd_sample_env r = Ok (pd_sample_message, [0, 0, 0, 2], [7])"
proof -
  have "put_uint32 2 = [0, 0, 0, 2]"
    by (simp add: put_uint32_def upt_rec)
  then show ?thesis
    by (simp add: acquireExchange_def openClient_def pd_sample_env_def iaidForInterface_def newPDMessage_def
        send_def pd_sample_message_def pd_sample_iapd_def statusError_def)
qed

lemma pd_sample_policy:
  "Policy_Validate DefaultPolicy (PrefixFrom (Addr6 0x20010DB8000100000000000000000000 []) 56) = None"
proof -
  have "isGlobalUnicast (Addr6 0x20010DB8000100000000000000000000 [])"
    by (simp add: isGlobalUnicast_def As16_def addr128_def nth_bytes16 Is6_def)
  then show ?thesis
    by (simp add: Policy_Validate_def ValidateDelegatedPrefix_def DefaultPolicy_def checkLength_def
        Is6_def Is4In6_def go_eval BitLen_def IsLoopback_def IsMulticast_def IsUnspecified_def
        IsLinkLocalUnicast_def Unmap_def v6u16_def)
qed

lemma pd_sample_mask: "mask_Size (replicate 7 0xFF @ replicate 9 0) = (56, 128)"
proof -
  have "byte_ones 8 0 = (0, 0)"
    by (simp add: numeral_eq_Suc)
  then show ?thesis
    by (simp add: mask_Size_def go_eval)
qed

lemma pd_sample_addr:
  "AddrFromSlice [0x20, 0x01, 0x0D, 0xB8, 0, 1, 0, 0, 0, 0, 0, 0, 0, 0, 0, 1] =
     Some (Addr6 0x20010DB8000100000000000000000001 [])"
  by (simp add: AddrFromSlice_def AddrFrom16_def word_of_bytes_def)

lemma pd_sample_read:
  "\<exists>pd best. readIAPDReply DefaultPolicy pd_sample_message [0, 0, 0, 2] =
     Ok (pd, best, Network pd_sample_prefix) \<and> iap_ValidLifetime best = 3600 * second \<and>
     iap_PreferredLifetime best = 1800 * second"
proof -
  have m: "Masked (PrefixFrom (Addr6 0x20010DB8000100000000000000000001 []) 56) =
      PrefixFrom (Addr6 0x20010DB8000100000000000000000000 []) 56"
    by (simp add: go_eval)
  show ?thesis
    by (simp add: readIAPDReply_def pd_sample_message_def pd_sample_iapd_def statusError_def pd_sample_mask
        pd_sample_addr Let_def m pd_sample_policy pd_sample_prefix_def second_def
        del: replicate_numeral)
qed

lemma pd_sample_run:
  "\<exists>s. pd_step\<^sup>*\<^sup>* (pd_initial ''eth0'' 56 DefaultPolicy) s \<and> PD_CurrentPrefix (psys_pd s) = Some pd_sample_prefix"
proof -
  let ?s0 = "pd_initial ''eth0'' 56 DefaultPolicy"
  let ?r1 = "snd (PD_Start (psys_pd ?s0))"
  let ?l1 = "new_pd_loop ?r1"
  let ?x = "Ok (pd_sample_message, [0, 0, 0, 2], [7])"
  have st: "\<not> pd_started (psys_pd ?s0)" "PD_Start (psys_pd ?s0) = (None, ?r1)" "psys_loops ?s0 = []"
    "pd_policy ?r1 = DefaultPolicy" "pdl_pc ?l1 = PCInitial"
    by (simp_all add: pd_initial_def NewDHCPv6PDReceiverWithPolicy_def PD_Start_def new_pd_loop_def)
  let ?s1 = "\<lparr>psys_pd = ?r1, psys_loops = [?l1]\<rparr>"
  let ?s2 = "\<lparr>psys_pd = ?r1, psys_loops = [goto (PCInitialReply ?x) ?l1]\<rparr>"
  have "pd_step ?s0 ?s1"
    using pd_step.pd_start [OF st(1,2)] st(3) by simp
  moreover have "pd_step ?s1 ?s2"
    using pd_step.pd_move [of ?s1 "[]" ?l1 "[]" False False pd_sample_env "\<lambda>n. 0"] st(5)
    by (simp add: runLoop_step_def pd_sample_exchange)
  moreover obtain pd best where rd: "readIAPDReply DefaultPolicy pd_sample_message [0, 0, 0, 2] =
     Ok (pd, best, Network pd_sample_prefix)" "iap_ValidLifetime best = 3600 * second"
     "iap_PreferredLifetime best = 1800 * second"
    using pd_sample_read by blast
  let ?r3 = "snd (processIAPDReply 5 pd_sample_message [0, 0, 0, 2] [7] ?r1)"
  have r3: "processIAPDReply 5 pd_sample_message [0, 0, 0, 2] [7] ?r1 = (None, ?r3)"
    "pd_currentPrefix ?r3 = Some pd_sample_prefix"
    using processIAPDReply_Ok [of ?r1, unfolded st(4), OF rd(1), of 5 "[7]"] rd(2,3)
    by (simp_all add: prod_eq_iff) (simp add: pd_sample_prefix_def)
  let ?s3 = "\<lparr>psys_pd = ?r3, psys_loops = [goto PCTop (goto (PCInitialReply ?x) ?l1)]\<rparr>"
  have "env_now pd_sample_env = 5"
    by (simp add: pd_sample_env_def)
  then have eq: "runLoop_step pd_sample_env (\<lambda>n. 0) False (goto (PCInitialReply ?x) ?l1) (psys_pd ?s2) =
      (Some (goto PCTop (goto (PCInitialReply ?x) ?l1)), ?r3)"
    by (simp add: runLoop_step_def finish_exchange_def) (subst r3(1), simp add: runLoop_acquired_def)
  have "pd_step ?s2 ?s3"
    using pd_step.pd_move [OF _ _ _ eq, of "[]" "[]" False] by simp
  ultimately show ?thesis
    using r3(2) by (intro exI [of _ ?s3]) (auto simp: PD_CurrentPrefix_def
        intro: converse_rtranclp_into_rtranclp)
qed

theorem pd_receiver_invariant_witness: "pd_lease_ok DefaultPolicy pd_sample_prefix"
proof -
  obtain s where r: "pd_step\<^sup>*\<^sup>* (pd_initial ''eth0'' 56 DefaultPolicy) s"
    and c: "PD_CurrentPrefix (psys_pd s) = Some pd_sample_prefix"
    using pd_sample_run by blast
  from pd_receiver_invariant [OF r] c show ?thesis
    by simp
qed

text \<open>
  A reply is taken whole or not at all.  A reply that reads well replaces prefix and lease
  together, the lease under the identity the client asked for and the server that answered, and
  clears the recorded failure; any other reply is reported and leaves the receiver unchanged.
\<close>

theorem reply_installs_lease_or_nothing:
  "case readIAPDReply (pd_policy r) reply iaid of
     Inl e \<Rightarrow> processIAPDReply now reply iaid sid r = (Some e, r)
   | Inr (pd, best, prefix) \<Rightarrow>
       (\<exists>r' p l. processIAPDReply now reply iaid sid r = (None, r') \<and>
          PD_CurrentPrefix r' = Some p \<and> pd_lease r' = Some l \<and> PD_LastError r' = None \<and>
          Network p = prefix \<and> lease_Prefix l = prefix \<and> IAID l = iaid \<and> ServerID l = sid \<and>
          iapd_IaId pd = iaid \<and> lease_ReceivedAt l = now \<and> ValidLifetime p = iap_ValidLifetime best \<and>
          0 < ValidLifetime p \<and> Policy_Validate (pd_policy r) prefix = None)"
proof (cases "readIAPDReply (pd_policy r) reply iaid")
  case (Inl e)
  then show ?thesis
    by (simp add: processIAPDReply_def)
next
  case (Inr y)
  obtain pd best prefix where y: "y = (pd, best, prefix)"
    by (cases y)
  note ok = Inr [unfolded y]
  show ?thesis
    using processIAPDReply_Ok [OF ok, of now sid] readIAPDReply_OkD [OF ok] Inr y
    by (cases "processIAPDReply now reply iaid sid r")
      (simp add: PD_CurrentPrefix_def PD_LastError_def LastError_def)
qed

subsection \<open>Whom the client talks to\<close>

text \<open>
  Requests go to the right server.  An acquisition accepts the delegation of the server whose
  advertisement it read and keeps that server in the lease; a renewal names the server of the
  lease; a rebind names none and adopts the server that answers; all of them carry the interface's
  identity, and renewals restate the leased prefix.
\<close>

theorem exchanges_name_the_right_server:
  "(\<forall>reply iaid sid. acquireExchange env r = Ok (reply, iaid, sid) \<longrightarrow>
      (\<exists>ifi advertise iapd rest. env_lookupInterface env = Ok ifi \<and> iaidForInterface ifi = Ok iaid \<and>
         env_sendAndRead env \<lparr>req_Type = MsgSolicit, req_ClientID = generateDUID ifi, req_ElapsedTime = 0,
           req_ServerID = None, req_IAPD = TypedIAPD (iaPDHint r iaid)\<rparr> = Ok advertise \<and>
         msg_ServerID advertise = Some sid \<and> msg_IAPDs advertise = iapd # rest \<and>
         env_sendAndRead env \<lparr>req_Type = MsgRequest, req_ClientID = generateDUID ifi, req_ElapsedTime = 0,
           req_ServerID = Some sid, req_IAPD = iapd\<rparr> = Ok reply)) \<and>
   (\<forall>reply iaid sid. renewExchange env r = Ok (reply, iaid, sid) \<longrightarrow>
      (\<exists>ifi lease. env_lookupInterface env = Ok ifi \<and> pd_lease r = Some lease \<and>
         iaid = IAID lease \<and> sid = ServerID lease \<and>
         env_sendAndRead env \<lparr>req_Type = MsgRenew, req_ClientID = generateDUID ifi, req_ElapsedTime = 0,
           req_ServerID = Some (ServerID lease), req_IAPD = TypedIAPD (iaPDForLease lease)\<rparr> = Ok reply)) \<and>
   (\<forall>reply iaid sid. rebindExchange env r = Ok (reply, iaid, sid) \<longrightarrow>
      (\<exists>ifi lease. env_lookupInterface env = Ok ifi \<and> pd_lease r = Some lease \<and>
         iaid = IAID lease \<and> msg_ServerID reply = Some sid \<and>
         env_sendAndRead env \<lparr>req_Type = MsgRebind, req_ClientID = generateDUID ifi, req_ElapsedTime = 0,
           req_ServerID = None, req_IAPD = TypedIAPD (iaPDForLease lease)\<rparr> = Ok reply))"
proof (intro conjI allI impI)
  fix reply iaid sid
  assume "acquireExchange env r = Ok (reply, iaid, sid)"
  then show "\<exists>ifi advertise iapd rest. env_lookupInterface env = Ok ifi \<and> iaidForInterface ifi = Ok iaid \<and>
         env_sendAndRead env \<lparr>req_Type = MsgSolicit, req_ClientID = generateDUID ifi, req_ElapsedTime = 0,
           req_ServerID = None, req_IAPD = TypedIAPD (iaPDHint r iaid)\<rparr> = Ok advertise \<and>
         msg_ServerID advertise = Some sid \<and> msg_IAPDs advertise = iapd # rest \<and>
         env_sendAndRead env \<lparr>req_Type = MsgRequest, req_ClientID = generateDUID ifi, req_ElapsedTime = 0,
           req_ServerID = Some sid, req_IAPD = iapd\<rparr> = Ok reply"
    by (simp add: acquireExchange_def openClient_def newPDMessage_def send_def
        split: sum.splits option.splits list.splits)
next
  fix reply iaid sid
  assume "renewExchange env r = Ok (reply, iaid, sid)"
  then show "\<exists>ifi lease. env_lookupInterface env = Ok ifi \<and> pd_lease r = Some lease \<and>
         iaid = IAID lease \<and> sid = ServerID lease \<and>
         env_sendAndRead env \<lparr>req_Type = MsgRenew, req_ClientID = generateDUID ifi, req_ElapsedTime = 0,
           req_ServerID = Some (ServerID lease), req_IAPD = TypedIAPD (iaPDForLease lease)\<rparr> = Ok reply"
    by (auto simp: renewExchange_def openClient_def newPDMessage_def send_def
        split: sum.splits option.splits)
next
  fix reply iaid sid
  assume "rebindExchange env r = Ok (reply, iaid, sid)"
  then show "\<exists>ifi lease. env_lookupInterface env = Ok ifi \<and> pd_lease r = Some lease \<and>
         iaid = IAID lease \<and> msg_ServerID reply = Some sid \<and>
         env_sendAndRead env \<lparr>req_Type = MsgRebind, req_ClientID = generateDUID ifi, req_ElapsedTime = 0,
           req_ServerID = None, req_IAPD = TypedIAPD (iaPDForLease lease)\<rparr> = Ok reply"
    by (auto simp: rebindExchange_def openClient_def newPDMessage_def send_def
        split: sum.splits option.splits)
qed

theorem exchanges_name_the_right_server_witness:
  "\<exists>ifi. env_lookupInterface pd_sample_env = Ok ifi \<and> iaidForInterface ifi = Ok [0, 0, 0, 2] \<and>
     msg_ServerID pd_sample_message = Some [7]"
  using exchanges_name_the_right_server [THEN conjunct1, rule_format, OF pd_sample_exchange]
  by (auto simp: pd_sample_env_def pd_sample_message_def)

subsection \<open>Losing the lease\<close>

lemma renew_reply_continues:
  "\<exists>l' r'. runLoop_step env rnd b (goto (PCRenewReply elapsed lease x) l) r = (Some l', r')"
  by (simp add: runLoop_step_def map_prod_def split_beta)

text \<open>
  When a renewal fails, what happens to the lease depends on why and when.  A server that holds
  no binding ends it at once, whatever the time; after T2 a rebind is tried and its failure ends
  it; before T2 the lease is kept and the next attempt waits.  Where the lease ends, the prefix
  goes with it and the loop's next move is the acquisition backoff, not a new exchange.
\<close>

theorem failed_renewal_outcome:
  assumes "finish_exchange (env_now env) x r = (Some e, r1)"
    and "runLoop_step env rnd False (goto (PCRenewReply elapsed lease x) l) r = (Some l', r')"
  shows "if isNoBinding e then
       PD_CurrentPrefix r' = None \<and> pd_lease r' = None \<and> pdl_pc l' = PCTop \<and>
       pdl_pc (runLoop_top env rnd l' r') = PCBackoff (bo_wait rnd (pdl_backoff l))
     else PD_CurrentPrefix r' = PD_CurrentPrefix r1 \<and> pd_lease r' = pd_lease r1 \<and>
       pdl_pc l' = (if elapsed \<ge> T2 lease then PCRebind else PCRenewWait)"
proof -
  have res: "(Some l', r') = map_prod Some id (runLoop_renewed elapsed lease (Some e, r1) (goto (PCRenewReply elapsed lease x) l))"
    using assms by (simp add: runLoop_step_def)
  then show ?thesis
    by (auto simp: runLoop_renewed_def Let_def dropLease_def pd_sendEvent_def pd_sendError_def
        PD_CurrentPrefix_def runLoop_top_def split: if_splits)
qed

theorem failed_renewal_outcome_witness:
  "let env = pd_sample_env\<lparr>env_sendAndRead := (\<lambda>_. Ok (pd_sample_message\<lparr>msg_Status :=
         Some \<lparr>StatusCode = 3, StatusMessage = ''gone''\<rparr>\<rparr>))\<rparr>;
       r0 = NewDHCPv6PDReceiver ''eth0'' 56;
       r = snd (processIAPDReply 5 pd_sample_message [0, 0, 0, 2] [7] r0)
   in pd_lease r \<noteq> None \<and>
      pd_lease (snd (runLoop_step env (\<lambda>n. 0) False
        (goto (PCRenewReply (1800 * second) (the (pd_lease r)) (renewExchange env r)) (new_pd_loop r)) r)) = None"
proof -
  let ?env = "pd_sample_env\<lparr>env_sendAndRead := (\<lambda>_. Ok (pd_sample_message\<lparr>msg_Status :=
         Some \<lparr>StatusCode = 3, StatusMessage = ''gone''\<rparr>\<rparr>))\<rparr>"
  let ?new = "NewDHCPv6PDReceiver ''eth0'' 56"
  let ?r = "snd (processIAPDReply 5 pd_sample_message [0, 0, 0, 2] [7] ?new)"
  have pol: "pd_policy ?new = DefaultPolicy"
    by (simp add: NewDHCPv6PDReceiver_def NewDHCPv6PDReceiverWithPolicy_def)
  obtain pd best where rd: "readIAPDReply (pd_policy ?new) pd_sample_message [0, 0, 0, 2] = Ok (pd, best, Network pd_sample_prefix)"
    using pd_sample_read pol by auto
  then obtain lease where lease: "pd_lease ?r = Some lease"
    using processIAPDReply_Ok(3) [OF rd] by blast
  let ?x = "renewExchange ?env ?r"
  have "\<exists>i d. ?x = Ok (pd_sample_message\<lparr>msg_Status := Some \<lparr>StatusCode = 3, StatusMessage = ''gone''\<rparr>\<rparr>, i, d)"
    using lease by (simp add: renewExchange_def openClient_def pd_sample_env_def newPDMessage_def send_def)
  then have fin: "finish_exchange (env_now ?env) ?x ?r = (Some (PDReplyRefused (NoBinding ''gone'')), ?r)"
    by (auto simp: finish_exchange_def processIAPDReply_def readIAPDReply_def statusError_def
        statusSuccess_def statusNoBinding_def)
  obtain l' r' where st: "runLoop_step ?env (\<lambda>n. 0) False
      (goto (PCRenewReply (1800 * second) lease ?x) (new_pd_loop ?r)) ?r = (Some l', r')"
    using renew_reply_continues by blast
  show ?thesis
    using failed_renewal_outcome [OF fin st] st lease by (simp add: Let_def)
qed

subsection \<open>The receiver contract\<close>

definition pd_take :: "DHCPv6PDReceiver \<Rightarrow> (Event \<times> DHCPv6PDReceiver) option" where
  "pd_take r = (case pd_events r of [] \<Rightarrow> None | ev # evs \<Rightarrow> Some (ev, r\<lparr>pd_events := evs\<rparr>))"

definition pd_ops :: "(DHCPv6PDReceiver, unit) receiver_ops" where
  "pd_ops =
     \<lparr>op_Start = (\<lambda>_. PD_Start), op_Stop = (\<lambda>_. PD_Stop), op_take = pd_take,
      op_CurrentPrefix = PD_CurrentPrefix, op_Source = PD_Source, op_LastError = PD_LastError,
      op_RARejections = (\<lambda>_. None)\<rparr>"

lemma PD_Start_channels: "pd_channels_ok r \<Longrightarrow> pd_channels_ok (snd (PD_Start r))"
  by (fastforce simp: PD_Start_def pd_channels_ok_def)

lemma PD_Stop_returns:
  assumes "pd_channels_ok r"
  shows "\<exists>err r'. PD_Stop r = Some (err, r') \<and> pd_channels_ok r' \<and> \<not> pd_started r' \<and>
           pd_currentPrefix r' = pd_currentPrefix r"
  using assms by (cases "pd_started r") (auto simp: PD_Stop_def Let_def pd_channels_ok_def)

interpretation pd_receiver: receiver_contract pd_ops pd_channels_ok pd_started
proof unfold_locales
  fix r e ev r'
  assume r: "pd_channels_ok r"
  show "op_Start pd_ops e r = (None, r)" if "pd_started r"
    using that by (simp add: pd_ops_def PD_Start_def)
  show "pd_channels_ok (snd (op_Start pd_ops e r))"
    using r by (simp add: pd_ops_def PD_Start_channels)
  show "pd_started (snd (op_Start pd_ops e r)) \<longleftrightarrow> fst (op_Start pd_ops e r) = None"
    by (simp add: pd_ops_def PD_Start_def)
  show "op_CurrentPrefix pd_ops (snd (op_Start pd_ops e r)) = op_CurrentPrefix pd_ops r"
    by (simp add: pd_ops_def PD_CurrentPrefix_def PD_Start_def)
  show "\<exists>err r'. op_Stop pd_ops e r = Some (err, r') \<and> pd_channels_ok r' \<and> \<not> pd_started r' \<and>
          op_CurrentPrefix pd_ops r' = op_CurrentPrefix pd_ops r"
    using PD_Stop_returns [OF r] by (simp add: pd_ops_def PD_CurrentPrefix_def)
  show "pd_channels_ok r' \<and> pd_started r' = pd_started r \<and> op_CurrentPrefix pd_ops r' = op_CurrentPrefix pd_ops r"
    if "op_take pd_ops r = Some (ev, r')"
    using that r by (auto simp: pd_ops_def pd_take_def PD_CurrentPrefix_def pd_channels_ok_def split: list.splits)
qed

end
