(* ===== verification/Composite_Receiver.thy ===== *)
theory Composite_Receiver
  imports Shared_RA DHCPv6_PD
begin

text \<open>
  The composite receiver of \<^verbatim>\<open>internal/prefix/composite_receiver.go\<close>: a primary and a fallback behind
  one interface.  The code holds them as \<^verbatim>\<open>Receiver\<close> values, so the operations take the method
  tables of both; the state is the composite's own fields next to the states of the two, which
  other objects may share.  The locale \<open>composite_contract\<close> shows that two receivers that honour
  the receiver contract give one that does.
\<close>

subsection \<open>State\<close>

datatype which = Primary | Fallback

record CompositeReceiver =
  co_active :: which
  co_events :: "Event list"
  co_stopCh :: nat
  co_closed :: "nat list"
  co_nextCh :: nat
  co_started :: bool
  co_consecutiveFailures :: int
  co_maxFailures :: int

type_synonym ('p, 'f) composite_state = "CompositeReceiver \<times> 'p \<times> 'f"

definition NewCompositeReceiver :: CompositeReceiver where
  "NewCompositeReceiver =
     \<lparr>co_active = Primary, co_events = [], co_stopCh = 0, co_closed = [], co_nextCh = 1,
      co_started = False, co_consecutiveFailures = 0, co_maxFailures = 3\<rparr>"

subsection \<open>Operations\<close>

text \<open>
  \<^verbatim>\<open>Start\<close>.  When the fallback fails, the primary is stopped again; a panic there (\<open>None\<close>), which the
  contract excludes, leaves the primary as it was.
\<close>

definition composite_Start ::
    "('p, 'a) receiver_ops \<Rightarrow> ('f, 'b) receiver_ops \<Rightarrow> 'a \<times> 'b \<Rightarrow> ('p, 'f) composite_state \<Rightarrow>
     recv_error option \<times> ('p, 'f) composite_state" where
  "composite_Start opsP opsF env st = (case (env, st) of ((eP, eF), (c, p, f)) \<Rightarrow>
     if co_started c then (None, st)
     else (case op_Start opsP eP p of
             (Some err, p') \<Rightarrow> (Some err, (c, p', f))
           | (None, p') \<Rightarrow>
               (case op_Start opsF eF f of
                  (Some err, f') \<Rightarrow>
                    (Some err, (c, (case op_Stop opsP eP p' of None \<Rightarrow> p' | Some (_, p'') \<Rightarrow> p''), f'))
                | (None, f') \<Rightarrow>
                    (None, (c\<lparr>co_stopCh := co_nextCh c, co_nextCh := co_nextCh c + 1, co_started := True\<rparr>,
                            p', f')))))"

definition composite_Stop ::
    "('p, 'a) receiver_ops \<Rightarrow> ('f, 'b) receiver_ops \<Rightarrow> 'a \<times> 'b \<Rightarrow> ('p, 'f) composite_state \<Rightarrow>
     (recv_error option \<times> ('p, 'f) composite_state) option" where
  "composite_Stop opsP opsF env st = (case (env, st) of ((eP, eF), (c, p, f)) \<Rightarrow>
     if \<not> co_started c then
       do { (_, p') \<leftarrow> op_Stop opsP eP p;
            (_, f') \<leftarrow> op_Stop opsF eF f;
            Some (None, (c, p', f')) }
     else if co_stopCh c \<in> set (co_closed c) then None
     else
       do { (primaryErr, p') \<leftarrow> op_Stop opsP eP p;
            (fallbackErr, f') \<leftarrow> op_Stop opsF eF f;
            Some (if primaryErr \<noteq> None then primaryErr else fallbackErr,
                  (c\<lparr>co_started := False, co_closed := co_stopCh c # co_closed c\<rparr>, p', f')) })"

definition composite_CurrentPrefix ::
    "('p, 'a) receiver_ops \<Rightarrow> ('f, 'b) receiver_ops \<Rightarrow> ('p, 'f) composite_state \<Rightarrow> Prefix option" where
  "composite_CurrentPrefix opsP opsF st = (case st of (c, p, f) \<Rightarrow>
     (case op_CurrentPrefix opsP p of Some x \<Rightarrow> Some x | None \<Rightarrow> op_CurrentPrefix opsF f))"

definition composite_LastError ::
    "('p, 'a) receiver_ops \<Rightarrow> ('f, 'b) receiver_ops \<Rightarrow> ('p, 'f) composite_state \<Rightarrow> recv_error option" where
  "composite_LastError opsP opsF st = (case st of (c, p, f) \<Rightarrow>
     (case op_LastError opsP p of Some e \<Rightarrow> Some e | None \<Rightarrow> op_LastError opsF f))"

definition composite_RARejections ::
    "('f, 'b) receiver_ops \<Rightarrow> ('p, 'f) composite_state \<Rightarrow> 64 word \<times> string" where
  "composite_RARejections opsF st = (case st of (c, p, f) \<Rightarrow>
     (case op_RARejections opsF f of Some x \<Rightarrow> x | None \<Rightarrow> (0, [])))"

definition composite_Source ::
    "('p, 'a) receiver_ops \<Rightarrow> ('f, 'b) receiver_ops \<Rightarrow> ('p, 'f) composite_state \<Rightarrow> Source" where
  "composite_Source opsP opsF st = (case st of (c, p, f) \<Rightarrow>
     if op_CurrentPrefix opsP p \<noteq> None then op_Source opsP p
     else if op_CurrentPrefix opsF f \<noteq> None then op_Source opsF f
     else op_Source opsP p)"

definition co_sendEvent :: "Event \<Rightarrow> CompositeReceiver \<Rightarrow> CompositeReceiver" where
  "co_sendEvent ev c = c\<lparr>co_events := trySend ev (co_events c)\<rparr>"

text \<open>The event handlers; \<open>fallbackPrefix\<close> is what the fallback's \<^verbatim>\<open>CurrentPrefix\<close> returns then.\<close>

definition handlePrimaryEvent :: "Prefix option \<Rightarrow> Event \<Rightarrow> CompositeReceiver \<Rightarrow> CompositeReceiver" where
  "handlePrimaryEvent fallbackPrefix event c =
     (case event_Type event of
        EventTypeFailed \<Rightarrow>
          let c1 = c\<lparr>co_consecutiveFailures := co_consecutiveFailures c + 1\<rparr>;
              c2 = (if co_consecutiveFailures c1 \<ge> co_maxFailures c1 then
                      (let c' = c1\<lparr>co_active := Fallback\<rparr> in
                       if fallbackPrefix \<noteq> None
                       then co_sendEvent \<lparr>event_Type = EventTypeAcquired, event_Prefix = fallbackPrefix,
                                          event_Error = None\<rparr> c'
                       else c')
                    else c1)
          in co_sendEvent event c2
      | EventTypeExpired \<Rightarrow>
          if fallbackPrefix \<noteq> None
          then co_sendEvent \<lparr>event_Type = EventTypeAcquired, event_Prefix = fallbackPrefix, event_Error = None\<rparr>
                 (c\<lparr>co_active := Fallback\<rparr>)
          else co_sendEvent event c
      | _ \<Rightarrow> co_sendEvent event (c\<lparr>co_consecutiveFailures := 0, co_active := Primary\<rparr>))"

definition handleFallbackEvent :: "Event \<Rightarrow> CompositeReceiver \<Rightarrow> CompositeReceiver" where
  "handleFallbackEvent event c = (if co_active c \<noteq> Fallback then c else co_sendEvent event c)"

definition IsUsingFallback :: "CompositeReceiver \<Rightarrow> bool" where
  "IsUsingFallback c \<longleftrightarrow> co_active c = Fallback"

text \<open>One turn of \<^verbatim>\<open>mergeEvents\<close>: an event of the primary or of the fallback is taken and handled.\<close>

definition mergeEvents_primary ::
    "('p, 'a) receiver_ops \<Rightarrow> ('f, 'b) receiver_ops \<Rightarrow> ('p, 'f) composite_state \<Rightarrow> ('p, 'f) composite_state" where
  "mergeEvents_primary opsP opsF st = (case st of (c, p, f) \<Rightarrow>
     (case op_take opsP p of
        None \<Rightarrow> st
      | Some (ev, p') \<Rightarrow> (handlePrimaryEvent (op_CurrentPrefix opsF f) ev c, p', f)))"

definition mergeEvents_fallback ::
    "('f, 'b) receiver_ops \<Rightarrow> ('p, 'f) composite_state \<Rightarrow> ('p, 'f) composite_state" where
  "mergeEvents_fallback opsF st = (case st of (c, p, f) \<Rightarrow>
     (case op_take opsF f of None \<Rightarrow> st | Some (ev, f') \<Rightarrow> (handleFallbackEvent ev c, p, f')))"

definition composite_take :: "('p, 'f) composite_state \<Rightarrow> (Event \<times> ('p, 'f) composite_state) option" where
  "composite_take st = (case st of (c, p, f) \<Rightarrow>
     (case co_events c of [] \<Rightarrow> None | ev # evs \<Rightarrow> Some (ev, (c\<lparr>co_events := evs\<rparr>, p, f))))"

definition composite_ops ::
    "('p, 'a) receiver_ops \<Rightarrow> ('f, 'b) receiver_ops \<Rightarrow> (('p, 'f) composite_state, 'a \<times> 'b) receiver_ops" where
  "composite_ops opsP opsF =
     \<lparr>op_Start = composite_Start opsP opsF, op_Stop = composite_Stop opsP opsF, op_take = composite_take,
      op_CurrentPrefix = composite_CurrentPrefix opsP opsF, op_Source = composite_Source opsP opsF,
      op_LastError = composite_LastError opsP opsF,
      op_RARejections = (\<lambda>st. Some (composite_RARejections opsF st))\<rparr>"

subsection \<open>Two receivers that honour the contract make one that does\<close>

definition composite_running :: "('p, 'f) composite_state \<Rightarrow> bool" where
  "composite_running st = co_started (fst st)"

definition co_channels_ok :: "CompositeReceiver \<Rightarrow> bool" where
  "co_channels_ok c \<longleftrightarrow>
     co_stopCh c < co_nextCh c \<and> (\<forall>k \<in> set (co_closed c). k < co_nextCh c) \<and>
     (co_started c \<longrightarrow> co_stopCh c \<notin> set (co_closed c))"

text \<open>Composite, primary and fallback run together.\<close>

definition composite_inv ::
    "('p \<Rightarrow> bool) \<Rightarrow> ('p \<Rightarrow> bool) \<Rightarrow> ('f \<Rightarrow> bool) \<Rightarrow> ('f \<Rightarrow> bool) \<Rightarrow> ('p, 'f) composite_state \<Rightarrow> bool" where
  "composite_inv invP runP invF runF st \<longleftrightarrow> (case st of (c, p, f) \<Rightarrow>
     invP p \<and> invF f \<and> co_channels_ok c \<and> runP p = co_started c \<and> runF f = co_started c)"

lemma composite_CurrentPrefix_cong:
  "op_CurrentPrefix opsP p' = op_CurrentPrefix opsP p \<Longrightarrow> op_CurrentPrefix opsF f' = op_CurrentPrefix opsF f \<Longrightarrow>
   composite_CurrentPrefix opsP opsF (c', p', f') = composite_CurrentPrefix opsP opsF (c, p, f)"
  by (simp add: composite_CurrentPrefix_def split: option.split)

locale composite_contract =
  P: receiver_contract opsP invP runP + F: receiver_contract opsF invF runF
  for opsP :: "('p, 'a) receiver_ops" and invP runP
    and opsF :: "('f, 'b) receiver_ops" and invF runF
begin

lemma start_cases:
  assumes "composite_inv invP runP invF runF (c, p, f)" "\<not> co_started c"
  obtains err p' f' where "composite_Start opsP opsF (eP, eF) (c, p, f) = (Some err, (c, p', f'))"
      "composite_inv invP runP invF runF (c, p', f')" "op_CurrentPrefix opsP p' = op_CurrentPrefix opsP p"
      "op_CurrentPrefix opsF f' = op_CurrentPrefix opsF f"
    | p' f' where "composite_Start opsP opsF (eP, eF) (c, p, f) =
        (None, (c\<lparr>co_stopCh := co_nextCh c, co_nextCh := co_nextCh c + 1, co_started := True\<rparr>, p', f'))"
      "invP p'" "invF f'" "runP p'" "runF f'" "op_CurrentPrefix opsP p' = op_CurrentPrefix opsP p"
      "op_CurrentPrefix opsF f' = op_CurrentPrefix opsF f"
proof -
  have inv: "invP p" "invF f" "co_channels_ok c" "\<not> runP p" "\<not> runF f"
    using assms by (auto simp: composite_inv_def)
  obtain e1 p1 where p1: "op_Start opsP eP p = (e1, p1)"
    by fastforce
  have P: "invP p1" "runP p1 \<longleftrightarrow> e1 = None" "op_CurrentPrefix opsP p1 = op_CurrentPrefix opsP p"
    using P.start_inv [OF inv(1), of eP] P.start_result [OF inv(1), of eP] P.start_current [OF inv(1), of eP] p1
    by simp_all
  obtain e2 f1 where f1: "op_Start opsF eF f = (e2, f1)"
    by fastforce
  have F: "invF f1" "runF f1 \<longleftrightarrow> e2 = None" "op_CurrentPrefix opsF f1 = op_CurrentPrefix opsF f"
    using F.start_inv [OF inv(2), of eF] F.start_result [OF inv(2), of eF] F.start_current [OF inv(2), of eF] f1
    by simp_all
  obtain e3 p2 where p2: "op_Stop opsP eP p1 = Some (e3, p2)" "invP p2" "\<not> runP p2"
    "op_CurrentPrefix opsP p2 = op_CurrentPrefix opsP p1"
    using P.stop_returns [OF P(1), of eP] by blast
  show ?thesis
  proof (cases e1)
    case (Some err)
    then show ?thesis
      using that(1) [of err p1 f] assms(2) inv p1 P by (simp add: composite_Start_def composite_inv_def)
  next
    case none: None
    show ?thesis
    proof (cases e2)
      case (Some err)
      then show ?thesis
        using that(1) [of err p2 f1] assms(2) inv p1 f1 p2 none P F by (simp add: composite_Start_def composite_inv_def)
    next
      case None
      then show ?thesis
        using that(2) [of p1 f1] assms(2) p1 f1 none P F by (simp add: composite_Start_def)
    qed
  qed
qed

lemma stop_returns_composite:
  assumes "composite_inv invP runP invF runF (c, p, f)"
  shows "\<exists>err c' p' f'. composite_Stop opsP opsF (eP, eF) (c, p, f) = Some (err, (c', p', f')) \<and>
     composite_inv invP runP invF runF (c', p', f') \<and> \<not> co_started c' \<and> \<not> runP p' \<and> \<not> runF f' \<and>
     op_CurrentPrefix opsP p' = op_CurrentPrefix opsP p \<and> op_CurrentPrefix opsF f' = op_CurrentPrefix opsF f"
proof -
  have inv: "invP p" "invF f" "co_channels_ok c"
    using assms by (auto simp: composite_inv_def)
  obtain e1 p1 where p1: "op_Stop opsP eP p = Some (e1, p1)" "invP p1" "\<not> runP p1"
    "op_CurrentPrefix opsP p1 = op_CurrentPrefix opsP p"
    using P.stop_returns [OF inv(1), of eP] by blast
  obtain e2 f1 where f1: "op_Stop opsF eF f = Some (e2, f1)" "invF f1" "\<not> runF f1"
    "op_CurrentPrefix opsF f1 = op_CurrentPrefix opsF f"
    using F.stop_returns [OF inv(2), of eF] by blast
  show ?thesis
    using inv p1 f1 by (simp add: composite_Stop_def composite_inv_def co_channels_ok_def)
qed

end

sublocale composite_contract \<subseteq> C: receiver_contract "composite_ops opsP opsF" "composite_inv invP runP invF runF" composite_running
proof unfold_locales
  fix r r' :: "('p, 'f) composite_state" and e :: "'a \<times> 'b" and ev
  obtain c p f where r: "r = (c, p, f)"
    by (cases r)
  obtain eP eF where e: "e = (eP, eF)"
    by (cases e)
  assume inv: "composite_inv invP runP invF runF r"
  then have i: "composite_inv invP runP invF runF (c, p, f)"
    by (simp add: r)
  show "op_Start (composite_ops opsP opsF) e r = (None, r)" if "composite_running r"
    using that by (simp add: r e composite_ops_def composite_Start_def composite_running_def)
  have start: "composite_inv invP runP invF runF (snd (composite_Start opsP opsF (eP, eF) (c, p, f))) \<and>
      (co_started (fst (snd (composite_Start opsP opsF (eP, eF) (c, p, f)))) \<longleftrightarrow>
         fst (composite_Start opsP opsF (eP, eF) (c, p, f)) = None) \<and>
      composite_CurrentPrefix opsP opsF (snd (composite_Start opsP opsF (eP, eF) (c, p, f))) =
        composite_CurrentPrefix opsP opsF (c, p, f)"
  proof (cases "co_started c")
    case True
    then show ?thesis
      using i by (simp add: composite_Start_def)
  next
    case False
    from i False show ?thesis
    proof (cases rule: start_cases [where eP = eP and eF = eF])
      case (1 err p' f')
      then show ?thesis
        using False by (simp add: composite_CurrentPrefix_def split: option.split)
    next
      case (2 p' f')
      have "co_channels_ok c"
        using i by (simp add: composite_inv_def)
      then show ?thesis
        using 2 by (auto simp: composite_CurrentPrefix_def composite_inv_def co_channels_ok_def split: option.split)
    qed
  qed
  show "composite_inv invP runP invF runF (snd (op_Start (composite_ops opsP opsF) e r))"
    "composite_running (snd (op_Start (composite_ops opsP opsF) e r)) \<longleftrightarrow>
       fst (op_Start (composite_ops opsP opsF) e r) = None"
    "op_CurrentPrefix (composite_ops opsP opsF) (snd (op_Start (composite_ops opsP opsF) e r)) =
       op_CurrentPrefix (composite_ops opsP opsF) r"
    using start by (simp_all add: r e composite_ops_def composite_running_def)
  show "\<exists>err r'. op_Stop (composite_ops opsP opsF) e r = Some (err, r') \<and> composite_inv invP runP invF runF r' \<and>
      \<not> composite_running r' \<and>
      op_CurrentPrefix (composite_ops opsP opsF) r' = op_CurrentPrefix (composite_ops opsP opsF) r"
  proof -
    from stop_returns_composite [OF i, of eP eF] obtain err c' p' f' where
      st: "composite_Stop opsP opsF (eP, eF) (c, p, f) = Some (err, (c', p', f'))"
        "composite_inv invP runP invF runF (c', p', f')" "\<not> co_started c'"
        "op_CurrentPrefix opsP p' = op_CurrentPrefix opsP p" "op_CurrentPrefix opsF f' = op_CurrentPrefix opsF f"
      by blast
    then show ?thesis
      using composite_CurrentPrefix_cong [OF st(4,5)]
      by (simp add: r e composite_ops_def composite_running_def)
  qed
  show "composite_inv invP runP invF runF r' \<and> composite_running r' = composite_running r \<and>
      op_CurrentPrefix (composite_ops opsP opsF) r' = op_CurrentPrefix (composite_ops opsP opsF) r"
    if "op_take (composite_ops opsP opsF) r = Some (ev, r')"
    using that i
    by (auto simp: r composite_ops_def composite_take_def composite_inv_def composite_running_def
        composite_CurrentPrefix_def co_channels_ok_def split: list.splits)
qed

interpretation pd_ra: composite_contract pd_ops pd_channels_ok pd_started "sub_ops sub" "sub_inv sub" "sub_running sub"
  for sub
  by unfold_locales

subsection \<open>DHCPv6-PD with a Router Advertisement fallback\<close>

abbreviation pd_ra_inv :: "nat \<Rightarrow> (DHCPv6PDReceiver, sharedRAReceiverPool) composite_state \<Rightarrow> bool" where
  "pd_ra_inv sub \<equiv> composite_inv pd_channels_ok pd_started (sub_inv sub) (sub_running sub)"

text \<open>
  A composite of a DHCPv6-PD client and a shared RA subscription starts as a whole or not at
  all: afterwards the composite, the client and the subscription run iff Start reported no error,
  a failed Start has not touched the prefix in use, and Stop then returns with both parts down.
\<close>

theorem composite_starts_as_a_whole:
  assumes "pd_ra_inv sub (c, p, f)"
    and "composite_Start pd_ops (sub_ops sub) env (c, p, f) = (err, (c', p', f'))"
  shows "co_started c' = (err = None) \<and> pd_started p' = (err = None) \<and> sub_running sub f' = (err = None) \<and>
     composite_CurrentPrefix pd_ops (sub_ops sub) (c', p', f') =
       composite_CurrentPrefix pd_ops (sub_ops sub) (c, p, f) \<and>
     (\<exists>err2 c2 p2 f2. composite_Stop pd_ops (sub_ops sub) env (c', p', f') = Some (err2, (c2, p2, f2)) \<and>
        \<not> co_started c2 \<and> \<not> pd_started p2 \<and> \<not> sub_running sub f2)"
proof -
  have inv: "pd_ra_inv sub (c', p', f')"
    using pd_ra.C.start_inv [OF assms(1), of env] assms(2) by (simp add: composite_ops_def)
  have "co_started c' = (err = None)"
    using pd_ra.C.start_result [OF assms(1), of env] assms(2) by (simp add: composite_ops_def composite_running_def)
  moreover have "pd_started p' = co_started c'" "sub_running sub f' = co_started c'"
    using inv by (simp_all add: composite_inv_def)
  moreover have "composite_CurrentPrefix pd_ops (sub_ops sub) (c', p', f') =
      composite_CurrentPrefix pd_ops (sub_ops sub) (c, p, f)"
    using pd_ra.C.start_current [OF assms(1), of env] assms(2) by (simp add: composite_ops_def)
  moreover obtain eP eF where "env = (eP, eF)"
    by (cases env)
  ultimately show ?thesis
    using pd_ra.stop_returns_composite [OF inv, of eP eF] by blast
qed

definition sample_composite :: "(DHCPv6PDReceiver, sharedRAReceiverPool) composite_state" where
  "sample_composite =
     (NewCompositeReceiver, NewDHCPv6PDReceiver ''eth0'' 56,
      snd (subscribe (\<lambda>i pol. NewRAReceiverWithPolicy i pol False False) ''eth0'' DefaultRAPolicy
        newSharedRAReceiverPool))"

lemma sample_composite_inv: "pd_ra_inv 1 sample_composite"
proof -
  let ?f = "snd (subscribe (\<lambda>i pol. NewRAReceiverWithPolicy i pol False False) ''eth0'' DefaultRAPolicy
        newSharedRAReceiverPool)"
  have "pool_ok ?f"
    by (rule pool_step_ok [OF pool_initial_ok pool_subscribe])
  moreover have "\<exists>s. pl_sub ?f 1 = Some s \<and> \<not> su_started s"
    by (simp add: subscribe_def newSharedRAReceiverPool_def Let_def)
  ultimately show ?thesis
    by (auto simp: sample_composite_def composite_inv_def sub_inv_def sub_running_def NewCompositeReceiver_def
        co_channels_ok_def NewDHCPv6PDReceiver_def NewDHCPv6PDReceiverWithPolicy_def pd_channels_ok_def)
qed

theorem composite_starts_as_a_whole_witness:
  "\<exists>err c p f. composite_Start pd_ops (sub_ops 1) ((), (sample_env\<lparr>env_listen := Some ''EPERM''\<rparr>, None)) sample_composite =
     (Some err, (c, p, f)) \<and> \<not> pd_started p"
proof -
  let ?env = "((), (sample_env\<lparr>env_listen := Some ''EPERM''\<rparr>, None))"
  obtain c p f where s: "sample_composite = (c, p, f)"
    by (cases sample_composite)
  obtain err c' p' f' where st: "composite_Start pd_ops (sub_ops 1) ?env (c, p, f) = (err, (c', p', f'))"
    by (cases "composite_Start pd_ops (sub_ops 1) ?env (c, p, f)") auto
  have "err \<noteq> None"
    using st s [symmetric]
    by (auto simp: sample_composite_def composite_Start_def NewCompositeReceiver_def pd_ops_def PD_Start_def
        NewDHCPv6PDReceiver_def NewDHCPv6PDReceiverWithPolicy_def sub_ops_def sub_Start_def subscribe_def
        newSharedRAReceiverPool_def addSubscriber_def RA_Start_def NewRAReceiverWithPolicy_def sample_env_def Let_def)
  then show ?thesis
    using composite_starts_as_a_whole [OF sample_composite_inv [unfolded s] st] st s by auto
qed

text \<open>
  What the composite says about its prefix is true: the Source it reports is the one recorded
  in the prefix it serves, the delegated prefix is preferred whenever the client holds one, and the
  served prefix has passed the policy of the part it came from.
\<close>

theorem composite_source_matches_prefix:
  assumes "pd_leases_ok pol p" and "sub_receiver sub f = Some r" and "ra_leases_ok rapol r"
    and "composite_CurrentPrefix pd_ops (sub_ops sub) (c, p, f) = Some x"
  shows "composite_Source pd_ops (sub_ops sub) (c, p, f) = prefix_Source x \<and>
     (if PD_CurrentPrefix p \<noteq> None then PD_CurrentPrefix p = Some x \<and> pd_lease_ok pol x
      else ra_lease_ok rapol x)"
proof (cases "pd_currentPrefix p")
  case (Some y)
  then have "x = y" "pd_lease_ok pol y"
    using assms(1,4) by (auto simp: composite_CurrentPrefix_def pd_ops_def PD_CurrentPrefix_def pd_leases_ok_def)
  then show ?thesis
    using Some by (simp add: composite_Source_def pd_ops_def PD_CurrentPrefix_def PD_Source_def pd_lease_ok_def)
next
  case None
  then have "ra_currentPrefix r = Some x"
    using assms(2,4) by (auto simp: composite_CurrentPrefix_def pd_ops_def PD_CurrentPrefix_def sub_ops_def
        sub_CurrentPrefix_def RA_CurrentPrefix_def)
  moreover from this have "ra_lease_ok rapol x"
    using assms(3) by (simp add: ra_leases_ok_def)
  ultimately show ?thesis
    using None assms(2)
    by (simp add: composite_Source_def pd_ops_def PD_CurrentPrefix_def sub_ops_def sub_CurrentPrefix_def
        RA_CurrentPrefix_def sub_Source_def RA_Source_def ra_lease_ok_def)
qed

theorem composite_source_matches_prefix_witness:
  "let p = (NewDHCPv6PDReceiver ''eth0'' 56)\<lparr>pd_currentPrefix := Some pd_sample_prefix,
         pd_lease := Some \<lparr>IAID = [0, 0, 0, 2], lease_Prefix = Network pd_sample_prefix, T1 = 1800 * second,
           T2 = 2880 * second, lease_ValidLifetime = 3600 * second, lease_PreferredLifetime = 1800 * second,
           lease_ReceivedAt = 5, ServerID = [7]\<rparr>\<rparr>
   in composite_Source pd_ops (sub_ops 1) (NewCompositeReceiver, p, sample_pool) = SourceDHCPv6PD"
proof -
  let ?p = "(NewDHCPv6PDReceiver ''eth0'' 56)\<lparr>pd_currentPrefix := Some pd_sample_prefix,
         pd_lease := Some \<lparr>IAID = [0, 0, 0, 2], lease_Prefix = Network pd_sample_prefix, T1 = 1800 * second,
           T2 = 2880 * second, lease_ValidLifetime = 3600 * second, lease_PreferredLifetime = 1800 * second,
           lease_ReceivedAt = 5, ServerID = [7]\<rparr>\<rparr>"
  have "Masked (Network pd_sample_prefix) = Network pd_sample_prefix"
    by (simp add: pd_sample_prefix_def go_eval)
  then have "pd_lease_ok DefaultPolicy pd_sample_prefix"
    using pd_sample_policy by (simp add: pd_lease_ok_def pd_sample_prefix_def second_def)
  then have 1: "pd_leases_ok DefaultPolicy ?p"
    by (simp add: pd_leases_ok_def NewDHCPv6PDReceiver_def NewDHCPv6PDReceiverWithPolicy_def
        same_delegation_def pd_sample_prefix_def)
  obtain r where 2: "sub_receiver 1 sample_pool = Some r" "ra_leases_ok DefaultRAPolicy r"
    by (simp add: sub_receiver_def sample_pool_def subscribe_def newSharedRAReceiverPool_def sub_Start_def
        set_started_def addSubscriber_def RA_Start_def NewRAReceiverWithPolicy_def sample_env_def Let_def
        ra_leases_ok_def)
  have 3: "composite_CurrentPrefix pd_ops (sub_ops 1) (NewCompositeReceiver, ?p, sample_pool) = Some pd_sample_prefix"
    by (simp add: composite_CurrentPrefix_def pd_ops_def PD_CurrentPrefix_def)
  show ?thesis
    using composite_source_matches_prefix [OF 1 2 3] by (simp add: Let_def pd_sample_prefix_def)
qed

subsection \<open>Failover\<close>

text \<open>The primary's events since it last succeeded, newest first.\<close>

definition succeeded :: "Event \<Rightarrow> bool" where
  "succeeded ev \<longleftrightarrow> event_Type ev \<in> {EventTypeAcquired, EventTypeRenewed, EventTypeChanged}"

definition since_success :: "Event list \<Rightarrow> Event list" where
  "since_success evs = takeWhile (\<lambda>ev. \<not> succeeded ev) (rev evs)"

definition failures :: "Event list \<Rightarrow> nat" where
  "failures evs = length (filter (\<lambda>ev. event_Type ev = EventTypeFailed) evs)"

lemma since_success_snoc: "since_success (evs @ [ev]) = (if succeeded ev then [] else ev # since_success evs)"
  by (simp add: since_success_def)

lemma handlePrimaryEvent_fields:
  "co_maxFailures (handlePrimaryEvent fp ev c) = co_maxFailures c"
  "co_consecutiveFailures (handlePrimaryEvent fp ev c) =
     (if event_Type ev = EventTypeFailed then co_consecutiveFailures c + 1
      else if succeeded ev then 0 else co_consecutiveFailures c)"
  "co_active (handlePrimaryEvent fp ev c) =
     (if event_Type ev = EventTypeFailed then
        (if co_consecutiveFailures c + 1 \<ge> co_maxFailures c then Fallback else co_active c)
      else if succeeded ev then Primary
      else if fp \<noteq> None then Fallback else co_active c)"
  by (auto simp: handlePrimaryEvent_def co_sendEvent_def succeeded_def Let_def split: EventType.splits)



end
