(* ===== verification/API_Types.thy ===== *)
theory API_Types
  imports Receiver_Core
begin

text \<open>
  The DynamicPrefix resource of \<^verbatim>\<open>api/v1alpha1/dynamicprefix_types.go\<close>: its specification and status as
  the Go structs have them (a pointer field is an option), the accessors that apply the documented
  defaults, and the parts of the Kubernetes metadata the controllers read.
\<close>

subsection \<open>Specification\<close>

record PrefixFilterSpec =
  pf_RequireGlobalUnicast :: "bool option"
  pf_MinPrefixLength :: "int option"
  pf_MaxPrefixLength :: "int option"

record DHCPv6PDSpec =
  dhcp_Interface :: string
  dhcp_RequestedPrefixLength :: "int option"

record RouterAdvertisementSpec =
  raspec_Interface :: string
  raspec_Enabled :: "bool option"
  raspec_TrustedRouters :: "string list"

record AcquisitionSpec =
  acq_DHCPv6PD :: "DHCPv6PDSpec option"
  acq_RouterAdvertisement :: "RouterAdvertisementSpec option"
  acq_PrefixFilter :: "PrefixFilterSpec option"

record AddressRangeSpec =
  ars_Name :: string
  ars_Start :: string
  ars_End :: string

record SubnetBGPSpec =
  bgp_Advertise :: bool
  bgp_Community :: string

record SubnetSpec =
  sns_Name :: string
  sns_Offset :: int
  sns_PrefixLength :: int
  sns_BGP :: "SubnetBGPSpec option"

datatype TransitionMode = TransitionModeUnset | TransitionModeSimple | TransitionModeHA

record TransitionSpec =
  tr_Mode :: TransitionMode
  tr_MaxPrefixHistory :: int

record DynamicPrefixSpec =
  spec_Acquisition :: AcquisitionSpec
  spec_AddressRanges :: "AddressRangeSpec list"
  spec_Subnets :: "SubnetSpec list"
  spec_Transition :: "TransitionSpec option"

subsection \<open>Status\<close>

datatype PrefixSource =
    PrefixSourceUnset
  | PrefixSourceDHCPv6PD
  | PrefixSourceRouterAdvertisement
  | PrefixSourceStatic
  | PrefixSourceUnknown

record AddressRangeStatus =
  arst_Name :: string
  arst_Start :: string
  arst_End :: string
  arst_CIDR :: string

record SubnetStatus =
  snst_Name :: string
  snst_CIDR :: string
  snst_BGPAdvertisement :: string

datatype PrefixState = PrefixStateActive | PrefixStateDraining | PrefixStateExpired

record PrefixHistoryEntry =
  hist_Prefix :: string
  hist_AcquiredAt :: instant
  hist_DeprecatedAt :: "instant option"
  hist_State :: PrefixState

text \<open>\<^verbatim>\<open>metav1.Condition\<close>.\<close>

datatype ConditionStatus = ConditionTrue | ConditionFalse | ConditionUnknown

record Condition =
  cond_Type :: string
  cond_Status :: ConditionStatus
  cond_ObservedGeneration :: int
  cond_LastTransitionTime :: instant
  cond_Reason :: string
  cond_Message :: string

record DynamicPrefixStatus =
  st_CurrentPrefix :: string
  st_PrefixSource :: PrefixSource
  st_LeaseExpiresAt :: "instant option"
  st_AddressRanges :: "AddressRangeStatus list"
  st_Subnets :: "SubnetStatus list"
  st_History :: "PrefixHistoryEntry list"
  st_Conditions :: "Condition list"

definition ConditionTypePrefixAcquired :: string where
  "ConditionTypePrefixAcquired = ''PrefixAcquired''"
definition ConditionTypePoolsSynced :: string where
  "ConditionTypePoolsSynced = ''PoolsSynced''"
definition ConditionTypeDegraded :: string where
  "ConditionTypeDegraded = ''Degraded''"
definition ConditionTypeBGPAdvertisementReady :: string where
  "ConditionTypeBGPAdvertisementReady = ''BGPAdvertisementReady''"
definition ConditionTypeCrowdSecMarkersSynced :: string where
  "ConditionTypeCrowdSecMarkersSynced = ''CrowdSecMarkersSynced''"

text \<open>The resource, with the metadata the controllers read.\<close>

record DynamicPrefix =
  dp_Name :: string
  dp_Generation :: int
  dp_CreationTimestamp :: instant
  dp_Deleting :: bool
  dp_Finalizers :: "string list"
  dp_Annotations :: "string \<rightharpoonup> string"
  dp_Spec :: DynamicPrefixSpec
  dp_Status :: DynamicPrefixStatus

subsection \<open>Accessors\<close>

definition RAEnabled :: "RouterAdvertisementSpec option \<Rightarrow> bool" where
  "RAEnabled s =
     (case s of
        None \<Rightarrow> False
      | Some spec \<Rightarrow> (case raspec_Enabled spec of None \<Rightarrow> True | Some b \<Rightarrow> b))"

definition PrefixLengthBounds :: "DynamicPrefix \<Rightarrow> int \<times> int" where
  "PrefixLengthBounds dp =
     (case acq_PrefixFilter (spec_Acquisition (dp_Spec dp)) of
        None \<Rightarrow> (0, 0)
      | Some f \<Rightarrow>
          ((case pf_MinPrefixLength f of None \<Rightarrow> 0 | Some n \<Rightarrow> n),
           (case pf_MaxPrefixLength f of None \<Rightarrow> 0 | Some n \<Rightarrow> n)))"

definition dp_RequireGlobalUnicast :: "DynamicPrefix \<Rightarrow> bool" where
  "dp_RequireGlobalUnicast dp =
     (case acq_PrefixFilter (spec_Acquisition (dp_Spec dp)) of
        None \<Rightarrow> True
      | Some f \<Rightarrow> (case pf_RequireGlobalUnicast f of None \<Rightarrow> True | Some b \<Rightarrow> b))"

end
