(* ===== verification/Factory.thy ===== *)
theory Factory
  imports Composite_Receiver API_Types
begin

text \<open>
  The receiver factory of \<^verbatim>\<open>internal/prefix/factory.go\<close>: acceptance policies from the specification,
  the choice of receiver, and the claims that keep a second DHCPv6-PD client off an interface.
  Receivers are objects the caller holds by reference; the factory's record keeps them in
  stores next to the pool and the set of claimed interfaces, so that \<^verbatim>\<open>releaseInterface\<close>, a closure
  over the factory, is the removal of the interface when a claim is handed back.
\<close>

subsection \<open>Policies\<close>

definition policyFromSpec :: "AcquisitionSpec \<Rightarrow> Policy" where
  "policyFromSpec spec =
     (case acq_PrefixFilter spec of
        None \<Rightarrow> DefaultPolicy
      | Some flt \<Rightarrow>
          let p0 = DefaultPolicy;
              p1 = (case pf_RequireGlobalUnicast flt of None \<Rightarrow> p0 | Some b \<Rightarrow> p0\<lparr>RequireGlobalUnicast := b\<rparr>);
              p2 = (case pf_MinPrefixLength flt of None \<Rightarrow> p1 | Some n \<Rightarrow> p1\<lparr>MinPrefixLength := n\<rparr>)
          in (case pf_MaxPrefixLength flt of None \<Rightarrow> p2 | Some n \<Rightarrow> p2\<lparr>MaxPrefixLength := n\<rparr>))"

datatype factory_error =
    InterfaceBusyError string
  | NoAcquisitionMethod
  | PDInterfaceRequired
  | RAInterfaceRequired
  | TrustedRouterInvalid router_error
  | PrimaryCreationFailed factory_error
  | FallbackCreationFailed factory_error

definition raPolicyFromSpec :: "AcquisitionSpec \<Rightarrow> factory_error + RAPolicy" where
  "raPolicyFromSpec spec =
     (case acq_RouterAdvertisement spec of
        None \<Rightarrow> Ok \<lparr>ra_Policy = policyFromSpec spec, TrustedRouters = []\<rparr>
      | Some ra \<Rightarrow>
          (case ParseTrustedRouters (raspec_TrustedRouters ra) of
             Inl e \<Rightarrow> Err (TrustedRouterInvalid e)
           | Inr routers \<Rightarrow> Ok \<lparr>ra_Policy = policyFromSpec spec, TrustedRouters = routers\<rparr>))"

subsection \<open>The factory and the receivers it has built\<close>

record DefaultReceiverFactory =
  fa_pool :: sharedRAReceiverPool
  fa_pdInterfaces :: "string set"
  fa_onRAReject :: bool
  fa_onRAHopLimit :: bool
  fa_pd :: "nat \<rightharpoonup> DHCPv6PDReceiver"
  fa_co :: "nat \<rightharpoonup> CompositeReceiver \<times> nat \<times> nat"
  fa_next :: nat

datatype receiver_ref = RefPD nat | RefSub nat | RefComposite nat

definition NewReceiverFactory :: "bool \<Rightarrow> bool \<Rightarrow> DefaultReceiverFactory" where
  "NewReceiverFactory onReject onHopLimit =
     \<lparr>fa_pool = newSharedRAReceiverPool, fa_pdInterfaces = {}, fa_onRAReject = onReject,
      fa_onRAHopLimit = onHopLimit, fa_pd = Map.empty, fa_co = Map.empty, fa_next = 0\<rparr>"

definition claimPDInterface :: "string \<Rightarrow> DefaultReceiverFactory \<Rightarrow> factory_error + DefaultReceiverFactory" where
  "claimPDInterface iface f =
     (if iface \<in> fa_pdInterfaces f then Err (InterfaceBusyError iface)
      else Ok (f\<lparr>fa_pdInterfaces := insert iface (fa_pdInterfaces f)\<rparr>))"

text \<open>
  Storing a client back.  When its claim has just been handed back, the closure
  \<^verbatim>\<open>delete(f.pdInterfaces, iface)\<close> has run.
\<close>

definition put_pd :: "nat \<Rightarrow> DHCPv6PDReceiver \<Rightarrow> DefaultReceiverFactory \<Rightarrow> DefaultReceiverFactory" where
  "put_pd n r' f =
     f\<lparr>fa_pd := (fa_pd f)(n \<mapsto> r'),
       fa_pdInterfaces := (case fa_pd f n of
          Some r \<Rightarrow> if pd_claim r = Claimed \<and> pd_claim r' = Released
                    then fa_pdInterfaces f - {pd_iface r} else fa_pdInterfaces f
        | None \<Rightarrow> fa_pdInterfaces f)\<rparr>"

definition createDHCPv6PDReceiver ::
    "DHCPv6PDSpec \<Rightarrow> Policy \<Rightarrow> DefaultReceiverFactory \<Rightarrow> factory_error + nat \<times> DefaultReceiverFactory" where
  "createDHCPv6PDReceiver spec policy f =
     (if dhcp_Interface spec = [] then Err PDInterfaceRequired
      else let prefixLength = (case dhcp_RequestedPrefixLength spec of None \<Rightarrow> 56 | Some n \<Rightarrow> n) in
        (case claimPDInterface (dhcp_Interface spec) f of
           Inl e \<Rightarrow> Err e
         | Inr f' \<Rightarrow>
             Ok (fa_next f',
                 f'\<lparr>fa_pd := (fa_pd f')(fa_next f' \<mapsto>
                      (NewDHCPv6PDReceiverWithPolicy (dhcp_Interface spec) prefixLength policy)\<lparr>pd_claim := Claimed\<rparr>),
                    fa_next := fa_next f' + 1\<rparr>)))"

definition createRAReceiver ::
    "RouterAdvertisementSpec \<Rightarrow> RAPolicy \<Rightarrow> DefaultReceiverFactory \<Rightarrow> factory_error + nat \<times> DefaultReceiverFactory" where
  "createRAReceiver spec policy f =
     (if raspec_Interface spec = [] then Err RAInterfaceRequired
      else case subscribe (\<lambda>i pol. NewRAReceiverWithPolicy i pol (fa_onRAReject f) (fa_onRAHopLimit f))
                  (raspec_Interface spec) policy (fa_pool f) of
        (sub, pool) \<Rightarrow> Ok (sub, f\<lparr>fa_pool := pool\<rparr>))"

text \<open>A failed creation may leave the factory changed, so it is part of the result either way.\<close>

definition release_pd :: "nat \<Rightarrow> DefaultReceiverFactory \<Rightarrow> DefaultReceiverFactory" where
  "release_pd n f =
     (case fa_pd f n of None \<Rightarrow> f | Some r \<Rightarrow> put_pd n (releaseClaimedInterface r) f)"

definition createCompositeReceiver ::
    "AcquisitionSpec \<Rightarrow> DHCPv6PDSpec \<Rightarrow> RouterAdvertisementSpec \<Rightarrow> DefaultReceiverFactory \<Rightarrow>
     (factory_error + receiver_ref) \<times> DefaultReceiverFactory" where
  "createCompositeReceiver spec pdSpec raSpec f =
     (case raPolicyFromSpec spec of
        Inl e \<Rightarrow> (Err e, f)
      | Inr raPolicy \<Rightarrow>
          (case createDHCPv6PDReceiver pdSpec (ra_Policy raPolicy) f of
             Inl e \<Rightarrow> (Err (PrimaryCreationFailed e), f)
           | Inr (n, f1) \<Rightarrow>
               (case createRAReceiver raSpec raPolicy f1 of
                  Inl e \<Rightarrow> (Err (FallbackCreationFailed e), release_pd n f1)
                | Inr (sub, f2) \<Rightarrow>
                    (Ok (RefComposite (fa_next f2)),
                     f2\<lparr>fa_co := (fa_co f2)(fa_next f2 \<mapsto> (NewCompositeReceiver, n, sub)),
                        fa_next := fa_next f2 + 1\<rparr>))))"

definition CreateReceiver ::
    "AcquisitionSpec \<Rightarrow> DefaultReceiverFactory \<Rightarrow> (factory_error + receiver_ref) \<times> DefaultReceiverFactory" where
  "CreateReceiver spec f =
     (case (acq_DHCPv6PD spec, if RAEnabled (acq_RouterAdvertisement spec) then acq_RouterAdvertisement spec else None) of
        (Some pdSpec, Some raSpec) \<Rightarrow> createCompositeReceiver spec pdSpec raSpec f
      | (Some pdSpec, None) \<Rightarrow>
          (case createDHCPv6PDReceiver pdSpec (policyFromSpec spec) f of
             Inl e \<Rightarrow> (Err e, f) | Inr (n, f') \<Rightarrow> (Ok (RefPD n), f'))
      | (None, Some raSpec) \<Rightarrow>
          (case raPolicyFromSpec spec of
             Inl e \<Rightarrow> (Err e, f)
           | Inr raPolicy \<Rightarrow>
               (case createRAReceiver raSpec raPolicy f of
                  Inl e \<Rightarrow> (Err e, f) | Inr (sub, f') \<Rightarrow> (Ok (RefSub sub), f')))
      | (None, None) \<Rightarrow> (Err NoAcquisitionMethod, f))"

subsection \<open>Calls on the receivers\<close>

type_synonym receiver_env = "ra_start_env \<times> string option"

definition receiver_Start ::
    "receiver_env \<Rightarrow> receiver_ref \<Rightarrow> DefaultReceiverFactory \<Rightarrow> recv_error option \<times> DefaultReceiverFactory" where
  "receiver_Start env ref f =
     (case ref of
        RefPD n \<Rightarrow>
          (case fa_pd f n of
             None \<Rightarrow> (None, f)
           | Some r \<Rightarrow> (case PD_Start r of (err, r') \<Rightarrow> (err, put_pd n r' f)))
      | RefSub sub \<Rightarrow>
          (case sub_Start (fst env) sub (fa_pool f) of (err, pool) \<Rightarrow> (err, f\<lparr>fa_pool := pool\<rparr>))
      | RefComposite k \<Rightarrow>
          (case fa_co f k of
             None \<Rightarrow> (None, f)
           | Some (c, n, sub) \<Rightarrow>
               (case fa_pd f n of
                  None \<Rightarrow> (None, f)
                | Some r \<Rightarrow>
                    (case composite_Start pd_ops (sub_ops sub) ((), env) (c, r, fa_pool f) of
                       (err, (c', r', pool)) \<Rightarrow>
                         (err, put_pd n r' (f\<lparr>fa_co := (fa_co f)(k \<mapsto> (c', n, sub)), fa_pool := pool\<rparr>))))))"

definition receiver_Stop ::
    "receiver_env \<Rightarrow> receiver_ref \<Rightarrow> DefaultReceiverFactory \<Rightarrow> (recv_error option \<times> DefaultReceiverFactory) option" where
  "receiver_Stop env ref f =
     (case ref of
        RefPD n \<Rightarrow>
          (case fa_pd f n of
             None \<Rightarrow> Some (None, f)
           | Some r \<Rightarrow> map_option (\<lambda>(err, r'). (err, put_pd n r' f)) (PD_Stop r))
      | RefSub sub \<Rightarrow>
          map_option (\<lambda>(err, pool). (err, f\<lparr>fa_pool := pool\<rparr>)) (sub_Stop (snd env) sub (fa_pool f))
      | RefComposite k \<Rightarrow>
          (case fa_co f k of
             None \<Rightarrow> Some (None, f)
           | Some (c, n, sub) \<Rightarrow>
               (case fa_pd f n of
                  None \<Rightarrow> Some (None, f)
                | Some r \<Rightarrow>
                    map_option (\<lambda>(err, (c', r', pool)).
                        (err, put_pd n r' (f\<lparr>fa_co := (fa_co f)(k \<mapsto> (c', n, sub)), fa_pool := pool\<rparr>)))
                      (composite_Stop pd_ops (sub_ops sub) ((), env) (c, r, fa_pool f)))))"

definition receiver_CurrentPrefix :: "receiver_ref \<Rightarrow> DefaultReceiverFactory \<Rightarrow> Prefix option" where
  "receiver_CurrentPrefix ref f =
     (case ref of
        RefPD n \<Rightarrow> Option.bind (fa_pd f n) PD_CurrentPrefix
      | RefSub sub \<Rightarrow> sub_CurrentPrefix sub (fa_pool f)
      | RefComposite k \<Rightarrow>
          Option.bind (fa_co f k) (\<lambda>(c, n, sub). Option.bind (fa_pd f n) (\<lambda>r.
            composite_CurrentPrefix pd_ops (sub_ops sub) (c, r, fa_pool f))))"

subsection \<open>Claims\<close>

text \<open>
  The claimed interfaces are those of the clients that hold a claim, one client each, and only
  clients with a claim run.
\<close>

definition claim_of :: "DHCPv6PDReceiver \<Rightarrow> string option" where
  "claim_of r = (if pd_claim r = Claimed then Some (pd_iface r) else None)"

definition holder :: "DefaultReceiverFactory \<Rightarrow> nat \<rightharpoonup> string" where
  "holder f n = Option.bind (fa_pd f n) claim_of"

definition claims_ok :: "DefaultReceiverFactory \<Rightarrow> bool" where
  "claims_ok f \<longleftrightarrow>
     fa_pdInterfaces f = ran (holder f) \<and>
     (\<forall>n m i. holder f n = Some i \<longrightarrow> holder f m = Some i \<longrightarrow> n = m) \<and>
     (\<forall>n r. fa_pd f n = Some r \<longrightarrow> n < fa_next f \<and> pd_channels_ok r \<and> (pd_started r \<longrightarrow> pd_claim r = Claimed))"

definition plain_pool :: "sharedRAReceiverPool \<Rightarrow> bool" where
  "plain_pool p \<longleftrightarrow> (\<forall>ref e. pl_entry p ref = Some e \<longrightarrow> plain_routers (TrustedRouters (ra_policy (en_receiver e))))"

lemma holder_put_pd: "holder (put_pd n r' f) = (holder f)(n := claim_of r')"
  by (auto simp: holder_def put_pd_def fun_eq_iff)

lemma put_pd_ok:
  assumes ok: "claims_ok f" and r: "fa_pd f n = Some r" and iface: "pd_iface r' = pd_iface r"
    and claim: "pd_claim r' = pd_claim r \<or> pd_claim r = Claimed \<and> pd_claim r' = Released"
    and ch: "pd_channels_ok r'" "pd_started r' \<Longrightarrow> pd_claim r' = Claimed"
  shows "claims_ok (put_pd n r' f)"
proof -
  have h: "holder f n = claim_of r"
    using r by (simp add: holder_def)
  have rest: "\<forall>m q. fa_pd (put_pd n r' f) m = Some q \<longrightarrow>
      m < fa_next (put_pd n r' f) \<and> pd_channels_ok q \<and> (pd_started q \<longrightarrow> pd_claim q = Claimed)"
    using ok r ch by (auto simp: claims_ok_def put_pd_def)
  show ?thesis
  proof (cases "pd_claim r' = pd_claim r")
    case True
    then have "claim_of r' = holder f n"
      using h iface by (simp add: claim_of_def)
    then have "holder (put_pd n r' f) = holder f"
      by (simp add: holder_put_pd)
    moreover have "fa_pdInterfaces (put_pd n r' f) = fa_pdInterfaces f"
      using r True by (auto simp: put_pd_def)
    ultimately show ?thesis
      using ok rest by (simp add: claims_ok_def)
  next
    case False
    then have c: "pd_claim r = Claimed" "pd_claim r' = Released"
      using claim by auto
    then have set: "fa_pdInterfaces (put_pd n r' f) = fa_pdInterfaces f - {pd_iface r}"
      using r by (simp add: put_pd_def)
    have hn: "holder f n = Some (pd_iface r)" and hp: "holder (put_pd n r' f) = (holder f)(n := None)"
      using c h by (simp_all add: claim_of_def holder_put_pd)
    have uniq: "\<forall>n m i. holder f n = Some i \<longrightarrow> holder f m = Some i \<longrightarrow> n = m"
      using ok by (simp add: claims_ok_def)
    then have "ran ((holder f)(n := None)) = ran (holder f) - {pd_iface r}"
      using hn by (auto simp: ran_def split: if_splits) (metis option.inject)
    then show ?thesis
      using ok rest uniq set hp by (simp add: claims_ok_def)
  qed
qed

text \<open>What the calls do to a client's claim.\<close>

lemma PD_Start_claim: "pd_claim (snd (PD_Start r)) = pd_claim r" "pd_iface (snd (PD_Start r)) = pd_iface r"
  by (simp_all add: PD_Start_def)

lemma PD_Stop_claim:
  assumes "PD_Stop r = Some (err, r')"
  shows "pd_iface r' = pd_iface r" "pd_claim r' = (if pd_claim r = NoClaim then NoClaim else Released)"
    "\<not> pd_started r'"
  using assms by (auto simp: PD_Stop_def releaseClaimedInterface_def Let_def split: if_splits)

lemma PD_Stop_channels:
  assumes "pd_channels_ok r" "PD_Stop r = Some (err, r')"
  shows "pd_channels_ok r'"
  using PD_Stop_returns [OF assms(1)] assms(2) by auto

text \<open>Storing back a client that has been started or stopped.\<close>

lemma put_pd_start:
  assumes "claims_ok f" "fa_pd f n = Some r" "pd_claim r = Claimed"
  shows "claims_ok (put_pd n (snd (PD_Start r)) f)"
proof -
  have "pd_channels_ok r"
    using assms by (simp add: claims_ok_def)
  then show ?thesis
    using PD_Start_channels [of r] PD_Start_claim [of r] assms by (intro put_pd_ok [OF assms(1,2)]) simp_all
qed

lemma claim_cases: "pd_claim r = NoClaim \<or> pd_claim r = Claimed \<or> pd_claim r = Released"
  by (cases "pd_claim r") auto

lemma put_pd_stop:
  assumes "claims_ok f" "fa_pd f n = Some r" "PD_Stop r = Some (err, r')"
  shows "claims_ok (put_pd n r' f)"
proof -
  have ch: "pd_channels_ok r"
    using assms by (simp add: claims_ok_def)
  have c: "pd_claim r' = pd_claim r \<or> pd_claim r = Claimed \<and> pd_claim r' = Released"
    using PD_Stop_claim(2) [OF assms(3)] claim_cases [of r] by auto
  show ?thesis
    using PD_Stop_channels [OF ch assms(3)] PD_Stop_claim [OF assms(3)] c
    by (intro put_pd_ok [OF assms(1,2)]) simp_all
qed

text \<open>A composite's start leaves its client started, or started and stopped again.\<close>

lemma composite_Start_client:
  assumes "composite_Start pd_ops ops env (c, r, p) = (err, (c', r', p'))" "pd_channels_ok r"
  shows "r' = r \<or> r' = snd (PD_Start r) \<or> (\<exists>e. PD_Stop (snd (PD_Start r)) = Some (e, r'))"
  using assms by (auto simp: composite_Start_def pd_ops_def split: prod.splits if_splits option.splits)

lemma composite_Stop_client:
  assumes "composite_Stop pd_ops ops env (c, r, p) = Some (err, (c', r', p'))"
  shows "\<exists>e. PD_Stop r = Some (e, r')"
  using assms
  by (auto simp: composite_Stop_def pd_ops_def split: prod.splits if_splits Option.bind_splits)

text \<open>Creation.\<close>

lemma createDHCPv6PD_ok:
  assumes "claims_ok f" "createDHCPv6PDReceiver spec policy f = Ok (n, f')"
  shows "claims_ok f'" "fa_pd f n = None" "fa_pool f' = fa_pool f"
    "\<exists>r. fa_pd f' n = Some r \<and> pd_claim r = Claimed \<and> pd_iface r = dhcp_Interface spec \<and> pd_policy r = policy \<and> \<not> pd_started r"
    "fa_pdInterfaces f' = insert (dhcp_Interface spec) (fa_pdInterfaces f)" "dhcp_Interface spec \<notin> fa_pdInterfaces f"
    "\<And>m. m \<noteq> n \<Longrightarrow> fa_pd f' m = fa_pd f m"
proof -
  let ?i = "dhcp_Interface spec"
  let ?len = "case dhcp_RequestedPrefixLength spec of None \<Rightarrow> 56 | Some n \<Rightarrow> n"
  let ?r = "(NewDHCPv6PDReceiverWithPolicy ?i ?len policy)\<lparr>pd_claim := Claimed\<rparr>"
  have free: "?i \<notin> fa_pdInterfaces f"
    and n: "n = fa_next f"
    and f': "f' = f\<lparr>fa_pdInterfaces := insert ?i (fa_pdInterfaces f), fa_pd := (fa_pd f)(n \<mapsto> ?r), fa_next := n + 1\<rparr>"
    using assms(2) by (auto simp: createDHCPv6PDReceiver_def claimPDInterface_def Let_def split: if_splits sum.splits)
  have none: "fa_pd f n = None"
    using assms(1) n unfolding claims_ok_def by (meson less_irrefl not_None_eq)
  have r: "pd_claim ?r = Claimed" "pd_iface ?r = ?i" "pd_policy ?r = policy" "\<not> pd_started ?r" "pd_channels_ok ?r"
    by (simp_all add: NewDHCPv6PDReceiverWithPolicy_def pd_channels_ok_def)
  have h: "holder f' = (holder f)(n \<mapsto> ?i)"
    using r by (auto simp: holder_def f' fun_eq_iff claim_of_def)
  have hn: "holder f n = None"
    using none by (simp add: holder_def)
  have nr: "holder f m \<noteq> Some ?i" for m
    using free assms(1) by (auto simp: claims_ok_def ran_def)
  have A: "ran ((holder f)(n \<mapsto> ?i)) = insert ?i (ran (holder f))"
    using hn by simp
  have B: "\<forall>a b i. ((holder f)(n \<mapsto> ?i)) a = Some i \<longrightarrow> ((holder f)(n \<mapsto> ?i)) b = Some i \<longrightarrow> a = b"
    using assms(1) nr unfolding claims_ok_def by (metis fun_upd_apply option.inject)
  have C: "\<forall>m q. fa_pd f' m = Some q \<longrightarrow> m < fa_next f' \<and> pd_channels_ok q \<and> (pd_started q \<longrightarrow> pd_claim q = Claimed)"
  proof (intro allI impI)
    fix m q
    assume "fa_pd f' m = Some q"
    then show "m < fa_next f' \<and> pd_channels_ok q \<and> (pd_started q \<longrightarrow> pd_claim q = Claimed)"
      using assms(1) r n by (cases "m = n") (auto simp: f' claims_ok_def intro: less_SucI)
  qed
  have D: "fa_pdInterfaces f' = insert ?i (ran (holder f))"
    using assms(1) by (simp add: f' claims_ok_def)
  show "claims_ok f'"
    unfolding claims_ok_def h by (intro conjI B C) (simp only: A D)
  show "fa_pd f n = None" "fa_pool f' = fa_pool f" "?i \<notin> fa_pdInterfaces f"
    "fa_pdInterfaces f' = insert ?i (fa_pdInterfaces f)" "\<And>m. m \<noteq> n \<Longrightarrow> fa_pd f' m = fa_pd f m"
    "\<exists>r. fa_pd f' n = Some r \<and> pd_claim r = Claimed \<and> pd_iface r = ?i \<and> pd_policy r = policy \<and> \<not> pd_started r"
    using none free f' r by simp_all
qed

lemma createRA_fields:
  assumes "createRAReceiver spec policy f = Ok (sub, f')"
  shows "fa_pd f' = fa_pd f" "fa_pdInterfaces f' = fa_pdInterfaces f" "fa_next f' = fa_next f"
    "fa_pool f' = snd (subscribe (\<lambda>i pol. NewRAReceiverWithPolicy i pol (fa_onRAReject f) (fa_onRAHopLimit f))
       (raspec_Interface spec) policy (fa_pool f))"
  using assms by (auto simp: createRAReceiver_def split: if_splits prod.splits)

lemma claims_ok_cong:
  assumes "fa_pd g = fa_pd f" "fa_pdInterfaces g = fa_pdInterfaces f" "fa_next f \<le> fa_next g"
  shows "claims_ok f \<Longrightarrow> claims_ok g"
proof -
  have "holder g = holder f"
    using assms by (simp add: holder_def fun_eq_iff)
  then show "claims_ok f \<Longrightarrow> claims_ok g"
    using assms by (fastforce simp: claims_ok_def)
qed

lemma release_pd_ok:
  assumes "claims_ok f" "fa_pd f n = Some r" "\<not> pd_started r"
  shows "claims_ok (release_pd n f)"
proof -
  have "pd_channels_ok r"
    using assms by (simp add: claims_ok_def)
  then have "pd_channels_ok (releaseClaimedInterface r)"
    by (simp add: pd_channels_ok_def)
  moreover have "pd_claim (releaseClaimedInterface r) = pd_claim r \<or>
      pd_claim r = Claimed \<and> pd_claim (releaseClaimedInterface r) = Released"
    using claim_cases [of r] by (auto simp: releaseClaimedInterface_def)
  moreover have "pd_iface (releaseClaimedInterface r) = pd_iface r"
    by (simp add: releaseClaimedInterface_def)
  ultimately show ?thesis
    using assms by (simp add: release_pd_def) (intro put_pd_ok [OF assms(1,2)], simp_all)
qed

text \<open>A failed creation gives back what it claimed.\<close>

lemma CreateReceiver_claims:
  assumes "claims_ok f" "CreateReceiver spec f = (res, f')"
  shows "claims_ok f'" "res = Err e \<Longrightarrow> fa_pdInterfaces f' = fa_pdInterfaces f"
proof -
  have *: "claims_ok f' \<and> (\<forall>e. res = Err e \<longrightarrow> fa_pdInterfaces f' = fa_pdInterfaces f)"
  proof (cases "acq_DHCPv6PD spec")
    case None
    then show ?thesis
      using assms claims_ok_cong [of f' f]
      by (auto simp: CreateReceiver_def createRA_fields split: option.splits sum.splits if_splits)
  next
    case (Some pdSpec)
    show ?thesis
    proof (cases "\<exists>ra. (if RAEnabled (acq_RouterAdvertisement spec) then acq_RouterAdvertisement spec else None) = Some ra")
      case False
      then have "res = map_sum id (RefPD \<circ> fst) (createDHCPv6PDReceiver pdSpec (policyFromSpec spec) f)"
        "\<And>n g. createDHCPv6PDReceiver pdSpec (policyFromSpec spec) f = Ok (n, g) \<Longrightarrow> f' = g"
        "\<And>x. createDHCPv6PDReceiver pdSpec (policyFromSpec spec) f = Err x \<Longrightarrow> f' = f"
        using assms(2) Some by (auto simp: CreateReceiver_def split: option.splits sum.splits if_splits prod.splits)
      then show ?thesis
        using assms(1) createDHCPv6PD_ok(1) [OF assms(1)]
        by (cases "createDHCPv6PDReceiver pdSpec (policyFromSpec spec) f") auto
    next
      case True
      then obtain raSpec where ra: "createCompositeReceiver spec pdSpec raSpec f = (res, f')"
        using assms(2) Some by (auto simp: CreateReceiver_def split: option.splits if_splits)
      consider (unchanged) "f' = f" | (made) pol n f1 where "raPolicyFromSpec spec = Ok pol"
          "createDHCPv6PDReceiver pdSpec (ra_Policy pol) f = Ok (n, f1)"
        using ra by (auto simp: createCompositeReceiver_def split: sum.splits)
      then show ?thesis
      proof cases
        case unchanged
        then show ?thesis
          using assms(1) by simp
      next
        case (made pol n f1)
        note d = createDHCPv6PD_ok [OF assms(1) made(2)]
        obtain r where r: "fa_pd f1 n = Some r" "pd_claim r = Claimed" "pd_iface r = dhcp_Interface pdSpec" "\<not> pd_started r"
          using d(4) by blast
        show ?thesis
        proof (cases "createRAReceiver raSpec pol f1")
          case (Inl x)
          then have f': "f' = release_pd n f1"
            using ra made by (simp add: createCompositeReceiver_def)
          have "fa_pdInterfaces f' = fa_pdInterfaces f"
            using r d(5,6) by (simp add: f' release_pd_def put_pd_def releaseClaimedInterface_def)
          then show ?thesis
            using release_pd_ok [OF d(1) r(1,4)] f' by simp
        next
          case (Inr y)
          obtain sub f2 where y: "y = (sub, f2)"
            by (cases y)
          have f': "f' = f2\<lparr>fa_co := (fa_co f2)(fa_next f2 \<mapsto> (NewCompositeReceiver, n, sub)), fa_next := fa_next f2 + 1\<rparr>"
            "res = Ok (RefComposite (fa_next f2))"
            using ra made Inr y by (auto simp: createCompositeReceiver_def)
          have "claims_ok f'"
            using createRA_fields [OF Inr [unfolded y]] d(1) by (intro claims_ok_cong [of f' f1]) (simp_all add: f')
          then show ?thesis
            using f' by simp
        qed
      qed
    qed
  qed
  then show "claims_ok f'" "res = Err e \<Longrightarrow> fa_pdInterfaces f' = fa_pdInterfaces f"
    by blast+
qed

subsection \<open>The factory at work\<close>

text \<open>
  A receiver is started only while its client still holds its claim: the reconciler starts what it
  has just created, and forgets a receiver it has stopped or could not start.
\<close>

definition startable :: "receiver_ref \<Rightarrow> DefaultReceiverFactory \<Rightarrow> bool" where
  "startable ref f =
     (case ref of
        RefPD n \<Rightarrow> (\<exists>r. fa_pd f n = Some r \<and> pd_claim r = Claimed)
      | RefSub sub \<Rightarrow> True
      | RefComposite k \<Rightarrow> (\<exists>c n sub r. fa_co f k = Some (c, n, sub) \<and> fa_pd f n = Some r \<and> pd_claim r = Claimed))"

inductive factory_step :: "DefaultReceiverFactory \<Rightarrow> DefaultReceiverFactory \<Rightarrow> bool" where
  factory_create: "CreateReceiver spec f = (res, f') \<Longrightarrow> factory_step f f'"
| factory_start: "startable ref f \<Longrightarrow> receiver_Start env ref f = (err, f') \<Longrightarrow> factory_step f f'"
| factory_stop: "receiver_Stop env ref f = Some (err, f') \<Longrightarrow> factory_step f f'"

lemma claims_ok_other:
  "claims_ok f \<Longrightarrow> claims_ok (f\<lparr>fa_co := c, fa_pool := p\<rparr>)" "claims_ok f \<Longrightarrow> claims_ok (f\<lparr>fa_pool := p\<rparr>)"
  by (auto intro: claims_ok_cong [of _ f])

lemma put_pd_start_stop:
  assumes "claims_ok f" "fa_pd f n = Some r" "pd_claim r = Claimed" "PD_Stop (snd (PD_Start r)) = Some (e, r')"
  shows "claims_ok (put_pd n r' f)"
proof -
  have "pd_channels_ok r"
    using assms by (simp add: claims_ok_def)
  then have "pd_channels_ok r'"
    using PD_Stop_channels [OF PD_Start_channels assms(4)] by blast
  then show ?thesis
    using PD_Stop_claim [OF assms(4)] PD_Start_claim [of r] assms(3)
    by (intro put_pd_ok [OF assms(1,2)]) simp_all
qed

lemma receiver_Start_claims:
  assumes "claims_ok f" "startable ref f" "receiver_Start env ref f = (err, f')"
  shows "claims_ok f'"
proof (cases ref)
  case (RefPD n)
  then obtain r where "fa_pd f n = Some r" "pd_claim r = Claimed"
    using assms(2) by (auto simp: startable_def)
  then show ?thesis
    using put_pd_start [OF assms(1), of n r] assms(3) RefPD by (auto simp: receiver_Start_def split: prod.splits)
next
  case (RefSub sub)
  then show ?thesis
    using assms claims_ok_other(2) by (auto simp: receiver_Start_def split: prod.splits)
next
  case (RefComposite k)
  then obtain c n sub r where k: "fa_co f k = Some (c, n, sub)" "fa_pd f n = Some r" "pd_claim r = Claimed"
    using assms(2) by (auto simp: startable_def)
  obtain c' r' p where st: "composite_Start pd_ops (sub_ops sub) ((), env) (c, r, fa_pool f) = (err, (c', r', p))"
    and f': "f' = put_pd n r' (f\<lparr>fa_co := (fa_co f)(k \<mapsto> (c', n, sub)), fa_pool := p\<rparr>)"
    using assms(3) RefComposite k by (auto simp: receiver_Start_def split: prod.splits)
  let ?g = "f\<lparr>fa_co := (fa_co f)(k \<mapsto> (c', n, sub)), fa_pool := p\<rparr>"
  have g: "claims_ok ?g" "fa_pd ?g n = Some r"
    using claims_ok_other(1) [OF assms(1)] k by simp_all
  have ch: "pd_channels_ok r"
    using assms(1) k by (simp add: claims_ok_def)
  consider "r' = r" | "r' = snd (PD_Start r)" | e where "PD_Stop (snd (PD_Start r)) = Some (e, r')"
    using composite_Start_client [OF st ch] by blast
  then have "claims_ok (put_pd n r' ?g)"
  proof cases
    case 1
    then show ?thesis
      using put_pd_ok [OF g, of r] ch k(3) by simp
  next
    case 2
    then show ?thesis
      using put_pd_start [OF g k(3)] by simp
  next
    case 3
    then show ?thesis
      using put_pd_start_stop [OF g k(3)] by blast
  qed
  then show ?thesis
    using f' by simp
qed

lemma receiver_Stop_claims:
  assumes "claims_ok f" "receiver_Stop env ref f = Some (err, f')"
  shows "claims_ok f'"
proof (cases ref)
  case (RefPD n)
  then show ?thesis
    using assms put_pd_stop [OF assms(1)] by (auto simp: receiver_Stop_def split: option.splits)
next
  case (RefSub sub)
  then show ?thesis
    using assms claims_ok_other(2) by (auto simp: receiver_Stop_def)
next
  case (RefComposite k)
  show ?thesis
  proof (cases "\<exists>c n sub r. fa_co f k = Some (c, n, sub) \<and> fa_pd f n = Some r")
    case False
    then show ?thesis
      using assms RefComposite by (auto simp: receiver_Stop_def split: option.splits prod.splits)
  next
    case True
    then obtain c n sub r where k: "fa_co f k = Some (c, n, sub)" "fa_pd f n = Some r"
      by blast
    obtain c' r' p where st: "composite_Stop pd_ops (sub_ops sub) ((), env) (c, r, fa_pool f) = Some (err, (c', r', p))"
      and f': "f' = put_pd n r' (f\<lparr>fa_co := (fa_co f)(k \<mapsto> (c', n, sub)), fa_pool := p\<rparr>)"
      using assms(2) RefComposite k by (auto simp: receiver_Stop_def)
    obtain e where "PD_Stop r = Some (e, r')"
      using composite_Stop_client [OF st] by blast
    then show ?thesis
      using put_pd_stop [OF claims_ok_other(1) [OF assms(1)]] k f' by simp
  qed
qed

lemma factory_step_ok:
  assumes "claims_ok f" "factory_step f f'"
  shows "claims_ok f'"
  using assms(2)
proof cases
  case (factory_create spec res)
  then show ?thesis
    using CreateReceiver_claims(1) [OF assms(1)] by blast
next
  case (factory_start ref env err)
  then show ?thesis
    using receiver_Start_claims [OF assms(1)] by blast
next
  case (factory_stop env ref err)
  then show ?thesis
    using receiver_Stop_claims [OF assms(1)] by blast
qed

lemma factory_initial_ok: "claims_ok (NewReceiverFactory o1 o2)"
  by (simp add: claims_ok_def NewReceiverFactory_def holder_def ran_def)

interpretation factory: transition_invariant "\<lambda>f. \<exists>o1 o2. f = NewReceiverFactory o1 o2" factory_step claims_ok
  using factory_initial_ok factory_step_ok by unfold_locales blast+

text \<open>
  C33: No interface ever has two DHCPv6-PD clients: in every reachable state two running clients on
  one interface are the same client, and an interface is reported busy exactly while some client
  holds the claim on it, so a claim handed back is free again and none is lost.
\<close>

theorem one_pd_client_per_interface:
  assumes "factory_step\<^sup>*\<^sup>* (NewReceiverFactory o1 o2) f"
    and "fa_pd f n = Some r" and "fa_pd f m = Some q" and "pd_started r" and "pd_started q"
    and "pd_iface r = pd_iface q"
  shows "n = m \<and>
     (claimPDInterface iface f = Err (InterfaceBusyError iface) \<longleftrightarrow>
        (\<exists>k p. fa_pd f k = Some p \<and> pd_claim p = Claimed \<and> pd_iface p = iface))"
proof
  have ok: "claims_ok f"
    using assms(1) by (intro factory.reachable_inv) blast+
  have "pd_claim r = Claimed" "pd_claim q = Claimed"
    using ok assms(2-5) by (auto simp: claims_ok_def)
  then have "holder f n = Some (pd_iface r)" "holder f m = Some (pd_iface r)"
    using assms(2,3,6) by (simp_all add: holder_def claim_of_def)
  then show "n = m"
    using ok unfolding claims_ok_def by blast
  have "iface \<in> ran (holder f) \<longleftrightarrow> (\<exists>k p. fa_pd f k = Some p \<and> pd_claim p = Claimed \<and> pd_iface p = iface)"
    by (auto simp: ran_def holder_def claim_of_def bind_eq_Some_conv)
  then show "claimPDInterface iface f = Err (InterfaceBusyError iface) \<longleftrightarrow>
      (\<exists>k p. fa_pd f k = Some p \<and> pd_claim p = Claimed \<and> pd_iface p = iface)"
    using ok by (simp add: claimPDInterface_def claims_ok_def)
qed

definition sample_acquisition :: AcquisitionSpec where
  "sample_acquisition =
     \<lparr>acq_DHCPv6PD = Some \<lparr>dhcp_Interface = ''wan'', dhcp_RequestedPrefixLength = None\<rparr>,
      acq_RouterAdvertisement = None, acq_PrefixFilter = None\<rparr>"

definition sample_factory :: DefaultReceiverFactory where
  "sample_factory =
     snd (receiver_Start (sample_env, None) (RefPD 0) (snd (CreateReceiver sample_acquisition (NewReceiverFactory False False))))"

lemma sample_factory_state:
  "\<exists>r. fa_pd sample_factory 0 = Some r \<and> pd_started r \<and> pd_iface r = ''wan'' \<and> pd_claim r = Claimed"
  "startable (RefPD 0) (snd (CreateReceiver sample_acquisition (NewReceiverFactory False False)))"
  by (simp_all add: sample_factory_def sample_acquisition_def CreateReceiver_def createDHCPv6PDReceiver_def
      NewReceiverFactory_def claimPDInterface_def RAEnabled_def receiver_Start_def PD_Start_def
      NewDHCPv6PDReceiverWithPolicy_def put_pd_def startable_def Let_def)

lemma sample_factory_reachable: "factory_step\<^sup>*\<^sup>* (NewReceiverFactory False False) sample_factory"
proof -
  let ?f1 = "snd (CreateReceiver sample_acquisition (NewReceiverFactory False False))"
  have "factory_step (NewReceiverFactory False False) ?f1"
    by (rule factory_create [OF prod.collapse [symmetric]])
  moreover have "factory_step ?f1 sample_factory"
    unfolding sample_factory_def
    by (rule factory_start [OF sample_factory_state(2) prod.collapse [symmetric]])
  ultimately show ?thesis
    by (meson converse_rtranclp_into_rtranclp rtranclp.rtrancl_refl)
qed

theorem one_pd_client_per_interface_witness:
  "claimPDInterface ''wan'' sample_factory = Err (InterfaceBusyError ''wan'')"
proof -
  obtain r where r: "fa_pd sample_factory 0 = Some r" "pd_started r" "pd_iface r = ''wan''" "pd_claim r = Claimed"
    using sample_factory_state(1) by blast
  show ?thesis
    using one_pd_client_per_interface [OF sample_factory_reachable r(1) r(1) r(2) r(2) refl, of "''wan''"] r by blast
qed

text \<open>
  Creating a receiver that fails claims nothing: whatever the reason (no method, no interface,
  a busy interface, an unreadable router list, or a fallback that cannot be built once the client
  already had its claim), the set of claimed interfaces is what it was before.
\<close>

theorem failed_creation_keeps_claims:
  assumes "factory_step\<^sup>*\<^sup>* (NewReceiverFactory o1 o2) f" and "CreateReceiver spec f = (Err e, f')"
  shows "fa_pdInterfaces f' = fa_pdInterfaces f"
proof -
  have "claims_ok f"
    using assms(1) by (intro factory.reachable_inv) blast+
  then show ?thesis
    using CreateReceiver_claims(2) assms(2) by blast
qed

theorem failed_creation_keeps_claims_witness:
  "let f = NewReceiverFactory False False;
       spec = sample_acquisition\<lparr>acq_RouterAdvertisement :=
         Some \<lparr>raspec_Interface = [], raspec_Enabled = None, raspec_TrustedRouters = []\<rparr>\<rparr>
   in fst (CreateReceiver spec f) = Err (FallbackCreationFailed RAInterfaceRequired) \<and>
      fa_pdInterfaces (snd (CreateReceiver spec f)) = {}"
proof -
  let ?f = "NewReceiverFactory False False"
  let ?spec = "sample_acquisition\<lparr>acq_RouterAdvertisement :=
         Some \<lparr>raspec_Interface = [], raspec_Enabled = None, raspec_TrustedRouters = []\<rparr>\<rparr>"
  have err: "fst (CreateReceiver ?spec ?f) = Err (FallbackCreationFailed RAInterfaceRequired)"
    by (simp add: sample_acquisition_def CreateReceiver_def createCompositeReceiver_def raPolicyFromSpec_def
        ParseTrustedRouters_def createDHCPv6PDReceiver_def NewReceiverFactory_def claimPDInterface_def
        RAEnabled_def createRAReceiver_def Let_def)
  then have "CreateReceiver ?spec ?f = (Err (FallbackCreationFailed RAInterfaceRequired), snd (CreateReceiver ?spec ?f))"
    by (metis prod.collapse)
  from failed_creation_keeps_claims [OF rtranclp.rtrancl_refl this] err show ?thesis
    by (simp add: Let_def NewReceiverFactory_def)
qed

end
