(* ===== verification/Prefix_Status.thy ===== *)
theory Prefix_Status
  imports Factory
begin

text \<open>
  What the DynamicPrefix reconciler computes for a resource's status
  (\<^verbatim>\<open>internal/controller/dynamicprefix_controller.go\<close>, \<^verbatim>\<open>conditions_apply.go\<close> and
  \<^verbatim>\<open>dynamicprefix_predicates.go\<close>): the subnets and address ranges of the current prefix, the history
  of draining prefixes, the conditions, the part of the status this controller owns, what dependents
  have to be told of, and the time of the next reconcile.  The condition helpers of
  \<^verbatim>\<open>k8s.io/apimachinery/pkg/api/meta\<close> are parameters with the laws their documentation states.
\<close>

subsection \<open>Conditions\<close>

record meta_api =
  FindStatusCondition :: "Condition list \<Rightarrow> string \<Rightarrow> Condition option"
  SetStatusCondition :: "Condition list \<Rightarrow> Condition \<Rightarrow> Condition list"

text \<open>
  Setting a condition replaces the one of its type, keeps the others, and carries the transition
  time over while the status stays the same.
\<close>

definition set_condition_result :: "Condition option \<Rightarrow> Condition \<Rightarrow> Condition" where
  "set_condition_result old c =
     (case old of
        Some o0 \<Rightarrow> if cond_Status o0 = cond_Status c then c\<lparr>cond_LastTransitionTime := cond_LastTransitionTime o0\<rparr> else c
      | None \<Rightarrow> c)"

definition meta_laws :: "meta_api \<Rightarrow> bool" where
  "meta_laws m \<longleftrightarrow>
     (\<forall>cs c t. FindStatusCondition m (SetStatusCondition m cs c) t =
        (if t = cond_Type c then Some (set_condition_result (FindStatusCondition m cs t) c)
         else FindStatusCondition m cs t))"

lemma meta_lawsD:
  "meta_laws m \<Longrightarrow> FindStatusCondition m (SetStatusCondition m cs c) t =
     (if t = cond_Type c then Some (set_condition_result (FindStatusCondition m cs t) c) else FindStatusCondition m cs t)"
  unfolding meta_laws_def by blast

definition setCondition ::
  "meta_api \<Rightarrow> instant \<Rightarrow> string \<Rightarrow> ConditionStatus \<Rightarrow> string \<Rightarrow> string \<Rightarrow> DynamicPrefix \<Rightarrow> DynamicPrefix" where
  "setCondition m now condType status reason message dp =
     (let condition = \<lparr>cond_Type = condType, cond_Status = status, cond_ObservedGeneration = dp_Generation dp,
                       cond_LastTransitionTime = now, cond_Reason = reason, cond_Message = message\<rparr>
      in dp\<lparr>dp_Status := (dp_Status dp)\<lparr>st_Conditions := SetStatusCondition m (st_Conditions (dp_Status dp)) condition\<rparr>\<rparr>)"

text \<open>\<^verbatim>\<open>conditionApplyEntry\<close>: the entry to apply, and whether it says anything new.\<close>

definition conditionApplyEntry ::
  "meta_api \<Rightarrow> instant \<Rightarrow> DynamicPrefix \<Rightarrow> string \<Rightarrow> ConditionStatus \<Rightarrow> string \<Rightarrow> string \<Rightarrow> Condition \<times> bool" where
  "conditionApplyEntry m now dp condType status reason message =
     (let (transitionTime, changed) =
        (case FindStatusCondition m (st_Conditions (dp_Status dp)) condType of
           None \<Rightarrow> (now, True)
         | Some ex \<Rightarrow>
             (if cond_Status ex = status then cond_LastTransitionTime ex else now,
              cond_Status ex \<noteq> status \<or> cond_Reason ex \<noteq> reason \<or> cond_Message ex \<noteq> message \<or>
              cond_ObservedGeneration ex \<noteq> dp_Generation dp))
      in (\<lparr>cond_Type = condType, cond_Status = status, cond_ObservedGeneration = dp_Generation dp,
           cond_LastTransitionTime = transitionTime, cond_Reason = reason, cond_Message = message\<rparr>, changed))"

subsection \<open>Subnets and address ranges\<close>

definition advertisementName :: "string \<Rightarrow> string \<Rightarrow> string" where
  "advertisementName dpName subnetName = ''dp-'' @ dpName @ ''-'' @ subnetName"

text \<open>The map from subnet name to advertisement: the last spec of a name wins, and \<open>''''\<close> is absent.\<close>

definition advertised :: "string \<Rightarrow> SubnetSpec list \<Rightarrow> string \<Rightarrow> string" where
  "advertised dpName specs name =
     (if list_ex (\<lambda>spec. sns_Name spec = name \<and> (case sns_BGP spec of None \<Rightarrow> False | Some b \<Rightarrow> bgp_Advertise b)) specs
      then advertisementName dpName name else [])"

definition calculateSubnets ::
  "string \<Rightarrow> ipprefix \<Rightarrow> SubnetSpec list \<Rightarrow> subnets_error + SubnetStatus list" where
  "calculateSubnets dpName basePrefix specs =
     (if specs = [] then Ok []
      else
        let configs = map (\<lambda>spec. \<lparr>sc_Name = sns_Name spec, sc_Offset = sns_Offset spec,
                                   sc_PrefixLength = sns_PrefixLength spec\<rparr>) specs
        in (case CalculateSubnets basePrefix configs of
              Inl e \<Rightarrow> Err e
            | Inr subnets \<Rightarrow>
                Ok (map (\<lambda>s. \<lparr>snst_Name = sn_Name s, snst_CIDR = PrefixString (sn_CIDR s),
                              snst_BGPAdvertisement = advertised dpName specs (sn_Name s)\<rparr>) subnets)))"

definition range_status :: "AddressRange \<Rightarrow> AddressRangeStatus" where
  "range_status r =
     \<lparr>arst_Name = ar_Name r, arst_Start = AddrString (ar_Start r), arst_End = AddrString (ar_End r),
      arst_CIDR = PrefixString (RangeToCIDR (ar_Start r) (ar_End r))\<rparr>"

definition calculateAddressRanges :: "ipprefix \<Rightarrow> AddressRangeSpec list \<Rightarrow> ranges_error + AddressRangeStatus list" where
  "calculateAddressRanges basePrefix specs =
     (if specs = [] then Ok []
      else
        let configs = map (\<lambda>spec. \<lparr>arc_Name = ars_Name spec, arc_Start = ars_Start spec, arc_End = ars_End spec\<rparr>) specs
        in (case CalculateAddressRanges basePrefix configs of
              Inl e \<Rightarrow> Err e
            | Inr ranges \<Rightarrow> Ok (map range_status ranges)))"

subsection \<open>History\<close>

text \<open>Events as the recorder receives them: a type, a reason and a message.\<close>

datatype k_event = NormalEvent string string | WarningEvent string string

definition getMaxHistory :: "DynamicPrefix \<Rightarrow> int" where
  "getMaxHistory dp =
     (case spec_Transition (dp_Spec dp) of
        Some t \<Rightarrow> if tr_MaxPrefixHistory t > 0 then tr_MaxPrefixHistory t else 2
      | None \<Rightarrow> 2)"

definition eventReasonTransitionCompleted :: string where "eventReasonTransitionCompleted = ''TransitionCompleted''"
definition eventReasonTransitionStarted :: string where "eventReasonTransitionStarted = ''TransitionStarted''"

definition completed_message :: "string \<Rightarrow> int \<Rightarrow> string" where
  "completed_message p n =
     ''Completed transition for historical prefix '' @ p @ '' after retaining '' @ dec_int n @ '' prefix history entry(s)''"

definition started_message :: "string \<Rightarrow> string \<Rightarrow> string" where
  "started_message old new = ''Started draining historical prefix '' @ old @ '' after acquiring '' @ new"

text \<open>The entry the outgoing prefix leaves in the history.\<close>

definition history_entry :: "meta_api \<Rightarrow> instant \<Rightarrow> DynamicPrefix \<Rightarrow> PrefixHistoryEntry" where
  "history_entry m now dp =
     \<lparr>hist_Prefix = st_CurrentPrefix (dp_Status dp),
      hist_AcquiredAt =
        (case FindStatusCondition m (st_Conditions (dp_Status dp)) ConditionTypePrefixAcquired of
           Some cond \<Rightarrow> if cond_LastTransitionTime cond \<noteq> 0 then cond_LastTransitionTime cond else dp_CreationTimestamp dp
         | None \<Rightarrow> dp_CreationTimestamp dp),
      hist_DeprecatedAt = Some now, hist_State = PrefixStateDraining\<rparr>"

text \<open>The zero time stands for an unset \<^verbatim>\<open>metav1.Time\<close>; the events come out in the order they are emitted.\<close>

definition handlePrefixChange ::
  "meta_api \<Rightarrow> instant \<Rightarrow> Prefix \<Rightarrow> DynamicPrefix \<Rightarrow> k_event list \<times> DynamicPrefix" where
  "handlePrefixChange m now newPrefix dp =
     (let st = dp_Status dp; new = PrefixString (Network newPrefix) in
      if st_CurrentPrefix st = [] then ([], dp)
      else
        let oldEntry = history_entry m now dp;
            kept = List.filter (\<lambda>e. \<not> (hist_Prefix e = hist_Prefix oldEntry \<or> hist_Prefix e = new)) (st_History st);
            history = kept @ [oldEntry];
            maxHistory = getMaxHistory dp;
            surplus = (if int (length history) > maxHistory then length history - nat maxHistory else 0)
        in (map (\<lambda>e. NormalEvent eventReasonTransitionCompleted (completed_message (hist_Prefix e) maxHistory))
              (take surplus history) @
            [NormalEvent eventReasonTransitionStarted (started_message (st_CurrentPrefix st) new)],
            dp\<lparr>dp_Status := st\<lparr>st_History := drop surplus history\<rparr>\<rparr>))"

subsection \<open>Policy, source and the next reconcile\<close>

definition prefixPolicyFor :: "DynamicPrefix \<Rightarrow> Policy" where
  "prefixPolicyFor dp =
     (case PrefixLengthBounds dp of (minBits, maxBits) \<Rightarrow>
        \<lparr>RequireGlobalUnicast = dp_RequireGlobalUnicast dp, MinPrefixLength = minBits, MaxPrefixLength = maxBits\<rparr>)"

definition sourceToPrefixSource :: "Source \<Rightarrow> PrefixSource" where
  "sourceToPrefixSource s =
     (case s of SourceDHCPv6PD \<Rightarrow> PrefixSourceDHCPv6PD
      | SourceRouterAdvertisement \<Rightarrow> PrefixSourceRouterAdvertisement
      | SourceStatic \<Rightarrow> PrefixSourceStatic
      | _ \<Rightarrow> PrefixSourceUnknown)"

text \<open>
  \<^verbatim>\<open>float64\<close> arithmetic on integers: an integer rounded to 53 significant bits, ties to even.  The
  constant 0.8 is \<open>3602879701896397 / 2 ^ 52\<close>, and scaling by a power of two rounds nothing.
\<close>

fun bit_length :: "nat \<Rightarrow> nat" where
  "bit_length n = (if n = 0 then 0 else Suc (bit_length (n div 2)))"

declare bit_length.simps [simp del]

definition round53 :: "int \<Rightarrow> int" where
  "round53 x =
     (let n = nat \<bar>x\<bar>; k = bit_length n - 53 in
      if k = 0 then x
      else
        let q = n div 2 ^ k; r = n mod 2 ^ k; half = 2 ^ (k - 1);
            q' = (if r > half \<or> r = half \<and> odd q then q + 1 else q)
        in sgn x * int (q' * 2 ^ k))"

definition float_eight_tenths :: "int \<Rightarrow> int" where
  "float_eight_tenths d = go_div (round53 (round53 d * 3602879701896397)) (2 ^ 52)"

text \<open>\<^verbatim>\<open>Time.Add\<close> on unbounded instants, and \<^verbatim>\<open>Until\<close>, which saturates at the range of a duration.\<close>

definition time_Until :: "instant \<Rightarrow> instant \<Rightarrow> duration" where
  "time_Until now t = max (- (2 ^ 63)) (min (2 ^ 63 - 1) (t - now))"

definition calculateRequeueTime :: "instant \<Rightarrow> Prefix \<Rightarrow> duration" where
  "calculateRequeueTime now p =
     (if ValidLifetime p = 0 then 5 * minute
      else
        let remaining = time_Until now (ReceivedAt p + ValidLifetime p);
            requeue = float_eight_tenths remaining;
            requeue1 = (if requeue < minute then minute else requeue)
        in if requeue1 > 5 * minute then 5 * minute else requeue1)"

subsection \<open>Who owns and who reads the status\<close>

text \<open>The apply configuration of this controller; a field left out is \<open>None\<close> or empty.\<close>

record DynamicPrefixStatusAC =
  ac_CurrentPrefix :: "string option"
  ac_PrefixSource :: "PrefixSource option"
  ac_LeaseExpiresAt :: "instant option"
  ac_AddressRanges :: "AddressRangeStatus list"
  ac_Subnets :: "SubnetStatus list"
  ac_History :: "PrefixHistoryEntry list"
  ac_Conditions :: "Condition list"

definition ownedDynamicPrefixStatus :: "meta_api \<Rightarrow> DynamicPrefixStatus \<Rightarrow> DynamicPrefixStatusAC" where
  "ownedDynamicPrefixStatus m st =
     \<lparr>ac_CurrentPrefix = (if st_CurrentPrefix st = [] then None else Some (st_CurrentPrefix st)),
      ac_PrefixSource = (if st_PrefixSource st = PrefixSourceUnset then None else Some (st_PrefixSource st)),
      ac_LeaseExpiresAt = st_LeaseExpiresAt st,
      ac_AddressRanges = st_AddressRanges st,
      ac_Subnets = st_Subnets st,
      ac_History = st_History st,
      ac_Conditions = concat (map (\<lambda>t. case FindStatusCondition m (st_Conditions st) t of None \<Rightarrow> [] | Some c \<Rightarrow> [c])
        [ConditionTypePrefixAcquired, ConditionTypeDegraded])\<rparr>"

record dependentDynamicPrefixStatus =
  dep_CurrentPrefix :: string
  dep_AddressRanges :: "AddressRangeStatus list"
  dep_Subnets :: "(string \<times> string) list"
  dep_History :: "PrefixHistoryEntry list"

definition dependentStatus :: "DynamicPrefixStatus \<Rightarrow> dependentDynamicPrefixStatus" where
  "dependentStatus st =
     \<lparr>dep_CurrentPrefix = st_CurrentPrefix st, dep_AddressRanges = st_AddressRanges st,
      dep_Subnets = map (\<lambda>s. (snst_Name s, snst_CIDR s)) (st_Subnets st), dep_History = st_History st\<rparr>"

text \<open>\<^verbatim>\<open>equality.Semantic.DeepEqual\<close> on specifications and dependent statuses.\<close>

record equality_api =
  eq_Acquisition :: "AcquisitionSpec \<Rightarrow> AcquisitionSpec \<Rightarrow> bool"
  eq_Spec :: "DynamicPrefixSpec \<Rightarrow> DynamicPrefixSpec \<Rightarrow> bool"
  eq_Dependent :: "dependentDynamicPrefixStatus \<Rightarrow> dependentDynamicPrefixStatus \<Rightarrow> bool"
  eq_Owned :: "DynamicPrefixStatusAC \<Rightarrow> DynamicPrefixStatusAC \<Rightarrow> bool"

definition equality_laws :: "equality_api \<Rightarrow> bool" where
  "equality_laws q \<longleftrightarrow>
     (\<forall>x y. eq_Acquisition q x y \<longleftrightarrow> x = y) \<and> (\<forall>x y. eq_Spec q x y \<longleftrightarrow> x = y) \<and>
     (\<forall>x y. eq_Dependent q x y \<longleftrightarrow> x = y) \<and> (\<forall>x y. eq_Owned q x y \<longleftrightarrow> x = y)"

lemma equality_lawsD:
  assumes "equality_laws q"
  shows "eq_Acquisition q a b \<longleftrightarrow> a = b" "eq_Spec q c d \<longleftrightarrow> c = d" "eq_Dependent q e f \<longleftrightarrow> e = f"
    "eq_Owned q g h \<longleftrightarrow> g = h"
  using assms unfolding equality_laws_def by blast+

definition dynamicPrefixAffectsDependents :: "equality_api \<Rightarrow> DynamicPrefix \<Rightarrow> DynamicPrefix \<Rightarrow> bool" where
  "dynamicPrefixAffectsDependents q oldDP newDP =
     (if \<not> eq_Spec q (dp_Spec oldDP) (dp_Spec newDP) then True
      else \<not> eq_Dependent q (dependentStatus (dp_Status oldDP)) (dependentStatus (dp_Status newDP)))"

text \<open>The watch filter of the dependent controllers.\<close>

datatype watch_event = CreateEvent | DeleteEvent | UpdateEvent "DynamicPrefix option" "DynamicPrefix option" | GenericEvent

definition dynamicPrefixDependentChangePredicate :: "equality_api \<Rightarrow> watch_event \<Rightarrow> bool" where
  "dynamicPrefixDependentChangePredicate q ev =
     (case ev of
        UpdateEvent (Some oldDP) (Some newDP) \<Rightarrow> dynamicPrefixAffectsDependents q oldDP newDP
      | _ \<Rightarrow> True)"

subsection \<open>Rounding\<close>

lemma bit_length_small [simp]: "bit_length 0 = 0" "bit_length (Suc 0) = Suc 0"
  by (simp_all add: bit_length.simps)

lemma bit_length_bounds: "n \<noteq> 0 \<Longrightarrow> 2 ^ (bit_length n - 1) \<le> n \<and> n < 2 ^ bit_length n"
proof (induction n rule: bit_length.induct)
  case (1 n)
  show ?case
  proof (cases "n div 2 = 0")
    case True
    with 1 have "n = 1"
      by (simp add: div_eq_0_iff)
    then show ?thesis
      by simp
  next
    case False
    with 1 have IH: "2 ^ (bit_length (n div 2) - 1) \<le> n div 2" "n div 2 < 2 ^ bit_length (n div 2)"
      by auto
    have len: "bit_length n = Suc (bit_length (n div 2))" "bit_length (n div 2) = Suc (bit_length (n div 2) - 1)"
      using 1 False by (simp_all add: bit_length.simps [of n] bit_length.simps [of "n div 2"])
    have "2 ^ bit_length (n div 2) = 2 * (2::nat) ^ (bit_length (n div 2) - 1)"
      by (subst len(2)) (simp only: power_Suc)
    then have "2 ^ bit_length (n div 2) \<le> n"
      using IH(1) by linarith
    moreover have "n < 2 * 2 ^ bit_length (n div 2)"
      using IH(2) by linarith
    ultimately show ?thesis
      unfolding len(1) by simp
  qed
qed

lemma round53_error:
  assumes "0 \<le> x"
  shows "\<bar>round53 x - x\<bar> * 2 ^ 53 \<le> x"
proof (cases "bit_length (nat x) - 53 = 0")
  case True
  with assms show ?thesis
    by (simp add: round53_def Let_def)
next
  case False
  define n k where "n = nat x" and "k = bit_length n - 53"
  have k: "0 < k" "bit_length n = k + 53"
    using False by (auto simp: n_def k_def)
  then have "n \<noteq> 0"
    by (intro notI) simp
  then have big: "2 ^ (k + 52) \<le> n"
    using bit_length_bounds [of n] k by (simp add: add.commute)
  define q r where "q = n div 2 ^ k" and "r = n mod 2 ^ k"
  have n: "n = q * 2 ^ k + r" and r: "r < 2 ^ k"
    by (simp_all only: q_def r_def div_mult_mod_eq) simp
  have two: "(2::nat) ^ k = 2 * 2 ^ (k - 1)"
    using k by (metis Suc_diff_1 power_Suc)
  let ?q = "if r > 2 ^ (k - 1) \<or> r = 2 ^ (k - 1) \<and> odd q then q + 1 else q"
  have "x > 0" and nx: "nat \<bar>x\<bar> = n" and x: "x = int n"
    using assms \<open>n \<noteq> 0\<close> by (auto simp: n_def)
  have res: "round53 x = int (?q * 2 ^ k)"
    unfolding round53_def Let_def nx k_def [symmetric] q_def [symmetric] r_def [symmetric] using k \<open>x > 0\<close> by simp
  define h where "h = int (2 ^ (k - 1))"
  have h: "int (2 ^ k) = 2 * h" "int r < 2 * h" "int n = int q * (2 * h) + int r"
    using two r n unfolding h_def by (metis of_nat_mult of_nat_numeral, linarith, metis of_nat_add of_nat_mult of_nat_numeral)
  have err: "\<bar>int (?q * 2 ^ k) - int n\<bar> \<le> int (2 ^ (k - 1))"
  proof (cases "r > 2 ^ (k - 1) \<or> r = 2 ^ (k - 1) \<and> odd q")
    case True
    then have "h \<le> int r"
      by (auto simp: h_def)
    moreover have "int (?q * 2 ^ k) = int q * (2 * h) + 2 * h"
      using True h(1) by (simp only: if_True of_nat_mult of_nat_add of_nat_1) (simp add: algebra_simps)
    ultimately show ?thesis
      using h unfolding h_def [symmetric] by linarith
  next
    case False
    then have "int r \<le> h"
      by (simp add: h_def)
    moreover have "int (?q * 2 ^ k) = int q * (2 * h)"
      using False h(1) by (simp only: if_False of_nat_mult)
    ultimately show ?thesis
      using h unfolding h_def [symmetric] by linarith
  qed
  have "\<bar>int (?q * 2 ^ k) - int n\<bar> * 2 ^ 53 \<le> int (2 ^ (k - 1)) * 2 ^ 53"
    using err by (rule mult_right_mono) simp
  also have "\<dots> = int (2 ^ (k + 52))"
    using k(1) by (cases k) (simp_all add: power_add)
  also have "\<dots> \<le> int n"
    using big by (simp only: of_nat_le_iff)
  finally show ?thesis
    unfolding res by (simp only: x)
qed

text \<open>The product with 0.8, rounded twice and cut off, is within one of the exact four fifths.\<close>

lemma float_eight_tenths_close:
  assumes "0 \<le> d" and "d < 2 ^ 53"
  shows "4 * d - 10 \<le> 5 * float_eight_tenths d \<and> 5 * float_eight_tenths d \<le> 4 * d + 10"
proof -
  have "nat d < 2 ^ 53"
    using assms by (simp add: nat_less_iff)
  have len: "bit_length (nat d) \<le> 53"
  proof (rule ccontr)
    assume "\<not> bit_length (nat d) \<le> 53"
    then have b: "53 \<le> bit_length (nat d) - 1"
      by simp
    then have "nat d \<noteq> 0"
      by (intro notI) simp
    then have "(2::nat) ^ (bit_length (nat d) - 1) \<le> nat d"
      using bit_length_bounds by blast
    moreover have "(2::nat) ^ 53 \<le> 2 ^ (bit_length (nat d) - 1)"
      using b by (rule power_increasing) simp
    ultimately show False
      using \<open>nat d < 2 ^ 53\<close> by linarith
  qed
  then have exact: "round53 d = d"
    using assms by (simp add: round53_def Let_def)
  define m where "m = d * 3602879701896397"
  have m: "0 \<le> m"
    using assms by (simp add: m_def)
  have err: "\<bar>round53 m - m\<bar> * 2 ^ 53 \<le> m"
    by (rule round53_error [OF m])
  have small: "m \<le> 2 ^ 105"
    using assms unfolding m_def by simp
  have "\<bar>round53 m - m\<bar> * 2 ^ 53 \<le> 2 ^ 52 * 2 ^ 53"
    using err small by simp
  then have close: "\<bar>round53 m - m\<bar> \<le> 2 ^ 52"
    by simp
  have m5: "5 * m = 4 * 2 ^ 52 * d + d"
    by (simp add: m_def)
  have "\<bar>round53 m - m\<bar> \<le> \<bar>round53 m - m\<bar> * 2 ^ 53"
    by simp
  with err have "\<bar>round53 m - m\<bar> \<le> m"
    by (rule order_trans [rotated])
  then have pos: "0 \<le> round53 m"
    by (simp add: abs_le_iff)
  have v: "float_eight_tenths d = round53 m div 2 ^ 52"
    using pos by (simp add: float_eight_tenths_def exact m_def [symmetric])
  have "2 ^ 52 * (round53 m div 2 ^ 52) \<le> round53 m" "round53 m < 2 ^ 52 * (round53 m div 2 ^ 52) + 2 ^ 52"
    by simp_all
  moreover have "round53 m - m \<le> 2 ^ 52" "m - round53 m \<le> 2 ^ 52"
    using close unfolding abs_le_iff by linarith+
  moreover have "5 * m = 18014398509481984 * d + d" "d < 9007199254740992"
    using m5 assms by simp_all
  ultimately show ?thesis
    unfolding v using assms(1) by simp
qed

text \<open>
  C36: The next reconcile comes between one and five minutes, and before the lease ends whenever at
  least a minute of it is left; for a lease of ordinary length it comes at four fifths of what
  remains, to within two nanoseconds, although the code computes it in floating point.
\<close>

theorem requeue_within_lease:
  assumes "remaining = ReceivedAt p + ValidLifetime p - now"
  shows "minute \<le> calculateRequeueTime now p \<and> calculateRequeueTime now p \<le> 5 * minute \<and>
     (ValidLifetime p \<noteq> 0 \<and> minute \<le> remaining \<longrightarrow> calculateRequeueTime now p \<le> remaining) \<and>
     (ValidLifetime p \<noteq> 0 \<and> 76 * second \<le> remaining \<and> remaining \<le> 374 * second \<longrightarrow>
        \<bar>5 * calculateRequeueTime now p - 4 * remaining\<bar> \<le> 10)"
proof -
  have until: "time_Until now (ReceivedAt p + ValidLifetime p) = remaining" if "0 \<le> remaining" "remaining < 2 ^ 53"
    using that assms by (simp add: time_Until_def)
  have close: "\<bar>5 * float_eight_tenths remaining - 4 * remaining\<bar> \<le> 10" if "0 \<le> remaining" "remaining < 2 ^ 53"
    using float_eight_tenths_close [OF that] unfolding abs_le_iff by linarith
  have bounds: "minute \<le> calculateRequeueTime now p \<and> calculateRequeueTime now p \<le> 5 * minute"
    by (auto simp: calculateRequeueTime_def Let_def minute_def second_def)
  have "calculateRequeueTime now p \<le> remaining" if "ValidLifetime p \<noteq> 0" "minute \<le> remaining"
  proof (cases "5 * minute \<le> remaining")
    case True
    with bounds show ?thesis by linarith
  next
    case False
    then have small: "0 \<le> remaining" "remaining < 2 ^ 53"
      using that by (simp_all add: minute_def second_def)
    have "float_eight_tenths remaining \<le> remaining"
      using close [OF small] that by (simp add: abs_le_iff minute_def second_def)
    then show ?thesis
      using that False unfolding calculateRequeueTime_def until [OF small]
      by (simp add: Let_def minute_def second_def)
  qed
  moreover have "\<bar>5 * calculateRequeueTime now p - 4 * remaining\<bar> \<le> 10"
    if "ValidLifetime p \<noteq> 0" "76 * second \<le> remaining" "remaining \<le> 374 * second"
  proof -
    have small: "0 \<le> remaining" "remaining < 2 ^ 53"
      using that by (simp_all add: second_def)
    have "minute \<le> float_eight_tenths remaining" "float_eight_tenths remaining \<le> 5 * minute"
      using close [OF small] that by (simp_all add: abs_le_iff minute_def second_def)
    then show ?thesis
      using that close [OF small] unfolding calculateRequeueTime_def until [OF small]
      by (simp add: Let_def)
  qed
  ultimately show ?thesis
    using bounds by blast
qed

theorem requeue_within_lease_witness:
  "\<bar>5 * calculateRequeueTime 0 \<lparr>Network = PrefixZero, ValidLifetime = 300 * second, PreferredLifetime = 0,
      prefix_Source = SourceDHCPv6PD, ReceivedAt = 0\<rparr> - 4 * (300 * second)\<bar> \<le> 10"
  using requeue_within_lease [of "300 * second" "\<lparr>Network = PrefixZero, ValidLifetime = 300 * second,
      PreferredLifetime = 0, prefix_Source = SourceDHCPv6PD, ReceivedAt = 0\<rparr>" 0]
  by (simp add: second_def)

text \<open>
  The gate every prefix passes before it reaches the status applies the very policy the
  receivers are built with, for every filter a resource can carry.
\<close>

theorem gate_policy_is_receiver_policy:
  "prefixPolicyFor dp = policyFromSpec (spec_Acquisition (dp_Spec dp))"
  by (auto simp: prefixPolicyFor_def policyFromSpec_def PrefixLengthBounds_def dp_RequireGlobalUnicast_def DefaultPolicy_def
      Let_def split: option.splits)

subsection \<open>The history window\<close>

definition history_ok :: "DynamicPrefixStatus \<Rightarrow> bool" where
  "history_ok st \<longleftrightarrow>
     distinct (map hist_Prefix (st_History st)) \<and> st_CurrentPrefix st \<notin> hist_Prefix ` set (st_History st) \<and>
     (st_CurrentPrefix st = [] \<longrightarrow> st_History st = [])"

lemma getMaxHistory_pos [simp]: "0 < getMaxHistory dp"
  by (auto simp: getMaxHistory_def split: option.splits)

lemma getMaxHistory_cong: "dp_Spec dp = dp_Spec dp' \<Longrightarrow> getMaxHistory dp = getMaxHistory dp'"
  by (simp add: getMaxHistory_def)

lemma handlePrefixChange_fields:
  "dp_Spec (snd (handlePrefixChange m now p dp)) = dp_Spec dp"
  "dp_Name (snd (handlePrefixChange m now p dp)) = dp_Name dp"
  "dp_Generation (snd (handlePrefixChange m now p dp)) = dp_Generation dp"
  "st_CurrentPrefix (dp_Status (snd (handlePrefixChange m now p dp))) = st_CurrentPrefix (dp_Status dp)"
  "st_Conditions (dp_Status (snd (handlePrefixChange m now p dp))) = st_Conditions (dp_Status dp)"
  "st_Subnets (dp_Status (snd (handlePrefixChange m now p dp))) = st_Subnets (dp_Status dp)"
  "st_AddressRanges (dp_Status (snd (handlePrefixChange m now p dp))) = st_AddressRanges (dp_Status dp)"
  by (simp_all add: handlePrefixChange_def Let_def)

lemma drop_surplus:
  assumes "0 < n" and "int (length (xs @ [x])) > n"
  shows "drop (length (xs @ [x]) - nat n) (xs @ [x]) = drop (length (xs @ [x]) - nat n) xs @ [x]"
  using assms by simp

lemma handlePrefixChange_history:
  assumes "st_CurrentPrefix (dp_Status dp) \<noteq> []"
  obtains kept entry where
    "st_History (dp_Status (snd (handlePrefixChange m now p dp))) = kept @ [entry]"
    "hist_Prefix entry = st_CurrentPrefix (dp_Status dp)" "hist_State entry = PrefixStateDraining"
    "hist_DeprecatedAt entry = Some now" "int (length kept) < getMaxHistory dp"
    "\<exists>n. kept = drop n (List.filter (\<lambda>e. hist_Prefix e \<notin> {st_CurrentPrefix (dp_Status dp), PrefixString (Network p)})
        (st_History (dp_Status dp)))"
proof -
  let ?st = "dp_Status dp" and ?max = "getMaxHistory dp"
  define kept where "kept = List.filter (\<lambda>e. \<not> (hist_Prefix e = st_CurrentPrefix ?st \<or> hist_Prefix e = PrefixString (Network p)))
    (st_History ?st)"
  define entry where "entry = history_entry m now dp"
  have entry: "hist_Prefix entry = st_CurrentPrefix ?st" "hist_State entry = PrefixStateDraining"
    "hist_DeprecatedAt entry = Some now"
    by (simp_all add: entry_def history_entry_def)
  define n where "n = (if int (length (kept @ [entry])) > ?max then length (kept @ [entry]) - nat ?max else 0)"
  have hist: "st_History (dp_Status (snd (handlePrefixChange m now p dp))) = drop n (kept @ [entry])"
    using assms unfolding handlePrefixChange_def Let_def entry_def [symmetric] entry kept_def [symmetric] n_def by simp
  have n: "n \<le> length kept" "int (length kept - n) < ?max"
    using getMaxHistory_pos [of dp] unfolding n_def by (auto simp del: getMaxHistory_pos)
  have "st_History (dp_Status (snd (handlePrefixChange m now p dp))) = drop n kept @ [entry]"
    using hist n by simp
  then show ?thesis
    using that [of "drop n kept" entry] entry n by (auto simp: kept_def)
qed

lemma history_ok_change:
  assumes "history_ok (dp_Status dp)" and "PrefixString (Network p) \<noteq> st_CurrentPrefix (dp_Status dp)"
    and "PrefixString (Network p) \<noteq> []"
  shows "history_ok ((dp_Status (snd (handlePrefixChange m now p dp)))\<lparr>st_CurrentPrefix := PrefixString (Network p)\<rparr>)"
proof (cases "st_CurrentPrefix (dp_Status dp) = []")
  case True
  with assms show ?thesis
    by (simp add: history_ok_def handlePrefixChange_def Let_def)
next
  case False
  let ?new = "PrefixString (Network p)" and ?old = "st_CurrentPrefix (dp_Status dp)"
  obtain kept entry where hist: "st_History (dp_Status (snd (handlePrefixChange m now p dp))) = kept @ [entry]"
    "hist_Prefix entry = ?old" and
    "\<exists>n. kept = drop n (List.filter (\<lambda>e. hist_Prefix e \<notin> {?old, ?new}) (st_History (dp_Status dp)))"
    by (rule handlePrefixChange_history [OF False, of m now p])
  then obtain n where kept: "kept = drop n (List.filter (\<lambda>e. hist_Prefix e \<notin> {?old, ?new}) (st_History (dp_Status dp)))"
    by blast
  have "distinct (drop n (map hist_Prefix (List.filter (\<lambda>e. hist_Prefix e \<notin> {?old, ?new}) (st_History (dp_Status dp)))))"
    using assms(1) by (intro distinct_drop distinct_map_filter) (simp add: history_ok_def)
  then have "distinct (map hist_Prefix kept)"
    by (simp only: kept drop_map)
  moreover have "hist_Prefix e \<notin> {?old, ?new}" if "e \<in> set kept" for e
    using in_set_dropD [OF that [unfolded kept]] by simp
  then have "\<forall>e \<in> set kept. hist_Prefix e \<noteq> ?old \<and> hist_Prefix e \<noteq> ?new"
    by simp
  then have "?old \<notin> hist_Prefix ` set kept" "?new \<notin> hist_Prefix ` set kept"
    by (metis imageE)+
  ultimately show ?thesis
    using hist(1,2) assms(2,3) by (auto simp: history_ok_def)
qed


text \<open>A resource to run the reconciler on, and the condition helpers as association lists.\<close>

definition sample_meta :: meta_api where
  "sample_meta =
     \<lparr>FindStatusCondition = (\<lambda>cs t. find (\<lambda>c. cond_Type c = t) cs),
      SetStatusCondition = (\<lambda>cs c.
        set_condition_result (find (\<lambda>x. cond_Type x = cond_Type c) cs) c #
        List.filter (\<lambda>x. cond_Type x \<noteq> cond_Type c) cs)\<rparr>"

lemma set_condition_result_type [simp]: "cond_Type (set_condition_result old c) = cond_Type c"
  by (auto simp: set_condition_result_def split: option.split)

lemma find_filter_other: "t \<noteq> u \<Longrightarrow> find (\<lambda>x. f x = t) (List.filter (\<lambda>x. f x \<noteq> u) xs) = find (\<lambda>x. f x = t) xs"
  by (induction xs) auto

lemma sample_meta_laws: "meta_laws sample_meta"
  by (auto simp: meta_laws_def sample_meta_def find_filter_other)

definition sample_status :: DynamicPrefixStatus where
  "sample_status =
     \<lparr>st_CurrentPrefix = ''2001:db8:1::/48'', st_PrefixSource = PrefixSourceDHCPv6PD, st_LeaseExpiresAt = None,
      st_AddressRanges = [], st_Subnets = [], st_History = [], st_Conditions = []\<rparr>"

definition sample_dp :: DynamicPrefix where
  "sample_dp =
     \<lparr>dp_Name = ''home'', dp_Generation = 1, dp_CreationTimestamp = 1, dp_Deleting = False,
      dp_Finalizers = [''dynamic-prefix.io/finalizer''], dp_Annotations = Map.empty,
      dp_Spec = \<lparr>spec_Acquisition = \<lparr>acq_DHCPv6PD = None, acq_RouterAdvertisement = None, acq_PrefixFilter = None\<rparr>,
                 spec_AddressRanges = [], spec_Subnets = [], spec_Transition = None\<rparr>,
      dp_Status = sample_status\<rparr>"


end
