(* ===== verification/Receiver_Manager.thy ===== *)
theory Receiver_Manager
  imports Prefix_Status
begin

text \<open>
  The receivers the DynamicPrefix reconciler keeps (\<^verbatim>\<open>getOrCreateReceiver\<close>, \<^verbatim>\<open>stopReceiverLocked\<close>,
  \<^verbatim>\<open>cleanupReceiver\<close> and \<^verbatim>\<open>forwardPrefixEvents\<close> of \<^verbatim>\<open>dynamicprefix_controller.go\<close>, and
  \<^verbatim>\<open>rarejections.go\<close>).  The receivers and their factory are interfaces in the code, so the operations
  are a record here and what they promise a locale, which is interpreted on the factory of
  theory \<open>Factory\<close>.  The invariant: a resource has at most one receiver, built from the specification
  recorded for it, with exactly one goroutine that drains its events.
\<close>

subsection \<open>The provider of receivers\<close>

record ('f, 'r, 'e) provider_ops =
  pv_CreateReceiver :: "AcquisitionSpec \<Rightarrow> 'f \<Rightarrow> (factory_error + 'r) \<times> 'f"
  pv_Start :: "'e \<Rightarrow> 'r \<Rightarrow> 'f \<Rightarrow> recv_error option \<times> 'f"
  pv_Stop :: "'e \<Rightarrow> 'r \<Rightarrow> 'f \<Rightarrow> (recv_error option \<times> 'f) option"
  pv_take :: "'r \<Rightarrow> 'f \<Rightarrow> (Event \<times> 'f) option"
  pv_CurrentPrefix :: "'r \<Rightarrow> 'f \<Rightarrow> Prefix option"
  pv_LastError :: "'r \<Rightarrow> 'f \<Rightarrow> recv_error option"
  pv_RARejections :: "'r \<Rightarrow> 'f \<Rightarrow> (64 word \<times> string) option"
  pv_Source :: "'r \<Rightarrow> 'f \<Rightarrow> Source"

subsection \<open>The reconciler's state\<close>

record rejectionReport =
  rr_total :: "64 word"
  rr_at :: instant

text \<open>
  A forwarding goroutine is a number; cancelling its context makes it return eventually.  The
  recorder's events are kept in the order they were emitted, the wake-up channel holds names.
\<close>

record ('f, 'r) DynamicPrefixReconciler =
  rc_world :: 'f
  rc_hasFactory :: bool
  rc_receivers :: "string \<rightharpoonup> 'r"
  rc_receiverSpecs :: "string \<rightharpoonup> AcquisitionSpec"
  rc_receiverStops :: "string \<rightharpoonup> nat"
  rc_rejectionReports :: "string \<rightharpoonup> rejectionReport"
  rc_prefixEvents :: "string list option"
  rc_forwarders :: "nat \<rightharpoonup> string \<times> 'r"
  rc_cancelled :: "nat set"
  rc_next :: nat
  rc_events :: "(string \<times> k_event) list"

definition prefixEventQueueSize :: nat where "prefixEventQueueSize = 32"

definition NewDynamicPrefixReconciler :: "'f \<Rightarrow> bool \<Rightarrow> ('f, 'r) DynamicPrefixReconciler" where
  "NewDynamicPrefixReconciler f hasFactory =
     \<lparr>rc_world = f, rc_hasFactory = hasFactory, rc_receivers = Map.empty, rc_receiverSpecs = Map.empty,
      rc_receiverStops = Map.empty, rc_rejectionReports = Map.empty, rc_prefixEvents = None,
      rc_forwarders = Map.empty, rc_cancelled = {}, rc_next = 0, rc_events = []\<rparr>"

text \<open>The part of \<^verbatim>\<open>SetupWithManager\<close> that changes the state.\<close>

definition setup_channel :: "('f, 'r) DynamicPrefixReconciler \<Rightarrow> ('f, 'r) DynamicPrefixReconciler" where
  "setup_channel rc = rc\<lparr>rc_prefixEvents := Some []\<rparr>"

definition emitEvent :: "string \<Rightarrow> k_event \<Rightarrow> ('f, 'r) DynamicPrefixReconciler \<Rightarrow> ('f, 'r) DynamicPrefixReconciler" where
  "emitEvent name ev rc = rc\<lparr>rc_events := rc_events rc @ [(name, ev)]\<rparr>"

definition eventReasonReceiverRebuilt :: string where "eventReasonReceiverRebuilt = ''ReceiverRebuilt''"
definition eventReasonRouterAdvertisementsRejected :: string where
  "eventReasonRouterAdvertisementsRejected = ''RouterAdvertisementsRejected''"

definition stopReceiverLocked :: "string \<Rightarrow> ('f, 'r) DynamicPrefixReconciler \<Rightarrow> ('f, 'r) DynamicPrefixReconciler" where
  "stopReceiverLocked name rc =
     rc\<lparr>rc_cancelled := (case rc_receiverStops rc name of None \<Rightarrow> rc_cancelled rc | Some c \<Rightarrow> insert c (rc_cancelled rc)),
        rc_receiverStops := (rc_receiverStops rc)(name := None),
        rc_receivers := (rc_receivers rc)(name := None),
        rc_receiverSpecs := (rc_receiverSpecs rc)(name := None),
        rc_rejectionReports := (rc_rejectionReports rc)(name := None)\<rparr>"

text \<open>\<open>None\<close> is a panic of the receiver's \<^verbatim>\<open>Stop\<close>.\<close>

definition cleanupReceiver ::
  "('f, 'r, 'e) provider_ops \<Rightarrow> 'e \<Rightarrow> string \<Rightarrow> ('f, 'r) DynamicPrefixReconciler \<Rightarrow> ('f, 'r) DynamicPrefixReconciler option" where
  "cleanupReceiver ops env name rc =
     (case rc_receivers rc name of
        None \<Rightarrow> Some rc
      | Some ref \<Rightarrow>
          map_option (\<lambda>(err, f'). stopReceiverLocked name (rc\<lparr>rc_world := f'\<rparr>)) (pv_Stop ops env ref (rc_world rc)))"

datatype create_error = NoReceiverFactory string | FailedToCreate factory_error | FailedToStart recv_error

text \<open>The part of \<^verbatim>\<open>getOrCreateReceiver\<close> after the checks on an existing receiver.\<close>

definition buildReceiver ::
  "('f, 'r, 'e) provider_ops \<Rightarrow> 'e \<Rightarrow> DynamicPrefix \<Rightarrow> ('f, 'r) DynamicPrefixReconciler \<Rightarrow>
     (create_error + 'r) \<times> ('f, 'r) DynamicPrefixReconciler" where
  "buildReceiver ops env dp rc =
     (if \<not> rc_hasFactory rc then (Err (NoReceiverFactory (dp_Name dp)), rc)
      else
        (case pv_CreateReceiver ops (spec_Acquisition (dp_Spec dp)) (rc_world rc) of
           (Inl e, f) \<Rightarrow> (Err (FailedToCreate e), rc\<lparr>rc_world := f\<rparr>)
         | (Inr ref, f) \<Rightarrow>
             (case pv_Start ops env ref f of
                (Some e, f') \<Rightarrow> (Err (FailedToStart e), rc\<lparr>rc_world := f'\<rparr>)
              | (None, f') \<Rightarrow>
                  let rc1 = rc\<lparr>rc_world := f', rc_receivers := (rc_receivers rc)(dp_Name dp \<mapsto> ref),
                               rc_receiverSpecs := (rc_receiverSpecs rc)(dp_Name dp \<mapsto> spec_Acquisition (dp_Spec dp))\<rparr>
                  in (Ok ref,
                      if rc_prefixEvents rc1 = None then rc1
                      else rc1\<lparr>rc_receiverStops := (rc_receiverStops rc1)(dp_Name dp \<mapsto> rc_next rc1),
                               rc_forwarders := (rc_forwarders rc1)(rc_next rc1 \<mapsto> (dp_Name dp, ref)),
                               rc_next := rc_next rc1 + 1\<rparr>))))"

definition getOrCreateReceiver ::
  "('f, 'r, 'e) provider_ops \<Rightarrow> equality_api \<Rightarrow> 'e \<Rightarrow> DynamicPrefix \<Rightarrow> ('f, 'r) DynamicPrefixReconciler \<Rightarrow>
     ((create_error + 'r) \<times> ('f, 'r) DynamicPrefixReconciler) option" where
  "getOrCreateReceiver ops q env dp rc =
     (case rc_receivers rc (dp_Name dp) of
        None \<Rightarrow> Some (buildReceiver ops env dp rc)
      | Some ref \<Rightarrow>
          (case rc_receiverSpecs rc (dp_Name dp) of
             None \<Rightarrow>
               Some (Ok ref, rc\<lparr>rc_receiverSpecs := (rc_receiverSpecs rc)(dp_Name dp \<mapsto> spec_Acquisition (dp_Spec dp))\<rparr>)
           | Some recorded \<Rightarrow>
               if eq_Acquisition q recorded (spec_Acquisition (dp_Spec dp)) then Some (Ok ref, rc)
               else map_option (\<lambda>(err, f').
                   buildReceiver ops env dp
                     (emitEvent (dp_Name dp) (NormalEvent eventReasonReceiverRebuilt
                        ''Acquisition settings changed; the prefix receiver was rebuilt'')
                      (stopReceiverLocked (dp_Name dp) (rc\<lparr>rc_world := f'\<rparr>))))
                 (pv_Stop ops env ref (rc_world rc))))"

text \<open>One turn of a forwarding goroutine that finds an event.\<close>

definition forwards :: "EventType \<Rightarrow> bool" where
  "forwards t \<longleftrightarrow> t \<in> {EventTypeAcquired, EventTypeChanged, EventTypeExpired}"

definition forwardPrefixEvents_turn ::
  "('f, 'r, 'e) provider_ops \<Rightarrow> nat \<Rightarrow> ('f, 'r) DynamicPrefixReconciler \<Rightarrow> ('f, 'r) DynamicPrefixReconciler option" where
  "forwardPrefixEvents_turn ops c rc =
     (case rc_forwarders rc c of
        None \<Rightarrow> None
      | Some (name, ref) \<Rightarrow>
          (case pv_take ops ref (rc_world rc) of
             None \<Rightarrow> None
           | Some (ev, f') \<Rightarrow>
               let rc1 = rc\<lparr>rc_world := f'\<rparr> in
               Some (if \<not> forwards (event_Type ev) then rc1
                     else (case rc_prefixEvents rc1 of
                         None \<Rightarrow> rc1
                       | Some queue \<Rightarrow>
                           if length queue < prefixEventQueueSize
                           then rc1\<lparr>rc_prefixEvents := Some (queue @ [name])\<rparr> else rc1))))"

subsection \<open>Reporting dropped advertisements\<close>

definition rejectionReportInterval :: duration where "rejectionReportInterval = 5 * minute"

definition rejected_message :: "64 word \<Rightarrow> 64 word \<Rightarrow> string \<Rightarrow> string" where
  "rejected_message since tot reason =
     ''Dropped '' @ dec (unat since) @ '' Router Advertisement(s) since the last report ('' @ dec (unat tot) @
     '' in total; most recent reason: '' @ reason @ '')''"

text \<open>The zero report stands for a missing one, as Go's map lookup has it.\<close>

definition reportRARejections ::
  "('f, 'r, 'e) provider_ops \<Rightarrow> instant \<Rightarrow> DynamicPrefix \<Rightarrow> 'r \<Rightarrow> ('f, 'r) DynamicPrefixReconciler \<Rightarrow>
     ('f, 'r) DynamicPrefixReconciler" where
  "reportRARejections ops now dp ref rc =
     (case pv_RARejections ops ref (rc_world rc) of
        None \<Rightarrow> rc
      | Some (tot, lastReason) \<Rightarrow>
          if tot = 0 then rc
          else
            let seen = (rc_rejectionReports rc (dp_Name dp) \<noteq> None);
                previous = (case rc_rejectionReports rc (dp_Name dp) of Some r \<Rightarrow> r | None \<Rightarrow> \<lparr>rr_total = 0, rr_at = 0\<rparr>)
            in if tot = rr_total previous then rc
               else if tot > rr_total previous \<and> seen \<and> time_Sub now (rr_at previous) < rejectionReportInterval then rc
               else
                 let since = (if tot < rr_total previous then tot else tot - rr_total previous) in
                 emitEvent (dp_Name dp)
                   (WarningEvent eventReasonRouterAdvertisementsRejected (rejected_message since tot lastReason))
                   (rc\<lparr>rc_rejectionReports := (rc_rejectionReports rc)(dp_Name dp \<mapsto> \<lparr>rr_total = tot, rr_at = now\<rparr>)\<rparr>))"

subsection \<open>The manager at work\<close>

text \<open>
  Reconciles and clean-ups, turns of the forwarders in any order, a cancelled forwarder returning,
  the work queue taking a wake-up, and reports.  In between, the receivers' own goroutines change
  them; \<open>background\<close> is the relation of those turns.
\<close>

inductive manager_step ::
  "('f, 'r, 'e) provider_ops \<Rightarrow> ('f \<Rightarrow> 'f \<Rightarrow> bool) \<Rightarrow> equality_api \<Rightarrow>
     ('f, 'r) DynamicPrefixReconciler \<Rightarrow> ('f, 'r) DynamicPrefixReconciler \<Rightarrow> bool"
  for ops background q where
  manager_get: "getOrCreateReceiver ops q env dp rc = Some (res, rc') \<Longrightarrow> manager_step ops background q rc rc'"
| manager_cleanup: "cleanupReceiver ops env name rc = Some rc' \<Longrightarrow> manager_step ops background q rc rc'"
| manager_forward: "forwardPrefixEvents_turn ops c rc = Some rc' \<Longrightarrow> manager_step ops background q rc rc'"
| manager_return: "c \<in> rc_cancelled rc \<Longrightarrow> manager_step ops background q rc (rc\<lparr>rc_forwarders := (rc_forwarders rc)(c := None)\<rparr>)"
| manager_wake: "rc_prefixEvents rc = Some (name # queue) \<Longrightarrow> manager_step ops background q rc (rc\<lparr>rc_prefixEvents := Some queue\<rparr>)"
| manager_report: "manager_step ops background q rc (reportRARejections ops now dp ref rc)"
| manager_emit: "manager_step ops background q rc (emitEvent name ev rc)"
| manager_background: "background (rc_world rc) f' \<Longrightarrow> manager_step ops background q rc (rc\<lparr>rc_world := f'\<rparr>)"

lemma manager_step_setup:
  assumes "manager_step ops background q rc rc'" and "rc_prefixEvents rc \<noteq> None"
  shows "rc_prefixEvents rc' \<noteq> None"
proof -
  have build: "rc_prefixEvents (snd (buildReceiver ops env dp r)) = rc_prefixEvents r" for env dp r
    by (auto simp: buildReceiver_def Let_def split: sum.split prod.split option.split)
  then have got: "rc_prefixEvents r' = rc_prefixEvents r" if "buildReceiver ops env dp r = (res, r')" for env dp r res r'
    using that by (metis snd_conv)
  show ?thesis
    using assms by cases
      (auto simp: getOrCreateReceiver_def cleanupReceiver_def forwardPrefixEvents_turn_def reportRARejections_def
         emitEvent_def stopReceiverLocked_def Let_def dest!: got split: option.splits if_splits)
qed

text \<open>
  The invariant.  Every goroutine that is not cancelled drains the receiver its resource uses now,
  every receiver has been handed to one goroutine only, and the wake-up channel keeps to its size.
\<close>

definition links_ok ::
  "(string \<rightharpoonup> 'r) \<Rightarrow> (string \<rightharpoonup> nat) \<Rightarrow> (nat \<rightharpoonup> string \<times> 'r) \<Rightarrow> nat set \<Rightarrow> nat \<Rightarrow> 'r set \<Rightarrow> bool" where
  "links_ok recv stops fw cancelled nxt K \<longleftrightarrow>
     ran recv \<subseteq> K \<and> inj_on recv (dom recv) \<and>
     (\<forall>name c. stops name = Some c \<longrightarrow> c \<notin> cancelled \<and> (\<exists>ref. recv name = Some ref \<and> fw c = Some (name, ref))) \<and>
     (\<forall>c name ref. fw c = Some (name, ref) \<longrightarrow> c < nxt \<and> ref \<in> K \<and> (c \<notin> cancelled \<longrightarrow> stops name = Some c)) \<and>
     (\<forall>c d name name' ref. fw c = Some (name, ref) \<longrightarrow> fw d = Some (name', ref) \<longrightarrow> c = d) \<and>
     (\<forall>c \<in> cancelled. c < nxt)"

definition manager_ok :: "('f \<Rightarrow> bool) \<Rightarrow> ('f \<Rightarrow> 'r set) \<Rightarrow> ('f, 'r) DynamicPrefixReconciler \<Rightarrow> bool" where
  "manager_ok good known rc \<longleftrightarrow>
     good (rc_world rc) \<and>
     dom (rc_receiverSpecs rc) = dom (rc_receivers rc) \<and>
     links_ok (rc_receivers rc) (rc_receiverStops rc) (rc_forwarders rc) (rc_cancelled rc) (rc_next rc) (known (rc_world rc)) \<and>
     (rc_prefixEvents rc \<noteq> None \<longrightarrow> dom (rc_receivers rc) = dom (rc_receiverStops rc)) \<and>
     (\<forall>queue. rc_prefixEvents rc = Some queue \<longrightarrow> length queue \<le> prefixEventQueueSize)"

lemma manager_okI:
  assumes "good (rc_world rc)" "dom (rc_receiverSpecs rc) = dom (rc_receivers rc)"
    "links_ok (rc_receivers rc) (rc_receiverStops rc) (rc_forwarders rc) (rc_cancelled rc) (rc_next rc) (known (rc_world rc))"
    "rc_prefixEvents rc \<noteq> None \<Longrightarrow> dom (rc_receivers rc) = dom (rc_receiverStops rc)"
    "\<And>queue. rc_prefixEvents rc = Some queue \<Longrightarrow> length queue \<le> prefixEventQueueSize"
  shows "manager_ok good known rc"
  using assms unfolding manager_ok_def by blast

lemma links_okD:
  assumes "links_ok recv stops fw cancelled nxt K"
  shows "ran recv \<subseteq> K" "inj_on recv (dom recv)"
    "stops name = Some c \<Longrightarrow> c \<notin> cancelled" "stops name = Some c \<Longrightarrow> \<exists>ref. recv name = Some ref \<and> fw c = Some (name, ref)"
    "fw c = Some (name, ref) \<Longrightarrow> c < nxt" "fw c = Some (name, ref) \<Longrightarrow> ref \<in> K"
    "fw c = Some (name, ref) \<Longrightarrow> c \<notin> cancelled \<Longrightarrow> stops name = Some c"
    "fw c = Some (name, ref) \<Longrightarrow> fw d = Some (name', ref) \<Longrightarrow> c = d" "c \<in> cancelled \<Longrightarrow> c < nxt"
  using assms unfolding links_ok_def by blast+

lemma links_okI:
  assumes "ran recv \<subseteq> K" "inj_on recv (dom recv)"
    "\<And>name c. stops name = Some c \<Longrightarrow> c \<notin> cancelled \<and> (\<exists>ref. recv name = Some ref \<and> fw c = Some (name, ref))"
    "\<And>c name ref. fw c = Some (name, ref) \<Longrightarrow> c < nxt \<and> ref \<in> K \<and> (c \<notin> cancelled \<longrightarrow> stops name = Some c)"
    "\<And>c d name name' ref. fw c = Some (name, ref) \<Longrightarrow> fw d = Some (name', ref) \<Longrightarrow> c = d"
    "\<And>c. c \<in> cancelled \<Longrightarrow> c < nxt"
  shows "links_ok recv stops fw cancelled nxt K"
  using assms unfolding links_ok_def by blast

lemma links_ok_mono: "links_ok recv stops fw cancelled nxt K \<Longrightarrow> K \<subseteq> K' \<Longrightarrow> links_ok recv stops fw cancelled nxt K'"
  unfolding links_ok_def by blast

lemma links_ok_stop:
  assumes ok: "links_ok recv stops fw cancelled nxt K"
  shows "links_ok (recv(name := None)) (stops(name := None)) fw
     (case stops name of None \<Rightarrow> cancelled | Some c \<Rightarrow> insert c cancelled) nxt K"
proof (rule links_okI)
  show "ran (recv(name := None)) \<subseteq> K"
    using links_okD(1) [OF ok] by (auto simp: ran_def split: if_splits)
  show "inj_on (recv(name := None)) (dom (recv(name := None)))"
    using links_okD(2) [OF ok] by (auto simp: inj_on_def)
next
  fix name' c assume *: "(stops(name := None)) name' = Some c"
  then have n: "name' \<noteq> name" "stops name' = Some c"
    by (auto split: if_splits)
  obtain ref where ref: "recv name' = Some ref" "fw c = Some (name', ref)"
    using links_okD(4) [OF ok n(2)] by blast
  have "stops name \<noteq> Some c"
    using links_okD(4) [OF ok, of name c] ref n(1) by auto
  then show "c \<notin> (case stops name of None \<Rightarrow> cancelled | Some c \<Rightarrow> insert c cancelled) \<and>
      (\<exists>ref. (recv(name := None)) name' = Some ref \<and> fw c = Some (name', ref))"
    using links_okD(3) [OF ok n(2)] ref n(1) by (auto split: option.splits)
next
  fix c name' ref assume fw: "fw c = Some (name', ref)"
  show "c < nxt \<and> ref \<in> K \<and> (c \<notin> (case stops name of None \<Rightarrow> cancelled | Some c \<Rightarrow> insert c cancelled) \<longrightarrow>
      (stops(name := None)) name' = Some c)"
    using links_okD(5,6,7) [OF ok fw] by (cases "c \<in> cancelled") (auto split: option.splits)
next
  fix c assume "c \<in> (case stops name of None \<Rightarrow> cancelled | Some c \<Rightarrow> insert c cancelled)"
  then show "c < nxt"
    using links_okD(9) [OF ok] links_okD(4) [OF ok, of name] links_okD(5) [OF ok] by (fastforce split: option.splits)
qed (rule links_okD(8) [OF ok])

lemma links_ok_receiver:
  assumes ok: "links_ok recv stops fw cancelled nxt K" and "recv name = None" "ref \<notin> K" "ref \<in> K'" "K \<subseteq> K'"
  shows "links_ok (recv(name \<mapsto> ref)) stops fw cancelled nxt K'"
proof (rule links_okI)
  show "ran (recv(name \<mapsto> ref)) \<subseteq> K'"
    using links_okD(1) [OF ok] assms(2,4,5) by auto
  show "inj_on (recv(name \<mapsto> ref)) (dom (recv(name \<mapsto> ref)))"
    using links_okD(1,2) [OF ok] assms(3) by (auto simp: inj_on_def ran_def dom_def)
next
  fix name' c assume *: "stops name' = Some c"
  moreover have "name' \<noteq> name"
    using links_okD(4) [OF ok *] assms(2) by auto
  ultimately show "c \<notin> cancelled \<and> (\<exists>r. (recv(name \<mapsto> ref)) name' = Some r \<and> fw c = Some (name', r))"
    using links_okD(3,4) [OF ok *] by simp
next
  fix c name' r assume fw: "fw c = Some (name', r)"
  show "c < nxt \<and> r \<in> K' \<and> (c \<notin> cancelled \<longrightarrow> stops name' = Some c)"
    using links_okD(5,6,7) [OF ok fw] assms(5) by blast
qed (use links_okD(8,9) [OF ok] in blast)+

lemma links_ok_forwarder:
  assumes ok: "links_ok recv stops fw cancelled nxt K" and "recv name = Some ref" "stops name = None"
    and unread: "\<And>c name'. fw c \<noteq> Some (name', ref)" and "ref \<in> K"
  shows "links_ok recv (stops(name \<mapsto> nxt)) (fw(nxt \<mapsto> (name, ref))) cancelled (nxt + 1) K"
proof (rule links_okI)
  fix name' c assume *: "(stops(name \<mapsto> nxt)) name' = Some c"
  show "c \<notin> cancelled \<and> (\<exists>r. recv name' = Some r \<and> (fw(nxt \<mapsto> (name, ref))) c = Some (name', r))"
  proof (cases "name' = name")
    case True
    then show ?thesis
      using * assms(2) links_okD(9) [OF ok, of nxt] by auto
  next
    case False
    with * have s: "stops name' = Some c"
      by simp
    obtain r where r: "recv name' = Some r" "fw c = Some (name', r)"
      using links_okD(4) [OF ok s] by blast
    then have "c \<noteq> nxt"
      using links_okD(5) [OF ok r(2)] by simp
    then show ?thesis
      using r links_okD(3) [OF ok s] by simp
  qed
next
  fix c name' r assume "(fw(nxt \<mapsto> (name, ref))) c = Some (name', r)"
  then consider "c = nxt" "name' = name" "r = ref" | "c \<noteq> nxt" "fw c = Some (name', r)"
    by (auto split: if_splits)
  then show "c < nxt + 1 \<and> r \<in> K \<and> (c \<notin> cancelled \<longrightarrow> (stops(name \<mapsto> nxt)) name' = Some c)"
  proof cases
    case 2
    then show ?thesis
      using links_okD(5,6,7) [OF ok 2(2)] assms(3) by (cases "c \<in> cancelled") auto
  qed (use assms(5) in auto)
next
  fix c d name1 name2 r
  assume "(fw(nxt \<mapsto> (name, ref))) c = Some (name1, r)" "(fw(nxt \<mapsto> (name, ref))) d = Some (name2, r)"
  then show "c = d"
    using links_okD(8) [OF ok, of c name1 r d name2] unread by (auto split: if_splits)
next
  fix c assume "c \<in> cancelled"
  then show "c < nxt + 1"
    using links_okD(9) [OF ok] by fastforce
qed (use links_okD(1,2) [OF ok] in auto)

lemma links_ok_return:
  assumes ok: "links_ok recv stops fw cancelled nxt K" and "c \<in> cancelled"
  shows "links_ok recv stops (fw(c := None)) cancelled nxt K"
proof (rule links_okI)
  fix name d assume s: "stops name = Some d"
  moreover have "d \<noteq> c"
    using links_okD(3) [OF ok s] assms(2) by blast
  ultimately show "d \<notin> cancelled \<and> (\<exists>r. recv name = Some r \<and> (fw(c := None)) d = Some (name, r))"
    using links_okD(3,4) [OF ok s] by simp
next
  fix d name r assume "(fw(c := None)) d = Some (name, r)"
  then have "fw d = Some (name, r)"
    by (auto split: if_splits)
  then show "d < nxt \<and> r \<in> K \<and> (d \<notin> cancelled \<longrightarrow> stops name = Some d)"
    using links_okD(5-7) [OF ok] by blast
next
  fix d e name name' r assume "(fw(c := None)) d = Some (name, r)" "(fw(c := None)) e = Some (name', r)"
  then show "d = e"
    using links_okD(8) [OF ok, of d name r e name'] by (auto split: if_splits)
qed (use links_okD(1,2,9) [OF ok] in auto)

text \<open>What the manager relies on: a new receiver is a new one, and no call makes one unknown.\<close>

locale receiver_provider =
  fixes ops :: "('f, 'r, 'e) provider_ops" and good :: "'f \<Rightarrow> bool" and known :: "'f \<Rightarrow> 'r set"
    and ready :: "'r \<Rightarrow> 'f \<Rightarrow> bool" and background :: "'f \<Rightarrow> 'f \<Rightarrow> bool"
  assumes create_keeps: "good f \<Longrightarrow> pv_CreateReceiver ops spec f = (res, f') \<Longrightarrow> good f' \<and> known f \<subseteq> known f'"
    and create_fresh: "good f \<Longrightarrow> pv_CreateReceiver ops spec f = (Ok ref, f') \<Longrightarrow>
      ref \<notin> known f \<and> ref \<in> known f' \<and> ready ref f'"
    and start_keeps: "good f \<Longrightarrow> ready ref f \<Longrightarrow> pv_Start ops env ref f = (err, f') \<Longrightarrow> good f' \<and> known f \<subseteq> known f'"
    and stop_returns: "good f \<Longrightarrow> pv_Stop ops env ref f \<noteq> None"
    and stop_keeps: "good f \<Longrightarrow> pv_Stop ops env ref f = Some (err, f') \<Longrightarrow> good f' \<and> known f \<subseteq> known f'"
    and background_keeps: "good f \<Longrightarrow> background f f' \<Longrightarrow> good f' \<and> known f \<subseteq> known f'"
    and take_keeps: "good f \<Longrightarrow> pv_take ops ref f = Some (ev, f') \<Longrightarrow> good f' \<and> known f \<subseteq> known f'"
begin

lemma manager_ok_world:
  "manager_ok good known rc \<Longrightarrow> good f' \<Longrightarrow> known (rc_world rc) \<subseteq> known f' \<Longrightarrow> manager_ok good known (rc\<lparr>rc_world := f'\<rparr>)"
  unfolding manager_ok_def by (auto intro: links_ok_mono)

lemma manager_ok_events: "manager_ok good known rc \<Longrightarrow> manager_ok good known (emitEvent name ev rc)"
  by (simp add: manager_ok_def emitEvent_def)

lemma stopReceiverLocked_ok:
  "manager_ok good known rc \<Longrightarrow> manager_ok good known (stopReceiverLocked name rc)"
  using links_ok_stop unfolding manager_ok_def stopReceiverLocked_def by auto

lemma buildReceiver_ok:
  assumes ok: "manager_ok good known rc" and free: "rc_receivers rc (dp_Name dp) = None"
    and build: "buildReceiver ops env dp rc = (res, rc')"
  shows "manager_ok good known rc'"
proof -
  let ?name = "dp_Name dp"
  obtain cres f where create: "pv_CreateReceiver ops (spec_Acquisition (dp_Spec dp)) (rc_world rc) = (cres, f)"
    by (cases "pv_CreateReceiver ops (spec_Acquisition (dp_Spec dp)) (rc_world rc)")
  have good: "good (rc_world rc)" and links: "links_ok (rc_receivers rc) (rc_receiverStops rc) (rc_forwarders rc)
      (rc_cancelled rc) (rc_next rc) (known (rc_world rc))" and dom: "dom (rc_receiverSpecs rc) = dom (rc_receivers rc)"
    using ok by (simp_all add: manager_ok_def)
  have f: "good f" "known (rc_world rc) \<subseteq> known f"
    using create_keeps [OF good create] by auto
  show ?thesis
  proof (cases cres)
    case (Inl e)
    then show ?thesis
      using build create ok f manager_ok_world [OF ok f] by (auto simp: buildReceiver_def split: if_splits)
  next
    case (Inr ref)
    have fresh: "ref \<notin> known (rc_world rc)" "ref \<in> known f" "ready ref f"
      using create_fresh [OF good create [unfolded Inr]] by auto
    obtain err f' where start: "pv_Start ops env ref f = (err, f')"
      by (cases "pv_Start ops env ref f")
    have f': "good f'" "known (rc_world rc) \<subseteq> known f'" "ref \<in> known f'"
      using start_keeps [OF f(1) fresh(3) start] f(2) fresh(2) by auto
    have stopped: "rc_receiverStops rc ?name = None"
      using links_okD(4) [OF links, of ?name] free by fastforce
    have unread: "rc_forwarders rc c \<noteq> Some (name', ref)" for c name'
      using links_okD(6) [OF links] fresh(1) by blast
    note recv = links_ok_receiver [OF links free fresh(1) f'(3,2)]
    have fwd: "links_ok ((rc_receivers rc)(?name \<mapsto> ref)) ((rc_receiverStops rc)(?name \<mapsto> rc_next rc))
        ((rc_forwarders rc)(rc_next rc \<mapsto> (?name, ref))) (rc_cancelled rc) (rc_next rc + 1) (known f')"
      by (rule links_ok_forwarder [OF recv]) (use stopped unread f'(3) in simp_all)
    have keys: "dom ((rc_receiverSpecs rc)(?name \<mapsto> spec)) = dom ((rc_receivers rc)(?name \<mapsto> ref))" for spec
      using dom by (simp only: dom_fun_upd option.simps if_False)
    have stops: "dom ((rc_receivers rc)(?name \<mapsto> ref)) = dom ((rc_receiverStops rc)(?name \<mapsto> rc_next rc))"
      if "rc_prefixEvents rc \<noteq> None"
      using that ok unfolding manager_ok_def by (simp only: dom_fun_upd option.simps if_False not_False_eq_True simp_thms)
    consider "rc' = rc" | "rc' = rc\<lparr>rc_world := f'\<rparr>"
      | "rc_prefixEvents rc = None"
        "rc' = rc\<lparr>rc_world := f', rc_receivers := (rc_receivers rc)(?name \<mapsto> ref),
           rc_receiverSpecs := (rc_receiverSpecs rc)(?name \<mapsto> spec_Acquisition (dp_Spec dp))\<rparr>"
      | "rc_prefixEvents rc \<noteq> None"
        "rc' = rc\<lparr>rc_world := f', rc_receivers := (rc_receivers rc)(?name \<mapsto> ref),
           rc_receiverSpecs := (rc_receiverSpecs rc)(?name \<mapsto> spec_Acquisition (dp_Spec dp)),
           rc_receiverStops := (rc_receiverStops rc)(?name \<mapsto> rc_next rc),
           rc_forwarders := (rc_forwarders rc)(rc_next rc \<mapsto> (?name, ref)), rc_next := rc_next rc + 1\<rparr>"
      using build create Inr start
      by (cases err; cases "rc_prefixEvents rc"; cases "rc_hasFactory rc") (auto simp: buildReceiver_def Let_def)
    then show ?thesis
    proof cases
      case 1
      then show ?thesis using ok by simp
    next
      case 2
      then show ?thesis using manager_ok_world [OF ok f'(1,2)] by simp
    next
      case 3
      then show ?thesis
        using f' recv keys by (intro manager_okI) (simp_all del: dom_fun_upd)
    next
      case 4
      have "length queue \<le> prefixEventQueueSize" if "rc_prefixEvents rc = Some queue" for queue
        using ok that by (simp add: manager_ok_def)
      with 4 show ?thesis
        using f' fwd keys stops by (intro manager_okI) (simp_all del: dom_fun_upd)
    qed
  qed
qed

lemma getOrCreateReceiver_ok:
  assumes ok: "manager_ok good known rc" and get: "getOrCreateReceiver ops q env dp rc = Some (res, rc')"
  shows "manager_ok good known rc'"
proof (cases "rc_receivers rc (dp_Name dp)")
  case None
  then show ?thesis
    using buildReceiver_ok [OF ok None, of env res rc'] get by (simp add: getOrCreateReceiver_def)
next
  case (Some ref)
  then have "dp_Name dp \<in> dom (rc_receiverSpecs rc)"
    using ok unfolding manager_ok_def by blast
  then obtain recorded where rec: "rc_receiverSpecs rc (dp_Name dp) = Some recorded"
    by blast
  show ?thesis
  proof (cases "eq_Acquisition q recorded (spec_Acquisition (dp_Spec dp))")
    case True
    then show ?thesis
      using get ok Some rec by (simp add: getOrCreateReceiver_def)
  next
    case False
    with get Some rec obtain err f' where stop: "pv_Stop ops env ref (rc_world rc) = Some (err, f')"
      and build: "buildReceiver ops env dp (emitEvent (dp_Name dp) (NormalEvent eventReasonReceiverRebuilt
          ''Acquisition settings changed; the prefix receiver was rebuilt'')
          (stopReceiverLocked (dp_Name dp) (rc\<lparr>rc_world := f'\<rparr>))) = (res, rc')"
      by (auto simp: getOrCreateReceiver_def)
    have "good (rc_world rc)"
      using ok by (simp add: manager_ok_def)
    then have "manager_ok good known (stopReceiverLocked (dp_Name dp) (rc\<lparr>rc_world := f'\<rparr>))"
      using stop_keeps [OF _ stop] manager_ok_world [OF ok] stopReceiverLocked_ok by blast
    then show ?thesis
      using buildReceiver_ok [OF manager_ok_events _ build] by (simp add: emitEvent_def stopReceiverLocked_def)
  qed
qed

lemma cleanupReceiver_ok:
  assumes ok: "manager_ok good known rc" and clean: "cleanupReceiver ops env name rc = Some rc'"
  shows "manager_ok good known rc'"
proof -
  have "good (rc_world rc)"
    using ok by (simp add: manager_ok_def)
  then show ?thesis
    using clean ok stop_keeps manager_ok_world [OF ok] stopReceiverLocked_ok
    by (auto simp: cleanupReceiver_def split: option.splits)
qed

text \<open>No call panics.\<close>

lemma getOrCreateReceiver_returns:
  assumes "manager_ok good known rc"
  shows "getOrCreateReceiver ops q env dp rc \<noteq> None"
proof -
  have "good (rc_world rc)"
    using assms by (simp add: manager_ok_def)
  then show ?thesis
    by (simp add: getOrCreateReceiver_def stop_returns del: not_None_eq split: option.split)
qed

lemma cleanupReceiver_returns:
  assumes "manager_ok good known rc"
  shows "cleanupReceiver ops env name rc \<noteq> None"
proof -
  have "good (rc_world rc)"
    using assms by (simp add: manager_ok_def)
  then show ?thesis
    by (simp add: cleanupReceiver_def stop_returns del: not_None_eq split: option.split)
qed

lemma forward_ok:
  assumes ok: "manager_ok good known rc" and turn: "forwardPrefixEvents_turn ops c rc = Some rc'"
  shows "manager_ok good known rc'"
proof -
  obtain name ref ev f' where fw: "rc_forwarders rc c = Some (name, ref)" and take: "pv_take ops ref (rc_world rc) = Some (ev, f')"
    using turn by (auto simp: forwardPrefixEvents_turn_def split: option.splits)
  have "good (rc_world rc)"
    using ok by (simp add: manager_ok_def)
  then have "manager_ok good known (rc\<lparr>rc_world := f'\<rparr>)"
    using take_keeps [OF _ take] manager_ok_world [OF ok] by blast
  then have ok': "manager_ok good known (rc\<lparr>rc_world := f', rc_prefixEvents := Some queue\<rparr>)"
    if "rc_prefixEvents rc \<noteq> None" "length queue \<le> prefixEventQueueSize" for queue
    using that by (simp add: manager_ok_def)
  show ?thesis
  proof (cases "rc_prefixEvents rc")
    case None
    then show ?thesis
      using turn fw take \<open>manager_ok good known (rc\<lparr>rc_world := f'\<rparr>)\<close>
      by (simp add: forwardPrefixEvents_turn_def Let_def split: if_splits)
  next
    case (Some queue)
    then show ?thesis
      using turn fw take \<open>manager_ok good known (rc\<lparr>rc_world := f'\<rparr>)\<close> ok' [of "queue @ [name]"]
      by (simp add: forwardPrefixEvents_turn_def Let_def split: if_splits)
  qed
qed

lemma report_ok: "manager_ok good known rc \<Longrightarrow> manager_ok good known (reportRARejections ops now dp ref rc)"
  by (auto simp: reportRARejections_def manager_ok_def emitEvent_def Let_def split: option.splits)

lemma manager_step_ok:
  assumes "manager_step ops background q rc rc'" and "manager_ok good known rc"
  shows "manager_ok good known rc'"
  using assms
proof cases
  case (manager_return c)
  then show ?thesis
    using assms(2) links_ok_return by (auto simp: manager_ok_def)
next
  case (manager_wake name queue)
  then show ?thesis
    using assms(2) by (simp add: manager_ok_def)
next
  case (manager_background f')
  then show ?thesis
    using assms(2) background_keeps [of "rc_world rc" f'] manager_ok_world [OF assms(2)] by (simp add: manager_ok_def)
qed (use getOrCreateReceiver_ok cleanupReceiver_ok forward_ok report_ok manager_ok_events assms(2) in blast)+

lemma manager_initial_ok: "good f \<Longrightarrow> manager_ok good known (setup_channel (NewDynamicPrefixReconciler f b))"
  by (simp add: manager_ok_def links_ok_def setup_channel_def NewDynamicPrefixReconciler_def)

lemma manager_reachable_ok:
  assumes "(manager_step ops background q)\<^sup>*\<^sup>* (setup_channel (NewDynamicPrefixReconciler f b)) rc" and "good f"
  shows "manager_ok good known rc"
  using assms(1) by induction (use manager_initial_ok [OF assms(2)] manager_step_ok in blast)+

end

end
