(* ===== verification/Factory_Provider.thy ===== *)
theory Factory_Provider
  imports Receiver_Manager
begin

text \<open>
  The DynamicPrefix reconciler's receivers on the default factory: the method tables of the three
  kinds of receiver behind one reference type, the turns of their goroutines, and the
  interpretation of \<open>receiver_provider\<close>, which makes the manager's invariant one of the program.
\<close>

subsection \<open>The factory as a provider\<close>

definition receiver_LastError :: "receiver_ref \<Rightarrow> DefaultReceiverFactory \<Rightarrow> recv_error option" where
  "receiver_LastError ref f =
     (case ref of
        RefPD n \<Rightarrow> Option.bind (fa_pd f n) PD_LastError
      | RefSub sub \<Rightarrow> sub_LastError sub (fa_pool f)
      | RefComposite k \<Rightarrow>
          Option.bind (fa_co f k) (\<lambda>(c, n, sub). Option.bind (fa_pd f n) (\<lambda>r.
            composite_LastError pd_ops (sub_ops sub) (c, r, fa_pool f))))"

text \<open>A plain DHCPv6-PD client does not count advertisements.\<close>

definition receiver_RARejections :: "receiver_ref \<Rightarrow> DefaultReceiverFactory \<Rightarrow> (64 word \<times> string) option" where
  "receiver_RARejections ref f =
     (case ref of
        RefPD n \<Rightarrow> None
      | RefSub sub \<Rightarrow> Some (sub_RARejections sub (fa_pool f))
      | RefComposite k \<Rightarrow>
          Option.bind (fa_co f k) (\<lambda>(c, n, sub). map_option (\<lambda>r.
            composite_RARejections (sub_ops sub) (c, r, fa_pool f)) (fa_pd f n)))"

definition receiver_Source :: "receiver_ref \<Rightarrow> DefaultReceiverFactory \<Rightarrow> Source" where
  "receiver_Source ref f =
     (case ref of
        RefPD n \<Rightarrow> (case fa_pd f n of None \<Rightarrow> SourceUnknown | Some r \<Rightarrow> PD_Source r)
      | RefSub sub \<Rightarrow> sub_Source sub (fa_pool f)
      | RefComposite k \<Rightarrow>
          (case fa_co f k of
             None \<Rightarrow> SourceUnknown
           | Some (c, n, sub) \<Rightarrow>
               (case fa_pd f n of
                  None \<Rightarrow> SourceUnknown
                | Some r \<Rightarrow> composite_Source pd_ops (sub_ops sub) (c, r, fa_pool f))))"

definition receiver_take :: "receiver_ref \<Rightarrow> DefaultReceiverFactory \<Rightarrow> (Event \<times> DefaultReceiverFactory) option" where
  "receiver_take ref f =
     (case ref of
        RefPD n \<Rightarrow> Option.bind (fa_pd f n) (\<lambda>r. map_option (\<lambda>(ev, r'). (ev, put_pd n r' f)) (pd_take r))
      | RefSub sub \<Rightarrow> map_option (\<lambda>(ev, pool). (ev, f\<lparr>fa_pool := pool\<rparr>)) (sub_take sub (fa_pool f))
      | RefComposite k \<Rightarrow>
          Option.bind (fa_co f k) (\<lambda>(c, n, sub). Option.bind (fa_pd f n) (\<lambda>r.
            map_option (\<lambda>(ev, (c', _)). (ev, f\<lparr>fa_co := (fa_co f)(k \<mapsto> (c', n, sub))\<rparr>))
              (composite_take (c, r, fa_pool f)))))"

definition factory_ops :: "(DefaultReceiverFactory, receiver_ref, receiver_env) provider_ops" where
  "factory_ops =
     \<lparr>pv_CreateReceiver = CreateReceiver, pv_Start = receiver_Start, pv_Stop = receiver_Stop, pv_take = receiver_take,
      pv_CurrentPrefix = receiver_CurrentPrefix, pv_LastError = receiver_LastError,
      pv_RARejections = receiver_RARejections, pv_Source = receiver_Source\<rparr>"

text \<open>
  The goroutines: a client's loop and a shared receiver's listener change lease, health and events,
  never the run, the claim or the policy; \<^verbatim>\<open>fanOut\<close> and \<^verbatim>\<open>mergeEvents\<close> pass events on.
\<close>

inductive background :: "DefaultReceiverFactory \<Rightarrow> DefaultReceiverFactory \<Rightarrow> bool" where
  background_client:
    "fa_pd f n = Some r \<Longrightarrow> pd_same_run r r' \<Longrightarrow> pd_iface r' = pd_iface r \<Longrightarrow> pd_claim r' = pd_claim r \<Longrightarrow>
     pd_policy r' = pd_policy r \<Longrightarrow> background f (put_pd n r' f)"
| background_listener:
    "pl_entry (fa_pool f) ref = Some e \<Longrightarrow> same_run (en_receiver e) r' \<Longrightarrow>
     ra_policy r' = ra_policy (en_receiver e) \<Longrightarrow> ra_iface r' = ra_iface (en_receiver e) \<Longrightarrow>
     background f (f\<lparr>fa_pool := (fa_pool f)\<lparr>pl_entry := (pl_entry (fa_pool f))(ref \<mapsto> e\<lparr>en_receiver := r'\<rparr>)\<rparr>\<rparr>)"
| background_fanOut: "background f (f\<lparr>fa_pool := fanOut_turn ref (fa_pool f)\<rparr>)"
| background_primary:
    "fa_co f k = Some (c, n, sub) \<Longrightarrow> fa_pd f n = Some r \<Longrightarrow>
     mergeEvents_primary pd_ops (sub_ops sub) (c, r, fa_pool f) = (c', r', pool) \<Longrightarrow>
     background f (put_pd n r' (f\<lparr>fa_co := (fa_co f)(k \<mapsto> (c', n, sub)), fa_pool := pool\<rparr>))"
| background_fallback:
    "fa_co f k = Some (c, n, sub) \<Longrightarrow> fa_pd f n = Some r \<Longrightarrow>
     mergeEvents_fallback (sub_ops sub) (c, r, fa_pool f) = (c', r', pool) \<Longrightarrow>
     background f (f\<lparr>fa_co := (fa_co f)(k \<mapsto> (c', n, sub)), fa_pool := pool\<rparr>)"

text \<open>The references handed out so far.\<close>

definition known :: "DefaultReceiverFactory \<Rightarrow> receiver_ref set" where
  "known f =
     {ref. case ref of RefPD n \<Rightarrow> n < fa_next f | RefSub sub \<Rightarrow> sub < pl_next (fa_pool f) | RefComposite k \<Rightarrow> k < fa_next f}"

lemma known_mono:
  "fa_next f \<le> fa_next f' \<Longrightarrow> pl_next (fa_pool f) \<le> pl_next (fa_pool f') \<Longrightarrow> known f \<subseteq> known f'"
  by (auto simp: known_def split: receiver_ref.splits)

lemma put_pd_simps [simp]:
  "fa_next (put_pd n r f) = fa_next f" "fa_pool (put_pd n r f) = fa_pool f" "fa_co (put_pd n r f) = fa_co f"
  by (simp_all add: put_pd_def)

subsection \<open>References are not used twice\<close>

lemma sub_Start_next: "pl_next (snd (sub_Start env sub p)) = pl_next p"
  by (simp add: sub_Start_def Let_def split: option.split prod.split)

lemma sub_Stop_next: "sub_Stop closeErr sub p = Some (err, p') \<Longrightarrow> pl_next p' = pl_next p"
  by (auto simp: sub_Stop_def unsubscribe_def unsubscribe_locked_def stop_entry_def Let_def
      split: option.splits if_splits prod.splits bool.splits)

lemma subscribe_next: "subscribe mk iface policy p = (sub, p') \<Longrightarrow> pl_next p \<le> sub \<and> pl_next p' = sub + 1"
  by (auto simp: subscribe_def Let_def split: option.splits prod.splits)

lemma sub_take_next: "sub_take sub p = Some (ev, p') \<Longrightarrow> pl_next p' = pl_next p"
  by (auto simp: sub_take_def split: option.splits list.splits)

lemma fanOut_next: "pl_next (fanOut_turn ref p) = pl_next p"
  by (simp add: fanOut_turn_def broadcast_def split: option.split list.split)

lemma composite_Start_next:
  "pl_next (snd (snd (snd (composite_Start opsP (sub_ops sub) env (c, r, p))))) = pl_next p"
  using sub_Start_next [of "fst (snd env)" sub p]
  by (auto simp: composite_Start_def sub_ops_def split: prod.split option.split)

lemma composite_Stop_next:
  assumes "composite_Stop opsP (sub_ops sub) env (c, r, p) = Some (err, (c', r', p'))"
  shows "pl_next p' = pl_next p"
  using assms sub_Stop_next
  by (auto simp: composite_Stop_def sub_ops_def split: prod.splits if_splits Option.bind_splits)

lemma receiver_Start_known: "receiver_Start env ref f = (err, f') \<Longrightarrow> known f \<subseteq> known f'"
  by (intro known_mono)
    (auto simp: receiver_Start_def sub_Start_next composite_Start_next split_beta split: receiver_ref.splits option.splits)

lemma receiver_Stop_known: "receiver_Stop env ref f = Some (err, f') \<Longrightarrow> known f \<subseteq> known f'"
  by (intro known_mono)
    (auto simp: receiver_Stop_def split: receiver_ref.splits option.splits dest!: sub_Stop_next composite_Stop_next)

lemma receiver_take_known: "receiver_take ref f = Some (ev, f') \<Longrightarrow> known f \<subseteq> known f'"
  using sub_take_next
  by (intro known_mono) (auto simp: receiver_take_def split: receiver_ref.splits Option.bind_splits)

lemma merge_fields:
  assumes "mergeEvents_primary pd_ops (sub_ops sub) (c, r, p) = (c', r', p')" 
  shows "p' = p" "pd_same_run r r'" "pd_iface r' = pd_iface r" "pd_policy r' = pd_policy r"
  using assms by (auto simp: mergeEvents_primary_def pd_ops_def pd_take_def pd_same_run_def split: list.splits)

lemma merge_fallback_fields:
  assumes "mergeEvents_fallback (sub_ops sub) (c, r, p) = (c', r', p')"
  shows "r' = r" "pl_next p' = pl_next p"
  using assms sub_take_next [of sub p] by (auto simp: mergeEvents_fallback_def sub_ops_def split: option.splits)

lemma put_pd_same_run:
  assumes "claims_ok f" "fa_pd f n = Some r" "pd_same_run r r'" "pd_iface r' = pd_iface r"
  shows "claims_ok (put_pd n r' f)"
proof -
  have "pd_channels_ok r" "pd_started r \<longrightarrow> pd_claim r = Claimed"
    using assms(1,2) by (simp_all add: claims_ok_def)
  then show ?thesis
    using assms(3,4) pd_same_run_channels(1) [OF assms(3)] by (intro put_pd_ok [OF assms(1,2)]) (auto simp: pd_same_run_def)
qed

lemma background_keeps:
  assumes "claims_ok f" "background f f'"
  shows "claims_ok f' \<and> known f \<subseteq> known f'"
  using assms(2)
proof cases
  case (background_client n r r')
  then show ?thesis
    using put_pd_same_run [OF assms(1)] by (simp add: known_mono)
next
  case (background_listener ref e r')
  then show ?thesis
    using claims_ok_other(2) [OF assms(1)] by (simp add: known_mono)
next
  case (background_fanOut ref)
  then show ?thesis
    using claims_ok_other(2) [OF assms(1)] by (simp add: known_mono fanOut_next)
next
  case (background_primary k c n sub r c' r' pool)
  have "claims_ok f'"
    unfolding background_primary(1)
    by (rule put_pd_same_run [OF claims_ok_other(1) [OF assms(1)], where r = r])
      (use background_primary(3) merge_fields [OF background_primary(4)] in simp_all)
  then show ?thesis
    using background_primary merge_fields(1) [OF background_primary(4)] by (simp add: known_mono)
next
  case (background_fallback k c n sub r c' r' pool)
  then show ?thesis
    using claims_ok_other(1) [OF assms(1)] merge_fallback_fields [OF background_fallback(4)] by (simp add: known_mono)
qed

lemma receiver_take_claims:
  assumes "claims_ok f" "receiver_take ref f = Some (ev, f')"
  shows "claims_ok f'"
proof (cases ref)
  case (RefPD n)
  then obtain r r' where r: "fa_pd f n = Some r" "pd_take r = Some (ev, r')" "f' = put_pd n r' f"
    using assms(2) by (auto simp: receiver_take_def split: Option.bind_splits)
  then have "pd_same_run r r'" "pd_iface r' = pd_iface r"
    by (auto simp: pd_take_def pd_same_run_def split: list.splits)
  then show ?thesis
    using put_pd_same_run [OF assms(1)] r by blast
next
  case (RefSub sub)
  then show ?thesis
    using assms claims_ok_other(2) by (auto simp: receiver_take_def)
next
  case (RefComposite k)
  then have "fa_pd f' = fa_pd f" "fa_pdInterfaces f' = fa_pdInterfaces f" "fa_next f' = fa_next f"
    using assms(2) by (auto simp: receiver_take_def split: Option.bind_splits)
  then show ?thesis
    using claims_ok_cong [of f' f] assms(1) by simp
qed

subsection \<open>A new receiver\<close>

lemma createDHCPv6PD_next:
  "createDHCPv6PDReceiver spec policy f = Ok (n, f') \<Longrightarrow>
   n = fa_next f \<and> fa_next f' = fa_next f + 1 \<and> fa_pool f' = fa_pool f \<and> (\<exists>r. fa_pd f' n = Some r \<and> pd_claim r = Claimed)"
  by (auto simp: createDHCPv6PDReceiver_def claimPDInterface_def Let_def split: if_splits sum.splits)

lemma createRA_next:
  "createRAReceiver spec policy f = Ok (sub, f') \<Longrightarrow>
   pl_next (fa_pool f) \<le> sub \<and> pl_next (fa_pool f') = sub + 1 \<and> fa_next f' = fa_next f \<and> fa_pd f' = fa_pd f"
  using subscribe_next by (fastforce simp: createRAReceiver_def split: if_splits prod.splits)

lemma createComposite_new:
  assumes "createCompositeReceiver spec pdSpec raSpec f = (res, f')"
  shows "known f \<subseteq> known f'" "res = Ok ref \<Longrightarrow> ref \<notin> known f \<and> ref \<in> known f' \<and> startable ref f'"
proof -
  let ?new = "known f \<subseteq> known f' \<and> (\<forall>ref. res = Ok ref \<longrightarrow> ref \<notin> known f \<and> ref \<in> known f' \<and> startable ref f')"
  consider (failed) "f' = f" "\<And>ref. res \<noteq> Ok ref"
    | (made) pol n f1 where "raPolicyFromSpec spec = Ok pol" "createDHCPv6PDReceiver pdSpec (ra_Policy pol) f = Ok (n, f1)"
    using assms by (auto simp: createCompositeReceiver_def split: sum.splits)
  then have ?new
  proof cases
    case (made pol n f1)
    note f1 = createDHCPv6PD_next [OF made(2)]
    show ?thesis
    proof (cases "createRAReceiver raSpec pol f1")
      case (Inl e)
      then have "f' = release_pd n f1" "\<And>ref. res \<noteq> Ok ref"
        using assms made by (auto simp: createCompositeReceiver_def)
      moreover have "known f \<subseteq> known (release_pd n f1)"
        using f1 by (intro known_mono) (auto simp: release_pd_def)
      ultimately show ?thesis
        by blast
    next
      case (Inr y)
      obtain sub f2 where y: "y = (sub, f2)"
        by (cases y)
      have f': "f' = f2\<lparr>fa_co := (fa_co f2)(fa_next f2 \<mapsto> (NewCompositeReceiver, n, sub)), fa_next := fa_next f2 + 1\<rparr>"
        "res = Ok (RefComposite (fa_next f2))"
        using assms made Inr y by (auto simp: createCompositeReceiver_def)
      then show ?thesis
        using f1 createRA_next [OF Inr [unfolded y]] by (auto simp: known_def startable_def split: receiver_ref.splits)
    qed
  qed simp
  then show "known f \<subseteq> known f'" "res = Ok ref \<Longrightarrow> ref \<notin> known f \<and> ref \<in> known f' \<and> startable ref f'"
    by blast+
qed

lemma CreateReceiver_new:
  assumes "CreateReceiver spec f = (res, f')"
  shows "known f \<subseteq> known f'" "res = Ok ref \<Longrightarrow> ref \<notin> known f \<and> ref \<in> known f' \<and> startable ref f'"
proof -
  consider "f' = f" "\<And>ref. res \<noteq> Ok ref"
    | n pdSpec where "createDHCPv6PDReceiver pdSpec (policyFromSpec spec) f = Ok (n, f')" "res = Ok (RefPD n)"
    | sub raSpec pol where "createRAReceiver raSpec pol f = Ok (sub, f')" "res = Ok (RefSub sub)"
    | pdSpec raSpec where "createCompositeReceiver spec pdSpec raSpec f = (res, f')"
    using assms by (auto simp: CreateReceiver_def split: option.splits sum.splits if_splits)
  then have "known f \<subseteq> known f' \<and> (\<forall>ref. res = Ok ref \<longrightarrow> ref \<notin> known f \<and> ref \<in> known f' \<and> startable ref f')"
  proof cases
    case (2 n pdSpec)
    then show ?thesis
      using createDHCPv6PD_next [OF 2(1)] by (auto simp: known_def startable_def split: receiver_ref.splits)
  next
    case (3 sub raSpec pol)
    then show ?thesis
      using createRA_next [OF 3(1)] by (auto simp: known_def startable_def split: receiver_ref.splits)
  next
    case 4
    then show ?thesis
      using createComposite_new by blast
  qed simp
  then show "known f \<subseteq> known f'" "res = Ok ref \<Longrightarrow> ref \<notin> known f \<and> ref \<in> known f' \<and> startable ref f'"
    by blast+
qed

subsection \<open>Shared receivers and composites\<close>

text \<open>The pool keeps its invariant, and no composite closes a channel twice.\<close>

definition parts_ok :: "DefaultReceiverFactory \<Rightarrow> bool" where
  "parts_ok f \<longleftrightarrow> pool_ok (fa_pool f) \<and> (\<forall>k c n sub. fa_co f k = Some (c, n, sub) \<longrightarrow> co_channels_ok c)"

definition factory_ok :: "DefaultReceiverFactory \<Rightarrow> bool" where
  "factory_ok f \<longleftrightarrow> claims_ok f \<and> parts_ok f"

lemma parts_okD: "parts_ok f \<Longrightarrow> pool_ok (fa_pool f)" "parts_ok f \<Longrightarrow> fa_co f k = Some (c, n, sub) \<Longrightarrow> co_channels_ok c"
  unfolding parts_ok_def by blast+

lemma parts_ok_put_pd [simp]: "parts_ok (put_pd n r f) = parts_ok f"
  by (simp add: parts_ok_def)

lemma parts_ok_pool: "parts_ok f \<Longrightarrow> pool_ok p \<Longrightarrow> parts_ok (f\<lparr>fa_pool := p\<rparr>)"
  by (simp add: parts_ok_def)

lemma parts_ok_co:
  "parts_ok f \<Longrightarrow> pool_ok p \<Longrightarrow> co_channels_ok c \<Longrightarrow> parts_ok (f\<lparr>fa_co := (fa_co f)(k \<mapsto> (c, n, sub)), fa_pool := p\<rparr>)"
  by (simp add: parts_ok_def)

lemma parts_ok_cong: "fa_pool g = fa_pool f \<Longrightarrow> fa_co g = fa_co f \<Longrightarrow> parts_ok g = parts_ok f"
  by (simp add: parts_ok_def)

lemma co_channels_cong:
  "co_stopCh c' = co_stopCh c \<Longrightarrow> co_closed c' = co_closed c \<Longrightarrow> co_nextCh c' = co_nextCh c \<Longrightarrow> co_started c' = co_started c \<Longrightarrow>
   co_channels_ok c' = co_channels_ok c"
  by (simp add: co_channels_ok_def)

lemma handle_channels [simp]:
  "co_channels_ok (handlePrimaryEvent fp ev c) = co_channels_ok c" "co_channels_ok (handleFallbackEvent ev c) = co_channels_ok c"
  by (rule co_channels_cong; simp add: handlePrimaryEvent_def handleFallbackEvent_def co_sendEvent_def Let_def split: EventType.split)+

lemma composite_Start_parts:
  assumes "composite_Start opsP (sub_ops sub) env (c, r, p) = (err, (c', r', p'))" "co_channels_ok c" "pool_ok p"
  shows "co_channels_ok c' \<and> pool_ok p'"
  using assms sub_Start_ok [OF assms(3), of "fst (snd env)" sub]
  by (auto simp: composite_Start_def sub_ops_def co_channels_ok_def less_SucI split: prod.splits if_splits option.splits)

lemma composite_Stop_parts:
  assumes "co_channels_ok c" "pd_channels_ok r" "pool_ok p"
  shows "\<exists>err c' r' p'. composite_Stop pd_ops (sub_ops sub) env (c, r, p) = Some (err, (c', r', p')) \<and>
     co_channels_ok c' \<and> pool_ok p'"
proof -
  obtain e1 r' where r': "PD_Stop r = Some (e1, r')"
    using PD_Stop_returns [OF assms(2)] by blast
  obtain e2 p' where p': "sub_Stop (snd (snd env)) sub p = Some (e2, p')" "pool_ok p'"
    using sub_Stop_returns [OF assms(3)] by blast
  show ?thesis
    using r' p' assms(1) by (auto simp: composite_Stop_def pd_ops_def sub_ops_def co_channels_ok_def split: prod.split)
qed

lemma receiver_Start_parts:
  assumes "parts_ok f" "receiver_Start env ref f = (err, f')"
  shows "parts_ok f'"
proof (cases ref)
  case (RefPD n)
  then show ?thesis
    using assms by (auto simp: receiver_Start_def split: option.splits prod.splits)
next
  case (RefSub sub)
  then show ?thesis
    using assms sub_Start_ok [OF parts_okD(1) [OF assms(1)]] parts_ok_pool
    by (auto simp: receiver_Start_def split: prod.splits dest!: arg_cong [of _ _ snd])
next
  case (RefComposite k)
  show ?thesis
  proof (cases "\<exists>c n sub r. fa_co f k = Some (c, n, sub) \<and> fa_pd f n = Some r")
    case False
    then show ?thesis
      using assms RefComposite by (auto simp: receiver_Start_def split: option.splits prod.splits)
  next
    case True
    then obtain c n sub r where k: "fa_co f k = Some (c, n, sub)" "fa_pd f n = Some r"
      by blast
    obtain c' r' p where st: "composite_Start pd_ops (sub_ops sub) ((), env) (c, r, fa_pool f) = (err, (c', r', p))"
      and f': "f' = put_pd n r' (f\<lparr>fa_co := (fa_co f)(k \<mapsto> (c', n, sub)), fa_pool := p\<rparr>)"
      using assms(2) RefComposite k by (auto simp: receiver_Start_def split: prod.splits)
    show ?thesis
      using composite_Start_parts [OF st parts_okD(2) [OF assms(1) k(1)] parts_okD(1) [OF assms(1)]]
        parts_ok_co [OF assms(1)] by (simp add: f')
  qed
qed

lemma receiver_Stop_parts:
  assumes "factory_ok f"
  shows "\<exists>err f'. receiver_Stop env ref f = Some (err, f') \<and> parts_ok f'"
proof -
  have parts: "parts_ok f" and ch: "fa_pd f n = Some r \<Longrightarrow> pd_channels_ok r" for n r
    using assms by (auto simp: factory_ok_def claims_ok_def)
  show ?thesis
  proof (cases ref)
    case (RefPD n)
    then show ?thesis
      using parts PD_Stop_returns [OF ch] by (cases "fa_pd f n") (fastforce simp: receiver_Stop_def)+
  next
    case (RefSub sub)
    then show ?thesis
      using sub_Stop_returns [OF parts_okD(1) [OF parts], of "snd env" sub] parts_ok_pool [OF parts]
      by (auto simp: receiver_Stop_def)
  next
    case (RefComposite k)
    show ?thesis
    proof (cases "\<exists>c n sub r. fa_co f k = Some (c, n, sub) \<and> fa_pd f n = Some r")
      case False
      then show ?thesis
        using parts RefComposite by (auto simp: receiver_Stop_def split: option.splits prod.splits)
    next
      case True
      then obtain c n sub r where k: "fa_co f k = Some (c, n, sub)" "fa_pd f n = Some r"
        by blast
      then show ?thesis
        using composite_Stop_parts [OF parts_okD(2) [OF parts k(1)] ch [OF k(2)] parts_okD(1) [OF parts], of sub "((), env)"]
          parts_ok_co [OF parts] RefComposite by (auto simp: receiver_Stop_def)
    qed
  qed
qed

lemma sub_take_pool: "pool_ok p \<Longrightarrow> sub_take sub p = Some (ev, p') \<Longrightarrow> pool_ok p'"
  using pool_step_ok pool_take by (fastforce simp: sub_take_def split: option.splits list.splits)

lemma receiver_take_parts:
  assumes "parts_ok f" "receiver_take ref f = Some (ev, f')"
  shows "parts_ok f'"
proof (cases ref)
  case (RefSub sub)
  then show ?thesis
    using assms sub_take_pool [OF parts_okD(1) [OF assms(1)]] parts_ok_pool by (auto simp: receiver_take_def)
next
  case (RefComposite k)
  then obtain c n sub c' evs where k: "fa_co f k = Some (c, n, sub)" "c' = c\<lparr>co_events := evs\<rparr>"
    "f' = f\<lparr>fa_co := (fa_co f)(k \<mapsto> (c', n, sub))\<rparr>"
    using assms(2) by (fastforce simp: receiver_take_def composite_take_def split: Option.bind_splits list.splits)
  then have "co_channels_ok c'"
    using parts_okD(2) [OF assms(1) k(1)] by (simp add: co_channels_ok_def)
  then show ?thesis
    using assms(1) by (simp add: k(3) parts_ok_def)
qed (use assms in \<open>auto simp: receiver_take_def split: Option.bind_splits\<close>)

lemma background_parts:
  assumes "parts_ok f" "background f f'"
  shows "parts_ok f'"
  using assms(2)
proof cases
  case (background_listener ref e r')
  then show ?thesis
    using pool_ok_receiver [OF parts_okD(1) [OF assms(1)]] parts_ok_pool [OF assms(1)] by blast
next
  case (background_fanOut ref)
  then show ?thesis
    using fanOut_ok [OF parts_okD(1) [OF assms(1)]] parts_ok_pool [OF assms(1)] by blast
next
  case (background_primary k c n sub r c' r' pool)
  have "co_channels_ok c'"
    using parts_okD(2) [OF assms(1) background_primary(2)] background_primary(4)
    by (auto simp: mergeEvents_primary_def split: option.splits)
  moreover have "pool_ok pool"
    using parts_okD(1) [OF assms(1)] merge_fields(1) [OF background_primary(4)] by simp
  ultimately have "parts_ok (f\<lparr>fa_co := (fa_co f)(k \<mapsto> (c', n, sub)), fa_pool := pool\<rparr>)"
    by (intro parts_ok_co [OF assms(1)])
  then show ?thesis
    unfolding background_primary(1) parts_ok_put_pd .
next
  case (background_fallback k c n sub r c' r' pool)
  have "co_channels_ok c' \<and> pool_ok pool"
    using parts_okD(2) [OF assms(1) background_fallback(2)] parts_okD(1) [OF assms(1)] background_fallback(4)
      sub_take_pool [of "fa_pool f" sub] by (auto simp: mergeEvents_fallback_def sub_ops_def split: option.splits)
  then show ?thesis
    using parts_ok_co [OF assms(1)] by (simp add: background_fallback(1))
qed (use assms in simp)

lemma createRA_parts:
  assumes "parts_ok f" "createRAReceiver spec policy f = Ok (sub, f')"
  shows "parts_ok f'"
proof -
  obtain p where "f' = f\<lparr>fa_pool := p\<rparr>"
    "p = snd (subscribe (\<lambda>i pol. NewRAReceiverWithPolicy i pol (fa_onRAReject f) (fa_onRAHopLimit f))
       (raspec_Interface spec) policy (fa_pool f))"
    using assms(2) by (auto simp: createRAReceiver_def split: if_splits prod.splits)
  then show ?thesis
    using subscribe_ok [OF parts_okD(1) [OF assms(1)] new_receiver_ok] parts_ok_pool [OF assms(1)] by simp
qed

lemma createDHCPv6PD_parts:
  "parts_ok f \<Longrightarrow> createDHCPv6PDReceiver spec policy f = Ok (n, f') \<Longrightarrow> parts_ok f'"
  by (erule iffD2 [OF parts_ok_cong, rotated -1];
      auto simp: createDHCPv6PDReceiver_def claimPDInterface_def Let_def split: if_splits)

lemma CreateReceiver_parts:
  assumes "parts_ok f" "CreateReceiver spec f = (res, f')"
  shows "parts_ok f'"
proof -
  have new: "co_channels_ok NewCompositeReceiver"
    by (simp add: co_channels_ok_def NewCompositeReceiver_def)
  have made: "parts_ok (g\<lparr>fa_co := (fa_co g)(k \<mapsto> (NewCompositeReceiver, n, sub)), fa_next := m\<rparr>)" if "parts_ok g" for g k n sub m
    using that new by (simp add: parts_ok_def)
  have "parts_ok (release_pd n g) = parts_ok g" for n g
    by (simp add: release_pd_def split: option.split)
  then have "parts_ok f'" if "createCompositeReceiver spec pdSpec raSpec f = (res, f')" for pdSpec raSpec
    using that assms(1) by (auto simp: createCompositeReceiver_def split: sum.splits
      intro!: made dest!: createDHCPv6PD_parts [OF assms(1)] dest: createRA_parts)
  then show ?thesis
    using assms createRA_parts [OF assms(1)] createDHCPv6PD_parts [OF assms(1)]
    by (simp add: CreateReceiver_def split: option.splits sum.splits if_splits prod.splits)
qed

lemma factory_initial_parts: "factory_ok (NewReceiverFactory o1 o2)"
  using factory_initial_ok [of o1 o2] pool_initial_ok by (simp add: factory_ok_def parts_ok_def NewReceiverFactory_def)

interpretation managed: receiver_provider factory_ops factory_ok known startable background
proof unfold_locales
  fix f f' spec res ref env err ev
  assume good: "factory_ok f"
  then have ok: "claims_ok f" and parts: "parts_ok f"
    by (simp_all add: factory_ok_def)
  show "factory_ok f' \<and> known f \<subseteq> known f'" if "pv_CreateReceiver factory_ops spec f = (res, f')"
    using that CreateReceiver_claims(1) [OF ok] CreateReceiver_new(1) CreateReceiver_parts [OF parts]
    by (simp add: factory_ops_def factory_ok_def)
  show "ref \<notin> known f \<and> ref \<in> known f' \<and> startable ref f'" if "pv_CreateReceiver factory_ops spec f = (Ok ref, f')"
    using that CreateReceiver_new(2) by (simp add: factory_ops_def)
  show "factory_ok f' \<and> known f \<subseteq> known f'" if "startable ref f" "pv_Start factory_ops env ref f = (err, f')"
    using that receiver_Start_claims [OF ok] receiver_Start_known receiver_Start_parts [OF parts]
    by (simp add: factory_ops_def factory_ok_def)
  show "pv_Stop factory_ops env ref f \<noteq> None"
    using receiver_Stop_parts [OF good, of env ref] by (auto simp: factory_ops_def)
  show "factory_ok f' \<and> known f \<subseteq> known f'" if "pv_Stop factory_ops env ref f = Some (err, f')"
    using that receiver_Stop_claims [OF ok] receiver_Stop_known receiver_Stop_parts [OF good, of env ref]
    by (auto simp: factory_ops_def factory_ok_def)
  show "factory_ok f' \<and> known f \<subseteq> known f'" if "background f f'"
    using that background_keeps [OF ok] background_parts [OF parts] by (simp add: factory_ok_def)
  show "factory_ok f' \<and> known f \<subseteq> known f'" if "pv_take factory_ops ref f = Some (ev, f')"
    using that receiver_take_claims [OF ok] receiver_take_known receiver_take_parts [OF parts]
    by (simp add: factory_ops_def factory_ok_def)
qed

subsection \<open>Every receiver is watched\<close>

text \<open>
  C10: Whatever reconciles, deletions, specification changes, stops and background turns happen, and in
  whatever order: a receiver in use belongs to one DynamicPrefix, its specification is recorded, and
  exactly one goroutine that is not cancelled drains its events, so that no event of it is left
  waiting or handed to another resource; and the wake-up channel never holds more than its capacity.
\<close>

theorem every_receiver_is_watched:
  assumes "(manager_step factory_ops background q)\<^sup>*\<^sup>*
      (setup_channel (NewDynamicPrefixReconciler (NewReceiverFactory o1 o2) True)) rc"
    and "rc_receivers rc name = Some ref"
  shows "(\<exists>!c. c \<notin> rc_cancelled rc \<and> (\<exists>n. rc_forwarders rc c = Some (n, ref))) \<and>
     (\<exists>c. c \<notin> rc_cancelled rc \<and> rc_forwarders rc c = Some (name, ref)) \<and>
     (\<forall>other. rc_receivers rc other = Some ref \<longrightarrow> other = name) \<and>
     rc_receiverSpecs rc name \<noteq> None \<and>
     (\<exists>queue. rc_prefixEvents rc = Some queue \<and> length queue \<le> prefixEventQueueSize)"
proof -
  have ok: "manager_ok factory_ok known rc"
    using managed.manager_reachable_ok [OF assms(1) factory_initial_parts] .
  have chan: "rc_prefixEvents rc \<noteq> None"
    using assms(1) manager_step_setup [of factory_ops background q] by induction (auto simp: setup_channel_def)
  have links: "links_ok (rc_receivers rc) (rc_receiverStops rc) (rc_forwarders rc) (rc_cancelled rc) (rc_next rc)
      (known (rc_world rc))" and "name \<in> dom (rc_receiverStops rc)" and "name \<in> dom (rc_receiverSpecs rc)"
    and queue: "\<exists>queue. rc_prefixEvents rc = Some queue \<and> length queue \<le> prefixEventQueueSize"
    using ok chan assms(2) unfolding manager_ok_def by blast+
  then obtain c where c: "c \<notin> rc_cancelled rc" "rc_forwarders rc c = Some (name, ref)"
    using links_okD(3,4) [OF links, of name] assms(2) by fastforce
  have "other = name" if "rc_receivers rc other = Some ref" for other
    using links_okD(2) [OF links] that assms(2) by (metis domI inj_onD)
  then show ?thesis
    using c links_okD(8) [OF links] \<open>name \<in> dom (rc_receiverSpecs rc)\<close> queue by blast
qed

definition watched_dp :: DynamicPrefix where
  "watched_dp = sample_dp\<lparr>dp_Spec := (dp_Spec sample_dp)\<lparr>spec_Acquisition := sample_acquisition\<rparr>\<rparr>"

definition idle_manager :: "(DefaultReceiverFactory, receiver_ref) DynamicPrefixReconciler" where
  "idle_manager = setup_channel (NewDynamicPrefixReconciler (NewReceiverFactory False False) True)"

definition watching_manager :: "(DefaultReceiverFactory, receiver_ref) DynamicPrefixReconciler" where
  "watching_manager = snd (buildReceiver factory_ops (sample_env, None) watched_dp idle_manager)"

lemma idle_manager_empty: "rc_receivers idle_manager name = None"
  by (simp add: idle_manager_def setup_channel_def NewDynamicPrefixReconciler_def)

lemma watching_manager_reachable: "(manager_step factory_ops background q)\<^sup>*\<^sup>* idle_manager watching_manager"
proof -
  have "getOrCreateReceiver factory_ops q (sample_env, None) watched_dp idle_manager =
      Some (buildReceiver factory_ops (sample_env, None) watched_dp idle_manager)"
    by (simp add: getOrCreateReceiver_def idle_manager_empty)
  also have "\<dots> = Some (fst (buildReceiver factory_ops (sample_env, None) watched_dp idle_manager), watching_manager)"
    by (simp add: watching_manager_def)
  finally show ?thesis
    by (intro r_into_rtranclp manager_get)
qed

lemma watching_manager_receiver: "rc_receivers watching_manager ''home'' = Some (RefPD 0)"
  by (simp add: watching_manager_def buildReceiver_def idle_manager_def setup_channel_def NewDynamicPrefixReconciler_def
      watched_dp_def sample_dp_def factory_ops_def sample_acquisition_def CreateReceiver_def createDHCPv6PDReceiver_def
      NewReceiverFactory_def claimPDInterface_def RAEnabled_def receiver_Start_def PD_Start_def
      NewDHCPv6PDReceiverWithPolicy_def Let_def)

theorem every_receiver_is_watched_witness:
  "\<exists>c. c \<notin> rc_cancelled watching_manager \<and> rc_forwarders watching_manager c = Some (''home'', RefPD 0)"
  using every_receiver_is_watched [OF watching_manager_reachable [unfolded idle_manager_def] watching_manager_receiver]
  by blast

end
