(* ===== verification/DynamicPrefix_Controller.thy ===== *)
theory DynamicPrefix_Controller
  imports Factory_Provider
begin

text \<open>
  A pass of the DynamicPrefix reconciler (\<^verbatim>\<open>Reconcile\<close> and \<^verbatim>\<open>updateStatusIfChanged\<close> of
  \<^verbatim>\<open>dynamicprefix_controller.go\<close>).  The Kubernetes API and the helpers of other modules are the
  environment of a pass: what \<^verbatim>\<open>Get\<close> returned, whether a write is refused, the finalizer and
  condition helpers, semantic equality and the texts of errors.  A pass yields its result, the
  writes it made in order, and the reconciler's state; \<open>None\<close> is a panic.  The clock is read once
  per pass, and the receiver does not change while the pass reads it.  Logging and Prometheus
  metrics, which nothing reads back, are left out.
\<close>

subsection \<open>The environment of a pass\<close>

record finalizer_api =
  ContainsFinalizer :: "string list \<Rightarrow> string \<Rightarrow> bool"
  AddFinalizer :: "string list \<Rightarrow> string \<Rightarrow> string list"
  RemoveFinalizer :: "string list \<Rightarrow> string \<Rightarrow> string list"

text \<open>What \<^verbatim>\<open>controllerutil\<close> documents: membership, and that only the named finalizer comes and goes.\<close>

definition finalizer_laws :: "finalizer_api \<Rightarrow> bool" where
  "finalizer_laws k \<longleftrightarrow>
     (\<forall>xs f. ContainsFinalizer k xs f \<longleftrightarrow> f \<in> set xs) \<and>
     (\<forall>xs f. set (AddFinalizer k xs f) = insert f (set xs)) \<and>
     (\<forall>xs f. set (RemoveFinalizer k xs f) = set xs - {f})"

record error_texts =
  text_create :: "create_error \<Rightarrow> string"
  text_recv :: "recv_error \<Rightarrow> string"
  text_policy :: "policy_error \<Rightarrow> string"
  text_subnets :: "subnets_error \<Rightarrow> string"
  text_ranges :: "ranges_error \<Rightarrow> string"

datatype get_result = Found DynamicPrefix | NotFound | GetFailed string

datatype k_write = UpdateObject DynamicPrefix | ApplyStatus string DynamicPrefixStatusAC

record reconcile_env =
  re_now :: instant
  re_meta :: meta_api
  re_eq :: equality_api
  re_fin :: finalizer_api
  re_text :: error_texts
  re_Update :: "DynamicPrefix \<Rightarrow> string option"
  re_Apply :: "string \<Rightarrow> DynamicPrefixStatusAC \<Rightarrow> string option"

datatype reconcile_result = RequeueAfter duration | ReconcileError string

definition finalizerName :: string where "finalizerName = ''dynamic-prefix.io/finalizer''"

definition eventReasonPrefixReceived :: string where "eventReasonPrefixReceived = ''PrefixReceived''"
definition eventReasonPrefixChanged :: string where "eventReasonPrefixChanged = ''PrefixChanged''"
definition eventReasonReceiverCreationFailed :: string where "eventReasonReceiverCreationFailed = ''ReceiverCreationFailed''"
definition eventReasonPrefixRejected :: string where "eventReasonPrefixRejected = ''PrefixRejected''"
definition eventReasonAcquisitionFailed :: string where "eventReasonAcquisitionFailed = ''AcquisitionFailed''"
definition reasonPrefixRejected :: string where "reasonPrefixRejected = ''PrefixRejected''"
definition reasonAcquisitionFailed :: string where "reasonAcquisitionFailed = ''AcquisitionFailed''"
definition reasonWaitingForPrefix :: string where "reasonWaitingForPrefix = ''WaitingForPrefix''"
definition reasonRenewalFailing :: string where "reasonRenewalFailing = ''RenewalFailing''"

definition source_text :: "Source \<Rightarrow> string" where
  "source_text s =
     (case s of SourceDHCPv6PD \<Rightarrow> ''dhcpv6-pd'' | SourceRouterAdvertisement \<Rightarrow> ''router-advertisement''
      | SourceStatic \<Rightarrow> ''static'' | SourceUnknown \<Rightarrow> ''unknown'')"

definition prefix_source_text :: "PrefixSource \<Rightarrow> string" where
  "prefix_source_text s =
     (case s of PrefixSourceDHCPv6PD \<Rightarrow> ''dhcpv6-pd'' | PrefixSourceRouterAdvertisement \<Rightarrow> ''router-advertisement''
      | PrefixSourceStatic \<Rightarrow> ''static'' | PrefixSourceUnknown \<Rightarrow> ''unknown'' | PrefixSourceUnset \<Rightarrow> [])"

text \<open>The texts of the pass.\<close>

definition acquired_message :: "string \<Rightarrow> string \<Rightarrow> string" where
  "acquired_message p src = ''Prefix '' @ p @ '' acquired via '' @ src"

definition changed_message :: "string \<Rightarrow> string \<Rightarrow> string \<Rightarrow> string" where
  "changed_message old new src = ''Prefix changed from '' @ old @ '' to '' @ new @ '' via '' @ src"

definition failing_message :: "string \<Rightarrow> string" where
  "failing_message e = ''Prefix acquisition is failing: '' @ e"

definition renewal_message :: "string \<Rightarrow> string" where
  "renewal_message e = ''Still serving the last prefix; acquisition is failing: '' @ e"

definition rejection_message :: "string \<Rightarrow> string \<Rightarrow> string" where
  "rejection_message p e = ''Rejected acquired prefix '' @ p @ '': '' @ e"

subsection \<open>Writing the status\<close>

definition updateStatusIfChanged ::
  "reconcile_env \<Rightarrow> DynamicPrefix \<Rightarrow> DynamicPrefixStatus \<Rightarrow> string option \<times> k_write list" where
  "updateStatusIfChanged env dp originalStatus =
     (let desired = ownedDynamicPrefixStatus (re_meta env) (dp_Status dp) in
      if eq_Owned (re_eq env) (ownedDynamicPrefixStatus (re_meta env) originalStatus) desired then (None, [])
      else (re_Apply env (dp_Name dp) desired, [ApplyStatus (dp_Name dp) desired]))"

definition warnOnConditionChange ::
  "reconcile_env \<Rightarrow> string \<Rightarrow> string \<Rightarrow> string \<Rightarrow> string \<Rightarrow> DynamicPrefix \<Rightarrow> k_event list" where
  "warnOnConditionChange env condType reason message eventReason dp =
     (case FindStatusCondition (re_meta env) (st_Conditions (dp_Status dp)) condType of
        Some ex \<Rightarrow> if cond_Reason ex = reason \<and> cond_Message ex = message then [] else [WarningEvent eventReason message]
      | None \<Rightarrow> [WarningEvent eventReason message])"

abbreviation set_cond ::
  "reconcile_env \<Rightarrow> string \<Rightarrow> ConditionStatus \<Rightarrow> string \<Rightarrow> string \<Rightarrow> DynamicPrefix \<Rightarrow> DynamicPrefix" where
  "set_cond env \<equiv> setCondition (re_meta env) (re_now env)"

abbreviation set_status :: "(DynamicPrefixStatus \<Rightarrow> DynamicPrefixStatus) \<Rightarrow> DynamicPrefix \<Rightarrow> DynamicPrefix" where
  "set_status f dp \<equiv> dp\<lparr>dp_Status := f (dp_Status dp)\<rparr>"

subsection \<open>A pass that holds an acceptable prefix\<close>

text \<open>The events of a change and the history it leaves.\<close>

definition announceChange :: "reconcile_env \<Rightarrow> Prefix \<Rightarrow> Source \<Rightarrow> DynamicPrefix \<Rightarrow> k_event list \<times> DynamicPrefix" where
  "announceChange env p src dp =
     (let oldPrefix = st_CurrentPrefix (dp_Status dp); new = PrefixString (Network p);
          prefixSource = prefix_source_text (sourceToPrefixSource src)
      in if oldPrefix = new then ([], dp)
         else
           let ev = (if oldPrefix = []
                     then NormalEvent eventReasonPrefixReceived (acquired_message new prefixSource)
                     else NormalEvent eventReasonPrefixChanged (changed_message oldPrefix new prefixSource));
               (evs, dp') = handlePrefixChange (re_meta env) (re_now env) p dp
           in (ev # evs, dp'))"

text \<open>
  The computed part of the status and the Degraded condition.  A subnet that does not fit reaches
  the resource as an error; the panic of the big-integer code ends the pass.
\<close>

definition subnets_panic :: "subnets_error \<Rightarrow> bool" where
  "subnets_panic e = (case e of SubnetFailed _ FillBytesPanic \<Rightarrow> True | _ \<Rightarrow> False)"

definition computeStatus :: "reconcile_env \<Rightarrow> ipprefix \<Rightarrow> DynamicPrefix \<Rightarrow> DynamicPrefix option" where
  "computeStatus env network dp0 =
     (let subnets = calculateSubnets (dp_Name dp0) network (spec_Subnets (dp_Spec dp0)) in
      if (case subnets of Inl e \<Rightarrow> subnets_panic e | _ \<Rightarrow> False) then None
      else
        let dp1 = (case subnets of
              Inl e \<Rightarrow> set_cond env ConditionTypeDegraded ConditionTrue ''SubnetCalculationFailed'' (text_subnets (re_text env) e) dp0
            | Inr ss \<Rightarrow> set_status (st_Subnets_update (\<lambda>_. ss)) dp0)
        in Some (case calculateAddressRanges network (spec_AddressRanges (dp_Spec dp1)) of
              Inl e \<Rightarrow> set_cond env ConditionTypeDegraded ConditionTrue ''AddressRangeCalculationFailed'' (text_ranges (re_text env) e) dp1
            | Inr rs \<Rightarrow>
                let dp2 = set_status (st_AddressRanges_update (\<lambda>_. rs)) dp1 in
                if (case subnets of Inr ss \<Rightarrow> spec_Subnets (dp_Spec dp0) \<noteq> [] | _ \<Rightarrow> False) \<or> spec_Subnets (dp_Spec dp2) = []
                then set_cond env ConditionTypeDegraded ConditionFalse ''Healthy'' ''DynamicPrefix is operating normally'' dp2
                else dp2))"

definition publishPrefix ::
  "reconcile_env \<Rightarrow> Prefix \<Rightarrow> Source \<Rightarrow> recv_error option \<Rightarrow> DynamicPrefix \<Rightarrow> (k_event list \<times> DynamicPrefix) option" where
  "publishPrefix env p src acquisitionErr dp0 =
     (let (evs, dp1) = announceChange env p src dp0;
          dp2 = set_status (\<lambda>st. st\<lparr>st_CurrentPrefix := PrefixString (Network p),
                  st_PrefixSource := sourceToPrefixSource src,
                  st_LeaseExpiresAt := (if ValidLifetime p > 0 then Some (ReceivedAt p + ValidLifetime p) else None)\<rparr>) dp1
      in map_option (\<lambda>dp3.
           let dp4 = (case acquisitionErr of
                 None \<Rightarrow> dp3
               | Some e \<Rightarrow> set_cond env ConditionTypeDegraded ConditionTrue reasonRenewalFailing
                   (renewal_message (text_recv (re_text env) e)) dp3)
           in (evs, set_cond env ConditionTypePrefixAcquired ConditionTrue ''PrefixAcquired''
                 (acquired_message (PrefixString (Network p)) (source_text src)) dp4))
         (computeStatus env (Network p) dp2))"

subsection \<open>Reconcile\<close>

definition emit_all :: "string \<Rightarrow> k_event list \<Rightarrow> ('f, 'r) DynamicPrefixReconciler \<Rightarrow> ('f, 'r) DynamicPrefixReconciler" where
  "emit_all name evs rc = fold (emitEvent name) evs rc"

definition finish ::
  "reconcile_env \<Rightarrow> duration \<Rightarrow> DynamicPrefix \<Rightarrow> DynamicPrefixStatus \<Rightarrow> reconcile_result \<times> k_write list" where
  "finish env d dp originalStatus =
     (case updateStatusIfChanged env dp originalStatus of
        (Some err, ws) \<Rightarrow> (ReconcileError err, ws)
      | (None, ws) \<Rightarrow> (RequeueAfter d, ws))"

text \<open>
  The rest of a pass once there is a receiver.  \<open>rc\<close> is the state after the rejections were
  reported.
\<close>

definition reconcileReceiver ::
  "('f, 'r, 'e) provider_ops \<Rightarrow> reconcile_env \<Rightarrow> DynamicPrefix \<Rightarrow> 'r \<Rightarrow> ('f, 'r) DynamicPrefixReconciler \<Rightarrow>
     ((reconcile_result \<times> k_write list) \<times> ('f, 'r) DynamicPrefixReconciler) option" where
  "reconcileReceiver ops env dp ref rc =
     (let acquisitionErr = pv_LastError ops ref (rc_world rc); st0 = dp_Status dp; name = dp_Name dp in
      case pv_CurrentPrefix ops ref (rc_world rc) of
        None \<Rightarrow>
          (case acquisitionErr of
             Some e \<Rightarrow>
               let message = failing_message (text_recv (re_text env) e);
                   evs = warnOnConditionChange env ConditionTypePrefixAcquired reasonAcquisitionFailed message
                           eventReasonAcquisitionFailed dp;
                   dp' = set_cond env ConditionTypePrefixAcquired ConditionFalse reasonAcquisitionFailed message dp
               in Some (finish env (10 * second) dp' st0, emit_all name evs rc)
           | None \<Rightarrow>
               Some (finish env (10 * second)
                  (set_cond env ConditionTypePrefixAcquired ConditionFalse reasonWaitingForPrefix
                     ''Waiting to receive prefix from upstream'' dp) st0, rc))
      | Some p \<Rightarrow>
          (case Policy_Validate (prefixPolicyFor dp) (Network p) of
             Some e \<Rightarrow>
               let message = rejection_message (PrefixString (Network p)) (text_policy (re_text env) e);
                   dp' = set_cond env ConditionTypePrefixAcquired ConditionFalse reasonPrefixRejected message dp
               in Some (finish env (30 * second) dp' st0, emitEvent name (WarningEvent eventReasonPrefixRejected message) rc)
           | None \<Rightarrow>
               map_option (\<lambda>(evs, dp').
                   (finish env (calculateRequeueTime (re_now env) p) dp' st0, emit_all name evs rc))
                 (publishPrefix env p (pv_Source ops ref (rc_world rc)) acquisitionErr dp)))"

definition reconcileExisting ::
  "('f, 'r, 'e) provider_ops \<Rightarrow> reconcile_env \<Rightarrow> 'e \<Rightarrow> DynamicPrefix \<Rightarrow> ('f, 'r) DynamicPrefixReconciler \<Rightarrow>
     ((reconcile_result \<times> k_write list) \<times> ('f, 'r) DynamicPrefixReconciler) option" where
  "reconcileExisting ops env e dp rc =
     (if dp_Deleting dp then
        if ContainsFinalizer (re_fin env) (dp_Finalizers dp) finalizerName then
          map_option (\<lambda>rc'.
              let dp' = dp\<lparr>dp_Finalizers := RemoveFinalizer (re_fin env) (dp_Finalizers dp) finalizerName\<rparr> in
              ((case re_Update env dp' of Some err \<Rightarrow> ReconcileError err | None \<Rightarrow> RequeueAfter 0, [UpdateObject dp']), rc'))
            (cleanupReceiver ops e (dp_Name dp) rc)
        else Some ((RequeueAfter 0, []), rc)
      else if \<not> ContainsFinalizer (re_fin env) (dp_Finalizers dp) finalizerName then
        let dp' = dp\<lparr>dp_Finalizers := AddFinalizer (re_fin env) (dp_Finalizers dp) finalizerName\<rparr> in
        Some ((case re_Update env dp' of Some err \<Rightarrow> ReconcileError err | None \<Rightarrow> RequeueAfter second, [UpdateObject dp']), rc)
      else
        (case getOrCreateReceiver ops (re_eq env) e dp rc of
           None \<Rightarrow> None
         | Some (Inl err, rc1) \<Rightarrow>
             let message = text_create (re_text env) err;
                 dp' = set_cond env ConditionTypePrefixAcquired ConditionFalse ''ReceiverCreationFailed'' message dp
             in Some ((RequeueAfter (30 * second), snd (updateStatusIfChanged env dp' (dp_Status dp))),
                  emitEvent (dp_Name dp) (WarningEvent eventReasonReceiverCreationFailed message) rc1)
         | Some (Inr ref, rc1) \<Rightarrow> reconcileReceiver ops env dp ref (reportRARejections ops (re_now env) dp ref rc1)))"

definition Reconcile ::
  "('f, 'r, 'e) provider_ops \<Rightarrow> reconcile_env \<Rightarrow> 'e \<Rightarrow> string \<Rightarrow> get_result \<Rightarrow> ('f, 'r) DynamicPrefixReconciler \<Rightarrow>
     ((reconcile_result \<times> k_write list) \<times> ('f, 'r) DynamicPrefixReconciler) option" where
  "Reconcile ops env e name got rc =
     (case got of
        NotFound \<Rightarrow> map_option (\<lambda>rc'. ((RequeueAfter 0, []), rc')) (cleanupReceiver ops e name rc)
      | GetFailed err \<Rightarrow> Some ((ReconcileError err, []), rc)
      | Found dp \<Rightarrow> reconcileExisting ops env e dp rc)"

text \<open>An environment to run passes in.\<close>

definition sample_equality :: equality_api where
  "sample_equality = \<lparr>eq_Acquisition = (=), eq_Spec = (=), eq_Dependent = (=), eq_Owned = (=)\<rparr>"

definition sample_finalizers :: finalizer_api where
  "sample_finalizers =
     \<lparr>ContainsFinalizer = (\<lambda>xs f. f \<in> set xs), AddFinalizer = (\<lambda>xs f. if f \<in> set xs then xs else xs @ [f]),
      RemoveFinalizer = (\<lambda>xs f. removeAll f xs)\<rparr>"

definition sample_pass :: reconcile_env where
  "sample_pass =
     \<lparr>re_now = 100, re_meta = sample_meta, re_eq = sample_equality, re_fin = sample_finalizers,
      re_text = \<lparr>text_create = (\<lambda>_. ''create''), text_recv = (\<lambda>_. ''receive''), text_policy = (\<lambda>_. ''policy''),
                 text_subnets = (\<lambda>_. ''subnets''), text_ranges = (\<lambda>_. ''ranges'')\<rparr>,
      re_Update = (\<lambda>_. None), re_Apply = (\<lambda>_ _. None)\<rparr>"

lemma sample_equality_laws: "equality_laws sample_equality"
  by (simp add: equality_laws_def sample_equality_def)

lemma sample_finalizers_laws: "finalizer_laws sample_finalizers"
  by (auto simp: finalizer_laws_def sample_finalizers_def)

subsection \<open>What a pass writes\<close>

text \<open>Setting a condition touches nothing else of the resource.\<close>

lemma setCondition_fields [simp]:
  "dp_Name (setCondition m now t s r msg dp) = dp_Name dp"
  "dp_Spec (setCondition m now t s r msg dp) = dp_Spec dp"
  "dp_Generation (setCondition m now t s r msg dp) = dp_Generation dp"
  "st_CurrentPrefix (dp_Status (setCondition m now t s r msg dp)) = st_CurrentPrefix (dp_Status dp)"
  "st_PrefixSource (dp_Status (setCondition m now t s r msg dp)) = st_PrefixSource (dp_Status dp)"
  "st_LeaseExpiresAt (dp_Status (setCondition m now t s r msg dp)) = st_LeaseExpiresAt (dp_Status dp)"
  "st_Subnets (dp_Status (setCondition m now t s r msg dp)) = st_Subnets (dp_Status dp)"
  "st_AddressRanges (dp_Status (setCondition m now t s r msg dp)) = st_AddressRanges (dp_Status dp)"
  "st_History (dp_Status (setCondition m now t s r msg dp)) = st_History (dp_Status dp)"
  by (simp_all add: setCondition_def Let_def)

text \<open>The fields of the status other than its conditions.\<close>

definition same_facts :: "DynamicPrefixStatusAC \<Rightarrow> DynamicPrefixStatusAC \<Rightarrow> bool" where
  "same_facts a b \<longleftrightarrow>
     ac_CurrentPrefix a = ac_CurrentPrefix b \<and> ac_PrefixSource a = ac_PrefixSource b \<and>
     ac_LeaseExpiresAt a = ac_LeaseExpiresAt b \<and> ac_AddressRanges a = ac_AddressRanges b \<and>
     ac_Subnets a = ac_Subnets b \<and> ac_History a = ac_History b"

lemma same_facts_setCondition [simp]:
  "same_facts (ownedDynamicPrefixStatus m (dp_Status (setCondition m now t s r msg dp))) (ownedDynamicPrefixStatus m (dp_Status dp))"
  by (simp add: same_facts_def ownedDynamicPrefixStatus_def)

lemma updateStatus_writes:
  assumes "ApplyStatus n ac \<in> set (snd (updateStatusIfChanged env dp st))"
  shows "n = dp_Name dp" "ac = ownedDynamicPrefixStatus (re_meta env) (dp_Status dp)"
  using assms by (auto simp: updateStatusIfChanged_def Let_def split: if_splits)

lemma finish_writes [simp]: "snd (finish env d dp st) = snd (updateStatusIfChanged env dp st)"
  by (simp add: finish_def split: prod.split option.split)

lemma computeStatus_fields:
  assumes "computeStatus env network dp = Some dp'"
  shows "dp_Name dp' = dp_Name dp" "dp_Spec dp' = dp_Spec dp" "dp_Generation dp' = dp_Generation dp"
    "st_CurrentPrefix (dp_Status dp') = st_CurrentPrefix (dp_Status dp)"
    "st_History (dp_Status dp') = st_History (dp_Status dp)"
    "st_PrefixSource (dp_Status dp') = st_PrefixSource (dp_Status dp)"
    "st_LeaseExpiresAt (dp_Status dp') = st_LeaseExpiresAt (dp_Status dp)"
  using assms by (auto simp: computeStatus_def Let_def split: sum.splits if_splits)

lemma announceChange_fields:
  "dp_Name (snd (announceChange env p src dp)) = dp_Name dp"
  "dp_Spec (snd (announceChange env p src dp)) = dp_Spec dp"
  "dp_Generation (snd (announceChange env p src dp)) = dp_Generation dp"
  "st_CurrentPrefix (dp_Status (snd (announceChange env p src dp))) = st_CurrentPrefix (dp_Status dp)"
  "st_Conditions (dp_Status (snd (announceChange env p src dp))) = st_Conditions (dp_Status dp)"
  "st_Subnets (dp_Status (snd (announceChange env p src dp))) = st_Subnets (dp_Status dp)"
  "st_AddressRanges (dp_Status (snd (announceChange env p src dp))) = st_AddressRanges (dp_Status dp)"
  by (simp_all add: announceChange_def Let_def handlePrefixChange_fields split: prod.split)
    (metis handlePrefixChange_fields snd_conv)+

lemma PrefixString_not_empty [simp]: "PrefixString p \<noteq> []"
  by (simp add: PrefixString_def split: addr.split)

text \<open>The status fields a published prefix determines.\<close>

definition with_prefix :: "Prefix \<Rightarrow> Source \<Rightarrow> DynamicPrefixStatus \<Rightarrow> DynamicPrefixStatus" where
  "with_prefix p src st =
     st\<lparr>st_CurrentPrefix := PrefixString (Network p), st_PrefixSource := sourceToPrefixSource src,
        st_LeaseExpiresAt := (if ValidLifetime p > 0 then Some (ReceivedAt p + ValidLifetime p) else None)\<rparr>"

lemma publishPrefix_cases:
  assumes "publishPrefix env p src acquisitionErr dp = Some (evs, dp')"
  obtains dp3 where "computeStatus env (Network p) (set_status (with_prefix p src) (snd (announceChange env p src dp))) = Some dp3"
    "dp' = set_cond env ConditionTypePrefixAcquired ConditionTrue ''PrefixAcquired''
       (acquired_message (PrefixString (Network p)) (source_text src))
       (case acquisitionErr of None \<Rightarrow> dp3
        | Some e \<Rightarrow> set_cond env ConditionTypeDegraded ConditionTrue reasonRenewalFailing
            (renewal_message (text_recv (re_text env) e)) dp3)"
    "evs = fst (announceChange env p src dp)"
  using assms unfolding publishPrefix_def Let_def with_prefix_def split_beta by (auto simp: map_option_eq_Some)

lemma publishPrefix_fields:
  assumes "publishPrefix env p src acquisitionErr dp = Some (evs, dp')"
  shows "dp_Name dp' = dp_Name dp" "dp_Spec dp' = dp_Spec dp" "dp_Generation dp' = dp_Generation dp"
    "st_CurrentPrefix (dp_Status dp') = PrefixString (Network p)"
    "st_History (dp_Status dp') = st_History (dp_Status (snd (announceChange env p src dp)))"
proof -
  obtain dp3 where c: "computeStatus env (Network p) (set_status (with_prefix p src) (snd (announceChange env p src dp))) = Some dp3"
    and dp': "dp' = set_cond env ConditionTypePrefixAcquired ConditionTrue ''PrefixAcquired''
       (acquired_message (PrefixString (Network p)) (source_text src))
       (case acquisitionErr of None \<Rightarrow> dp3
        | Some e \<Rightarrow> set_cond env ConditionTypeDegraded ConditionTrue reasonRenewalFailing
            (renewal_message (text_recv (re_text env) e)) dp3)"
    using publishPrefix_cases [OF assms] by metis
  have "dp_Name dp' = dp_Name dp3 \<and> dp_Spec dp' = dp_Spec dp3 \<and> dp_Generation dp' = dp_Generation dp3 \<and>
      st_CurrentPrefix (dp_Status dp') = st_CurrentPrefix (dp_Status dp3) \<and>
      st_History (dp_Status dp') = st_History (dp_Status dp3)"
    by (simp add: dp' split: option.split)
  then show "dp_Name dp' = dp_Name dp" "dp_Spec dp' = dp_Spec dp" "dp_Generation dp' = dp_Generation dp"
    "st_CurrentPrefix (dp_Status dp') = PrefixString (Network p)"
    "st_History (dp_Status dp') = st_History (dp_Status (snd (announceChange env p src dp)))"
    using computeStatus_fields [OF c] announceChange_fields [of env p src dp] by (simp_all add: with_prefix_def)
qed

text \<open>The history after a pass that publishes a prefix.\<close>

lemma announceChange_history:
  assumes "history_ok (dp_Status dp)"
  shows "history_ok ((dp_Status (snd (announceChange env p src dp)))\<lparr>st_CurrentPrefix := PrefixString (Network p)\<rparr>)"
    "int (length (st_History (dp_Status (snd (announceChange env p src dp))))) \<le>
       max (int (length (st_History (dp_Status dp)))) (getMaxHistory dp)"
proof -
  let ?new = "PrefixString (Network p)" and ?old = "st_CurrentPrefix (dp_Status dp)"
  have snd: "snd (announceChange env p src dp) = (if ?old = ?new then dp else snd (handlePrefixChange (re_meta env) (re_now env) p dp))"
    by (simp add: announceChange_def Let_def split: prod.split)
  show "history_ok ((dp_Status (snd (announceChange env p src dp)))\<lparr>st_CurrentPrefix := ?new\<rparr>)"
    using history_ok_change [OF assms, of p "re_meta env" "re_now env"] assms
    by (auto simp: snd history_ok_def)
  show "int (length (st_History (dp_Status (snd (announceChange env p src dp))))) \<le>
      max (int (length (st_History (dp_Status dp)))) (getMaxHistory dp)"
  proof (cases "?old = ?new \<or> ?old = []")
    case True
    then show ?thesis
      by (auto simp: snd handlePrefixChange_def Let_def)
  next
    case False
    then have ne: "?old \<noteq> []"
      by simp
    obtain kept entry where "st_History (dp_Status (snd (handlePrefixChange (re_meta env) (re_now env) p dp))) = kept @ [entry]"
      "int (length kept) < getMaxHistory dp"
      by (rule handlePrefixChange_history [OF ne, of "re_meta env" "re_now env" p])
    then show ?thesis
      using False by (simp add: snd)
  qed
qed

lemma reconcileReceiver_writes:
  assumes "reconcileReceiver ops env dp ref rc = Some ((res, ws), rc')" and "ApplyStatus n ac \<in> set ws"
  obtains (same) "n = dp_Name dp" "same_facts ac (ownedDynamicPrefixStatus (re_meta env) (dp_Status dp))"
    | (published) p src err evs dp' where "n = dp_Name dp" "pv_CurrentPrefix ops ref (rc_world rc) = Some p"
        "Policy_Validate (prefixPolicyFor dp) (Network p) = None"
        "publishPrefix env p src err dp = Some (evs, dp')" "ac = ownedDynamicPrefixStatus (re_meta env) (dp_Status dp')"
proof -
  have w: "n = dp_Name dp'' \<and> ac = ownedDynamicPrefixStatus (re_meta env) (dp_Status dp'')"
    if "finish env d dp'' st = (res, ws)" for d dp'' st
    using updateStatus_writes [of n ac env dp'' st] assms(2) finish_writes [of env d dp'' st] that by (metis snd_conv)
  show ?thesis
  proof (cases "pv_CurrentPrefix ops ref (rc_world rc)")
    case None
    then obtain d r msg where "finish env d (set_cond env ConditionTypePrefixAcquired ConditionFalse r msg dp) (dp_Status dp) = (res, ws)"
      using assms(1) by (auto simp: reconcileReceiver_def Let_def split: option.splits)
    then show ?thesis
      using w same by (metis setCondition_fields(1) same_facts_setCondition)
  next
    case (Some p)
    show ?thesis
    proof (cases "Policy_Validate (prefixPolicyFor dp) (Network p)")
      case None
      then obtain evs dp' where pub: "publishPrefix env p (pv_Source ops ref (rc_world rc)) (pv_LastError ops ref (rc_world rc)) dp = Some (evs, dp')"
        and "finish env (calculateRequeueTime (re_now env) p) dp' (dp_Status dp) = (res, ws)"
        using assms(1) Some by (auto simp: reconcileReceiver_def Let_def)
      then show ?thesis
        using w published [OF _ Some None pub] publishPrefix_fields(1) [OF pub] by metis
    next
      case (Some e)
      then obtain d r msg where "finish env d (set_cond env ConditionTypePrefixAcquired ConditionFalse r msg dp) (dp_Status dp) = (res, ws)"
        using assms(1) \<open>pv_CurrentPrefix ops ref (rc_world rc) = Some p\<close> by (auto simp: reconcileReceiver_def Let_def)
      then show ?thesis
        using w same by (metis setCondition_fields(1) same_facts_setCondition)
    qed
  qed
qed

lemma reportRARejections_world [simp]: "rc_world (reportRARejections ops now dp ref rc) = rc_world rc"
  by (simp add: reportRARejections_def emitEvent_def Let_def split: option.split prod.split)


subsection \<open>Conditions after a pass\<close>

abbreviation condition_of :: "reconcile_env \<Rightarrow> DynamicPrefix \<Rightarrow> string \<Rightarrow> Condition option" where
  "condition_of env dp t \<equiv> FindStatusCondition (re_meta env) (st_Conditions (dp_Status dp)) t"

definition new_condition :: "DynamicPrefix \<Rightarrow> instant \<Rightarrow> string \<Rightarrow> ConditionStatus \<times> string \<times> string \<Rightarrow> Condition" where
  "new_condition dp now t v = (case v of (s, r, msg) \<Rightarrow>
     \<lparr>cond_Type = t, cond_Status = s, cond_ObservedGeneration = dp_Generation dp, cond_LastTransitionTime = now,
      cond_Reason = r, cond_Message = msg\<rparr>)"

lemma condition_of_set:
  assumes "meta_laws (re_meta env)"
  shows "condition_of env (set_cond env t s r msg dp) u =
     (if u = t then Some (set_condition_result (condition_of env dp t) (new_condition dp (re_now env) t (s, r, msg)))
      else condition_of env dp u)"
  using meta_lawsD [OF assms] by (auto simp: setCondition_def new_condition_def Let_def)

lemma condition_types [simp]:
  "ConditionTypeDegraded \<noteq> ConditionTypePrefixAcquired" "ConditionTypePrefixAcquired \<noteq> ConditionTypeDegraded"
  by (simp_all add: ConditionTypeDegraded_def ConditionTypePrefixAcquired_def)

lemma set_result_twice:
  assumes "cond_Status c = cond_Status d"
  shows "set_condition_result (Some (set_condition_result old c)) d = (set_condition_result old d)\<lparr>
     cond_LastTransitionTime := cond_LastTransitionTime (set_condition_result old c)\<rparr>"
  using assms by (auto simp: set_condition_result_def split: option.split)

text \<open>A condition that says the same again stays what it was.\<close>

lemma set_result_settles:
  assumes "d = c\<lparr>cond_LastTransitionTime := t\<rparr>"
  shows "set_condition_result (Some (set_condition_result old c)) d = set_condition_result old c"
  using assms by (auto simp: set_condition_result_def split: option.split)

text \<open>What the Degraded condition ends up saying about the calculations.\<close>

definition degraded_verdict :: "error_texts \<Rightarrow> ipprefix \<Rightarrow> DynamicPrefix \<Rightarrow> ConditionStatus \<times> string \<times> string" where
  "degraded_verdict txt network dp =
     (case calculateAddressRanges network (spec_AddressRanges (dp_Spec dp)) of
        Inl e \<Rightarrow> (ConditionTrue, ''AddressRangeCalculationFailed'', text_ranges txt e)
      | Inr _ \<Rightarrow>
          (case calculateSubnets (dp_Name dp) network (spec_Subnets (dp_Spec dp)) of
             Inl e \<Rightarrow> (ConditionTrue, ''SubnetCalculationFailed'', text_subnets txt e)
           | Inr _ \<Rightarrow> (ConditionFalse, ''Healthy'', ''DynamicPrefix is operating normally'')))"

definition subnets_after :: "ipprefix \<Rightarrow> DynamicPrefix \<Rightarrow> SubnetStatus list" where
  "subnets_after network dp =
     (case calculateSubnets (dp_Name dp) network (spec_Subnets (dp_Spec dp)) of Inl _ \<Rightarrow> st_Subnets (dp_Status dp) | Inr ss \<Rightarrow> ss)"

definition ranges_after :: "ipprefix \<Rightarrow> DynamicPrefix \<Rightarrow> AddressRangeStatus list" where
  "ranges_after network dp =
     (case calculateAddressRanges network (spec_AddressRanges (dp_Spec dp)) of Inl _ \<Rightarrow> st_AddressRanges (dp_Status dp) | Inr rs \<Rightarrow> rs)"

lemma set_result_overwrites:
  "set_condition_result (Some (set_condition_result old (new_condition dp now t (s, r1, m1)))) (new_condition dp now t (s, r2, m2)) =
   set_condition_result old (new_condition dp now t (s, r2, m2))"
  by (auto simp: set_condition_result_def new_condition_def split: option.split)

lemma new_condition_cong: "dp_Generation dp' = dp_Generation dp \<Longrightarrow> new_condition dp' = new_condition dp"
  by (simp add: new_condition_def fun_eq_iff)

lemma new_condition_simps [simp]:
  "new_condition (setCondition m now t s r msg dp) = new_condition dp" "new_condition (dp\<lparr>dp_Status := st\<rparr>) = new_condition dp"
  by (rule new_condition_cong; simp)+

lemma computeStatus_effect:
  assumes "meta_laws (re_meta env)" and "computeStatus env network dp = Some dp'"
  shows "condition_of env dp' ConditionTypeDegraded =
      Some (set_condition_result (condition_of env dp ConditionTypeDegraded)
        (new_condition dp (re_now env) ConditionTypeDegraded (degraded_verdict (re_text env) network dp)))"
    "condition_of env dp' ConditionTypePrefixAcquired = condition_of env dp ConditionTypePrefixAcquired"
    "st_Subnets (dp_Status dp') = subnets_after network dp" "st_AddressRanges (dp_Status dp') = ranges_after network dp"
proof -
  let ?S = "calculateSubnets (dp_Name dp) network (spec_Subnets (dp_Spec dp))"
  let ?R = "calculateAddressRanges network (spec_AddressRanges (dp_Spec dp))"
  note defs = degraded_verdict_def subnets_after_def ranges_after_def set_result_overwrites condition_of_set [OF assms(1)]
  have "condition_of env dp' ConditionTypeDegraded =
      Some (set_condition_result (condition_of env dp ConditionTypeDegraded)
        (new_condition dp (re_now env) ConditionTypeDegraded (degraded_verdict (re_text env) network dp))) \<and>
    condition_of env dp' ConditionTypePrefixAcquired = condition_of env dp ConditionTypePrefixAcquired \<and>
    st_Subnets (dp_Status dp') = subnets_after network dp \<and> st_AddressRanges (dp_Status dp') = ranges_after network dp"
  proof (cases ?S)
    case S: (Inl es)
    show ?thesis
    proof (cases ?R)
      case (Inl er)
      then have "dp' = set_cond env ConditionTypeDegraded ConditionTrue ''AddressRangeCalculationFailed'' (text_ranges (re_text env) er)
          (set_cond env ConditionTypeDegraded ConditionTrue ''SubnetCalculationFailed'' (text_subnets (re_text env) es) dp)"
        using assms(2) S by (simp add: computeStatus_def Let_def split: if_splits)
      then show ?thesis
        using S Inl by (simp add: defs)
    next
      case (Inr rs)
      have "spec_Subnets (dp_Spec dp) \<noteq> []"
        using S by (auto simp: calculateSubnets_def)
      then have "dp' = set_status (st_AddressRanges_update (\<lambda>_. rs))
          (set_cond env ConditionTypeDegraded ConditionTrue ''SubnetCalculationFailed'' (text_subnets (re_text env) es) dp)"
        using assms(2) S Inr by (simp add: computeStatus_def Let_def split: if_splits)
      then show ?thesis
        using S Inr by (simp add: defs)
    qed
  next
    case S: (Inr ss)
    show ?thesis
    proof (cases ?R)
      case (Inl er)
      then have "dp' = set_cond env ConditionTypeDegraded ConditionTrue ''AddressRangeCalculationFailed'' (text_ranges (re_text env) er)
          (set_status (st_Subnets_update (\<lambda>_. ss)) dp)"
        using assms(2) S by (simp add: computeStatus_def Let_def)
      then show ?thesis
        using S Inl by (simp add: defs)
    next
      case (Inr rs)
      then have "dp' = set_cond env ConditionTypeDegraded ConditionFalse ''Healthy'' ''DynamicPrefix is operating normally''
          (set_status (st_AddressRanges_update (\<lambda>_. rs)) (set_status (st_Subnets_update (\<lambda>_. ss)) dp))"
        using assms(2) S by (simp add: computeStatus_def Let_def)
      then show ?thesis
        using S Inr by (simp add: defs)
    qed
  qed
  then show "condition_of env dp' ConditionTypeDegraded =
      Some (set_condition_result (condition_of env dp ConditionTypeDegraded)
        (new_condition dp (re_now env) ConditionTypeDegraded (degraded_verdict (re_text env) network dp)))"
    "condition_of env dp' ConditionTypePrefixAcquired = condition_of env dp ConditionTypePrefixAcquired"
    "st_Subnets (dp_Status dp') = subnets_after network dp" "st_AddressRanges (dp_Status dp') = ranges_after network dp"
    by blast+
qed

lemma publishPrefix_effect:
  assumes laws: "meta_laws (re_meta env)" and pub: "publishPrefix env p src err dp = Some (evs, dp')"
  shows "condition_of env dp' ConditionTypePrefixAcquired =
      Some (set_condition_result (condition_of env dp ConditionTypePrefixAcquired)
        (new_condition dp (re_now env) ConditionTypePrefixAcquired
          (ConditionTrue, ''PrefixAcquired'', acquired_message (PrefixString (Network p)) (source_text src))))"
    "condition_of env dp' ConditionTypeDegraded =
      (let c = set_condition_result (condition_of env dp ConditionTypeDegraded)
         (new_condition dp (re_now env) ConditionTypeDegraded (degraded_verdict (re_text env) (Network p) dp))
       in Some (case err of None \<Rightarrow> c
          | Some e \<Rightarrow> set_condition_result (Some c) (new_condition dp (re_now env) ConditionTypeDegraded
              (ConditionTrue, reasonRenewalFailing, renewal_message (text_recv (re_text env) e)))))"
    "st_Subnets (dp_Status dp') = subnets_after (Network p) dp"
    "st_AddressRanges (dp_Status dp') = ranges_after (Network p) dp"
    "st_PrefixSource (dp_Status dp') = sourceToPrefixSource src"
    "st_LeaseExpiresAt (dp_Status dp') = (if ValidLifetime p > 0 then Some (ReceivedAt p + ValidLifetime p) else None)"
proof -
  let ?a = "snd (announceChange env p src dp)" and ?msg = "acquired_message (PrefixString (Network p)) (source_text src)"
  let ?dp2 = "set_status (with_prefix p src) ?a"
  obtain dp3 where c: "computeStatus env (Network p) ?dp2 = Some dp3"
    and dp': "dp' = set_cond env ConditionTypePrefixAcquired ConditionTrue ''PrefixAcquired'' ?msg
       (case err of None \<Rightarrow> dp3
        | Some e \<Rightarrow> set_cond env ConditionTypeDegraded ConditionTrue reasonRenewalFailing
            (renewal_message (text_recv (re_text env) e)) dp3)"
    using publishPrefix_cases [OF pub] by metis
  note a = announceChange_fields [of env p src dp]
  note f = computeStatus_fields [OF c] and e = computeStatus_effect [OF laws c]
  have verdict: "degraded_verdict x (Network p) ?dp2 = degraded_verdict x (Network p) dp" for x
    by (simp add: degraded_verdict_def a split: sum.split)
  have same: "condition_of env ?dp2 t = condition_of env dp t" "new_condition ?dp2 = new_condition dp"
    "new_condition dp3 = new_condition dp" for t
    using a f(3) new_condition_cong [of ?a dp] new_condition_cong [of dp3 dp] by (simp_all add: with_prefix_def)
  show "condition_of env dp' ConditionTypePrefixAcquired =
      Some (set_condition_result (condition_of env dp ConditionTypePrefixAcquired)
        (new_condition dp (re_now env) ConditionTypePrefixAcquired (ConditionTrue, ''PrefixAcquired'', ?msg)))"
    using e(2) same by (cases err) (simp_all add: dp' condition_of_set [OF laws])
  show "condition_of env dp' ConditionTypeDegraded =
      (let c = set_condition_result (condition_of env dp ConditionTypeDegraded)
         (new_condition dp (re_now env) ConditionTypeDegraded (degraded_verdict (re_text env) (Network p) dp))
       in Some (case err of None \<Rightarrow> c
          | Some e \<Rightarrow> set_condition_result (Some c) (new_condition dp (re_now env) ConditionTypeDegraded
              (ConditionTrue, reasonRenewalFailing, renewal_message (text_recv (re_text env) e)))))"
    using e(1) same verdict by (cases err) (simp_all add: dp' condition_of_set [OF laws])
  have rest: "st_CurrentPrefix (dp_Status dp') = st_CurrentPrefix (dp_Status dp3)"
    "st_PrefixSource (dp_Status dp') = st_PrefixSource (dp_Status dp3)"
    "st_LeaseExpiresAt (dp_Status dp') = st_LeaseExpiresAt (dp_Status dp3)"
    "st_Subnets (dp_Status dp') = st_Subnets (dp_Status dp3)"
    "st_AddressRanges (dp_Status dp') = st_AddressRanges (dp_Status dp3)"
    by (simp_all add: dp' split: option.split)
  have "subnets_after (Network p) ?dp2 = subnets_after (Network p) dp" "ranges_after (Network p) ?dp2 = ranges_after (Network p) dp"
    using a by (simp_all add: subnets_after_def ranges_after_def with_prefix_def split: sum.split)
  then show "st_Subnets (dp_Status dp') = subnets_after (Network p) dp"
    "st_AddressRanges (dp_Status dp') = ranges_after (Network p) dp"
    using rest(4,5) e(3,4) by simp_all
  show "st_PrefixSource (dp_Status dp') = sourceToPrefixSource src"
    "st_LeaseExpiresAt (dp_Status dp') = (if ValidLifetime p > 0 then Some (ReceivedAt p + ValidLifetime p) else None)"
    using rest(2,3) f(6,7) by (simp_all add: with_prefix_def)
qed

subsection \<open>Passes that repeat\<close>

text \<open>The next pass over what a pass published, with nothing changed but the clock.\<close>

lemma publish_again:
  assumes "meta_laws (re_meta env)" and pub: "publishPrefix env p src err dp = Some (evs, dp1)"
    and env2: "env2 = env\<lparr>re_now := now2\<rparr>"
  obtains dp2 where "publishPrefix env2 p src err dp1 = Some ([], dp2)"
proof -
  note f = publishPrefix_fields [OF pub] and e = publishPrefix_effect [OF assms(1) pub]
  have same: "announceChange env2 p src dp1 = ([], dp1)"
    using f(4) by (simp add: announceChange_def Let_def)
  have "calculateSubnets (dp_Name dp1) (Network p) (spec_Subnets (dp_Spec dp1)) =
      calculateSubnets (dp_Name dp) (Network p) (spec_Subnets (dp_Spec dp))"
    using f(1,2) by simp
  moreover have "\<not> (case calculateSubnets (dp_Name dp) (Network p) (spec_Subnets (dp_Spec dp)) of Inl e \<Rightarrow> subnets_panic e | Inr _ \<Rightarrow> False)"
  proof -
    obtain dp3 where "computeStatus env (Network p) (set_status (with_prefix p src) (snd (announceChange env p src dp))) = Some dp3"
      using publishPrefix_cases [OF pub] by metis
    then show ?thesis
      using announceChange_fields [of env p src dp] by (simp add: computeStatus_def Let_def split: if_splits)
  qed
  ultimately have "computeStatus env2 (Network p) (set_status (with_prefix p src) dp1) \<noteq> None"
    by (simp add: computeStatus_def Let_def)
  then show ?thesis
    using that same by (auto simp: publishPrefix_def Let_def with_prefix_def)
qed

lemma owned_eq_iff:
  "ownedDynamicPrefixStatus m st = ownedDynamicPrefixStatus m st' \<longleftrightarrow>
     same_facts (ownedDynamicPrefixStatus m st) (ownedDynamicPrefixStatus m st') \<and>
     ac_Conditions (ownedDynamicPrefixStatus m st) = ac_Conditions (ownedDynamicPrefixStatus m st')"
  by (auto simp: same_facts_def)

lemma ac_Conditions_pair:
  "FindStatusCondition m (st_Conditions st) ConditionTypePrefixAcquired = Some c \<Longrightarrow>
   FindStatusCondition m (st_Conditions st) ConditionTypeDegraded = Some d \<Longrightarrow>
   ac_Conditions (ownedDynamicPrefixStatus m st) = [c, d]"
  by (simp add: ownedDynamicPrefixStatus_def)

lemma same_facts_again:
  assumes laws: "meta_laws (re_meta env)" and pub: "publishPrefix env p src err dp = Some (evs, dp1)"
    and env2: "env2 = env\<lparr>re_now := now2\<rparr>" and pub2: "publishPrefix env2 p src err dp1 = Some ([], dp2)"
  shows "same_facts (ownedDynamicPrefixStatus m (dp_Status dp2)) (ownedDynamicPrefixStatus m (dp_Status dp1))"
proof -
  note f = publishPrefix_fields [OF pub] and e = publishPrefix_effect [OF laws pub]
  have laws2: "meta_laws (re_meta env2)"
    using laws env2 by simp
  note f2 = publishPrefix_fields [OF pub2] and e2 = publishPrefix_effect [OF laws2 pub2]
  have same: "announceChange env2 p src dp1 = ([], dp1)"
    using f(4) by (simp add: announceChange_def Let_def)
  have "st_Subnets (dp_Status dp2) = st_Subnets (dp_Status dp1)" "st_AddressRanges (dp_Status dp2) = st_AddressRanges (dp_Status dp1)"
    using e(3,4) e2(3,4) f(1,2) by (simp_all add: subnets_after_def ranges_after_def split: sum.splits)
  then show ?thesis
    using f(4) f2(4,5) same e(5,6) e2(5,6) by (simp add: same_facts_def ownedDynamicPrefixStatus_def)
qed

lemma reconcileReceiver_publishes:
  assumes "pv_CurrentPrefix ops ref (rc_world rc) = Some p" "Policy_Validate (prefixPolicyFor dp) (Network p) = None"
    "publishPrefix env p (pv_Source ops ref (rc_world rc)) (pv_LastError ops ref (rc_world rc)) dp = Some (evs, dp')"
  shows "reconcileReceiver ops env dp ref rc =
     Some (finish env (calculateRequeueTime (re_now env) p) dp' (dp_Status dp), emit_all (dp_Name dp) evs rc)"
  using assms by (simp add: reconcileReceiver_def Let_def)

lemma prefixPolicyFor_cong: "dp_Spec dp' = dp_Spec dp \<Longrightarrow> prefixPolicyFor dp' = prefixPolicyFor dp"
  by (simp add: prefixPolicyFor_def PrefixLengthBounds_def dp_RequireGlobalUnicast_def)


text \<open>
  C35: While renewals fail the status does not settle: with everything else calculated, each pass sets
  Degraded to False and then to True again, so the condition's transition time moves to the time of
  the pass and the status is applied anew, although nothing but the clock has changed.
\<close>

theorem failing_renewal_rewrites_status:
  assumes "meta_laws (re_meta env)" and "equality_laws (re_eq env)"
    and "pv_LastError ops ref (rc_world rc) = Some e" and "pv_CurrentPrefix ops ref (rc_world rc) = Some p"
    and "Policy_Validate (prefixPolicyFor dp) (Network p) = None"
    and "publishPrefix env p (pv_Source ops ref (rc_world rc)) (Some e) dp = Some (evs, dp1)"
    and "fst (degraded_verdict (re_text env) (Network p) dp) = ConditionFalse" and "later \<noteq> re_now env"
  shows "\<exists>ac res c. reconcileReceiver ops (env\<lparr>re_now := later\<rparr>) dp1 ref rc = Some ((res, [ApplyStatus (dp_Name dp) ac]), rc) \<and>
     same_facts ac (ownedDynamicPrefixStatus (re_meta env) (dp_Status dp1)) \<and>
     c \<in> set (ac_Conditions ac) \<and> cond_Type c = ConditionTypeDegraded \<and> cond_LastTransitionTime c = later"
proof -
  let ?env2 = "env\<lparr>re_now := later\<rparr>" and ?src = "pv_Source ops ref (rc_world rc)"
  have laws2: "meta_laws (re_meta ?env2)"
    using assms(1) by simp
  obtain dp2 where pub2: "publishPrefix ?env2 p ?src (Some e) dp1 = Some ([], dp2)"
    using publish_again [OF assms(1,6) refl] by blast
  note ef = publishPrefix_effect [OF assms(1,6)] and e2 = publishPrefix_effect [OF laws2 pub2]
  note f = publishPrefix_fields [OF assms(6)] and f2 = publishPrefix_fields [OF pub2]
  have verdict: "fst (degraded_verdict (re_text env) (Network p) dp1) = ConditionFalse"
    using f(1,2) assms(7) by (simp add: degraded_verdict_def split: sum.splits)
  have flip: "set_condition_result (Some (set_condition_result old (new_condition d now t v))) (new_condition d now t (ConditionTrue, r, msg)) =
      new_condition d now t (ConditionTrue, r, msg)" if "fst v = ConditionFalse" for old d now t v r msg
    using that by (auto simp: set_condition_result_def new_condition_def split: option.split prod.split)
  let ?msg = "renewal_message (text_recv (re_text env) e)"
  have "condition_of env dp1 ConditionTypeDegraded =
      Some (new_condition dp (re_now env) ConditionTypeDegraded (ConditionTrue, reasonRenewalFailing, ?msg))"
    and d2: "condition_of env dp2 ConditionTypeDegraded =
      Some (new_condition dp1 later ConditionTypeDegraded (ConditionTrue, reasonRenewalFailing, ?msg))"
    using ef(2) e2(2) flip [OF assms(7)] flip [OF verdict] by (simp_all add: Let_def)
  then have "condition_of env dp1 ConditionTypeDegraded \<noteq> condition_of env dp2 ConditionTypeDegraded"
    using assms(8) by (simp add: new_condition_def)
  moreover have "\<exists>a b. condition_of env dp1 ConditionTypePrefixAcquired = Some a \<and> condition_of env dp2 ConditionTypePrefixAcquired = Some b"
    using ef(1) e2(1) by simp
  ultimately have "ownedDynamicPrefixStatus (re_meta env) (dp_Status dp1) \<noteq> ownedDynamicPrefixStatus (re_meta env) (dp_Status dp2)"
    by (auto simp: ownedDynamicPrefixStatus_def split: option.splits)
  then have "snd (finish ?env2 d dp2 (dp_Status dp1)) = [ApplyStatus (dp_Name dp) (ownedDynamicPrefixStatus (re_meta env) (dp_Status dp2))]" for d
    using equality_lawsD(4) [OF assms(2)] f(1) f2(1) by (simp add: updateStatusIfChanged_def Let_def)
  then have "\<exists>res. finish ?env2 d dp2 (dp_Status dp1) = (res, [ApplyStatus (dp_Name dp) (ownedDynamicPrefixStatus (re_meta env) (dp_Status dp2))])" for d
    by (metis prod.collapse)
  moreover have "Policy_Validate (prefixPolicyFor dp1) (Network p) = None"
    using assms(5) prefixPolicyFor_cong [OF f(2)] by simp
  ultimately have "\<exists>res. reconcileReceiver ops ?env2 dp1 ref rc =
      Some ((res, [ApplyStatus (dp_Name dp) (ownedDynamicPrefixStatus (re_meta env) (dp_Status dp2))]), rc)"
    using reconcileReceiver_publishes [OF assms(4), of dp1 ?env2 "[]" dp2] pub2 assms(3) by (simp add: emit_all_def)
  moreover have "new_condition dp1 later ConditionTypeDegraded (ConditionTrue, reasonRenewalFailing, ?msg) \<in>
      set (ac_Conditions (ownedDynamicPrefixStatus (re_meta env) (dp_Status dp2)))"
    using d2 by (simp add: ownedDynamicPrefixStatus_def)
  ultimately show ?thesis
    using same_facts_again [OF assms(1,6) refl pub2]
    by (metis (no_types, lifting) Condition.select_convs(1,4) case_prod_conv new_condition_def)
qed

subsection \<open>A pass and the receivers\<close>

lemma emit_all_fields [simp]:
  "rc_receivers (emit_all name evs rc) = rc_receivers rc" "rc_world (emit_all name evs rc) = rc_world rc"
  by (induction evs arbitrary: rc) (simp_all add: emit_all_def emitEvent_def)

lemma emit_all_steps: "(manager_step ops bg q)\<^sup>*\<^sup>* rc (emit_all name evs rc)"
proof (induction evs arbitrary: rc)
  case Nil
  then show ?case by (simp add: emit_all_def)
next
  case (Cons ev evs)
  have "(manager_step ops bg q)\<^sup>*\<^sup>* (emitEvent name ev rc) (emit_all name (ev # evs) rc)"
    using Cons.IH by (simp add: emit_all_def)
  then show ?case
    by (rule converse_rtranclp_into_rtranclp [of "manager_step ops bg q", OF manager_emit])
qed

lemma emit_one: "emitEvent name ev rc = emit_all name [ev] rc"
  by (simp add: emit_all_def)

lemma reconcileReceiver_emits:
  assumes "reconcileReceiver ops env dp ref rc = Some (out, rc')"
  shows "\<exists>evs. rc' = emit_all (dp_Name dp) evs rc"
proof -
  have "rc = emit_all (dp_Name dp) [] rc"
    by (simp add: emit_all_def)
  then show ?thesis
    using assms emit_one [of "dp_Name dp" _ rc]
    by (auto simp: reconcileReceiver_def Let_def split: option.splits)
qed

lemma report_fields [simp]:
  "rc_receivers (reportRARejections ops now dp ref rc) = rc_receivers rc"
  by (simp add: reportRARejections_def emitEvent_def Let_def split: option.split prod.split)

lemma reconcileExisting_cases:
  assumes "reconcileExisting ops env e dp rc = Some (out, rc')"
  obtains (unchanged) "rc' = rc"
    | (deleted) "dp_Deleting dp" "cleanupReceiver ops e (dp_Name dp) rc = Some rc'"
    | (failed) err rc1 ev where "getOrCreateReceiver ops (re_eq env) e dp rc = Some (Err err, rc1)"
        "rc' = emitEvent (dp_Name dp) ev rc1"
    | (got) ref rc1 evs where "getOrCreateReceiver ops (re_eq env) e dp rc = Some (Ok ref, rc1)"
        "rc' = emit_all (dp_Name dp) evs (reportRARejections ops (re_now env) dp ref rc1)"
proof (cases "dp_Deleting dp \<or> \<not> ContainsFinalizer (re_fin env) (dp_Finalizers dp) finalizerName")
  case True
  then show ?thesis
    using assms unchanged deleted
    by (cases "dp_Deleting dp"; cases "ContainsFinalizer (re_fin env) (dp_Finalizers dp) finalizerName")
      (auto simp: reconcileExisting_def Let_def)
next
  case False
  obtain res rc1 where g: "getOrCreateReceiver ops (re_eq env) e dp rc = Some (res, rc1)"
    using assms False by (cases "getOrCreateReceiver ops (re_eq env) e dp rc") (auto simp: reconcileExisting_def)
  show ?thesis
  proof (cases res)
    case (Inl err)
    then show ?thesis
      using assms False g failed [of err rc1] by (auto simp: reconcileExisting_def Let_def)
  next
    case (Inr ref)
    then have "reconcileReceiver ops env dp ref (reportRARejections ops (re_now env) dp ref rc1) = Some (out, rc')"
      using assms False g by (simp add: reconcileExisting_def)
    then obtain evs where "rc' = emit_all (dp_Name dp) evs (reportRARejections ops (re_now env) dp ref rc1)"
      using reconcileReceiver_emits [OF \<open>reconcileReceiver ops env dp ref _ = _\<close>] by blast
    then show ?thesis
      using got [of ref rc1] g Inr by simp
  qed
qed

lemma Reconcile_steps:
  assumes "Reconcile ops env e name got rc = Some (out, rc')"
  shows "(manager_step ops bg (re_eq env))\<^sup>*\<^sup>* rc rc'"
proof -
  let ?s = "manager_step ops bg (re_eq env)"
  have clean: "?s\<^sup>*\<^sup>* rc rc''" if "cleanupReceiver ops e n rc = Some rc''" for n rc''
    using manager_cleanup [OF that] by blast
  show ?thesis
  proof (cases got)
    case (Found dp)
    then have "reconcileExisting ops env e dp rc = Some (out, rc')"
      using assms by (simp add: Reconcile_def)
    then show ?thesis
    proof (cases rule: reconcileExisting_cases)
      case (failed err rc1 ev)
      then have "?s rc rc1" "?s rc1 rc'"
        using manager_get [OF failed(1)] manager_emit by simp_all
      then show ?thesis
        by (meson converse_rtranclp_into_rtranclp rtranclp.rtrancl_refl)
    next
      case (got ref rc1 evs)
      then have "?s rc rc1" "?s rc1 (reportRARejections ops (re_now env) dp ref rc1)"
        "?s\<^sup>*\<^sup>* (reportRARejections ops (re_now env) dp ref rc1) rc'"
        using manager_get [OF got(1)] manager_report emit_all_steps by simp_all
      then show ?thesis
        by (meson converse_rtranclp_into_rtranclp)
    qed (use clean in auto)
  qed (use assms clean in \<open>auto simp: Reconcile_def\<close>)
qed

text \<open>Subnet arithmetic on a prefix the policy accepts cannot panic.\<close>

lemma traverse_Err: "traverse f xs = Err e \<Longrightarrow> \<exists>x \<in> set xs. f x = Err e"
  by (induction xs) (auto split: sum.splits)

lemma accepted_subnets_no_panic:
  assumes "Policy_Validate pol network = None" and "wf_prefix network"
  shows "\<not> (case calculateSubnets name network specs of Inl e \<Rightarrow> subnets_panic e | Inr _ \<Rightarrow> False)"
proof -
  have v: "IsValid network" "Is6 (pfx_ip network)"
    using assms(1) ValidateDelegated_NoneD by (auto simp: Validate_None_iff)
  obtain w n where network: "network = PrefixFrom (Addr6 w []) (int n)" "n \<le> 128"
    using wf_prefix_v6_cases [OF assms(2) v] by blast
  have "CalculateSubnet network cfg \<noteq> Err FillBytesPanic" for cfg
    using network by (simp add: CalculateSubnet_v6 Let_def)
  then have "\<not> subnets_panic e" if "CalculateSubnets network cfgs = Err e" for e cfgs
    using that v(2) by (auto simp: CalculateSubnets_def subnets_panic_def dest!: traverse_Err
        split: sum.splits subnets_error.splits subnet_error.splits)
  then show ?thesis
    by (auto simp: calculateSubnets_def Let_def split: sum.split)
qed

lemma reconcileReceiver_returns:
  assumes "\<And>p. pv_CurrentPrefix ops ref (rc_world rc) = Some p \<Longrightarrow> wf_prefix (Network p)"
  shows "reconcileReceiver ops env dp ref rc \<noteq> None"
proof (cases "pv_CurrentPrefix ops ref (rc_world rc)")
  case (Some p)
  show ?thesis
  proof (cases "Policy_Validate (prefixPolicyFor dp) (Network p)")
    case None
    have "computeStatus env (Network p) d \<noteq> None" for d
      using accepted_subnets_no_panic [OF None assms [OF Some]] by (simp add: computeStatus_def Let_def)
    then have "publishPrefix env p src err dp \<noteq> None" for src err
      by (simp add: publishPrefix_def Let_def del: not_None_eq split: prod.split)
    then show ?thesis
      using Some None by (simp add: reconcileReceiver_def Let_def del: not_None_eq)
  qed (use Some in \<open>simp add: reconcileReceiver_def Let_def\<close>)
qed (simp add: reconcileReceiver_def Let_def split: option.split)

text \<open>
  C13: Every pass ends: from any state the controller can reach, whatever \<^verbatim>\<open>Get\<close> returned and whatever
  writes are refused, \<^verbatim>\<open>Reconcile\<close> returns a result; stopping a receiver never closes a channel twice, and
  the subnet arithmetic never overflows its buffer on a prefix that passed the policy.  The state it
  leaves is again one the controller can reach.
\<close>

theorem reconcile_always_returns:
  assumes "(manager_step factory_ops background (re_eq env))\<^sup>*\<^sup>*
      (setup_channel (NewDynamicPrefixReconciler (NewReceiverFactory o1 o2) hasFactory)) rc"
    and "\<And>dp ref rc1 p. got = Found dp \<Longrightarrow> getOrCreateReceiver factory_ops (re_eq env) e dp rc = Some (Ok ref, rc1) \<Longrightarrow>
           receiver_CurrentPrefix ref (rc_world rc1) = Some p \<Longrightarrow> wf_prefix (Network p)"
  shows "\<exists>res ws rc'. Reconcile factory_ops env e name got rc = Some ((res, ws), rc') \<and>
     (manager_step factory_ops background (re_eq env))\<^sup>*\<^sup>*
       (setup_channel (NewDynamicPrefixReconciler (NewReceiverFactory o1 o2) hasFactory)) rc'"
proof -
  have ok: "manager_ok factory_ok known rc"
    using managed.manager_reachable_ok [OF assms(1) factory_initial_parts] .
  have "Reconcile factory_ops env e name got rc \<noteq> None"
  proof (cases got)
    case (Found dp)
    obtain g where g: "getOrCreateReceiver factory_ops (re_eq env) e dp rc = Some g"
      using managed.getOrCreateReceiver_returns [OF ok] by blast
    have rec: "reconcileReceiver factory_ops env dp ref (reportRARejections factory_ops (re_now env) dp ref rc1) \<noteq> None"
      if "g = (Ok ref, rc1)" for ref rc1
      using assms(2) [OF Found g [unfolded that]] by (intro reconcileReceiver_returns) (simp add: factory_ops_def)
    have "reconcileExisting factory_ops env e dp rc \<noteq> None"
      using managed.cleanupReceiver_returns [OF ok, of e "dp_Name dp"] g rec
      by (auto simp: reconcileExisting_def Let_def split: sum.split prod.split)
    then show ?thesis
      by (simp add: Reconcile_def Found)
  qed (use managed.cleanupReceiver_returns [OF ok] in \<open>auto simp: Reconcile_def\<close>)
  then obtain res ws rc' where "Reconcile factory_ops env e name got rc = Some ((res, ws), rc')"
    by auto
  with Reconcile_steps [OF this, where bg = background] show ?thesis
    using assms(1) by (metis rtranclp_trans)
qed

lemma buildReceiver_other: "n \<noteq> dp_Name dp \<Longrightarrow> rc_receivers (snd (buildReceiver ops e dp rc)) n = rc_receivers rc n"
  by (auto simp: buildReceiver_def Let_def split: sum.split prod.split option.split)

lemma cleanup_receivers:
  "cleanupReceiver ops e name rc = Some rc' \<Longrightarrow> n \<noteq> name \<Longrightarrow> rc_receivers rc' n = rc_receivers rc n"
  by (auto simp: cleanupReceiver_def stopReceiverLocked_def split: option.splits)

lemma getOrCreate_receivers:
  assumes "getOrCreateReceiver ops q e dp rc = Some (res, rc')" and "rc_receivers rc n = Some ref"
    and "rc_receivers rc' n \<noteq> Some ref"
  shows "n = dp_Name dp \<and> (\<exists>spec. rc_receiverSpecs rc n = Some spec \<and> \<not> eq_Acquisition q spec (spec_Acquisition (dp_Spec dp)))"
proof (cases "n = dp_Name dp")
  case True
  then show ?thesis
    using assms by (auto simp: getOrCreateReceiver_def split: option.splits if_splits)
next
  case False
  have other: "rc_receivers rc1 n = rc_receivers rc0 n" if "buildReceiver ops e dp rc0 = (x, rc1)" for rc0 rc1 x
    using buildReceiver_other [OF False, of ops e rc0] that by simp
  have "rc_receivers rc' n = rc_receivers rc n"
    using assms(1) False
    by (auto simp: getOrCreateReceiver_def emitEvent_def stopReceiverLocked_def dest!: other split: option.splits if_splits)
  then show ?thesis
    using assms(2,3) by simp
qed

text \<open>
  A running receiver is given up only for a reason: a pass that drops or replaces it is a pass for
  that very resource, which is gone, is being deleted, or asks for other acquisition settings than
  the receiver was built from.  A failed read of the API, a refused write or a failing lease never
  stops it.
\<close>

theorem receiver_given_up_only_for_a_reason:
  assumes "Reconcile ops env e name got rc = Some (out, rc')" and "\<And>dp. got = Found dp \<Longrightarrow> dp_Name dp = name"
    and "rc_receivers rc n = Some ref" and "rc_receivers rc' n \<noteq> Some ref"
  shows "n = name \<and>
     (got = NotFound \<or>
      (\<exists>dp. got = Found dp \<and>
         (dp_Deleting dp \<or>
          (\<exists>spec. rc_receiverSpecs rc n = Some spec \<and> \<not> eq_Acquisition (re_eq env) spec (spec_Acquisition (dp_Spec dp))))))"
proof (cases got)
  case NotFound
  then show ?thesis
    using assms cleanup_receivers by (fastforce simp: Reconcile_def)
next
  case (GetFailed err)
  then show ?thesis
    using assms by (simp add: Reconcile_def)
next
  case (Found dp)
  then have name: "dp_Name dp = name"
    by (rule assms(2))
  have "reconcileExisting ops env e dp rc = Some (out, rc')"
    using assms(1) Found by (simp add: Reconcile_def)
  then show ?thesis
  proof (cases rule: reconcileExisting_cases)
    case unchanged
    then show ?thesis
      using assms(3,4) by simp
  next
    case deleted
    then show ?thesis
      using cleanup_receivers [OF deleted(2)] assms(3,4) Found name by metis
  next
    case (failed err rc1 ev)
    then have "rc_receivers rc' = rc_receivers rc1"
      by (simp add: emitEvent_def)
    then show ?thesis
      using getOrCreate_receivers [OF failed(1) assms(3)] assms(4) Found name by auto
  next
    case (got ref' rc1 evs)
    then have "rc_receivers rc' = rc_receivers rc1"
      by simp
    then show ?thesis
      using getOrCreate_receivers [OF got(1) assms(3)] assms(4) Found name by auto
  qed
qed

subsection \<open>Passes on a concrete resource\<close>

text \<open>The first pass builds the DHCPv6-PD client of \<open>watched_dp\<close>, which has no prefix yet.\<close>

lemma first_pass:
  obtains ac where "Reconcile factory_ops sample_pass (sample_env, None) ''home'' (Found watched_dp) idle_manager =
    Some ((RequeueAfter (10 * second), [ApplyStatus ''home'' ac]), watching_manager)"
proof -
  let ?e = "(sample_env, None) :: receiver_env"
  have build: "buildReceiver factory_ops ?e watched_dp idle_manager = (Ok (RefPD 0), watching_manager)"
    by (simp add: watching_manager_def buildReceiver_def idle_manager_def setup_channel_def NewDynamicPrefixReconciler_def
        watched_dp_def sample_dp_def factory_ops_def sample_acquisition_def CreateReceiver_def createDHCPv6PDReceiver_def
        NewReceiverFactory_def claimPDInterface_def RAEnabled_def receiver_Start_def PD_Start_def
        NewDHCPv6PDReceiverWithPolicy_def Let_def)
  have "rc_world watching_manager = sample_factory"
    by (simp add: watching_manager_def buildReceiver_def idle_manager_def setup_channel_def NewDynamicPrefixReconciler_def
        watched_dp_def sample_dp_def factory_ops_def sample_acquisition_def CreateReceiver_def createDHCPv6PDReceiver_def
        NewReceiverFactory_def claimPDInterface_def RAEnabled_def receiver_Start_def PD_Start_def sample_factory_def
        NewDHCPv6PDReceiverWithPolicy_def Let_def)
  then have idle: "pv_CurrentPrefix factory_ops (RefPD 0) (rc_world watching_manager) = None"
    "pv_LastError factory_ops (RefPD 0) (rc_world watching_manager) = None"
    by (simp_all add: factory_ops_def receiver_CurrentPrefix_def receiver_LastError_def sample_factory_def sample_acquisition_def
        CreateReceiver_def createDHCPv6PDReceiver_def NewReceiverFactory_def claimPDInterface_def RAEnabled_def
        receiver_Start_def PD_Start_def NewDHCPv6PDReceiverWithPolicy_def put_pd_def PD_CurrentPrefix_def PD_LastError_def
        LastError_def Let_def)
  have report: "reportRARejections factory_ops now watched_dp (RefPD 0) rc = rc" for now rc
    by (simp add: reportRARejections_def factory_ops_def receiver_RARejections_def)
  have "snd (finish sample_pass d (set_cond sample_pass t ConditionFalse r msg watched_dp) (dp_Status watched_dp)) =
      [ApplyStatus ''home'' (ownedDynamicPrefixStatus sample_meta (dp_Status (set_cond sample_pass t ConditionFalse r msg watched_dp)))]"
    "fst (finish sample_pass d (set_cond sample_pass t ConditionFalse r msg watched_dp) (dp_Status watched_dp)) = RequeueAfter d"
    if "t = ConditionTypePrefixAcquired" for d t r msg
    using that
    by (simp_all add: finish_def updateStatusIfChanged_def sample_pass_def sample_equality_def ownedDynamicPrefixStatus_def setCondition_def
        sample_meta_def watched_dp_def sample_dp_def sample_status_def set_condition_result_def Let_def)
  moreover have "reconcileExisting factory_ops sample_pass ?e watched_dp idle_manager =
      Some (finish sample_pass (10 * second) (set_cond sample_pass ConditionTypePrefixAcquired ConditionFalse reasonWaitingForPrefix
        ''Waiting to receive prefix from upstream'' watched_dp) (dp_Status watched_dp), watching_manager)"
    using build idle report
    by (simp add: reconcileExisting_def getOrCreateReceiver_def idle_manager_empty reconcileReceiver_def Let_def)
      (simp add: watched_dp_def sample_dp_def sample_pass_def sample_finalizers_def finalizerName_def)
  ultimately show ?thesis
    using that by (simp add: Reconcile_def prod_eq_iff)
qed


theorem reconcile_always_returns_witness:
  "\<exists>res ws rc'. Reconcile factory_ops sample_pass (sample_env, None) ''home'' NotFound watching_manager = Some ((res, ws), rc')"
proof -
  have "(manager_step factory_ops background (re_eq sample_pass))\<^sup>*\<^sup>*
      (setup_channel (NewDynamicPrefixReconciler (NewReceiverFactory False False) True)) watching_manager"
    using watching_manager_reachable [of "re_eq sample_pass"] by (simp add: idle_manager_def)
  from reconcile_always_returns [OF this, of NotFound "(sample_env, None)" "''home''"] show ?thesis
    by blast
qed

theorem receiver_given_up_only_for_a_reason_witness:
  "rc_receivers (snd (the (Reconcile factory_ops sample_pass (sample_env, None) ''home'' (GetFailed ''timeout'') watching_manager)))
     ''home'' = Some (RefPD 0)"
proof (rule ccontr)
  assume "\<not> ?thesis"
  moreover have "Reconcile factory_ops sample_pass (sample_env, None) ''home'' (GetFailed ''timeout'') watching_manager =
      Some ((ReconcileError ''timeout'', []), watching_manager)"
    by (simp add: Reconcile_def)
  ultimately show False
    using receiver_given_up_only_for_a_reason [of factory_ops sample_pass "(sample_env, None)" "''home''" "GetFailed ''timeout''"
        watching_manager "(ReconcileError ''timeout'', [])" watching_manager "''home''" "RefPD 0"]
      watching_manager_receiver by simp
qed

text \<open>The same client once it holds a lease, with what its last exchange left as its health.\<close>

definition leased_manager :: "recv_error option \<Rightarrow> (DefaultReceiverFactory, receiver_ref) DynamicPrefixReconciler" where
  "leased_manager err =
     watching_manager\<lparr>rc_world := (rc_world watching_manager)\<lparr>fa_pd := [0 \<mapsto>
       (NewDHCPv6PDReceiver ''wan'' 56)\<lparr>pd_currentPrefix := Some pd_sample_prefix, pd_health := err\<rparr>]\<rparr>\<rparr>"

lemma leased_manager_reads:
  "pv_CurrentPrefix factory_ops (RefPD 0) (rc_world (leased_manager err)) = Some pd_sample_prefix"
  "pv_LastError factory_ops (RefPD 0) (rc_world (leased_manager err)) = err"
  by (simp_all add: leased_manager_def factory_ops_def receiver_CurrentPrefix_def receiver_LastError_def PD_CurrentPrefix_def
      PD_LastError_def LastError_def)

lemma watched_dp_accepts: "Policy_Validate (prefixPolicyFor watched_dp) (Network pd_sample_prefix) = None"
  using pd_sample_policy
  by (simp add: prefixPolicyFor_def PrefixLengthBounds_def dp_RequireGlobalUnicast_def watched_dp_def sample_acquisition_def
      DefaultPolicy_def pd_sample_prefix_def)

lemma watched_dp_publishes: "\<exists>evs dp1. publishPrefix sample_pass pd_sample_prefix src err watched_dp = Some (evs, dp1)"
proof -
  have "\<exists>z. computeStatus sample_pass network d = Some z" if "spec_Subnets (dp_Spec d) = []" for network d
    using that by (simp add: computeStatus_def calculateSubnets_def Let_def)
  moreover have "spec_Subnets (dp_Spec (snd (announceChange sample_pass pd_sample_prefix src watched_dp))) = []"
    using announceChange_fields(2) [of sample_pass pd_sample_prefix src watched_dp] by (simp add: watched_dp_def sample_dp_def)
  ultimately show ?thesis
    by (simp add: publishPrefix_def Let_def split_beta)
qed


theorem failing_renewal_rewrites_status_witness:
  "\<exists>dp1 ac res. reconcileReceiver factory_ops (sample_pass\<lparr>re_now := 200\<rparr>) dp1 (RefPD 0)
       (leased_manager (Some NDPConnNotInitialized)) =
     Some ((res, [ApplyStatus ''home'' ac]), leased_manager (Some NDPConnNotInitialized))"
proof -
  obtain evs dp1 where pub: "publishPrefix sample_pass pd_sample_prefix
      (pv_Source factory_ops (RefPD 0) (rc_world (leased_manager (Some NDPConnNotInitialized))))
      (Some NDPConnNotInitialized) watched_dp = Some (evs, dp1)"
    using watched_dp_publishes by blast
  have laws: "meta_laws (re_meta sample_pass)" "equality_laws (re_eq sample_pass)"
    using sample_meta_laws sample_equality_laws by (simp_all add: sample_pass_def)
  have "fst (degraded_verdict (re_text sample_pass) (Network pd_sample_prefix) watched_dp) = ConditionFalse"
    "dp_Name watched_dp = ''home''" "(200::instant) \<noteq> re_now sample_pass"
    by (simp_all add: degraded_verdict_def calculateSubnets_def calculateAddressRanges_def watched_dp_def sample_dp_def sample_pass_def)
  with failing_renewal_rewrites_status [OF laws leased_manager_reads(2,1) watched_dp_accepts pub, of 200] show ?thesis
    by auto
qed

end
