(* ===== verification/Entry_Text.thy ===== *)
theory Entry_Text
  imports Netip_Text
begin

text \<open>
  Entries as text: \<^verbatim>\<open>strings.TrimSpace\<close> and \<^verbatim>\<open>strings.Cut\<close> on byte strings, and what a text that
  \<^verbatim>\<open>net/netip\<close> accepts can look like.  The ownership records compare entries by
  \<^verbatim>\<open>canonicalEntry\<close>, defined here too; its facts are that it is idempotent, that it keeps
  zone-free text zone-free, and that text with a character no address contains passes through.
\<close>

subsection \<open>Trimming and cutting\<close>

text \<open>The UTF-8 encodings of the characters \<^verbatim>\<open>unicode.IsSpace\<close> accepts.\<close>

definition space_codes :: "nat list list" where
  "space_codes =
     [[9], [10], [11], [12], [13], [32], [0xC2, 0x85], [0xC2, 0xA0], [0xE1, 0x9A, 0x80],
      [0xE2, 0x80, 0x80], [0xE2, 0x80, 0x81], [0xE2, 0x80, 0x82], [0xE2, 0x80, 0x83],
      [0xE2, 0x80, 0x84], [0xE2, 0x80, 0x85], [0xE2, 0x80, 0x86], [0xE2, 0x80, 0x87],
      [0xE2, 0x80, 0x88], [0xE2, 0x80, 0x89], [0xE2, 0x80, 0x8A], [0xE2, 0x80, 0xA8],
      [0xE2, 0x80, 0xA9], [0xE2, 0x80, 0xAF], [0xE2, 0x81, 0x9F], [0xE3, 0x80, 0x80]]"

text \<open>Drops words from the front for as long as one matches.\<close>

function trim_front :: "nat list list \<Rightarrow> string \<Rightarrow> string" where
  "trim_front ws s =
     (case find (\<lambda>w. w \<noteq> [] \<and> map of_char (take (length w) s) = w) ws of
        None \<Rightarrow> s
      | Some w \<Rightarrow> trim_front ws (drop (length w) s))"
  by pat_completeness auto
termination
proof (relation "measure (length \<circ> snd)", goal_cases)
  case (2 ws s w)
  then have "w \<noteq> []" "map of_char (take (length w) s) = w"
    by (auto simp: find_Some_iff)
  then have "s \<noteq> []"
    by auto
  with \<open>w \<noteq> []\<close> show ?case
    by simp
qed simp

declare trim_front.simps [simp del]

definition TrimSpace :: "string \<Rightarrow> string" where
  "TrimSpace s = rev (trim_front (map rev space_codes) (rev (trim_front space_codes s)))"

fun Cut :: "char \<Rightarrow> string \<Rightarrow> (string \<times> string) option" where
  "Cut c [] = None"
| "Cut c (x # s) =
     (if x = c then Some ([], s)
      else case Cut c s of None \<Rightarrow> None | Some (a, b) \<Rightarrow> Some (x # a, b))"

text \<open>Visible ASCII, which is all the operator ever writes.\<close>

definition visible :: "string \<Rightarrow> bool" where
  "visible s \<longleftrightarrow> (\<forall>c \<in> set s. 33 \<le> (of_char c :: nat) \<and> (of_char c :: nat) \<le> 126)"

lemma visible_simps [simp]:
  "visible []" "visible (c # s) \<longleftrightarrow> 33 \<le> (of_char c :: nat) \<and> (of_char c :: nat) \<le> 126 \<and> visible s"
  "visible (s @ t) \<longleftrightarrow> visible s \<and> visible t" "visible (rev s) \<longleftrightarrow> visible s"
  by (auto simp: visible_def)

lemma trim_front_visible:
  assumes "visible s" and "\<And>w. w \<in> set ws \<Longrightarrow> w \<noteq> [] \<Longrightarrow> \<not> (33 \<le> hd w \<and> hd w \<le> 126)"
  shows "trim_front ws s = s"
proof -
  have "map of_char (take (length w) s) \<noteq> w" if "w \<in> set ws" "w \<noteq> []" for w
  proof
    assume eq: "map of_char (take (length w) s) = w"
    with that obtain c t where s: "s = c # t"
      by (cases s) auto
    with that eq have "hd w = of_char c"
      by (metis hd_map length_0_conv list.sel(1) take_Cons' list.discI)
    with assms(1) s assms(2) [OF that] show False
      by simp
  qed
  then have "find (\<lambda>w. w \<noteq> [] \<and> map of_char (take (length w) s) = w) ws = None"
    by (auto simp: find_None_iff)
  then show ?thesis
    by (simp add: trim_front.simps [of ws s])
qed

lemma TrimSpace_visible [simp]: "visible s \<Longrightarrow> TrimSpace s = s"
proof -
  assume s: "visible s"
  have "trim_front space_codes s = s"
    by (rule trim_front_visible [OF s]) (auto simp: space_codes_def)
  moreover have "trim_front (map rev space_codes) (rev s) = rev s"
    using s by (intro trim_front_visible) (auto simp: space_codes_def)
  ultimately show ?thesis
    by (simp add: TrimSpace_def)
qed

lemma Cut_append [simp]: "c \<notin> set s \<Longrightarrow> Cut c (s @ c # t) = Some (s, t)"
  by (induction s) auto

lemma Cut_None_iff: "Cut c s = None \<longleftrightarrow> c \<notin> set s"
  by (induction s) (auto split: option.splits)

lemma Cut_SomeD: "Cut c s = Some (a, b) \<Longrightarrow> s = a @ c # b \<and> c \<notin> set a"
  by (induction s arbitrary: a) (auto split: option.splits if_splits)

subsection \<open>What parses as an address\<close>

definition addr_char :: "char \<Rightarrow> bool" where
  "addr_char c \<longleftrightarrow> c = CHR ''.'' \<or> c = CHR '':'' \<or> hex_digit c \<noteq> None"

lemma dec_is_hex: "dec_digit c \<noteq> None \<Longrightarrow> hex_digit c \<noteq> None"
  by (auto simp: dec_digit_def hex_digit_def Let_def split: if_splits)

lemma parse4_chars: "parse4 s v d os = Ok fs \<Longrightarrow> \<forall>c \<in> set s. addr_char c"
proof (induction s v d os rule: parse4.induct)
  case (2 c s v d os)
  then show ?case
    using dec_is_hex [of c] by (auto simp: addr_char_def split: option.splits if_splits)
qed simp

lemma hexscan_chars:
  "hexscan s off acc = Ok (a, n, s') \<Longrightarrow> \<exists>p. s = p @ s' \<and> (\<forall>c \<in> set p. addr_char c)"
proof (induction s off acc rule: hexscan.induct)
  case (2 c s off acc)
  show ?case
  proof (cases "hex_digit c")
    case None
    with "2.prems" show ?thesis
      by (intro exI [of _ "[]"]) simp
  next
    case (Some d)
    with 2 obtain p where "s = p @ s'" "\<forall>c \<in> set p. addr_char c"
      by (auto split: if_splits)
    with Some show ?thesis
      by (intro exI [of _ "c # p"]) (simp add: addr_char_def)
  qed
qed simp

lemma addr_char_seps [simp]: "addr_char (CHR '':'')" "addr_char (CHR ''.'')"
  by (simp_all add: addr_char_def)

lemma parse6_loop_chars:
  "parse6_loop s ip ell = Ok (r, ip', ell') \<Longrightarrow> \<exists>p. s = p @ r \<and> (\<forall>c \<in> set p. addr_char c)"
proof (induction s ip ell rule: parse6_loop.induct)
  case (1 s ip ell)
  show ?case
  proof (cases "length ip \<ge> 16")
    case True
    with "1.prems" show ?thesis
      by (simp add: parse6_loop.simps [of s])
  next
    case False
    with "1.prems" obtain acc off t where h: "hexscan s 0 0 = Ok (acc, off, t)" and off: "off \<noteq> 0"
      by (auto simp: parse6_loop.simps [of s] split: sum.splits if_splits)
    obtain p where p: "s = p @ t" "\<forall>c \<in> set p. addr_char c"
      using hexscan_chars [OF h] by blast
    show ?thesis
    proof (cases "t \<noteq> [] \<and> hd t = CHR ''.''")
      case True
      with False h off "1.prems" obtain fs where "parse4 s 0 0 [] = Ok fs" "r = []"
        by (auto simp: parse6_loop.simps [of s] split: sum.splits if_splits)
      then show ?thesis
        using parse4_chars by (intro exI [of _ s]) auto
    next
      case no_dot: False
      show ?thesis
      proof (cases t)
        case Nil
        with False h off no_dot "1.prems" have "r = []"
          by (auto simp: parse6_loop.simps [of s] Let_def)
        with Nil p show ?thesis
          by auto
      next
        case (Cons x t')
        note loop = parse6_loop.simps [of s ip ell]
        from Cons False h off no_dot "1.prems" have x: "x = CHR '':''" and t': "t' \<noteq> []"
          by (auto simp: loop Let_def split: if_splits)
        obtain y t'' where y: "t' = y # t''"
          using t' by (cases t') auto
        let ?ip = "ip @ [of_nat (acc div 256), of_nat acc]"
        consider (ell) "y = CHR '':''" "t'' = []" | (more) "y = CHR '':''" "t'' \<noteq> []" "ell = None"
            "parse6_loop t'' ?ip (Some (length ?ip)) = Ok (r, ip', ell')"
          | (field) "y \<noteq> CHR '':''" "parse6_loop t' ?ip ell = Ok (r, ip', ell')"
          using Cons False h off no_dot "1.prems" x y by (auto simp: loop Let_def split: if_splits)
        then show ?thesis
        proof cases
          case ell
          with Cons False h off no_dot "1.prems" x y have "r = []"
            by (auto simp: loop Let_def split: if_splits)
          with ell x y Cons p show ?thesis
            by (intro exI [of _ s]) auto
        next
          case more
          have "\<exists>q. t'' = q @ r \<and> (\<forall>c \<in> set q. addr_char c)"
            using "1.IH"(1) [of "(acc, off, t)" acc "(off, t)" off t ?ip] more Cons False h off no_dot x y by simp
          then obtain q where "t'' = q @ r" "\<forall>c \<in> set q. addr_char c"
            by blast
          with more x y Cons p show ?thesis
            by (intro exI [of _ "p @ x # y # q"]) auto
        next
          case field
          have "\<exists>q. t' = q @ r \<and> (\<forall>c \<in> set q. addr_char c)"
            using "1.IH"(2) [of "(acc, off, t)" acc "(off, t)" off t ?ip] field Cons False h off no_dot x y by simp
          then obtain q where "t' = q @ r" "\<forall>c \<in> set q. addr_char c"
            by blast
          with x Cons p show ?thesis
            by (intro exI [of _ "p @ x # q"]) auto
        qed
      qed
    qed
  qed
qed

lemma parse6_finish_rest: "parse6_finish (r, ip, ell) = Ok bs \<Longrightarrow> r = []"
  by (auto simp: parse6_finish_def split: if_splits)

lemma parse6_body_chars: "parse6_body s = Ok bs \<Longrightarrow> \<forall>c \<in> set s. addr_char c"
proof -
  assume ok: "parse6_body s = Ok bs"
  let ?lead = "take 2 s = ''::''"
  let ?rest = "if ?lead then drop 2 s else s"
  have rest: "\<forall>c \<in> set ?rest. addr_char c"
  proof (cases "?lead \<and> drop 2 s = []")
    case False
    with ok obtain r ip ell where
      loop: "parse6_loop ?rest [] (if ?lead then Some 0 else None) = Ok (r, ip, ell)"
      and fin: "parse6_finish (r, ip, ell) = Ok bs"
      by (auto simp: parse6_body_def Let_def split: sum.splits if_splits)
    from parse6_loop_chars [OF loop] obtain p where "?rest = p @ r" "\<forall>c \<in> set p. addr_char c"
      by blast
    with parse6_finish_rest [OF fin] show ?thesis
      by simp
  qed simp
  show ?thesis
  proof (cases ?lead)
    case True
    have "set s = set (take 2 s) \<union> set (drop 2 s)"
      by (metis append_take_drop_id set_append)
    with True rest show ?thesis
      by simp
  next
    case False
    with rest show ?thesis
      by simp
  qed
qed

text \<open>Every accepted text is a zone-free body of address characters, with or without a zone.\<close>

lemma zone_split:
  obtains b z where "s = b @ zone_suffix z" "CHR ''%'' \<notin> set b"
  | b where "s = b @ ''%''" "CHR ''%'' \<notin> set b"
proof (cases "Cut (CHR ''%'') s")
  case None
  then show ?thesis
    using that(1) [of s "[]"] by (simp add: Cut_None_iff zone_suffix_def)
next
  case (Some bz)
  then obtain b z where s: "s = b @ CHR ''%'' # z" "CHR ''%'' \<notin> set b"
    by (cases bz) (auto dest: Cut_SomeD)
  show ?thesis
  proof (cases "z = []")
    case True
    with s that(2) show ?thesis
      by simp
  next
    case False
    with s that(1) [of b z] show ?thesis
      by (simp add: zone_suffix_def)
  qed
qed

lemma split_zone_empty:
  assumes "CHR ''%'' \<notin> set b"
  shows "split_zone (b @ ''%'') = Err EmptyZone"
proof -
  have "\<And>x. x \<in> set b \<Longrightarrow> x \<noteq> CHR ''%''"
    using assms by auto
  then have "dropWhile (\<lambda>c. c \<noteq> CHR ''%'') (b @ ''%'') = ''%''"
    by (simp add: dropWhile_append2)
  then show ?thesis
    by (simp add: split_zone_def)
qed

lemma ParseAddr_OkD:
  assumes "ParseAddr s = Ok a"
  obtains w where "a = Addr4 w" "\<forall>c \<in> set s. addr_char c"
  | w b z where "a = Addr6 w z" "s = b @ zone_suffix z" "\<forall>c \<in> set b. addr_char c" "CHR ''%'' \<notin> set b"
proof -
  consider "parseIPv4 s = Ok a" | "parseIPv6 s = Ok a"
    using assms by (auto simp: ParseAddr_def split: option.splits if_splits)
  then show ?thesis
  proof cases
    case 1
    then show ?thesis
      using that(1) parse4_chars [of s 0 0 "[]"] by (auto simp: parseIPv4_def split: sum.splits)
  next
    case 2
    consider b z where "s = b @ zone_suffix z" "CHR ''%'' \<notin> set b"
      | b where "s = b @ ''%''" "CHR ''%'' \<notin> set b"
      by (rule zone_split [of s])
    then show ?thesis
    proof cases
      case (1 b z)
      with 2 obtain bs where "parse6_body b = Ok bs" "a = Addr6 (word_of_bytes bs) z"
        by (auto simp: parseIPv6_body [of b z] split: sum.splits)
      then show ?thesis
        using that(2) [of _ z b] 1 parse6_body_chars [of b] by blast
    next
      case (2 b)
      with \<open>parseIPv6 s = Ok a\<close> show ?thesis
        by (simp add: parseIPv6_def split_zone_empty)
    qed
  qed
qed

lemma addr_char_percent [simp]: "\<not> addr_char (CHR ''%'')" "\<not> addr_char (CHR ''/'')"
  "\<not> addr_char (CHR '','')" "\<not> addr_char (CHR ''-'')" "\<not> addr_char (CHR ''='')"
  by (simp_all add: addr_char_def hex_digit_def)

lemma ParseAddr_nonzero: "ParseAddr s = Ok a \<Longrightarrow> a \<noteq> AddrZero"
  by (elim ParseAddr_OkD) simp_all

lemma ParseAddr_zone_free:
  assumes "ParseAddr s = Ok a" and "CHR ''%'' \<notin> set s"
  shows "Zone a = []" and "\<forall>c \<in> set s. addr_char c"
proof -
  have "Zone a = [] \<and> (\<forall>c \<in> set s. addr_char c)"
    using assms(1)
  proof (rule ParseAddr_OkD)
    fix w b z assume "a = Addr6 w z" "s = b @ zone_suffix z" "\<forall>c \<in> set b. addr_char c"
    with assms(2) show ?thesis
      by (cases z) (simp_all add: Zone_def zone_suffix_def)
  qed (simp add: Zone_def)
  then show "Zone a = []" and "\<forall>c \<in> set s. addr_char c"
    by simp_all
qed

lemma ParseAddr_zone:
  assumes "ParseAddr s = Ok a"
  shows "Zone a \<noteq> [] \<longleftrightarrow> CHR ''%'' \<in> set s"
  using assms
proof (rule ParseAddr_OkD)
  fix w assume "a = Addr4 w" "\<forall>c \<in> set s. addr_char c"
  then show ?thesis
    using addr_char_percent(1) by (auto simp: Zone_def)
next
  fix w b z assume "a = Addr6 w z" "s = b @ zone_suffix z" "CHR ''%'' \<notin> set b"
  then show ?thesis
    by (simp add: Zone_def zone_suffix_def)
qed

lemma rsplit_slash_SomeD:
  assumes "rsplit_slash s = Some (x, y)"
  shows "s = x @ ''/'' @ y"
proof -
  let ?P = "\<lambda>c. c \<noteq> CHR ''/''"
  obtain c h where d: "dropWhile ?P (rev s) = c # h" and xy: "x = rev h" "y = rev (takeWhile ?P (rev s))"
    using assms by (auto simp: rsplit_slash_def split: list.splits)
  have "c = CHR ''/''"
    using hd_dropWhile [of ?P "rev s"] d by simp
  moreover have "rev s = takeWhile ?P (rev s) @ c # h"
    using takeWhile_dropWhile_id [of ?P "rev s"] d by simp
  then have "s = rev (takeWhile ?P (rev s) @ c # h)"
    by (metis rev_rev_ident)
  ultimately show ?thesis
    using xy by simp
qed

lemma ParsePrefix_OkD:
  assumes "netip_ParsePrefix s = Ok p"
  shows "wf_prefix p" and "IsValid p" and "CHR ''%'' \<notin> set s" and "CHR ''/'' \<in> set s"
proof -
  obtain x y ip n where xy: "rsplit_slash s = Some (x, y)" and ip: "ParseAddr x = Ok ip"
    and zone: "\<not> (Is6 ip \<and> Zone ip \<noteq> [])" and n: "atoi y = Some n" "int n \<le> BitLen ip" "p = PrefixFrom ip (int n)"
    using assms by (auto simp: netip_ParsePrefix_def split: option.splits sum.splits if_splits)
  have s: "s = x @ ''/'' @ y"
    by (rule rsplit_slash_SomeD [OF xy])
  show "wf_prefix p"
    using n by simp
  show "IsValid p"
    using n ParseAddr_nonzero [OF ip] by (simp add: IsValid_def PrefixFrom_def)
  have "CHR ''%'' \<notin> set x"
    using ParseAddr_zone [OF ip] zone by (cases ip) (auto simp: Is6_def Zone_def)
  moreover have "CHR ''%'' \<notin> set y"
    using n by (auto simp: atoi_def dec_digit_def split: if_splits)
  ultimately show "CHR ''%'' \<notin> set s" "CHR ''/'' \<in> set s"
    using s by auto
qed

subsection \<open>Canonical entries\<close>

text \<open>\<^verbatim>\<open>canonicalEntry\<close>: an address or prefix in its printed form, any other text as it is.\<close>

definition canonicalEntry :: "string \<Rightarrow> string" where
  "canonicalEntry entry =
     (case ParseAddr entry of
        Inr a \<Rightarrow> AddrString a
      | Inl _ \<Rightarrow> (case netip_ParsePrefix entry of Inr p \<Rightarrow> PrefixString p | Inl _ \<Rightarrow> entry))"

lemma canonicalEntry_other:
  assumes "c \<in> set b" and "\<not> addr_char c" and "c \<noteq> CHR ''/''" and "CHR ''%'' \<notin> set b" and "CHR ''/'' \<notin> set b"
  shows "canonicalEntry (b @ t) = b @ t"
proof -
  have no_addr: "ParseAddr (b @ u) \<noteq> Ok a" for u a
  proof
    assume "ParseAddr (b @ u) = Ok a"
    then show False
    proof (rule ParseAddr_OkD)
      fix w assume "\<forall>c \<in> set (b @ u). addr_char c"
      with assms show False by auto
    next
      fix w b' z assume *: "b @ u = b' @ zone_suffix z" "\<forall>c \<in> set b'. addr_char c"
      then consider v where "b' = b @ v" | v where "b = b' @ v" "zone_suffix z = v @ u" "v \<noteq> []"
        by (metis append_Nil2 append_eq_append_conv2)
      then show False
      proof cases
        case 1
        with * assms show False by auto
      next
        case 2
        then have "hd v = CHR ''%''"
          by (cases v) (auto simp: zone_suffix_def split: if_splits)
        with 2 assms show False
          by (cases v) auto
      qed
    qed
  qed
  have no_prefix: "netip_ParsePrefix (b @ t) \<noteq> Ok p" for p
  proof
    assume ok: "netip_ParsePrefix (b @ t) = Ok p"
    then obtain x y ip where xy: "rsplit_slash (b @ t) = Some (x, y)" and ip: "ParseAddr x = Ok ip"
      and n: "atoi y \<noteq> None"
      by (auto simp: netip_ParsePrefix_def split: option.splits sum.splits if_splits)
    have "b @ t = x @ ''/'' @ y"
      by (rule rsplit_slash_SomeD [OF xy])
    then obtain v where "b = x @ v \<and> v @ t = ''/'' @ y \<or> b @ v = x \<and> t = v @ ''/'' @ y"
      by (auto simp only: append_eq_append_conv2)
    then consider v where "x = b @ v" | v where "b = x @ v" "v \<noteq> []" "''/'' @ y = v @ t"
      by (cases "v = []") auto
    then show False
    proof cases
      case 1
      with ip no_addr show False by blast
    next
      case 2
      then have "hd v = CHR ''/''"
        by (cases v) auto
      with 2 assms show False
        by (cases v) auto
    qed
  qed
  show ?thesis
    using no_addr [of t] no_prefix by (auto simp: canonicalEntry_def split: sum.splits)
qed

lemma set_PrefixString:
  assumes "wf_prefix p" "IsValid p"
  shows "set (PrefixString p) \<subseteq> {CHR '':'', CHR ''.'', CHR ''/''} \<union> digit_char ` {0..<16}"
proof -
  have "pfx_ip p \<noteq> AddrZero" "Zone (pfx_ip p) = []"
    using assms by (auto simp: wf_prefix_def IsValid_def Bits_def)
  then show ?thesis
    using assms set_AddrString [of "pfx_ip p"] set_dec [of "nat (Bits p)"] digit_char_mono
    by (auto simp: PrefixString_def)
qed

lemma ParseAddr_PrefixString:
  assumes "wf_prefix p" "IsValid p"
  shows "ParseAddr (PrefixString p) \<noteq> Ok a"
proof
  assume "ParseAddr (PrefixString p) = Ok a"
  moreover have "CHR ''%'' \<notin> set (PrefixString p)"
    using set_PrefixString [OF assms] not_hex(3) by blast
  moreover have "CHR ''/'' \<in> set (PrefixString p)"
    using assms by (simp add: PrefixString_def)
  ultimately show False
    using ParseAddr_zone_free(2) addr_char_percent(2) by blast
qed

lemma canonicalEntry_PrefixString [simp]:
  "wf_prefix p \<Longrightarrow> IsValid p \<Longrightarrow> canonicalEntry (PrefixString p) = PrefixString p"
  using ParseAddr_PrefixString [of p]
  by (auto simp: canonicalEntry_def ParsePrefix_PrefixString split: sum.splits)

lemma canonicalEntry_AddrString [simp]:
  "a \<noteq> AddrZero \<Longrightarrow> canonicalEntry (AddrString a) = AddrString a"
  by (simp add: canonicalEntry_def ParseAddr_AddrString)

lemma canonicalEntry_cases:
  obtains a where "ParseAddr s = Ok a" "a \<noteq> AddrZero" "canonicalEntry s = AddrString a"
  | p where "netip_ParsePrefix s = Ok p" "wf_prefix p" "IsValid p" "canonicalEntry s = PrefixString p"
  | "canonicalEntry s = s"
proof (cases "ParseAddr s")
  case (Inr a)
  with that(1) [of a] ParseAddr_nonzero [of s a] show ?thesis
    by (simp add: canonicalEntry_def)
next
  case (Inl e)
  then show ?thesis
    using that(2,3) ParsePrefix_OkD(1,2) [of s]
    by (cases "netip_ParsePrefix s") (simp_all add: canonicalEntry_def)
qed

lemma canonicalEntry_idem [simp]: "canonicalEntry (canonicalEntry s) = canonicalEntry s"
  by (cases s rule: canonicalEntry_cases) simp_all

text \<open>Text without a zone stays without one, and text with a zone keeps one.\<close>

lemma percent_AddrString:
  "a \<noteq> AddrZero \<Longrightarrow> CHR ''%'' \<in> set (AddrString a) \<longleftrightarrow> Zone a \<noteq> []"
proof (cases "Zone a = []")
  case False
  then show "CHR ''%'' \<in> set (AddrString a) \<longleftrightarrow> Zone a \<noteq> []"
    by (cases a) (auto simp: Zone_def AddrString_def zone_suffix_def)
next
  case True
  assume "a \<noteq> AddrZero"
  with True have "CHR ''%'' \<notin> set (AddrString a)"
    using set_AddrString [of a] not_hex(3) by auto
  with True show ?thesis
    by simp
qed

lemma percent_canonicalEntry: "CHR ''%'' \<in> set (canonicalEntry s) \<longleftrightarrow> CHR ''%'' \<in> set s"
proof (cases s rule: canonicalEntry_cases)
  case (1 a)
  with ParseAddr_zone [OF 1(1)] show ?thesis
    by (simp add: percent_AddrString)
next
  case (2 p)
  have "CHR ''%'' \<notin> set (PrefixString p)"
    using set_PrefixString [OF 2(2,3)] not_hex(3) by blast
  with 2 ParsePrefix_OkD(3) [OF 2(1)] show ?thesis
    by simp
qed simp

text \<open>The characters of a printed address or prefix are visible and none is a comma.\<close>

definition record_text :: "string \<Rightarrow> bool" where
  "record_text s \<longleftrightarrow> visible s \<and> CHR '','' \<notin> set s \<and> CHR ''%'' \<notin> set s"

lemma record_text_append [simp]: "record_text (s @ t) \<longleftrightarrow> record_text s \<and> record_text t"
  by (auto simp: record_text_def)

lemma digit_char_visible: "d < 16 \<Longrightarrow> 33 \<le> (of_char (digit_char d) :: nat) \<and> (of_char (digit_char d) :: nat) \<le> 126"
  by (simp add: digit_char_code)

lemma record_text_subset:
  assumes "set s \<subseteq> {CHR '':'', CHR ''.'', CHR ''/''} \<union> digit_char ` {0..<16}"
  shows "record_text s"
proof -
  have "33 \<le> (of_char c :: nat) \<and> (of_char c :: nat) \<le> 126" if "c \<in> set s" for c
  proof -
    from that assms consider "c \<in> {CHR '':'', CHR ''.'', CHR ''/''}" | "c \<in> digit_char ` {0..<16}"
      by blast
    then show ?thesis
      using digit_char_visible by cases auto
  qed
  moreover have "CHR '','' \<notin> set s" "CHR ''%'' \<notin> set s"
    using assms not_hex(3,5) by auto
  ultimately show ?thesis
    by (simp add: record_text_def visible_def)
qed

lemma record_text_AddrString [simp]: "a \<noteq> AddrZero \<Longrightarrow> Zone a = [] \<Longrightarrow> record_text (AddrString a)"
  using set_AddrString [of a] by (intro record_text_subset) blast

lemma record_text_PrefixString [simp]: "wf_prefix p \<Longrightarrow> IsValid p \<Longrightarrow> record_text (PrefixString p)"
  using set_PrefixString [of p] by (intro record_text_subset) blast

lemma record_text_canonicalEntry: "record_text s \<Longrightarrow> record_text (canonicalEntry s)"
proof (cases s rule: canonicalEntry_cases)
  case (1 a)
  assume "record_text s"
  then have "Zone a = []"
    using ParseAddr_zone_free(1) [OF 1(1)] by (simp add: record_text_def)
  with 1 show ?thesis
    by simp
qed simp_all

lemma AddrString_nonempty: "AddrString a \<noteq> []"
proof (cases a)
  case (Addr4 w)
  then show ?thesis
    using octets4_list [of w] by (auto simp: AddrString_def string4_octets)
next
  case (Addr6 w z)
  then show ?thesis
    using colon_in_string6 [of w] by (auto simp: AddrString_def)
qed (simp add: AddrString_def)

lemma canonicalEntry_Nil_iff [simp]: "canonicalEntry s = [] \<longleftrightarrow> s = []"
proof (cases s rule: canonicalEntry_cases)
  case (1 a)
  then show ?thesis
    using AddrString_nonempty [of a] by (auto simp: ParseAddr_def)
next
  case (2 p)
  then show ?thesis
    by (auto simp: PrefixString_def dest: ParsePrefix_OkD(4))
qed simp

end
