(* ===== verification/Ownership.thy ===== *)
theory Ownership
  imports Entry_Text API_Types Address_Calc
begin

text \<open>
  Ownership records (\<^verbatim>\<open>internal/controller/ownership.go\<close> and the block tests of
  \<^verbatim>\<open>poolsync_controller.go\<close>).  The operator writes into lists it shares with the user and keeps
  in an annotation the identities of what it wrote.  The theory models reading and printing that
  record, the identity of pool blocks, the geometric fallback for objects without a record, and the
  two list filters; it shows that a record read back owns exactly what was recorded, and that
  without a record only entries inside a managed prefix are claimed.
\<close>

subsection \<open>Values\<close>

text \<open>An unstructured value as the JSON decoder yields it; numbers keep their literal.\<close>

datatype json =
    JNull
  | JBool bool
  | JNumber string
  | JStr string
  | JArr "json list"
  | JObj "string \<Rightarrow> json option"

type_synonym block = "string \<rightharpoonup> json"
type_synonym annotations = "string \<rightharpoonup> string"

text \<open>The type assertion \<^verbatim>\<open>block[k].(string)\<close>.\<close>

definition str_field :: "block \<Rightarrow> string \<Rightarrow> string option" where
  "str_field block k = (case block k of Some (JStr s) \<Rightarrow> Some s | _ \<Rightarrow> None)"

definition AnnotationManagedIPs :: string where "AnnotationManagedIPs = ''dynamic-prefix.io/managed-ips''"
definition AnnotationManagedTargets :: string where "AnnotationManagedTargets = ''dynamic-prefix.io/managed-targets''"
definition AnnotationManagedBlocks :: string where "AnnotationManagedBlocks = ''dynamic-prefix.io/managed-blocks''"
definition AnnotationManagedAddresses :: string where "AnnotationManagedAddresses = ''dynamic-prefix.io/managed-addresses''"
definition AnnotationManagedCIDRs :: string where "AnnotationManagedCIDRs = ''dynamic-prefix.io/managed-cidrs''"
definition AnnotationManagedCIDR :: string where "AnnotationManagedCIDR = ''dynamic-prefix.io/managed-cidr''"
definition AnnotationManagedKubevipEntries :: string where
  "AnnotationManagedKubevipEntries = ''dynamic-prefix.io/managed-kubevip-entries''"

subsection \<open>The record\<close>

record ownershipRecord =
  rec_entries :: "string set"
  rec_present :: bool

definition parseOwnershipRecord :: "string option \<Rightarrow> ownershipRecord" where
  "parseOwnershipRecord value =
     (case value of
        None \<Rightarrow> \<lparr>rec_entries = {}, rec_present = False\<rparr>
      | Some v \<Rightarrow>
          \<lparr>rec_entries = set (map canonicalEntry (List.filter (\<lambda>i. i \<noteq> []) (map TrimSpace (split (CHR '','') v)))),
           rec_present = True\<rparr>)"

definition owns :: "ownershipRecord \<Rightarrow> string \<Rightarrow> bool" where
  "owns r entry \<longleftrightarrow> canonicalEntry entry \<in> rec_entries r"

definition formatOwnershipRecord :: "string list \<Rightarrow> string" where
  "formatOwnershipRecord entries = join (CHR '','') entries"

definition blockKey :: "block \<Rightarrow> string" where
  "blockKey block =
     (let cidr = (case str_field block ''cidr'' of None \<Rightarrow> [] | Some s \<Rightarrow> s) in
      if cidr \<noteq> [] then ''cidr='' @ canonicalEntry cidr
      else
        let start = (case str_field block ''start'' of None \<Rightarrow> [] | Some s \<Rightarrow> s);
            stop = (case str_field block ''stop'' of None \<Rightarrow> [] | Some s \<Rightarrow> s)
        in if start \<noteq> [] then
             if stop \<noteq> [] then ''range='' @ canonicalEntry start @ ''-'' @ canonicalEntry stop
             else ''range='' @ canonicalEntry start
           else [])"

subsection \<open>The geometric fallback\<close>

definition isPrefixSubsetOfManaged :: "ipprefix \<Rightarrow> ipprefix list \<Rightarrow> bool" where
  "isPrefixSubsetOfManaged p managed \<longleftrightarrow>
     list_ex (\<lambda>mp. Bits p \<ge> Bits mp \<and> Contains mp (pfx_ip p)) managed"

definition isIPv4Block :: "block \<Rightarrow> bool" where
  "isIPv4Block block \<longleftrightarrow>
     (case str_field block ''cidr'' of
        None \<Rightarrow> False
      | Some s \<Rightarrow> (case netip_ParsePrefix s of Inl _ \<Rightarrow> False | Inr p \<Rightarrow> Is4 (pfx_ip p))) \<or>
     (case str_field block ''start'' of
        None \<Rightarrow> False
      | Some s \<Rightarrow> (case ParseAddr s of Inl _ \<Rightarrow> False | Inr a \<Rightarrow> Is4 a)) \<or>
     (case str_field block ''stop'' of
        None \<Rightarrow> False
      | Some s \<Rightarrow> (case ParseAddr s of Inl _ \<Rightarrow> False | Inr a \<Rightarrow> Is4 a))"

text \<open>The part of \<^verbatim>\<open>isManagedBlock\<close> that reads a start/stop pair.\<close>

definition isManagedRange :: "block \<Rightarrow> ipprefix list \<Rightarrow> bool" where
  "isManagedRange block managed \<longleftrightarrow>
     (case str_field block ''start'' of
        None \<Rightarrow> False
      | Some start \<Rightarrow>
          (case ParseAddr start of
             Inl _ \<Rightarrow> False
           | Inr a \<Rightarrow>
               if Is4 a then False
               else
                 let within = (\<lambda>e. list_ex (\<lambda>mp. Contains mp a \<and> Contains mp e) managed) in
                 (case str_field block ''stop'' of
                    None \<Rightarrow> within a
                  | Some stop \<Rightarrow>
                      if stop = [] then within a
                      else (case ParseAddr stop of
                          Inl _ \<Rightarrow> False
                        | Inr parsed \<Rightarrow> if Is4 parsed then False else within parsed))))"

definition isManagedBlock :: "block \<Rightarrow> ipprefix list \<Rightarrow> bool" where
  "isManagedBlock block managed \<longleftrightarrow>
     (case str_field block ''cidr'' of
        None \<Rightarrow> isManagedRange block managed
      | Some cidr \<Rightarrow>
          (case netip_ParsePrefix cidr of
             Inl _ \<Rightarrow> isManagedRange block managed
           | Inr p \<Rightarrow> if Is4 (pfx_ip p) then False else isPrefixSubsetOfManaged p managed))"

definition isOwnedBlock :: "block \<Rightarrow> ownershipRecord \<Rightarrow> ipprefix list \<Rightarrow> bool" where
  "isOwnedBlock block r managed \<longleftrightarrow>
     (if \<not> rec_present r then isManagedBlock block managed
      else let key = blockKey block in if key = [] then False else owns r key)"

definition isOwnedCIDR :: "string \<Rightarrow> ownershipRecord \<Rightarrow> ipprefix list \<Rightarrow> bool" where
  "isOwnedCIDR cidr r managed \<longleftrightarrow>
     (if \<not> rec_present r then
        (case netip_ParsePrefix cidr of Inl _ \<Rightarrow> False | Inr p \<Rightarrow> isPrefixSubsetOfManaged p managed)
      else owns r cidr)"

definition collectManagedPrefixes :: "DynamicPrefix \<Rightarrow> ipprefix list" where
  "collectManagedPrefixes dp =
     (let st = dp_Status dp;
          read = (\<lambda>s. case netip_ParsePrefix s of Inl _ \<Rightarrow> [] | Inr p \<Rightarrow> [p])
      in (if st_CurrentPrefix st = [] then [] else read (st_CurrentPrefix st)) @
         concat (map (\<lambda>h. read (hist_Prefix h)) (st_History st)))"

subsection \<open>Filters\<close>

definition ownership_keys :: "string list" where
  "ownership_keys =
     [AnnotationManagedIPs, AnnotationManagedTargets, AnnotationManagedBlocks, AnnotationManagedCIDRs,
      AnnotationManagedCIDR, AnnotationManagedAddresses, AnnotationManagedKubevipEntries]"

definition hasOwnershipRecord :: "annotations \<Rightarrow> bool" where
  "hasOwnershipRecord ann \<longleftrightarrow> list_ex (\<lambda>k. ann k \<noteq> None) ownership_keys"

definition excludePinned :: "string list \<Rightarrow> string list \<Rightarrow> string list" where
  "excludePinned candidates pinned =
     (if pinned = [] then candidates
      else let keys = set (map (\<lambda>p. canonicalEntry (TrimSpace p)) pinned) in
        List.filter (\<lambda>c. canonicalEntry (TrimSpace c) \<notin> keys) candidates)"

fun dedupe_from :: "string set \<Rightarrow> string list \<Rightarrow> string list" where
  "dedupe_from seen [] = []"
| "dedupe_from seen (item # items) =
     (let key = canonicalEntry item in
      if key \<in> seen then dedupe_from seen items
      else item # dedupe_from (insert key seen) items)"

definition dedupePreservingOrder :: "string list \<Rightarrow> string list" where
  "dedupePreservingOrder items = dedupe_from {} items"

subsection \<open>Reading back what was written\<close>

lemma rec_present_parse [simp]: "rec_present (parseOwnershipRecord v) \<longleftrightarrow> v \<noteq> None"
  by (auto simp: parseOwnershipRecord_def split: option.splits)

lemma Nil_notin_rec_entries [simp]: "[] \<notin> rec_entries (parseOwnershipRecord v)"
  by (auto simp: parseOwnershipRecord_def image_iff dest: sym split: option.splits)

definition recordable :: "string \<Rightarrow> bool" where
  "recordable k \<longleftrightarrow> record_text k \<and> k \<noteq> []"

lemma parse_formatted:
  assumes "\<forall>k \<in> set ks. recordable k"
  shows "rec_entries (parseOwnershipRecord (Some (formatOwnershipRecord ks))) = canonicalEntry ` set ks"
proof (cases ks)
  case Nil
  then show ?thesis
    by (simp add: parseOwnershipRecord_def formatOwnershipRecord_def)
next
  case (Cons k ks')
  then have "split (CHR '','') (formatOwnershipRecord ks) = ks"
    using assms unfolding formatOwnershipRecord_def
    by (intro split_join) (auto simp: recordable_def record_text_def)
  moreover have "map TrimSpace ks = ks"
    using assms by (intro map_idI) (auto simp: recordable_def record_text_def)
  moreover have "List.filter (\<lambda>i. i \<noteq> []) ks = ks"
    using assms by (auto simp: recordable_def filter_id_conv)
  ultimately show ?thesis
    by (simp add: parseOwnershipRecord_def)
qed

text \<open>Zone-free text with a character that no address and no prefix has is left as it is.\<close>

lemma ParsePrefix_chars:
  assumes "netip_ParsePrefix s = Ok p" and "c \<in> set s"
  shows "addr_char c \<or> c = CHR ''/''"
proof -
  obtain x y ip n where xy: "rsplit_slash s = Some (x, y)" and ip: "ParseAddr x = Ok ip" and n: "atoi y = Some n"
    using assms(1) by (auto simp: netip_ParsePrefix_def split: option.splits sum.splits if_splits)
  note s = rsplit_slash_SomeD [OF xy]
  have "CHR ''%'' \<notin> set x"
    using ParsePrefix_OkD(3) [OF assms(1)] s by simp
  then have "\<forall>c \<in> set x. addr_char c"
    by (rule ParseAddr_zone_free(2) [OF ip])
  moreover have "\<forall>c \<in> set y. addr_char c"
    using n dec_is_hex by (auto simp: atoi_def addr_char_def split: if_splits)
  ultimately show ?thesis
    using assms(2) s by auto
qed

lemma canonicalEntry_foreign:
  assumes "c \<in> set s" and "\<not> addr_char c" and "c \<noteq> CHR ''/''" and "CHR ''%'' \<notin> set s"
  shows "canonicalEntry s = s"
  using assms ParseAddr_zone_free(2) [of s] ParsePrefix_chars [of s]
  by (cases s rule: canonicalEntry_cases) auto

text \<open>A key that is its own canonical form is owned exactly when it was recorded.\<close>

lemma owns_recorded:
  assumes "\<forall>k \<in> set ks. recordable k \<and> canonicalEntry k = k"
    and "CHR ''%'' \<notin> set key \<Longrightarrow> canonicalEntry key = key"
  shows "owns (parseOwnershipRecord (Some (formatOwnershipRecord ks))) key \<longleftrightarrow> key \<in> set ks"
proof -
  have "canonicalEntry ` set ks = set ks"
    using assms(1) by simp
  then have "owns (parseOwnershipRecord (Some (formatOwnershipRecord ks))) key \<longleftrightarrow> canonicalEntry key \<in> set ks"
    using parse_formatted [of ks] assms(1) by (simp add: owns_def)
  moreover have "CHR ''%'' \<notin> set key" if "canonicalEntry key \<in> set ks"
    using assms(1) that percent_canonicalEntry [of key] by (auto simp: recordable_def record_text_def)
  moreover have "CHR ''%'' \<notin> set key" if "key \<in> set ks"
    using assms(1) that by (auto simp: recordable_def record_text_def)
  ultimately show ?thesis
    using assms(2) by metis
qed

subsection \<open>The fallback claims only what it manages\<close>

lemma bit_mask4: "bit (mask4 n) k \<longleftrightarrow> k < 32 \<and> 32 - n \<le> k"
  by (auto simp: mask4_def bit_not_iff bit_mask_iff)

lemma xor_mask_zero_iff:
  fixes v w m :: "'a :: len word"
  shows "(v XOR w) AND m = 0 \<longleftrightarrow> (\<forall>k. bit m k \<longrightarrow> bit v k = bit w k)"
  proof
  assume eq: "(v XOR w) AND m = 0"
  have "\<not> bit ((v XOR w) AND m) k" for k
    unfolding eq by simp
  then show "\<forall>k. bit m k \<longrightarrow> bit v k = bit w k"
    by (auto simp: bit_and_iff bit_xor_iff)
next
  assume "\<forall>k. bit m k \<longrightarrow> bit v k = bit w k"
  then show "(v XOR w) AND m = 0"
    by (intro bit_word_eqI) (auto simp: bit_and_iff bit_xor_iff)
qed

lemma Contains_trans:
  assumes "Bits mp \<le> Bits p" and "Contains mp (pfx_ip p)" and "Contains p a"
  shows "Contains mp a"
proof -
  have n: "nat (Bits mp) \<le> nat (Bits p)"
    using assms(1) by simp
  consider u v w where "pfx_ip mp = Addr4 u" "pfx_ip p = Addr4 v" "a = Addr4 w"
    | u v w y z where "pfx_ip mp = Addr6 u y" "pfx_ip p = Addr6 v z" "a = Addr6 w []"
    using assms(2,3) by (auto simp: Contains_def Zone_def split: addr.splits)
  then show ?thesis
  proof cases
    case 1
    then have "\<forall>k. bit (mask4 (nat (Bits mp))) k \<longrightarrow> bit u k = bit w k"
      using assms(2,3) n by (auto simp: Contains_def xor_mask_zero_iff bit_mask4)
    with 1 assms(2) show ?thesis
      by (simp add: Contains_def xor_mask_zero_iff Zone_def)
  next
    case 2
    then have "\<forall>k. bit (mask6 (nat (Bits mp))) k \<longrightarrow> bit u k = bit w k"
      using assms(2,3) n by (auto simp: Contains_def xor_mask_zero_iff bit_mask6)
    with 2 assms(2) show ?thesis
      by (simp add: Contains_def xor_mask_zero_iff Zone_def)
  qed
qed

lemma subset_of_managed:
  "isPrefixSubsetOfManaged p managed \<Longrightarrow> \<exists>mp \<in> set managed. \<forall>a. Contains p a \<longrightarrow> Contains mp a"
  by (auto simp: isPrefixSubsetOfManaged_def list_ex_iff intro: Contains_trans)

text \<open>The IPv6 addresses a pool block covers: those of its CIDR, or those from start to stop.\<close>

definition covers_range :: "block \<Rightarrow> 128 word \<Rightarrow> bool" where
  "covers_range block w \<longleftrightarrow>
     (\<exists>start s z. str_field block ''start'' = Some start \<and> ParseAddr start = Ok (Addr6 s z) \<and>
        (if str_field block ''stop'' \<in> {None, Some []} then w = s
         else \<exists>stop e z'. str_field block ''stop'' = Some stop \<and> ParseAddr stop = Ok (Addr6 e z') \<and> s \<le> w \<and> w \<le> e))"

definition covers :: "block \<Rightarrow> 128 word \<Rightarrow> bool" where
  "covers block w \<longleftrightarrow>
     (case str_field block ''cidr'' of
        None \<Rightarrow> covers_range block w
      | Some cidr \<Rightarrow>
          (case netip_ParsePrefix cidr of Inl _ \<Rightarrow> covers_range block w | Inr p \<Rightarrow> Contains p (Addr6 w [])))"

lemma managed_range:
  assumes "isManagedRange block managed" and "\<forall>mp \<in> set managed. wf_prefix mp"
  shows "\<exists>mp \<in> set managed. \<forall>w. covers_range block w \<longrightarrow> Contains mp (Addr6 w [])"
proof -
  obtain start a where start: "str_field block ''start'' = Some start" "ParseAddr start = Ok a" "\<not> Is4 a"
    using assms(1) by (auto simp: isManagedRange_def split: option.splits sum.splits if_splits)
  have v6: "\<exists>v. e = Addr6 v []" if "Contains mp e" "\<not> Is4 e" for mp e
    using that by (cases e) (auto simp: Contains_def Is4_def Zone_def split: addr.splits)
  show ?thesis
  proof (cases "str_field block ''stop'' \<in> {None, Some []}")
    case True
    with assms(1) start obtain mp where mp: "mp \<in> set managed" "Contains mp a"
      by (auto simp: isManagedRange_def list_ex_iff)
    with v6 start obtain v where "a = Addr6 v []"
      by blast
    with True mp start show ?thesis
      by (intro bexI [of _ mp]) (auto simp: covers_range_def)
  next
    case False
    with assms(1) start obtain stop e mp where stop: "str_field block ''stop'' = Some stop" "stop \<noteq> []"
      "ParseAddr stop = Ok e" "\<not> Is4 e" and mp: "mp \<in> set managed" "Contains mp a" "Contains mp e"
      by (auto simp: isManagedRange_def list_ex_iff split: option.splits sum.splits if_splits)
    with v6 start obtain u v where "a = Addr6 u []" "e = Addr6 v []"
      by meson
    with stop start mp assms(2) show ?thesis
      by (intro bexI [of _ mp]) (auto simp: covers_range_def intro: Contains_between [of mp u v])
  qed
qed

text \<open>
  An object without an ownership record loses only what the operator manages: a block the
  geometric test claims lies, with every address it covers, inside one managed prefix.  A supernet
  of a managed prefix, or a range that merely starts in one, is never claimed.
\<close>

theorem fallback_claims_only_managed:
  assumes "\<not> rec_present r" and "isOwnedBlock block r managed" and "\<forall>mp \<in> set managed. wf_prefix mp"
  shows "\<exists>mp \<in> set managed. \<forall>w. covers block w \<longrightarrow> Contains mp (Addr6 w [])"
proof -
  have "isManagedBlock block managed"
    using assms(1,2) by (simp add: isOwnedBlock_def)
  then consider "isManagedRange block managed" "\<forall>w. covers block w \<longleftrightarrow> covers_range block w"
    | p where "isPrefixSubsetOfManaged p managed" "\<forall>w. covers block w \<longleftrightarrow> Contains p (Addr6 w [])"
    by (auto simp: isManagedBlock_def covers_def split: option.splits sum.splits if_splits)
  then show ?thesis
    using managed_range [OF _ assms(3)] subset_of_managed [of _ managed] by cases metis+
qed

theorem fallback_claims_only_managed_witness:
  "let mp = PrefixFrom (Addr6 0x20010DB8000100000000000000000000 []) 48;
       block = [''start'' \<mapsto> JStr ''2001:db8:1::10'', ''stop'' \<mapsto> JStr ''2001:db8:1::20''];
       wide = [''start'' \<mapsto> JStr ''2001:db8:1::10'', ''stop'' \<mapsto> JStr ''2001:db8:2::20''];
       none = parseOwnershipRecord None
   in isOwnedBlock block none [mp] \<and> \<not> isOwnedBlock wide none [mp] \<and>
      (\<forall>w. covers block w \<longrightarrow> Contains mp (Addr6 w []))"
proof -
  let ?mp = "PrefixFrom (Addr6 0x20010DB8000100000000000000000000 []) 48"
  let ?block = "[''start'' \<mapsto> JStr ''2001:db8:1::10'', ''stop'' \<mapsto> JStr ''2001:db8:1::20'']"
  let ?wide = "[''start'' \<mapsto> JStr ''2001:db8:1::10'', ''stop'' \<mapsto> JStr ''2001:db8:2::20'']"
  have addrs: "ParseAddr ''2001:db8:1::10'' = Ok (Addr6 0x20010DB8000100000000000000000010 [])"
    "ParseAddr ''2001:db8:1::20'' = Ok (Addr6 0x20010DB8000100000000000000000020 [])"
    "ParseAddr ''2001:db8:2::20'' = Ok (Addr6 0x20010DB8000200000000000000000020 [])"
    by (simp_all add: go_eval)
  have fields: "str_field ?block ''cidr'' = None" "str_field ?block ''start'' = Some ''2001:db8:1::10''"
    "str_field ?block ''stop'' = Some ''2001:db8:1::20''"
    "str_field ?wide ''cidr'' = None" "str_field ?wide ''start'' = Some ''2001:db8:1::10''"
    "str_field ?wide ''stop'' = Some ''2001:db8:2::20''"
    by (simp_all add: str_field_def)
  have inside: "Contains ?mp (Addr6 0x20010DB8000100000000000000000010 [])"
    "Contains ?mp (Addr6 0x20010DB8000100000000000000000020 [])"
    "\<not> Contains ?mp (Addr6 0x20010DB8000200000000000000000020 [])"
    by (simp_all add: Contains_def prefix6_int go_eval Zone_def)
  have owned: "isOwnedBlock ?block (parseOwnershipRecord None) [?mp]"
    by (simp add: isOwnedBlock_def isManagedBlock_def isManagedRange_def fields addrs inside Is4_def)
  have not_owned: "\<not> isOwnedBlock ?wide (parseOwnershipRecord None) [?mp]"
    by (simp add: isOwnedBlock_def isManagedBlock_def isManagedRange_def fields addrs inside Is4_def)
  show ?thesis
    using fallback_claims_only_managed [of "parseOwnershipRecord None" ?block "[?mp]"] owned not_owned
    by (simp add: Let_def)
qed

end
