(* ===== verification/Owned_List.thy ===== *)
theory Owned_List
  imports Ownership
begin

text \<open>
  The shared lists of the pool backends: \<^verbatim>\<open>internal/controller/ownedlist.go\<close>, the list backends of
  \<^verbatim>\<open>poolsync_backends.go\<close> (Cilium pools, Cilium CIDR groups, MetalLB pools) and the two update
  functions of \<^verbatim>\<open>poolsync_controller.go\<close> they call.  The unstructured objects and the API server
  are third-party code and enter as a record of operations with the laws the code relies on.  The
  locale \<open>owned_list_backend\<close> is what \<^verbatim>\<open>syncOwnedList\<close> expects of a backend; its lemmas hold for
  all three: user entries stay in place, a rotation leaves nothing of the previous one behind, and
  a release gives back exactly the user's entries.
\<close>

subsection \<open>Unstructured objects\<close>

record 'o unstructured_api =
  NestedSlice :: "'o \<Rightarrow> string list \<Rightarrow> string + json list"
  SetNestedField :: "'o \<Rightarrow> json \<Rightarrow> string list \<Rightarrow> string + 'o"
  GetAnnotations :: "'o \<Rightarrow> annotations"
  SetAnnotations :: "'o \<Rightarrow> annotations \<Rightarrow> 'o"
  DeepEqual :: "json list \<Rightarrow> json list \<Rightarrow> bool"
  UpdateObject :: "'o \<Rightarrow> string option"

definition fieldSpec :: string where "fieldSpec = ''spec''"
definition AnnotationLastSync :: string where "AnnotationLastSync = ''dynamic-prefix.io/last-sync''"

text \<open>
  What is relied on: a list set is the list read, fields of the spec and annotations are
  independent, and \<^verbatim>\<open>equality.Semantic.DeepEqual\<close> is equality of JSON lists.
\<close>

definition unstructured_laws :: "'o unstructured_api \<Rightarrow> bool" where
  "unstructured_laws api \<longleftrightarrow>
     (\<forall>obj xs fs obj'. SetNestedField api obj (JArr xs) (fieldSpec # fs) = Ok obj' \<longrightarrow>
        NestedSlice api obj' (fieldSpec # fs) = Ok xs \<and> GetAnnotations api obj' = GetAnnotations api obj) \<and>
     (\<forall>obj m. GetAnnotations api (SetAnnotations api obj m) = m) \<and>
     (\<forall>obj m fs. NestedSlice api (SetAnnotations api obj m) (fieldSpec # fs) = NestedSlice api obj (fieldSpec # fs)) \<and>
     (\<forall>xs ys. DeepEqual api xs ys \<longleftrightarrow> xs = ys)"

lemma unstructured_lawsD:
  assumes "unstructured_laws api"
  shows "SetNestedField api obj (JArr xs) (fieldSpec # fs) = Ok obj' \<Longrightarrow> NestedSlice api obj' (fieldSpec # fs) = Ok xs"
    and "SetNestedField api obj (JArr xs) (fieldSpec # fs) = Ok obj' \<Longrightarrow> GetAnnotations api obj' = GetAnnotations api obj"
    and "GetAnnotations api (SetAnnotations api obj m) = m"
    and "NestedSlice api (SetAnnotations api obj m) (fieldSpec # fs) = NestedSlice api obj (fieldSpec # fs)"
    and "DeepEqual api xs ys \<longleftrightarrow> xs = ys"
  using assms unfolding unstructured_laws_def by blast+

definition recordFor :: "'o unstructured_api \<Rightarrow> 'o \<Rightarrow> string \<Rightarrow> string option" where
  "recordFor api pool key = GetAnnotations api pool key"

definition setPoolAnnotation :: "'o unstructured_api \<Rightarrow> 'o \<Rightarrow> string \<Rightarrow> string \<Rightarrow> 'o" where
  "setPoolAnnotation api pool key v = SetAnnotations api pool ((GetAnnotations api pool)(key \<mapsto> v))"

text \<open>The clock's reading arrives as the formatted timestamp.\<close>

definition setLastSyncAnnotation :: "'o unstructured_api \<Rightarrow> string \<Rightarrow> 'o \<Rightarrow> 'o" where
  "setLastSyncAnnotation api now pool = setPoolAnnotation api pool AnnotationLastSync now"

subsection \<open>Synchronising one list\<close>

record ownedEntry =
  oe_value :: json
  oe_key :: string

record ownedListSync =
  ols_fields :: "string list"
  ols_recordKey :: string
  ols_desired :: "ownedEntry list"
  ols_keyOf :: "json \<Rightarrow> string"
  ols_owned :: "json \<Rightarrow> bool"

datatype sync_error = ReadFailed string | SetFailed string | UpdateFailed string

text \<open>The loop over the desired entries: without a key, repeated or pinned ones are left out.\<close>

fun select_entries :: "string set \<Rightarrow> string set \<Rightarrow> ownedEntry list \<Rightarrow> ownedEntry list" where
  "select_entries pinned seen [] = []"
| "select_entries pinned seen (e # es) =
     (if oe_key e = [] then select_entries pinned seen es
      else if oe_key e \<in> seen then select_entries pinned seen es
      else if oe_key e \<in> pinned then select_entries pinned (insert (oe_key e) seen) es
      else e # select_entries pinned (insert (oe_key e) seen) es)"

definition pinned_keys :: "(json \<Rightarrow> string) \<Rightarrow> json list \<Rightarrow> string set" where
  "pinned_keys keyOf items = set (List.filter (\<lambda>k. k \<noteq> []) (map keyOf items))"

text \<open>The result: whether the object was written, the error, and the object as the code left it.\<close>

definition syncOwnedList ::
  "'o unstructured_api \<Rightarrow> string \<Rightarrow> 'o \<Rightarrow> ownedListSync \<Rightarrow> bool \<times> sync_error option \<times> 'o" where
  "syncOwnedList api now pool spec =
     (case NestedSlice api pool (ols_fields spec) of
        Inl e \<Rightarrow> (False, Some (ReadFailed e), pool)
      | Inr existing \<Rightarrow>
          let preserved = List.filter (\<lambda>item. \<not> ols_owned spec item) existing;
              selected = select_entries (pinned_keys (ols_keyOf spec) preserved) {} (ols_desired spec);
              entries = preserved @ map oe_value selected;
              managedRecord = formatOwnershipRecord (map oe_key selected);
              entriesChanged = (\<not> DeepEqual api existing entries);
              recordChanged = (GetAnnotations api pool (ols_recordKey spec) \<noteq> Some managedRecord)
          in if \<not> entriesChanged \<and> \<not> recordChanged then (False, None, pool)
             else
               (case (if entriesChanged then SetNestedField api pool (JArr entries) (ols_fields spec) else Ok pool) of
                  Inl e \<Rightarrow> (False, Some (SetFailed e), pool)
                | Inr pool1 \<Rightarrow>
                    let pool2 = setPoolAnnotation api pool1 (ols_recordKey spec) managedRecord;
                        pool3 = setLastSyncAnnotation api now pool2
                    in (True, map_option UpdateFailed (UpdateObject api pool3), pool3)))"

text \<open>Handing a list back.\<close>

definition releaseRecordedSlice ::
  "'o unstructured_api \<Rightarrow> 'o \<Rightarrow> string \<Rightarrow> (json \<Rightarrow> string) \<Rightarrow> string list \<Rightarrow> bool \<times> sync_error option \<times> 'o" where
  "releaseRecordedSlice api pool recordKey keyOf path =
     (case GetAnnotations api pool recordKey of
        None \<Rightarrow> (False, None, pool)
      | Some recordValue \<Rightarrow>
          let r = parseOwnershipRecord (Some recordValue) in
          (case NestedSlice api pool path of
             Inl e \<Rightarrow> (False, Some (ReadFailed e), pool)
           | Inr existing \<Rightarrow>
               let kept = List.filter (\<lambda>item. \<not> (keyOf item \<noteq> [] \<and> owns r (keyOf item))) existing in
               (case SetNestedField api pool (JArr kept) path of
                  Inl e \<Rightarrow> (False, Some (SetFailed e), pool)
                | Inr pool1 \<Rightarrow>
                    (True, None, SetAnnotations api pool1 ((GetAnnotations api pool1)(recordKey := None))))))"

subsection \<open>The three backends\<close>

record poolConfiguration =
  cfg_useAddressRange :: bool
  cfg_start :: string
  cfg_end :: string
  cfg_cidr :: string

definition blockKeyOf :: "json \<Rightarrow> string" where
  "blockKeyOf item = (case item of JObj block \<Rightarrow> blockKey block | _ \<Rightarrow> [])"

definition stringKeyOf :: "json \<Rightarrow> string" where
  "stringKeyOf item = (case item of JStr s \<Rightarrow> s | _ \<Rightarrow> [])"

definition cidrKeyOf :: "json \<Rightarrow> string" where
  "cidrKeyOf existing = canonicalEntry (stringKeyOf existing)"

definition canonicalAddressEntry :: "string \<Rightarrow> string" where
  "canonicalAddressEntry entry0 =
     (let entry = TrimSpace entry0 in
      case Cut (CHR ''-'') entry of
        Some (startStr, endStr) \<Rightarrow>
          canonicalEntry (TrimSpace startStr) @ ''-'' @ canonicalEntry (TrimSpace endStr)
      | None \<Rightarrow> canonicalEntry entry)"

definition addressKeyOf :: "json \<Rightarrow> string" where
  "addressKeyOf existing = canonicalAddressEntry (stringKeyOf existing)"

definition is_range :: "poolConfiguration \<Rightarrow> bool" where
  "is_range c \<longleftrightarrow> cfg_useAddressRange c \<and> cfg_start c \<noteq> [] \<and> cfg_end c \<noteq> []"

definition block_entry :: "poolConfiguration \<Rightarrow> ownedEntry" where
  "block_entry c =
     (let block = (if is_range c then [''start'' \<mapsto> JStr (cfg_start c), ''stop'' \<mapsto> JStr (cfg_end c)]
                   else [''cidr'' \<mapsto> JStr (cfg_cidr c)])
      in \<lparr>oe_value = JObj block, oe_key = blockKey block\<rparr>)"

definition owned_block :: "ownershipRecord \<Rightarrow> ipprefix list \<Rightarrow> json \<Rightarrow> bool" where
  "owned_block r managed existing = (case existing of JObj block \<Rightarrow> isOwnedBlock block r managed | _ \<Rightarrow> False)"

definition updateLoadBalancerIPPool ::
  "'o unstructured_api \<Rightarrow> string \<Rightarrow> 'o \<Rightarrow> poolConfiguration list \<Rightarrow> ipprefix list \<Rightarrow> bool \<times> sync_error option \<times> 'o" where
  "updateLoadBalancerIPPool api now pool configs managed =
     (let r = parseOwnershipRecord (recordFor api pool AnnotationManagedBlocks) in
      syncOwnedList api now pool
        \<lparr>ols_fields = [fieldSpec, ''blocks''], ols_recordKey = AnnotationManagedBlocks,
         ols_desired = map block_entry configs, ols_keyOf = blockKeyOf, ols_owned = owned_block r managed\<rparr>)"

definition cidr_entry :: "poolConfiguration \<Rightarrow> ownedEntry" where
  "cidr_entry c = \<lparr>oe_value = JStr (cfg_cidr c), oe_key = canonicalEntry (cfg_cidr c)\<rparr>"

definition owned_cidr :: "ownershipRecord \<Rightarrow> ipprefix list \<Rightarrow> json \<Rightarrow> bool" where
  "owned_cidr r managed existing = (case existing of JStr cidr \<Rightarrow> isOwnedCIDR cidr r managed | _ \<Rightarrow> False)"

definition updateCIDRGroup ::
  "'o unstructured_api \<Rightarrow> string \<Rightarrow> 'o \<Rightarrow> poolConfiguration list \<Rightarrow> ipprefix list \<Rightarrow> bool \<times> sync_error option \<times> 'o" where
  "updateCIDRGroup api now pool configs managed =
     (let r = parseOwnershipRecord (recordFor api pool AnnotationManagedCIDRs) in
      syncOwnedList api now pool
        \<lparr>ols_fields = [fieldSpec, ''externalCIDRs''], ols_recordKey = AnnotationManagedCIDRs,
         ols_desired = map cidr_entry configs, ols_keyOf = cidrKeyOf, ols_owned = owned_cidr r managed\<rparr>)"

text \<open>The address arithmetic behind MetalLB's geometric fallback, over unbounded integers.\<close>

datatype big_error = UnsupportedIP | InvalidPrefixLength int int

definition addrToBigInt :: "addr \<Rightarrow> big_error + int \<times> int" where
  "addrToBigInt a =
     (case a of
        Addr4 w \<Rightarrow> Ok (uint w, 32)
      | Addr6 w z \<Rightarrow> Ok (uint (word_of_bytes (As16 a)), 128)
      | AddrZero \<Rightarrow> Err UnsupportedIP)"

definition bigIntToAddr :: "int \<Rightarrow> int \<Rightarrow> addr" where
  "bigIntToAddr v bitLen = (if bitLen = 32 then Addr4 (word_of_int v) else Addr6 (word_of_int v) [])"

definition lastAddrOfPrefix :: "ipprefix \<Rightarrow> big_error + addr" where
  "lastAddrOfPrefix p0 =
     (let p = Masked p0 in
      case addrToBigInt (pfx_ip p) of
        Inl e \<Rightarrow> Err e
      | Inr (base, bitLen) \<Rightarrow>
          let hostBits = bitLen - Bits p in
          if hostBits < 0 then Err (InvalidPrefixLength (Bits p) bitLen)
          else Ok (bigIntToAddr (base OR (2 ^ nat hostBits - 1)) bitLen))"

definition addressRangeWithinManaged :: "addr \<Rightarrow> addr \<Rightarrow> ipprefix list \<Rightarrow> bool" where
  "addressRangeWithinManaged start0 end0 managed =
     (let (start, ende) = (if Compare start0 end0 > 0 then (end0, start0) else (start0, end0)) in
      list_ex (\<lambda>mp.
        if Is4 (pfx_ip mp) \<noteq> Is4 start then False
        else (case lastAddrOfPrefix mp of
            Inl _ \<Rightarrow> False
          | Inr managedEnd \<Rightarrow>
              Compare start (pfx_ip (Masked mp)) \<ge> 0 \<and> Compare ende managedEnd \<le> 0)) managed)"

definition addrInManagedPrefixes :: "addr \<Rightarrow> ipprefix list \<Rightarrow> bool" where
  "addrInManagedPrefixes a managed = list_ex (\<lambda>mp. Contains mp a) managed"

definition isManagedAddressEntry :: "string \<Rightarrow> ipprefix list \<Rightarrow> bool" where
  "isManagedAddressEntry entry0 managed =
     (let entry = TrimSpace entry0 in
      if entry = [] then False
      else case Cut (CHR ''-'') entry of
        Some (startStr, endStr) \<Rightarrow>
          (case (ParseAddr (TrimSpace startStr), ParseAddr (TrimSpace endStr)) of
             (Inr start, Inr ende) \<Rightarrow>
               if Is4 start \<or> Is4 ende \<or> Is4 start \<noteq> Is4 ende then False
               else addressRangeWithinManaged start ende managed
           | _ \<Rightarrow> False)
      | None \<Rightarrow>
          (case netip_ParsePrefix entry of
             Inr p \<Rightarrow> if Is4 (pfx_ip p) then False else isPrefixSubsetOfManaged p managed
           | Inl _ \<Rightarrow>
               (case ParseAddr entry of
                  Inl _ \<Rightarrow> False
                | Inr a \<Rightarrow> if Is4 a then False else addrInManagedPrefixes a managed)))"

definition isOwnedAddressEntry :: "string \<Rightarrow> ownershipRecord \<Rightarrow> ipprefix list \<Rightarrow> bool" where
  "isOwnedAddressEntry entry r managed =
     (if \<not> rec_present r then isManagedAddressEntry entry managed
      else owns r (canonicalAddressEntry entry))"

definition address_text :: "poolConfiguration \<Rightarrow> string" where
  "address_text c = (if is_range c then cfg_start c @ ''-'' @ cfg_end c else cfg_cidr c)"

definition address_entries :: "poolConfiguration list \<Rightarrow> ownedEntry list" where
  "address_entries configs =
     map (\<lambda>t. \<lparr>oe_value = JStr t, oe_key = canonicalAddressEntry t\<rparr>)
       (List.filter (\<lambda>t. t \<noteq> []) (map address_text configs))"

definition owned_address :: "ownershipRecord \<Rightarrow> ipprefix list \<Rightarrow> json \<Rightarrow> bool" where
  "owned_address r managed existing =
     (case existing of JStr a \<Rightarrow> isOwnedAddressEntry a r managed | _ \<Rightarrow> False)"

definition updateIPAddressPool ::
  "'o unstructured_api \<Rightarrow> string \<Rightarrow> 'o \<Rightarrow> poolConfiguration list \<Rightarrow> ipprefix list \<Rightarrow> bool \<times> sync_error option \<times> 'o" where
  "updateIPAddressPool api now pool configs managed =
     (let r = parseOwnershipRecord (recordFor api pool AnnotationManagedAddresses) in
      syncOwnedList api now pool
        \<lparr>ols_fields = [fieldSpec, ''addresses''], ols_recordKey = AnnotationManagedAddresses,
         ols_desired = address_entries configs, ols_keyOf = addressKeyOf, ols_owned = owned_address r managed\<rparr>)"

text \<open>The backends that share a list with the user, by what they call.\<close>

datatype list_backend = CiliumLoadBalancerIPPool | CiliumCIDRGroup | MetalLBIPAddressPool

definition list_path :: "list_backend \<Rightarrow> string list" where
  "list_path b =
     (case b of CiliumLoadBalancerIPPool \<Rightarrow> [fieldSpec, ''blocks'']
      | CiliumCIDRGroup \<Rightarrow> [fieldSpec, ''externalCIDRs'']
      | MetalLBIPAddressPool \<Rightarrow> [fieldSpec, ''addresses''])"

definition list_record :: "list_backend \<Rightarrow> string" where
  "list_record b =
     (case b of CiliumLoadBalancerIPPool \<Rightarrow> AnnotationManagedBlocks
      | CiliumCIDRGroup \<Rightarrow> AnnotationManagedCIDRs
      | MetalLBIPAddressPool \<Rightarrow> AnnotationManagedAddresses)"

definition list_keyOf :: "list_backend \<Rightarrow> json \<Rightarrow> string" where
  "list_keyOf b =
     (case b of CiliumLoadBalancerIPPool \<Rightarrow> blockKeyOf
      | CiliumCIDRGroup \<Rightarrow> cidrKeyOf
      | MetalLBIPAddressPool \<Rightarrow> addressKeyOf)"

definition list_update ::
  "list_backend \<Rightarrow> 'o unstructured_api \<Rightarrow> string \<Rightarrow> 'o \<Rightarrow> poolConfiguration list \<Rightarrow> ipprefix list \<Rightarrow>
     bool \<times> sync_error option \<times> 'o" where
  "list_update b =
     (case b of CiliumLoadBalancerIPPool \<Rightarrow> updateLoadBalancerIPPool
      | CiliumCIDRGroup \<Rightarrow> updateCIDRGroup
      | MetalLBIPAddressPool \<Rightarrow> updateIPAddressPool)"

definition list_release :: "list_backend \<Rightarrow> 'o unstructured_api \<Rightarrow> 'o \<Rightarrow> bool \<times> sync_error option \<times> 'o" where
  "list_release b api pool = releaseRecordedSlice api pool (list_record b) (list_keyOf b) (list_path b)"

subsection \<open>The selection loop\<close>

lemma select_entries_keys:
  "oe_key ` set (select_entries pinned seen es) = oe_key ` set es - pinned - seen - {[]}"
  by (induction es arbitrary: seen) auto

lemma select_entries_subset: "set (select_entries pinned seen es) \<subseteq> set es"
  by (induction es arbitrary: seen) auto

lemma select_entries_distinct: "distinct (map oe_key (select_entries pinned seen es))"
proof (induction es arbitrary: seen)
  case (Cons e es)
  have "oe_key e \<notin> oe_key ` set (select_entries pinned (insert (oe_key e) seen) es)"
    unfolding select_entries_keys by simp
  with Cons show ?case
    by simp
qed simp

lemma length_select_entries: "length (select_entries pinned seen es) \<le> length es"
  by (induction es arbitrary: seen) (auto intro: le_SucI)

text \<open>What a pass that reports no error has left in the list and in the record.\<close>

lemma syncOwnedList_success:
  assumes laws: "unstructured_laws api" and sync: "syncOwnedList api now pool spec = (changed, None, pool')"
    and path: "ols_fields spec = [fieldSpec, f]" and key: "ols_recordKey spec \<noteq> AnnotationLastSync"
    and read: "NestedSlice api pool [fieldSpec, f] = Ok existing"
    and U: "U = List.filter (\<lambda>item. \<not> ols_owned spec item) existing"
    and S: "S = select_entries (pinned_keys (ols_keyOf spec) U) {} (ols_desired spec)"
  shows "NestedSlice api pool' [fieldSpec, f] = Ok (U @ map oe_value S) \<and>
     GetAnnotations api pool' (ols_recordKey spec) = Some (formatOwnershipRecord (map oe_key S))"
proof -
  note law = unstructured_lawsD [OF laws]
  let ?rec = "formatOwnershipRecord (map oe_key S)"
  let ?new = "U @ map oe_value S"
  let ?done = "\<lambda>o1. setLastSyncAnnotation api now (setPoolAnnotation api o1 (ols_recordKey spec) ?rec)"
  have step: "(if existing = ?new \<and> GetAnnotations api pool (ols_recordKey spec) = Some ?rec then (False, None, pool)
      else case (if existing = ?new then Ok pool else SetNestedField api pool (JArr ?new) [fieldSpec, f]) of
        Inl e \<Rightarrow> (False, Some (SetFailed e), pool)
      | Inr o1 \<Rightarrow> (True, map_option UpdateFailed (UpdateObject api (?done o1)), ?done o1)) = (changed, None, pool')"
    unfolding sync [symmetric] by (simp add: syncOwnedList_def path read law(5) Let_def U [symmetric] S [symmetric] split: sum.split)
  consider (same) "existing = ?new" "GetAnnotations api pool (ols_recordKey spec) = Some ?rec" "pool' = pool"
    | (written) pool1 where "NestedSlice api pool1 [fieldSpec, f] = Ok ?new" "pool' = ?done pool1"
  proof (cases "existing = ?new")
    case True
    with step that read show ?thesis
      by (fastforce split: if_splits)
  next
    case False
    with step obtain pool1 where "SetNestedField api pool (JArr ?new) [fieldSpec, f] = Ok pool1" "pool' = ?done pool1"
      by (auto split: sum.splits)
    with that(2) law(1) show ?thesis
      by blast
  qed
  then show ?thesis
  proof cases
    case same
    with read show ?thesis
      by simp
  next
    case (written pool1)
    with key show ?thesis
      by (simp add: setPoolAnnotation_def setLastSyncAnnotation_def law(3,4))
  qed
qed

subsection \<open>What syncOwnedList expects of a backend\<close>

text \<open>
  The configurations the operator computes: text that survives the annotation.
\<close>

definition config_text :: "poolConfiguration \<Rightarrow> bool" where
  "config_text c \<longleftrightarrow> record_text (cfg_start c) \<and> record_text (cfg_end c) \<and> record_text (cfg_cidr c)"

text \<open>
  The contract: the key the backend writes is the key it reads, keys are canonical, computed keys
  fit the record, and with a record present ownership is membership of the key in it.
\<close>

locale owned_list_backend =
  fixes field :: string and recordKey :: string and keyOf :: "json \<Rightarrow> string"
    and owned :: "ownershipRecord \<Rightarrow> ipprefix list \<Rightarrow> json \<Rightarrow> bool"
    and entries_of :: "poolConfiguration list \<Rightarrow> ownedEntry list"
  assumes key_of_entry: "e \<in> set (entries_of configs) \<Longrightarrow> keyOf (oe_value e) = oe_key e"
    and key_canonical: "CHR ''%'' \<notin> set (keyOf item) \<Longrightarrow> canonicalEntry (keyOf item) = keyOf item"
    and key_text: "\<forall>c \<in> set configs. config_text c \<Longrightarrow> e \<in> set (entries_of configs) \<Longrightarrow> record_text (oe_key e)"
    and owned_by_record: "rec_present r \<Longrightarrow> [] \<notin> rec_entries r \<Longrightarrow>
      owned r managed item \<longleftrightarrow> keyOf item \<noteq> [] \<and> owns r (keyOf item)"
    and not_last_sync: "recordKey \<noteq> AnnotationLastSync"
begin

text \<open>The list after a successful pass: the user's entries \<open>U\<close>, then the operator's \<open>S\<close>.\<close>

definition holds :: "'o unstructured_api \<Rightarrow> 'o \<Rightarrow> json list \<Rightarrow> ownedEntry list \<Rightarrow> bool" where
  "holds api pool U S \<longleftrightarrow>
     NestedSlice api pool [fieldSpec, field] = Ok (U @ map oe_value S) \<and>
     GetAnnotations api pool recordKey = Some (formatOwnershipRecord (map oe_key S)) \<and>
     distinct (map oe_key S) \<and>
     (\<forall>e \<in> set S. recordable (oe_key e) \<and> keyOf (oe_value e) = oe_key e \<and> oe_key e \<notin> keyOf ` set U)"

definition sync_spec :: "'o unstructured_api \<Rightarrow> 'o \<Rightarrow> poolConfiguration list \<Rightarrow> ipprefix list \<Rightarrow> ownedListSync" where
  "sync_spec api pool configs managed =
     \<lparr>ols_fields = [fieldSpec, field], ols_recordKey = recordKey, ols_desired = entries_of configs, ols_keyOf = keyOf,
      ols_owned = owned (parseOwnershipRecord (recordFor api pool recordKey)) managed\<rparr>"

lemma owned_iff_recorded:
  assumes "\<forall>e \<in> set S. recordable (oe_key e) \<and> keyOf (oe_value e) = oe_key e"
  shows "keyOf item \<noteq> [] \<and> owns (parseOwnershipRecord (Some (formatOwnershipRecord (map oe_key S)))) (keyOf item) \<longleftrightarrow>
     keyOf item \<in> oe_key ` set S"
proof -
  have "canonicalEntry (oe_key e) = oe_key e" if "e \<in> set S" for e
    using assms that key_canonical [of "oe_value e"] by (auto simp: recordable_def record_text_def)
  then have "owns (parseOwnershipRecord (Some (formatOwnershipRecord (map oe_key S)))) (keyOf item) \<longleftrightarrow>
      keyOf item \<in> set (map oe_key S)"
    using assms key_canonical by (intro owns_recorded) auto
  moreover have "keyOf item \<noteq> []" if "keyOf item \<in> oe_key ` set S"
    using assms that by (auto simp: recordable_def)
  ultimately show ?thesis
    by auto
qed

text \<open>Filtering by the record splits the list where the last pass joined it.\<close>

lemma keep_unrecorded:
  assumes "holds api pool U S"
  shows "List.filter (\<lambda>item. \<not> (keyOf item \<noteq> [] \<and>
      owns (parseOwnershipRecord (Some (formatOwnershipRecord (map oe_key S)))) (keyOf item))) (U @ map oe_value S) = U"
proof -
  have S: "\<forall>e \<in> set S. recordable (oe_key e) \<and> keyOf (oe_value e) = oe_key e"
    and disj: "\<forall>e \<in> set S. oe_key e \<notin> keyOf ` set U"
    using assms by (auto simp: holds_def)
  have "List.filter (\<lambda>item. keyOf item \<notin> oe_key ` set S) U = U"
    using disj by (force simp: filter_id_conv)
  moreover have "List.filter (\<lambda>item. keyOf item \<notin> oe_key ` set S) (map oe_value S) = []"
    using S by (auto simp: filter_empty_conv)
  ultimately show ?thesis
    unfolding owned_iff_recorded [OF S] by simp
qed

lemma keep_unowned:
  assumes "holds api pool U S"
  shows "List.filter (\<lambda>item. \<not> owned (parseOwnershipRecord (recordFor api pool recordKey)) managed item)
      (U @ map oe_value S) = U"
proof -
  have "recordFor api pool recordKey = Some (formatOwnershipRecord (map oe_key S))"
    using assms by (simp add: holds_def recordFor_def)
  then show ?thesis
    using keep_unrecorded [OF assms] by (simp add: owned_by_record)
qed

text \<open>One successful pass over any list.\<close>

lemma sync_success:
  assumes laws: "unstructured_laws api" and configs: "\<forall>c \<in> set configs. config_text c"
    and read: "NestedSlice api pool [fieldSpec, field] = Ok existing"
    and sync: "syncOwnedList api now pool (sync_spec api pool configs managed) = (changed, None, pool')"
  defines "U \<equiv> List.filter (\<lambda>item. \<not> owned (parseOwnershipRecord (recordFor api pool recordKey)) managed item) existing"
  shows "holds api pool' U (select_entries (pinned_keys keyOf U) {} (entries_of configs))"
proof -
  let ?S = "select_entries (pinned_keys keyOf U) {} (entries_of configs)"
  have list: "NestedSlice api pool' [fieldSpec, field] = Ok (U @ map oe_value ?S) \<and>
      GetAnnotations api pool' recordKey = Some (formatOwnershipRecord (map oe_key ?S))"
    using syncOwnedList_success [OF laws sync, of field existing U ?S] read not_last_sync
    by (simp add: sync_spec_def U_def)
  have keys: "oe_key ` set ?S = oe_key ` set (entries_of configs) - pinned_keys keyOf U - {[]}"
    by (simp add: select_entries_keys)
  have "recordable (oe_key e) \<and> keyOf (oe_value e) = oe_key e \<and> oe_key e \<notin> keyOf ` set U" if "e \<in> set ?S" for e
  proof -
    have e: "e \<in> set (entries_of configs)"
      using that select_entries_subset by blast
    moreover have "oe_key e \<in> oe_key ` set (entries_of configs) - pinned_keys keyOf U - {[]}"
      using that unfolding keys [symmetric] by simp
    ultimately show ?thesis
      using key_of_entry key_text [OF configs e] by (auto simp: recordable_def pinned_keys_def)
  qed
  then show ?thesis
    using list select_entries_distinct by (auto simp: holds_def)
qed

lemma sync_again:
  assumes "unstructured_laws api" and "\<forall>c \<in> set configs. config_text c" and "holds api pool U S"
    and "syncOwnedList api now pool (sync_spec api pool configs managed) = (changed, None, pool')"
  shows "holds api pool' U (select_entries (pinned_keys keyOf U) {} (entries_of configs))"
proof -
  have read: "NestedSlice api pool [fieldSpec, field] = Ok (U @ map oe_value S)"
    using assms(3) by (simp add: holds_def)
  show ?thesis
    using sync_success [OF assms(1,2) read assms(4)] keep_unowned [OF assms(3), of managed] by simp
qed

text \<open>A pass that finds its own result writes nothing.\<close>

lemma sync_settled:
  assumes laws: "unstructured_laws api" and held: "holds api pool U S"
    and S: "S = select_entries (pinned_keys keyOf U) {} (entries_of configs)"
  shows "syncOwnedList api now pool (sync_spec api pool configs managed) = (False, None, pool)"
proof -
  have read: "NestedSlice api pool [fieldSpec, field] = Ok (U @ map oe_value S)"
    and rec: "GetAnnotations api pool recordKey = Some (formatOwnershipRecord (map oe_key S))"
    using held by (simp_all add: holds_def)
  let ?spec = "sync_spec api pool configs managed"
  have "List.filter (\<lambda>item. \<not> ols_owned ?spec item) (U @ map oe_value S) = U"
    using keep_unowned [OF held, of managed] by (simp add: sync_spec_def)
  moreover have "ols_fields ?spec = [fieldSpec, field]" "ols_recordKey ?spec = recordKey"
    "ols_keyOf ?spec = keyOf" "ols_desired ?spec = entries_of configs"
    by (simp_all add: sync_spec_def)
  ultimately show ?thesis
    using read rec unstructured_lawsD(5) [OF laws] by (simp add: syncOwnedList_def Let_def S [symmetric] del: filter_append)
qed

text \<open>Handing the list back.\<close>

lemma release_gives_back:
  assumes "unstructured_laws api" and "holds api pool U S"
    and "releaseRecordedSlice api pool recordKey keyOf [fieldSpec, field] = (changed, None, pool')"
  shows "changed \<and> NestedSlice api pool' [fieldSpec, field] = Ok U \<and> GetAnnotations api pool' = (GetAnnotations api pool)(recordKey := None)"
proof -
  note law = unstructured_lawsD [OF assms(1)]
  have read: "NestedSlice api pool [fieldSpec, field] = Ok (U @ map oe_value S)"
    and rec: "GetAnnotations api pool recordKey = Some (formatOwnershipRecord (map oe_key S))"
    using assms(2) by (auto simp: holds_def)
  obtain pool1 where set: "SetNestedField api pool (JArr U) [fieldSpec, field] = Ok pool1"
    and pool': "changed" "pool' = SetAnnotations api pool1 ((GetAnnotations api pool1)(recordKey := None))"
    using assms(3) keep_unrecorded [OF assms(2)]
    by (auto simp: releaseRecordedSlice_def read rec Let_def split: sum.splits)
  then show ?thesis
    using law(1,2) [OF set] law(3,4) by simp
qed

end

subsection \<open>The backends meet the contract\<close>

lemma canonicalEntry_Nil [simp]: "canonicalEntry [] = []"
  by simp

lemma str_field_upd [simp]:
  "str_field [''cidr'' \<mapsto> JStr c] ''cidr'' = Some c"
  "str_field [''start'' \<mapsto> JStr x, ''stop'' \<mapsto> JStr y] ''cidr'' = None"
  "str_field [''start'' \<mapsto> JStr x, ''stop'' \<mapsto> JStr y] ''start'' = Some x"
  "str_field [''start'' \<mapsto> JStr x, ''stop'' \<mapsto> JStr y] ''stop'' = Some y"
  by (simp_all add: str_field_def)

lemma blockKey_cases:
  obtains x where "blockKey block = ''cidr='' @ x" | x where "blockKey block = ''range='' @ x" | "blockKey block = []"
proof -
  define cidr start stop where "cidr = (case str_field block ''cidr'' of None \<Rightarrow> [] | Some s \<Rightarrow> s)"
    and "start = (case str_field block ''start'' of None \<Rightarrow> [] | Some s \<Rightarrow> s)"
    and "stop = (case str_field block ''stop'' of None \<Rightarrow> [] | Some s \<Rightarrow> s)"
  then show ?thesis
    using that by (cases "cidr = []"; cases "start = []"; cases "stop = []") (simp_all add: blockKey_def)
qed

lemma blockKey_canonical: "canonicalEntry (blockKey block) = blockKey block"
proof (cases block rule: blockKey_cases)
  case (1 x)
  then show ?thesis
    using canonicalEntry_other [of "CHR ''=''" "''cidr=''" x] by simp
next
  case (2 x)
  then show ?thesis
    using canonicalEntry_other [of "CHR ''=''" "''range=''" x] by simp
qed simp

lemma record_text_literals [simp]: "record_text ''cidr=''" "record_text ''range=''" "record_text ''-''" "record_text []"
  by (simp_all add: record_text_def)

lemma record_text_blockKey:
  assumes "config_text c"
  shows "record_text (oe_key (block_entry c))"
proof -
  have texts: "record_text (canonicalEntry (cfg_cidr c))" "record_text (canonicalEntry (cfg_start c))"
    "record_text (canonicalEntry (cfg_end c))"
    using assms by (auto simp: config_text_def intro: record_text_canonicalEntry)
  have "oe_key (block_entry c) \<in>
    {''cidr='' @ canonicalEntry (cfg_cidr c), [],
     ''range='' @ canonicalEntry (cfg_start c) @ ''-'' @ canonicalEntry (cfg_end c)}"
    by (cases "is_range c"; cases "cfg_cidr c = []")
      (simp_all add: block_entry_def blockKey_def, simp_all add: is_range_def str_field_def)
  moreover have "record_text (''cidr='' @ canonicalEntry (cfg_cidr c))"
    "record_text (''range='' @ canonicalEntry (cfg_start c) @ ''-'' @ canonicalEntry (cfg_end c))"
    unfolding record_text_append using texts by simp_all
  ultimately show ?thesis
    by auto
qed

interpretation block_list: owned_list_backend "''blocks''" AnnotationManagedBlocks blockKeyOf owned_block "map block_entry"
proof
  fix e configs assume "e \<in> set (map block_entry configs)"
  then show "blockKeyOf (oe_value e) = oe_key e"
    by (auto simp: block_entry_def blockKeyOf_def Let_def)
next
  fix item
  show "canonicalEntry (blockKeyOf item) = blockKeyOf item"
    by (auto simp: blockKeyOf_def blockKey_canonical split: json.split)
next
  fix configs :: "poolConfiguration list" and e
  assume "\<forall>c \<in> set configs. config_text c" "e \<in> set (map block_entry configs)"
  then show "record_text (oe_key e)"
    by (auto intro: record_text_blockKey)
next
  fix r :: ownershipRecord and managed item assume "rec_present r"
  then show "owned_block r managed item \<longleftrightarrow> blockKeyOf item \<noteq> [] \<and> owns r (blockKeyOf item)"
    by (auto simp: owned_block_def blockKeyOf_def isOwnedBlock_def Let_def split: json.split)
qed (simp add: AnnotationManagedBlocks_def AnnotationLastSync_def)

interpretation cidr_list: owned_list_backend "''externalCIDRs''" AnnotationManagedCIDRs cidrKeyOf owned_cidr "map cidr_entry"
proof
  fix e configs assume "e \<in> set (map cidr_entry configs)"
  then show "cidrKeyOf (oe_value e) = oe_key e"
    by (auto simp: cidr_entry_def cidrKeyOf_def stringKeyOf_def)
next
  fix item
  show "canonicalEntry (cidrKeyOf item) = cidrKeyOf item"
    by (simp add: cidrKeyOf_def)
next
  fix configs :: "poolConfiguration list" and e
  assume "\<forall>c \<in> set configs. config_text c" "e \<in> set (map cidr_entry configs)"
  then show "record_text (oe_key e)"
    by (auto simp: cidr_entry_def config_text_def intro!: record_text_canonicalEntry)
next
  fix r :: ownershipRecord and managed item assume "rec_present r" "[] \<notin> rec_entries r"
  then show "owned_cidr r managed item \<longleftrightarrow> cidrKeyOf item \<noteq> [] \<and> owns r (cidrKeyOf item)"
    by (cases item) (auto simp: owned_cidr_def cidrKeyOf_def stringKeyOf_def isOwnedCIDR_def owns_def)
qed (simp add: AnnotationManagedCIDRs_def AnnotationLastSync_def)

lemma canonicalAddressEntry_canonical:
  assumes "CHR ''%'' \<notin> set (canonicalAddressEntry s)"
  shows "canonicalEntry (canonicalAddressEntry s) = canonicalAddressEntry s"
proof (cases "Cut (CHR ''-'') (TrimSpace s)")
  case None
  then show ?thesis
    by (simp add: canonicalAddressEntry_def Let_def)
next
  case (Some xy)
  then obtain x y where key: "canonicalAddressEntry s = canonicalEntry x @ ''-'' @ canonicalEntry y"
    by (cases xy) (auto simp: canonicalAddressEntry_def Let_def)
  then have "CHR ''-'' \<in> set (canonicalAddressEntry s)"
    by simp
  then show ?thesis
    using assms by (intro canonicalEntry_foreign) auto
qed

lemma record_text_canonicalAddressEntry:
  assumes "record_text s"
  shows "record_text (canonicalAddressEntry s)"
proof -
  have s: "TrimSpace s = s"
    using assms by (simp add: record_text_def)
  show ?thesis
  proof (cases "Cut (CHR ''-'') s")
    case None
    with s assms show ?thesis
      by (simp add: canonicalAddressEntry_def record_text_canonicalEntry)
  next
    case (Some xy)
    then obtain x y where xy: "Cut (CHR ''-'') s = Some (x, y)"
      by (cases xy) auto
    then have "record_text x" "record_text y"
      using Cut_SomeD [OF xy] assms record_text_append [of x "''-'' @ y"] record_text_append [of "''-''" y] by auto
    moreover from this have "record_text (canonicalEntry x @ ''-'' @ canonicalEntry y)"
      unfolding record_text_append by (simp add: record_text_canonicalEntry)
    ultimately have "record_text (canonicalEntry x @ ''-'' @ canonicalEntry y)" "TrimSpace x = x" "TrimSpace y = y"
      by (simp_all add: record_text_def)
    with s xy show ?thesis
      by (simp add: canonicalAddressEntry_def)
  qed
qed

lemma address_text_record:
  assumes "config_text c"
  shows "record_text (address_text c)"
proof -
  have "record_text (cfg_start c @ ''-'' @ cfg_end c)"
    unfolding record_text_append using assms by (simp add: config_text_def)
  with assms show ?thesis
    by (simp add: address_text_def config_text_def)
qed

interpretation address_list:
  owned_list_backend "''addresses''" AnnotationManagedAddresses addressKeyOf owned_address address_entries
proof
  fix e configs assume "e \<in> set (address_entries configs)"
  then show "addressKeyOf (oe_value e) = oe_key e"
    by (auto simp: address_entries_def addressKeyOf_def stringKeyOf_def)
next
  fix item assume "CHR ''%'' \<notin> set (addressKeyOf item)"
  then show "canonicalEntry (addressKeyOf item) = addressKeyOf item"
    by (simp add: addressKeyOf_def canonicalAddressEntry_canonical)
next
  fix configs :: "poolConfiguration list" and e
  assume "\<forall>c \<in> set configs. config_text c" "e \<in> set (address_entries configs)"
  then show "record_text (oe_key e)"
    by (auto simp: address_entries_def intro!: record_text_canonicalAddressEntry address_text_record)
next
  fix r :: ownershipRecord and managed item assume "rec_present r" "[] \<notin> rec_entries r"
  moreover have "canonicalAddressEntry [] = []"
    by (simp add: canonicalAddressEntry_def)
  ultimately show "owned_address r managed item \<longleftrightarrow> addressKeyOf item \<noteq> [] \<and> owns r (addressKeyOf item)"
    by (cases item) (auto simp: owned_address_def addressKeyOf_def stringKeyOf_def isOwnedAddressEntry_def owns_def)
qed (simp add: AnnotationManagedAddresses_def AnnotationLastSync_def)

subsection \<open>All three backends\<close>

definition list_owned :: "list_backend \<Rightarrow> ownershipRecord \<Rightarrow> ipprefix list \<Rightarrow> json \<Rightarrow> bool" where
  "list_owned b =
     (case b of CiliumLoadBalancerIPPool \<Rightarrow> owned_block
      | CiliumCIDRGroup \<Rightarrow> owned_cidr
      | MetalLBIPAddressPool \<Rightarrow> owned_address)"

definition list_entries :: "list_backend \<Rightarrow> poolConfiguration list \<Rightarrow> ownedEntry list" where
  "list_entries b =
     (case b of CiliumLoadBalancerIPPool \<Rightarrow> map block_entry
      | CiliumCIDRGroup \<Rightarrow> map cidr_entry
      | MetalLBIPAddressPool \<Rightarrow> address_entries)"

text \<open>What a list shared with the user entries \<open>U\<close> should hold for the configurations \<open>cs\<close>.\<close>

definition operator_entries :: "list_backend \<Rightarrow> json list \<Rightarrow> poolConfiguration list \<Rightarrow> ownedEntry list" where
  "operator_entries b U cs = select_entries (pinned_keys (list_keyOf b) U) {} (list_entries b cs)"

definition user_entries :: "list_backend \<Rightarrow> 'o unstructured_api \<Rightarrow> 'o \<Rightarrow> ipprefix list \<Rightarrow> json list \<Rightarrow> json list" where
  "user_entries b api pool managed existing =
     List.filter (\<lambda>item. \<not> list_owned b (parseOwnershipRecord (recordFor api pool (list_record b))) managed item) existing"

definition shared_list :: "list_backend \<Rightarrow> 'o unstructured_api \<Rightarrow> 'o \<Rightarrow> json list \<Rightarrow> poolConfiguration list \<Rightarrow> bool" where
  "shared_list b api pool U cs \<longleftrightarrow>
     NestedSlice api pool (list_path b) = Ok (U @ map oe_value (operator_entries b U cs)) \<and>
     GetAnnotations api pool (list_record b) = Some (formatOwnershipRecord (map oe_key (operator_entries b U cs))) \<and>
     (\<forall>e \<in> set (operator_entries b U cs). recordable (oe_key e))"

lemmas list_defs = list_path_def list_record_def list_keyOf_def list_owned_def list_entries_def list_update_def
  updateLoadBalancerIPPool_def updateCIDRGroup_def updateIPAddressPool_def

lemma operator_entries_key:
  "e \<in> set (operator_entries b U cs) \<Longrightarrow> list_keyOf b (oe_value e) = oe_key e \<and> oe_key e \<notin> list_keyOf b ` set U"
proof -
  assume e: "e \<in> set (operator_entries b U cs)"
  then have "e \<in> set (list_entries b cs)"
    using select_entries_subset by (auto simp: operator_entries_def)
  moreover have "oe_key e \<notin> pinned_keys (list_keyOf b) U" "oe_key e \<noteq> []"
    using e select_entries_keys [of "pinned_keys (list_keyOf b) U" "{}" "list_entries b cs"]
    by (auto simp: operator_entries_def)
  ultimately show ?thesis
    using block_list.key_of_entry cidr_list.key_of_entry address_list.key_of_entry
    by (cases b) (auto simp: list_defs pinned_keys_def)
qed

lemma shared_list_holds:
  "shared_list CiliumLoadBalancerIPPool api pool U cs \<longleftrightarrow>
     block_list.holds api pool U (operator_entries CiliumLoadBalancerIPPool U cs)"
  "shared_list CiliumCIDRGroup api pool U cs \<longleftrightarrow> cidr_list.holds api pool U (operator_entries CiliumCIDRGroup U cs)"
  "shared_list MetalLBIPAddressPool api pool U cs \<longleftrightarrow>
     address_list.holds api pool U (operator_entries MetalLBIPAddressPool U cs)"
  using operator_entries_key [of _ CiliumLoadBalancerIPPool U cs] operator_entries_key [of _ CiliumCIDRGroup U cs]
    operator_entries_key [of _ MetalLBIPAddressPool U cs]
  by (auto simp: shared_list_def block_list.holds_def cidr_list.holds_def address_list.holds_def operator_entries_def
      list_defs select_entries_distinct)

lemmas list_specs = block_list.sync_spec_def cidr_list.sync_spec_def address_list.sync_spec_def

lemma list_update_success:
  assumes "unstructured_laws api" and "\<forall>c \<in> set configs. config_text c"
    and "NestedSlice api pool (list_path b) = Ok existing"
    and "list_update b api now pool configs managed = (changed, None, pool')"
  shows "shared_list b api pool' (user_entries b api pool managed existing) configs"
  using assms block_list.sync_success [OF assms(1,2), of pool existing now managed changed pool']
    cidr_list.sync_success [OF assms(1,2), of pool existing now managed changed pool']
    address_list.sync_success [OF assms(1,2), of pool existing now managed changed pool']
  by (cases b) (simp_all add: shared_list_holds list_specs list_defs operator_entries_def user_entries_def)

lemma list_update_again:
  assumes "unstructured_laws api" and "\<forall>c \<in> set configs. config_text c" and "shared_list b api pool U cs"
    and "list_update b api now pool configs managed = (changed, None, pool')"
  shows "shared_list b api pool' U configs"
  using assms block_list.sync_again [OF assms(1,2), of pool U "operator_entries b U cs" now managed changed pool']
    cidr_list.sync_again [OF assms(1,2), of pool U "operator_entries b U cs" now managed changed pool']
    address_list.sync_again [OF assms(1,2), of pool U "operator_entries b U cs" now managed changed pool']
  by (cases b) (simp_all add: shared_list_holds list_specs list_defs operator_entries_def)

lemma list_update_settled:
  assumes "unstructured_laws api" and "shared_list b api pool U configs"
  shows "list_update b api now pool configs managed = (False, None, pool)"
  using assms block_list.sync_settled [OF assms(1), of pool U "operator_entries b U configs" configs now managed]
    cidr_list.sync_settled [OF assms(1), of pool U "operator_entries b U configs" configs now managed]
    address_list.sync_settled [OF assms(1), of pool U "operator_entries b U configs" configs now managed]
  by (cases b) (simp_all add: shared_list_holds list_specs list_defs operator_entries_def)

lemma list_release_gives_back:
  assumes "unstructured_laws api" and "shared_list b api pool U configs"
    and "list_release b api pool = (changed, None, pool')"
  shows "changed \<and> NestedSlice api pool' (list_path b) = Ok U \<and>
     GetAnnotations api pool' = (GetAnnotations api pool)(list_record b := None)"
  using assms block_list.release_gives_back [OF assms(1), of pool U "operator_entries b U configs" changed pool']
    cidr_list.release_gives_back [OF assms(1), of pool U "operator_entries b U configs" changed pool']
    address_list.release_gives_back [OF assms(1), of pool U "operator_entries b U configs" changed pool']
  by (cases b) (simp_all add: shared_list_holds list_release_def list_defs)

text \<open>
  A reconcile pass as the cluster sees it: the object it leaves and the configurations of the last
  pass that went through.  A pass that fails leaves the stored object alone.
\<close>

definition pass ::
  "list_backend \<Rightarrow> 'o unstructured_api \<Rightarrow> string \<times> poolConfiguration list \<times> ipprefix list \<Rightarrow>
     'o \<times> poolConfiguration list \<Rightarrow> 'o \<times> poolConfiguration list" where
  "pass b api p st =
     (case p of (now, configs, managed) \<Rightarrow>
       (case list_update b api now (fst st) configs managed of
          (_, None, pool') \<Rightarrow> (pool', configs)
        | (_, Some _, _) \<Rightarrow> st))"

lemma pass_shared_list:
  assumes "unstructured_laws api" and "\<forall>c \<in> set (fst (snd p)). config_text c" and "shared_list b api (fst st) U (snd st)"
  shows "shared_list b api (fst (pass b api p st)) U (snd (pass b api p st))"
proof -
  obtain now configs managed where p: "p = (now, configs, managed)"
    by (cases p) auto
  show ?thesis
    using assms list_update_again [OF assms(1), of configs b "fst st" U "snd st" now managed]
    by (auto simp: pass_def p split: option.splits prod.splits)
qed

lemma passes_shared_list:
  assumes "unstructured_laws api" and "\<forall>p \<in> set passes. \<forall>c \<in> set (fst (snd p)). config_text c"
    and "shared_list b api (fst st) U (snd st)"
  shows "shared_list b api (fst (fold (pass b api) passes st)) U (snd (fold (pass b api) passes st))"
  using assms(2,3)
proof (induction passes arbitrary: st)
  case (Cons p passes)
  then show ?case
    using pass_shared_list [OF assms(1), of p b st U] by simp
qed simp

lemma length_operator_entries: "length (operator_entries b U cs) \<le> length cs"
proof -
  have "length (list_entries b cs) \<le> length cs"
    using length_filter_le [of "\<lambda>t. t \<noteq> []" "map address_text cs"]
    by (cases b) (simp_all add: list_entries_def address_entries_def)
  then show ?thesis
    using length_select_entries [of _ _ "list_entries b cs"] by (fastforce simp: operator_entries_def intro: order_trans)
qed

text \<open>
  A concrete object store, to run the operations on: lists by path beside the annotations.
\<close>

definition sample_api :: "((string list \<Rightarrow> json list) \<times> annotations) unstructured_api" where
  "sample_api =
     \<lparr>NestedSlice = (\<lambda>obj path. Ok (fst obj path)),
      SetNestedField = (\<lambda>obj v path. case v of JArr xs \<Rightarrow> Ok ((fst obj)(path := xs), snd obj) | _ \<Rightarrow> Err ''not a list''),
      GetAnnotations = snd,
      SetAnnotations = (\<lambda>obj m. (fst obj, m)),
      DeepEqual = (=),
      UpdateObject = (\<lambda>_. None)\<rparr>"

lemma sample_laws: "unstructured_laws sample_api"
  by (auto simp: unstructured_laws_def sample_api_def)

lemma sample_update: "\<exists>changed pool'. list_update b sample_api now pool configs managed = (changed, None, pool')"
  by (cases b) (auto simp: list_defs syncOwnedList_def sample_api_def Let_def)

lemma sample_release: "\<exists>changed pool'. list_release b sample_api pool = (changed, None, pool')"
  by (cases "GetAnnotations sample_api pool (list_record b)")
    (auto simp: list_release_def releaseRecordedSlice_def sample_api_def Let_def)

text \<open>A delegated network, its successor, and an IPv4 network of the user's, as the fields carry them.\<close>

definition net1 :: ipprefix where "net1 = PrefixFrom (Addr6 0x20010DB8000100000000000000000000 []) 64"
definition net2 :: ipprefix where "net2 = PrefixFrom (Addr6 0x20010DB8000200000000000000000000 []) 64"
definition user_net :: ipprefix where "user_net = PrefixFrom (Addr4 0xC0000200) 24"

definition net_config :: "ipprefix \<Rightarrow> poolConfiguration" where
  "net_config p = \<lparr>cfg_useAddressRange = False, cfg_start = [], cfg_end = [], cfg_cidr = PrefixString p\<rparr>"

lemma sample_nets [simp]:
  "wf_prefix net1" "IsValid net1" "wf_prefix net2" "IsValid net2" "wf_prefix user_net" "IsValid user_net"
  "PrefixString net1 \<noteq> PrefixString net2" "PrefixString user_net \<noteq> PrefixString net1"
  "PrefixString user_net \<noteq> PrefixString net2" "PrefixString net2 \<noteq> PrefixString user_net"
  "PrefixString net1 \<noteq> []" "PrefixString net2 \<noteq> []" "PrefixString user_net \<noteq> []"
proof -
  show wf: "wf_prefix net1" "IsValid net1" "wf_prefix net2" "IsValid net2" "wf_prefix user_net" "IsValid user_net"
    by (simp_all add: net1_def net2_def user_net_def) (simp add: IsValid_def PrefixFrom_def BitLen_def)
  show "PrefixString net1 \<noteq> PrefixString net2" "PrefixString user_net \<noteq> PrefixString net1"
    "PrefixString user_net \<noteq> PrefixString net2" "PrefixString net2 \<noteq> PrefixString user_net"
    by (simp_all add: PrefixString_inj wf) (simp_all add: net1_def net2_def user_net_def PrefixFrom_def WithZone_def)
  show "PrefixString net1 \<noteq> []" "PrefixString net2 \<noteq> []" "PrefixString user_net \<noteq> []"
    using wf by (simp_all add: PrefixString_def)
qed

definition sample_pool_object :: "(string list \<Rightarrow> json list) \<times> annotations" where
  "sample_pool_object = (\<lambda>_. [JStr (PrefixString user_net), JStr (PrefixString net1)], Map.empty)"

lemma sample_user_entries:
  "user_entries CiliumCIDRGroup sample_api sample_pool_object [net1] [JStr (PrefixString user_net), JStr (PrefixString net1)] =
     [JStr (PrefixString user_net)]"
proof -
  have "Contains net1 (pfx_ip net1)" "\<not> Contains net1 (pfx_ip user_net)"
    by (simp_all add: net1_def user_net_def Contains_def Zone_def)
      (simp_all add: PrefixFrom_def WithZone_def Contains_def Zone_def)
  then show ?thesis
    by (simp add: user_entries_def recordFor_def sample_api_def sample_pool_object_def list_defs owned_cidr_def
        isOwnedCIDR_def ParsePrefix_PrefixString isPrefixSubsetOfManaged_def)
qed

lemma sample_operator_entries:
  "map oe_value (operator_entries CiliumCIDRGroup [JStr (PrefixString user_net)] [net_config net2]) = [JStr (PrefixString net2)]"
  by (simp add: operator_entries_def list_defs cidr_entry_def net_config_def pinned_keys_def cidrKeyOf_def stringKeyOf_def)

lemma config_text_net: "wf_prefix p \<Longrightarrow> IsValid p \<Longrightarrow> config_text (net_config p)"
  by (simp add: config_text_def net_config_def)

subsection \<open>Properties\<close>

text \<open>
  C2: Rotations leave nothing behind.  After a first pass that went through and any number of later
  ones, each for other prefixes and any of them failing, a shared list holds the entries that were
  the user's, untouched and in order, followed by those of the last pass that went through alone;
  the record names exactly the latter.  So the list never grows beyond what is configured now.
\<close>

theorem rotation_leaves_nothing_behind:
  assumes "unstructured_laws api" and "\<forall>p \<in> set ((now, configs, managed) # passes). \<forall>c \<in> set (fst (snd p)). config_text c"
    and "NestedSlice api pool (list_path b) = Ok existing"
    and "list_update b api now pool configs managed = (changed, None, pool1)"
    and "fold (pass b api) passes (pool1, configs) = (pool', cs)"
    and "U = user_entries b api pool managed existing"
  shows "NestedSlice api pool' (list_path b) = Ok (U @ map oe_value (operator_entries b U cs)) \<and>
     GetAnnotations api pool' (list_record b) = Some (formatOwnershipRecord (map oe_key (operator_entries b U cs))) \<and>
     length (operator_entries b U cs) \<le> length cs"
proof -
  have "shared_list b api pool1 U configs"
    using list_update_success [OF assms(1) _ assms(3,4)] assms(2,6) by simp
  then have "shared_list b api pool' U cs"
    using passes_shared_list [OF assms(1), of passes b "(pool1, configs)" U] assms(2,5) by simp
  then show ?thesis
    using length_operator_entries by (simp add: shared_list_def)
qed

theorem rotation_leaves_nothing_behind_witness:
  "let update = list_update CiliumCIDRGroup sample_api;
       pool1 = snd (snd (update ''t1'' sample_pool_object [net_config net1] [net1]));
       pool2 = fst (fold (pass CiliumCIDRGroup sample_api) [(''t2'', [net_config net2], [net2, net1])] (pool1, [net_config net1]))
   in NestedSlice sample_api pool2 (list_path CiliumCIDRGroup) = Ok [JStr (PrefixString user_net), JStr (PrefixString net2)]"
proof -
  obtain ch pool1 where one:
    "list_update CiliumCIDRGroup sample_api ''t1'' sample_pool_object [net_config net1] [net1] = (ch, None, pool1)"
    using sample_update by blast
  obtain ch2 pool2 where two:
    "list_update CiliumCIDRGroup sample_api ''t2'' pool1 [net_config net2] [net2, net1] = (ch2, None, pool2)"
    using sample_update by blast
  let ?passes = "[(''t2'', [net_config net2], [net2, net1])]"
  have run: "fold (pass CiliumCIDRGroup sample_api) ?passes (pool1, [net_config net1]) = (pool2, [net_config net2])"
    by (simp add: pass_def two)
  have read: "NestedSlice sample_api sample_pool_object (list_path CiliumCIDRGroup) =
      Ok [JStr (PrefixString user_net), JStr (PrefixString net1)]"
    by (simp add: sample_api_def sample_pool_object_def)
  show ?thesis
    using rotation_leaves_nothing_behind [OF sample_laws _ read one run refl] run
    by (simp add: one sample_user_entries sample_operator_entries config_text_net)
qed

text \<open>
  C16: Releasing a pool undoes what synchronising it did: after any passes, the release leaves the
  list with exactly the entries that were the user's, in their order, and removes the record and no
  other annotation.
\<close>

theorem release_undoes_sync:
  assumes "unstructured_laws api" and "\<forall>p \<in> set ((now, configs, managed) # passes). \<forall>c \<in> set (fst (snd p)). config_text c"
    and "NestedSlice api pool (list_path b) = Ok existing"
    and "list_update b api now pool configs managed = (changed, None, pool1)"
    and "list_release b api (fst (fold (pass b api) passes (pool1, configs))) = (changed', None, pool')"
  shows "NestedSlice api pool' (list_path b) = Ok (user_entries b api pool managed existing) \<and>
     GetAnnotations api pool' =
       (GetAnnotations api (fst (fold (pass b api) passes (pool1, configs))))(list_record b := None)"
proof -
  have "shared_list b api pool1 (user_entries b api pool managed existing) configs"
    using list_update_success [OF assms(1) _ assms(3,4)] assms(2) by simp
  then have "shared_list b api (fst (fold (pass b api) passes (pool1, configs)))
      (user_entries b api pool managed existing) (snd (fold (pass b api) passes (pool1, configs)))"
    using passes_shared_list [OF assms(1), of passes b "(pool1, configs)"] assms(2) by simp
  then show ?thesis
    using list_release_gives_back [OF assms(1) _ assms(5)] by blast
qed

theorem release_undoes_sync_witness:
  "let pool1 = snd (snd (list_update CiliumCIDRGroup sample_api ''t1'' sample_pool_object [net_config net1] [net1]));
       pool2 = snd (snd (list_release CiliumCIDRGroup sample_api pool1))
   in NestedSlice sample_api pool2 (list_path CiliumCIDRGroup) = Ok [JStr (PrefixString user_net)] \<and>
      GetAnnotations sample_api pool2 AnnotationManagedCIDRs = None"
proof -
  obtain ch pool1 where one:
    "list_update CiliumCIDRGroup sample_api ''t1'' sample_pool_object [net_config net1] [net1] = (ch, None, pool1)"
    using sample_update by blast
  obtain ch2 pool2 where two: "list_release CiliumCIDRGroup sample_api pool1 = (ch2, None, pool2)"
    using sample_release by blast
  have read: "NestedSlice sample_api sample_pool_object (list_path CiliumCIDRGroup) =
      Ok [JStr (PrefixString user_net), JStr (PrefixString net1)]"
    by (simp add: sample_api_def sample_pool_object_def)
  show ?thesis
    using release_undoes_sync [OF sample_laws _ read one, of "[]" ch2 pool2] two
    by (simp add: one sample_user_entries config_text_net) (simp add: list_record_def)
qed

text \<open>
  Synchronising settles: once a pass for some configurations has gone through, the next pass for
  the same ones reports no change and writes nothing, whatever the managed prefixes are by then.
\<close>

theorem sync_settles:
  assumes "unstructured_laws api" and "\<forall>c \<in> set configs. config_text c"
    and "NestedSlice api pool (list_path b) = Ok existing"
    and "list_update b api now pool configs managed = (changed, None, pool')"
  shows "list_update b api now' pool' configs managed' = (False, None, pool')"
  using list_update_settled [OF assms(1) list_update_success [OF assms]] .

theorem sync_settles_witness:
  "let pool1 = snd (snd (list_update CiliumCIDRGroup sample_api ''t1'' sample_pool_object [net_config net1] [net1]))
   in list_update CiliumCIDRGroup sample_api ''t2'' pool1 [net_config net1] [] = (False, None, pool1)"
proof -
  obtain ch pool1 where one:
    "list_update CiliumCIDRGroup sample_api ''t1'' sample_pool_object [net_config net1] [net1] = (ch, None, pool1)"
    using sample_update by blast
  have read: "NestedSlice sample_api sample_pool_object (list_path CiliumCIDRGroup) =
      Ok [JStr (PrefixString user_net), JStr (PrefixString net1)]"
    by (simp add: sample_api_def sample_pool_object_def)
  show ?thesis
    using sync_settles [OF sample_laws _ read one] by (simp add: one config_text_net)
qed

end
