(* ===== verification/Pool_Config.thy ===== *)
theory Pool_Config
  imports Owned_List Prefix_Status
begin

text \<open>
  From a DynamicPrefix to the entries of a pool (\<^verbatim>\<open>buildPoolConfigurations\<close> and its helpers in
  \<^verbatim>\<open>internal/controller/poolsync_controller.go\<close>, \<^verbatim>\<open>calicoCIDRForConfig\<close> and \<^verbatim>\<open>exactCIDRForAddressRange\<close> in
  \<^verbatim>\<open>poolsync_backends.go\<close>): one configuration for the current prefix and one for each prefix that is
  draining.  The DynamicPrefix reconciler has already written part of this to the status, so the
  theorems tie the two controllers together: what is read from the status is what would be
  calculated, and everything a pool receives lies inside a prefix the operator manages.
\<close>

subsection \<open>Configurations\<close>

definition AnnotationName :: string where "AnnotationName = ''dynamic-prefix.io/name''"
definition AnnotationSubnet :: string where "AnnotationSubnet = ''dynamic-prefix.io/subnet''"
definition AnnotationAddressRange :: string where "AnnotationAddressRange = ''dynamic-prefix.io/address-range''"

datatype config_error =
    InvalidPrefixText string prefix_error
  | ConfigRangeFailed range_error
  | ConfigSubnetFailed subnet_error

datatype config_kind = KindAddressRange | KindSubnet

datatype build_error =
    NoCurrentPrefix
  | NotInStatusOrSpec config_kind string
  | CurrentConfigFailed config_kind config_error

definition findAddressRangeSpec :: "DynamicPrefix \<Rightarrow> string \<Rightarrow> AddressRangeSpec option" where
  "findAddressRangeSpec dp name = find (\<lambda>s. ars_Name s = name) (spec_AddressRanges (dp_Spec dp))"

definition range_config :: "AddressRangeStatus \<Rightarrow> poolConfiguration" where
  "range_config ar = \<lparr>cfg_useAddressRange = True, cfg_start = arst_Start ar, cfg_end = arst_End ar, cfg_cidr = arst_CIDR ar\<rparr>"

definition findAddressRangeInStatus :: "DynamicPrefix \<Rightarrow> string \<Rightarrow> poolConfiguration option" where
  "findAddressRangeInStatus dp name =
     map_option range_config (find (\<lambda>ar. arst_Name ar = name) (st_AddressRanges (dp_Status dp)))"

definition findSubnetSpec :: "DynamicPrefix \<Rightarrow> string \<Rightarrow> SubnetSpec option" where
  "findSubnetSpec dp name = find (\<lambda>s. sns_Name s = name) (spec_Subnets (dp_Spec dp))"

definition cidr_config :: "string \<Rightarrow> poolConfiguration" where
  "cidr_config cidr = \<lparr>cfg_useAddressRange = False, cfg_start = [], cfg_end = [], cfg_cidr = cidr\<rparr>"

definition findSubnetInStatus :: "DynamicPrefix \<Rightarrow> string \<Rightarrow> poolConfiguration option" where
  "findSubnetInStatus dp name =
     map_option (\<lambda>s. cidr_config (snst_CIDR s)) (find (\<lambda>s. snst_Name s = name) (st_Subnets (dp_Status dp)))"

definition calculateAddressRangeConfig :: "string \<Rightarrow> AddressRangeSpec \<Rightarrow> config_error + poolConfiguration" where
  "calculateAddressRangeConfig prefixStr rangeSpec =
     (case netip_ParsePrefix prefixStr of
        Inl e \<Rightarrow> Err (InvalidPrefixText prefixStr e)
      | Inr basePrefix \<Rightarrow>
          let cfg = \<lparr>arc_Name = ars_Name rangeSpec, arc_Start = ars_Start rangeSpec, arc_End = ars_End rangeSpec\<rparr> in
          (case CalculateAddressRange basePrefix cfg of
             Inl e \<Rightarrow> Err (ConfigRangeFailed e)
           | Inr ar \<Rightarrow>
               Ok \<lparr>cfg_useAddressRange = True, cfg_start = AddrString (ar_Start ar), cfg_end = AddrString (ar_End ar),
                   cfg_cidr = PrefixString (RangeToCIDR (ar_Start ar) (ar_End ar))\<rparr>))"

definition calculateSubnetConfig :: "string \<Rightarrow> SubnetSpec \<Rightarrow> config_error + poolConfiguration" where
  "calculateSubnetConfig prefixStr subnetSpec =
     (case netip_ParsePrefix prefixStr of
        Inl e \<Rightarrow> Err (InvalidPrefixText prefixStr e)
      | Inr basePrefix \<Rightarrow>
          let cfg = \<lparr>sc_Name = sns_Name subnetSpec, sc_Offset = sns_Offset subnetSpec,
                     sc_PrefixLength = sns_PrefixLength subnetSpec\<rparr> in
          (case CalculateSubnet basePrefix cfg of
             Inl e \<Rightarrow> Err (ConfigSubnetFailed e)
           | Inr subnet \<Rightarrow> Ok (cidr_config (PrefixString (sn_CIDR subnet)))))"

text \<open>The loop over the history: a prefix whose calculation fails is left out.\<close>

definition history_configs ::
  "(string \<Rightarrow> 's \<Rightarrow> config_error + poolConfiguration) \<Rightarrow> 's \<Rightarrow> int \<Rightarrow> PrefixHistoryEntry list \<Rightarrow> poolConfiguration list" where
  "history_configs calculate spec maxHistory history =
     concat (map (\<lambda>h. case calculate (hist_Prefix h) spec of Inl _ \<Rightarrow> [] | Inr c \<Rightarrow> [c]) (take (nat maxHistory) history))"

definition buildModeConfigs ::
  "DynamicPrefix \<Rightarrow> config_kind \<Rightarrow> string \<Rightarrow> int \<Rightarrow> (DynamicPrefix \<Rightarrow> string \<Rightarrow> 's option) \<Rightarrow>
   (DynamicPrefix \<Rightarrow> string \<Rightarrow> poolConfiguration option) \<Rightarrow> (string \<Rightarrow> 's \<Rightarrow> config_error + poolConfiguration) \<Rightarrow>
   build_error + poolConfiguration list" where
  "buildModeConfigs dp kind name maxHistory findSpec findInStatus calculate =
     (let spec = findSpec dp name;
          current = (case findInStatus dp name of
             Some c \<Rightarrow> Ok c
           | None \<Rightarrow>
               (case spec of
                  None \<Rightarrow> Err (NotInStatusOrSpec kind name)
                | Some s \<Rightarrow>
                    (case calculate (st_CurrentPrefix (dp_Status dp)) s of
                       Inl e \<Rightarrow> Err (CurrentConfigFailed kind e) | Inr c \<Rightarrow> Ok c)))
      in case current of
           Inl e \<Rightarrow> Err e
         | Inr c \<Rightarrow>
             Ok (c # (case spec of None \<Rightarrow> [] | Some s \<Rightarrow> history_configs calculate s maxHistory (st_History (dp_Status dp)))))"

definition buildAddressRangeConfigs :: "DynamicPrefix \<Rightarrow> string \<Rightarrow> int \<Rightarrow> build_error + poolConfiguration list" where
  "buildAddressRangeConfigs dp name maxHistory =
     buildModeConfigs dp KindAddressRange name maxHistory findAddressRangeSpec findAddressRangeInStatus calculateAddressRangeConfig"

definition buildSubnetConfigs :: "DynamicPrefix \<Rightarrow> string \<Rightarrow> int \<Rightarrow> build_error + poolConfiguration list" where
  "buildSubnetConfigs dp name maxHistory =
     buildModeConfigs dp KindSubnet name maxHistory findSubnetSpec findSubnetInStatus calculateSubnetConfig"

definition buildRawPrefixConfigs :: "DynamicPrefix \<Rightarrow> int \<Rightarrow> poolConfiguration list" where
  "buildRawPrefixConfigs dp maxHistory =
     cidr_config (st_CurrentPrefix (dp_Status dp)) #
     map (\<lambda>h. cidr_config (hist_Prefix h)) (take (nat maxHistory) (st_History (dp_Status dp)))"

text \<open>An annotation that is missing or empty does not select a mode.\<close>

definition buildPoolConfigurations ::
  "DynamicPrefix \<Rightarrow> string option \<Rightarrow> string option \<Rightarrow> build_error + poolConfiguration list" where
  "buildPoolConfigurations dp addressRange subnet =
     (if st_CurrentPrefix (dp_Status dp) = [] then Err NoCurrentPrefix
      else
        let maxHistory = getMaxHistory dp in
        if addressRange \<notin> {None, Some []} then buildAddressRangeConfigs dp (the addressRange) maxHistory
        else if subnet \<notin> {None, Some []} then buildSubnetConfigs dp (the subnet) maxHistory
        else Ok (buildRawPrefixConfigs dp maxHistory))"

subsection \<open>Calico's single CIDR\<close>

datatype calico_error =
    CalicoNeedsCIDR
  | RangeStartInvalid string addr_error
  | RangeEndInvalid string addr_error
  | RangeMixedFamilies
  | RangeReversed addr addr
  | RangeNotIPv6
  | RangeLastAddr big_error
  | RangeNotAligned string string

definition exactCIDRForAddressRange :: "string \<Rightarrow> string \<Rightarrow> calico_error + string \<times> bool" where
  "exactCIDRForAddressRange startStr endStr =
     (case ParseAddr startStr of
        Inl e \<Rightarrow> Err (RangeStartInvalid startStr e)
      | Inr start \<Rightarrow>
          (case ParseAddr endStr of
             Inl e \<Rightarrow> Err (RangeEndInvalid endStr e)
           | Inr ende \<Rightarrow>
               if Is4 start \<noteq> Is4 ende then Err RangeMixedFamilies
               else if Compare start ende > 0 then Err (RangeReversed start ende)
               else if \<not> Is6 start then Err RangeNotIPv6
               else
                 let cidr = RangeToCIDR start ende in
                 (case lastAddrOfPrefix cidr of
                    Inl e \<Rightarrow> Err (RangeLastAddr e)
                  | Inr lst \<Rightarrow> Ok (PrefixString cidr, pfx_ip (Masked cidr) = start \<and> lst = ende))))"

definition calicoCIDRForConfig :: "poolConfiguration \<Rightarrow> calico_error + string" where
  "calicoCIDRForConfig c =
     (if \<not> cfg_useAddressRange c then
        if cfg_cidr c = [] then Err CalicoNeedsCIDR else Ok (cfg_cidr c)
      else
        (case exactCIDRForAddressRange (cfg_start c) (cfg_end c) of
           Inl e \<Rightarrow> Err e
         | Inr (cidr, exact) \<Rightarrow> if \<not> exact then Err (RangeNotAligned (cfg_start c) (cfg_end c)) else Ok cidr))"

subsection \<open>The status holds what would be calculated\<close>

lemma find_list_all2:
  assumes "list_all2 R xs ys" and "\<And>x y. R x y \<Longrightarrow> P y = Q x"
  shows "rel_option R (find Q xs) (find P ys)"
  using assms by (induction rule: list_all2_induct) auto

text \<open>A status the DynamicPrefix reconciler has written for its current prefix.\<close>

definition published :: "DynamicPrefix \<Rightarrow> ipprefix \<Rightarrow> bool" where
  "published dp network \<longleftrightarrow>
     wf_prefix network \<and> IsValid network \<and> Is6 (pfx_ip network) \<and>
     st_CurrentPrefix (dp_Status dp) = PrefixString network \<and>
     calculateSubnets (dp_Name dp) network (spec_Subnets (dp_Spec dp)) = Ok (st_Subnets (dp_Status dp)) \<and>
     calculateAddressRanges network (spec_AddressRanges (dp_Spec dp)) = Ok (st_AddressRanges (dp_Status dp))"

lemma calculateSubnets_all2:
  assumes "calculateSubnets n network specs = Ok sts"
  shows "list_all2 (\<lambda>spec st. \<exists>s. CalculateSubnet network \<lparr>sc_Name = sns_Name spec, sc_Offset = sns_Offset spec,
        sc_PrefixLength = sns_PrefixLength spec\<rparr> = Ok s \<and> snst_Name st = sns_Name spec \<and> snst_CIDR st = PrefixString (sn_CIDR s))
     specs sts"
proof (cases "specs = []")
  case True
  then show ?thesis
    using assms by (simp add: calculateSubnets_def)
next
  case False
  have name: "sn_Name s = sc_Name cfg" if "CalculateSubnet network cfg = Ok s" for cfg s
    using that by (auto simp: CalculateSubnet_def Let_def split: if_splits option.splits)
  let ?cfg = "\<lambda>spec. \<lparr>sc_Name = sns_Name spec, sc_Offset = sns_Offset spec, sc_PrefixLength = sns_PrefixLength spec\<rparr>"
  obtain subnets where "CalculateSubnets network (map ?cfg specs) = Ok subnets"
    and sts: "sts = map (\<lambda>s. \<lparr>snst_Name = sn_Name s, snst_CIDR = PrefixString (sn_CIDR s),
      snst_BGPAdvertisement = advertised n specs (sn_Name s)\<rparr>) subnets"
    using assms False by (auto simp: calculateSubnets_def Let_def split: sum.splits)
  then have "list_all2 (\<lambda>spec s. CalculateSubnet network (?cfg spec) = Ok s) specs subnets"
    by (auto simp: CalculateSubnets_def traverse_Ok_iff list_all2_map1 split: if_splits sum.splits elim!: list_all2_mono)
  then show ?thesis
    unfolding sts list_all2_map2 by (rule list_all2_mono) (use name in fastforce)
qed

lemma calculateAddressRanges_all2:
  assumes "calculateAddressRanges network specs = Ok sts"
  shows "list_all2 (\<lambda>spec st. \<exists>r. CalculateAddressRange network \<lparr>arc_Name = ars_Name spec, arc_Start = ars_Start spec,
        arc_End = ars_End spec\<rparr> = Ok r \<and> st = range_status r \<and> ar_Name r = ars_Name spec) specs sts"
proof (cases "specs = []")
  case True
  then show ?thesis
    using assms by (simp add: calculateAddressRanges_def)
next
  case False
  have name: "ar_Name r = arc_Name cfg" if "CalculateAddressRange network cfg = Ok r" for cfg r
    using that by (auto simp: CalculateAddressRange_def split: if_splits sum.splits)
  let ?cfg = "\<lambda>spec. \<lparr>arc_Name = ars_Name spec, arc_Start = ars_Start spec, arc_End = ars_End spec\<rparr>"
  obtain ranges where "CalculateAddressRanges network (map ?cfg specs) = Ok ranges" and sts: "sts = map range_status ranges"
    using assms False by (auto simp: calculateAddressRanges_def Let_def split: sum.splits)
  then have "list_all2 (\<lambda>spec r. CalculateAddressRange network (?cfg spec) = Ok r) specs ranges"
    by (auto simp: CalculateAddressRanges_def traverse_Ok_iff list_all2_map1 split: if_splits sum.splits elim!: list_all2_mono)
  then show ?thesis
    unfolding sts list_all2_map2 by (rule list_all2_mono) (use name in fastforce)
qed

lemma status_subnet:
  assumes "published dp network"
  shows "map_option Ok (findSubnetInStatus dp name) =
     map_option (calculateSubnetConfig (st_CurrentPrefix (dp_Status dp))) (findSubnetSpec dp name)"
proof -
  have parse: "netip_ParsePrefix (st_CurrentPrefix (dp_Status dp)) = Ok network"
    using assms ParsePrefix_PrefixString by (simp add: published_def)
  have all2: "list_all2 (\<lambda>spec st. \<exists>s. CalculateSubnet network \<lparr>sc_Name = sns_Name spec, sc_Offset = sns_Offset spec,
        sc_PrefixLength = sns_PrefixLength spec\<rparr> = Ok s \<and> snst_Name st = sns_Name spec \<and> snst_CIDR st = PrefixString (sn_CIDR s))
     (spec_Subnets (dp_Spec dp)) (st_Subnets (dp_Status dp))"
    using assms unfolding published_def by (blast intro: calculateSubnets_all2)
  have "rel_option (\<lambda>spec st. \<exists>s. CalculateSubnet network \<lparr>sc_Name = sns_Name spec, sc_Offset = sns_Offset spec,
        sc_PrefixLength = sns_PrefixLength spec\<rparr> = Ok s \<and> snst_Name st = sns_Name spec \<and> snst_CIDR st = PrefixString (sn_CIDR s))
     (findSubnetSpec dp name) (find (\<lambda>s. snst_Name s = name) (st_Subnets (dp_Status dp)))"
    unfolding findSubnetSpec_def by (rule find_list_all2 [OF all2]) auto
  then show ?thesis
    using parse by cases (auto simp: findSubnetInStatus_def calculateSubnetConfig_def)
qed

lemma status_range:
  assumes "published dp network"
  shows "map_option Ok (findAddressRangeInStatus dp name) =
     map_option (calculateAddressRangeConfig (st_CurrentPrefix (dp_Status dp))) (findAddressRangeSpec dp name)"
proof -
  have parse: "netip_ParsePrefix (st_CurrentPrefix (dp_Status dp)) = Ok network"
    using assms ParsePrefix_PrefixString by (simp add: published_def)
  have all2: "list_all2 (\<lambda>spec st. \<exists>r. CalculateAddressRange network \<lparr>arc_Name = ars_Name spec, arc_Start = ars_Start spec,
        arc_End = ars_End spec\<rparr> = Ok r \<and> st = range_status r \<and> ar_Name r = ars_Name spec)
     (spec_AddressRanges (dp_Spec dp)) (st_AddressRanges (dp_Status dp))"
    using assms unfolding published_def by (blast intro: calculateAddressRanges_all2)
  have "rel_option (\<lambda>spec st. \<exists>r. CalculateAddressRange network \<lparr>arc_Name = ars_Name spec, arc_Start = ars_Start spec,
        arc_End = ars_End spec\<rparr> = Ok r \<and> st = range_status r \<and> ar_Name r = ars_Name spec)
     (findAddressRangeSpec dp name) (find (\<lambda>s. arst_Name s = name) (st_AddressRanges (dp_Status dp)))"
    unfolding findAddressRangeSpec_def by (rule find_list_all2 [OF all2]) (auto simp: range_status_def)
  then show ?thesis
    using parse by cases (auto simp: findAddressRangeInStatus_def calculateAddressRangeConfig_def range_config_def range_status_def)
qed

text \<open>The reference: calculate for the current prefix and for the draining ones, first to last.\<close>

definition calculated_configs ::
  "(string \<Rightarrow> 's \<Rightarrow> config_error + poolConfiguration) \<Rightarrow> 's \<Rightarrow> DynamicPrefix \<Rightarrow> poolConfiguration list" where
  "calculated_configs calculate spec dp =
     concat (map (\<lambda>p. case calculate p spec of Inl _ \<Rightarrow> [] | Inr c \<Rightarrow> [c])
       (st_CurrentPrefix (dp_Status dp) # map hist_Prefix (take (nat (getMaxHistory dp)) (st_History (dp_Status dp)))))"

lemma buildModeConfigs_calculated:
  assumes "map_option Ok (findInStatus dp name) = map_option (calculate (st_CurrentPrefix (dp_Status dp))) (findSpec dp name)"
  shows "buildModeConfigs dp kind name (getMaxHistory dp) findSpec findInStatus calculate =
     (case findSpec dp name of
        None \<Rightarrow> Err (NotInStatusOrSpec kind name)
      | Some s \<Rightarrow> Ok (calculated_configs calculate s dp))"
  using assms
  by (cases "findInStatus dp name"; cases "findSpec dp name")
    (auto simp: buildModeConfigs_def calculated_configs_def history_configs_def comp_def split: sum.splits)

text \<open>
  C14: For a published status a pool receives exactly what the specification yields for the current
  prefix and for each prefix still draining, in that order: reading the current entry from the status
  is the same as calculating it, whichever mode a pool uses; a name that is in neither is the only
  error, and one draining prefix that cannot be used costs only itself.
\<close>

theorem pool_configurations_are_calculated:
  assumes "published dp network"
  shows "buildPoolConfigurations dp addressRange subnet =
     (case (addressRange, subnet) of
        (Some (c # cs), _) \<Rightarrow>
          (case findAddressRangeSpec dp (c # cs) of
             None \<Rightarrow> Err (NotInStatusOrSpec KindAddressRange (c # cs))
           | Some s \<Rightarrow> Ok (calculated_configs calculateAddressRangeConfig s dp))
      | (_, Some (c # cs)) \<Rightarrow>
          (case findSubnetSpec dp (c # cs) of
             None \<Rightarrow> Err (NotInStatusOrSpec KindSubnet (c # cs))
           | Some s \<Rightarrow> Ok (calculated_configs calculateSubnetConfig s dp))
      | _ \<Rightarrow> Ok (calculated_configs (\<lambda>p _. Ok (cidr_config p)) () dp))"
proof -
  have ne: "st_CurrentPrefix (dp_Status dp) \<noteq> []"
    using assms by (auto simp: published_def PrefixString_def split: addr.splits)
  have raw: "buildRawPrefixConfigs dp (getMaxHistory dp) = calculated_configs (\<lambda>p _. Ok (cidr_config p)) () dp"
    by (simp add: buildRawPrefixConfigs_def calculated_configs_def comp_def)
  note range = buildModeConfigs_calculated [where findInStatus = findAddressRangeInStatus and findSpec = findAddressRangeSpec
      and calculate = calculateAddressRangeConfig, OF status_range [OF assms]]
    and sub = buildModeConfigs_calculated [where findInStatus = findSubnetInStatus and findSpec = findSubnetSpec
      and calculate = calculateSubnetConfig, OF status_subnet [OF assms]]
  show ?thesis
    using ne
    by (auto simp: buildPoolConfigurations_def buildAddressRangeConfigs_def buildSubnetConfigs_def raw range sub Let_def
        split: option.split list.split)
qed

text \<open>A resource that publishes one subnet and drains one earlier prefix.\<close>

definition sample_subnet :: SubnetSpec where
  "sample_subnet = \<lparr>sns_Name = ''lan'', sns_Offset = 1, sns_PrefixLength = 64, sns_BGP = None\<rparr>"

definition sample_network :: "nat \<Rightarrow> ipprefix" where
  "sample_network k = PrefixFrom (Addr6 (if k = 1 then 0x20010DB8000100000000000000000000 else 0x20010DB8000700000000000000000000) []) 48"

definition sample_cidr :: "nat \<Rightarrow> ipprefix" where
  "sample_cidr k = PrefixFrom (Addr6 (if k = 1 then 0x20010DB8000100010000000000000000 else 0x20010DB8000700010000000000000000) []) 64"

definition subnet_dp :: DynamicPrefix where
  "subnet_dp =
     (let spec = (dp_Spec sample_dp)\<lparr>spec_Subnets := [sample_subnet]\<rparr>;
          h = \<lparr>hist_Prefix = PrefixString (sample_network 7), hist_AcquiredAt = 0, hist_DeprecatedAt = None,
                hist_State = PrefixStateDraining\<rparr>
      in sample_dp\<lparr>dp_Spec := spec,
           dp_Status := sample_status\<lparr>st_CurrentPrefix := PrefixString (sample_network 1),
             st_Subnets := [\<lparr>snst_Name = ''lan'', snst_CIDR = PrefixString (sample_cidr 1), snst_BGPAdvertisement = []\<rparr>],
             st_History := [h]\<rparr>\<rparr>)"

lemma subnet_words:
  "CalculateSubnet (sample_network k) \<lparr>sc_Name = ''lan'', sc_Offset = 1, sc_PrefixLength = 64\<rparr> =
     Ok \<lparr>sn_Name = ''lan'', sn_CIDR = sample_cidr k\<rparr>"
  using CalculateSubnet_v6 [of 48 "0x20010DB8000100000000000000000000"]
    CalculateSubnet_v6 [of 48 "0x20010DB8000700000000000000000000"]
  by (simp add: sample_network_def sample_cidr_def subnet_word_def push_bit_eq_mult go_eval)

lemma sample_network_facts: "wf_prefix (sample_network k)" "IsValid (sample_network k)" "Is6 (pfx_ip (sample_network k))"
  by (simp_all add: sample_network_def Is6_def)

lemma subnet_texts: "netip_ParsePrefix (PrefixString (sample_network k)) = Ok (sample_network k)"
  by (rule ParsePrefix_PrefixString) (rule sample_network_facts)+

lemmas subnet_dp_simps = subnet_dp_def sample_dp_def sample_status_def sample_subnet_def subnet_texts subnet_words

lemma subnet_dp_published: "published subnet_dp (sample_network 1)"
  by (simp add: published_def subnet_dp_simps sample_network_facts calculateSubnets_def CalculateSubnets_def
      calculateAddressRanges_def advertised_def)

theorem pool_configurations_are_calculated_witness:
  "buildPoolConfigurations subnet_dp None (Some ''lan'') =
     Ok [cidr_config (PrefixString (sample_cidr 1)), cidr_config (PrefixString (sample_cidr 7))]"
  using pool_configurations_are_calculated [OF subnet_dp_published, of None "Some ''lan''"]
  by (simp add: subnet_dp_simps findSubnetSpec_def calculated_configs_def calculateSubnetConfig_def getMaxHistory_def)

subsection \<open>Calico's CIDR is the range, or is refused\<close>

text \<open>The addresses that agree with \<open>a\<close> on the first \<open>n\<close> bits, from the first to the last.\<close>

lemma block_bounds:
  assumes "x AND mask6 n = a AND mask6 n"
  shows "a AND mask6 n \<le> x" "x \<le> (a AND mask6 n) OR mask (128 - n)"
proof -
  show "a AND mask6 n \<le> x"
    unfolding assms [symmetric] by (rule word_and_le2)
  have "(a AND mask6 n) OR mask (128 - n) = x OR mask (128 - n)"
    unfolding assms [symmetric] by (rule bit_word_eqI) (auto simp: bit_simps mask6_def)
  then show "x \<le> (a AND mask6 n) OR mask (128 - n)"
    by (simp add: le_word_or2)
qed

lemma block_last: "((a AND mask6 n) OR mask (128 - n)) AND mask6 n = a AND mask6 n"
  by (rule bit_word_eqI) (auto simp: bit_simps mask6_def)

lemma lastAddrOfPrefix_v6:
  assumes "n \<le> 128"
  shows "lastAddrOfPrefix (PrefixFrom (Addr6 w []) (int n)) = Ok (Addr6 ((w AND mask6 n) OR mask (128 - n)) [])"
proof -
  have "nat (128 - int n) = 128 - n"
    by simp
  then show ?thesis
    using assms
    by (simp add: lastAddrOfPrefix_def addrToBigInt_def bigIntToAddr_def As16_def addr128_def Let_def of_int_or_eq mask_eq_exp_minus_1)
qed

text \<open>
  C17: Calico's single CIDR stands for the whole address range or is refused: the CIDR computed for a
  range is called exact precisely when the addresses it contains are those from start to end, so a
  pool never hands out an address outside the range it was asked for.
\<close>

theorem calico_cidr_is_the_range:
  assumes "ParseAddr startStr = Ok (Addr6 a [])" and "ParseAddr endStr = Ok (Addr6 b [])" and "a \<le> b"
  shows "\<exists>q exact. exactCIDRForAddressRange startStr endStr = Ok (PrefixString q, exact) \<and>
     (exact \<longleftrightarrow> (\<forall>x. Contains q (Addr6 x []) \<longleftrightarrow> a \<le> x \<and> x \<le> b)) \<and>
     (calicoCIDRForConfig \<lparr>cfg_useAddressRange = True, cfg_start = startStr, cfg_end = endStr, cfg_cidr = other\<rparr> =
        (if exact then Ok (PrefixString q) else Err (RangeNotAligned startStr endStr)))"
proof -
  let ?n = "common_bits (bytes16 a) (bytes16 b)"
  let ?lo = "a AND mask6 ?n" and ?hi = "(a AND mask6 ?n) OR mask (128 - ?n)"
  let ?q = "PrefixFrom (Addr6 ?lo []) (int ?n)"
  have n: "?n \<le> 128" and same: "?lo = b AND mask6 ?n"
    by (rule common_bits_words)+
  note eq = same [symmetric]
  have q: "RangeToCIDR (Addr6 a []) (Addr6 b []) = ?q"
    by (simp add: RangeToCIDR_v6 Let_def)
  have inside: "Contains ?q (Addr6 x []) \<longleftrightarrow> x AND mask6 ?n = ?lo" for x
    using n by (auto simp: Contains_v6 and.assoc)
  have exact: "exactCIDRForAddressRange startStr endStr = Ok (PrefixString ?q, ?lo = a \<and> ?hi = b)"
    using assms n lastAddrOfPrefix_v6 [OF n, of ?lo]
    by (simp add: exactCIDRForAddressRange_def Is4_def Is6_def Compare_v6 q Let_def and.assoc not_less)
  have iff: "(?lo = a \<and> ?hi = b) \<longleftrightarrow> (\<forall>x. Contains ?q (Addr6 x []) \<longleftrightarrow> a \<le> x \<and> x \<le> b)"
  proof
    assume *: "?lo = a \<and> ?hi = b"
    have "Contains ?q (Addr6 a [])" "Contains ?q (Addr6 b [])"
      using inside eq by simp_all
    then show "\<forall>x. Contains ?q (Addr6 x []) \<longleftrightarrow> a \<le> x \<and> x \<le> b"
      using * block_bounds [of _ ?n a] inside Contains_between [OF wf_PrefixFrom] by metis
  next
    assume all: "\<forall>x. Contains ?q (Addr6 x []) \<longleftrightarrow> a \<le> x \<and> x \<le> b"
    have "Contains ?q (Addr6 ?lo [])" "Contains ?q (Addr6 ?hi [])"
      using inside block_last by (simp_all add: and.assoc)
    then have "a \<le> ?lo" "?hi \<le> b"
      using all by blast+
    then show "?lo = a \<and> ?hi = b"
      using block_bounds(1) [of a ?n a] block_bounds(2) [OF eq] by (simp add: order_antisym)
  qed
  have "calicoCIDRForConfig \<lparr>cfg_useAddressRange = True, cfg_start = startStr, cfg_end = endStr, cfg_cidr = other\<rparr> =
        (if ?lo = a \<and> ?hi = b then Ok (PrefixString ?q) else Err (RangeNotAligned startStr endStr))"
    by (simp add: calicoCIDRForConfig_def exact)
  then show ?thesis
    using exact iff by blast
qed

theorem calico_cidr_is_the_range_witness:
  "calicoCIDRForConfig \<lparr>cfg_useAddressRange = True, cfg_start = ''2001:db8::10'', cfg_end = ''2001:db8::20'', cfg_cidr = []\<rparr> =
     Err (RangeNotAligned ''2001:db8::10'' ''2001:db8::20'')"
proof -
  let ?a = "0x20010DB8000000000000000000000010 :: 128 word" and ?b = "0x20010DB8000000000000000000000020 :: 128 word"
  have addrs: "ParseAddr ''2001:db8::10'' = Ok (Addr6 ?a [])" "ParseAddr ''2001:db8::20'' = Ok (Addr6 ?b [])"
    by (simp_all add: go_eval)
  have le: "?a \<le> ?b"
    by simp
  from calico_cidr_is_the_range [OF addrs le, of "[]"]
  obtain q exact where r: "exactCIDRForAddressRange ''2001:db8::10'' ''2001:db8::20'' = Ok (PrefixString q, exact)"
    and cidr: "calicoCIDRForConfig \<lparr>cfg_useAddressRange = True, cfg_start = ''2001:db8::10'', cfg_end = ''2001:db8::20'', cfg_cidr = []\<rparr> =
        (if exact then Ok (PrefixString q) else Err (RangeNotAligned ''2001:db8::10'' ''2001:db8::20''))"
    by blast
  have "common_bits (bytes16 ?a) (bytes16 ?b) = 122"
    by code_simp
  moreover have "?a AND mask6 122 \<noteq> ?a"
    by (simp add: go_eval)
  ultimately have "\<not> exact"
    using r by (auto simp: exactCIDRForAddressRange_def addrs Is4_def Is6_def Compare_v6 RangeToCIDR_v6 Let_def and.assoc
        prefix6_int split: sum.splits)
  then show ?thesis
    using cidr by simp
qed

end
