(* ===== verification/Service_Addr.thy ===== *)
theory Service_Addr
  imports Pool_Config
begin

text \<open>
  The addresses of a LoadBalancer Service (the calculating half of
  \<^verbatim>\<open>internal/controller/servicesync_controller.go\<close>): from a declared suffix, from a named address range
  or subnet, or inferred from the address the Service already has.  Addresses are computed byte by
  byte; the theorems relate the byte loops to 128-bit arithmetic and show that every address lies in
  a prefix the operator manages, unless it is the one the Service had already.
\<close>

subsection \<open>Bytes\<close>

definition combine_byte :: "int \<Rightarrow> nat \<Rightarrow> byte \<Rightarrow> byte \<Rightarrow> byte" where
  "combine_byte prefixLen i p s =
     (let bitPos = int i * 8 in
      if bitPos + 8 \<le> prefixLen then p
      else if bitPos \<ge> prefixLen then s
      else let m = push_bit (nat (8 - (prefixLen - bitPos))) (0xFF :: byte) in (p AND m) OR (s AND NOT m))"

definition combinePrefixSuffix :: "ipprefix \<Rightarrow> byte list \<Rightarrow> addr" where
  "combinePrefixSuffix pfx suffixBytes =
     AddrFrom16 (map (\<lambda>i. combine_byte (Bits pfx) i (As16 (pfx_ip pfx) ! i) (suffixBytes ! i)) [0..<16])"

text \<open>The two loops run from the last byte to the first; the borrow and the carry are those of the bytes behind.\<close>

fun sub_bytes :: "byte list \<Rightarrow> byte list \<Rightarrow> byte list \<times> byte" where
  "sub_bytes (t # ts) (b # bs) =
     (let (ds, borrow) = sub_bytes ts bs in
      ((t - b - borrow) # ds, if t < b \<or> t = b \<and> borrow = 1 then 1 else 0))"
| "sub_bytes _ _ = ([], 0)"

definition calculateIPOffset :: "addr \<Rightarrow> addr \<Rightarrow> byte list \<times> bool" where
  "calculateIPOffset base target = (let (off, borrow) = sub_bytes (As16 target) (As16 base) in (off, borrow = 0))"

fun add_bytes :: "byte list \<Rightarrow> byte list \<Rightarrow> byte list \<times> 16 word" where
  "add_bytes (b # bs) (d # ds) =
     (let (rs, carry) = add_bytes bs ds; s = ucast b + ucast d + carry in
      (ucast (s AND 0xFF) # rs, drop_bit 8 s))"
| "add_bytes _ _ = ([], 0)"

definition applyIPOffset :: "addr \<Rightarrow> byte list \<Rightarrow> addr \<times> bool" where
  "applyIPOffset base off = (let (rs, carry) = add_bytes (As16 base) off in (AddrFrom16 rs, carry = 0))"

definition addr_Less :: "addr \<Rightarrow> addr \<Rightarrow> bool" where
  "addr_Less a b \<longleftrightarrow> Compare a b < 0"

definition offsetAddressWithin :: "addr \<Rightarrow> addr \<Rightarrow> byte list \<Rightarrow> addr option" where
  "offsetAddressWithin base lst off =
     (let (a, ok) = applyIPOffset base off in
      if \<not> ok then None
      else if addr_Less a base \<or> addr_Less lst a then None
      else Some a)"

subsection \<open>The three modes\<close>

datatype service_error =
    SuffixInvalid string addr_error
  | SuffixIsIPv4 string
  | NoPrefixYet
  | CurrentPrefixInvalid string prefix_error
  | RangeNotDefined string string
  | RangeNotCalculated range_error
  | BelowRange addr string
  | SubnetNotDefined string string
  | SubnetNotCalculated subnet_error
  | BelowSubnet addr string
  | AssignedInvalid string addr_error

definition service_maxHistory :: "DynamicPrefix \<Rightarrow> int" where
  "service_maxHistory dp =
     (case spec_Transition (dp_Spec dp) of
        None \<Rightarrow> 2
      | Some t \<Rightarrow> if tr_MaxPrefixHistory t > 0 then tr_MaxPrefixHistory t else 2)"

text \<open>The prefixes of the history window that can be read.\<close>

definition window :: "DynamicPrefix \<Rightarrow> int \<Rightarrow> ipprefix list" where
  "window dp maxHistory =
     concat (map (\<lambda>h. case netip_ParsePrefix (hist_Prefix h) of Inl _ \<Rightarrow> [] | Inr p \<Rightarrow> [p])
       (take (nat maxHistory) (st_History (dp_Status dp))))"

definition calculateSuffixIPs :: "DynamicPrefix \<Rightarrow> string \<Rightarrow> service_error + string list \<times> string" where
  "calculateSuffixIPs dp suffix =
     (case ParseAddr suffix of
        Inl e \<Rightarrow> Err (SuffixInvalid suffix e)
      | Inr suffixAddr \<Rightarrow>
          if Is4 suffixAddr then Err (SuffixIsIPv4 suffix)
          else if st_CurrentPrefix (dp_Status dp) = [] then Err NoPrefixYet
          else
            (case netip_ParsePrefix (st_CurrentPrefix (dp_Status dp)) of
               Inl e \<Rightarrow> Err (CurrentPrefixInvalid (st_CurrentPrefix (dp_Status dp)) e)
             | Inr currentPrefix \<Rightarrow>
                 let suffixBytes = As16 suffixAddr;
                     currentIP = combinePrefixSuffix currentPrefix suffixBytes
                 in Ok (AddrString currentIP #
                        map (\<lambda>p. AddrString (combinePrefixSuffix p suffixBytes)) (window dp (service_maxHistory dp)),
                      AddrString currentIP)))"

definition calculateInferredSuffixIPs :: "DynamicPrefix \<Rightarrow> addr \<Rightarrow> int \<Rightarrow> string \<times> string list" where
  "calculateInferredSuffixIPs dp currentAddr maxHistory =
     (case netip_ParsePrefix (st_CurrentPrefix (dp_Status dp)) of
        Inl _ \<Rightarrow> ([], [])
      | Inr currentPrefix \<Rightarrow>
          if \<not> (Contains currentPrefix currentAddr \<or> list_ex (\<lambda>p. Contains p currentAddr) (window dp maxHistory)) then ([], [])
          else
            let suffixBytes = As16 currentAddr;
                currentIP = combinePrefixSuffix currentPrefix suffixBytes
            in (AddrString currentIP,
                AddrString currentIP # map (\<lambda>p. AddrString (combinePrefixSuffix p suffixBytes)) (window dp maxHistory)))"

definition range_cfg :: "AddressRangeSpec \<Rightarrow> AddressRangeConfig" where
  "range_cfg s = \<lparr>arc_Name = ars_Name s, arc_Start = ars_Start s, arc_End = ars_End s\<rparr>"

definition subnet_cfg :: "SubnetSpec \<Rightarrow> SubnetConfig" where
  "subnet_cfg s = \<lparr>sc_Name = sns_Name s, sc_Offset = sns_Offset s, sc_PrefixLength = sns_PrefixLength s\<rparr>"

definition range_history_ip :: "AddressRangeSpec \<Rightarrow> byte list \<Rightarrow> ipprefix \<Rightarrow> addr option" where
  "range_history_ip s off p =
     (case CalculateAddressRange p (range_cfg s) of
        Inl _ \<Rightarrow> None
      | Inr r \<Rightarrow> offsetAddressWithin (ar_Start r) (ar_End r) off)"

definition calculateAddressRangeIPs :: "DynamicPrefix \<Rightarrow> addr \<Rightarrow> string \<Rightarrow> int \<Rightarrow> service_error + string \<times> string list" where
  "calculateAddressRangeIPs dp currentAddr rangeName maxHistory =
     (case find (\<lambda>s. ars_Name s = rangeName) (spec_AddressRanges (dp_Spec dp)) of
        None \<Rightarrow> Err (RangeNotDefined rangeName (dp_Name dp))
      | Some s \<Rightarrow>
     (case netip_ParsePrefix (st_CurrentPrefix (dp_Status dp)) of
        Inl e \<Rightarrow> Err (CurrentPrefixInvalid (st_CurrentPrefix (dp_Status dp)) e)
      | Inr currentPrefix \<Rightarrow>
     (case CalculateAddressRange currentPrefix (range_cfg s) of
        Inl e \<Rightarrow> Err (RangeNotCalculated e)
      | Inr currentRange \<Rightarrow>
          let (off, ok) = calculateIPOffset (ar_Start currentRange) currentAddr in
          if \<not> ok then Err (BelowRange currentAddr (ars_Name s))
          else Ok (AddrString currentAddr,
            AddrString currentAddr #
            map AddrString (List.map_filter (range_history_ip s off) (window dp maxHistory))))))"

definition subnet_history_ip :: "SubnetSpec \<Rightarrow> byte list \<Rightarrow> ipprefix \<Rightarrow> addr option" where
  "subnet_history_ip s off p =
     (case CalculateSubnet p (subnet_cfg s) of
        Inl _ \<Rightarrow> None
      | Inr sn \<Rightarrow>
          (case lastAddrOfPrefix (sn_CIDR sn) of
             Inl _ \<Rightarrow> None
           | Inr lst \<Rightarrow> offsetAddressWithin (pfx_ip (sn_CIDR sn)) lst off))"

definition calculateSubnetIPs :: "DynamicPrefix \<Rightarrow> addr \<Rightarrow> string \<Rightarrow> int \<Rightarrow> service_error + string \<times> string list" where
  "calculateSubnetIPs dp currentAddr subnetName maxHistory =
     (case find (\<lambda>s. sns_Name s = subnetName) (spec_Subnets (dp_Spec dp)) of
        None \<Rightarrow> Err (SubnetNotDefined subnetName (dp_Name dp))
      | Some s \<Rightarrow>
     (case netip_ParsePrefix (st_CurrentPrefix (dp_Status dp)) of
        Inl e \<Rightarrow> Err (CurrentPrefixInvalid (st_CurrentPrefix (dp_Status dp)) e)
      | Inr currentPrefix \<Rightarrow>
     (case CalculateSubnet currentPrefix (subnet_cfg s) of
        Inl e \<Rightarrow> Err (SubnetNotCalculated e)
      | Inr currentSubnet \<Rightarrow>
          let (off, ok) = calculateIPOffset (pfx_ip (sn_CIDR currentSubnet)) currentAddr in
          if \<not> ok then Err (BelowSubnet currentAddr (sns_Name s))
          else Ok (AddrString currentAddr,
            AddrString currentAddr #
            map AddrString (List.map_filter (subnet_history_ip s off) (window dp maxHistory))))))"

subsection \<open>The address of a Service\<close>

definition AnnotationServiceAddressRange :: string where
  "AnnotationServiceAddressRange = ''dynamic-prefix.io/service-address-range''"
definition AnnotationServiceSubnet :: string where
  "AnnotationServiceSubnet = ''dynamic-prefix.io/service-subnet''"
definition AnnotationSuffix :: string where "AnnotationSuffix = ''dynamic-prefix.io/suffix''"

text \<open>The part of a Service the controller reads; the ingress points are given by their \<^verbatim>\<open>ip\<close> field.\<close>

datatype ServiceType = ServiceTypeLoadBalancer | OtherServiceType

record Service =
  svc_Name :: string
  svc_Namespace :: string
  svc_Type :: ServiceType
  svc_Annotations :: annotations
  svc_Ingress :: "string list"

text \<open>Reading a missing key of a Go map gives the empty string.\<close>

definition ann_value :: "annotations \<Rightarrow> string \<Rightarrow> string" where
  "ann_value ann k = (case ann k of None \<Rightarrow> [] | Some v \<Rightarrow> v)"

definition getCurrentServiceIP :: "Service \<Rightarrow> string" where
  "getCurrentServiceIP svc =
     (case find (\<lambda>ip. ip \<noteq> [] \<and> (case ParseAddr ip of Inl _ \<Rightarrow> False | Inr a \<Rightarrow> Is6 a)) (svc_Ingress svc) of
        Some ip \<Rightarrow> ip
      | None \<Rightarrow> (case find (\<lambda>ip. ip \<noteq> []) (svc_Ingress svc) of Some ip \<Rightarrow> ip | None \<Rightarrow> []))"

definition range_name :: "annotations \<Rightarrow> string" where
  "range_name ann =
     (let n = ann_value ann AnnotationServiceAddressRange in if n = [] then ann_value ann AnnotationAddressRange else n)"

definition subnet_name :: "annotations \<Rightarrow> string" where
  "subnet_name ann =
     (let n = ann_value ann AnnotationServiceSubnet in if n = [] then ann_value ann AnnotationSubnet else n)"

definition calculateServiceIPs :: "DynamicPrefix \<Rightarrow> Service \<Rightarrow> string \<Rightarrow> service_error + string list \<times> string" where
  "calculateServiceIPs dp svc currentServiceIP =
     (let maxHistory = service_maxHistory dp; ann = svc_Annotations svc in
      case ParseAddr currentServiceIP of
        Inl e \<Rightarrow> Err (AssignedInvalid currentServiceIP e)
      | Inr currentAddr \<Rightarrow>
          if range_name ann \<noteq> [] then
            (case calculateAddressRangeIPs dp currentAddr (range_name ann) maxHistory of
               Inl _ \<Rightarrow> Ok ([currentServiceIP], currentServiceIP)
             | Inr (cur, ips) \<Rightarrow> Ok (ips, cur))
          else if subnet_name ann \<noteq> [] then
            (case calculateSubnetIPs dp currentAddr (subnet_name ann) maxHistory of
               Inl _ \<Rightarrow> Ok ([currentServiceIP], currentServiceIP)
             | Inr (cur, ips) \<Rightarrow> Ok (ips, cur))
          else
            (let (cur, ips) = calculateInferredSuffixIPs dp currentAddr maxHistory in
             if cur = [] then Ok ([currentServiceIP], currentServiceIP) else Ok (ips, cur)))"

definition addressesForService :: "DynamicPrefix \<Rightarrow> Service \<Rightarrow> service_error + string list \<times> string \<times> duration" where
  "addressesForService dp svc =
     (let suffix = ann_value (svc_Annotations svc) AnnotationSuffix in
      if suffix \<noteq> [] then
        (case calculateSuffixIPs dp suffix of
           Inl e \<Rightarrow> Err e
         | Inr (allIPs, currentIP) \<Rightarrow> Ok (allIPs, currentIP, 0))
      else let currentServiceIP = getCurrentServiceIP svc in
        if currentServiceIP = [] then Ok ([], [], 5 * second)
        else (case calculateServiceIPs dp svc currentServiceIP of
           Inl e \<Rightarrow> Err e
         | Inr (allIPs, currentIP) \<Rightarrow> Ok (allIPs, currentIP, 0)))"

subsection \<open>Byte loops are 128-bit arithmetic\<close>

text \<open>The number a big-endian byte list denotes.\<close>

fun num :: "byte list \<Rightarrow> nat" where
  "num [] = 0"
| "num (b # bs) = unat b * 256 ^ length bs + num bs"

lemma num_less: "num bs < 256 ^ length bs"
proof (induction bs)
  case (Cons b bs)
  have "unat b < 256"
    using unsigned_less [of b] by simp
  then have "unat b * 256 ^ length bs + 256 ^ length bs \<le> 256 * 256 ^ length bs"
    by (metis Suc_leI add.commute mult_Suc mult_le_mono1)
  with Cons have "unat b * 256 ^ length bs + num bs < 256 * 256 ^ length bs"
    by linarith
  then show ?case
    by simp
qed simp

lemma word_shift_byte: "push_bit 8 acc OR ucast (b :: byte) = acc * 256 + (of_nat (unat b) :: 128 word)"
proof -
  have "push_bit 8 acc OR ucast b = push_bit 8 acc + (ucast b :: 128 word)"
    by (intro disjunctive_add_eq_or [symmetric] bit_word_eqI) (auto simp: bit_simps dest: bit_imp_le_length)
  then show ?thesis
    by (simp add: push_bit_eq_mult)
qed

lemma word_of_bytes_num: "word_of_bytes bs = of_nat (num bs)"
proof -
  have "foldl (\<lambda>acc b. push_bit 8 acc OR ucast b) acc bs = acc * 256 ^ length bs + (of_nat (num bs) :: 128 word)" for acc
    by (induction bs arbitrary: acc) (simp_all add: word_shift_byte algebra_simps)
  then show ?thesis
    by (simp add: word_of_bytes_def)
qed

lemma unat_word_of_bytes: "length bs = 16 \<Longrightarrow> unat (word_of_bytes bs) = num bs"
  using num_less [of bs] by (simp add: word_of_bytes_num unat_of_nat)

lemma num_bytes16 [simp]: "num (bytes16 w) = unat w"
  using unat_word_of_bytes [of "bytes16 w"] by simp

lemma num_inject: "length xs = 16 \<Longrightarrow> length ys = 16 \<Longrightarrow> num xs = num ys \<Longrightarrow> xs = ys"
  by (metis bytes16_word_of_bytes word_of_bytes_num)

lemma unat_byte: "unat (b :: byte) < 256"
  using unsigned_less [of b] by simp

lemma sub_digit:
  fixes t b c :: byte
  assumes "c = 0 \<or> c = 1"
  shows "unat (t - b - c) + unat b + unat c = unat t + 256 * (if t < b \<or> t = b \<and> c = 1 then 1 else 0)"
proof -
  have "t = b \<longleftrightarrow> unat t = unat b"
    by (simp add: word_unat_eq_iff)
  then show ?thesis
    using assms unat_byte [of t] unat_byte [of b]
    by (auto simp: unat_sub_if_size word_size word_less_nat_alt)
qed

lemma sub_bytes_num:
  "length ts = length bs \<Longrightarrow> sub_bytes ts bs = (ds, c) \<Longrightarrow>
   length ds = length bs \<and> (c = 0 \<or> c = 1) \<and> num ds + num bs = num ts + unat c * 256 ^ length bs"
proof (induction ts bs arbitrary: ds c rule: sub_bytes.induct)
  case (1 t ts b bs)
  obtain ds' c' where rest: "sub_bytes ts bs = (ds', c')"
    by fastforce
  have len: "length ts = length bs"
    using 1(2) by simp
  have IH: "length ds' = length bs" "c' = 0 \<or> c' = 1" "num ds' + num bs = num ts + unat c' * 256 ^ length bs"
    using 1(1) [OF len rest] by blast+
  let ?P = "256 ^ length bs :: nat"
  have "(unat (t - b - c') + unat b + unat c') * ?P = (unat t + 256 * (if t < b \<or> t = b \<and> c' = 1 then 1 else 0)) * ?P"
    using sub_digit [OF IH(2), of t b] by simp
  moreover have "ds = (t - b - c') # ds'" "c = (if t < b \<or> t = b \<and> c' = 1 then 1 else 0)"
    using 1(3) rest by simp_all
  moreover have "unat (if t < b \<or> t = b \<and> c' = 1 then 1 else 0 :: byte) = (if t < b \<or> t = b \<and> c' = 1 then 1 else 0)"
    by simp
  ultimately show ?case
    using IH 1(2) by (simp add: algebra_simps)
qed auto

lemma add_digit:
  fixes b d :: byte and c :: "16 word"
  assumes "c = 0 \<or> c = 1"
  defines "s \<equiv> ucast b + ucast d + c"
  shows "unat (ucast (s AND 0xFF) :: byte) + 256 * unat (drop_bit 8 s) = unat b + unat d + unat c"
    and "drop_bit 8 s = 0 \<or> drop_bit 8 s = 1"
proof -
  have s: "unat s = unat b + unat d + unat c"
    using assms unat_byte [of b] unat_byte [of d] by (auto simp: s_def unat_word_ariths unsigned_ucast_eq take_bit_nat_eq_self)
  have "s AND 0xFF = take_bit 8 s"
    by (simp add: take_bit_eq_mask mask_numeral)
  then have low: "unat (ucast (s AND 0xFF) :: byte) = unat s mod 256"
    by (simp add: unsigned_ucast_eq take_bit_eq_mod unsigned_take_bit_eq unat_mod)
  have high: "unat (drop_bit 8 s) = unat s div 256"
    by (simp add: drop_bit_eq_div unat_div)
  show "unat (ucast (s AND 0xFF) :: byte) + 256 * unat (drop_bit 8 s) = unat b + unat d + unat c"
    using low high s by simp
  have "unat s div 256 \<le> 1"
    using s assms(1) unat_byte [of b] unat_byte [of d] by auto
  then show "drop_bit 8 s = 0 \<or> drop_bit 8 s = 1"
    using high by (simp add: word_unat_eq_iff) linarith
qed

lemma add_bytes_num:
  "length bs = length ds \<Longrightarrow> add_bytes bs ds = (rs, c) \<Longrightarrow>
   length rs = length ds \<and> (c = 0 \<or> c = 1) \<and> num rs + unat c * 256 ^ length ds = num bs + num ds"
proof (induction bs ds arbitrary: rs c rule: add_bytes.induct)
  case (1 b bs d ds)
  obtain rs' c' where rest: "add_bytes bs ds = (rs', c')"
    by fastforce
  have len: "length bs = length ds"
    using 1(2) by simp
  have IH: "length rs' = length ds" "c' = 0 \<or> c' = 1" "num rs' + unat c' * 256 ^ length ds = num bs + num ds"
    using 1(1) [OF len rest] by blast+
  let ?P = "256 ^ length ds :: nat" and ?s = "ucast b + ucast d + c'"
  have "(unat (ucast (?s AND 0xFF) :: byte) + 256 * unat (drop_bit 8 ?s)) * ?P = (unat b + unat d + unat c') * ?P"
    using add_digit(1) [OF IH(2), of b d] by simp
  moreover have "rs = ucast (?s AND 0xFF) # rs'" "c = drop_bit 8 ?s"
    using 1(3) rest by (simp_all add: Let_def)
  ultimately show ?case
    using IH 1(2) add_digit(2) [OF IH(2), of b d] by (simp add: algebra_simps)
qed auto

subsection \<open>Offsets of addresses\<close>

lemma As16_Addr6 [simp]: "As16 (Addr6 w z) = bytes16 w"
  by (simp add: As16_def addr128_def)

lemma calculateIPOffset_words:
  "calculateIPOffset (Addr6 b z) (Addr6 t z') = (bytes16 (t - b), b \<le> t)"
proof -
  obtain ds c where sub: "sub_bytes (bytes16 t) (bytes16 b) = (ds, c)"
    by fastforce
  have *: "length ds = 16" "c = 0 \<or> c = 1" "num ds + unat b = unat t + unat c * 256 ^ 16"
    using sub_bytes_num [OF _ sub] by simp_all
  have less: "num ds < 256 ^ 16"
    using num_less [of ds] *(1) by simp
  have "c = 0 \<longleftrightarrow> b \<le> t"
    using * less unat128_less [of b] unat128_less [of t] by (auto simp: word_le_nat_alt)
  moreover have "num ds = unat (t - b)"
    using * less unat128_less [of b] unat128_less [of t] by (auto simp: unat_sub_if_size word_size word_le_nat_alt)
  then have "ds = bytes16 (t - b)"
    using num_inject [of ds "bytes16 (t - b)"] *(1) by simp
  ultimately show ?thesis
    by (simp add: calculateIPOffset_def sub)
qed

lemma applyIPOffset_words:
  "applyIPOffset (Addr6 b z) (bytes16 d) = (Addr6 (b + d) [], unat b + unat d < 2 ^ 128)"
proof -
  obtain rs c where add: "add_bytes (bytes16 b) (bytes16 d) = (rs, c)"
    by fastforce
  have *: "length rs = 16" "c = 0 \<or> c = 1" "num rs + unat c * 256 ^ 16 = unat b + unat d"
    using add_bytes_num [OF _ add] by simp_all
  have less: "num rs < 256 ^ 16"
    using num_less [of rs] *(1) by simp
  have "c = 0 \<longleftrightarrow> unat b + unat d < 2 ^ 128"
    using * less by auto
  moreover have "num rs = unat (b + d)"
    using * less by (auto simp: unat_word_ariths simp flip: *(3))
  then have "rs = bytes16 (b + d)"
    using num_inject [of rs "bytes16 (b + d)"] *(1) by simp
  ultimately show ?thesis
    by (simp add: applyIPOffset_def add AddrFrom16_def)
qed

lemma addr_Less_v6 [simp]: "addr_Less (Addr6 a []) (Addr6 b []) \<longleftrightarrow> a < b"
  by (auto simp: addr_Less_def Compare_def BitLen_def addr128_def Is6_def Zone_def)

lemma offsetAddressWithin_words:
  "offsetAddressWithin (Addr6 b []) (Addr6 l []) (bytes16 d) =
     (if unat b + unat d \<le> unat l then Some (Addr6 (b + d) []) else None)"
proof (cases "unat b + unat d < 2 ^ 128")
  case True
  then have "unat (b + d) = unat b + unat d"
    by (simp add: unat_word_ariths)
  then show ?thesis
    using True by (auto simp: offsetAddressWithin_def applyIPOffset_words word_less_nat_alt)
next
  case False
  then show ?thesis
    using unat128_less [of l] by (simp add: offsetAddressWithin_def applyIPOffset_words)
qed

text \<open>
  C25: The byte loops of the Service controller are 128-bit arithmetic: the offset between two IPv6
  addresses is accepted exactly when the target is not below the base, and carrying an accepted
  offset to another window gives the address at the same distance from its base, or nothing when that
  distance leaves the window (also by wrapping past the last IPv6 address); carried back to its own
  window it gives the address it came from.
\<close>

theorem offsets_carry_between_windows:
  "\<exists>off ok. calculateIPOffset (Addr6 b []) (Addr6 t []) = (off, ok) \<and> (ok \<longleftrightarrow> b \<le> t) \<and>
     (ok \<longrightarrow>
       offsetAddressWithin (Addr6 b' []) (Addr6 l' []) off =
         (if unat b' + (unat t - unat b) \<le> unat l' then Some (Addr6 (b' + (t - b)) []) else None) \<and>
       (t \<le> l \<longrightarrow> offsetAddressWithin (Addr6 b []) (Addr6 l []) off = Some (Addr6 t [])))"
proof -
  have "b \<le> t \<Longrightarrow> unat (t - b) = unat t - unat b"
    by (simp add: unat_sub)
  then show ?thesis
    by (auto simp: calculateIPOffset_words offsetAddressWithin_words word_le_nat_alt)
qed

theorem offsets_carry_between_windows_witness:
  "\<exists>off. calculateIPOffset (Addr6 0x10 []) (Addr6 0x1F []) = (off, True) \<and>
     offsetAddressWithin (Addr6 0xF0 []) (Addr6 0xFF []) off = Some (Addr6 0xFF []) \<and>
     offsetAddressWithin (Addr6 0xF1 []) (Addr6 0xFF []) off = None"
  using offsets_carry_between_windows [of "0x10" "0x1F" "0xF0" "0xFF" "0x1F"]
    offsets_carry_between_windows [of "0x10" "0x1F" "0xF1" "0xFF" "0x1F"]
  by auto

subsection \<open>Grafting a host part\<close>

lemma combine_byte_merged:
  assumes "i < 16" "n \<le> 128"
  shows "combine_byte (int n) i (b ! i) (s ! i) = merged_bytes n b s ! i"
proof -
  have n: "n = n div 8 * 8 + n mod 8" "n mod 8 < 8"
    by simp_all
  have split: "int i * 8 + 8 \<le> int n \<longleftrightarrow> i < n div 8"
    "int n \<le> int i * 8 \<longleftrightarrow> n div 8 < i \<or> i = n div 8 \<and> n mod 8 = 0"
    using n by linarith+
  have "i = n div 8 \<Longrightarrow> nat (8 - (int n - int i * 8)) = 8 - n mod 8"
    using n by linarith
  then show ?thesis
    using assms by (auto simp: combine_byte_def nth_merged_bytes split Let_def not_less)
qed

lemma combinePrefixSuffix_v6:
  assumes "n \<le> 128"
  shows "combinePrefixSuffix (PrefixFrom (Addr6 w []) (int n)) (bytes16 v) = Addr6 (merge_bits n w v) []"
proof -
  have "map (\<lambda>i. combine_byte (int n) i (bytes16 w ! i) (bytes16 v ! i)) [0..<16] = merged_bytes n (bytes16 w) (bytes16 v)"
    using assms by (intro nth_equalityI) (simp_all add: combine_byte_merged)
  then show ?thesis
    using assms by (simp add: combinePrefixSuffix_def AddrFrom16_def word_of_merged_bytes)
qed

subsection \<open>Windows of the managed prefixes\<close>

definition managed_v6 :: "DynamicPrefix \<Rightarrow> bool" where
  "managed_v6 dp \<longleftrightarrow> (\<forall>p \<in> set (collectManagedPrefixes dp). Is6 (pfx_ip p))"

definition managed_text :: "DynamicPrefix \<Rightarrow> string \<Rightarrow> bool" where
  "managed_text dp s \<longleftrightarrow> (\<exists>p \<in> set (collectManagedPrefixes dp). \<exists>w. Contains p (Addr6 w []) \<and> s = AddrString (Addr6 w []))"

lemma window_managed: "p \<in> set (window dp k) \<Longrightarrow> p \<in> set (collectManagedPrefixes dp)"
  by (fastforce simp: window_def collectManagedPrefixes_def Let_def dest!: in_set_takeD)

lemma current_managed: "netip_ParsePrefix (st_CurrentPrefix (dp_Status dp)) = Ok p \<Longrightarrow> p \<in> set (collectManagedPrefixes dp)"
  using ParsePrefix_OkD(4) [of "[]" p] by (auto simp: collectManagedPrefixes_def Let_def)

lemma managed_cases:
  assumes "managed_v6 dp" "p \<in> set (collectManagedPrefixes dp)"
  obtains w n where "p = PrefixFrom (Addr6 w []) (int n)" "n \<le> 128"
proof -
  obtain t where "netip_ParsePrefix t = Ok p"
    using assms(2) by (auto simp: collectManagedPrefixes_def Let_def split: if_splits sum.splits)
  then show ?thesis
    using that assms wf_prefix_v6_cases ParsePrefix_OkD unfolding managed_v6_def by metis
qed

lemma managed_combined:
  assumes "managed_v6 dp" "p \<in> set (collectManagedPrefixes dp)"
  shows "managed_text dp (AddrString (combinePrefixSuffix p (As16 a)))"
proof -
  obtain w n where p: "p = PrefixFrom (Addr6 w []) (int n)" "n \<le> 128"
    using assms by (rule managed_cases)
  then have "Contains p (Addr6 (merge_bits n w (addr128 a)) [])"
    by (simp add: Contains_v6)
  then show ?thesis
    using p assms(2) by (auto simp: managed_text_def As16_def combinePrefixSuffix_v6)
qed

lemma offset_in_prefix:
  assumes "wf_prefix p" "Contains p (Addr6 b [])" "Contains p (Addr6 l [])"
    and "offsetAddressWithin (Addr6 b []) (Addr6 l []) (bytes16 d) = Some a"
  shows "\<exists>x. a = Addr6 x [] \<and> Contains p (Addr6 x [])"
proof -
  have le: "unat b + unat d \<le> unat l" and a: "a = Addr6 (b + d) []"
    using assms(4) by (auto simp: offsetAddressWithin_words split: if_splits)
  then have "unat (b + d) = unat b + unat d"
    using unat128_less [of l] by (simp add: unat_word_ariths)
  then have "b \<le> b + d" "b + d \<le> l"
    using le by (simp_all add: word_le_nat_alt)
  then show ?thesis
    using a Contains_between [OF assms(1-3)] by blast
qed

lemma range_history_managed:
  assumes "managed_v6 dp" "p \<in> set (collectManagedPrefixes dp)" "range_history_ip s (bytes16 d) p = Some a"
  shows "managed_text dp (AddrString a)"
proof -
  obtain r where r: "CalculateAddressRange p (range_cfg s) = Ok r" "offsetAddressWithin (ar_Start r) (ar_End r) (bytes16 d) = Some a"
    using assms(3) by (auto simp: range_history_ip_def split: sum.splits)
  have wf: "wf_prefix p"
    using managed_cases [OF assms(1,2)] wf_PrefixFrom by metis
  from address_range_inside_prefix [OF wf r(1)] obtain lo hi where
    "ar_Start r = Addr6 lo []" "ar_End r = Addr6 hi []" "Contains p (Addr6 lo [])" "Contains p (Addr6 hi [])"
    by auto
  then show ?thesis
    using offset_in_prefix [OF wf] r(2) assms(2) unfolding managed_text_def by metis
qed

lemma subnet_history_managed:
  assumes "managed_v6 dp" "p \<in> set (collectManagedPrefixes dp)" "subnet_history_ip s (bytes16 d) p = Some a"
  shows "managed_text dp (AddrString a)"
proof -
  obtain w n where p: "p = PrefixFrom (Addr6 w []) (int n)" "n \<le> 128"
    using assms(1,2) by (rule managed_cases)
  obtain sn lst where sn: "CalculateSubnet p (subnet_cfg s) = Ok sn" "lastAddrOfPrefix (sn_CIDR sn) = Ok lst"
    "offsetAddressWithin (pfx_ip (sn_CIDR sn)) lst (bytes16 d) = Some a"
    using assms(3) by (auto simp: subnet_history_ip_def split: sum.splits)
  define l off where "l = nat (sns_PrefixLength s)" and "off = nat (sns_Offset s)"
  have l: "n \<le> l" "l \<le> 128" and cidr: "sn_CIDR sn = PrefixFrom (Addr6 (subnet_word w n l off) []) (int l)"
    and "sns_Offset s < 2 ^ (l - n)"
    using sn(1) p by (auto simp: CalculateSubnet_v6 subnet_cfg_def Let_def l_def off_def nat_diff_distrib' split: if_splits)
  then have off: "off < 2 ^ (l - n)"
    by (simp add: off_def nat_less_iff)
  let ?b = "subnet_word w n l off"
  have "Contains p (Addr6 ?b [])"
    using p subnet_value_bounds(2) [OF l off] by (simp add: Contains_v6 and_mask6_eq_iff_unat unat_subnet_word [OF l off])
  moreover have "(?b OR mask (128 - l)) AND mask6 n = ?b AND mask6 n"
    using l by (intro bit_word_eqI) (auto simp: bit_simps mask6_def)
  then have "Contains p (Addr6 (?b OR mask (128 - l)) [])"
    using calculation p by (simp add: Contains_v6)
  moreover have "lst = Addr6 (?b OR mask (128 - l)) []"
    using sn(2) l(2) by (simp add: cidr lastAddrOfPrefix_v6 subnet_word_masked [OF l off])
  then have "offsetAddressWithin (Addr6 ?b []) (Addr6 (?b OR mask (128 - l)) []) (bytes16 d) = Some a"
    using sn(3) cidr by simp
  ultimately show ?thesis
    using offset_in_prefix [of p] p(1) assms(2) wf_PrefixFrom unfolding managed_text_def by metis
qed

lemma calculateIPOffset_bytes: "\<exists>d. fst (calculateIPOffset b t) = bytes16 d"
proof -
  have "calculateIPOffset b t = calculateIPOffset (Addr6 (addr128 b) []) (Addr6 (addr128 t) [])"
    by (simp add: calculateIPOffset_def As16_def addr128_def)
  then show ?thesis
    by (auto simp: calculateIPOffset_words)
qed

subsection \<open>Every address is managed or assigned\<close>

text \<open>What the three modes may return: a list that begins with the current address and otherwise stays managed.\<close>

definition sound_ips :: "DynamicPrefix \<Rightarrow> string set \<Rightarrow> string list \<Rightarrow> string \<Rightarrow> bool" where
  "sound_ips dp assigned ips cur \<longleftrightarrow>
     (\<exists>rest. ips = cur # rest \<and> (cur \<in> assigned \<or> managed_text dp cur) \<and> (\<forall>s \<in> set rest. managed_text dp s))"

lemma sound_assigned: "cur \<in> A \<Longrightarrow> sound_ips dp A [cur] cur"
  by (simp add: sound_ips_def)

lemma sound_suffix:
  assumes "managed_v6 dp" "calculateSuffixIPs dp suffix = Ok (ips, cur)"
  shows "sound_ips dp {} ips cur"
  using assms(2) managed_combined [OF assms(1)] current_managed window_managed
  by (auto simp: calculateSuffixIPs_def sound_ips_def Let_def split: sum.splits if_splits)

lemma sound_inferred:
  assumes "managed_v6 dp" "calculateInferredSuffixIPs dp a k = (cur, ips)" "cur \<noteq> []"
  shows "sound_ips dp {} ips cur"
  using assms(2,3) managed_combined [OF assms(1)] current_managed window_managed
  by (auto simp: calculateInferredSuffixIPs_def sound_ips_def Let_def split: sum.splits if_splits)

lemma sound_range:
  assumes "managed_v6 dp" "calculateAddressRangeIPs dp a name k = Ok (cur, ips)"
  shows "cur = AddrString a \<and> sound_ips dp {AddrString a} ips cur"
proof -
  obtain s where s: "find (\<lambda>s. ars_Name s = name) (spec_AddressRanges (dp_Spec dp)) = Some s"
    using assms(2) by (auto simp: calculateAddressRangeIPs_def split: option.splits)
  obtain p where p: "netip_ParsePrefix (st_CurrentPrefix (dp_Status dp)) = Ok p"
    using assms(2) s by (auto simp: calculateAddressRangeIPs_def split: sum.splits)
  obtain r where r: "CalculateAddressRange p (range_cfg s) = Ok r"
    using assms(2) s p by (auto simp: calculateAddressRangeIPs_def split: sum.splits)
  obtain off ok where off: "calculateIPOffset (ar_Start r) a = (off, ok)"
    by fastforce
  have *: "cur = AddrString a" "ips = AddrString a # map AddrString (List.map_filter (range_history_ip s off) (window dp k))"
    using assms(2) s p r off by (auto simp: calculateAddressRangeIPs_def split: if_splits)
  obtain d where "off = bytes16 d"
    using calculateIPOffset_bytes [of "ar_Start r" a] off by auto
  then show ?thesis
    using * range_history_managed [OF assms(1) window_managed]
    by (auto simp: sound_ips_def List.map_filter_def)
qed

lemma sound_subnet:
  assumes "managed_v6 dp" "calculateSubnetIPs dp a name k = Ok (cur, ips)"
  shows "cur = AddrString a \<and> sound_ips dp {AddrString a} ips cur"
proof -
  obtain s where s: "find (\<lambda>s. sns_Name s = name) (spec_Subnets (dp_Spec dp)) = Some s"
    using assms(2) by (auto simp: calculateSubnetIPs_def split: option.splits)
  obtain p where p: "netip_ParsePrefix (st_CurrentPrefix (dp_Status dp)) = Ok p"
    using assms(2) s by (auto simp: calculateSubnetIPs_def split: sum.splits)
  obtain r where r: "CalculateSubnet p (subnet_cfg s) = Ok r"
    using assms(2) s p by (auto simp: calculateSubnetIPs_def split: sum.splits)
  obtain off ok where off: "calculateIPOffset (pfx_ip (sn_CIDR r)) a = (off, ok)"
    by fastforce
  have *: "cur = AddrString a" "ips = AddrString a # map AddrString (List.map_filter (subnet_history_ip s off) (window dp k))"
    using assms(2) s p r off by (auto simp: calculateSubnetIPs_def split: if_splits)
  obtain d where "off = bytes16 d"
    using calculateIPOffset_bytes [of "pfx_ip (sn_CIDR r)" a] off by auto
  then show ?thesis
    using * subnet_history_managed [OF assms(1) window_managed]
    by (auto simp: sound_ips_def List.map_filter_def)
qed

definition assigned_texts :: "string \<Rightarrow> string set" where
  "assigned_texts ip = insert ip (case ParseAddr ip of Inl _ \<Rightarrow> {} | Inr a \<Rightarrow> {AddrString a})"

lemma sound_mono: "sound_ips dp A ips cur \<Longrightarrow> A \<subseteq> B \<Longrightarrow> sound_ips dp B ips cur"
  by (auto simp: sound_ips_def)

lemma sound_service:
  assumes "managed_v6 dp" "calculateServiceIPs dp svc ip = Ok (ips, cur)"
  shows "sound_ips dp (assigned_texts ip) ips cur"
proof -
  obtain a where a: "ParseAddr ip = Ok a"
    using assms(2) by (auto simp: calculateServiceIPs_def Let_def split: sum.splits)
  let ?A = "assigned_texts ip" and ?k = "service_maxHistory dp" and ?ann = "svc_Annotations svc"
  have A: "{AddrString a} \<subseteq> ?A" "ip \<in> ?A"
    by (simp_all add: assigned_texts_def a)
  have same: "ips = [ip] \<and> cur = ip \<Longrightarrow> ?thesis"
    using A(2) sound_assigned by simp
  consider (range) "range_name ?ann \<noteq> []" | (subnet) "range_name ?ann = []" "subnet_name ?ann \<noteq> []"
    | (inferred) "range_name ?ann = []" "subnet_name ?ann = []"
    by blast
  then show ?thesis
  proof cases
    case range
    then have "ips = [ip] \<and> cur = ip \<or> calculateAddressRangeIPs dp a (range_name ?ann) ?k = Ok (cur, ips)"
      using assms(2) a by (auto simp: calculateServiceIPs_def Let_def split: sum.splits)
    then show ?thesis
      using same sound_range [OF assms(1)] sound_mono [OF _ A(1)] by blast
  next
    case subnet
    then have "ips = [ip] \<and> cur = ip \<or> calculateSubnetIPs dp a (subnet_name ?ann) ?k = Ok (cur, ips)"
      using assms(2) a by (auto simp: calculateServiceIPs_def Let_def split: sum.splits)
    then show ?thesis
      using same sound_subnet [OF assms(1)] sound_mono [OF _ A(1)] by blast
  next
    case inferred
    then have "ips = [ip] \<and> cur = ip \<or> calculateInferredSuffixIPs dp a ?k = (cur, ips) \<and> cur \<noteq> []"
      using assms(2) a by (auto simp: calculateServiceIPs_def Let_def split: prod.splits if_splits)
    then show ?thesis
      using same sound_inferred [OF assms(1)] sound_mono [OF _ empty_subsetI] by blast
  qed
qed

text \<open>
  C6: The operator requests only addresses it may: whatever mode a Service uses, an answer is a
  non-empty list that starts with the current address, and every address in it lies in a prefix the
  operator manages (the current one or one of the history), except that the first may be the address
  the Service holds already, as it is written in the status or reprinted.  With a declared suffix the
  exception does not apply.
\<close>

theorem service_addresses_are_managed:
  assumes "managed_v6 dp" and "addressesForService dp svc = Ok (allIPs, currentIP, 0)"
  shows "\<exists>rest. allIPs = currentIP # rest \<and>
     (managed_text dp currentIP \<or>
        ann_value (svc_Annotations svc) AnnotationSuffix = [] \<and> currentIP \<in> assigned_texts (getCurrentServiceIP svc)) \<and>
     (\<forall>s \<in> set rest. managed_text dp s)"
proof (cases "ann_value (svc_Annotations svc) AnnotationSuffix = []")
  case True
  then have "calculateServiceIPs dp svc (getCurrentServiceIP svc) = Ok (allIPs, currentIP)"
    using assms(2) by (auto simp: addressesForService_def Let_def second_def split: sum.splits if_splits)
  then show ?thesis
    using sound_service [OF assms(1)] True unfolding sound_ips_def by blast
next
  case False
  then have "calculateSuffixIPs dp (ann_value (svc_Annotations svc) AnnotationSuffix) = Ok (allIPs, currentIP)"
    using assms(2) by (auto simp: addressesForService_def Let_def split: sum.splits)
  then show ?thesis
    using sound_suffix [OF assms(1)] unfolding sound_ips_def by blast
qed

theorem service_addresses_are_managed_witness:
  "let svc = \<lparr>svc_Name = ''web'', svc_Namespace = ''default'', svc_Type = ServiceTypeLoadBalancer,
        svc_Annotations = [AnnotationSuffix \<mapsto> ''::5''], svc_Ingress = []\<rparr>
   in \<exists>cur rest. addressesForService subnet_dp svc = Ok (cur # rest, cur, 0) \<and> length rest = 1 \<and>
        managed_text subnet_dp cur \<and> (\<forall>s \<in> set rest. managed_text subnet_dp s)"
proof -
  let ?svc = "\<lparr>svc_Name = ''web'', svc_Namespace = ''default'', svc_Type = ServiceTypeLoadBalancer,
        svc_Annotations = [AnnotationSuffix \<mapsto> ''::5''], svc_Ingress = []\<rparr>"
  have managed: "managed_v6 subnet_dp"
    by (simp add: managed_v6_def collectManagedPrefixes_def subnet_dp_simps sample_network_facts Let_def)
  have ann: "ann_value (svc_Annotations ?svc) AnnotationSuffix = ''::5''"
    by (simp add: ann_value_def)
  have "ParseAddr ''::5'' = Ok (Addr6 5 [])"
    by (simp add: go_eval)
  moreover have "PrefixString (sample_network k) \<noteq> []" for k
    using subnet_texts [of k] ParsePrefix_OkD(4) by force
  ultimately obtain cur rest where r: "addressesForService subnet_dp ?svc = Ok (cur # rest, cur, 0)" "length rest = 1"
    using ann by (auto simp: addressesForService_def calculateSuffixIPs_def window_def service_maxHistory_def
        subnet_dp_simps Is4_def Let_def)
  then show ?thesis
    using service_addresses_are_managed [OF managed r(1)] ann by (auto simp: Let_def)
qed

subsection \<open>Rotation\<close>

text \<open>
  C22: An address inferred from the assigned one follows the prefix and then stays: while no range,
  subnet or suffix is named, a Service that holds an address of a managed prefix is asked to use the
  current prefix with the same host part, and once that address is the assigned one the answer is
  the same address again.
\<close>

theorem inferred_address_follows_prefix:
  assumes "netip_ParsePrefix (st_CurrentPrefix (dp_Status dp)) = Ok (PrefixFrom (Addr6 w []) (int n))" and "n \<le> 128"
    and "ParseAddr (getCurrentServiceIP svc) = Ok (Addr6 v [])"
    and "\<exists>p \<in> insert (PrefixFrom (Addr6 w []) (int n)) (set (window dp (service_maxHistory dp))). Contains p (Addr6 v [])"
    and "ann_value (svc_Annotations svc) AnnotationSuffix = []"
    and "range_name (svc_Annotations svc) = []" and "subnet_name (svc_Annotations svc) = []"
  shows "\<exists>x ips ips'. (\<forall>k < 128. bit x k \<longleftrightarrow> (if 128 - n \<le> k then bit w k else bit v k)) \<and>
     addressesForService dp svc = Ok (ips, AddrString (Addr6 x []), 0) \<and>
     addressesForService dp (svc\<lparr>svc_Ingress := [AddrString (Addr6 x [])]\<rparr>) = Ok (ips', AddrString (Addr6 x []), 0)"
proof -
  let ?x = "merge_bits n w v" and ?cp = "PrefixFrom (Addr6 w []) (int n)"
  have step: "\<exists>ips. addressesForService dp s = Ok (ips, AddrString (Addr6 (merge_bits n w u) []), 0)"
    if "ParseAddr (getCurrentServiceIP s) = Ok (Addr6 u [])" "svc_Annotations s = svc_Annotations svc"
      "\<exists>p \<in> insert ?cp (set (window dp (service_maxHistory dp))). Contains p (Addr6 u [])" for s u
  proof -
    have "getCurrentServiceIP s \<noteq> []"
      using that(1) by (auto simp: ParseAddr_def go_eval)
    then show ?thesis
      using that assms(1,2,5-7) AddrString_nonempty
      by (auto simp: addressesForService_def calculateServiceIPs_def calculateInferredSuffixIPs_def Let_def
          combinePrefixSuffix_v6 list_ex_iff)
  qed
  have "merge_bits n w ?x = ?x"
    by (rule bit_word_eqI) (simp add: bit_merge_bits)
  moreover have "Contains ?cp (Addr6 ?x [])"
    using assms(2) by (simp add: Contains_v6)
  moreover have "getCurrentServiceIP (svc\<lparr>svc_Ingress := [AddrString (Addr6 ?x [])]\<rparr>) = AddrString (Addr6 ?x [])"
    using ParseAddr_AddrString [of "Addr6 ?x []"] AddrString_nonempty by (simp add: getCurrentServiceIP_def Is6_def)
  ultimately have "\<exists>ips. addressesForService dp (svc\<lparr>svc_Ingress := [AddrString (Addr6 ?x [])]\<rparr>) = Ok (ips, AddrString (Addr6 ?x []), 0)"
    using step [of "svc\<lparr>svc_Ingress := [AddrString (Addr6 ?x [])]\<rparr>" ?x] ParseAddr_AddrString [of "Addr6 ?x []"] by auto
  moreover have "\<exists>ips. addressesForService dp svc = Ok (ips, AddrString (Addr6 ?x []), 0)"
    using step [of svc v] assms(3,4) by blast
  moreover have "\<forall>k < 128. bit ?x k \<longleftrightarrow> (if 128 - n \<le> k then bit w k else bit v k)"
    by (simp add: bit_merge_bits)
  ultimately show ?thesis
    by blast
qed

definition sample_svc :: "annotations \<Rightarrow> string list \<Rightarrow> Service" where
  "sample_svc ann ingress = \<lparr>svc_Name = ''web'', svc_Namespace = ''default'', svc_Type = ServiceTypeLoadBalancer,
     svc_Annotations = ann, svc_Ingress = ingress\<rparr>"

theorem inferred_address_follows_prefix_witness:
  "\<exists>x ips. bit x 112 \<and> \<not> bit x 113 \<and> bit x 2 \<and>
     addressesForService subnet_dp (sample_svc Map.empty [''2001:db8:7::5'']) = Ok (ips, AddrString (Addr6 x []), 0)"
proof -
  let ?w = "0x20010DB8000100000000000000000000 :: 128 word" and ?v = "0x20010DB8000700000000000000000005 :: 128 word"
  let ?svc = "sample_svc Map.empty [''2001:db8:7::5'']"
  have net: "PrefixFrom (Addr6 ?w []) (int 48) = sample_network 1"
    by (simp add: sample_network_def)
  have cur: "netip_ParsePrefix (st_CurrentPrefix (dp_Status subnet_dp)) = Ok (PrefixFrom (Addr6 ?w []) (int 48))"
    unfolding net by (simp add: subnet_dp_simps)
  have ip: "ParseAddr (getCurrentServiceIP ?svc) = Ok (Addr6 ?v [])"
    by (simp add: getCurrentServiceIP_def sample_svc_def Is6_def go_eval)
  have "Contains (sample_network 7) (Addr6 ?v [])"
    by (simp add: sample_network_def go_eval)
  moreover have "sample_network 7 \<in> set (window subnet_dp (service_maxHistory subnet_dp))"
    by (simp add: window_def service_maxHistory_def subnet_dp_simps)
  ultimately have man: "\<exists>p \<in> insert (PrefixFrom (Addr6 ?w []) (int 48)) (set (window subnet_dp (service_maxHistory subnet_dp))). Contains p (Addr6 ?v [])"
    by blast
  have ann: "ann_value (svc_Annotations ?svc) AnnotationSuffix = []" "range_name (svc_Annotations ?svc) = []"
    "subnet_name (svc_Annotations ?svc) = []"
    by (simp_all add: sample_svc_def ann_value_def range_name_def subnet_name_def)
  have n: "(48 :: nat) \<le> 128"
    by simp
  obtain x ips where x: "\<forall>k < 128. bit x k \<longleftrightarrow> (if 128 - 48 \<le> k then bit ?w k else bit ?v k)"
    and r: "addressesForService subnet_dp ?svc = Ok (ips, AddrString (Addr6 x []), 0)"
    using inferred_address_follows_prefix [OF cur n ip man ann] by blast
  have "bit x 112" "\<not> bit x 113" "bit x 2"
    using x by simp_all
  then show ?thesis
    using r by blast
qed

text \<open>
  C38: A Service that names an address range or a subnet never leaves its address: whatever prefix the
  DynamicPrefix holds now, the current address computed for it is the one it was assigned, so the
  operator never requests an address of the new prefix for it.
\<close>

theorem named_modes_keep_assigned_address:
  assumes "range_name (svc_Annotations svc) \<noteq> [] \<or> subnet_name (svc_Annotations svc) \<noteq> []"
    and "ann_value (svc_Annotations svc) AnnotationSuffix = []"
    and "ParseAddr (getCurrentServiceIP svc) = Ok a"
  shows "\<exists>ips cur. addressesForService dp svc = Ok (ips, cur, 0) \<and> ParseAddr cur = Ok a \<and> cur \<in> set ips"
proof -
  have ne: "getCurrentServiceIP svc \<noteq> []" and a: "a \<noteq> AddrZero"
    using assms(3) ParseAddr_nonzero [OF assms(3)] by (auto simp: ParseAddr_def go_eval)
  have cur: "cur = AddrString a \<and> cur \<in> set ips"
    if "calculateAddressRangeIPs dp a nm k = Ok (cur, ips) \<or> calculateSubnetIPs dp a nm k = Ok (cur, ips)" for nm k cur ips
    using that
    by (auto simp: calculateAddressRangeIPs_def calculateSubnetIPs_def Let_def
        split: option.splits sum.splits prod.splits if_splits)
  have "\<exists>ips cur. calculateServiceIPs dp svc (getCurrentServiceIP svc) = Ok (ips, cur) \<and>
      (cur = getCurrentServiceIP svc \<or> cur = AddrString a) \<and> cur \<in> set ips"
  proof (cases "range_name (svc_Annotations svc) = []")
    case True
    then show ?thesis
      using assms(1,3) cur [of "subnet_name (svc_Annotations svc)" "service_maxHistory dp"]
      by (cases "calculateSubnetIPs dp a (subnet_name (svc_Annotations svc)) (service_maxHistory dp)")
        (auto simp: calculateServiceIPs_def Let_def)
  next
    case False
    then show ?thesis
      using assms(3) cur [of "range_name (svc_Annotations svc)" "service_maxHistory dp"]
      by (cases "calculateAddressRangeIPs dp a (range_name (svc_Annotations svc)) (service_maxHistory dp)")
        (auto simp: calculateServiceIPs_def Let_def)
  qed
  then show ?thesis
    using ne assms(2,3) ParseAddr_AddrString [OF a] by (auto simp: addressesForService_def Let_def)
qed

theorem named_modes_keep_assigned_address_witness:
  "\<exists>ips cur. addressesForService subnet_dp (sample_svc [AnnotationServiceSubnet \<mapsto> ''lan''] [''2001:db8:7::5'']) = Ok (ips, cur, 0) \<and>
     ParseAddr cur = Ok (Addr6 0x20010DB8000700000000000000000005 []) \<and> cur \<in> set ips"
proof (rule named_modes_keep_assigned_address)
  show "ParseAddr (getCurrentServiceIP (sample_svc [AnnotationServiceSubnet \<mapsto> ''lan''] [''2001:db8:7::5''])) =
      Ok (Addr6 0x20010DB8000700000000000000000005 [])"
    by (simp add: getCurrentServiceIP_def sample_svc_def Is6_def go_eval)
qed (simp_all add: sample_svc_def ann_value_def range_name_def subnet_name_def AnnotationServiceSubnet_def AnnotationSuffix_def
    AnnotationSubnet_def)

end
