(* ===== verification/Pool_Status.thy ===== *)
theory Pool_Status
  imports Pool_Config "HOL-Library.AList"
begin

text \<open>
  The PoolsSynced condition (\<^verbatim>\<open>internal/controller/poolsync_condition.go\<close>): which pools of a
  DynamicPrefix fail to synchronise, kept in memory as the outcome of each pool's last pass, and
  rendered as one condition.  The maps of the code are association lists, so that an iteration has
  some order; the theorems show that no order matters.  The abstract view of the state is a function
  from resources and pools to error texts, and every operation refines an update of that function.
\<close>

subsection \<open>The state\<close>

record poolStateKey =
  psk_backend :: string
  psk_pool :: string

definition poolStateKey_String :: "poolStateKey \<Rightarrow> string" where
  "poolStateKey_String k = psk_backend k @ '' '' @ psk_pool k"

type_synonym failing_pools = "(poolStateKey \<times> string) list"
type_synonym verdict = "ConditionStatus \<times> string \<times> string"

record poolSyncState =
  failing :: "(string \<times> failing_pools) list"

definition pools_of :: "(string \<times> failing_pools) list \<Rightarrow> string \<Rightarrow> failing_pools" where
  "pools_of fs dpName = (case map_of fs dpName of None \<Rightarrow> [] | Some pools \<Rightarrow> pools)"

fun join_with :: "string \<Rightarrow> string list \<Rightarrow> string" where
  "join_with sep [] = []"
| "join_with sep [x] = x"
| "join_with sep (x # y # zs) = x @ sep @ join_with sep (y # zs)"

definition failing_pools_message :: "string list \<Rightarrow> string \<Rightarrow> string" where
  "failing_pools_message names first =
     dec (length names) @ '' pool(s) are not in sync: '' @ join_with '', '' names @ '' ('' @ first @ '')''"

definition synced_verdict :: verdict where
  "synced_verdict = (ConditionTrue, ''PoolsSynced'', ''All referencing pools are in sync'')"

definition failed_verdict :: "string list \<Rightarrow> string \<Rightarrow> verdict" where
  "failed_verdict names first = (ConditionFalse, ''PoolSyncFailed'', failing_pools_message names first)"

text \<open>The rendering, and the map without an entry that has become empty.\<close>

definition conditionFor :: "(string \<times> failing_pools) list \<Rightarrow> string \<Rightarrow> verdict \<times> (string \<times> failing_pools) list" where
  "conditionFor fs dpName =
     (let pools = pools_of fs dpName in
      if pools = [] then (synced_verdict, AList.delete dpName fs)
      else
        let names = sort (map (poolStateKey_String \<circ> fst) pools);
            first = (case find (\<lambda>(key, msg). poolStateKey_String key = hd names) pools of None \<Rightarrow> [] | Some (key, msg) \<Rightarrow> msg)
        in (failed_verdict names first, fs))"

definition record_outcome :: "string \<Rightarrow> poolStateKey \<Rightarrow> string option \<Rightarrow> poolSyncState \<Rightarrow> verdict \<times> poolSyncState" where
  "record_outcome dpName key syncErr s =
     (let pools = pools_of (failing s) dpName;
          pools' = (case syncErr of Some e \<Rightarrow> AList.update key e pools | None \<Rightarrow> AList.delete key pools);
          (v, fs) = conditionFor (AList.update dpName pools' (failing s)) dpName
      in (v, s\<lparr>failing := fs\<rparr>))"

definition forget :: "string \<Rightarrow> poolSyncState \<Rightarrow> poolSyncState" where
  "forget dpName s = s\<lparr>failing := AList.delete dpName (failing s)\<rparr>"

definition forgetEntries :: "(poolStateKey \<Rightarrow> bool) \<Rightarrow> poolSyncState \<Rightarrow> string list \<times> poolSyncState" where
  "forgetEntries matching s =
     (sort (map fst (List.filter (\<lambda>(dpName, pools). list_ex (matching \<circ> fst) pools) (failing s))),
      s\<lparr>failing := map (\<lambda>(dpName, pools). (dpName, List.filter (\<lambda>(key, msg). \<not> matching key) pools)) (failing s)\<rparr>)"

definition condition :: "string \<Rightarrow> poolSyncState \<Rightarrow> verdict \<times> poolSyncState" where
  "condition dpName s = (let (v, fs) = conditionFor (failing s) dpName in (v, s\<lparr>failing := fs\<rparr>))"

subsection \<open>Writing the condition\<close>

datatype api_error = NotFoundError | OtherError string

record 'w status_api =
  GetDynamicPrefix :: "'w \<Rightarrow> string \<Rightarrow> api_error + DynamicPrefix"
  ApplyCondition :: "'w \<Rightarrow> string \<Rightarrow> Condition \<Rightarrow> api_error option \<times> 'w"

text \<open>The clock and the condition helpers of the API machinery.\<close>

record clock_env =
  ce_meta :: meta_api
  ce_now :: instant

definition writePoolsSyncedCondition ::
  "('w, 'm) status_api_scheme \<Rightarrow> clock_env \<Rightarrow> string \<Rightarrow> verdict \<Rightarrow> 'w \<times> poolSyncState \<Rightarrow> 'w \<times> poolSyncState" where
  "writePoolsSyncedCondition api env dpName v ws =
     (let (status, reason, message) = v; (w, s) = ws;
          (err, w') =
            (case GetDynamicPrefix api w dpName of
               Inl e \<Rightarrow> (Some e, w)
             | Inr dp \<Rightarrow>
                 let (entry, changed) = conditionApplyEntry (ce_meta env) (ce_now env) dp ConditionTypePoolsSynced status reason message
                 in if \<not> changed then (None, w) else ApplyCondition api w dpName entry)
      in case err of
           None \<Rightarrow> (w', s)
         | Some NotFoundError \<Rightarrow> (w', forget dpName s)
         | Some (OtherError _) \<Rightarrow> (w', s))"

definition updatePoolsSyncedCondition ::
  "('w, 'm) status_api_scheme \<Rightarrow> clock_env \<Rightarrow> string \<Rightarrow> poolStateKey \<Rightarrow> string option \<Rightarrow> 'w \<times> poolSyncState \<Rightarrow> 'w \<times> poolSyncState" where
  "updatePoolsSyncedCondition api env dpName key syncErr ws =
     (let (w, s) = ws; (v, s') = record_outcome dpName key syncErr s
      in writePoolsSyncedCondition api env dpName v (w, s'))"

definition releasePoolsSyncedEntries ::
  "('w, 'm) status_api_scheme \<Rightarrow> clock_env \<Rightarrow> (poolStateKey \<Rightarrow> bool) \<Rightarrow> 'w \<times> poolSyncState \<Rightarrow> 'w \<times> poolSyncState" where
  "releasePoolsSyncedEntries api env matching ws =
     (let (w, s) = ws; (affected, s') = forgetEntries matching s
      in fold (\<lambda>dpName (w, s). let (v, s') = condition dpName s in writePoolsSyncedCondition api env dpName v (w, s'))
           affected (w, s'))"

subsection \<open>The view of the state\<close>

definition view :: "poolSyncState \<Rightarrow> string \<Rightarrow> poolStateKey \<rightharpoonup> string" where
  "view s dpName = map_of (pools_of (failing s) dpName)"

text \<open>The names of the backends hold no blank, so a pool's text names it.\<close>

definition key_ok :: "poolStateKey \<Rightarrow> bool" where
  "key_ok k \<longleftrightarrow> CHR '' '' \<notin> set (psk_backend k)"

definition state_ok :: "poolSyncState \<Rightarrow> bool" where
  "state_ok s \<longleftrightarrow> distinct (map fst (failing s)) \<and>
     (\<forall>d. distinct (map fst (pools_of (failing s) d)) \<and> (\<forall>k e. view s d k = Some e \<longrightarrow> key_ok k))"

text \<open>What a condition says of the failing pools: how many, which ones in order, and why the first fails.\<close>

definition renders :: "(poolStateKey \<rightharpoonup> string) \<Rightarrow> verdict \<Rightarrow> bool" where
  "renders m v \<longleftrightarrow>
     (if dom m = {} then v = synced_verdict
      else \<exists>k \<in> dom m. (\<forall>k' \<in> dom m. poolStateKey_String k \<le> poolStateKey_String k') \<and>
             v = failed_verdict (sorted_list_of_set (poolStateKey_String ` dom m)) (the (m k)))"

lemma key_text_inj:
  assumes "key_ok k" and "key_ok k'" and "poolStateKey_String k = poolStateKey_String k'"
  shows "k = k'"
proof -
  have split: "takeWhile (\<lambda>c. c \<noteq> CHR '' '') (poolStateKey_String k) = psk_backend k"
    "dropWhile (\<lambda>c. c \<noteq> CHR '' '') (poolStateKey_String k) = CHR '' '' # psk_pool k" if "key_ok k" for k
    using that unfolding key_ok_def poolStateKey_String_def by (induction "psk_backend k") (auto simp: takeWhile_append dropWhile_append)
  show ?thesis
    using split(1) [OF assms(1)] split(1) [OF assms(2)] split(2) [OF assms(1)] split(2) [OF assms(2)] assms(3)
    by (intro poolStateKey.equality) simp_all
qed

lemma conditionFor_renders:
  assumes "distinct (map fst (pools_of fs dpName))" and "\<forall>k \<in> fst ` set (pools_of fs dpName). key_ok k"
  shows "renders (map_of (pools_of fs dpName)) (fst (conditionFor fs dpName))"
proof (cases "pools_of fs dpName = []")
  case True
  then show ?thesis
    by (simp add: conditionFor_def renders_def)
next
  case False
  let ?ps = "pools_of fs dpName" and ?S = poolStateKey_String
  let ?names = "sort (map (?S \<circ> fst) ?ps)"
  have inj: "inj_on ?S (fst ` set ?ps)"
  proof (rule inj_onI)
    fix k k'
    assume "k \<in> fst ` set ?ps" "k' \<in> fst ` set ?ps" "?S k = ?S k'"
    moreover from this(1,2) have "key_ok k" "key_ok k'"
      using assms(2) by auto
    ultimately show "k = k'"
      using key_text_inj by blast
  qed
  have "distinct (map (?S \<circ> fst) ?ps)"
    using assms(1) inj by (simp add: distinct_map comp_inj_on_iff)
  then have names: "sorted_list_of_set (?S ` fst ` set ?ps) = ?names"
    using sorted_list_of_set_sort_remdups [of "map (?S \<circ> fst) ?ps"] by (simp add: distinct_remdups_id image_comp)
  have ne: "?names \<noteq> []"
    using False by (metis Nil_is_map_conv length_0_conv length_sort)
  have "hd ?names \<in> ?S ` fst ` set ?ps"
    using hd_in_set [OF ne] by (simp add: image_comp)
  then obtain x where "x \<in> set ?ps" "(\<lambda>(key, msg). ?S key = hd ?names) x"
    by auto
  then have "find (\<lambda>(key, msg). ?S key = hd ?names) ?ps \<noteq> None"
    by (metis find_None_iff)
  then obtain k msg where found: "find (\<lambda>(key, msg). ?S key = hd ?names) ?ps = Some (k, msg)"
    by (metis not_None_eq surj_pair)
  then obtain i where "i < length ?ps" "?ps ! i = (k, msg)" and key: "?S k = hd ?names"
    by (auto simp: find_Some_iff)
  then have k: "(k, msg) \<in> set ?ps" "?S k = hd ?names"
    using key by (metis nth_mem)+
  have least: "?S k \<le> ?S k'" if "k' \<in> fst ` set ?ps" for k'
  proof -
    have "?S k' \<in> set ?names"
      using that by auto
    moreover have "sorted ?names"
      by simp
    ultimately show ?thesis
      unfolding k(2) using ne by (cases ?names) auto
  qed
  have "map_of ?ps k = Some msg"
    using k(1) assms(1) by simp
  moreover have "fst (conditionFor fs dpName) = failed_verdict ?names msg"
    using False found by (simp add: conditionFor_def Let_def)
  moreover have "k \<in> fst ` set ?ps"
    using k(1) by force
  ultimately show ?thesis
    using False least names unfolding renders_def dom_map_of_conv_image_fst by (intro iffD2 [OF if_not_P]) (simp, metis option.sel)
qed

text \<open>Every operation is an update of the view.\<close>

lemma pools_of_update [simp]: "pools_of (AList.update d ps fs) d' = (if d' = d then ps else pools_of fs d')"
  by (simp add: pools_of_def AList.update_conv')

lemma pools_of_delete [simp]: "pools_of (AList.delete d fs) d' = (if d' = d then [] else pools_of fs d')"
  by (simp add: pools_of_def AList.delete_conv')

lemma pools_of_cond [simp]: "pools_of (snd (conditionFor fs d)) d' = pools_of fs d'"
  by (simp add: conditionFor_def Let_def)

lemma view_record: "view (snd (record_outcome d k e s)) = (view s)(d := (view s d)(k := e))"
  by (cases e) (simp_all add: view_def record_outcome_def Let_def case_prod_beta fun_eq_iff AList.update_conv' AList.delete_conv')

lemma view_forget: "view (forget d s) = (view s)(d := Map.empty)"
  by (auto simp: view_def forget_def fun_eq_iff)

lemma pools_of_map: "pools_of (map (\<lambda>(d, ps). (d, f ps)) fs) d = (if d \<in> fst ` set fs then f (pools_of fs d) else [])"
  by (induction fs) (auto simp: pools_of_def)

lemma map_of_filter_keys: "map_of (List.filter (\<lambda>(k, e). P k) ps) k = (if P k then map_of ps k else None)"
  by (induction ps) auto

lemma view_forgetEntries: "view (snd (forgetEntries matching s)) = (\<lambda>d k. if matching k then None else view s d k)"
proof -
  have "pools_of (failing s) d = []" if "d \<notin> fst ` set (failing s)" for d
    using that by (simp add: pools_of_def map_of_eq_None_iff [symmetric])
  then show ?thesis
    by (auto simp: view_def forgetEntries_def pools_of_map map_of_filter_keys fun_eq_iff)
qed

lemma view_condition: "view (snd (condition d s)) = view s"
  by (simp add: view_def condition_def Let_def case_prod_beta fun_eq_iff)

lemma condition_renders:
  assumes "state_ok s"
  shows "renders (view s d) (fst (condition d s))"
  using conditionFor_renders [of "failing s" d] assms
  by (simp add: state_ok_def view_def condition_def Let_def case_prod_beta flip: dom_map_of_conv_image_fst) blast

lemma distinct_conditionFor: "distinct (map fst fs) \<Longrightarrow> distinct (map fst (snd (conditionFor fs d)))"
  by (simp add: conditionFor_def Let_def AList.distinct_delete)

lemma state_ok_condition: "state_ok s \<Longrightarrow> state_ok (snd (condition d s))"
  unfolding state_ok_def view_condition by (simp add: condition_def Let_def case_prod_beta distinct_conditionFor)

lemma state_ok_forget: "state_ok s \<Longrightarrow> state_ok (forget d s)"
  unfolding state_ok_def view_forget by (simp add: forget_def AList.distinct_delete)

lemma state_ok_record:
  assumes "state_ok s" and "key_ok k"
  shows "state_ok (snd (record_outcome d k e s))"
proof -
  have "distinct (map fst (pools_of (failing (snd (record_outcome d k e s))) d'))" for d'
    using assms(1) by (auto simp: record_outcome_def Let_def case_prod_beta state_ok_def AList.distinct_update AList.distinct_delete
        split: option.split)
  moreover have "distinct (map fst (failing (snd (record_outcome d k e s))))"
    using assms(1) by (simp add: record_outcome_def Let_def case_prod_beta state_ok_def AList.distinct_update distinct_conditionFor)
  ultimately show ?thesis
    using assms unfolding state_ok_def view_record by (auto split: if_splits)
qed

lemma record_renders:
  assumes "state_ok s" and "key_ok k"
  shows "renders ((view s d)(k := e)) (fst (record_outcome d k e s))"
proof -
  let ?ps = "case e of Some msg \<Rightarrow> AList.update k msg (pools_of (failing s) d) | None \<Rightarrow> AList.delete k (pools_of (failing s) d)"
  let ?fs = "AList.update d ?ps (failing s)"
  have eq: "map_of ?ps = (view s d)(k := e)"
    by (cases e) (simp_all add: view_def AList.update_conv' AList.delete_conv')
  have "fst ` set ?ps = dom ((view s d)(k := e))"
    unfolding eq [symmetric] by (rule dom_map_of_conv_image_fst [symmetric])
  then have "\<forall>k' \<in> fst ` set ?ps. key_ok k'"
    using assms by (auto simp: state_ok_def split: if_splits)
  moreover have "distinct (map fst ?ps)"
    using assms(1) by (auto simp: state_ok_def AList.distinct_update AList.distinct_delete split: option.split)
  ultimately have "renders (map_of ?ps) (fst (conditionFor ?fs d))"
    using conditionFor_renders [of ?fs d] by simp
  then show ?thesis
    unfolding eq by (simp add: record_outcome_def Let_def case_prod_beta)
qed

lemma state_ok_forgetEntries: "state_ok s \<Longrightarrow> state_ok (snd (forgetEntries matching s))"
  unfolding state_ok_def view_forgetEntries
  by (auto simp: forgetEntries_def pools_of_map comp_def case_prod_beta distinct_map_filter split: if_splits)

lemma affected_iff:
  assumes "state_ok s"
  shows "d \<in> set (fst (forgetEntries matching s)) \<longleftrightarrow> (\<exists>k. matching k \<and> view s d k \<noteq> None)"
proof -
  have in_failing: "(d, ps) \<in> set (failing s) \<longleftrightarrow> map_of (failing s) d = Some ps" for ps
    using assms by (simp add: state_ok_def)
  have some_match: "list_ex (matching \<circ> fst) ps \<longleftrightarrow> (\<exists>k. matching k \<and> map_of ps k \<noteq> None)" for ps
    unfolding map_of_eq_None_iff by (auto simp: list_ex_iff)
  have "d \<in> set (fst (forgetEntries matching s)) \<longleftrightarrow> (\<exists>ps. (d, ps) \<in> set (failing s) \<and> list_ex (matching \<circ> fst) ps)"
    by (force simp: forgetEntries_def)
  then show ?thesis
    unfolding in_failing some_match by (cases "map_of (failing s) d") (simp_all add: view_def pools_of_def)
qed


subsection \<open>The condition in the cluster\<close>

text \<open>
  What is relied on: an accepted apply makes the entry the condition of its type, and touches no other
  resource.
\<close>

definition status_laws :: "('w, 'm) status_api_scheme \<Rightarrow> meta_api \<Rightarrow> bool" where
  "status_laws api m \<longleftrightarrow>
     (\<forall>w d dp entry w'. GetDynamicPrefix api w d = Ok dp \<longrightarrow> ApplyCondition api w d entry = (None, w') \<longrightarrow>
        (\<exists>dp'. GetDynamicPrefix api w' d = Ok dp' \<and>
           FindStatusCondition m (st_Conditions (dp_Status dp')) (cond_Type entry) = Some entry) \<and>
        (\<forall>d'. d' \<noteq> d \<longrightarrow> GetDynamicPrefix api w' d' = GetDynamicPrefix api w d'))"

definition accepting :: "('w, 'm) status_api_scheme \<Rightarrow> bool" where
  "accepting api \<longleftrightarrow> (\<forall>w d entry. fst (ApplyCondition api w d entry) = None)"

definition exists_dp :: "('w, 'm) status_api_scheme \<Rightarrow> 'w \<Rightarrow> string \<Rightarrow> bool" where
  "exists_dp api w d \<longleftrightarrow> (\<exists>dp. GetDynamicPrefix api w d = Ok dp)"

definition displays :: "('w, 'm) status_api_scheme \<Rightarrow> meta_api \<Rightarrow> 'w \<Rightarrow> string \<Rightarrow> verdict \<Rightarrow> bool" where
  "displays api m w d v \<longleftrightarrow>
     (\<exists>dp c. GetDynamicPrefix api w d = Ok dp \<and>
        FindStatusCondition m (st_Conditions (dp_Status dp)) ConditionTypePoolsSynced = Some c \<and>
        v = (cond_Status c, cond_Reason c, cond_Message c))"

lemma displays_exists: "displays api m w d v \<Longrightarrow> exists_dp api w d"
  by (auto simp: displays_def exists_dp_def)

lemma write_displays:
  assumes "status_laws api (ce_meta env)" and "accepting api" and "exists_dp api w d"
    and "writePoolsSyncedCondition api env d v (w, s) = (w', s')"
  shows "s' = s" and "displays api (ce_meta env) w' d v"
    and "d' \<noteq> d \<Longrightarrow> GetDynamicPrefix api w' d' = GetDynamicPrefix api w d'"
proof -
  obtain status reason message where v: "v = (status, reason, message)"
    by (cases v)
  obtain dp where dp: "GetDynamicPrefix api w d = Ok dp"
    using assms(3) by (auto simp: exists_dp_def)
  obtain entry changed where e: "conditionApplyEntry (ce_meta env) (ce_now env) dp ConditionTypePoolsSynced status reason message = (entry, changed)"
    by (metis surj_pair)
  have entry: "cond_Type entry = ConditionTypePoolsSynced" "v = (cond_Status entry, cond_Reason entry, cond_Message entry)"
    using e by (auto simp: conditionApplyEntry_def v case_prod_beta)
  have same: "displays api (ce_meta env) w d v" if "\<not> changed"
    using e that dp by (auto simp: conditionApplyEntry_def displays_def v split: option.splits)
  obtain w1 where w1: "ApplyCondition api w d entry = (None, w1)"
    using assms(2) by (metis accepting_def prod.collapse)
  have step: "(w', s') = (if changed then w1 else w, s)"
    using assms(4) by (cases changed) (simp_all add: writePoolsSyncedCondition_def v dp e w1)
  show "s' = s"
    using step by simp
  have law: "displays api (ce_meta env) w1 d v \<and> (\<forall>d'. d' \<noteq> d \<longrightarrow> GetDynamicPrefix api w1 d' = GetDynamicPrefix api w d')"
    using assms(1) dp w1 entry unfolding status_laws_def displays_def by fastforce
  then show "displays api (ce_meta env) w' d v"
    using step same by (cases changed) simp_all
  show "d' \<noteq> d \<Longrightarrow> GetDynamicPrefix api w' d' = GetDynamicPrefix api w d'"
    using step law by (cases changed) simp_all
qed

text \<open>The reports of the pool reconciler: the outcome of a pass, or pools it has stopped managing.\<close>

datatype pool_report = Outcome string poolStateKey "string option" | Released "poolStateKey \<Rightarrow> bool"

fun report :: "('w, 'm) status_api_scheme \<Rightarrow> meta_api \<Rightarrow> instant \<times> pool_report \<Rightarrow> 'w \<times> poolSyncState \<Rightarrow> 'w \<times> poolSyncState" where
  "report api m (now, Outcome d k e) ws = updatePoolsSyncedCondition api \<lparr>ce_meta = m, ce_now = now\<rparr> d k e ws"
| "report api m (now, Released matching) ws = releasePoolsSyncedEntries api \<lparr>ce_meta = m, ce_now = now\<rparr> matching ws"

fun view_report :: "instant \<times> pool_report \<Rightarrow> (string \<Rightarrow> poolStateKey \<rightharpoonup> string) \<Rightarrow> string \<Rightarrow> poolStateKey \<rightharpoonup> string" where
  "view_report (now, Outcome d k e) f = f(d := (f d)(k := e))"
| "view_report (now, Released matching) f = (\<lambda>d k. if matching k then None else f d k)"

fun reported :: "instant \<times> pool_report \<Rightarrow> string set" where
  "reported (now, Outcome d k e) = {d}"
| "reported (now, Released matching) = {}"

fun report_ok :: "instant \<times> pool_report \<Rightarrow> bool" where
  "report_ok (now, Outcome d k e) = key_ok k"
| "report_ok (now, Released matching) = True"

text \<open>The resources reported on show the aggregate of what fails.\<close>

definition up_to_date :: "('w, 'm) status_api_scheme \<Rightarrow> meta_api \<Rightarrow> 'w \<Rightarrow> (poolStateKey \<rightharpoonup> string) \<Rightarrow> string \<Rightarrow> bool" where
  "up_to_date api m w f d \<longleftrightarrow> (\<exists>v. displays api m w d v \<and> renders f v)"

lemma up_to_dateI: "displays api m w d v \<Longrightarrow> renders f v \<Longrightarrow> up_to_date api m w f d"
  unfolding up_to_date_def by blast

lemma up_to_date_cong: "GetDynamicPrefix api w' d = GetDynamicPrefix api w d \<Longrightarrow> up_to_date api m w' f d = up_to_date api m w f d"
  by (simp add: up_to_date_def displays_def)

definition in_step :: "('w, 'm) status_api_scheme \<Rightarrow> meta_api \<Rightarrow> string set \<Rightarrow> string set \<Rightarrow> 'w \<times> poolSyncState \<Rightarrow> bool" where
  "in_step api m E R ws \<longleftrightarrow>
     state_ok (snd ws) \<and> (\<forall>d \<in> E. exists_dp api (fst ws) d) \<and>
     (\<forall>d \<in> R. up_to_date api m (fst ws) (view (snd ws) d) d) \<and>
     (\<forall>d. d \<notin> R \<longrightarrow> view (snd ws) d = Map.empty)"

lemma in_step_outcome:
  assumes "status_laws api m" and "accepting api" and "in_step api m E R ws" and "d \<in> E" and "key_ok k"
  shows "in_step api m E (insert d R) (report api m (now, Outcome d k e) ws)"
    and "view (snd (report api m (now, Outcome d k e) ws)) = (view (snd ws))(d := (view (snd ws) d)(k := e))"
proof -
  obtain w s where ws: "ws = (w, s)"
    by (cases ws)
  let ?env = "\<lparr>ce_meta = m, ce_now = now\<rparr>"
  obtain v s1 where rec: "record_outcome d k e s = (v, s1)"
    by (metis surj_pair)
  obtain w' s' where w: "writePoolsSyncedCondition api ?env d v (w, s1) = (w', s')"
    by (metis surj_pair)
  have st: "report api m (now, Outcome d k e) ws = (w', s')"
    by (simp add: ws updatePoolsSyncedCondition_def rec w)
  have ok: "state_ok s" and ex: "\<forall>d \<in> E. exists_dp api w d"
    using assms(3) by (simp_all add: in_step_def ws)
  have laws: "status_laws api (ce_meta ?env)"
    using assms(1) by simp
  note wr = write_displays [OF laws assms(2) bspec [OF ex assms(4)] w]
  have vw: "view s' = (view s)(d := (view s d)(k := e))"
    using view_record [of d k e s] by (simp add: rec wr(1))
  then show "view (snd (report api m (now, Outcome d k e) ws)) = (view (snd ws))(d := (view (snd ws) d)(k := e))"
    using st by (simp add: ws)
  have "renders ((view s d)(k := e)) v" and ok': "state_ok s'"
    using record_renders [OF ok assms(5), of d e] state_ok_record [OF ok assms(5), of d e] by (simp_all add: rec wr(1))
  then have here: "up_to_date api m w' (view s' d) d"
    using wr(2) by (intro up_to_dateI) (simp_all add: vw)
  have there: "up_to_date api m w' (view s' d') d'" if "d' \<in> R" "d' \<noteq> d" for d'
    using that assms(3) up_to_date_cong [OF wr(3)] by (simp add: in_step_def ws vw)
  have "exists_dp api w' d'" if "d' \<in> E" for d'
    using that ex wr(3) displays_exists [OF wr(2)] by (cases "d' = d") (simp_all add: exists_dp_def)
  moreover have "view s' d' = Map.empty" if "d' \<notin> insert d R" for d'
    using that assms(3) by (simp add: in_step_def ws vw)
  ultimately show "in_step api m E (insert d R) (report api m (now, Outcome d k e) ws)"
    unfolding in_step_def st using ok' here there by (metis fst_conv insert_iff snd_conv)
qed

lemma rewrite_conditions:
  assumes "status_laws api (ce_meta env)" and "accepting api" and "\<forall>d \<in> set ds. exists_dp api w d" and "state_ok s"
    and "fold (\<lambda>d (w, s). let (v, s') = condition d s in writePoolsSyncedCondition api env d v (w, s')) ds (w, s) = (w', s')"
  shows "view s' = view s \<and> state_ok s' \<and> (\<forall>d \<in> set ds. up_to_date api (ce_meta env) w' (view s d) d) \<and>
     (\<forall>d. d \<notin> set ds \<longrightarrow> GetDynamicPrefix api w' d = GetDynamicPrefix api w d)"
  using assms(3-)
proof (induction ds arbitrary: w s)
  case Nil
  then show ?case
    by simp
next
  case (Cons d ds)
  obtain v s1 where c: "condition d s = (v, s1)"
    by (metis surj_pair)
  obtain w2 s2 where w: "writePoolsSyncedCondition api env d v (w, s1) = (w2, s2)"
    by (metis surj_pair)
  have "exists_dp api w d"
    using Cons.prems by simp
  note wr = write_displays [OF assms(1,2) this w]
  have s2: "view s2 = view s" "state_ok s2" "renders (view s d) v"
    using view_condition [of d s] state_ok_condition [OF Cons.prems(2), of d] condition_renders [OF Cons.prems(2), of d]
    by (simp_all add: c wr(1))
  have "exists_dp api w2 d'" if "d' \<in> set ds" for d'
    using that Cons.prems(1) wr(3) displays_exists [OF wr(2)] by (cases "d' = d") (simp_all add: exists_dp_def)
  then have ih: "view s' = view s2 \<and> state_ok s' \<and> (\<forall>d \<in> set ds. up_to_date api (ce_meta env) w' (view s2 d) d) \<and>
     (\<forall>d. d \<notin> set ds \<longrightarrow> GetDynamicPrefix api w' d = GetDynamicPrefix api w2 d)"
    using Cons.prems(3) s2(2) by (intro Cons.IH) (simp_all add: c w)
  have "up_to_date api (ce_meta env) w' (view s d) d"
  proof (cases "d \<in> set ds")
    case True
    then show ?thesis
      using ih s2(1) by simp
  next
    case False
    then have "GetDynamicPrefix api w' d = GetDynamicPrefix api w2 d"
      using ih by simp
    from up_to_date_cong [OF this] show ?thesis
      using up_to_dateI [OF wr(2) s2(3)] by simp
  qed
  then show ?case
    using ih s2(1) wr(3) by simp
qed

lemma in_step_released:
  assumes "status_laws api m" and "accepting api" and "in_step api m E R ws" and "R \<subseteq> E"
  shows "in_step api m E R (report api m (now, Released matching) ws)"
    and "view (snd (report api m (now, Released matching) ws)) = (\<lambda>d k. if matching k then None else view (snd ws) d k)"
proof -
  obtain w s where ws: "ws = (w, s)"
    by (cases ws)
  let ?env = "\<lparr>ce_meta = m, ce_now = now\<rparr>"
  obtain ds s1 where f: "forgetEntries matching s = (ds, s1)"
    by (metis surj_pair)
  obtain w' s' where st: "report api m (now, Released matching) ws = (w', s')"
    by (metis surj_pair)
  have ok: "state_ok s" and ex: "\<forall>d \<in> E. exists_dp api w d" and shown: "\<forall>d \<in> R. up_to_date api m w (view s d) d"
    and none: "\<forall>d. d \<notin> R \<longrightarrow> view s d = Map.empty"
    using assms(3) by (simp_all add: in_step_def ws)
  have ds: "d \<in> set ds \<longleftrightarrow> (\<exists>k. matching k \<and> view s d k \<noteq> None)" for d
    using affected_iff [OF ok, of d matching] by (simp add: f)
  have s1: "view s1 = (\<lambda>d k. if matching k then None else view s d k)" "state_ok s1"
    using view_forgetEntries [of matching s] state_ok_forgetEntries [OF ok, of matching] by (simp_all add: f)
  have "set ds \<subseteq> R"
    using ds none by fastforce
  then have "\<forall>d \<in> set ds. exists_dp api w d"
    using ex assms(4) by blast
  moreover have "fold (\<lambda>d (w, s). let (v, s') = condition d s in writePoolsSyncedCondition api ?env d v (w, s')) ds (w, s1) = (w', s')"
    using st by (simp add: ws releasePoolsSyncedEntries_def f)
  ultimately have r: "view s' = view s1" "state_ok s'" "\<forall>d \<in> set ds. up_to_date api m w' (view s1 d) d"
    "\<forall>d. d \<notin> set ds \<longrightarrow> GetDynamicPrefix api w' d = GetDynamicPrefix api w d"
    using rewrite_conditions [of api ?env ds w s1 w' s'] assms(1,2) s1(2) by simp_all
  show vw: "view (snd (report api m (now, Released matching) ws)) = (\<lambda>d k. if matching k then None else view (snd ws) d k)"
    unfolding ws st [unfolded ws] snd_conv r(1) s1(1) ..
  have keep: "view s' d = view s d" if "d \<notin> set ds" for d
    using that ds by (auto simp: r(1) s1(1) fun_eq_iff)
  have "up_to_date api m w' (view s' d) d" if "d \<in> R" for d
    using that r shown keep up_to_date_cong [of api w' d w m] by (cases "d \<in> set ds") simp_all
  moreover have "exists_dp api w' d" if "d \<in> E" for d
    using that ex r(3,4) by (cases "d \<in> set ds") (auto simp: exists_dp_def up_to_date_def displays_def)
  moreover have "view s' d = Map.empty" if "d \<notin> R" for d
    using that none by (simp add: r(1) s1(1) fun_eq_iff)
  ultimately show "in_step api m E R (report api m (now, Released matching) ws)"
    unfolding in_step_def st using r(2) by simp
qed

lemma reports_in_step:
  assumes "status_laws api m" and "accepting api" and "\<forall>r \<in> set rs. report_ok r \<and> reported r \<subseteq> E" and "R \<subseteq> E"
    and "in_step api m E R ws"
  shows "in_step api m E (R \<union> \<Union> (reported ` set rs)) (fold (report api m) rs ws) \<and>
     view (snd (fold (report api m) rs ws)) = fold view_report rs (view (snd ws))"
  using assms(3-)
proof (induction rs arbitrary: R ws)
  case Nil
  then show ?case
    by simp
next
  case (Cons r rs)
  obtain now r' where r: "r = (now, r')"
    by (cases r)
  have "in_step api m E (R \<union> reported r) (report api m r ws) \<and> view (snd (report api m r ws)) = view_report r (view (snd ws))"
  proof (cases r')
    case (Outcome d k e)
    then show ?thesis
      using in_step_outcome [OF assms(1,2) Cons.prems(3), of d k now e] Cons.prems(1) by (simp add: r del: report.simps)
  next
    case (Released matching)
    then show ?thesis
      using in_step_released [OF assms(1,2) Cons.prems(3,2), of now matching] by (simp add: r del: report.simps)
  qed
  moreover from this have "in_step api m E (R \<union> reported r \<union> \<Union> (reported ` set rs)) (fold (report api m) rs (report api m r ws)) \<and>
     view (snd (fold (report api m) rs (report api m r ws))) = fold view_report rs (view (snd (report api m r ws)))"
    using Cons.prems by (intro Cons.IH) auto
  ultimately show ?case
    by (simp add: Un_assoc)
qed


text \<open>A cluster that holds its resources in a table.\<close>

definition table_api :: "(string \<rightharpoonup> DynamicPrefix) status_api" where
  "table_api =
     \<lparr>GetDynamicPrefix = (\<lambda>w d. case w d of None \<Rightarrow> Err NotFoundError | Some dp \<Rightarrow> Ok dp),
      ApplyCondition = (\<lambda>w d c. (None, case w d of None \<Rightarrow> w | Some dp \<Rightarrow>
        w(d \<mapsto> dp\<lparr>dp_Status := (dp_Status dp)\<lparr>st_Conditions :=
             c # List.filter (\<lambda>x. cond_Type x \<noteq> cond_Type c) (st_Conditions (dp_Status dp))\<rparr>\<rparr>)))\<rparr>"

lemma table_api_laws: "status_laws table_api sample_meta" "accepting table_api"
  by (auto simp: status_laws_def accepting_def table_api_def sample_meta_def split: option.splits)

definition sample_key :: "string \<Rightarrow> poolStateKey" where
  "sample_key pool = \<lparr>psk_backend = ''cilium-cidr-group'', psk_pool = pool\<rparr>"


end
