(* ===== verification/Service_Sync.thy ===== *)
theory Service_Sync
  imports Service_Addr Pool_Status "HOL-Library.Multiset"
begin

text \<open>
  Synchronising LoadBalancer Services (\<^verbatim>\<open>internal/controller/servicesync_controller.go\<close>): the
  annotations a reconcile writes (the requested addresses, the external-dns target and the two
  ownership records), the release of a Service the operator no longer manages, the nudge of the L2
  announcer, and which Services a change of a DynamicPrefix wakes.  A Service's annotations are a map;
  the handlers return the map the code sends to the API server.
\<close>

subsection \<open>Annotations and configuration\<close>

definition AnnotationCiliumIPs :: string where "AnnotationCiliumIPs = ''lbipam.cilium.io/ips''"
definition AnnotationKubevipLBIPs :: string where "AnnotationKubevipLBIPs = ''kube-vip.io/loadbalancerIPs''"
definition AnnotationLBProvider :: string where "AnnotationLBProvider = ''dynamic-prefix.io/lb-provider''"
definition AnnotationExternalDNSTarget :: string where
  "AnnotationExternalDNSTarget = ''external-dns.alpha.kubernetes.io/target''"
definition AnnotationExternalDNSTargetNew :: string where
  "AnnotationExternalDNSTargetNew = ''external-dns.kubernetes.io/target''"
definition AnnotationSkipExternalDNSUpdate :: string where
  "AnnotationSkipExternalDNSUpdate = ''dynamic-prefix.io/skip-external-dns-update''"
definition AnnotationL2Nudge :: string where "AnnotationL2Nudge = ''dynamic-prefix.io/l2-announce-nudge''"
definition AnnotationSkipL2Nudge :: string where "AnnotationSkipL2Nudge = ''dynamic-prefix.io/skip-l2-nudge''"
definition AnnotationForceL2Nudge :: string where "AnnotationForceL2Nudge = ''dynamic-prefix.io/force-l2-nudge''"
definition AnnotationValueTrue :: string where "AnnotationValueTrue = ''true''"

definition knownExternalDNSTargetAnnotationKeys :: "string list" where
  "knownExternalDNSTargetAnnotationKeys = [AnnotationExternalDNSTarget, AnnotationExternalDNSTargetNew]"

definition DefaultExternalDNSTargetAnnotationKeys :: "string list" where
  "DefaultExternalDNSTargetAnnotationKeys = [AnnotationExternalDNSTarget, AnnotationExternalDNSTargetNew]"

text \<open>The argument is the configured list of the reconciler.\<close>

definition targetAnnotationKeys :: "string list \<Rightarrow> string list" where
  "targetAnnotationKeys configured = (if configured = [] then DefaultExternalDNSTargetAnnotationKeys else configured)"

definition releasableTargetAnnotationKeys :: "string list \<Rightarrow> string list" where
  "releasableTargetAnnotationKeys configured =
     List.filter (\<lambda>k. k \<notin> set (targetAnnotationKeys configured)) knownExternalDNSTargetAnnotationKeys"

definition firstAnnotationValue :: "annotations \<Rightarrow> string list \<Rightarrow> string" where
  "firstAnnotationValue ann keys = (case find (\<lambda>k. ann k \<noteq> None) keys of None \<Rightarrow> [] | Some k \<Rightarrow> ann_value ann k)"

definition allAnnotationsEqual :: "annotations \<Rightarrow> string list \<Rightarrow> string \<Rightarrow> bool" where
  "allAnnotationsEqual ann keys want \<longleftrightarrow> list_all (\<lambda>k. ann_value ann k = want) keys"

subsection \<open>Entries that are not the operator's\<close>

definition annotation_entries :: "string \<Rightarrow> string list" where
  "annotation_entries s = List.filter (\<lambda>e. e \<noteq> []) (map TrimSpace (split (CHR '','') s))"

definition extractUnmanagedIPs :: "string \<Rightarrow> ipprefix list \<Rightarrow> string list" where
  "extractUnmanagedIPs s managed =
     (if s = [] then []
      else List.filter (\<lambda>raw.
             (case ParseAddr raw of
                Inl _ \<Rightarrow> True
              | Inr a \<Rightarrow> Is4 a \<or> Is4In6 a \<or> \<not> list_ex (\<lambda>p. Contains p a) managed)) (annotation_entries s))"

definition preserveUnownedIPs :: "string \<Rightarrow> ownershipRecord \<Rightarrow> ipprefix list \<Rightarrow> string list" where
  "preserveUnownedIPs s r managed =
     (if \<not> rec_present r then extractUnmanagedIPs s managed
      else if s = [] then []
      else List.filter (\<lambda>raw. \<not> owns r raw) (annotation_entries s))"

definition comma :: "string list \<Rightarrow> string" where
  "comma es = join (CHR '','') es"

text \<open>An annotation without entries is deleted rather than left empty.\<close>

definition put_or_delete :: "annotations \<Rightarrow> string \<Rightarrow> string \<Rightarrow> annotations" where
  "put_or_delete new k v = (if v = [] then new(k := None) else new(k \<mapsto> v))"

subsection \<open>The requested addresses\<close>

datatype lb_provider = lbProviderCilium | lbProviderKubevip

definition lbAddressAnnotationFor :: "annotations \<Rightarrow> string + lb_provider \<times> string" where
  "lbAddressAnnotationFor ann =
     (let v = TrimSpace (ann_value ann AnnotationLBProvider) in
      if v = [] \<or> v = ''cilium'' then Ok (lbProviderCilium, AnnotationCiliumIPs)
      else if v = ''kube-vip'' then Ok (lbProviderKubevip, AnnotationKubevipLBIPs)
      else Err v)"

definition otherLBAddressAnnotation :: "string \<Rightarrow> string" where
  "otherLBAddressAnnotation field = (if field = AnnotationCiliumIPs then AnnotationKubevipLBIPs else AnnotationCiliumIPs)"

definition writeLBAddresses ::
  "annotations \<Rightarrow> annotations \<Rightarrow> string \<Rightarrow> string \<Rightarrow> ownershipRecord \<Rightarrow> ipprefix list \<Rightarrow> annotations \<times> bool" where
  "writeLBAddresses ann new field addresses r managed =
     (let (new, updated) =
            (if ann_value ann field \<noteq> addresses then (new(field \<mapsto> addresses), True) else (new, False));
          abandoned = otherLBAddressAnnotation field
      in if ann_value ann abandoned = [] then (new, updated)
         else (put_or_delete new abandoned (comma (preserveUnownedIPs (ann_value ann abandoned) r managed)), True))"

subsection \<open>The external-dns target\<close>

definition assignedLoadBalancerIPs :: "Service \<Rightarrow> string list" where
  "assignedLoadBalancerIPs svc = sort (List.filter (\<lambda>ip. ip \<noteq> []) (svc_Ingress svc))"

definition release_deconfigured ::
  "annotations \<Rightarrow> ownershipRecord \<Rightarrow> ipprefix list \<Rightarrow> string list \<Rightarrow> annotations \<times> bool \<Rightarrow> annotations \<times> bool" where
  "release_deconfigured ann r managed keys nu =
     fold (\<lambda>k (new, updated).
       if ann k = None then (new, updated)
       else (put_or_delete new k (comma (preserveUnownedIPs (ann_value ann k) r managed)), True)) keys nu"

definition release_on_opt_out ::
  "annotations \<Rightarrow> ownershipRecord \<Rightarrow> ipprefix list \<Rightarrow> string list \<Rightarrow> annotations \<Rightarrow> annotations" where
  "release_on_opt_out ann r managed keys new =
     fold (\<lambda>k new.
       if ann k = None then new
       else let released = comma (preserveUnownedIPs (ann_value ann k) r managed) in
         if ann_value ann k \<noteq> released then put_or_delete new k released else new) keys new"

record dns_outcome =
  dns_target :: string
  dns_deferred :: bool
  dns_updated :: bool
  dns_annotations :: annotations

definition syncExternalDNSTarget ::
  "string list \<Rightarrow> Service \<Rightarrow> annotations \<Rightarrow> annotations \<Rightarrow> string \<Rightarrow> ipprefix list \<Rightarrow> bool \<Rightarrow> dns_outcome" where
  "syncExternalDNSTarget configured svc ann new currentIP managed skip =
     (let targetKeys = targetAnnotationKeys configured in
      if \<not> skip then
        let r = parseOwnershipRecord (ann AnnotationManagedTargets);
            (new, updated) = release_deconfigured ann r managed (releasableTargetAnnotationKeys configured) (new, False);
            preserved = preserveUnownedIPs (firstAnnotationValue ann targetKeys) r managed;
            final = comma (dedupePreservingOrder (preserved @ [currentIP]));
            assigned = assignedLoadBalancerIPs svc;
            ready = (assigned = [] \<or> currentIP \<in> set assigned);
            (new, updated, deferred) =
              (if allAnnotationsEqual ann targetKeys final then (new, updated, False)
               else if ready then (fold (\<lambda>k new. new(k \<mapsto> final)) targetKeys new, True, False)
               else (new, updated, True));
            managedTarget = formatOwnershipRecord (excludePinned [currentIP] preserved);
            (new, updated) =
              (if allAnnotationsEqual new targetKeys final \<and> ann_value ann AnnotationManagedTargets \<noteq> managedTarget
               then (new(AnnotationManagedTargets \<mapsto> managedTarget), True) else (new, updated))
        in \<lparr>dns_target = final, dns_deferred = deferred, dns_updated = updated, dns_annotations = new\<rparr>
      else
        case ann AnnotationManagedTargets of
          None \<Rightarrow> \<lparr>dns_target = [], dns_deferred = False, dns_updated = False, dns_annotations = new\<rparr>
        | Some v \<Rightarrow>
            \<lparr>dns_target = [], dns_deferred = False, dns_updated = True,
             dns_annotations = (release_on_opt_out ann (parseOwnershipRecord (Some v)) managed
                knownExternalDNSTargetAnnotationKeys new)(AnnotationManagedTargets := None)\<rparr>)"

subsection \<open>The fingerprint of the assigned addresses\<close>

text \<open>\<^verbatim>\<open>hash/fnv\<close>: the 64-bit FNV-1a hash.\<close>

definition fnv_step :: "64 word \<Rightarrow> byte \<Rightarrow> 64 word" where
  "fnv_step h b = (h XOR ucast b) * 1099511628211"

definition fnv_write :: "64 word \<Rightarrow> string \<Rightarrow> 64 word" where
  "fnv_write h s = foldl fnv_step h (map of_char s)"

definition fingerprintAddresses :: "string list \<Rightarrow> string" where
  "fingerprintAddresses ips =
     hex (unat (foldl (\<lambda>h ip. fnv_step (fnv_write h ip) 0) 14695981039346656037 (sort ips)))"

subsection \<open>The API server and the handlers\<close>

datatype service_event = InvalidLBProviderEvent string | ServiceReleasedEvent string

text \<open>
  What the reconciler calls: reading and updating Services, reading a DynamicPrefix, the events, the
  clock's text for the last-sync annotation, and the decider of the L2 nudge, which may be absent.
\<close>

record 'w service_api =
  GetService :: "'w \<Rightarrow> string \<times> string \<Rightarrow> api_error + Service"
  GetPrefix :: "'w \<Rightarrow> string \<Rightarrow> api_error + DynamicPrefix"
  UpdateService :: "'w \<Rightarrow> Service \<Rightarrow> api_error option \<times> 'w"
  EmitEvent :: "'w \<Rightarrow> Service \<Rightarrow> service_event \<Rightarrow> 'w"
  NowText :: "'w \<Rightarrow> string"
  L2Needed :: "('w \<Rightarrow> bool \<times> 'w) option"

datatype reconcile_error =
    GetServiceFailed api_error
  | GetPrefixFailed string api_error
  | AddressesFailed service_error
  | InvalidLBProvider string
  | UpdateServiceFailed api_error
  | NudgeFailed api_error
  | ReleaseFailed api_error

type_synonym 'w outcome = "(reconcile_error + duration) \<times> 'w"

definition done_now :: "'w \<Rightarrow> 'w outcome" where
  "done_now w = (Ok 0, w)"

definition nudgeL2Announcer :: "'w service_api \<Rightarrow> Service \<Rightarrow> string \<Rightarrow> 'w \<Rightarrow> 'w outcome" where
  "nudgeL2Announcer api svc currentIP w =
     (let ann = svc_Annotations svc in
      if ann_value ann AnnotationSkipL2Nudge = AnnotationValueTrue then done_now w
      else
        let (needed, w) =
          (if ann_value ann AnnotationForceL2Nudge \<noteq> AnnotationValueTrue then
             (case L2Needed api of None \<Rightarrow> (True, w) | Some f \<Rightarrow> f w)
           else (True, w)) in
        if \<not> needed then done_now w
        else
          let assigned = assignedLoadBalancerIPs svc in
          if currentIP \<notin> set assigned then (Ok minute, w)
          else
            let fp = fingerprintAddresses assigned in
            if ann_value ann AnnotationL2Nudge = fp then done_now w
            else
              (case UpdateService api w (svc\<lparr>svc_Annotations := ann(AnnotationL2Nudge \<mapsto> fp)\<rparr>) of
                 (Some e, w) \<Rightarrow> (Err (NudgeFailed e), w)
               | (None, w) \<Rightarrow> done_now w))"

text \<open>One of the three releases; the fields are read from the annotations as they were.\<close>

definition release_field :: "annotations \<Rightarrow> string \<times> string \<Rightarrow> annotations \<times> bool \<Rightarrow> annotations \<times> bool" where
  "release_field ann fr nc =
     (case fr of (fieldKey, recordKey) \<Rightarrow>
      case nc of (new, changed) \<Rightarrow>
      case ann recordKey of
        None \<Rightarrow> (new, changed)
      | Some v \<Rightarrow>
          ((put_or_delete new fieldKey (comma (preserveUnownedIPs (ann_value ann fieldKey) (parseOwnershipRecord (Some v)) [])))
             (recordKey := None), True))"

definition released_annotations :: "annotations \<Rightarrow> annotations \<times> bool" where
  "released_annotations ann =
     (let (new, changed) = fold (release_field ann)
            [(AnnotationCiliumIPs, AnnotationManagedIPs), (AnnotationKubevipLBIPs, AnnotationManagedIPs),
             (AnnotationExternalDNSTarget, AnnotationManagedTargets)] (ann, False)
      in if changed then (new(AnnotationLastSync := None, AnnotationL2Nudge := None), True) else (new, False))"

definition releaseService :: "'w service_api \<Rightarrow> Service \<Rightarrow> string \<Rightarrow> 'w \<Rightarrow> 'w outcome" where
  "releaseService api svc reason w =
     (let (new, changed) = released_annotations (svc_Annotations svc) in
      if \<not> changed then done_now w
      else
        let svc = svc\<lparr>svc_Annotations := new\<rparr> in
        (case UpdateService api w svc of
           (Some e, w) \<Rightarrow> (Err (ReleaseFailed e), w)
         | (None, w) \<Rightarrow> done_now (EmitEvent api w svc (ServiceReleasedEvent reason))))"

definition requeueIfDNSTargetDeferred :: "duration \<Rightarrow> bool \<Rightarrow> duration" where
  "requeueIfDNSTargetDeferred after deferred = (if \<not> deferred \<or> after > 0 then after else minute)"

text \<open>The annotations a pass writes, and whether it writes at all.\<close>

definition sync_annotations ::
  "string list \<Rightarrow> Service \<Rightarrow> string \<Rightarrow> string list \<Rightarrow> string \<Rightarrow> ipprefix list \<Rightarrow> dns_outcome" where
  "sync_annotations configured svc field allIPs currentIP managed =
     (let ann = svc_Annotations svc;
          r = parseOwnershipRecord (ann AnnotationManagedIPs);
          preserved = preserveUnownedIPs (ann_value ann field) r managed;
          claimed = excludePinned allIPs preserved;
          final = dedupePreservingOrder (preserved @ allIPs);
          (new, updated) = writeLBAddresses ann ann field (comma final) r managed;
          managedIPs = formatOwnershipRecord claimed;
          (new, updated) =
            (if ann_value ann AnnotationManagedIPs \<noteq> managedIPs then (new(AnnotationManagedIPs \<mapsto> managedIPs), True)
             else (new, updated));
          dns = syncExternalDNSTarget configured svc ann new currentIP managed
                  (ann_value ann AnnotationSkipExternalDNSUpdate = AnnotationValueTrue)
      in dns\<lparr>dns_updated := updated \<or> dns_updated dns\<rparr>)"

definition syncService :: "'w service_api \<Rightarrow> string list \<Rightarrow> DynamicPrefix \<Rightarrow> Service \<Rightarrow> 'w \<Rightarrow> 'w outcome" where
  "syncService api configured dp svc w =
     (case addressesForService dp svc of
        Inl e \<Rightarrow> (Err (AddressesFailed e), w)
      | Inr (allIPs, currentIP, wait) \<Rightarrow>
          if wait > 0 then (Ok wait, w)
          else if allIPs = [] \<or> currentIP = [] then (Ok (30 * second), w)
          else
            (case lbAddressAnnotationFor (svc_Annotations svc) of
               Inl v \<Rightarrow> (Err (InvalidLBProvider v), EmitEvent api w svc (InvalidLBProviderEvent v))
             | Inr (provider, field) \<Rightarrow>
                 let out = sync_annotations configured svc field allIPs currentIP (collectManagedPrefixes dp);
                     svc' = (if dns_updated out
                             then svc\<lparr>svc_Annotations := (dns_annotations out)(AnnotationLastSync \<mapsto> NowText api w)\<rparr> else svc);
                     (err, w) = (if dns_updated out then UpdateService api w svc' else (None, w))
                 in case err of
                      Some e \<Rightarrow> (Err (UpdateServiceFailed e), w)
                    | None \<Rightarrow>
                        if provider \<noteq> lbProviderCilium then (Ok (requeueIfDNSTargetDeferred 0 (dns_deferred out)), w)
                        else (case nudgeL2Announcer api svc' currentIP w of
                            (Inl e, w) \<Rightarrow> (Err e, w)
                          | (Inr after, w) \<Rightarrow> (Ok (requeueIfDNSTargetDeferred after (dns_deferred out)), w))))"

definition service_Reconcile :: "'w service_api \<Rightarrow> string list \<Rightarrow> string \<times> string \<Rightarrow> 'w \<Rightarrow> 'w outcome" where
  "service_Reconcile api configured req w =
     (case GetService api w req of
        Inl NotFoundError \<Rightarrow> done_now w
      | Inl e \<Rightarrow> (Err (GetServiceFailed e), w)
      | Inr svc \<Rightarrow>
     (let ann = svc_Annotations svc in
      if svc_Type svc \<noteq> ServiceTypeLoadBalancer then done_now w
      else case ann AnnotationName of
        None \<Rightarrow>
          if hasOwnershipRecord ann then releaseService api svc ''the dynamic-prefix.io/name annotation was removed'' w
          else done_now w
      | Some dpName \<Rightarrow>
     (case GetPrefix api w dpName of
        Inl NotFoundError \<Rightarrow>
          if hasOwnershipRecord ann then releaseService api svc (''DynamicPrefix '' @ dpName @ '' no longer exists'') w
          else (Ok (30 * second), w)
      | Inl e \<Rightarrow> (Err (GetPrefixFailed dpName e), w)
      | Inr dp \<Rightarrow>
          if (case spec_Transition (dp_Spec dp) of None \<Rightarrow> True | Some t \<Rightarrow> tr_Mode t \<noteq> TransitionModeHA) then
            if hasOwnershipRecord ann then releaseService api svc (''DynamicPrefix '' @ dpName @ '' is no longer in HA mode'') w
            else done_now w
          else if st_CurrentPrefix (dp_Status dp) = [] then (Ok (30 * second), w)
          else syncService api configured dp svc w)))"

subsection \<open>Which Services are told\<close>

definition indexServiceByDynamicPrefix :: "Service \<Rightarrow> string list" where
  "indexServiceByDynamicPrefix svc =
     (if svc_Type svc \<noteq> ServiceTypeLoadBalancer then []
      else let n = ann_value (svc_Annotations svc) AnnotationName in if n = [] then [] else [n])"

text \<open>The list request filters by the index before the code filters again.\<close>

definition findReferencingServices :: "(string \<Rightarrow> api_error + Service list) \<Rightarrow> DynamicPrefix \<Rightarrow> (string \<times> string) list" where
  "findReferencingServices listByIndex dp =
     (case listByIndex (dp_Name dp) of
        Inl _ \<Rightarrow> []
      | Inr svcs \<Rightarrow>
          map (\<lambda>svc. (svc_Namespace svc, svc_Name svc))
            (List.filter (\<lambda>svc. svc_Type svc = ServiceTypeLoadBalancer \<and>
               ann_value (svc_Annotations svc) AnnotationName = dp_Name dp) svcs))"

definition service_watch_predicate :: "Service \<Rightarrow> bool" where
  "service_watch_predicate svc \<longleftrightarrow>
     svc_Type svc = ServiceTypeLoadBalancer \<and>
     (svc_Annotations svc AnnotationName \<noteq> None \<or> hasOwnershipRecord (svc_Annotations svc))"

subsection \<open>Entries are clean text\<close>

lemma trim_front_fixed: "find (\<lambda>w. w \<noteq> [] \<and> map of_char (take (length w) (trim_front ws s)) = w) ws = None"
proof (induction ws s rule: trim_front.induct)
  case (1 ws s)
  then show ?case
    by (subst (1) trim_front.simps) (auto split: option.splits)
qed

lemma trim_front_suffix: "\<exists>pre. s = pre @ trim_front ws s"
proof (induction ws s rule: trim_front.induct)
  case (1 ws s)
  show ?case
  proof (cases "find (\<lambda>w. w \<noteq> [] \<and> map of_char (take (length w) s) = w) ws")
    case (Some w)
    obtain pre where "drop (length w) s = pre @ trim_front ws (drop (length w) s)"
      using 1 [OF Some] by blast
    then have "s = (take (length w) s @ pre) @ trim_front ws (drop (length w) s)"
      by (metis append.assoc append_take_drop_id)
    moreover have "trim_front ws s = trim_front ws (drop (length w) s)"
      using Some by (simp add: trim_front.simps [of ws s])
    ultimately show ?thesis
      by metis
  qed (simp add: trim_front.simps [of ws s])
qed

lemma trim_front_id: "find (\<lambda>w. w \<noteq> [] \<and> map of_char (take (length w) s) = w) ws = None \<Longrightarrow> trim_front ws s = s"
  by (simp add: trim_front.simps [of ws s])

lemma no_match_prefix:
  fixes ws :: "nat list list"
  assumes "find (\<lambda>w. w \<noteq> [] \<and> map of_char (take (length w) (s @ t)) = w) ws = None"
  shows "find (\<lambda>w. w \<noteq> [] \<and> map of_char (take (length w) s) = w) ws = None"
proof -
  have "map of_char (take (length w) (s @ t)) = w" if "map of_char (take (length w) s) = w" for w :: "nat list"
  proof -
    have "length w = length (take (length w) s)"
      using that by (metis length_map)
    then show ?thesis
      using that by simp
  qed
  then show ?thesis
    using assms unfolding find_None_iff by blast
qed

lemma set_TrimSpace: "set (TrimSpace s) \<subseteq> set s"
proof -
  obtain p q where "s = p @ trim_front space_codes s"
    "rev (trim_front space_codes s) = q @ trim_front (map rev space_codes) (rev (trim_front space_codes s))"
    using trim_front_suffix by metis
  then show ?thesis
    unfolding TrimSpace_def by (metis Un_iff set_append set_rev subsetI)
qed

lemma TrimSpace_idem [simp]: "TrimSpace (TrimSpace s) = TrimSpace s"
proof -
  define t where "t = trim_front space_codes s"
  define u where "u = trim_front (map rev space_codes) (rev t)"
  obtain q where "rev t = q @ u"
    unfolding u_def using trim_front_suffix by blast
  then have t: "t = rev u @ rev q"
    by (metis rev_append rev_rev_ident)
  have "find (\<lambda>w. w \<noteq> [] \<and> map of_char (take (length w) t) = w) space_codes = None"
    unfolding t_def by (rule trim_front_fixed)
  then have "trim_front space_codes (rev u) = rev u"
    unfolding t by (rule trim_front_id [OF no_match_prefix])
  moreover have "trim_front (map rev space_codes) u = u"
    unfolding u_def by (rule trim_front_id [OF trim_front_fixed])
  moreover have "TrimSpace s = rev u"
    by (simp add: TrimSpace_def t_def u_def)
  ultimately show ?thesis
    by (simp add: TrimSpace_def)
qed

definition clean :: "string \<Rightarrow> bool" where
  "clean e \<longleftrightarrow> e \<noteq> [] \<and> TrimSpace e = e \<and> CHR '','' \<notin> set e"

lemma split_no_comma: "x \<in> set (split c s) \<Longrightarrow> c \<notin> set x"
  by (induction c s arbitrary: x rule: split.induct) (auto split: list.splits if_splits)

lemma clean_entries: "e \<in> set (annotation_entries s) \<Longrightarrow> clean e"
  using split_no_comma set_TrimSpace by (fastforce simp: annotation_entries_def clean_def)

lemma clean_recordable: "recordable e \<Longrightarrow> clean e"
  by (simp add: recordable_def record_text_def clean_def)

lemma clean_preserved: "e \<in> set (preserveUnownedIPs s r managed) \<Longrightarrow> clean e"
  using clean_entries by (auto simp: preserveUnownedIPs_def extractUnmanagedIPs_def split: if_splits)

lemma entries_comma:
  assumes "\<forall>e \<in> set es. clean e"
  shows "annotation_entries (comma es) = es"
proof (cases "es = []")
  case False
  then have "split (CHR '','') (comma es) = es"
    using assms unfolding comma_def by (intro split_join) (auto simp: clean_def)
  moreover have "map TrimSpace es = es"
    using assms by (intro map_idI) (auto simp: clean_def)
  ultimately show ?thesis
    using assms by (auto simp: annotation_entries_def clean_def filter_id_conv)
qed (simp add: annotation_entries_def comma_def)

lemma comma_Nil_iff: "\<forall>e \<in> set es. clean e \<Longrightarrow> comma es = [] \<longleftrightarrow> es = []"
  using entries_comma [of es] by (auto simp: comma_def annotation_entries_def)

subsection \<open>What is written and what is read back\<close>

lemma dedupe_from_append:
  "dedupe_from seen (xs @ ys) = dedupe_from seen xs @ dedupe_from (seen \<union> canonicalEntry ` set xs) ys"
  by (induction xs arbitrary: seen) (auto simp: Let_def insert_absorb)

lemma dedupe_from_set: "set (dedupe_from seen xs) \<subseteq> {x \<in> set xs. canonicalEntry x \<notin> seen}"
  by (induction xs arbitrary: seen) (auto simp: Let_def)

lemma dedupe_from_keys: "canonicalEntry ` set (dedupe_from seen xs) = canonicalEntry ` set xs - seen"
  by (induction xs arbitrary: seen) (auto simp: Let_def)

lemma dedupe_from_idem: "seen' \<subseteq> seen \<Longrightarrow> dedupe_from seen' (dedupe_from seen xs) = dedupe_from seen xs"
proof (induction xs arbitrary: seen seen')
  case (Cons x xs)
  show ?case
  proof (cases "canonicalEntry x \<in> seen")
    case False
    then have "canonicalEntry x \<notin> seen'"
      using Cons.prems by blast
    moreover have "dedupe_from (insert (canonicalEntry x) seen') (dedupe_from (insert (canonicalEntry x) seen) xs) =
        dedupe_from (insert (canonicalEntry x) seen) xs"
      using Cons.prems by (intro Cons.IH) blast
    ultimately show ?thesis
      using False by (simp add: Let_def)
  qed (simp add: Let_def Cons)
qed simp

lemma dedupe_absorb: "dedupePreservingOrder (dedupePreservingOrder us @ ips) = dedupePreservingOrder (us @ ips)"
  by (simp add: dedupePreservingOrder_def dedupe_from_append dedupe_from_idem dedupe_from_keys)

lemma set_dedupe: "set (dedupePreservingOrder us) \<subseteq> set us"
  using dedupe_from_set [of "{}" us] by (auto simp: dedupePreservingOrder_def)

lemma excludePinned_clean:
  assumes "\<forall>e \<in> set us \<union> set ips. clean e"
  shows "excludePinned ips us = List.filter (\<lambda>c. canonicalEntry c \<notin> canonicalEntry ` set us) ips"
proof (cases "us = []")
  case False
  have "(\<lambda>p. canonicalEntry (TrimSpace p)) ` set us = canonicalEntry ` set us"
    using assms by (intro image_cong) (auto simp: clean_def)
  then show ?thesis
    using False assms by (simp add: excludePinned_def Let_def, intro filter_cong) (auto simp: clean_def)
qed (simp add: excludePinned_def)

lemma excludePinned_dedupe:
  assumes "\<forall>e \<in> set us \<union> set ips. clean e"
  shows "excludePinned ips (dedupePreservingOrder us) = excludePinned ips us"
proof -
  have "\<forall>e \<in> set (dedupePreservingOrder us) \<union> set ips. clean e"
    using assms set_dedupe by blast
  moreover have "canonicalEntry ` set (dedupePreservingOrder us) = canonicalEntry ` set us"
    using dedupe_from_keys [of "{}" us] by (simp add: dedupePreservingOrder_def)
  ultimately show ?thesis
    using assms by (simp add: excludePinned_clean)
qed

text \<open>Reading back what a pass wrote, with the record it wrote, gives the user's entries again.\<close>

lemma preserved_after_write:
  assumes "\<forall>u \<in> set us. clean u" and "\<forall>i \<in> set ips. recordable i"
  shows "preserveUnownedIPs (comma (dedupePreservingOrder (us @ ips)))
     (parseOwnershipRecord (Some (formatOwnershipRecord (excludePinned ips us)))) managed = dedupePreservingOrder us"
proof -
  let ?D = "dedupePreservingOrder (us @ ips)" and ?claimed = "excludePinned ips us"
  have clean: "\<forall>e \<in> set us \<union> set ips. clean e"
    using assms clean_recordable by blast
  have claimed: "set ?claimed = {c \<in> set ips. canonicalEntry c \<notin> canonicalEntry ` set us}"
    using excludePinned_clean [OF clean] by auto
  then have owns: "owns (parseOwnershipRecord (Some (formatOwnershipRecord ?claimed))) e \<longleftrightarrow>
      canonicalEntry e \<in> canonicalEntry ` set ?claimed" for e
    using assms(2) parse_formatted [of ?claimed] by (simp add: owns_def)
  have "\<forall>e \<in> set ?D. clean e"
    using clean set_dedupe [of "us @ ips"] by auto
  then have entries: "annotation_entries (comma ?D) = ?D" "comma ?D = [] \<longleftrightarrow> ?D = []"
    using entries_comma comma_Nil_iff by blast+
  have D: "?D = dedupePreservingOrder us @ dedupe_from (canonicalEntry ` set us) ips"
    by (simp add: dedupePreservingOrder_def dedupe_from_append)
  have apart: "canonicalEntry ` set ?claimed \<inter> canonicalEntry ` set us = {}"
    unfolding claimed by auto
  moreover have "canonicalEntry ` set (dedupePreservingOrder us) \<subseteq> canonicalEntry ` set us"
    using set_dedupe by (rule image_mono)
  ultimately have "\<forall>e \<in> set (dedupePreservingOrder us). canonicalEntry e \<notin> canonicalEntry ` set ?claimed"
    by blast
  then have "List.filter (\<lambda>e. canonicalEntry e \<notin> canonicalEntry ` set ?claimed) (dedupePreservingOrder us) = dedupePreservingOrder us"
    unfolding filter_id_conv .
  moreover have "List.filter (\<lambda>e. canonicalEntry e \<notin> canonicalEntry ` set ?claimed) (dedupe_from (canonicalEntry ` set us) ips) = []"
    using dedupe_from_set [of "canonicalEntry ` set us" ips] by (auto simp: filter_empty_conv claimed)
  ultimately have "List.filter (\<lambda>e. canonicalEntry e \<notin> canonicalEntry ` set ?claimed) ?D = dedupePreservingOrder us"
    unfolding D by simp
  then show ?thesis
    by (cases "?D = []") (simp add: preserveUnownedIPs_def comma_def, simp add: preserveUnownedIPs_def entries owns)
qed

subsection \<open>The requested addresses of two passes\<close>

text \<open>The operator's configuration of the target keys does not name one of its other annotations.\<close>

definition keys_apart :: "string list \<Rightarrow> bool" where
  "keys_apart configured \<longleftrightarrow>
     list_all (\<lambda>k. k \<notin> {AnnotationCiliumIPs, AnnotationKubevipLBIPs, AnnotationManagedIPs, AnnotationManagedTargets})
       (targetAnnotationKeys configured)"

lemmas annotation_names = AnnotationCiliumIPs_def AnnotationKubevipLBIPs_def AnnotationManagedIPs_def
  AnnotationManagedTargets_def AnnotationExternalDNSTarget_def AnnotationExternalDNSTargetNew_def AnnotationLastSync_def
  AnnotationL2Nudge_def

lemma fold_put: "fold (\<lambda>k new. new(k \<mapsto> v)) keys new = (\<lambda>k. if k \<in> set keys then Some v else new k)"
  by (induction keys arbitrary: new) auto

lemma release_deconfigured_other:
  "k \<notin> set keys \<Longrightarrow> fst (release_deconfigured ann r managed keys nu) k = fst nu k"
  unfolding release_deconfigured_def
  by (induction keys arbitrary: nu) (auto simp: put_or_delete_def split: prod.splits)

lemma release_on_opt_out_other:
  "k \<notin> set keys \<Longrightarrow> release_on_opt_out ann r managed keys new k = new k"
  unfolding release_on_opt_out_def
  by (induction keys arbitrary: new) (auto simp: put_or_delete_def Let_def)

text \<open>The target's part of a pass leaves the other annotations alone.\<close>

lemma dns_other:
  assumes "k \<notin> set (targetAnnotationKeys configured)" "k \<notin> set knownExternalDNSTargetAnnotationKeys"
    and "k \<noteq> AnnotationManagedTargets"
  shows "dns_annotations (syncExternalDNSTarget configured svc ann new currentIP managed skip) k = new k"
proof -
  have "k \<notin> set (releasableTargetAnnotationKeys configured)"
    using assms(2) by (auto simp: releasableTargetAnnotationKeys_def)
  from release_deconfigured_other [OF this] show ?thesis
    using assms
    by (auto simp: syncExternalDNSTarget_def Let_def fold_put release_on_opt_out_other split: prod.splits option.splits)
       (metis fst_conv)+
qed

lemma known_keys_apart:
  "k \<in> {AnnotationCiliumIPs, AnnotationKubevipLBIPs, AnnotationManagedIPs, AnnotationManagedTargets} \<Longrightarrow>
   k \<notin> set knownExternalDNSTargetAnnotationKeys"
  by (auto simp: knownExternalDNSTargetAnnotationKeys_def annotation_names)

text \<open>The fields that carry requested addresses.\<close>

definition lb_field :: "string \<Rightarrow> bool" where
  "lb_field field \<longleftrightarrow> field = AnnotationCiliumIPs \<or> field = AnnotationKubevipLBIPs"

lemma lb_field_names:
  "lb_field field \<Longrightarrow> field \<notin> {AnnotationManagedIPs, AnnotationManagedTargets, AnnotationLastSync, AnnotationL2Nudge}"
  by (auto simp: lb_field_def annotation_names)

lemma sync_fields:
  fixes svc :: Service and managed :: "ipprefix list" and ips :: "string list" and cur :: string
  assumes "lb_field field" "keys_apart configured"
  defines "ann \<equiv> svc_Annotations svc"
  defines "U \<equiv> preserveUnownedIPs (ann_value ann field) (parseOwnershipRecord (ann AnnotationManagedIPs)) managed"
    and "new \<equiv> dns_annotations (sync_annotations configured svc field ips cur managed)"
  shows "ann_value new field = comma (dedupePreservingOrder (U @ ips))"
    and "ann_value new AnnotationManagedIPs = formatOwnershipRecord (excludePinned ips U)"
proof -
  have apart: "k \<notin> set (targetAnnotationKeys configured)" "k \<notin> set knownExternalDNSTargetAnnotationKeys"
    "k \<noteq> AnnotationManagedTargets" if "k = field \<or> k = AnnotationManagedIPs" for k
    using that assms(1,2) known_keys_apart [of k]
    by (auto simp: keys_apart_def lb_field_def list_all_iff annotation_names)
  have other: "otherLBAddressAnnotation field \<noteq> field" "otherLBAddressAnnotation field \<noteq> AnnotationManagedIPs"
    "field \<noteq> AnnotationManagedIPs"
    using assms(1) by (auto simp: lb_field_def otherLBAddressAnnotation_def annotation_names)
  note defs = new_def U_def ann_def sync_annotations_def writeLBAddresses_def Let_def
  show "ann_value new field = comma (dedupePreservingOrder (U @ ips))"
    using other by (auto simp: defs dns_other [OF apart] ann_value_def put_or_delete_def split: prod.splits if_splits)
  show "ann_value new AnnotationManagedIPs = formatOwnershipRecord (excludePinned ips U)"
    using other by (auto simp: defs dns_other [OF apart] ann_value_def put_or_delete_def split: prod.splits if_splits)
qed

text \<open>
  C4: A rotation leaves nothing of the old prefix in a Service's requested addresses: when a pass has
  written its addresses and its record, the next pass, for whatever prefixes and addresses, requests
  the entries that were there before the operator (in their order) followed by the new addresses, and
  nothing else, and records as its own exactly the new addresses that are not among the user's.
\<close>

theorem service_rotation_leaves_nothing_behind:
  assumes "lb_field field" and "keys_apart configured" and "\<forall>i \<in> set ips \<union> set ips'. recordable i"
    and "new = dns_annotations (sync_annotations configured svc field ips cur managed)"
    and "new AnnotationManagedIPs \<noteq> None"
    and "\<forall>k \<in> {field, AnnotationManagedIPs}. svc_Annotations svc' k = new k"
  shows "let ann = svc_Annotations svc;
             U = preserveUnownedIPs (ann_value ann field) (parseOwnershipRecord (ann AnnotationManagedIPs)) managed;
             new' = dns_annotations (sync_annotations configured svc' field ips' cur' managed')
         in annotation_entries (ann_value new' field) = dedupePreservingOrder (U @ ips') \<and>
            ann_value new' AnnotationManagedIPs = formatOwnershipRecord (excludePinned ips' U)"
proof -
  define U where "U = preserveUnownedIPs (ann_value (svc_Annotations svc) field)
      (parseOwnershipRecord (svc_Annotations svc AnnotationManagedIPs)) managed"
  have clean: "\<forall>u \<in> set U. clean u"
    unfolding U_def using clean_preserved by blast
  have clean': "\<forall>e \<in> set U \<union> set ips'. clean e"
    using clean assms(3) clean_recordable by blast
  have first: "ann_value new field = comma (dedupePreservingOrder (U @ ips))"
    "ann_value new AnnotationManagedIPs = formatOwnershipRecord (excludePinned ips U)"
    unfolding assms(4) U_def by (rule sync_fields [OF assms(1,2)])+
  then have "svc_Annotations svc' AnnotationManagedIPs = Some (formatOwnershipRecord (excludePinned ips U))"
    "ann_value (svc_Annotations svc') field = comma (dedupePreservingOrder (U @ ips))"
    using assms(5,6) by (auto simp: ann_value_def)
  then have U': "preserveUnownedIPs (ann_value (svc_Annotations svc') field)
      (parseOwnershipRecord (svc_Annotations svc' AnnotationManagedIPs)) managed' = dedupePreservingOrder U"
    using preserved_after_write [OF clean, of ips] assms(3) by simp
  note second = sync_fields [OF assms(1,2), where svc = svc' and managed = managed' and ips = ips' and cur = cur', unfolded U' dedupe_absorb excludePinned_dedupe [OF clean']]
  have "annotation_entries (comma (dedupePreservingOrder (U @ ips'))) = dedupePreservingOrder (U @ ips')"
    using clean' set_dedupe [of "U @ ips'"] by (intro entries_comma) auto
  then show ?thesis
    using second by (simp add: Let_def flip: U_def)
qed

definition sample_user :: annotations where
  "sample_user = [AnnotationCiliumIPs \<mapsto> ''example.com'']"

lemma ann_value_present: "ann_value ann k \<noteq> [] \<Longrightarrow> ann k \<noteq> None"
  by (cases "ann k") (simp_all add: ann_value_def)

lemma recordable_address: "recordable (AddrString (Addr6 w []))"
  using AddrString_nonempty by (simp add: recordable_def Zone_def)

lemma sample_preserved:
  "preserveUnownedIPs (ann_value sample_user AnnotationCiliumIPs) (parseOwnershipRecord (sample_user AnnotationManagedIPs)) [] =
     [''example.com'']"
proof -
  have "annotation_entries ''example.com'' = [''example.com'']"
    by (simp add: annotation_entries_def)
  then show ?thesis
    by (simp add: sample_user_def ann_value_def preserveUnownedIPs_def extractUnmanagedIPs_def annotation_names split: sum.split)
qed

lemma default_keys_apart: "keys_apart []"
  by (simp add: keys_apart_def targetAnnotationKeys_def DefaultExternalDNSTargetAnnotationKeys_def annotation_names)

lemma sample_record:
  "dns_annotations (sync_annotations [] (sample_svc sample_user []) AnnotationCiliumIPs
     [AddrString (Addr6 5 [])] (AddrString (Addr6 5 [])) []) AnnotationManagedIPs \<noteq> None"
proof -
  let ?old = "AddrString (Addr6 5 [])"
  have field: "lb_field AnnotationCiliumIPs"
    by (simp add: lb_field_def)
  note apart = default_keys_apart
  have "canonicalEntry ''example.com'' = ''example.com''"
    by (rule canonicalEntry_foreign [of "CHR ''x''"]) (simp_all add: addr_char_def hex_digit_def)
  moreover have parse: "ParseAddr ?old = Ok (Addr6 5 [])"
    by (rule ParseAddr_AddrString) simp
  moreover have "?old \<noteq> ''example.com''"
    using ParseAddr_zone_free(2) [of "''example.com''"] parse by (auto simp: addr_char_def hex_digit_def)
  ultimately have "excludePinned [?old] [''example.com''] = [?old]"
    using recordable_address [of 5] by (simp add: excludePinned_def recordable_def record_text_def canonicalEntry_AddrString)
  then show ?thesis
    using sync_fields(2) [OF field apart, where svc = "sample_svc sample_user []" and managed = "[]" and ips = "[?old]" and cur = ?old]
      sample_preserved AddrString_nonempty
    by (intro ann_value_present) (simp add: sample_svc_def formatOwnershipRecord_def)
qed

theorem service_rotation_leaves_nothing_behind_witness:
  "let old = AddrString (Addr6 5 []); cur = AddrString (Addr6 9 []);
       new = dns_annotations (sync_annotations [] (sample_svc sample_user []) AnnotationCiliumIPs [old] old []);
       new' = dns_annotations (sync_annotations [] (sample_svc new []) AnnotationCiliumIPs [cur] cur [])
   in annotation_entries (ann_value new' AnnotationCiliumIPs) = dedupePreservingOrder [''example.com'', cur]"
proof -
  let ?old = "AddrString (Addr6 5 [])" and ?cur = "AddrString (Addr6 9 [])"
  let ?new = "dns_annotations (sync_annotations [] (sample_svc sample_user []) AnnotationCiliumIPs [?old] ?old [])"
  have field: "lb_field AnnotationCiliumIPs"
    by (simp add: lb_field_def)
  note apart = default_keys_apart
  have rec: "\<forall>i \<in> set [?old] \<union> set [?cur]. recordable i"
    using recordable_address by simp
  from service_rotation_leaves_nothing_behind [OF field apart rec refl sample_record, of "sample_svc ?new []"]
  show ?thesis
    using sample_preserved by (simp add: sample_svc_def Let_def)
qed

text \<open>The keys of the external-dns target under which a pass publishes.\<close>

lemma write_other:
  assumes "k \<noteq> field" "k \<noteq> otherLBAddressAnnotation field"
  shows "fst (writeLBAddresses ann new field a r managed) k = new k"
  using assms by (auto simp: writeLBAddresses_def put_or_delete_def Let_def)

definition user_targets :: "string list \<Rightarrow> annotations \<Rightarrow> ipprefix list \<Rightarrow> string list" where
  "user_targets configured ann managed =
     preserveUnownedIPs (firstAnnotationValue ann (targetAnnotationKeys configured))
       (parseOwnershipRecord (ann AnnotationManagedTargets)) managed"

definition published_target :: "string list \<Rightarrow> annotations \<Rightarrow> ipprefix list \<Rightarrow> string \<Rightarrow> string" where
  "published_target configured ann managed cur = comma (dedupePreservingOrder (user_targets configured ann managed @ [cur]))"

definition target_record :: "string list \<Rightarrow> annotations \<Rightarrow> ipprefix list \<Rightarrow> string \<Rightarrow> string" where
  "target_record configured ann managed cur = formatOwnershipRecord (excludePinned [cur] (user_targets configured ann managed))"

text \<open>The address answers, or the provider reports no addresses at all.\<close>

definition address_ready :: "Service \<Rightarrow> string \<Rightarrow> bool" where
  "address_ready svc cur \<longleftrightarrow> assignedLoadBalancerIPs svc = [] \<or> cur \<in> set (assignedLoadBalancerIPs svc)"

lemma dns_pass:
  assumes "keys_apart configured" "\<forall>k \<in> insert AnnotationManagedTargets (set (targetAnnotationKeys configured)). new k = ann k"
  shows "let out = syncExternalDNSTarget configured svc ann new cur managed False; final = published_target configured ann managed cur;
             r = target_record configured ann managed cur; keys = targetAnnotationKeys configured;
             there = allAnnotationsEqual ann keys final
         in (\<forall>k \<in> set keys. dns_annotations out k = (if \<not> there \<and> address_ready svc cur then Some final else ann k)) \<and>
            dns_annotations out AnnotationManagedTargets =
              (if (there \<or> address_ready svc cur) \<and> ann_value ann AnnotationManagedTargets \<noteq> r then Some r
               else ann AnnotationManagedTargets) \<and>
            (dns_deferred out \<longleftrightarrow> \<not> there \<and> \<not> address_ready svc cur)"
proof -
  define keys where "keys = targetAnnotationKeys configured"
  define final where "final = published_target configured ann managed cur"
  define there where "there = allAnnotationsEqual ann keys final"
  obtain new1 upd where rel: "release_deconfigured ann (parseOwnershipRecord (ann AnnotationManagedTargets)) managed
      (releasableTargetAnnotationKeys configured) (new, False) = (new1, upd)"
    by fastforce
  define new2 where "new2 = (if \<not> there \<and> address_ready svc cur then fold (\<lambda>k new. new(k \<mapsto> final)) keys new1 else new1)"
  have apart: "AnnotationManagedTargets \<notin> set keys" "AnnotationManagedTargets \<notin> set knownExternalDNSTargetAnnotationKeys"
    using assms(1) known_keys_apart by (auto simp: keys_apart_def list_all_iff keys_def)
  have same: "new1 k = ann k" if "k \<in> insert AnnotationManagedTargets (set keys)" for k
  proof -
    have "k \<notin> set (releasableTargetAnnotationKeys configured)"
      using that apart by (auto simp: releasableTargetAnnotationKeys_def keys_def)
    then show ?thesis
      using release_deconfigured_other [of k] rel assms(2) that by (metis fst_conv keys_def)
  qed
  have new2: "\<forall>k \<in> set keys. new2 k = (if \<not> there \<and> address_ready svc cur then Some final else ann k)"
    "new2 AnnotationManagedTargets = ann AnnotationManagedTargets"
    using same apart by (auto simp: new2_def fold_put)
  have all: "allAnnotationsEqual new2 keys final \<longleftrightarrow> there \<or> address_ready svc cur"
    using new2(1) by (auto simp: there_def allAnnotationsEqual_def list_all_iff ann_value_def)
  have out: "dns_annotations (syncExternalDNSTarget configured svc ann new cur managed False) =
      (if allAnnotationsEqual new2 keys final \<and> ann_value ann AnnotationManagedTargets \<noteq> target_record configured ann managed cur
       then new2(AnnotationManagedTargets \<mapsto> target_record configured ann managed cur) else new2) \<and>
      (dns_deferred (syncExternalDNSTarget configured svc ann new cur managed False) \<longleftrightarrow> \<not> there \<and> \<not> address_ready svc cur)"
    by (simp add: syncExternalDNSTarget_def Let_def rel new2_def there_def address_ready_def keys_def final_def
        published_target_def target_record_def user_targets_def)
  show ?thesis
    unfolding Let_def keys_def [symmetric] final_def [symmetric] there_def [symmetric]
    using out new2 all apart by auto
qed

lemma sync_dns:
  assumes "lb_field field"
  shows "\<exists>new. dns_annotations (sync_annotations configured svc field ips cur managed) =
      dns_annotations (syncExternalDNSTarget configured svc (svc_Annotations svc) new cur managed
        (ann_value (svc_Annotations svc) AnnotationSkipExternalDNSUpdate = AnnotationValueTrue)) \<and>
    dns_deferred (sync_annotations configured svc field ips cur managed) =
      dns_deferred (syncExternalDNSTarget configured svc (svc_Annotations svc) new cur managed
        (ann_value (svc_Annotations svc) AnnotationSkipExternalDNSUpdate = AnnotationValueTrue)) \<and>
    (\<forall>k. k \<notin> {AnnotationCiliumIPs, AnnotationKubevipLBIPs, AnnotationManagedIPs} \<longrightarrow> new k = svc_Annotations svc k)"
proof -
  let ?ann = "svc_Annotations svc"
  let ?r = "parseOwnershipRecord (?ann AnnotationManagedIPs)"
  let ?U = "preserveUnownedIPs (ann_value ?ann field) ?r managed"
  obtain new1 upd1 where w: "writeLBAddresses ?ann ?ann field (comma (dedupePreservingOrder (?U @ ips))) ?r managed = (new1, upd1)"
    by fastforce
  define new where "new = (if ann_value ?ann AnnotationManagedIPs \<noteq> formatOwnershipRecord (excludePinned ips ?U)
      then new1(AnnotationManagedIPs \<mapsto> formatOwnershipRecord (excludePinned ips ?U)) else new1)"
  have "new1 k = ?ann k" if "k \<notin> {AnnotationCiliumIPs, AnnotationKubevipLBIPs}" for k
    using write_other [of k field] assms(1) that w
    by (metis fst_conv insert_iff lb_field_def otherLBAddressAnnotation_def)
  then show ?thesis
    by (intro exI [of _ new]) (simp add: sync_annotations_def Let_def w new_def)
qed

text \<open>
  C5: DNS follows the address and never leads it: a pass changes a configured target annotation only
  when the current address is among those assigned to the Service (or the Service reports none), and
  then to the user's entries followed by that address; the record of what the operator published
  moves only together with the target, so an old entry is never mistaken for the user's; and while
  the target is withheld neither moves and the reconcile asks to be run again.
\<close>

theorem dns_follows_address:
  assumes "lb_field field" and "keys_apart configured"
    and "ann_value (svc_Annotations svc) AnnotationSkipExternalDNSUpdate \<noteq> AnnotationValueTrue"
  shows "let ann = svc_Annotations svc; keys = targetAnnotationKeys configured; final = published_target configured ann managed cur;
             out = sync_annotations configured svc field ips cur managed; new = dns_annotations out
         in (\<forall>k \<in> set keys. new k \<noteq> ann k \<longrightarrow> address_ready svc cur \<and> new k = Some final) \<and>
            (new AnnotationManagedTargets \<noteq> ann AnnotationManagedTargets \<longrightarrow>
               allAnnotationsEqual new keys final \<and> new AnnotationManagedTargets = Some (target_record configured ann managed cur)) \<and>
            (dns_deferred out \<longleftrightarrow> \<not> allAnnotationsEqual new keys final) \<and>
            (dns_deferred out \<longrightarrow> requeueIfDNSTargetDeferred after (dns_deferred out) > 0 \<and> \<not> address_ready svc cur)"
proof -
  let ?ann = "svc_Annotations svc" and ?keys = "targetAnnotationKeys configured"
  have skip: "(ann_value ?ann AnnotationSkipExternalDNSUpdate = AnnotationValueTrue) = False"
    using assms(3) by simp
  obtain new where new: "dns_annotations (sync_annotations configured svc field ips cur managed) =
      dns_annotations (syncExternalDNSTarget configured svc ?ann new cur managed False)"
    "dns_deferred (sync_annotations configured svc field ips cur managed) =
      dns_deferred (syncExternalDNSTarget configured svc ?ann new cur managed False)"
    "\<forall>k. k \<notin> {AnnotationCiliumIPs, AnnotationKubevipLBIPs, AnnotationManagedIPs} \<longrightarrow> new k = ?ann k"
    using sync_dns [OF assms(1), where configured = configured and svc = svc and ips = ips and cur = cur and managed = managed,
        unfolded skip] by blast
  have "\<forall>k \<in> insert AnnotationManagedTargets (set ?keys). k \<notin> {AnnotationCiliumIPs, AnnotationKubevipLBIPs, AnnotationManagedIPs}"
    using assms(2) by (auto simp: keys_apart_def list_all_iff annotation_names)
  then have same: "\<forall>k \<in> insert AnnotationManagedTargets (set ?keys). new k = ?ann k"
    using new(3) by blast
  note pass = dns_pass [OF assms(2) same, of svc cur managed, unfolded Let_def]
  have all: "allAnnotationsEqual (dns_annotations (sync_annotations configured svc field ips cur managed)) ?keys
        (published_target configured ?ann managed cur) \<longleftrightarrow>
      allAnnotationsEqual ?ann ?keys (published_target configured ?ann managed cur) \<or> address_ready svc cur"
    using pass new(1) by (auto simp: allAnnotationsEqual_def list_all_iff ann_value_def)
  show ?thesis
    unfolding Let_def all using pass new(1,2)
    by (auto simp: requeueIfDNSTargetDeferred_def minute_def second_def split: if_splits)
qed

theorem dns_follows_address_witness:
  "let svc = sample_svc [AnnotationExternalDNSTarget \<mapsto> ''example.com''] [''2001:db8::1''];
       cur = AddrString (Addr6 9 []);
       out = sync_annotations [] svc AnnotationCiliumIPs [cur] cur []
   in \<forall>k \<in> set knownExternalDNSTargetAnnotationKeys. dns_annotations out k = svc_Annotations svc k"
proof -
  let ?svc = "sample_svc [AnnotationExternalDNSTarget \<mapsto> ''example.com''] [''2001:db8::1'']" and ?cur = "AddrString (Addr6 9 [])"
  have field: "lb_field AnnotationCiliumIPs" and apart: "keys_apart []"
    by (simp_all add: lb_field_def keys_apart_def targetAnnotationKeys_def DefaultExternalDNSTargetAnnotationKeys_def annotation_names)
  have skip: "ann_value (svc_Annotations ?svc) AnnotationSkipExternalDNSUpdate \<noteq> AnnotationValueTrue"
    by (simp add: sample_svc_def ann_value_def AnnotationSkipExternalDNSUpdate_def AnnotationValueTrue_def AnnotationExternalDNSTarget_def)
  have "ParseAddr ?cur = Ok (Addr6 9 [])" "ParseAddr ''2001:db8::1'' = Ok (Addr6 0x20010DB8000000000000000000000001 [])"
    by (simp add: ParseAddr_AddrString, simp add: go_eval)
  then have "?cur \<noteq> ''2001:db8::1''"
    by auto
  then have "\<not> address_ready ?svc ?cur"
    by (simp add: address_ready_def assignedLoadBalancerIPs_def sample_svc_def)
  then show ?thesis
    using dns_follows_address [OF field apart skip, of "[]" ?cur "[?cur]"]
    by (auto simp: Let_def targetAnnotationKeys_def DefaultExternalDNSTargetAnnotationKeys_def knownExternalDNSTargetAnnotationKeys_def)
qed

subsection \<open>Release\<close>

definition kept_field :: "annotations \<Rightarrow> string \<Rightarrow> string \<Rightarrow> string option" where
  "kept_field ann field v =
     (let kept = comma (preserveUnownedIPs (ann_value ann field) (parseOwnershipRecord (Some v)) []) in
      if kept = [] then None else Some kept)"

lemma fst_release_field:
  "fst (release_field ann (f, rk) nc) k =
     (case ann rk of None \<Rightarrow> fst nc k | Some v \<Rightarrow> if k = rk then None else if k = f then kept_field ann f v else fst nc k)"
  by (cases nc) (simp add: release_field_def put_or_delete_def kept_field_def Let_def split: option.split)

lemma snd_release_field: "snd (release_field ann (f, rk) nc) \<longleftrightarrow> snd nc \<or> ann rk \<noteq> None"
  by (cases nc) (simp add: release_field_def split: option.split)

lemma fst_released:
  assumes "ann AnnotationManagedIPs = Some r"
  shows "fst (released_annotations ann) k =
     (if k \<in> {AnnotationManagedIPs, AnnotationManagedTargets, AnnotationLastSync, AnnotationL2Nudge} then None
      else if lb_field k then kept_field ann k r
      else if k = AnnotationExternalDNSTarget \<and> ann AnnotationManagedTargets \<noteq> None
        then kept_field ann k (the (ann AnnotationManagedTargets))
      else ann k)"
proof -
  define nc where "nc = fold (release_field ann)
      [(AnnotationCiliumIPs, AnnotationManagedIPs), (AnnotationKubevipLBIPs, AnnotationManagedIPs),
       (AnnotationExternalDNSTarget, AnnotationManagedTargets)] (ann, False)"
  have "snd nc"
    using assms by (simp add: nc_def snd_release_field)
  then have "fst (released_annotations ann) = (fst nc)(AnnotationLastSync := None, AnnotationL2Nudge := None)"
    unfolding released_annotations_def nc_def [symmetric] by (cases nc) simp
  moreover have "distinct [AnnotationManagedIPs, AnnotationManagedTargets, AnnotationLastSync, AnnotationL2Nudge,
      AnnotationCiliumIPs, AnnotationKubevipLBIPs, AnnotationExternalDNSTarget]"
    by (simp add: annotation_names)
  ultimately show ?thesis
    using assms by (cases "ann AnnotationManagedTargets") (auto simp: nc_def fst_release_field lb_field_def)
qed

lemma released_untouched: "ann AnnotationManagedIPs = None \<Longrightarrow> ann AnnotationManagedTargets = None \<Longrightarrow> released_annotations ann = (ann, False)"
  by (simp add: released_annotations_def release_field_def)



text \<open>
  A release forgets one spelling of the target: with the default configuration a pass publishes
  the target under both names, but a release cleans only the older one and deletes the record, so the
  address of the operator stays under the newer name and nothing marks it as the operator's.
\<close>

theorem release_keeps_newer_target:
  assumes "lb_field field" and "ann_value (svc_Annotations svc) AnnotationSkipExternalDNSUpdate \<noteq> AnnotationValueTrue"
    and "address_ready svc cur" and "recordable cur"
    and "new = dns_annotations (sync_annotations [] svc field ips cur managed)"
    and "new AnnotationManagedIPs \<noteq> None"
  shows "cur \<in> canonicalEntry -` canonicalEntry ` set (annotation_entries
           (ann_value (fst (released_annotations new)) AnnotationExternalDNSTargetNew)) \<and>
         fst (released_annotations new) AnnotationManagedTargets = None"
proof -
  let ?ann = "svc_Annotations svc" and ?U = "user_targets [] (svc_Annotations svc) managed"
  obtain r where r: "new AnnotationManagedIPs = Some r"
    using assms(6) by blast
  have both: "set (targetAnnotationKeys []) = {AnnotationExternalDNSTarget, AnnotationExternalDNSTargetNew}"
    by (simp add: targetAnnotationKeys_def DefaultExternalDNSTargetAnnotationKeys_def)
  have skip: "(ann_value ?ann AnnotationSkipExternalDNSUpdate = AnnotationValueTrue) = False"
    using assms(2) by simp
  obtain n where n: "new = dns_annotations (syncExternalDNSTarget [] svc ?ann n cur managed False)"
    "\<forall>k. k \<notin> {AnnotationCiliumIPs, AnnotationKubevipLBIPs, AnnotationManagedIPs} \<longrightarrow> n k = ?ann k"
    using sync_dns [OF assms(1), where configured = "[]" and svc = svc and ips = ips and cur = cur and managed = managed,
        unfolded skip] unfolding assms(5) by blast
  have "\<forall>k \<in> insert AnnotationManagedTargets (set (targetAnnotationKeys [])). n k = ?ann k"
    using n(2) by (auto simp: both annotation_names)
  from dns_pass [OF default_keys_apart this, of svc cur managed] n(1) assms(3)
  have "new AnnotationExternalDNSTargetNew = Some (published_target [] ?ann managed cur) \<or>
      ann_value ?ann AnnotationExternalDNSTargetNew = published_target [] ?ann managed cur \<and>
      new AnnotationExternalDNSTargetNew = ?ann AnnotationExternalDNSTargetNew"
    by (auto simp: Let_def both allAnnotationsEqual_def list_all_iff split: if_splits)
  then have v: "ann_value new AnnotationExternalDNSTargetNew = published_target [] ?ann managed cur"
    by (auto simp: ann_value_def)
  have "fst (released_annotations new) AnnotationExternalDNSTargetNew = new AnnotationExternalDNSTargetNew"
    "fst (released_annotations new) AnnotationManagedTargets = None"
    by (simp_all add: fst_released [where ann = new, OF r] lb_field_def annotation_names)
  moreover have clean: "\<forall>e \<in> set (?U @ [cur]). clean e"
    using clean_recordable [OF assms(4)] clean_preserved by (auto simp: user_targets_def)
  then have "annotation_entries (published_target [] ?ann managed cur) = dedupePreservingOrder (?U @ [cur])"
    unfolding published_target_def using set_dedupe [of "?U @ [cur]"] by (intro entries_comma) auto
  moreover have "canonicalEntry cur \<in> canonicalEntry ` set (dedupePreservingOrder (?U @ [cur]))"
    using dedupe_from_keys [of "{}" "?U @ [cur]"] by (simp add: dedupePreservingOrder_def)
  ultimately show ?thesis
    using v by (simp add: ann_value_def)
qed

theorem release_keeps_newer_target_witness:
  "let ip = AddrString (Addr6 5 []);
       new = dns_annotations (sync_annotations [] (sample_svc sample_user []) AnnotationCiliumIPs [ip] ip [])
   in ann_value (fst (released_annotations new)) AnnotationExternalDNSTargetNew \<noteq> [] \<and>
      fst (released_annotations new) AnnotationManagedTargets = None"
proof -
  let ?ip = "AddrString (Addr6 5 [])"
  let ?new = "dns_annotations (sync_annotations [] (sample_svc sample_user []) AnnotationCiliumIPs [?ip] ?ip [])"
  have "lb_field AnnotationCiliumIPs" "address_ready (sample_svc sample_user []) ?ip"
    "ann_value (svc_Annotations (sample_svc sample_user [])) AnnotationSkipExternalDNSUpdate \<noteq> AnnotationValueTrue"
    by (simp_all add: lb_field_def address_ready_def assignedLoadBalancerIPs_def sample_svc_def sample_user_def ann_value_def
        AnnotationCiliumIPs_def AnnotationSkipExternalDNSUpdate_def AnnotationValueTrue_def)
  from release_keeps_newer_target [OF this(1,3,2) recordable_address refl sample_record]
  have "annotation_entries (ann_value (fst (released_annotations ?new)) AnnotationExternalDNSTargetNew) \<noteq> []"
    "fst (released_annotations ?new) AnnotationManagedTargets = None"
    by auto
  moreover have "annotation_entries [] = []"
    by (simp add: annotation_entries_def)
  ultimately show ?thesis
    by (auto simp: Let_def)
qed

subsection \<open>Writes that change nothing\<close>

lemma release_deconfigured_here:
  "k \<in> set keys \<Longrightarrow> ann k \<noteq> None \<Longrightarrow>
   fst (release_deconfigured ann r managed keys nu) k =
     (let kept = comma (preserveUnownedIPs (ann_value ann k) r managed) in if kept = [] then None else Some kept) \<and>
   snd (release_deconfigured ann r managed keys nu)"
proof (induction keys arbitrary: nu)
  case (Cons x keys)
  have updated: "snd (release_deconfigured ann r managed ks (n, True))" for ks n
    unfolding release_deconfigured_def by (induction ks arbitrary: n) auto
  let ?nu = "case nu of (new, updated) \<Rightarrow> if ann x = None then (new, updated)
      else (put_or_delete new x (comma (preserveUnownedIPs (ann_value ann x) r managed)), True)"
  have step: "release_deconfigured ann r managed (x # keys) nu = release_deconfigured ann r managed keys ?nu"
    by (simp add: release_deconfigured_def)
  show ?case
  proof (cases "k \<in> set keys")
    case True
    then show ?thesis
      unfolding step using Cons by blast
  next
    case False
    then have "x = k"
      using Cons.prems by simp
    then show ?thesis
      unfolding step using release_deconfigured_other [OF False, of ann r managed ?nu] Cons.prems(2) updated
      by (cases nu) (auto simp: put_or_delete_def Let_def)
  qed
qed simp

text \<open>
  A pass that changes nothing still writes: when the annotation of the provider that is not
  selected, or a target annotation that is no longer configured, holds only entries of the user, the
  pass leaves that annotation as it is and yet reports a change, so every reconcile updates the
  Service again.
\<close>

theorem foreign_entries_force_rewrites:
  assumes "lb_field field" and "keys_apart configured"
    and "ann_value (svc_Annotations svc) AnnotationSkipExternalDNSUpdate \<noteq> AnnotationValueTrue"
    and "k = otherLBAddressAnnotation field \<and> rk = AnnotationManagedIPs \<or>
         k \<in> set (releasableTargetAnnotationKeys configured) \<and> rk = AnnotationManagedTargets"
    and "svc_Annotations svc k = Some (comma us)" and "us \<noteq> []"
    and "preserveUnownedIPs (comma us) (parseOwnershipRecord (svc_Annotations svc rk)) managed = us"
  shows "let out = sync_annotations configured svc field ips cur managed
         in dns_updated out \<and> dns_annotations out k = svc_Annotations svc k"
proof -
  let ?ann = "svc_Annotations svc"
  have "\<forall>u \<in> set us. clean u"
    using clean_preserved assms(7) by metis
  then have ne: "comma us \<noteq> []"
    using comma_Nil_iff assms(6) by blast
  have v: "ann_value ?ann k = comma us"
    by (simp add: ann_value_def assms(5))
  have skip: "(ann_value ?ann AnnotationSkipExternalDNSUpdate = AnnotationValueTrue) = False"
    using assms(3) by simp
  from assms(4) show ?thesis
  proof
    assume other: "k = otherLBAddressAnnotation field \<and> rk = AnnotationManagedIPs"
    then have "k \<in> {AnnotationCiliumIPs, AnnotationKubevipLBIPs}" "k \<noteq> AnnotationManagedIPs"
      by (auto simp: otherLBAddressAnnotation_def annotation_names)
    then have apart: "k \<notin> set (targetAnnotationKeys configured)" "k \<notin> set knownExternalDNSTargetAnnotationKeys"
      "k \<noteq> AnnotationManagedTargets" "k \<noteq> AnnotationManagedIPs"
      using assms(2) known_keys_apart [of k] by (auto simp: keys_apart_def list_all_iff annotation_names)
    have "otherLBAddressAnnotation field = k" "preserveUnownedIPs (comma us) (parseOwnershipRecord (?ann AnnotationManagedIPs)) managed = us"
      using other assms(7) by simp_all
    then have "\<exists>n. writeLBAddresses ?ann ?ann field a (parseOwnershipRecord (?ann AnnotationManagedIPs)) managed = (n, True) \<and>
        n k = Some (comma us)" for a
      using ne v by (simp add: writeLBAddresses_def put_or_delete_def Let_def)
    then obtain n where n: "writeLBAddresses ?ann ?ann field (comma (dedupePreservingOrder (preserveUnownedIPs (ann_value ?ann field)
          (parseOwnershipRecord (?ann AnnotationManagedIPs)) managed @ ips))) (parseOwnershipRecord (?ann AnnotationManagedIPs)) managed =
        (n, True)" "n k = Some (comma us)"
      by blast
    show ?thesis
      using apart(4) assms(5) n(2) by (simp add: sync_annotations_def Let_def n(1) dns_other [OF apart(1-3)])
  next
    assume rel: "k \<in> set (releasableTargetAnnotationKeys configured) \<and> rk = AnnotationManagedTargets"
    then have apart: "k \<notin> set (targetAnnotationKeys configured)" "k \<noteq> AnnotationManagedTargets"
      using known_keys_apart [of AnnotationManagedTargets] by (auto simp: releasableTargetAnnotationKeys_def)
    have here: "fst (release_deconfigured ?ann (parseOwnershipRecord (?ann AnnotationManagedTargets)) managed
          (releasableTargetAnnotationKeys configured) (n, False)) k = Some (comma us)"
      "snd (release_deconfigured ?ann (parseOwnershipRecord (?ann AnnotationManagedTargets)) managed
          (releasableTargetAnnotationKeys configured) (n, False))" for n
      using release_deconfigured_here [of k _ ?ann] rel v ne assms(5,7) by (simp_all add: Let_def)
    have "dns_updated (syncExternalDNSTarget configured svc ?ann n cur managed False) \<and>
        dns_annotations (syncExternalDNSTarget configured svc ?ann n cur managed False) k = Some (comma us)" for n
      using here [of n] apart by (auto simp: syncExternalDNSTarget_def Let_def fold_put split: prod.splits)
    then show ?thesis
      unfolding sync_annotations_def Let_def skip using assms(5) by (simp split: prod.splits)
  qed
qed

theorem foreign_entries_force_rewrites_witness:
  "let svc = sample_svc [AnnotationKubevipLBIPs \<mapsto> ''example.com''] [];
       out = sync_annotations [] svc AnnotationCiliumIPs [''example.org''] ''example.org'' []
   in dns_updated out \<and> dns_annotations out AnnotationKubevipLBIPs = Some ''example.com''"
proof -
  let ?svc = "sample_svc [AnnotationKubevipLBIPs \<mapsto> ''example.com''] []"
  have "annotation_entries ''example.com'' = [''example.com'']"
    by (simp add: annotation_entries_def)
  then have p: "preserveUnownedIPs (comma [''example.com'']) (parseOwnershipRecord (svc_Annotations ?svc AnnotationManagedIPs)) [] =
      [''example.com'']"
    by (simp add: comma_def sample_svc_def preserveUnownedIPs_def extractUnmanagedIPs_def annotation_names split: sum.split)
  have "lb_field AnnotationCiliumIPs" "svc_Annotations ?svc AnnotationKubevipLBIPs = Some (comma [''example.com''])"
    "ann_value (svc_Annotations ?svc) AnnotationSkipExternalDNSUpdate \<noteq> AnnotationValueTrue"
    "AnnotationKubevipLBIPs = otherLBAddressAnnotation AnnotationCiliumIPs"
    by (simp_all add: lb_field_def comma_def sample_svc_def ann_value_def AnnotationSkipExternalDNSUpdate_def
        AnnotationValueTrue_def AnnotationKubevipLBIPs_def otherLBAddressAnnotation_def)
  then show ?thesis
    using foreign_entries_force_rewrites [OF _ default_keys_apart _ _ _ _ p, where k = AnnotationKubevipLBIPs and
        field = AnnotationCiliumIPs and ips = "[''example.org'']" and cur = "''example.org''"]
    by (simp add: Let_def comma_def)
qed

subsection \<open>The nudge\<close>

lemma fingerprint_order: "mset ips = mset ips' \<Longrightarrow> fingerprintAddresses ips = fingerprintAddresses ips'"
  using sorted_list_of_multiset_mset [of ips] sorted_list_of_multiset_mset [of ips']
  by (simp add: fingerprintAddresses_def)

text \<open>
  The nudge is one write for each set of assigned addresses: it is never written before the
  current address is assigned (the handler waits a minute instead), and once its fingerprint is on the
  Service a later pass with the same addresses, in whatever order the status lists them, does not
  update the Service.
\<close>

theorem nudge_once_per_address_set:
  assumes "mset (svc_Ingress svc') = mset (svc_Ingress svc)"
    and "ann_value (svc_Annotations svc') AnnotationL2Nudge = fingerprintAddresses (assignedLoadBalancerIPs svc)"
  shows "nudgeL2Announcer (api\<lparr>UpdateService := u\<rparr>) svc' cur w = nudgeL2Announcer api svc' cur w \<and>
     (cur \<notin> set (svc_Ingress any) \<longrightarrow>
        (\<exists>d w'. d \<in> {0, minute} \<and> nudgeL2Announcer api any cur w = (Ok d, w') \<and>
                 nudgeL2Announcer (api\<lparr>UpdateService := u\<rparr>) any cur w = (Ok d, w')))"
proof
  have "assignedLoadBalancerIPs svc' = assignedLoadBalancerIPs svc"
    using arg_cong [OF assms(1), of "\<lambda>m. sorted_list_of_multiset (filter_mset (\<lambda>ip. ip \<noteq> []) m)"]
    by (simp add: assignedLoadBalancerIPs_def flip: mset_filter sorted_list_of_multiset_mset)
  then have fp: "ann_value (svc_Annotations svc') AnnotationL2Nudge = fingerprintAddresses (assignedLoadBalancerIPs svc')"
    using assms(2) by simp
  show "nudgeL2Announcer (api\<lparr>UpdateService := u\<rparr>) svc' cur w = nudgeL2Announcer api svc' cur w"
    by (simp add: nudgeL2Announcer_def fp Let_def split: prod.split)
  show "cur \<notin> set (svc_Ingress any) \<longrightarrow>
        (\<exists>d w'. d \<in> {0, minute} \<and> nudgeL2Announcer api any cur w = (Ok d, w') \<and>
                 nudgeL2Announcer (api\<lparr>UpdateService := u\<rparr>) any cur w = (Ok d, w'))"
    by (auto simp: nudgeL2Announcer_def assignedLoadBalancerIPs_def done_now_def Let_def split: prod.split option.split)
qed

theorem nudge_once_per_address_set_witness:
  "let svc = sample_svc Map.empty [''2001:db8::1'', ''192.0.2.1''];
       svc' = sample_svc [AnnotationL2Nudge \<mapsto> fingerprintAddresses (assignedLoadBalancerIPs svc)] [''192.0.2.1'', ''2001:db8::1''];
       api = \<lparr>GetService = (\<lambda>w k. Err NotFoundError), GetPrefix = (\<lambda>w n. Err NotFoundError),
              UpdateService = (\<lambda>w svc. (None, Suc w)), EmitEvent = (\<lambda>w svc e. w), NowText = (\<lambda>w. []), L2Needed = None\<rparr>
   in nudgeL2Announcer api svc' ''2001:db8::1'' (0 :: nat) =
      nudgeL2Announcer (api\<lparr>UpdateService := \<lambda>w svc. (Some NotFoundError, w)\<rparr>) svc' ''2001:db8::1'' 0"
proof -
  let ?svc = "sample_svc Map.empty [''2001:db8::1'', ''192.0.2.1'']"
  let ?svc' = "sample_svc [AnnotationL2Nudge \<mapsto> fingerprintAddresses (assignedLoadBalancerIPs ?svc)] [''192.0.2.1'', ''2001:db8::1'']"
  have "mset (svc_Ingress ?svc') = mset (svc_Ingress ?svc)"
    "ann_value (svc_Annotations ?svc') AnnotationL2Nudge = fingerprintAddresses (assignedLoadBalancerIPs ?svc)"
    by (simp_all add: sample_svc_def ann_value_def)
  from nudge_once_per_address_set [OF this] show ?thesis
    unfolding Let_def by metis
qed

subsection \<open>What a reconcile may touch\<close>

text \<open>
  A store the API calls act on: a read returns what is stored under the request's key, an update
  that succeeds replaces the object of that key and one that fails changes nothing, and neither the
  events nor the decider of the nudge change a Service.
\<close>

definition svc_key :: "Service \<Rightarrow> string \<times> string" where
  "svc_key svc = (svc_Namespace svc, svc_Name svc)"

definition service_laws :: "'w service_api \<Rightarrow> ('w \<Rightarrow> string \<times> string \<Rightarrow> Service option) \<Rightarrow> bool" where
  "service_laws api store \<longleftrightarrow>
     (\<forall>w key svc. GetService api w key = Ok svc \<longrightarrow> store w key = Some svc \<and> svc_key svc = key) \<and>
     (\<forall>w svc w'. UpdateService api w svc = (None, w') \<longrightarrow> store w' = (store w)(svc_key svc \<mapsto> svc)) \<and>
     (\<forall>w svc e w'. UpdateService api w svc = (Some e, w') \<longrightarrow> store w' = store w) \<and>
     (\<forall>w svc e. store (EmitEvent api w svc e) = store w) \<and>
     (\<forall>f w. L2Needed api = Some f \<longrightarrow> store (snd (f w)) = store w)"

definition operator_keys :: "string list \<Rightarrow> string set" where
  "operator_keys configured =
     {AnnotationCiliumIPs, AnnotationKubevipLBIPs, AnnotationManagedIPs, AnnotationManagedTargets, AnnotationLastSync,
      AnnotationL2Nudge} \<union> set knownExternalDNSTargetAnnotationKeys \<union> set (targetAnnotationKeys configured)"

text \<open>A Service differs from another at most in the operator's annotations.\<close>

definition same_user_part :: "string list \<Rightarrow> Service \<Rightarrow> Service \<Rightarrow> bool" where
  "same_user_part configured svc svc' \<longleftrightarrow>
     (\<exists>ann. svc' = svc\<lparr>svc_Annotations := ann\<rparr> \<and> (\<forall>k. k \<notin> operator_keys configured \<longrightarrow> ann k = svc_Annotations svc k))"

lemma same_user_part_refl [simp]: "same_user_part configured svc svc"
  by (auto simp: same_user_part_def intro: exI [of _ "svc_Annotations svc"])

lemma same_user_part_trans: "same_user_part c a b \<Longrightarrow> same_user_part c b d \<Longrightarrow> same_user_part c a d"
  by (auto simp: same_user_part_def)

lemma same_user_part_key: "same_user_part c a b \<Longrightarrow> svc_key b = svc_key a"
  by (auto simp: same_user_part_def svc_key_def)

lemma sync_same_user_part:
  assumes "lb_field field"
  shows "same_user_part configured svc
     (svc\<lparr>svc_Annotations := (dns_annotations (sync_annotations configured svc field ips cur managed))(AnnotationLastSync \<mapsto> t)\<rparr>)"
proof -
  let ?new = "dns_annotations (sync_annotations configured svc field ips cur managed)"
  have "?new k = svc_Annotations svc k" if "k \<notin> operator_keys configured" for k
  proof -
    obtain n where "?new = dns_annotations (syncExternalDNSTarget configured svc (svc_Annotations svc) n cur managed
          (ann_value (svc_Annotations svc) AnnotationSkipExternalDNSUpdate = AnnotationValueTrue))"
      "\<forall>k. k \<notin> {AnnotationCiliumIPs, AnnotationKubevipLBIPs, AnnotationManagedIPs} \<longrightarrow> n k = svc_Annotations svc k"
      using sync_dns [OF assms, where configured = configured and svc = svc and ips = ips and cur = cur and managed = managed] by blast
    then show ?thesis
      using that by (simp add: operator_keys_def dns_other)
  qed
  then show ?thesis
    by (auto simp: same_user_part_def operator_keys_def intro!: exI [of _ "?new(AnnotationLastSync \<mapsto> t)"])
qed

lemma release_same_user_part:
  "same_user_part configured svc (svc\<lparr>svc_Annotations := fst (released_annotations (svc_Annotations svc))\<rparr>)"
proof -
  let ?ann = "svc_Annotations svc"
  have "fst (released_annotations ?ann) k = ?ann k" if "k \<notin> operator_keys configured" for k
    using that
    by (auto simp: operator_keys_def released_annotations_def knownExternalDNSTargetAnnotationKeys_def release_field_def
        put_or_delete_def Let_def split: option.split)
  then show ?thesis
    by (auto simp: same_user_part_def intro!: exI [of _ "fst (released_annotations ?ann)"])
qed

lemma nudge_same_user_part: "same_user_part configured svc (svc\<lparr>svc_Annotations := (svc_Annotations svc)(AnnotationL2Nudge \<mapsto> fp)\<rparr>)"
  by (auto simp: same_user_part_def operator_keys_def intro!: exI [of _ "(svc_Annotations svc)(AnnotationL2Nudge \<mapsto> fp)"])

text \<open>A store that differs from another at most in the operator's part of the Service under a key.\<close>

definition only_operator_part :: "string list \<Rightarrow> string \<times> string \<Rightarrow> (string \<times> string \<Rightarrow> Service option) \<Rightarrow>
    (string \<times> string \<Rightarrow> Service option) \<Rightarrow> bool" where
  "only_operator_part configured key m m' \<longleftrightarrow>
     m' = m \<or> (\<exists>svc svc'. m key = Some svc \<and> m' = m(key \<mapsto> svc') \<and> same_user_part configured svc svc')"

lemma only_operator_part_refl [simp]: "only_operator_part c key m m"
  by (simp add: only_operator_part_def)

lemma only_operator_part_trans:
  "only_operator_part c key m m' \<Longrightarrow> only_operator_part c key m' m'' \<Longrightarrow> only_operator_part c key m m''"
  unfolding only_operator_part_def by (fastforce intro: same_user_part_trans)

lemma update_only_operator_part:
  assumes "service_laws api store" "store w (svc_key svc) = Some svc" "same_user_part c svc svc'"
  shows "only_operator_part c (svc_key svc) (store w) (store (snd (UpdateService api w svc'))) \<and>
     (fst (UpdateService api w svc') = None \<longrightarrow> store (snd (UpdateService api w svc')) (svc_key svc) = Some svc')"
proof (cases "UpdateService api w svc'")
  case (Pair e w')
  show ?thesis
  proof (cases e)
    case None
    then have "store w' = (store w)(svc_key svc \<mapsto> svc')"
      using assms(1) Pair same_user_part_key [OF assms(3)] unfolding service_laws_def by metis
    then show ?thesis
      using assms(2,3) Pair by (auto simp: only_operator_part_def)
  next
    case (Some x)
    then have "store w' = store w"
      using assms(1) Pair unfolding service_laws_def by metis
    then show ?thesis
      using Some Pair by simp
  qed
qed

lemma nudge_only_operator_part:
  assumes "service_laws api store" "store w (svc_key svc) = Some svc"
  shows "only_operator_part c (svc_key svc) (store w) (store (snd (nudgeL2Announcer api svc cur w)))"
proof -
  define nw where "nw = (if ann_value (svc_Annotations svc) AnnotationForceL2Nudge \<noteq> AnnotationValueTrue
      then (case L2Needed api of None \<Rightarrow> (True, w) | Some f \<Rightarrow> f w) else (True, w))"
  have same: "store (snd nw) = store w"
    using assms(1) by (auto simp: nw_def service_laws_def split: option.split)
  let ?fp = "fingerprintAddresses (assignedLoadBalancerIPs svc)"
  let ?u = "UpdateService api (snd nw) (svc\<lparr>svc_Annotations := (svc_Annotations svc)(AnnotationL2Nudge \<mapsto> ?fp)\<rparr>)"
  have upd: "only_operator_part c (svc_key svc) (store w) (store (snd ?u))"
    using update_only_operator_part [OF assms(1) _ nudge_same_user_part, of "snd nw" svc c ?fp] assms(2) same by simp
  have "snd (nudgeL2Announcer api svc cur w) \<in> {w, snd nw, snd ?u}"
    unfolding nudgeL2Announcer_def Let_def nw_def [symmetric] done_now_def by (auto split: prod.split option.split)
  then show ?thesis
    using same upd by auto
qed

lemma release_only_operator_part:
  assumes "service_laws api store" "store w (svc_key svc) = Some svc"
  shows "only_operator_part c (svc_key svc) (store w) (store (snd (releaseService api svc reason w)))"
proof -
  let ?svc' = "svc\<lparr>svc_Annotations := fst (released_annotations (svc_Annotations svc))\<rparr>"
  have "only_operator_part c (svc_key svc) (store w) (store (snd (UpdateService api w ?svc')))"
    using update_only_operator_part [OF assms release_same_user_part] by blast
  moreover have "store (EmitEvent api w' s e) = store w'" for w' s e
    using assms(1) by (simp add: service_laws_def)
  ultimately show ?thesis
    by (auto simp: releaseService_def done_now_def Let_def split: prod.split option.split)
qed

lemma sync_only_operator_part:
  assumes "service_laws api store" "store w (svc_key svc) = Some svc"
  shows "only_operator_part c (svc_key svc) (store w) (store (snd (syncService api c dp svc w)))"
proof -
  have emit: "store (EmitEvent api w' s e) = store w'" for w' s e
    using assms(1) by (simp add: service_laws_def)
  have step: "only_operator_part c (svc_key svc) (store w) (store (snd (UpdateService api w svc'))) \<and>
      (fst (UpdateService api w svc') = None \<longrightarrow>
        only_operator_part c (svc_key svc) (store w) (store (snd (nudgeL2Announcer api svc' cur (snd (UpdateService api w svc'))))))"
    if "same_user_part c svc svc'" for svc' cur
    using update_only_operator_part [OF assms that] nudge_only_operator_part [OF assms(1), of "snd (UpdateService api w svc')" svc' c cur]
      same_user_part_key [OF that] only_operator_part_trans by metis
  have field: "lb_field field" if "lbAddressAnnotationFor ann = Ok (p, field)" for ann p field
    using that by (auto simp: lbAddressAnnotationFor_def lb_field_def Let_def split: if_splits)
  have quiet: ?thesis if "store (snd (syncService api c dp svc w)) = store w"
    using that by simp
  show ?thesis
  proof (cases "\<exists>allIPs cur wait p field. addressesForService dp svc = Ok (allIPs, cur, wait) \<and> \<not> wait > 0 \<and> allIPs \<noteq> [] \<and>
      cur \<noteq> [] \<and> lbAddressAnnotationFor (svc_Annotations svc) = Ok (p, field)")
    case False
    show ?thesis
      by (rule quiet, cases "addressesForService dp svc"; cases "lbAddressAnnotationFor (svc_Annotations svc)")
        (use False in \<open>auto simp: syncService_def emit\<close>)
  next
    case True
    then obtain allIPs cur wait p field where 2: "addressesForService dp svc = Ok (allIPs, cur, wait)" "\<not> wait > 0"
      "allIPs \<noteq> []" "cur \<noteq> []" "lbAddressAnnotationFor (svc_Annotations svc) = Ok (p, field)"
      by blast
    define out where "out = sync_annotations c svc field allIPs cur (collectManagedPrefixes dp)"
    let ?svc' = "svc\<lparr>svc_Annotations := (dns_annotations out)(AnnotationLastSync \<mapsto> NowText api w)\<rparr>"
    let ?u = "UpdateService api w ?svc'"
    have same: "same_user_part c svc ?svc'"
      unfolding out_def by (rule sync_same_user_part [OF field [OF 2(5)]])
    have "snd (syncService api c dp svc w) \<in> {w, snd ?u, snd (nudgeL2Announcer api svc cur w)} \<or>
        fst ?u = None \<and> snd (syncService api c dp svc w) = snd (nudgeL2Announcer api ?svc' cur (snd ?u))"
      using 2 by (auto simp: syncService_def Let_def simp flip: out_def split: sum.split prod.split option.split)
    then show ?thesis
      using step [OF same] nudge_only_operator_part [OF assms, of c] by auto
  qed
qed

text \<open>
  A reconcile touches only what is the operator's: whatever the Service, the DynamicPrefix and
  the answers of the API server are, no other Service changes, and of the Service it was called for
  nothing changes but annotations the operator writes (the requested addresses, the target, the
  records, the last-sync mark and the nudge).
\<close>

theorem service_reconcile_frame:
  assumes "service_laws api store" and "service_Reconcile api configured req w = (res, w')"
  shows "(\<forall>key. key \<noteq> req \<longrightarrow> store w' key = store w key) \<and>
     (\<forall>svc'. store w' req = Some svc' \<longrightarrow> (\<exists>svc. store w req = Some svc \<and> same_user_part configured svc svc'))"
proof -
  have "only_operator_part configured req (store w) (store (snd (service_Reconcile api configured req w)))"
  proof (cases "GetService api w req")
    case (Inr svc)
    then have stored: "store w (svc_key svc) = Some svc" "svc_key svc = req"
      using assms(1) unfolding service_laws_def by metis+
    note parts = release_only_operator_part [OF assms(1) stored(1), where c = configured, unfolded stored(2)]
      sync_only_operator_part [OF assms(1) stored(1), where c = configured, unfolded stored(2)]
    show ?thesis
      using parts Inr by (auto simp: service_Reconcile_def done_now_def Let_def split: option.split sum.split api_error.split)
  qed (auto simp: service_Reconcile_def done_now_def split: api_error.split)
  then show ?thesis
    unfolding assms(2) only_operator_part_def by auto
qed

text \<open>A store without a DynamicPrefix: every managed Service is released.\<close>

definition svc_store_api :: "(string \<times> string \<Rightarrow> Service option) service_api" where
  "svc_store_api =
     \<lparr>GetService = (\<lambda>w key. case w key of Some svc \<Rightarrow> if svc_key svc = key then Ok svc else Err NotFoundError | None \<Rightarrow> Err NotFoundError),
      GetPrefix = (\<lambda>w n. Err NotFoundError),
      UpdateService = (\<lambda>w svc. (None, w(svc_key svc \<mapsto> svc))),
      EmitEvent = (\<lambda>w svc e. w), NowText = (\<lambda>w. []), L2Needed = None\<rparr>"

lemma svc_store_laws: "service_laws svc_store_api (\<lambda>w. w)"
  by (auto simp: service_laws_def svc_store_api_def split: option.splits if_splits)

theorem service_reconcile_frame_witness:
  "\<exists>svc' res w'. service_Reconcile svc_store_api [] (''default'', ''web'')
       [(''default'', ''web'') \<mapsto> sample_svc [AnnotationManagedTargets \<mapsto> [], ''team'' \<mapsto> ''a''] []] = (res, w') \<and>
     w' (''default'', ''web'') = Some svc' \<and> svc_Annotations svc' AnnotationManagedTargets = None \<and>
     svc_Annotations svc' ''team'' = Some ''a''"
proof -
  let ?svc = "sample_svc [AnnotationManagedTargets \<mapsto> [], ''team'' \<mapsto> ''a''] []"
  let ?w = "[(''default'', ''web'') \<mapsto> ?svc]"
  obtain res w' where run: "service_Reconcile svc_store_api [] (''default'', ''web'') ?w = (res, w')"
    by fastforce
  have w': "w' (''default'', ''web'') = Some (?svc\<lparr>svc_Annotations := fst (released_annotations (svc_Annotations ?svc))\<rparr>)"
    and gone: "fst (released_annotations (svc_Annotations ?svc)) AnnotationManagedTargets = None"
    using run
    by (auto simp: service_Reconcile_def svc_store_api_def svc_key_def sample_svc_def hasOwnershipRecord_def ownership_keys_def
        releaseService_def released_annotations_def release_field_def put_or_delete_def done_now_def Let_def
        AnnotationName_def annotation_names)
  have "''team'' \<notin> operator_keys []"
    by (simp add: operator_keys_def knownExternalDNSTargetAnnotationKeys_def targetAnnotationKeys_def
        DefaultExternalDNSTargetAnnotationKeys_def annotation_names)
  then show ?thesis
    using service_reconcile_frame [OF svc_store_laws run] w' gone run
    by (auto simp: same_user_part_def sample_svc_def)
qed

end
