(* ===== verification/L2_Nudge.thy ===== *)
theory L2_Nudge
  imports Service_Sync "HOL-Library.Sublist"
begin

text \<open>
  Whether the running Cilium still needs the L2 announcer nudge
  (\<^verbatim>\<open>internal/controller/ciliuml2nudge.go\<close>): a verdict read from the agent's DaemonSet and reused for
  five minutes.  Standing down is right only when it is certain, so the theorems say exactly what the
  detector must have seen, and how long ago, before it stops nudging.  Semantic versions are a library
  of their own and enter as a parameter.
\<close>

subsection \<open>Data\<close>

record DaemonSet =
  ds_Namespace :: string
  ds_Name :: string
  ds_Containers :: "(string \<times> string) list"
  ds_Desired :: int
  ds_Updated :: int
  ds_Unavailable :: int

text \<open>\<^verbatim>\<open>StrictNewVersion\<close>, \<^verbatim>\<open>Compare\<close> and the threshold of the semantic version library.\<close>

record 'v semver_api =
  StrictNewVersion :: "string \<Rightarrow> string + 'v"
  semver_Compare :: "'v \<Rightarrow> 'v \<Rightarrow> int"
  ciliumL2AnnouncerFixedVersion :: 'v

datatype image_error = NotTagged | NotCilium string | EmptyTag | NotAVersion string string

datatype rollout = RolloutDone | NotReported | InProgress int int | Unavailable int

datatype 'v l2_reason =
    NoDetector
  | CouldNotList string
  | NoAgent
  | AmbiguousAgent "string list"
  | NoContainer string string
  | NoVersion string image_error
  | Predates 'v
  | RolloutPending 'v rollout
  | Includes 'v

definition ciliumAgentContainer :: string where "ciliumAgentContainer = ''cilium-agent''"
definition ciliumAgentNamespace :: string where "ciliumAgentNamespace = ''kube-system''"
definition ciliumRepositoryMarker :: string where "ciliumRepositoryMarker = ''cilium''"

subsection \<open>The image's version\<close>

definition last_index :: "char \<Rightarrow> string \<Rightarrow> int" where
  "last_index c s = (if c \<in> set s then int (length s) - 1 - int (length (takeWhile (\<lambda>x. x \<noteq> c) (rev s))) else -1)"

text \<open>
  \<^verbatim>\<open>strings.ToLower\<close> as far as ASCII results go: the letters, and the two other characters whose lower
  case is an ASCII letter (the dotted capital I and the Kelvin sign, in UTF-8).
\<close>

fun ToLower :: "string \<Rightarrow> string" where
  "ToLower [] = []"
| "ToLower (c # s) =
     (if 65 \<le> (of_char c :: nat) \<and> (of_char c :: nat) \<le> 90 then char_of (of_char c + 32 :: nat) # ToLower s
      else if (of_char c :: nat) = 0xC4 \<and> s \<noteq> [] \<and> (of_char (hd s) :: nat) = 0xB0 then CHR ''i'' # ToLower (tl s)
      else if (of_char c :: nat) = 0xE2 \<and> length s \<ge> 2 \<and> (of_char (hd s) :: nat) = 0x84 \<and> (of_char (s ! 1) :: nat) = 0xAA
        then CHR ''k'' # ToLower (drop 2 s)
      else c # ToLower s)"

definition parseCiliumImageVersion :: "'v semver_api \<Rightarrow> string \<Rightarrow> image_error + 'v" where
  "parseCiliumImageVersion sv img =
     (let ref = takeWhile (\<lambda>c. c \<noteq> CHR ''@'') img; colon = last_index (CHR '':'') ref in
      if colon < 0 then Err NotTagged
      else if last_index (CHR ''/'') ref > colon then Err NotTagged
      else
        let repository = take (nat colon) ref in
        if \<not> sublist ciliumRepositoryMarker (ToLower repository) then Err (NotCilium repository)
        else
          let rest = drop (nat colon + 1) ref;
              tag = (if rest \<noteq> [] \<and> hd rest = CHR ''v'' then tl rest else rest)
          in if tag = [] then Err EmptyTag
             else (case StrictNewVersion sv tag of Inl e \<Rightarrow> Err (NotAVersion tag e) | Inr v \<Rightarrow> Ok v))"

definition ciliumAgentImage :: "DaemonSet \<Rightarrow> string" where
  "ciliumAgentImage ds = (case find (\<lambda>(n, i). n = ciliumAgentContainer) (ds_Containers ds) of None \<Rightarrow> [] | Some (n, i) \<Rightarrow> i)"

definition ciliumRolloutIncomplete :: "DaemonSet \<Rightarrow> rollout" where
  "ciliumRolloutIncomplete ds =
     (if ds_Desired ds = 0 then NotReported
      else if ds_Updated ds \<noteq> ds_Desired ds then InProgress (ds_Updated ds) (ds_Desired ds)
      else if ds_Unavailable ds > 0 then Unavailable (ds_Unavailable ds)
      else RolloutDone)"

definition ciliumAgentDaemonSet :: "DaemonSet list \<Rightarrow> 'v l2_reason + DaemonSet" where
  "ciliumAgentDaemonSet items =
     (if items = [] then Err NoAgent
      else if length items = 1 then Ok (hd items)
      else
        let candidates = List.filter (\<lambda>ds. ds_Namespace ds = ciliumAgentNamespace) items in
        if length candidates = 1 then Ok (hd candidates)
        else Err (AmbiguousAgent (sort (map (\<lambda>ds. ds_Namespace ds @ ''/'' @ ds_Name ds) items))))"

subsection \<open>The verdict and its cache\<close>

text \<open>The answer of the API server to the list request is an argument.\<close>

definition detect :: "'v semver_api \<Rightarrow> string + DaemonSet list \<Rightarrow> bool \<times> 'v l2_reason" where
  "detect sv answer =
     (case answer of
        Inl e \<Rightarrow> (True, CouldNotList e)
      | Inr items \<Rightarrow>
     (case ciliumAgentDaemonSet items of
        Inl r \<Rightarrow> (True, r)
      | Inr agent \<Rightarrow>
          let img = ciliumAgentImage agent in
          if img = [] then (True, NoContainer (ds_Namespace agent) (ds_Name agent))
          else
            (case parseCiliumImageVersion sv img of
               Inl e \<Rightarrow> (True, NoVersion img e)
             | Inr version \<Rightarrow>
                 if semver_Compare sv version (ciliumL2AnnouncerFixedVersion sv) < 0 then (True, Predates version)
                 else let r = ciliumRolloutIncomplete agent in
                   if r \<noteq> RolloutDone then (True, RolloutPending version r)
                   else (False, Includes version))))"

record 'v l2NudgeDetector =
  det_ttl :: duration
  det_checkedAt :: instant
  det_valid :: bool
  det_needed :: bool
  det_reason :: "'v l2_reason"
  det_logged :: "'v l2_reason option"

definition newL2NudgeDetector :: "'v l2NudgeDetector" where
  "newL2NudgeDetector =
     \<lparr>det_ttl = 5 * minute, det_checkedAt = 0, det_valid = False, det_needed = False, det_reason = NoDetector, det_logged = None\<rparr>"

text \<open>One call at a time and with the answer the API server would give then; a nil detector always nudges.\<close>

definition Needed ::
  "'v semver_api \<Rightarrow> instant \<Rightarrow> string + DaemonSet list \<Rightarrow> 'v l2NudgeDetector option \<Rightarrow>
   (bool \<times> 'v l2_reason) \<times> 'v l2NudgeDetector option" where
  "Needed sv now answer d0 =
     (case d0 of
        None \<Rightarrow> ((True, NoDetector), None)
      | Some d \<Rightarrow>
          if det_valid d \<and> now - det_checkedAt d < det_ttl d then ((det_needed d, det_reason d), Some d)
          else
            let (needed, reason) = detect sv answer in
            ((needed, reason),
             Some (d\<lparr>det_needed := needed, det_reason := reason, det_checkedAt := now, det_valid := True,
                     det_logged := Some reason\<rparr>)))"

subsection \<open>Certainty\<close>

text \<open>What the cluster must look like before the nudge may stop.\<close>

definition certainly_fixed :: "'v semver_api \<Rightarrow> string + DaemonSet list \<Rightarrow> bool" where
  "certainly_fixed sv answer \<longleftrightarrow>
     (\<exists>items agent version. answer = Ok items \<and> agent \<in> set items \<and>
        (items = [agent] \<or> List.filter (\<lambda>ds. ds_Namespace ds = ciliumAgentNamespace) items = [agent]) \<and>
        parseCiliumImageVersion sv (ciliumAgentImage agent) = Ok version \<and>
        semver_Compare sv version (ciliumL2AnnouncerFixedVersion sv) \<ge> 0 \<and>
        ds_Desired agent \<noteq> 0 \<and> ds_Updated agent = ds_Desired agent \<and> ds_Unavailable agent \<le> 0)"

lemma agent_iff:
  "ciliumAgentDaemonSet items = (Ok agent :: 'v l2_reason + DaemonSet) \<longleftrightarrow>
     agent \<in> set items \<and> (items = [agent] \<or> List.filter (\<lambda>ds. ds_Namespace ds = ciliumAgentNamespace) items = [agent])"
proof -
  let ?c = "List.filter (\<lambda>ds. ds_Namespace ds = ciliumAgentNamespace) items"
  have one: "length xs = 1 \<and> hd xs = agent \<longleftrightarrow> xs = [agent]" for xs :: "DaemonSet list"
    by (cases xs) auto
  have "ciliumAgentDaemonSet items = (Ok agent :: 'v l2_reason + DaemonSet) \<longleftrightarrow> items = [agent] \<or> length items \<noteq> 1 \<and> ?c = [agent]"
    using one [of items] one [of ?c] by (auto simp: ciliumAgentDaemonSet_def Let_def)
  moreover have "agent \<in> set items" if "?c = [agent]"
    using that by (metis filter_is_subset list.set_intros(1) subsetD)
  moreover have "items = [agent]" if "?c = [agent]" "length items = 1"
    using that by (cases items) (auto split: if_splits)
  ultimately show ?thesis
    by auto
qed

lemma rollout_done_iff:
  "ciliumRolloutIncomplete ds = RolloutDone \<longleftrightarrow> ds_Desired ds \<noteq> 0 \<and> ds_Updated ds = ds_Desired ds \<and> ds_Unavailable ds \<le> 0"
  by (auto simp: ciliumRolloutIncomplete_def)

lemma unnamed_image: "parseCiliumImageVersion sv [] = Err NotTagged"
  by (simp add: parseCiliumImageVersion_def last_index_def)

lemma detect_iff: "\<not> fst (detect sv answer) \<longleftrightarrow> certainly_fixed sv answer"
proof (cases answer)
  case (Inr items)
  have "\<not> fst (detect sv answer) \<longleftrightarrow>
      (\<exists>agent version. ciliumAgentDaemonSet items = (Ok agent :: 'a l2_reason + DaemonSet) \<and>
        parseCiliumImageVersion sv (ciliumAgentImage agent) = Ok version \<and>
        semver_Compare sv version (ciliumL2AnnouncerFixedVersion sv) \<ge> 0 \<and> ciliumRolloutIncomplete agent = RolloutDone)"
    using Inr unnamed_image [of sv]
    by (cases "ciliumAgentDaemonSet items :: 'a l2_reason + DaemonSet") (auto simp: detect_def Let_def split: sum.split)
  also have "\<dots> \<longleftrightarrow> certainly_fixed sv answer"
    unfolding certainly_fixed_def rollout_done_iff agent_iff Inr by blast
  finally show ?thesis .
qed (simp add: detect_def certainly_fixed_def)

subsection \<open>The cache keeps certainty recent\<close>

text \<open>Any sequence of calls, at times that do not go back, with the answers they would have had.\<close>

type_synonym l2_look = "instant \<times> (string + DaemonSet list)"

inductive l2_calls :: "'v semver_api \<Rightarrow> l2_look list \<Rightarrow> 'v l2NudgeDetector \<Rightarrow> bool" for sv :: "'v semver_api" where
  l2_start: "l2_calls sv [] newL2NudgeDetector"
| l2_call: "l2_calls sv cs d \<Longrightarrow> (\<forall>(t, a) \<in> set cs. t \<le> now) \<Longrightarrow>
     Needed sv now answer (Some d) = (verdict, Some d') \<Longrightarrow> l2_calls sv ((now, answer) # cs) d'"

text \<open>What a call remembers: the time and the answer of the last look at the cluster.\<close>

definition looked :: "'v semver_api \<Rightarrow> l2_look list \<Rightarrow> 'v l2NudgeDetector \<Rightarrow> bool" where
  "looked sv cs d \<longleftrightarrow>
     det_ttl d = 5 * minute \<and>
     (det_valid d \<longrightarrow> (\<exists>answer. (det_checkedAt d, answer) \<in> set cs \<and>
        det_needed d = fst (detect sv answer)))"

lemma l2_calls_looked: "l2_calls sv cs d \<Longrightarrow> looked sv cs d"
proof (induction rule: l2_calls.induct)
  case l2_start
  then show ?case
    by (simp add: looked_def newL2NudgeDetector_def)
next
  case (l2_call cs d now answer verdict d')
  show ?case
  proof (cases "det_valid d \<and> now - det_checkedAt d < det_ttl d")
    case True
    then have "d' = d"
      using l2_call by (simp add: Needed_def)
    then show ?thesis
      using l2_call.IH unfolding looked_def by (meson list.set_intros(2))
  next
    case False
    obtain n q where nr: "detect sv answer = (n, q)"
      by fastforce
    then have "d' = d\<lparr>det_needed := n, det_reason := q, det_checkedAt := now, det_valid := True, det_logged := Some q\<rparr>"
      using l2_call False by (simp add: Needed_def)
    then show ?thesis
      using l2_call.IH nr by (auto simp: looked_def)
  qed
qed

text \<open>
  C24: The nudge stops only on certainty that is recent: however the calls fall and whatever the API
  server answered, a verdict not to nudge means that at a call less than five minutes earlier the
  answer showed one unambiguous agent DaemonSet whose agent image is a Cilium image tagged with a
  complete version at or above the fix, with every scheduled pod updated and available; and a call
  that looks at such a cluster does stop the nudge.
\<close>

theorem nudge_stops_only_on_recent_certainty:
  assumes "l2_calls sv cs d" and "\<forall>(t, a) \<in> set cs. t \<le> now"
  shows "let ((needed, reason), d') = Needed sv now answer (Some d) in
     (\<not> needed \<longrightarrow> (\<exists>t a. (t, a) \<in> set ((now, answer) # cs) \<and> now - t < 5 * minute \<and> certainly_fixed sv a)) \<and>
     (certainly_fixed sv answer \<and> (\<forall>(t, a) \<in> set cs. now - t \<ge> 5 * minute) \<longrightarrow> \<not> needed)"
proof -
  obtain needed reason d' where r: "Needed sv now answer (Some d) = ((needed, reason), d')"
    by (metis prod.exhaust)
  note l = l2_calls_looked [OF assms(1), unfolded looked_def]
  show ?thesis
  proof (cases "det_valid d \<and> now - det_checkedAt d < det_ttl d")
    case True
    then obtain a where a: "(det_checkedAt d, a) \<in> set cs" "det_needed d = fst (detect sv a)"
      using l by blast
    moreover have "needed = det_needed d"
      using r True by (simp add: Needed_def)
    moreover have "now - det_checkedAt d < 5 * minute"
      using True l by simp
    moreover have "(\<forall>(t, a) \<in> set cs. now - t \<ge> 5 * minute) \<longrightarrow> now - det_checkedAt d \<ge> 5 * minute"
      using a(1) by blast
    ultimately show ?thesis
      unfolding r Let_def prod.case using detect_iff [of sv a] by (metis list.set_intros(2) not_le)
  next
    case False
    then have "needed = fst (detect sv answer)"
      using r by (auto simp: Needed_def split: prod.splits)
    then show ?thesis
      unfolding r Let_def prod.case using detect_iff [of sv answer]
      by (auto simp: minute_def second_def intro!: exI [of _ now])
  qed
qed

text \<open>A library that knows two versions, and an agent that runs the newer one everywhere.\<close>

definition toy_semver :: "nat semver_api" where
  "toy_semver = \<lparr>StrictNewVersion = (\<lambda>s. if s = ''1.20.1'' then Ok 1 else if s = ''1.20.0'' then Ok 0 else Err s),
     semver_Compare = (\<lambda>a b. int a - int b), ciliumL2AnnouncerFixedVersion = 1\<rparr>"

definition fixed_agent :: DaemonSet where
  "fixed_agent = \<lparr>ds_Namespace = ''kube-system'', ds_Name = ''cilium'',
     ds_Containers = [(''cilium-agent'', ''quay.io/cilium/cilium:v1.20.1@sha256:0'')], ds_Desired = 3, ds_Updated = 3, ds_Unavailable = 0\<rparr>"

theorem nudge_stops_only_on_recent_certainty_witness:
  "\<not> fst (fst (Needed toy_semver 0 (Ok [fixed_agent]) (Some newL2NudgeDetector))) \<and>
   fst (fst (Needed toy_semver 0 (Ok [fixed_agent\<lparr>ds_Updated := 2\<rparr>]) (Some newL2NudgeDetector)))"
proof -
  have "parseCiliumImageVersion toy_semver ''quay.io/cilium/cilium:v1.20.1@sha256:0'' = Ok 1"
    by code_simp
  then have fixed: "certainly_fixed toy_semver (Ok [fixed_agent])"
    by (simp add: certainly_fixed_def fixed_agent_def ciliumAgentImage_def ciliumAgentContainer_def toy_semver_def)
  have not_fixed: "\<not> certainly_fixed toy_semver (Ok [fixed_agent\<lparr>ds_Updated := 2\<rparr>])"
    by (auto simp: certainly_fixed_def fixed_agent_def)
  show ?thesis
    using nudge_stops_only_on_recent_certainty [OF l2_start, of 0 toy_semver "Ok [fixed_agent]"]
      nudge_stops_only_on_recent_certainty [OF l2_start, of 0 toy_semver "Ok [fixed_agent\<lparr>ds_Updated := 2\<rparr>]"] fixed not_fixed
    by (auto simp: split: prod.splits)
qed

end
