(* ===== verification/Kubevip.thy ===== *)
theory Kubevip
  imports Pool_Config "HOL-Library.AList"
begin

text \<open>
  The kube-vip backend (\<^verbatim>\<open>internal/controller/kubevip_backend.go\<close>): the pools of the kube-vip cloud
  provider are comma-separated values in one ConfigMap, shared with the user key by key and entry by
  entry.  The ConfigMap is an unstructured object; its data is read and written as a string map.
\<close>

subsection \<open>Keys and entries\<close>

definition AnnotationKubevipKey :: string where "AnnotationKubevipKey = ''dynamic-prefix.io/kubevip-key''"

definition label_char :: "char \<Rightarrow> bool" where
  "label_char c \<longleftrightarrow> CHR ''a'' \<le> c \<and> c \<le> CHR ''z'' \<or> CHR ''0'' \<le> c \<and> c \<le> CHR ''9''"

text \<open>The pattern \<^verbatim>\<open>[a-z0-9]([-a-z0-9]*[a-z0-9])?\<close>, and the two prefixes.\<close>

definition label :: "string \<Rightarrow> bool" where
  "label s \<longleftrightarrow> s \<noteq> [] \<and> label_char (hd s) \<and> label_char (last s) \<and> list_all (\<lambda>c. c = CHR ''-'' \<or> label_char c) s"

definition HasPrefix :: "string \<Rightarrow> string \<Rightarrow> bool" where
  "HasPrefix s p \<longleftrightarrow> take (length p) s = p"

definition kubevipKeyPattern :: "string \<Rightarrow> bool" where
  "kubevipKeyPattern s \<longleftrightarrow> HasPrefix s ''cidr-'' \<and> label (drop 5 s) \<or> HasPrefix s ''range-'' \<and> label (drop 6 s)"

datatype kubevip_error =
    NoKubevipKey
  | NotAPoolKey string
  | RangeFromCIDR string prefix_error
  | RangeFromCIDREnd string big_error
  | CIDRFromRange string string calico_error
  | RangeNotCIDRAligned string string
  | DataReadFailed string
  | DataSetFailed string
  | ConfigMapUpdateFailed string

definition kubevipKeyFor :: "'o unstructured_api \<Rightarrow> 'o \<Rightarrow> kubevip_error + string" where
  "kubevipKeyFor api pool =
     (let key = TrimSpace (case GetAnnotations api pool AnnotationKubevipKey of None \<Rightarrow> [] | Some k \<Rightarrow> k) in
      if key = [] then Err NoKubevipKey
      else if \<not> kubevipKeyPattern key then Err (NotAPoolKey key)
      else Ok key)"

definition kubevipEntryFor :: "bool \<Rightarrow> poolConfiguration \<Rightarrow> kubevip_error + string" where
  "kubevipEntryFor wantRange config =
     (if wantRange then
        if cfg_useAddressRange config \<and> cfg_start config \<noteq> [] \<and> cfg_end config \<noteq> [] then
          Ok (cfg_start config @ ''-'' @ cfg_end config)
        else if cfg_cidr config = [] then Ok []
        else
          (case netip_ParsePrefix (cfg_cidr config) of
             Inl e \<Rightarrow> Err (RangeFromCIDR (cfg_cidr config) e)
           | Inr parsed \<Rightarrow>
               (case lastAddrOfPrefix parsed of
                  Inl e \<Rightarrow> Err (RangeFromCIDREnd (cfg_cidr config) e)
                | Inr lst \<Rightarrow> Ok (AddrString (pfx_ip (Masked parsed)) @ ''-'' @ AddrString lst)))
      else if cfg_useAddressRange config then
        (case exactCIDRForAddressRange (cfg_start config) (cfg_end config) of
           Inl e \<Rightarrow> Err (CIDRFromRange (cfg_start config) (cfg_end config) e)
         | Inr (cidr, exact) \<Rightarrow>
             if \<not> exact then Err (RangeNotCIDRAligned (cfg_start config) (cfg_end config)) else Ok cidr)
      else Ok (cfg_cidr config))"

definition kubevipEntriesFor :: "string \<Rightarrow> poolConfiguration list \<Rightarrow> kubevip_error + string list" where
  "kubevipEntriesFor key configs =
     (case traverse (kubevipEntryFor (HasPrefix key ''range-'')) configs of
        Inl e \<Rightarrow> Err e
      | Inr entries \<Rightarrow> Ok (List.filter (\<lambda>e. e \<noteq> []) entries))"

definition splitKubevipEntries :: "string \<Rightarrow> string list" where
  "splitKubevipEntries v =
     (if TrimSpace v = [] then []
      else List.filter (\<lambda>e. e \<noteq> []) (map TrimSpace (split (CHR '','') v)))"

definition stripOwnedEntries :: "string \<Rightarrow> ownershipRecord \<Rightarrow> string \<times> bool" where
  "stripOwnedEntries v r =
     (let entries = splitKubevipEntries v;
          remaining = List.filter (\<lambda>e. \<not> owns r (canonicalAddressEntry e)) entries
      in (join (CHR '','') remaining, list_ex (\<lambda>e. owns r (canonicalAddressEntry e)) entries))"

definition setOrDeleteKubevipKey :: "(string \<times> string) list \<Rightarrow> string \<Rightarrow> string \<Rightarrow> (string \<times> string) list" where
  "setOrDeleteKubevipKey data key v = (if v = [] then AList.delete key data else AList.update key v data)"

definition canonicalEntries :: "string list \<Rightarrow> string list" where
  "canonicalEntries entries = map canonicalAddressEntry entries"

subsection \<open>Updating and releasing the ConfigMap\<close>

record 'o data_api =
  NestedStringMap :: "'o \<Rightarrow> string + (string \<times> string) list"
  SetNestedStringMap :: "'o \<Rightarrow> (string \<times> string) list \<Rightarrow> string + 'o"

definition data_value :: "(string \<times> string) list \<Rightarrow> string \<Rightarrow> string" where
  "data_value data key = (case map_of data key of None \<Rightarrow> [] | Some v \<Rightarrow> v)"

text \<open>The loop over the keys: the recorded entries leave every pool key it is told to sweep.\<close>

definition strip_key ::
  "ownershipRecord \<Rightarrow> (string \<Rightarrow> bool) \<Rightarrow> string \<Rightarrow> (string \<times> string) list \<times> bool \<Rightarrow> (string \<times> string) list \<times> bool" where
  "strip_key r sweep other st =
     (let (data, changed) = st in
      if \<not> sweep other then (data, changed)
      else
        let (kept, dropped) = stripOwnedEntries (data_value data other) r in
        if dropped then (setOrDeleteKubevipKey data other kept, True) else (data, changed))"

definition strip_keys ::
  "ownershipRecord \<Rightarrow> (string \<Rightarrow> bool) \<Rightarrow> (string \<times> string) list \<Rightarrow> (string \<times> string) list \<times> bool" where
  "strip_keys r sweep data = fold (strip_key r sweep) (map fst data) (data, False)"

definition kubevip_owned :: "ownershipRecord \<Rightarrow> ipprefix list \<Rightarrow> string \<Rightarrow> bool" where
  "kubevip_owned r managed entry =
     (if \<not> rec_present r then isManagedAddressEntry entry managed else owns r (canonicalAddressEntry entry))"

text \<open>The data to write: other pool keys swept, the annotated one set, and whether that changes anything.\<close>

definition kubevip_data ::
  "ownershipRecord \<Rightarrow> string \<Rightarrow> string \<Rightarrow> (string \<times> string) list \<Rightarrow> (string \<times> string) list \<times> bool" where
  "kubevip_data r key v data =
     (let (data1, changed) = strip_keys r (\<lambda>other. other \<noteq> key \<and> kubevipKeyPattern other) data in
      if data_value data1 key \<noteq> v then (setOrDeleteKubevipKey data1 key v, True) else (data1, changed))"

definition kubevip_update ::
  "'o unstructured_api \<Rightarrow> 'o data_api \<Rightarrow> string \<Rightarrow> 'o \<Rightarrow> poolConfiguration list \<Rightarrow> ipprefix list \<Rightarrow>
     bool \<times> kubevip_error option \<times> 'o" where
  "kubevip_update api dapi now pool configs managedPrefixes =
     (case kubevipKeyFor api pool of
        Inl e \<Rightarrow> (False, Some e, pool)
      | Inr key \<Rightarrow>
     (case kubevipEntriesFor key configs of
        Inl e \<Rightarrow> (False, Some e, pool)
      | Inr desired \<Rightarrow>
     (case NestedStringMap dapi pool of
        Inl e \<Rightarrow> (False, Some (DataReadFailed e), pool)
      | Inr data \<Rightarrow>
          let r = parseOwnershipRecord (recordFor api pool AnnotationManagedKubevipEntries);
              preserved = List.filter (\<lambda>e. \<not> kubevip_owned r managedPrefixes e) (splitKubevipEntries (data_value data key));
              pinned = map canonicalAddressEntry preserved;
              managed = excludePinned (dedupePreservingOrder desired) pinned;
              (data2, changed) = kubevip_data r key (join (CHR '','') (preserved @ managed)) data;
              recordValue = formatOwnershipRecord (canonicalEntries managed)
          in if \<not> changed \<and> recordFor api pool AnnotationManagedKubevipEntries = Some recordValue then (False, None, pool)
             else
               (case SetNestedStringMap dapi pool data2 of
                  Inl e \<Rightarrow> (False, Some (DataSetFailed e), pool)
                | Inr pool1 \<Rightarrow>
                    let pool2 = setPoolAnnotation api pool1 AnnotationManagedKubevipEntries recordValue;
                        pool3 = setLastSyncAnnotation api now pool2
                    in (True, map_option ConfigMapUpdateFailed (UpdateObject api pool3), pool3)))))"

definition kubevip_release ::
  "'o unstructured_api \<Rightarrow> 'o data_api \<Rightarrow> 'o \<Rightarrow> bool \<times> kubevip_error option \<times> 'o" where
  "kubevip_release api dapi pool =
     (case recordFor api pool AnnotationManagedKubevipEntries of
        None \<Rightarrow> (False, None, pool)
      | Some recordValue \<Rightarrow>
          let r = parseOwnershipRecord (Some recordValue) in
          (case NestedStringMap dapi pool of
             Inl e \<Rightarrow> (False, Some (DataReadFailed e), pool)
           | Inr data \<Rightarrow>
               (case SetNestedStringMap dapi pool (fst (strip_keys r kubevipKeyPattern data)) of
                  Inl e \<Rightarrow> (False, Some (DataSetFailed e), pool)
                | Inr pool1 \<Rightarrow>
                    (True, None, SetAnnotations api pool1
                       ((GetAnnotations api pool1)(AnnotationManagedKubevipEntries := None))))))"

subsection \<open>The sweep over the keys\<close>

text \<open>What the sweep leaves of one value.\<close>

definition swept :: "ownershipRecord \<Rightarrow> string option \<Rightarrow> string option" where
  "swept r v =
     (case v of
        None \<Rightarrow> None
      | Some x \<Rightarrow>
          let (kept, dropped) = stripOwnedEntries x r in
          if \<not> dropped then Some x else if kept = [] then None else Some kept)"

lemma map_of_setOrDelete: "map_of (setOrDeleteKubevipKey data key v) = (map_of data)(key := if v = [] then None else Some v)"
  by (simp add: setOrDeleteKubevipKey_def AList.update_conv' AList.delete_conv')

lemma distinct_setOrDelete: "distinct (map fst data) \<Longrightarrow> distinct (map fst (setOrDeleteKubevipKey data key v))"
  by (simp add: setOrDeleteKubevipKey_def AList.distinct_update AList.distinct_delete)

lemma strip_none: "stripOwnedEntries [] r = ([], False)"
  by (simp add: stripOwnedEntries_def splitKubevipEntries_def)

lemma strip_key_value:
  "map_of (fst (strip_key r sweep other st)) =
     (map_of (fst st))(other := if sweep other then swept r (map_of (fst st) other) else map_of (fst st) other)"
  by (cases "map_of (fst st) other")
    (auto simp: strip_key_def data_value_def swept_def strip_none map_of_setOrDelete case_prod_beta Let_def fun_upd_idem)

lemma strip_key_distinct: "distinct (map fst (fst st)) \<Longrightarrow> distinct (map fst (fst (strip_key r sweep other st)))"
  by (simp add: strip_key_def case_prod_beta Let_def distinct_setOrDelete)

lemma strip_key_unchanged: "\<not> snd (strip_key r sweep other st) \<Longrightarrow> strip_key r sweep other st = st"
  by (auto simp: strip_key_def case_prod_beta Let_def split: if_splits)

lemma strip_keys_fold:
  "distinct ks \<Longrightarrow> map_of (fst (fold (strip_key r sweep) ks st)) k =
     (if k \<in> set ks \<and> sweep k then swept r (map_of (fst st) k) else map_of (fst st) k)"
  by (induction ks arbitrary: st) (auto simp: strip_key_value)

lemma strip_keys_value:
  assumes "distinct (map fst data)"
  shows "map_of (fst (strip_keys r sweep data)) k = (if sweep k then swept r (map_of data k) else map_of data k)"
proof -
  have "map_of data k = None" if "k \<notin> set (map fst data)"
    using that by (simp add: map_of_eq_None_iff)
  then show ?thesis
    unfolding strip_keys_def strip_keys_fold [OF assms] by (auto simp: swept_def)
qed

lemma strip_keys_distinct: "distinct (map fst data) \<Longrightarrow> distinct (map fst (fst (strip_keys r sweep data)))"
proof -
  have "distinct (map fst (fst st)) \<Longrightarrow> distinct (map fst (fst (fold (strip_key r sweep) ks st)))" for ks st
    by (induction ks arbitrary: st) (simp_all add: strip_key_distinct)
  then show "distinct (map fst data) \<Longrightarrow> distinct (map fst (fst (strip_keys r sweep data)))"
    by (simp add: strip_keys_def)
qed

lemma strip_keys_unchanged: "\<not> snd (strip_keys r sweep data) \<Longrightarrow> fst (strip_keys r sweep data) = data"
proof -
  have "\<not> snd (fold (strip_key r sweep) ks st) \<Longrightarrow> fold (strip_key r sweep) ks st = st" for ks st
    by (induction ks arbitrary: st) (simp, metis fold_simps(2) strip_key_unchanged)
  then show "\<not> snd (strip_keys r sweep data) \<Longrightarrow> fst (strip_keys r sweep data) = data"
    unfolding strip_keys_def by (metis fst_conv)
qed

subsection \<open>The text of entries\<close>

text \<open>The configurations hold printed addresses and prefixes.\<close>

definition printed :: "poolConfiguration \<Rightarrow> bool" where
  "printed c \<longleftrightarrow>
     (cfg_useAddressRange c \<longrightarrow>
        (\<exists>a b. cfg_start c = AddrString a \<and> cfg_end c = AddrString b \<and> a \<noteq> AddrZero \<and> b \<noteq> AddrZero \<and> Zone a = [] \<and> Zone b = [])) \<and>
     (cfg_cidr c \<noteq> [] \<longrightarrow> (\<exists>p. cfg_cidr c = PrefixString p \<and> wf_prefix p \<and> IsValid p))"

definition entry_ok :: "string \<Rightarrow> bool" where
  "entry_ok e \<longleftrightarrow> record_text e \<and> e \<noteq> [] \<and> canonicalEntry (canonicalAddressEntry e) = canonicalEntry e"

lemma dash_no_digit: "CHR ''-'' \<notin> digit_char ` {0..<16}"
proof
  assume "CHR ''-'' \<in> digit_char ` {0..<16}"
  then obtain d where "d < 16" "(of_char (digit_char d) :: nat) = of_char CHR ''-''"
    by fastforce
  then show False
    by (simp add: digit_char_code split: if_splits)
qed

lemma no_dash_in_addr: "a \<noteq> AddrZero \<Longrightarrow> Zone a = [] \<Longrightarrow> CHR ''-'' \<notin> set (AddrString a)"
  using set_AddrString [of a] dash_no_digit by auto

lemma no_dash_in_prefix: "wf_prefix p \<Longrightarrow> IsValid p \<Longrightarrow> CHR ''-'' \<notin> set (PrefixString p)"
  using set_PrefixString [of p] dash_no_digit by auto

lemma entry_ok_prefix: "wf_prefix p \<Longrightarrow> IsValid p \<Longrightarrow> entry_ok (PrefixString p)"
proof -
  assume p: "wf_prefix p" "IsValid p"
  have "PrefixString p \<noteq> []"
    by (simp add: PrefixString_def split: addr.split)
  moreover have "TrimSpace (PrefixString p) = PrefixString p" "Cut (CHR ''-'') (PrefixString p) = None"
    using p no_dash_in_prefix record_text_PrefixString [of p] by (simp_all add: record_text_def Cut_None_iff)
  ultimately show "entry_ok (PrefixString p)"
    using p by (simp add: entry_ok_def canonicalAddressEntry_def)
qed

lemma entry_ok_range:
  assumes "a \<noteq> AddrZero" "Zone a = []" "b \<noteq> AddrZero" "Zone b = []"
  shows "entry_ok (AddrString a @ ''-'' @ AddrString b)"
proof -
  have "record_text (AddrString a)" "record_text (AddrString b)"
    using assms by simp_all
  then have txt1: "record_text (AddrString a @ ''-'' @ AddrString b)"
    by (simp only: record_text_append record_text_literals)
  then have "TrimSpace (AddrString a @ ''-'' @ AddrString b) = AddrString a @ ''-'' @ AddrString b"
    "TrimSpace (AddrString a) = AddrString a" "TrimSpace (AddrString b) = AddrString b"
    using assms by (simp_all add: record_text_def)
  then have "canonicalAddressEntry (AddrString a @ ''-'' @ AddrString b) = AddrString a @ ''-'' @ AddrString b"
    using assms no_dash_in_addr by (simp add: canonicalAddressEntry_def)
  with txt1 show ?thesis
    by (simp add: entry_ok_def)
qed

lemma kubevipEntryFor_ok:
  assumes "printed c" and "kubevipEntryFor wantRange c = Ok e" and "e \<noteq> []"
  shows "entry_ok e"
proof -
  consider (range) "wantRange" "cfg_useAddressRange c" "e = cfg_start c @ ''-'' @ cfg_end c"
    | (cidr) parsed lst where "cfg_cidr c \<noteq> []" "netip_ParsePrefix (cfg_cidr c) = Ok parsed" "lastAddrOfPrefix parsed = Ok lst"
        "e = AddrString (pfx_ip (Masked parsed)) @ ''-'' @ AddrString lst"
    | (exact) "cfg_useAddressRange c" "exactCIDRForAddressRange (cfg_start c) (cfg_end c) = Ok (e, True)"
    | (plain) "e = cfg_cidr c"
    using assms(2,3) by (auto simp: kubevipEntryFor_def split: if_splits sum.splits)
  then show ?thesis
  proof cases
    case range
    then obtain a b where "cfg_start c = AddrString a" "cfg_end c = AddrString b" "a \<noteq> AddrZero" "b \<noteq> AddrZero" "Zone a = []" "Zone b = []"
      using assms(1) by (auto simp: printed_def)
    then show ?thesis
      unfolding range(3) by (simp only:) (rule entry_ok_range)
  next
    case cidr
    have "pfx_ip (Masked parsed) \<noteq> AddrZero" "Zone (pfx_ip (Masked parsed)) = []"
      using cidr(3) wf_Masked [of parsed] by (auto simp: wf_prefix_def lastAddrOfPrefix_def addrToBigInt_def Let_def)
    moreover have "lst \<noteq> AddrZero" "Zone lst = []"
      using cidr(3) by (auto simp: lastAddrOfPrefix_def bigIntToAddr_def Let_def Zone_def split: sum.splits prod.splits if_splits)
    ultimately show ?thesis
      unfolding cidr(4) by (intro entry_ok_range)
  next
    case exact
    then obtain a b where ab: "cfg_start c = AddrString a" "cfg_end c = AddrString b" "a \<noteq> AddrZero" "b \<noteq> AddrZero" "Zone a = []" "Zone b = []"
      using assms(1) by (auto simp: printed_def)
    have "e = PrefixString (RangeToCIDR a b)" "Is6 a" "Is4 a = Is4 b"
      using exact(2) ab by (auto simp: exactCIDRForAddressRange_def ParseAddr_AddrString Let_def split: if_splits sum.splits)
    moreover obtain v w where "a = Addr6 v []" "b = Addr6 w []"
      using ab calculation(2,3) by (cases a; cases b) (auto simp: Is6_def Is4_def Zone_def)
    ultimately show ?thesis
      using common_bits_words(1) [of v w] by (auto simp: RangeToCIDR_v6 Let_def intro!: entry_ok_prefix)
  next
    case plain
    then show ?thesis
      using assms(1,3) by (auto simp: printed_def intro: entry_ok_prefix)
  qed
qed

lemma kubevipEntriesFor_ok:
  assumes "\<forall>c \<in> set configs. printed c" and "kubevipEntriesFor key configs = Ok desired" and "e \<in> set desired"
  shows "entry_ok e"
proof -
  obtain entries where all2: "list_all2 (\<lambda>c e. kubevipEntryFor (HasPrefix key ''range-'') c = Ok e) configs entries"
    and e: "e \<in> set entries" "e \<noteq> []"
    using assms(2,3) by (auto simp: kubevipEntriesFor_def traverse_Ok_iff split: sum.splits)
  from all2 e(1) obtain c where "c \<in> set configs" "kubevipEntryFor (HasPrefix key ''range-'') c = Ok e"
    by (induction rule: list_all2_induct) auto
  then show ?thesis
    using assms(1) e(2) kubevipEntryFor_ok by blast
qed

lemma join_visible: "\<forall>e \<in> set es. record_text e \<Longrightarrow> visible (join (CHR '','') es)"
  using set_join [of "CHR '',''" es] by (fastforce simp: record_text_def visible_def)

lemma join_Nil_iff: "\<forall>e \<in> set es. e \<noteq> [] \<Longrightarrow> join c es = [] \<longleftrightarrow> es = []"
  by (induction c es rule: join.induct) auto

lemma split_joined:
  assumes "\<forall>e \<in> set es. record_text e \<and> e \<noteq> []"
  shows "splitKubevipEntries (join (CHR '','') es) = es"
proof (cases "es = []")
  case False
  have "TrimSpace (join (CHR '','') es) = join (CHR '','') es"
    using assms by (intro TrimSpace_visible join_visible) simp
  moreover have "join (CHR '','') es \<noteq> []"
    using assms False by (subst join_Nil_iff) auto
  moreover have "split (CHR '','') (join (CHR '','') es) = es"
    using assms False by (intro split_join) (auto simp: record_text_def)
  moreover have "map TrimSpace es = es" "List.filter (\<lambda>e. e \<noteq> []) es = es"
    using assms by (auto intro!: map_idI simp: record_text_def filter_id_conv)
  ultimately show ?thesis
    by (simp add: splitKubevipEntries_def)
qed (simp add: splitKubevipEntries_def)

lemma canonicalAddressEntry_nonempty: "record_text e \<Longrightarrow> e \<noteq> [] \<Longrightarrow> canonicalAddressEntry e \<noteq> []"
  by (auto simp: canonicalAddressEntry_def Let_def record_text_def split: option.split)

text \<open>An entry is owned exactly when its canonical form is that of a recorded one.\<close>

lemma owns_entry:
  assumes "\<forall>e \<in> set S. record_text e \<and> e \<noteq> []"
  shows "owns (parseOwnershipRecord (Some (formatOwnershipRecord (canonicalEntries S)))) (canonicalAddressEntry x) \<longleftrightarrow>
     canonicalEntry (canonicalAddressEntry x) \<in> (\<lambda>e. canonicalEntry (canonicalAddressEntry e)) ` set S"
proof -
  have "\<forall>k \<in> set (canonicalEntries S). recordable k"
    using assms canonicalAddressEntry_nonempty by (auto simp: canonicalEntries_def recordable_def record_text_canonicalAddressEntry)
  then show ?thesis
    by (simp add: owns_def parse_formatted canonicalEntries_def image_image)
qed

subsection \<open>What a pass leaves behind\<close>

text \<open>What is relied on: the string map set is the one read, and annotations are independent of it.\<close>

definition data_laws :: "'o unstructured_api \<Rightarrow> 'o data_api \<Rightarrow> bool" where
  "data_laws api dapi \<longleftrightarrow>
     (\<forall>obj data obj'. SetNestedStringMap dapi obj data = Ok obj' \<longrightarrow>
        (\<exists>data'. NestedStringMap dapi obj' = Ok data' \<and> map_of data' = map_of data) \<and>
        GetAnnotations api obj' = GetAnnotations api obj) \<and>
     (\<forall>obj m. NestedStringMap dapi (SetAnnotations api obj m) = NestedStringMap dapi obj) \<and>
     (\<forall>obj m. GetAnnotations api (SetAnnotations api obj m) = m) \<and>
     (\<forall>obj data. NestedStringMap dapi obj = Ok data \<longrightarrow> distinct (map fst data))"

lemma data_lawsD:
  assumes "data_laws api dapi"
  shows "SetNestedStringMap dapi obj data = Ok obj' \<Longrightarrow> \<exists>data'. NestedStringMap dapi obj' = Ok data' \<and> map_of data' = map_of data"
    and "SetNestedStringMap dapi obj data = Ok obj' \<Longrightarrow> GetAnnotations api obj' = GetAnnotations api obj"
    and "NestedStringMap dapi (SetAnnotations api obj m) = NestedStringMap dapi obj"
    and "GetAnnotations api (SetAnnotations api obj m) = m"
    and "NestedStringMap dapi obj = Ok data \<Longrightarrow> distinct (map fst data)"
  using assms unfolding data_laws_def by blast+

text \<open>The operator's entries beside those of the user.\<close>

definition kubevip_entries :: "string \<Rightarrow> string list \<Rightarrow> poolConfiguration list \<Rightarrow> string list" where
  "kubevip_entries key U configs =
     (case kubevipEntriesFor key configs of
        Inl _ \<Rightarrow> []
      | Inr desired \<Rightarrow> excludePinned (dedupePreservingOrder desired) (map canonicalAddressEntry U))"

definition kubevip_holds :: "'o unstructured_api \<Rightarrow> 'o data_api \<Rightarrow> 'o \<Rightarrow> string \<Rightarrow> string list \<Rightarrow> string list \<Rightarrow> bool" where
  "kubevip_holds api dapi pool key U S \<longleftrightarrow>
     kubevipKeyFor api pool = Ok key \<and>
     (\<exists>data. NestedStringMap dapi pool = Ok data \<and> data_value data key = join (CHR '','') (U @ S)) \<and>
     recordFor api pool AnnotationManagedKubevipEntries = Some (formatOwnershipRecord (canonicalEntries S)) \<and>
     (\<forall>e \<in> set (U @ S). record_text e \<and> e \<noteq> []) \<and>
     (\<forall>u \<in> set U. \<forall>e \<in> set S. canonicalEntry (canonicalAddressEntry u) \<noteq> canonicalEntry (canonicalAddressEntry e))"

definition other_data_kept :: "'o data_api \<Rightarrow> 'o \<Rightarrow> 'o \<Rightarrow> bool" where
  "other_data_kept dapi pool pool' \<longleftrightarrow>
     (\<forall>data data' k. NestedStringMap dapi pool = Ok data \<longrightarrow> NestedStringMap dapi pool' = Ok data' \<longrightarrow> \<not> kubevipKeyPattern k \<longrightarrow>
        map_of data' k = map_of data k)"

lemma dedupe_subset: "set (dedupePreservingOrder xs) \<subseteq> set xs"
proof -
  have "set (dedupe_from seen xs) \<subseteq> set xs" for seen
    by (induction xs arbitrary: seen) (auto simp: Let_def)
  then show ?thesis
    by (simp add: dedupePreservingOrder_def)
qed

lemma kubevip_entries_ok:
  assumes "\<forall>c \<in> set configs. printed c" and "\<forall>u \<in> set U. record_text u" and "e \<in> set (kubevip_entries key U configs)"
  shows "entry_ok e" and "u \<in> set U \<Longrightarrow> canonicalEntry (canonicalAddressEntry u) \<noteq> canonicalEntry (canonicalAddressEntry e)"
proof -
  obtain desired where d: "kubevipEntriesFor key configs = Ok desired"
    and e: "e \<in> set (excludePinned (dedupePreservingOrder desired) (map canonicalAddressEntry U))"
    using assms(3) by (cases "kubevipEntriesFor key configs") (auto simp: kubevip_entries_def)
  have "e \<in> set (dedupePreservingOrder desired)"
    using e by (auto simp: excludePinned_def Let_def split: if_splits)
  then show ok: "entry_ok e"
    using dedupe_subset kubevipEntriesFor_ok [OF assms(1) d] by blast
  show "canonicalEntry (canonicalAddressEntry u) \<noteq> canonicalEntry (canonicalAddressEntry e)" if "u \<in> set U"
  proof -
    have "TrimSpace e = e" "TrimSpace (canonicalAddressEntry u) = canonicalAddressEntry u"
      using ok assms(2) that record_text_canonicalAddressEntry [of u] by (auto simp: entry_ok_def record_text_def)
    moreover have "canonicalEntry (TrimSpace e) \<noteq> canonicalEntry (TrimSpace (canonicalAddressEntry u))"
      using e that by (auto simp: excludePinned_def Let_def split: if_splits)
    ultimately show ?thesis
      using ok by (auto simp: entry_ok_def)
  qed
qed

lemma split_entries_nonempty: "e \<in> set (splitKubevipEntries v) \<Longrightarrow> e \<noteq> []"
  by (auto simp: splitKubevipEntries_def split: if_splits)

lemma data_value_setOrDelete: "data_value (setOrDeleteKubevipKey data key v) key = v"
  by (simp add: data_value_def map_of_setOrDelete)

lemma kubevip_data_values:
  assumes "distinct (map fst data)" and "kubevipKeyPattern key"
  shows "data_value (fst (kubevip_data r key v data)) key = v"
    and "\<not> kubevipKeyPattern k \<Longrightarrow> map_of (fst (kubevip_data r key v data)) k = map_of data k"
    and "\<not> snd (kubevip_data r key v data) \<Longrightarrow> fst (kubevip_data r key v data) = data"
proof -
  let ?d = "strip_keys r (\<lambda>other. other \<noteq> key \<and> kubevipKeyPattern other) data"
  have eq: "kubevip_data r key v data =
      (if data_value (fst ?d) key \<noteq> v then (setOrDeleteKubevipKey (fst ?d) key v, True) else ?d)"
    by (simp add: kubevip_data_def case_prod_beta Let_def)
  show "data_value (fst (kubevip_data r key v data)) key = v"
    by (simp add: eq data_value_setOrDelete)
  show "map_of (fst (kubevip_data r key v data)) k = map_of data k" if "\<not> kubevipKeyPattern k"
    using that assms strip_keys_value [OF assms(1)] by (auto simp: eq map_of_setOrDelete)
  show "fst (kubevip_data r key v data) = data" if "\<not> snd (kubevip_data r key v data)"
    using that by (simp add: eq strip_keys_unchanged split: if_splits)
qed

lemma kubevip_pass:
  assumes laws: "data_laws api dapi" and configs: "\<forall>c \<in> set configs. printed c"
    and key: "kubevipKeyFor api pool = Ok key" and read: "NestedStringMap dapi pool = Ok data"
    and U: "U = List.filter (\<lambda>e. \<not> kubevip_owned (parseOwnershipRecord (recordFor api pool AnnotationManagedKubevipEntries)) managed e)
        (splitKubevipEntries (data_value data key))"
    and plain: "\<forall>u \<in> set U. record_text u"
    and upd: "kubevip_update api dapi now pool configs managed = (changed, None, pool')"
  shows "kubevip_holds api dapi pool' key U (kubevip_entries key U configs) \<and> other_data_kept dapi pool pool'"
proof -
  note law = data_lawsD [OF laws]
  define r where r: "r = parseOwnershipRecord (recordFor api pool AnnotationManagedKubevipEntries)"
  let ?S = "kubevip_entries key U configs" and ?v = "join (CHR '','') (U @ kubevip_entries key U configs)"
  let ?D = "kubevip_data r key ?v data"
  let ?rec = "formatOwnershipRecord (canonicalEntries ?S)"
  let ?done = "\<lambda>o1. setLastSyncAnnotation api now (setPoolAnnotation api o1 AnnotationManagedKubevipEntries ?rec)"
  have pat: "kubevipKeyPattern key"
    using key by (auto simp: kubevipKeyFor_def Let_def split: if_splits)
  note vals = kubevip_data_values [OF law(5) [OF read] pat, where r = r and v = ?v]
  obtain desired where d: "kubevipEntriesFor key configs = Ok desired"
    using upd by (cases "kubevipEntriesFor key configs") (auto simp: kubevip_update_def key)
  have S: "excludePinned (dedupePreservingOrder desired) (map canonicalAddressEntry U) = ?S"
    by (simp add: kubevip_entries_def d)
  have step: "(if \<not> snd ?D \<and> recordFor api pool AnnotationManagedKubevipEntries = Some ?rec then (False, None, pool)
      else case SetNestedStringMap dapi pool (fst ?D) of
        Inl e \<Rightarrow> (False, Some (DataSetFailed e), pool)
      | Inr o1 \<Rightarrow> (True, map_option ConfigMapUpdateFailed (UpdateObject api (?done o1)), ?done o1)) = (changed, None, pool')"
    unfolding upd [symmetric]
    by (cases "SetNestedStringMap dapi pool (fst ?D)")
      (simp_all add: kubevip_update_def key d read Let_def U [symmetric, folded r] S case_prod_beta flip: r)
  have keys: "kubevipKeyFor api o2 = Ok key" if "GetAnnotations api o2 AnnotationKubevipKey = GetAnnotations api pool AnnotationKubevipKey" for o2
    using key that by (simp add: kubevipKeyFor_def)
  obtain data' where res: "kubevipKeyFor api pool' = Ok key" "NestedStringMap dapi pool' = Ok data'" "map_of data' = map_of (fst ?D)"
    "recordFor api pool' AnnotationManagedKubevipEntries = Some ?rec"
  proof (cases "\<not> snd ?D \<and> recordFor api pool AnnotationManagedKubevipEntries = Some ?rec")
    case True
    then have "pool' = pool"
      using step by simp
    then show ?thesis
      using True that [of data] key read vals(3) by simp
  next
    case False
    then have "(case SetNestedStringMap dapi pool (fst ?D) of
        Inl e \<Rightarrow> (False, Some (DataSetFailed e), pool)
      | Inr o1 \<Rightarrow> (True, map_option ConfigMapUpdateFailed (UpdateObject api (?done o1)), ?done o1)) = (changed, None, pool')"
      using step by argo
    then obtain o1 where o1: "SetNestedStringMap dapi pool (fst ?D) = Ok o1" "pool' = ?done o1"
      by (auto split: sum.splits)
    then obtain data' where "NestedStringMap dapi o1 = Ok data'" "map_of data' = map_of (fst ?D)"
      using law(1) by blast
    moreover have "kubevipKeyFor api pool' = Ok key"
      using law(2) [OF o1(1)] by (intro keys) (simp add: o1(2) setLastSyncAnnotation_def setPoolAnnotation_def law(4)
          AnnotationKubevipKey_def AnnotationLastSync_def AnnotationManagedKubevipEntries_def)
    ultimately show ?thesis
      using that [of data'] o1(2) by (simp add: setLastSyncAnnotation_def setPoolAnnotation_def law(3,4) recordFor_def
          AnnotationLastSync_def AnnotationManagedKubevipEntries_def)
  qed
  moreover have "data_value data' key = ?v"
    using vals(1) res(3) by (simp add: data_value_def)
  moreover have "[] \<notin> set U"
    using split_entries_nonempty unfolding U by auto
  then have "record_text e \<and> e \<noteq> []" if "e \<in> set (U @ ?S)" for e
    using that plain kubevip_entries_ok(1) [OF configs plain] by (auto simp: entry_ok_def)
  moreover have "other_data_kept dapi pool pool'"
    using vals(2) res(2,3) read by (auto simp: other_data_kept_def)
  ultimately show ?thesis
    unfolding kubevip_holds_def using kubevip_entries_ok(2) [OF configs plain] by blast
qed

text \<open>Filtering by the record splits the value where the last pass joined it.\<close>

lemma kubevip_keep:
  assumes "kubevip_holds api dapi pool key U S" and "NestedStringMap dapi pool = Ok data"
  shows "splitKubevipEntries (data_value data key) = U @ S"
    and "List.filter (\<lambda>e. \<not> kubevip_owned (parseOwnershipRecord (recordFor api pool AnnotationManagedKubevipEntries)) managed e)
      (U @ S) = U"
    and "List.filter (\<lambda>e. \<not> owns (parseOwnershipRecord (Some (formatOwnershipRecord (canonicalEntries S)))) (canonicalAddressEntry e))
      (U @ S) = U"
proof -
  have v: "data_value data key = join (CHR '','') (U @ S)"
    and rec: "recordFor api pool AnnotationManagedKubevipEntries = Some (formatOwnershipRecord (canonicalEntries S))"
    and texts: "\<forall>e \<in> set (U @ S). record_text e \<and> e \<noteq> []"
    and disj: "\<forall>u \<in> set U. \<forall>e \<in> set S. canonicalEntry (canonicalAddressEntry u) \<noteq> canonicalEntry (canonicalAddressEntry e)"
    using assms by (auto simp: kubevip_holds_def)
  show "splitKubevipEntries (data_value data key) = U @ S"
    unfolding v by (rule split_joined [OF texts])
  let ?r = "parseOwnershipRecord (Some (formatOwnershipRecord (canonicalEntries S)))"
  have owns: "owns ?r (canonicalAddressEntry x) \<longleftrightarrow>
      canonicalEntry (canonicalAddressEntry x) \<in> (\<lambda>e. canonicalEntry (canonicalAddressEntry e)) ` set S" for x
    using texts by (intro owns_entry) simp
  have "List.filter (\<lambda>e. \<not> owns ?r (canonicalAddressEntry e)) U = U"
    unfolding owns using disj by (auto simp: filter_id_conv)
  moreover have "List.filter (\<lambda>e. \<not> owns ?r (canonicalAddressEntry e)) S = []"
    unfolding owns by (auto simp: filter_empty_conv)
  ultimately show kept: "List.filter (\<lambda>e. \<not> owns ?r (canonicalAddressEntry e)) (U @ S) = U"
    by simp
  then show "List.filter (\<lambda>e. \<not> kubevip_owned (parseOwnershipRecord (recordFor api pool AnnotationManagedKubevipEntries)) managed e)
      (U @ S) = U"
    unfolding rec by (simp add: kubevip_owned_def)
qed

lemma kubevip_again:
  assumes "data_laws api dapi" and "\<forall>c \<in> set configs. printed c" and "kubevip_holds api dapi pool key U S"
    and "kubevip_update api dapi now pool configs managed = (changed, None, pool')"
  shows "kubevip_holds api dapi pool' key U (kubevip_entries key U configs) \<and> other_data_kept dapi pool pool'"
proof -
  obtain data where data: "NestedStringMap dapi pool = Ok data"
    using assms(3) by (auto simp: kubevip_holds_def)
  show ?thesis
    using assms(3) kubevip_keep [OF assms(3) data]
    by (intro kubevip_pass [OF assms(1,2) _ data _ _ assms(4)]) (auto simp: kubevip_holds_def)
qed

text \<open>A pass that fails leaves the ConfigMap for the next one as it was.\<close>

definition kubevip_step ::
  "'o unstructured_api \<Rightarrow> 'o data_api \<Rightarrow> string \<times> poolConfiguration list \<times> ipprefix list \<Rightarrow>
     'o \<times> poolConfiguration list \<Rightarrow> 'o \<times> poolConfiguration list" where
  "kubevip_step api dapi p st =
     (let (now, configs, managed) = p; (pool, last) = st in
      case kubevip_update api dapi now pool configs managed of
        (changed, None, pool') \<Rightarrow> (pool', configs)
      | (changed, Some e, pool') \<Rightarrow> (pool, last))"

lemma other_data_kept_trans:
  assumes "other_data_kept dapi a b" and "other_data_kept dapi b c" and "\<exists>data. NestedStringMap dapi b = Ok data"
  shows "other_data_kept dapi a c"
  using assms unfolding other_data_kept_def by metis

lemma kubevip_steps:
  assumes "data_laws api dapi" and "\<forall>p \<in> set passes. \<forall>c \<in> set (fst (snd p)). printed c"
    and "kubevip_holds api dapi pool key U (kubevip_entries key U configs)"
    and "fold (kubevip_step api dapi) passes (pool, configs) = (pool', cs)"
  shows "kubevip_holds api dapi pool' key U (kubevip_entries key U cs) \<and> other_data_kept dapi pool pool'"
  using assms(2-)
proof (induction passes arbitrary: pool configs)
  case Nil
  then show ?case
    by (auto simp: other_data_kept_def)
next
  case (Cons p passes)
  obtain now configs' managed where p: "p = (now, configs', managed)"
    by (cases p)
  obtain changed err pool1 where u: "kubevip_update api dapi now pool configs' managed = (changed, err, pool1)"
    by (cases "kubevip_update api dapi now pool configs' managed")
  have st: "kubevip_step api dapi p (pool, configs) = (case err of None \<Rightarrow> (pool1, configs') | Some _ \<Rightarrow> (pool, configs))"
    by (cases err) (simp_all add: kubevip_step_def p u)
  show ?case
  proof (cases err)
    case None
    have pr: "\<forall>c \<in> set configs'. printed c"
      using Cons.prems(1) p by simp
    have held: "kubevip_holds api dapi pool1 key U (kubevip_entries key U configs')" "other_data_kept dapi pool pool1"
      using kubevip_again [OF assms(1) pr Cons.prems(2) u [unfolded None]] by simp_all
    have "fold (kubevip_step api dapi) passes (pool1, configs') = (pool', cs)"
      using Cons.prems(3) None by (simp add: st)
    then have "kubevip_holds api dapi pool' key U (kubevip_entries key U cs)" "other_data_kept dapi pool1 pool'"
      using Cons.IH [OF _ held(1)] Cons.prems(1) by simp_all
    moreover have "\<exists>data. NestedStringMap dapi pool1 = Ok data"
      using held(1) by (auto simp: kubevip_holds_def)
    ultimately show ?thesis
      using other_data_kept_trans [OF held(2)] by blast
  next
    case (Some e)
    then show ?thesis
      using Cons.IH [OF _ Cons.prems(2)] Cons.prems(1,3) by (simp add: st)
  qed
qed

lemma swept_entries:
  assumes "List.filter (\<lambda>e. \<not> owns r (canonicalAddressEntry e)) (splitKubevipEntries v) = U"
    and "\<forall>u \<in> set U. record_text u \<and> u \<noteq> []"
  shows "splitKubevipEntries (case swept r (Some v) of None \<Rightarrow> [] | Some x \<Rightarrow> x) = U"
proof (cases "list_ex (\<lambda>e. owns r (canonicalAddressEntry e)) (splitKubevipEntries v)")
  case True
  then have "swept r (Some v) = (if join (CHR '','') U = [] then None else Some (join (CHR '','') U))"
    by (simp add: swept_def stripOwnedEntries_def assms(1))
  then have "(case swept r (Some v) of None \<Rightarrow> [] | Some x \<Rightarrow> x) = join (CHR '','') U"
    by simp
  then show ?thesis
    using split_joined [OF assms(2)] by simp
next
  case False
  then have "List.filter (\<lambda>e. \<not> owns r (canonicalAddressEntry e)) (splitKubevipEntries v) = splitKubevipEntries v"
    by (auto simp: filter_id_conv list_ex_iff)
  moreover have "swept r (Some v) = Some v"
    using False by (simp add: swept_def stripOwnedEntries_def)
  ultimately show ?thesis
    using assms(1) by simp
qed

text \<open>
  C18: The kube-vip ConfigMap follows the prefixes and nothing else.  After a first pass that went through
  and any later ones, for other prefixes and any of them failing, the annotated key holds the user's
  entries in order followed by the operator's of the last pass alone, the record names exactly the
  latter, and data under keys that are no pools is untouched; releasing it leaves the user's entries.
\<close>

theorem kubevip_rotation:
  assumes "data_laws api dapi" and "\<forall>p \<in> set ((now, configs, managed) # passes). \<forall>c \<in> set (fst (snd p)). printed c"
    and "kubevipKeyFor api pool = Ok key" and "NestedStringMap dapi pool = Ok data"
    and "U = List.filter (\<lambda>e. \<not> kubevip_owned (parseOwnershipRecord (recordFor api pool AnnotationManagedKubevipEntries)) managed e)
        (splitKubevipEntries (data_value data key))"
    and "\<forall>u \<in> set U. record_text u"
    and "kubevip_update api dapi now pool configs managed = (changed, None, pool1)"
    and "fold (kubevip_step api dapi) passes (pool1, configs) = (pool', cs)"
    and "kubevip_release api dapi pool' = (released, None, pool2)"
  shows "\<exists>data' data2. NestedStringMap dapi pool' = Ok data' \<and> NestedStringMap dapi pool2 = Ok data2 \<and>
     data_value data' key = join (CHR '','') (U @ kubevip_entries key U cs) \<and>
     recordFor api pool' AnnotationManagedKubevipEntries = Some (formatOwnershipRecord (canonicalEntries (kubevip_entries key U cs))) \<and>
     splitKubevipEntries (data_value data2 key) = U \<and>
     (\<forall>k. \<not> kubevipKeyPattern k \<longrightarrow> map_of data' k = map_of data k \<and> map_of data2 k = map_of data k)"
proof -
  note law = data_lawsD [OF assms(1)]
  have pr: "\<forall>c \<in> set configs. printed c" "\<forall>p \<in> set passes. \<forall>c \<in> set (fst (snd p)). printed c"
    using assms(2) by simp_all
  have one: "kubevip_holds api dapi pool1 key U (kubevip_entries key U configs)" "other_data_kept dapi pool pool1"
    using kubevip_pass [OF assms(1) pr(1) assms(3-7)] by simp_all
  note all = kubevip_steps [OF assms(1) pr(2) one(1) assms(8)]
  let ?S = "kubevip_entries key U cs" and ?r = "parseOwnershipRecord (Some (formatOwnershipRecord (canonicalEntries (kubevip_entries key U cs))))"
  obtain data' where data': "NestedStringMap dapi pool' = Ok data'" "data_value data' key = join (CHR '','') (U @ ?S)"
    and rec: "recordFor api pool' AnnotationManagedKubevipEntries = Some (formatOwnershipRecord (canonicalEntries ?S))"
    and key: "kubevipKeyFor api pool' = Ok key"
    using all unfolding kubevip_holds_def by blast
  have "\<exists>data. NestedStringMap dapi pool1 = Ok data"
    using one(1) unfolding kubevip_holds_def by blast
  then have kept: "other_data_kept dapi pool pool'"
    by (rule other_data_kept_trans [OF one(2) conjunct2 [OF all]])
  have pat: "kubevipKeyPattern key"
    using key by (auto simp: kubevipKeyFor_def Let_def split: if_splits)
  obtain pool3 where set: "SetNestedStringMap dapi pool' (fst (strip_keys ?r kubevipKeyPattern data')) = Ok pool3"
    and pool2: "pool2 = SetAnnotations api pool3 ((GetAnnotations api pool3)(AnnotationManagedKubevipEntries := None))"
    using assms(9) by (auto simp: kubevip_release_def rec data'(1) Let_def split: sum.splits)
  obtain data2 where data2: "NestedStringMap dapi pool2 = Ok data2" "map_of data2 = map_of (fst (strip_keys ?r kubevipKeyPattern data'))"
    using law(1) [OF set] law(3) by (auto simp: pool2)
  have two: "map_of data2 k = (if kubevipKeyPattern k then swept ?r (map_of data' k) else map_of data' k)" for k
    unfolding data2(2) by (rule strip_keys_value [OF law(5) [OF data'(1)]])
  have kubevip: "kubevip_holds api dapi pool' key U ?S"
    using all by simp
  have U_text: "\<forall>u \<in> set U. record_text u \<and> u \<noteq> []"
    using kubevip by (simp add: kubevip_holds_def)
  have some: "List.filter (\<lambda>e. \<not> owns ?r (canonicalAddressEntry e)) (splitKubevipEntries (data_value data' key)) = U"
    unfolding kubevip_keep(1) [OF kubevip data'(1)] by (rule kubevip_keep(3) [OF kubevip data'(1)])
  have "splitKubevipEntries (data_value data2 key) = U"
  proof (cases "map_of data' key")
    case None
    then have "U = []"
      using some by (simp add: data_value_def splitKubevipEntries_def)
    then show ?thesis
      using None two [of key] by (simp add: data_value_def swept_def splitKubevipEntries_def)
  next
    case (Some v)
    then show ?thesis
      using swept_entries [OF _ U_text, of ?r v] some two [of key] pat by (simp add: data_value_def)
  qed
  then show ?thesis
    using data' data2(1) rec two kept assms(4) unfolding other_data_kept_def by metis
qed

text \<open>A ConfigMap as a table with annotations.\<close>

definition cm_api :: "((string \<times> string) list \<times> annotations) unstructured_api" where
  "cm_api =
     \<lparr>NestedSlice = (\<lambda>_ _. Ok []), SetNestedField = (\<lambda>obj _ _. Ok obj), GetAnnotations = snd,
      SetAnnotations = (\<lambda>obj m. (fst obj, m)), DeepEqual = (\<lambda>xs ys. xs = ys), UpdateObject = (\<lambda>_. None)\<rparr>"

definition cm_data :: "((string \<times> string) list \<times> annotations) data_api" where
  "cm_data =
     \<lparr>NestedStringMap = (\<lambda>obj. Ok (AList.clearjunk (fst obj))), SetNestedStringMap = (\<lambda>obj data. Ok (AList.clearjunk data, snd obj))\<rparr>"

lemma cm_laws: "data_laws cm_api cm_data"
  by (simp add: data_laws_def cm_api_def cm_data_def AList.map_of_clearjunk AList.distinct_clearjunk)

definition sample_cm :: "(string \<times> string) list \<times> annotations" where
  "sample_cm = ([(''cidr-global'', PrefixString user_net), (''notes'', ''kept'')], [AnnotationKubevipKey \<mapsto> ''cidr-global''])"

lemma cm_update:
  assumes "kubevipKeyFor cm_api pool = Ok ''cidr-global''"
  shows "\<exists>changed pool'. kubevip_update cm_api cm_data now pool [net_config p] managed = (changed, None, pool')"
proof -
  have e: "kubevipEntriesFor ''cidr-global'' [net_config p] = Ok (List.filter (\<lambda>e. e \<noteq> []) [PrefixString p])"
    by (simp add: kubevipEntriesFor_def kubevipEntryFor_def HasPrefix_def net_config_def)
  have "NestedStringMap cm_data pool = Ok (AList.clearjunk (fst pool))"
    "\<And>data. SetNestedStringMap cm_data pool data = Ok (AList.clearjunk data, snd pool)" "\<And>o2. UpdateObject cm_api o2 = None"
    by (simp_all add: cm_data_def cm_api_def)
  then show ?thesis
    by (auto simp: kubevip_update_def assms e Let_def case_prod_beta simp del: filter.simps)
qed

lemma sample_cm_facts:
  "kubevipKeyFor cm_api sample_cm = Ok ''cidr-global''"
  "NestedStringMap cm_data sample_cm = Ok [(''cidr-global'', PrefixString user_net), (''notes'', ''kept'')]"
  "List.filter (\<lambda>e. \<not> kubevip_owned (parseOwnershipRecord (recordFor cm_api sample_cm AnnotationManagedKubevipEntries)) [net1] e)
     (splitKubevipEntries (data_value [(''cidr-global'', PrefixString user_net), (''notes'', ''kept'')] ''cidr-global'')) =
   [PrefixString user_net]"
proof -
  have "visible ''cidr-global''"
    by (simp add: visible_def)
  then show "kubevipKeyFor cm_api sample_cm = Ok ''cidr-global''"
    by (simp add: kubevipKeyFor_def cm_api_def sample_cm_def kubevipKeyPattern_def HasPrefix_def label_def label_char_def less_eq_char_def)
  show "NestedStringMap cm_data sample_cm = Ok [(''cidr-global'', PrefixString user_net), (''notes'', ''kept'')]"
    by (simp add: cm_data_def sample_cm_def)
  have "splitKubevipEntries (PrefixString user_net) = [PrefixString user_net]"
    using split_joined [of "[PrefixString user_net]"] by simp
  moreover have "TrimSpace (PrefixString user_net) = PrefixString user_net" "Cut (CHR ''-'') (PrefixString user_net) = None"
    using record_text_PrefixString [of user_net] no_dash_in_prefix [of user_net] by (simp_all add: record_text_def Cut_None_iff)
  then have "\<not> isManagedAddressEntry (PrefixString user_net) [net1]"
    by (simp add: isManagedAddressEntry_def ParsePrefix_PrefixString)
      (simp add: user_net_def PrefixFrom_def WithZone_def Is4_def)
  ultimately show "List.filter (\<lambda>e. \<not> kubevip_owned (parseOwnershipRecord (recordFor cm_api sample_cm AnnotationManagedKubevipEntries)) [net1] e)
     (splitKubevipEntries (data_value [(''cidr-global'', PrefixString user_net), (''notes'', ''kept'')] ''cidr-global'')) =
   [PrefixString user_net]"
    by (simp add: data_value_def kubevip_owned_def recordFor_def cm_api_def sample_cm_def AnnotationKubevipKey_def
        AnnotationManagedKubevipEntries_def)
qed

lemma sample_kubevip_entries:
  "kubevip_entries ''cidr-global'' [PrefixString user_net] [net_config net2] = [PrefixString net2]"
proof -
  have "canonicalAddressEntry (PrefixString user_net) = PrefixString user_net" "TrimSpace (PrefixString user_net) = PrefixString user_net"
    "TrimSpace (PrefixString net2) = PrefixString net2"
    using record_text_PrefixString [of user_net] no_dash_in_prefix [of user_net] record_text_PrefixString [of net2]
    by (simp_all add: canonicalAddressEntry_def record_text_def Cut_None_iff [THEN iffD2])
  then show ?thesis
    by (simp add: kubevip_entries_def kubevipEntriesFor_def kubevipEntryFor_def HasPrefix_def net_config_def excludePinned_def
        dedupePreservingOrder_def)
qed

theorem kubevip_rotation_witness:
  "let pool1 = snd (snd (kubevip_update cm_api cm_data ''t1'' sample_cm [net_config net1] [net1]));
       pool2 = snd (snd (kubevip_update cm_api cm_data ''t2'' pool1 [net_config net2] [net2, net1]))
   in \<exists>data'. NestedStringMap cm_data pool2 = Ok data' \<and>
        data_value data' ''cidr-global'' = join (CHR '','') [PrefixString user_net, PrefixString net2] \<and>
        map_of data' ''notes'' = Some ''kept''"
proof -
  obtain ch pool1 where one: "kubevip_update cm_api cm_data ''t1'' sample_cm [net_config net1] [net1] = (ch, None, pool1)"
    using cm_update [OF sample_cm_facts(1)] by blast
  have pr: "\<forall>c \<in> set [net_config net1]. printed c" "\<forall>u \<in> set [PrefixString user_net]. record_text u"
    by (auto simp: printed_def net_config_def)
  have "kubevip_holds cm_api cm_data pool1 ''cidr-global'' [PrefixString user_net]
      (kubevip_entries ''cidr-global'' [PrefixString user_net] [net_config net1])"
    using kubevip_pass [OF cm_laws pr(1) sample_cm_facts(1,2) sample_cm_facts(3) [symmetric] pr(2) one] by simp
  then have key1: "kubevipKeyFor cm_api pool1 = Ok ''cidr-global''"
    by (simp add: kubevip_holds_def)
  obtain ch2 pool2 where two: "kubevip_update cm_api cm_data ''t2'' pool1 [net_config net2] [net2, net1] = (ch2, None, pool2)"
    using cm_update [OF key1] by blast
  obtain released pool3 where three: "kubevip_release cm_api cm_data pool2 = (released, None, pool3)"
    by (cases "recordFor cm_api pool2 AnnotationManagedKubevipEntries") (auto simp: kubevip_release_def cm_data_def Let_def)
  have run: "fold (kubevip_step cm_api cm_data) [(''t2'', [net_config net2], [net2, net1])] (pool1, [net_config net1]) =
      (pool2, [net_config net2])"
    by (simp add: kubevip_step_def two)
  have all: "\<forall>p \<in> set ((''t1'', [net_config net1], [net1]) # [(''t2'', [net_config net2], [net2, net1])]).
      \<forall>c \<in> set (fst (snd p)). printed c"
    by (auto simp: printed_def net_config_def)
  have no_pool: "\<not> kubevipKeyPattern ''notes''"
    by (simp add: kubevipKeyPattern_def HasPrefix_def)
  from kubevip_rotation [OF cm_laws all sample_cm_facts(1,2) sample_cm_facts(3) [symmetric] pr(2) one run three]
  show ?thesis
    using no_pool unfolding one two Let_def snd_conv sample_kubevip_entries by fastforce
qed

end
