(* ===== verification/API_Versions.thy ===== *)
theory API_Versions
  imports Go_Prelude "HOL-Library.AList"
begin

text \<open>
  Which versions of the third-party resources the cluster serves
  (\<^verbatim>\<open>internal/controller/ciliumversions.go\<close>): discovery of groups, versions and resources, the choice of
  the preferred version, and the two runnables that poll until their controllers can be registered.
\<close>

subsection \<open>Names\<close>

record GroupVersionKind =
  gvk_Group :: string
  gvk_Version :: string
  gvk_Kind :: string

definition ciliumAPIGroup :: string where "ciliumAPIGroup = ''cilium.io''"
definition metallbAPIGroup :: string where "metallbAPIGroup = ''metallb.io''"
definition calicoAPIGroup :: string where "calicoAPIGroup = ''projectcalico.org''"
definition kindCiliumLoadBalancerIPPool :: string where "kindCiliumLoadBalancerIPPool = ''CiliumLoadBalancerIPPool''"
definition kindCiliumCIDRGroup :: string where "kindCiliumCIDRGroup = ''CiliumCIDRGroup''"
definition kindCiliumBGPAdvertisement :: string where "kindCiliumBGPAdvertisement = ''CiliumBGPAdvertisement''"
definition kindMetalLBIPAddressPool :: string where "kindMetalLBIPAddressPool = ''IPAddressPool''"
definition kindCalicoIPPool :: string where "kindCalicoIPPool = ''IPPool''"
definition resourceCiliumLoadBalancerIPPools :: string where "resourceCiliumLoadBalancerIPPools = ''ciliumloadbalancerippools''"
definition resourceCiliumCIDRGroups :: string where "resourceCiliumCIDRGroups = ''ciliumcidrgroups''"
definition resourceCiliumBGPAdvertisements :: string where "resourceCiliumBGPAdvertisements = ''ciliumbgpadvertisements''"
definition preferredVersions :: "string list" where "preferredVersions = [''v2'', ''v2alpha1'']"
definition preferredMetalLBVersions :: "string list" where "preferredMetalLBVersions = [''v1beta1'']"
definition preferredCalicoVersions :: "string list" where "preferredCalicoVersions = [''v3'']"

definition ListGVK :: "GroupVersionKind \<Rightarrow> GroupVersionKind" where
  "ListGVK g = \<lparr>gvk_Group = gvk_Group g, gvk_Version = gvk_Version g, gvk_Kind = gvk_Kind g @ ''List''\<rparr>"

definition APIVersion :: "GroupVersionKind \<Rightarrow> string" where
  "APIVersion g = gvk_Group g @ ''/'' @ gvk_Version g"

subsection \<open>Discovery\<close>

text \<open>The discovery client: the API groups with their versions, and the resources of a group version.\<close>

record discovery =
  ServerGroups :: "string + (string \<times> string list) list"
  ServerResourcesForGroupVersion :: "string \<Rightarrow> string + string list"

datatype discovery_error =
    GroupsFailed string
  | GroupNotFound string
  | NoSupportedVersion string string
  | NoPoolBackends

definition discoverGroupVersions :: "discovery \<Rightarrow> string \<Rightarrow> discovery_error + string list" where
  "discoverGroupVersions dc groupName =
     (case ServerGroups dc of
        Inl e \<Rightarrow> Err (GroupsFailed e)
      | Inr groups \<Rightarrow>
          (case find (\<lambda>g. fst g = groupName) groups of
             None \<Rightarrow> Err (GroupNotFound groupName)
           | Some g \<Rightarrow> Ok (snd g)))"

text \<open>The two maps of the code as one: the versions that serve a resource.\<close>

type_synonym resourceSet = "string \<Rightarrow> string set"

definition discoverResources :: "discovery \<Rightarrow> string \<Rightarrow> string list \<Rightarrow> resourceSet" where
  "discoverResources dc grp versions =
     fold (\<lambda>v rs. case ServerResourcesForGroupVersion dc (grp @ ''/'' @ v) of
             Inl _ \<Rightarrow> rs
           | Inr names \<Rightarrow> fold (\<lambda>n rs. rs(n := insert v (rs n))) names rs) versions (\<lambda>_. {})"

definition hasResource :: "resourceSet \<Rightarrow> string \<Rightarrow> string \<Rightarrow> bool" where
  "hasResource rs plural version \<longleftrightarrow> version \<in> rs plural"

definition resolveResource ::
  "resourceSet \<Rightarrow> string \<Rightarrow> string \<Rightarrow> string \<Rightarrow> string list \<Rightarrow> discovery_error + GroupVersionKind" where
  "resolveResource rs grp kind plural preferred =
     (case find (hasResource rs plural) preferred of
        Some v \<Rightarrow> Ok \<lparr>gvk_Group = grp, gvk_Version = v, gvk_Kind = kind\<rparr>
      | None \<Rightarrow> Err (NoSupportedVersion grp kind))"

record CiliumVersions =
  cv_LoadBalancerIPPool :: GroupVersionKind
  cv_CIDRGroup :: GroupVersionKind
  cv_BGPAdvertisement :: GroupVersionKind

definition DiscoverCiliumVersions :: "discovery \<Rightarrow> discovery_error + CiliumVersions" where
  "DiscoverCiliumVersions dc =
     (case discoverGroupVersions dc ciliumAPIGroup of
        Inl e \<Rightarrow> Err e
      | Inr available \<Rightarrow>
     (let rs = discoverResources dc ciliumAPIGroup available;
          resolve = (\<lambda>kind plural. resolveResource rs ciliumAPIGroup kind plural preferredVersions)
      in case resolve kindCiliumLoadBalancerIPPool resourceCiliumLoadBalancerIPPools of
        Inl e \<Rightarrow> Err e
      | Inr lbPool \<Rightarrow>
     (case resolve kindCiliumCIDRGroup resourceCiliumCIDRGroups of
        Inl e \<Rightarrow> Err e
      | Inr cidrGroup \<Rightarrow>
     (case resolve kindCiliumBGPAdvertisement resourceCiliumBGPAdvertisements of
        Inl e \<Rightarrow> Err e
      | Inr bgpAdv \<Rightarrow>
          Ok \<lparr>cv_LoadBalancerIPPool = lbPool, cv_CIDRGroup = cidrGroup, cv_BGPAdvertisement = bgpAdv\<rparr>))))"

record pool_definition =
  pd_group :: string
  pd_kind :: string
  pd_plural :: string
  pd_preferred :: "string list"

definition pool_definitions :: "pool_definition list" where
  "pool_definitions =
     [\<lparr>pd_group = ciliumAPIGroup, pd_kind = kindCiliumLoadBalancerIPPool, pd_plural = resourceCiliumLoadBalancerIPPools,
       pd_preferred = preferredVersions\<rparr>,
      \<lparr>pd_group = ciliumAPIGroup, pd_kind = kindCiliumCIDRGroup, pd_plural = resourceCiliumCIDRGroups,
       pd_preferred = preferredVersions\<rparr>,
      \<lparr>pd_group = metallbAPIGroup, pd_kind = kindMetalLBIPAddressPool, pd_plural = ''ipaddresspools'',
       pd_preferred = preferredMetalLBVersions\<rparr>,
      \<lparr>pd_group = calicoAPIGroup, pd_kind = kindCalicoIPPool, pd_plural = ''ippools'', pd_preferred = preferredCalicoVersions\<rparr>]"

text \<open>The loop over the definitions, with the resources of the groups looked up so far.\<close>

fun discover_pools ::
  "discovery \<Rightarrow> (string \<times> resourceSet) list \<Rightarrow> pool_definition list \<Rightarrow> GroupVersionKind list" where
  "discover_pools dc cache [] = []"
| "discover_pools dc cache (def # defs) =
     (let looked =
        (case map_of cache (pd_group def) of
           Some rs \<Rightarrow> Some rs
         | None \<Rightarrow>
             (case discoverGroupVersions dc (pd_group def) of
                Inl _ \<Rightarrow> None
              | Inr available \<Rightarrow> Some (discoverResources dc (pd_group def) available)))
      in case looked of
           None \<Rightarrow> discover_pools dc cache defs
         | Some rs \<Rightarrow>
             let cache = AList.update (pd_group def) rs cache in
             (case resolveResource rs (pd_group def) (pd_kind def) (pd_plural def) (pd_preferred def) of
                Inl _ \<Rightarrow> discover_pools dc cache defs
              | Inr gvk \<Rightarrow> gvk # discover_pools dc cache defs))"

definition DiscoverPoolBackendGVKs :: "discovery \<Rightarrow> discovery_error + GroupVersionKind list" where
  "DiscoverPoolBackendGVKs dc =
     (let gvks = discover_pools dc [] pool_definitions in if gvks = [] then Err NoPoolBackends else Ok gvks)"

subsection \<open>Waiting for the APIs\<close>

text \<open>
  What the loop of a starter receives: a tick, with the cluster as discovery sees it then, or the end
  of the context.  The setup function may fail; the calls made to it are collected.
\<close>

datatype starter_event = Tick discovery | Cancelled

datatype 'v starter_result = Waiting | Stopped | Registered 'v | SetupFailed 'v string

fun starter_Start ::
  "(discovery \<Rightarrow> discovery_error + 'v) \<Rightarrow> ('v \<Rightarrow> string option) \<Rightarrow> starter_event list \<Rightarrow> 'v starter_result \<times> 'v list" where
  "starter_Start discover setupControllers [] = (Waiting, [])"
| "starter_Start discover setupControllers (Cancelled # es) = (Stopped, [])"
| "starter_Start discover setupControllers (Tick dc # es) =
     (case discover dc of
        Inl _ \<Rightarrow> starter_Start discover setupControllers es
      | Inr versions \<Rightarrow>
          (case setupControllers versions of
             Some e \<Rightarrow> (SetupFailed versions e, [versions])
           | None \<Rightarrow> (Registered versions, [versions])))"

definition CiliumControllerStarter_Start where
  "CiliumControllerStarter_Start = starter_Start DiscoverCiliumVersions"

definition PoolBackendControllerStarter_Start where
  "PoolBackendControllerStarter_Start = starter_Start DiscoverPoolBackendGVKs"

definition starter_interval :: "duration \<Rightarrow> duration" where
  "starter_interval pollInterval = (if pollInterval = 0 then 30 * second else pollInterval)"

subsection \<open>What is discovered is served\<close>

definition serves :: "discovery \<Rightarrow> string \<Rightarrow> string \<Rightarrow> string \<Rightarrow> bool" where
  "serves dc grp plural v \<longleftrightarrow>
     (\<exists>versions names. discoverGroupVersions dc grp = Ok versions \<and> v \<in> set versions \<and>
        ServerResourcesForGroupVersion dc (grp @ ''/'' @ v) = Ok names \<and> plural \<in> set names)"

text \<open>The version a resource resolves to: the first preferred one that is served.\<close>

definition preferred_served :: "discovery \<Rightarrow> string \<Rightarrow> string \<Rightarrow> string list \<Rightarrow> string option" where
  "preferred_served dc grp plural preferred = find (serves dc grp plural) preferred"

lemma fold_names: "fold (\<lambda>n rs. rs(n := insert v (rs n))) names rs = (\<lambda>n. if n \<in> set names then insert v (rs n) else rs n)"
  by (induction names arbitrary: rs) (auto simp: fun_eq_iff)

lemma discoverResources_iff:
  "v \<in> discoverResources dc grp versions plural \<longleftrightarrow>
     v \<in> set versions \<and> (\<exists>names. ServerResourcesForGroupVersion dc (grp @ ''/'' @ v) = Ok names \<and> plural \<in> set names)"
proof -
  define step where "step = (\<lambda>v rs. case ServerResourcesForGroupVersion dc (grp @ ''/'' @ v) of
      Inl _ \<Rightarrow> rs | Inr names \<Rightarrow> fold (\<lambda>n rs. rs(n := insert v (rs n))) names rs)"
  let ?named = "\<lambda>u. \<exists>names. ServerResourcesForGroupVersion dc (grp @ ''/'' @ u) = Ok names \<and> plural \<in> set names"
  have one: "v \<in> step u rs plural \<longleftrightarrow> v \<in> rs plural \<or> v = u \<and> ?named u" for u rs
    by (cases "ServerResourcesForGroupVersion dc (grp @ ''/'' @ u)") (auto simp: step_def fold_names)
  have "v \<in> fold step versions rs plural \<longleftrightarrow> v \<in> rs plural \<or> v \<in> set versions \<and> ?named v" for rs
  proof (induction versions arbitrary: rs)
    case (Cons u us)
    show ?case
      unfolding fold_Cons comp_apply Cons one by auto
  qed simp
  then show ?thesis
    by (simp add: discoverResources_def step_def)
qed

lemma resolve_served:
  assumes "discoverGroupVersions dc grp = Ok versions"
  shows "resolveResource (discoverResources dc grp versions) grp kind plural preferred =
     (case preferred_served dc grp plural preferred of
        Some v \<Rightarrow> Ok \<lparr>gvk_Group = grp, gvk_Version = v, gvk_Kind = kind\<rparr>
      | None \<Rightarrow> Err (NoSupportedVersion grp kind))"
proof -
  have "hasResource (discoverResources dc grp versions) plural = serves dc grp plural"
    using assms by (auto simp: hasResource_def serves_def discoverResources_iff fun_eq_iff)
  then show ?thesis
    by (simp add: resolveResource_def preferred_served_def)
qed

lemma nothing_served: "discoverGroupVersions dc grp = Err e \<Longrightarrow> preferred_served dc grp plural preferred = None"
  by (auto simp: preferred_served_def serves_def find_None_iff)

text \<open>The pools found, without the cache.\<close>

definition served_pool :: "discovery \<Rightarrow> pool_definition \<Rightarrow> GroupVersionKind option" where
  "served_pool dc def = map_option (\<lambda>v. \<lparr>gvk_Group = pd_group def, gvk_Version = v, gvk_Kind = pd_kind def\<rparr>)
     (preferred_served dc (pd_group def) (pd_plural def) (pd_preferred def))"

lemma discover_pools_served:
  assumes "\<forall>g rs. map_of cache g = Some rs \<longrightarrow> (\<exists>versions. discoverGroupVersions dc g = Ok versions \<and> rs = discoverResources dc g versions)"
  shows "discover_pools dc cache defs = List.map_filter (served_pool dc) defs"
  using assms
proof (induction defs arbitrary: cache)
  case (Cons def defs)
  show ?case
  proof (cases "discoverGroupVersions dc (pd_group def)")
    case (Inl e)
    then have "map_of cache (pd_group def) = None"
      using Cons.prems by (metis Inl_Inr_False not_Some_eq)
    then show ?thesis
      using Inl nothing_served [OF Inl] Cons by (simp add: served_pool_def List.map_filter_def)
  next
    case (Inr versions)
    let ?rs = "discoverResources dc (pd_group def) versions"
    have "map_of cache (pd_group def) = None \<or> map_of cache (pd_group def) = Some ?rs"
      using Cons.prems Inr by (metis not_Some_eq sum.inject(2))
    moreover have "discover_pools dc (AList.update (pd_group def) ?rs cache) defs = List.map_filter (served_pool dc) defs"
      using Cons.prems Inr by (intro Cons.IH) (auto simp: update_conv')
    ultimately show ?thesis
      using Inr resolve_served [OF Inr]
      by (auto simp: served_pool_def List.map_filter_def split: option.split)
  qed
qed (simp add: List.map_filter_def)

text \<open>
  Discovery reports what the cluster serves, in the preferred version: the Cilium controllers get
  the first of the preferred versions under which each of their three resources is served, and
  nothing when one is served under none; the pool controller gets, in the order of its backends,
  every resource that is served, each in its preferred version, and nothing when there is none.
\<close>

theorem discovery_prefers_served_versions:
  "(let cilium = (\<lambda>plural. preferred_served dc ciliumAPIGroup plural preferredVersions);
        gvk = (\<lambda>v kind. \<lparr>gvk_Group = ciliumAPIGroup, gvk_Version = v, gvk_Kind = kind\<rparr>) in
    DiscoverCiliumVersions dc = Ok cv \<longleftrightarrow>
      (\<exists>p c b. cilium resourceCiliumLoadBalancerIPPools = Some p \<and> cilium resourceCiliumCIDRGroups = Some c \<and>
         cilium resourceCiliumBGPAdvertisements = Some b \<and>
         cv = \<lparr>cv_LoadBalancerIPPool = gvk p kindCiliumLoadBalancerIPPool, cv_CIDRGroup = gvk c kindCiliumCIDRGroup,
               cv_BGPAdvertisement = gvk b kindCiliumBGPAdvertisement\<rparr>)) \<and>
   (DiscoverPoolBackendGVKs dc = Ok gvks \<longleftrightarrow> gvks = List.map_filter (served_pool dc) pool_definitions \<and> gvks \<noteq> [])"
proof
  let ?cilium = "\<lambda>plural. preferred_served dc ciliumAPIGroup plural preferredVersions"
  let ?gvk = "\<lambda>v kind. \<lparr>gvk_Group = ciliumAPIGroup, gvk_Version = v, gvk_Kind = kind\<rparr>"
  have "DiscoverCiliumVersions dc = Ok cv \<longleftrightarrow>
      (\<exists>p c b. ?cilium resourceCiliumLoadBalancerIPPools = Some p \<and> ?cilium resourceCiliumCIDRGroups = Some c \<and>
         ?cilium resourceCiliumBGPAdvertisements = Some b \<and>
         cv = \<lparr>cv_LoadBalancerIPPool = ?gvk p kindCiliumLoadBalancerIPPool, cv_CIDRGroup = ?gvk c kindCiliumCIDRGroup,
               cv_BGPAdvertisement = ?gvk b kindCiliumBGPAdvertisement\<rparr>)"
  proof (cases "discoverGroupVersions dc ciliumAPIGroup")
    case (Inl e)
    then show ?thesis
      using nothing_served [OF Inl] by (simp add: DiscoverCiliumVersions_def)
  next
    case (Inr versions)
    show ?thesis
      using Inr resolve_served [OF Inr]
      by (auto simp: DiscoverCiliumVersions_def Let_def split: option.splits)
  qed
  then show "let cilium = ?cilium; gvk = ?gvk in
    DiscoverCiliumVersions dc = Ok cv \<longleftrightarrow>
      (\<exists>p c b. cilium resourceCiliumLoadBalancerIPPools = Some p \<and> cilium resourceCiliumCIDRGroups = Some c \<and>
         cilium resourceCiliumBGPAdvertisements = Some b \<and>
         cv = \<lparr>cv_LoadBalancerIPPool = gvk p kindCiliumLoadBalancerIPPool, cv_CIDRGroup = gvk c kindCiliumCIDRGroup,
               cv_BGPAdvertisement = gvk b kindCiliumBGPAdvertisement\<rparr>)"
    by (simp only: Let_def)
  show "DiscoverPoolBackendGVKs dc = Ok gvks \<longleftrightarrow> gvks = List.map_filter (served_pool dc) pool_definitions \<and> gvks \<noteq> []"
    by (auto simp: DiscoverPoolBackendGVKs_def Let_def discover_pools_served)
qed

text \<open>The first tick at which discovery succeeds, with nothing but failing ticks before it.\<close>

definition first_success :: "(discovery \<Rightarrow> discovery_error + 'v) \<Rightarrow> starter_event list \<Rightarrow> 'v \<Rightarrow> bool" where
  "first_success discover es v \<longleftrightarrow>
     (\<exists>pre dc post. es = map Tick pre @ Tick dc # post \<and> list_all (\<lambda>d. \<not> is_ok (discover d)) pre \<and> discover dc = Ok v)"

lemma first_success_simps [simp]:
  "\<not> first_success discover [] v"
  "\<not> first_success discover (Cancelled # es) v"
  "discover dc = Ok u \<Longrightarrow> first_success discover (Tick dc # es) v \<longleftrightarrow> u = v"
  "discover dc = Err e \<Longrightarrow> first_success discover (Tick dc # es) v \<longleftrightarrow> first_success discover es v"
proof -
  have Cons: "first_success discover (Tick dc # es) v \<longleftrightarrow> discover dc = Ok v \<or> \<not> is_ok (discover dc) \<and> first_success discover es v"
    for dc
  proof
    assume "first_success discover (Tick dc # es) v"
    then obtain pre dc' post where *: "Tick dc # es = map Tick pre @ Tick dc' # post" "list_all (\<lambda>d. \<not> is_ok (discover d)) pre"
      "discover dc' = Ok v"
      unfolding first_success_def by blast
    then show "discover dc = Ok v \<or> \<not> is_ok (discover dc) \<and> first_success discover es v"
      by (cases pre) (auto simp: first_success_def)
  next
    assume "discover dc = Ok v \<or> \<not> is_ok (discover dc) \<and> first_success discover es v"
    then show "first_success discover (Tick dc # es) v"
    proof
      assume "\<not> is_ok (discover dc) \<and> first_success discover es v"
      then obtain pre dc' post where "es = map Tick pre @ Tick dc' # post" "list_all (\<lambda>d. \<not> is_ok (discover d)) (dc # pre)"
        "discover dc' = Ok v"
        unfolding first_success_def by auto
      then have "Tick dc # es = map Tick (dc # pre) @ Tick dc' # post \<and> list_all (\<lambda>d. \<not> is_ok (discover d)) (dc # pre) \<and>
          discover dc' = Ok v"
        by simp
      then show ?thesis
        unfolding first_success_def by blast
    next
      assume "discover dc = Ok v"
      then have "Tick dc # es = map Tick [] @ Tick dc # es \<and> list_all (\<lambda>d. \<not> is_ok (discover d)) [] \<and> discover dc = Ok v"
        by simp
      then show ?thesis
        unfolding first_success_def by blast
    qed
  qed
  show "\<not> first_success discover [] v" "\<not> first_success discover (Cancelled # es) v"
    by (auto simp: first_success_def Cons_eq_append_conv)
  show "discover dc = Ok u \<Longrightarrow> first_success discover (Tick dc # es) v \<longleftrightarrow> u = v"
    "discover dc = Err e \<Longrightarrow> first_success discover (Tick dc # es) v \<longleftrightarrow> first_success discover es v"
    using Cons by simp_all
qed

text \<open>
  A starter registers its controllers once, at the first tick at which discovery succeeds: before
  that it waits, if the context ends first it stops without registering anything, and after it has
  called the setup function, whatever the outcome, no later tick calls it again.
\<close>

theorem starter_registers_once:
  "(snd (starter_Start discover setupControllers es) = [v] \<longleftrightarrow> first_success discover es v) \<and>
   length (snd (starter_Start discover setupControllers es)) \<le> 1 \<and>
   (fst (starter_Start discover setupControllers es) =
      (case setupControllers v of None \<Rightarrow> Registered v | Some e \<Rightarrow> SetupFailed v e) \<longleftrightarrow> first_success discover es v)"
proof (induction discover setupControllers es rule: starter_Start.induct)
  case (1 discover setupControllers)
  then show ?case
    by (simp split: option.split)
next
  case (2 discover setupControllers es)
  then show ?case
    by (simp split: option.split)
next
  case (3 discover setupControllers dc es)
  then show ?case
  proof (cases "discover dc")
    case (Inr u)
    then show ?thesis
      by (auto split: option.splits)
  qed simp
qed

end
