(* ===== verification/BGP_Sync.thy ===== *)
theory BGP_Sync
  imports Pool_Status
begin

text \<open>
  BGP advertisements (\<^verbatim>\<open>internal/controller/bgpsync_controller.go\<close>): one CiliumBGPAdvertisement for each
  subnet that asks for it, carrying the service selector of the pool of that subnet, the removal of
  those no longer wanted, and the BGPAdvertisementReady condition.  The API server is a record of
  operations with the laws of a store.
\<close>

subsection \<open>Objects and the API server\<close>

definition LabelManagedBy :: string where "LabelManagedBy = ''app.kubernetes.io/managed-by''"
definition LabelManagedByValue :: string where "LabelManagedByValue = ''dynamic-prefix-operator''"
definition LabelDynamicPrefixName :: string where "LabelDynamicPrefixName = ''dynamic-prefix.io/name''"
definition LabelSubnetName :: string where "LabelSubnetName = ''dynamic-prefix.io/subnet''"

record Advertisement =
  adv_Name :: string
  adv_Labels :: annotations
  adv_Owner :: "string option"
  adv_Spec :: "json option"

text \<open>
  A pool as far as it is read: its annotations, and \<^verbatim>\<open>spec.serviceSelector\<close> as \<^verbatim>\<open>NestedMap\<close> gives it, an
  error, nothing, or the fields of an object.
\<close>

record LBPool =
  lbp_Name :: string
  lbp_Annotations :: annotations
  lbp_Selector :: "string + ((string \<times> json) list) option"

record 'w bgp_api = "'w status_api" +
  ListLBPools :: "'w \<Rightarrow> api_error + LBPool list"
  GetAdv :: "'w \<Rightarrow> string \<Rightarrow> api_error + Advertisement"
  CreateAdv :: "'w \<Rightarrow> Advertisement \<Rightarrow> api_error option \<times> 'w"
  UpdateAdv :: "'w \<Rightarrow> Advertisement \<Rightarrow> api_error option \<times> 'w"
  DeleteAdv :: "'w \<Rightarrow> Advertisement \<Rightarrow> api_error option \<times> 'w"
  ListAdvs :: "'w \<Rightarrow> (string \<times> string) list \<Rightarrow> api_error + Advertisement list"
  SetControllerReference :: "DynamicPrefix \<Rightarrow> Advertisement \<Rightarrow> string + Advertisement"
  SpecEqual :: "json option \<Rightarrow> json option \<Rightarrow> bool"

datatype bgp_error =
    SelectorListFailed api_error
  | SelectorUnreadable string string
  | NoPoolForSubnet string
  | GetAdvFailed api_error
  | OwnerFailed string
  | CreateAdvFailed api_error
  | UpdateAdvFailed api_error
  | ListAdvsFailed api_error
  | BGPStatusFailed api_error
  | BGPGetFailed api_error

subsection \<open>The advertisement of a subnet\<close>

definition getSubnetsWithBGP :: "DynamicPrefix \<Rightarrow> SubnetSpec list" where
  "getSubnetsWithBGP dp =
     List.filter (\<lambda>s. case sns_BGP s of None \<Rightarrow> False | Some b \<Rightarrow> bgp_Advertise b) (spec_Subnets (dp_Spec dp))"

definition ann_text :: "annotations \<Rightarrow> string \<Rightarrow> string" where
  "ann_text ann k = (case ann k of None \<Rightarrow> [] | Some v \<Rightarrow> v)"

definition getPoolServiceSelector :: "'w bgp_api \<Rightarrow> 'w \<Rightarrow> string \<Rightarrow> string \<Rightarrow> bgp_error + (string \<times> json) list" where
  "getPoolServiceSelector api w dpName subnetName =
     (case ListLBPools api w of
        Inl e \<Rightarrow> Err (SelectorListFailed e)
      | Inr pools \<Rightarrow>
          (case find (\<lambda>p. ann_text (lbp_Annotations p) AnnotationName = dpName \<and>
                          ann_text (lbp_Annotations p) AnnotationSubnet = subnetName) pools of
             None \<Rightarrow> Err (NoPoolForSubnet subnetName)
           | Some p \<Rightarrow>
               (case lbp_Selector p of
                  Inl e \<Rightarrow> Err (SelectorUnreadable (lbp_Name p) e)
                | Inr None \<Rightarrow> Ok []
                | Inr (Some sel) \<Rightarrow> Ok sel)))"

definition jobj :: "(string \<times> json) list \<Rightarrow> json" where
  "jobj kvs = JObj (map_of kvs)"

definition buildAdvertisementSpec :: "SubnetSpec \<Rightarrow> (string \<times> json) list \<Rightarrow> json" where
  "buildAdvertisementSpec subnet selector =
     (let adv = [(''advertisementType'', JStr ''Service''),
                 (''service'', jobj [(''addresses'', JArr [JStr ''LoadBalancerIP''])])];
          adv = (if selector \<noteq> [] then (''selector'', jobj selector) # adv else adv);
          adv = (case sns_BGP subnet of
                   None \<Rightarrow> adv
                 | Some b \<Rightarrow>
                     if bgp_Community b \<noteq> []
                     then (''attributes'', jobj [(''communities'', jobj [(''standard'', JArr [JStr (bgp_Community b)])])]) # adv
                     else adv)
      in jobj [(''advertisements'', JArr [jobj adv])])"

text \<open>The labels the operator puts on an advertisement, over those it has.\<close>

definition bgp_labels :: "string \<Rightarrow> string \<Rightarrow> annotations \<Rightarrow> annotations" where
  "bgp_labels dpName subnetName labels =
     labels(LabelManagedBy \<mapsto> LabelManagedByValue, LabelDynamicPrefixName \<mapsto> dpName, LabelSubnetName \<mapsto> subnetName)"

definition selector_or_empty :: "'w bgp_api \<Rightarrow> 'w \<Rightarrow> DynamicPrefix \<Rightarrow> SubnetSpec \<Rightarrow> (string \<times> json) list" where
  "selector_or_empty api w dp subnet =
     (case getPoolServiceSelector api w (dp_Name dp) (sns_Name subnet) of Inl _ \<Rightarrow> [] | Inr sel \<Rightarrow> sel)"

definition reconcileAdvertisement :: "'w bgp_api \<Rightarrow> DynamicPrefix \<Rightarrow> SubnetSpec \<Rightarrow> 'w \<Rightarrow> bgp_error option \<times> 'w" where
  "reconcileAdvertisement api dp subnet w =
     (let advName = advertisementName (dp_Name dp) (sns_Name subnet);
          advSpec = buildAdvertisementSpec subnet (selector_or_empty api w dp subnet)
      in case GetAdv api w advName of
        Inl (OtherError e) \<Rightarrow> (Some (GetAdvFailed (OtherError e)), w)
      | Inl NotFoundError \<Rightarrow>
          (case SetControllerReference api dp
                  \<lparr>adv_Name = advName, adv_Labels = bgp_labels (dp_Name dp) (sns_Name subnet) Map.empty,
                   adv_Owner = None, adv_Spec = Some advSpec\<rparr> of
             Inl e \<Rightarrow> (Some (OwnerFailed e), w)
           | Inr adv \<Rightarrow> (case CreateAdv api w adv of (Some e, w) \<Rightarrow> (Some (CreateAdvFailed e), w) | (None, w) \<Rightarrow> (None, w)))
      | Inr adv \<Rightarrow>
          let labels = adv_Labels adv;
              labelsChanged = (ann_text labels LabelManagedBy \<noteq> LabelManagedByValue \<or>
                 ann_text labels LabelDynamicPrefixName \<noteq> dp_Name dp \<or> ann_text labels LabelSubnetName \<noteq> sns_Name subnet)
          in if \<not> SpecEqual api (adv_Spec adv) (Some advSpec) \<or> labelsChanged then
               (case UpdateAdv api w (adv\<lparr>adv_Spec := Some advSpec, adv_Labels := bgp_labels (dp_Name dp) (sns_Name subnet) labels\<rparr>) of
                  (Some e, w) \<Rightarrow> (Some (UpdateAdvFailed e), w)
                | (None, w) \<Rightarrow> (None, w))
             else (None, w))"

subsection \<open>Removal, condition and the whole pass\<close>

text \<open>A failing delete is logged; the loop goes on and reports nothing.\<close>

definition deleteOrphanedAdvertisements :: "'w bgp_api \<Rightarrow> DynamicPrefix \<Rightarrow> string set \<Rightarrow> 'w \<Rightarrow> bgp_error option \<times> 'w" where
  "deleteOrphanedAdvertisements api dp expected w =
     (case ListAdvs api w [(LabelManagedBy, LabelManagedByValue), (LabelDynamicPrefixName, dp_Name dp)] of
        Inl e \<Rightarrow> (Some (ListAdvsFailed e), w)
      | Inr advs \<Rightarrow>
          (None, fold (\<lambda>adv w. if adv_Name adv \<in> expected then w else snd (DeleteAdv api w adv)) advs w))"

definition buildBGPCondition :: "'w bgp_api \<Rightarrow> 'w \<Rightarrow> DynamicPrefix \<Rightarrow> SubnetSpec list \<Rightarrow> ConditionStatus \<times> string \<times> string" where
  "buildBGPCondition api w dp subnets =
     (if subnets = [] then (ConditionFalse, ''NoBGPSubnets'', ''No subnets have BGP advertisement enabled'')
      else if list_all (\<lambda>s. is_ok (GetAdv api w (advertisementName (dp_Name dp) (sns_Name s)))) subnets
      then (ConditionTrue, ''AdvertisementsReady'', dec (length subnets) @ '' BGP advertisement(s) configured'')
      else (ConditionFalse, ''AdvertisementsPending'', ''Some BGP advertisements are not yet ready''))"

definition bgp_updateStatus :: "'w bgp_api \<Rightarrow> clock_env \<Rightarrow> DynamicPrefix \<Rightarrow> SubnetSpec list \<Rightarrow> 'w \<Rightarrow> bgp_error option \<times> 'w" where
  "bgp_updateStatus api env dp subnets w =
     (let (status, reason, message) = buildBGPCondition api w dp subnets;
          (entry, changed) = conditionApplyEntry (ce_meta env) (ce_now env) dp ConditionTypeBGPAdvertisementReady status reason message
      in if \<not> changed then (None, w)
         else (case ApplyCondition api w (dp_Name dp) entry of
             (Some e, w) \<Rightarrow> (Some (BGPStatusFailed e), w)
           | (None, w) \<Rightarrow> (None, w)))"

fun reconcile_subnets :: "'w bgp_api \<Rightarrow> DynamicPrefix \<Rightarrow> SubnetSpec list \<Rightarrow> 'w \<Rightarrow> bgp_error list \<times> 'w" where
  "reconcile_subnets api dp [] w = ([], w)"
| "reconcile_subnets api dp (s # ss) w =
     (let (err, w) = reconcileAdvertisement api dp s w; (errs, w) = reconcile_subnets api dp ss w
      in ((case err of None \<Rightarrow> errs | Some e \<Rightarrow> e # errs), w))"

text \<open>The errors a pass returns, joined in order; an empty list is success.\<close>

definition bgp_Reconcile :: "'w bgp_api \<Rightarrow> clock_env \<Rightarrow> string \<Rightarrow> 'w \<Rightarrow> bgp_error list \<times> 'w" where
  "bgp_Reconcile api env req w =
     (case GetDynamicPrefix api w req of
        Inl NotFoundError \<Rightarrow> ([], w)
      | Inl e \<Rightarrow> ([BGPGetFailed e], w)
      | Inr dp \<Rightarrow>
          let subnets = getSubnetsWithBGP dp;
              expected = set (map (\<lambda>s. advertisementName (dp_Name dp) (sns_Name s)) subnets);
              (errs, w) = reconcile_subnets api dp subnets w;
              (err1, w) = deleteOrphanedAdvertisements api dp expected w;
              (err2, w) = bgp_updateStatus api env dp subnets w
          in (errs @ (case err1 of None \<Rightarrow> [] | Some e \<Rightarrow> [e]) @ (case err2 of None \<Rightarrow> [] | Some e \<Rightarrow> [e]), w))"

definition findDynamicPrefixForPool :: "annotations \<Rightarrow> string list" where
  "findDynamicPrefixForPool ann =
     (case ann AnnotationName of
        None \<Rightarrow> []
      | Some dpName \<Rightarrow> if ann AnnotationSubnet = None then [] else [dpName])"

subsection \<open>What a pass leaves behind\<close>

definition adv_for :: "DynamicPrefix \<Rightarrow> SubnetSpec \<Rightarrow> string" where
  "adv_for dp s = advertisementName (dp_Name dp) (sns_Name s)"

definition labelled :: "(string \<times> string) list \<Rightarrow> Advertisement \<Rightarrow> bool" where
  "labelled ls a \<longleftrightarrow> (\<forall>(k, v) \<in> set ls. adv_Labels a k = Some v)"

definition own_labels :: "DynamicPrefix \<Rightarrow> (string \<times> string) list" where
  "own_labels dp = [(LabelManagedBy, LabelManagedByValue), (LabelDynamicPrefixName, dp_Name dp)]"

text \<open>
  The API server as a store of advertisements under their names: a write that succeeds is what is
  read and listed afterwards, one that fails changes nothing, the owner reference is the only thing
  \<^verbatim>\<open>SetControllerReference\<close> adds, specifications compare as JSON values, and no write of this controller
  changes a pool.
\<close>

definition bgp_laws :: "'w bgp_api \<Rightarrow> ('w \<Rightarrow> string \<Rightarrow> Advertisement option) \<Rightarrow> bool" where
  "bgp_laws api advs \<longleftrightarrow>
     (\<forall>w n a. advs w n = Some a \<longrightarrow> adv_Name a = n) \<and>
     (\<forall>w n a. GetAdv api w n = Ok a \<longrightarrow> advs w n = Some a) \<and>
     (\<forall>w ls xs. ListAdvs api w ls = Ok xs \<longrightarrow> set xs = {a. advs w (adv_Name a) = Some a \<and> labelled ls a}) \<and>
     (\<forall>dp a a'. SetControllerReference api dp a = Ok a' \<longrightarrow> a' = a\<lparr>adv_Owner := Some (dp_Name dp)\<rparr>) \<and>
     (\<forall>x y. SpecEqual api x y \<longleftrightarrow> x = y) \<and>
     (\<forall>w a e w'. CreateAdv api w a = (e, w') \<longrightarrow>
        ListLBPools api w' = ListLBPools api w \<and> advs w' = (if e = None then (advs w)(adv_Name a \<mapsto> a) else advs w)) \<and>
     (\<forall>w a e w'. UpdateAdv api w a = (e, w') \<longrightarrow>
        ListLBPools api w' = ListLBPools api w \<and> advs w' = (if e = None then (advs w)(adv_Name a \<mapsto> a) else advs w)) \<and>
     (\<forall>w a e w'. DeleteAdv api w a = (e, w') \<longrightarrow>
        ListLBPools api w' = ListLBPools api w \<and> advs w' = (if e = None then (advs w)(adv_Name a := None) else advs w)) \<and>
     (\<forall>w n c e w'. ApplyCondition api w n c = (e, w') \<longrightarrow> advs w' = advs w)"

lemma bgp_lawsD:
  assumes "bgp_laws api advs"
  shows "advs w n = Some a \<Longrightarrow> adv_Name a = n"
    and "GetAdv api w n = Ok a \<Longrightarrow> advs w n = Some a"
    and "ListAdvs api w ls = Ok xs \<Longrightarrow> set xs = {a. advs w (adv_Name a) = Some a \<and> labelled ls a}"
    and "SetControllerReference api dp a = Ok a' \<Longrightarrow> a' = a\<lparr>adv_Owner := Some (dp_Name dp)\<rparr>"
    and "SpecEqual api x y \<longleftrightarrow> x = y"
    and "CreateAdv api w a = (e, w') \<Longrightarrow>
        ListLBPools api w' = ListLBPools api w \<and> advs w' = (if e = None then (advs w)(adv_Name a \<mapsto> a) else advs w)"
    and "UpdateAdv api w a = (e, w') \<Longrightarrow>
        ListLBPools api w' = ListLBPools api w \<and> advs w' = (if e = None then (advs w)(adv_Name a \<mapsto> a) else advs w)"
    and "DeleteAdv api w a = (e, w') \<Longrightarrow>
        ListLBPools api w' = ListLBPools api w \<and> advs w' = (if e = None then (advs w)(adv_Name a := None) else advs w)"
    and "ApplyCondition api w n c = (e, w') \<Longrightarrow> advs w' = advs w"
  using assms unfolding bgp_laws_def by simp_all

text \<open>The advertisement a subnet should have.\<close>

definition right_adv :: "DynamicPrefix \<Rightarrow> SubnetSpec \<Rightarrow> (string \<times> json) list \<Rightarrow> Advertisement \<Rightarrow> bool" where
  "right_adv dp s selector a \<longleftrightarrow>
     adv_Name a = adv_for dp s \<and> adv_Spec a = Some (buildAdvertisementSpec s selector) \<and>
     ann_text (adv_Labels a) LabelManagedBy = LabelManagedByValue \<and> ann_text (adv_Labels a) LabelDynamicPrefixName = dp_Name dp \<and>
     ann_text (adv_Labels a) LabelSubnetName = sns_Name s"

lemmas label_names = LabelManagedBy_def LabelManagedByValue_def LabelDynamicPrefixName_def LabelSubnetName_def

lemma bgp_labels_text [simp]:
  "ann_text (bgp_labels d n ls) LabelManagedBy = LabelManagedByValue"
  "ann_text (bgp_labels d n ls) LabelDynamicPrefixName = d"
  "ann_text (bgp_labels d n ls) LabelSubnetName = n"
  by (simp_all add: bgp_labels_def ann_text_def label_names)

lemma reconcileAdvertisement_right:
  assumes "bgp_laws api advs" "reconcileAdvertisement api dp s w = (err, w')"
  shows "ListLBPools api w' = ListLBPools api w"
    and "err = None \<Longrightarrow> \<exists>a. advs w' = (advs w)(adv_for dp s \<mapsto> a) \<and> right_adv dp s (selector_or_empty api w dp s) a"
    and "err \<noteq> None \<Longrightarrow> advs w' = advs w"
proof -
  note laws = bgp_lawsD [OF assms(1)]
  define spec where "spec = buildAdvertisementSpec s (selector_or_empty api w dp s)"
  let ?new = "\<lparr>adv_Name = adv_for dp s, adv_Labels = bgp_labels (dp_Name dp) (sns_Name s) Map.empty, adv_Owner = None, adv_Spec = Some spec\<rparr>"
  let ?upd = "\<lambda>adv. adv\<lparr>adv_Spec := Some spec, adv_Labels := bgp_labels (dp_Name dp) (sns_Name s) (adv_Labels adv)\<rparr>"
  let ?right = "\<lambda>a. advs w' = (advs w)(adv_for dp s \<mapsto> a) \<and> right_adv dp s (selector_or_empty api w dp s) a"
  note def = reconcileAdvertisement_def adv_for_def [symmetric] spec_def [symmetric] Let_def
  have result: "ListLBPools api w' = ListLBPools api w \<and> (if err = None then \<exists>a. ?right a else advs w' = advs w)"
  proof (cases "GetAdv api w (adv_for dp s)")
    case (Inl e)
    show ?thesis
    proof (cases e)
      case NotFoundError
      show ?thesis
      proof (cases "SetControllerReference api dp ?new")
        case owner: (Inr adv)
        then have adv: "adv = ?new\<lparr>adv_Owner := Some (dp_Name dp)\<rparr>"
          by (rule laws(4))
        obtain e' w'' where c: "CreateAdv api w adv = (e', w'')"
          by fastforce
        then have "w' = w''" "err = None \<longleftrightarrow> e' = None"
          using assms(2) Inl NotFoundError owner by (auto simp: def split: option.splits)
        then show ?thesis
          using laws(6) [OF c] adv by (auto simp: right_adv_def spec_def)
      qed (use assms(2) Inl NotFoundError in \<open>auto simp: def\<close>)
    qed (use assms(2) Inl in \<open>auto simp: def\<close>)
  next
    case (Inr adv)
    have stored: "advs w (adv_for dp s) = Some adv" "adv_Name adv = adv_for dp s"
      using laws(1,2) Inr by blast+
    obtain e' w'' where u: "UpdateAdv api w (?upd adv) = (e', w'')"
      by fastforce
    consider (written) "w' = w''" "err = None \<longleftrightarrow> e' = None"
      | (same) "w' = w" "err = None" "adv_Spec adv = Some spec" "ann_text (adv_Labels adv) LabelManagedBy = LabelManagedByValue"
          "ann_text (adv_Labels adv) LabelDynamicPrefixName = dp_Name dp" "ann_text (adv_Labels adv) LabelSubnetName = sns_Name s"
      using assms(2) Inr u laws(5) by (auto simp: def split: if_splits option.splits)
    then show ?thesis
    proof cases
      case written
      then show ?thesis
        using laws(7) [OF u] stored(2) by (auto simp: right_adv_def spec_def)
    next
      case same
      then have "?right adv"
        using stored by (auto simp: right_adv_def spec_def)
      then show ?thesis
        using same by auto
    qed
  qed
  then show "ListLBPools api w' = ListLBPools api w" "err = None \<Longrightarrow> \<exists>a. ?right a" "err \<noteq> None \<Longrightarrow> advs w' = advs w"
    by auto
qed

lemma selector_stable: "ListLBPools api w' = ListLBPools api w \<Longrightarrow> selector_or_empty api w' = selector_or_empty api w"
  by (simp add: fun_eq_iff selector_or_empty_def getPoolServiceSelector_def)

lemma adv_for_inj: "adv_for dp s = adv_for dp t \<longleftrightarrow> sns_Name s = sns_Name t"
  by (simp add: adv_for_def advertisementName_def)

lemma reconcile_subnets_right:
  assumes "bgp_laws api advs" "reconcile_subnets api dp ss w = ([], w')" "distinct (map sns_Name ss)"
  shows "(\<forall>n. n \<notin> adv_for dp ` set ss \<longrightarrow> advs w' n = advs w n) \<and>
     (\<forall>s \<in> set ss. \<exists>a. advs w' (adv_for dp s) = Some a \<and> right_adv dp s (selector_or_empty api w dp s) a) \<and>
     ListLBPools api w' = ListLBPools api w"
  using assms(2,3)
proof (induction ss arbitrary: w)
  case (Cons s ss)
  obtain err w1 where one: "reconcileAdvertisement api dp s w = (err, w1)"
    by fastforce
  obtain errs w2 where rest: "reconcile_subnets api dp ss w1 = (errs, w2)"
    by fastforce
  have ok: "err = None" "errs = []" "w2 = w'"
    using Cons.prems(1) one rest by (auto split: option.splits)
  note first = reconcileAdvertisement_right [OF assms(1) one]
  obtain a where a: "advs w1 = (advs w)(adv_for dp s \<mapsto> a)" "right_adv dp s (selector_or_empty api w dp s) a"
    using first(2) ok(1) by blast
  have IH: "\<forall>n. n \<notin> adv_for dp ` set ss \<longrightarrow> advs w' n = advs w1 n"
    "\<forall>t \<in> set ss. \<exists>a. advs w' (adv_for dp t) = Some a \<and> right_adv dp t (selector_or_empty api w dp t) a"
    "ListLBPools api w' = ListLBPools api w"
    using Cons.IH [of w1] rest ok Cons.prems(2) first(1) selector_stable [OF first(1)] by auto
  have "adv_for dp s \<notin> adv_for dp ` set ss"
    using Cons.prems(2) by (auto simp: adv_for_inj)
  then have "advs w' (adv_for dp s) = Some a"
    using IH(1) a(1) by simp
  then show ?case
    using IH a by auto
qed simp

lemma delete_fold:
  assumes "bgp_laws api advs" "\<forall>w a. fst (DeleteAdv api w a) = None"
  shows "advs (fold (\<lambda>adv w. if adv_Name adv \<in> expected then w else snd (DeleteAdv api w adv)) xs w) n =
     (if n \<notin> expected \<and> n \<in> adv_Name ` set xs then None else advs w n)"
proof (induction xs arbitrary: w)
  case (Cons x xs)
  obtain w1 where "DeleteAdv api w x = (None, w1)"
    using assms(2) by (metis prod.collapse)
  moreover from this have "advs w1 = (advs w)(adv_Name x := None)"
    using bgp_lawsD(8) [OF assms(1)] by simp
  ultimately show ?case
    using Cons by auto
qed simp


text \<open>A store of advertisements, for one DynamicPrefix with one advertised subnet whose pool has a selector.\<close>

definition bgp_dp :: DynamicPrefix where
  "bgp_dp = sample_dp\<lparr>dp_Name := ''home'', dp_Spec := (dp_Spec sample_dp)\<lparr>spec_Subnets :=
     [\<lparr>sns_Name = ''lan'', sns_Offset = 1, sns_PrefixLength = 64, sns_BGP = Some \<lparr>bgp_Advertise = True, bgp_Community = []\<rparr>\<rparr>]\<rparr>\<rparr>"

definition adv_store_api :: "string + ((string \<times> json) list) option \<Rightarrow> ((string \<times> Advertisement) list) bgp_api" where
  "adv_store_api selector =
     \<lparr>GetDynamicPrefix = (\<lambda>w n. if n = ''home'' then Ok bgp_dp else Err NotFoundError),
      ApplyCondition = (\<lambda>w n c. (None, w)),
      ListLBPools = (\<lambda>w. Ok [\<lparr>lbp_Name = ''p'', lbp_Annotations = [AnnotationName \<mapsto> ''home'', AnnotationSubnet \<mapsto> ''lan''],
                               lbp_Selector = selector\<rparr>]),
      GetAdv = (\<lambda>w n. case map_of w n of Some a \<Rightarrow> if adv_Name a = n then Ok a else Err NotFoundError | None \<Rightarrow> Err NotFoundError),
      CreateAdv = (\<lambda>w a. (None, AList.update (adv_Name a) a w)),
      UpdateAdv = (\<lambda>w a. (None, AList.update (adv_Name a) a w)),
      DeleteAdv = (\<lambda>w a. (None, AList.delete (adv_Name a) w)),
      ListAdvs = (\<lambda>w ls. Ok (List.filter (\<lambda>a. map_of w (adv_Name a) = Some a \<and> labelled ls a) (map snd w))),
      SetControllerReference = (\<lambda>dp a. Ok (a\<lparr>adv_Owner := Some (dp_Name dp)\<rparr>)),
      SpecEqual = (=)\<rparr>"

definition adv_store :: "(string \<times> Advertisement) list \<Rightarrow> string \<Rightarrow> Advertisement option" where
  "adv_store w n = (case map_of w n of Some a \<Rightarrow> if adv_Name a = n then Some a else None | None \<Rightarrow> None)"

lemma adv_store_laws: "bgp_laws (adv_store_api sel) adv_store"
proof -
  have upd: "adv_store (AList.update (adv_Name a) a w) = (adv_store w)(adv_Name a \<mapsto> a)" for a w
    by (auto simp: adv_store_def fun_eq_iff update_conv' split: option.split)
  have del: "adv_store (AList.delete (adv_Name a) w) = (adv_store w)(adv_Name a := None)" for a w
    by (auto simp: adv_store_def fun_eq_iff delete_conv' split: option.split)
  have lst: "set (List.filter (\<lambda>a. map_of w (adv_Name a) = Some a \<and> labelled ls a) (map snd w)) =
      {a. adv_store w (adv_Name a) = Some a \<and> labelled ls a}" for w ls
  proof -
    have at: "adv_store w (adv_Name a) = Some a \<longleftrightarrow> map_of w (adv_Name a) = Some a" for a
      by (cases "map_of w (adv_Name a)") (auto simp: adv_store_def)
    have "a \<in> snd ` set w" if "map_of w (adv_Name a) = Some a" for a
      using map_of_SomeD [OF that] by force
    then show ?thesis
      unfolding at by auto
  qed
  have get: "adv_store w n = Some a \<Longrightarrow> adv_Name a = n" "GetAdv (adv_store_api sel) w n = Ok a \<Longrightarrow> adv_store w n = Some a" for w n a
    by (auto simp: adv_store_api_def adv_store_def split: option.splits if_splits)
  show ?thesis
    unfolding bgp_laws_def using get
    by (intro conjI allI impI) (simp_all add: adv_store_api_def upd del flip: lst split: if_splits)
qed


text \<open>
  C40: A selector that cannot be read advertises everything: when the selector of the subnet's pool is
  unreadable (or the pools cannot be listed, or there is none), the advertisement is written without a
  selector, as for a pool that selects every Service.
\<close>

theorem unreadable_selector_advertises_everything:
  assumes "bgp_laws api advs" and "getPoolServiceSelector api w (dp_Name dp) (sns_Name s) = Err e"
    and "reconcileAdvertisement api dp s w = (None, w')"
  shows "\<exists>a. advs w' (adv_for dp s) = Some a \<and> adv_Spec a = Some (buildAdvertisementSpec s [])"
proof -
  have "selector_or_empty api w dp s = []"
    using assms(2) by (simp add: selector_or_empty_def)
  then show ?thesis
    using reconcileAdvertisement_right(2) [OF assms(1,3)] by (auto simp: right_adv_def)
qed

theorem unreadable_selector_advertises_everything_witness:
  "\<exists>a w'. reconcileAdvertisement (adv_store_api (Err ''not an object'')) bgp_dp (hd (getSubnetsWithBGP bgp_dp)) [] = (None, w') \<and>
     adv_store w' ''dp-home-lan'' = Some a \<and> adv_Spec a = Some (buildAdvertisementSpec (hd (getSubnetsWithBGP bgp_dp)) [])"
proof -
  let ?api = "adv_store_api (Err ''not an object'')" and ?s = "hd (getSubnetsWithBGP bgp_dp)"
  have s: "sns_Name ?s = ''lan''" "dp_Name bgp_dp = ''home''"
    by (simp_all add: bgp_dp_def getSubnetsWithBGP_def)
  have sel: "getPoolServiceSelector ?api [] (dp_Name bgp_dp) (sns_Name ?s) = Err (SelectorUnreadable ''p'' ''not an object'')"
    by (simp add: getPoolServiceSelector_def adv_store_api_def s ann_text_def AnnotationName_def AnnotationSubnet_def)
  obtain w' where r: "reconcileAdvertisement ?api bgp_dp ?s [] = (None, w')"
    by (simp add: reconcileAdvertisement_def adv_store_api_def Let_def)
  have "adv_for bgp_dp ?s = ''dp-home-lan''"
    by (simp add: adv_for_def advertisementName_def s)
  then show ?thesis
    using unreadable_selector_advertises_everything [OF adv_store_laws sel r] r by metis
qed

text \<open>
  A delete that fails is not reported: whatever the deletes of a pass answer, the pass returns the
  same errors, so an advertisement the API server refuses to delete stays without a retry.
\<close>

theorem failed_delete_is_not_reported:
  "deleteOrphanedAdvertisements (api\<lparr>DeleteAdv := \<lambda>w a. (Some e, w)\<rparr>) dp expected w =
     (fst (deleteOrphanedAdvertisements api dp expected w), w)"
proof -
  have "fold (\<lambda>adv w. if adv_Name adv \<in> expected then w else snd (DeleteAdv (api\<lparr>DeleteAdv := \<lambda>w a. (Some e, w)\<rparr>) w adv)) xs w = w"
    for xs
    by (induction xs) auto
  then show ?thesis
    by (simp add: deleteOrphanedAdvertisements_def split: sum.split)
qed

end
