(* ===== verification/Pool_Sync.thy ===== *)
theory Pool_Sync
  imports Kubevip Pool_Status API_Versions BGP_Sync
begin

text \<open>
  The pool reconciler (\<^verbatim>\<open>internal/controller/poolsync_controller.go\<close>) over its five backends
  (\<^verbatim>\<open>internal/controller/poolsync_backends.go\<close>): which kinds are served, the draining sibling pools of
  Calico, the update and release of each backend as the reconciler calls them, and the pass over
  every object that answers to a name.  The API server is a record of operations on a cluster.
\<close>

subsection \<open>Backends by kind\<close>

datatype poolBackend =
    ListBackend list_backend GroupVersionKind
  | calicoIPPoolBackend GroupVersionKind
  | kubevipConfigMapBackend GroupVersionKind

definition backend_name :: "poolBackend \<Rightarrow> string" where
  "backend_name b =
     (case b of
        ListBackend CiliumLoadBalancerIPPool _ \<Rightarrow> ''cilium-load-balancer-ip-pool''
      | ListBackend CiliumCIDRGroup _ \<Rightarrow> ''cilium-cidr-group''
      | ListBackend MetalLBIPAddressPool _ \<Rightarrow> ''metallb-ip-address-pool''
      | calicoIPPoolBackend _ \<Rightarrow> ''calico-ip-pool''
      | kubevipConfigMapBackend _ \<Rightarrow> ''kubevip-configmap'')"

definition backend_gvk :: "poolBackend \<Rightarrow> GroupVersionKind" where
  "backend_gvk b =
     (case b of ListBackend _ g \<Rightarrow> g | calicoIPPoolBackend g \<Rightarrow> g | kubevipConfigMapBackend g \<Rightarrow> g)"

definition namespaced :: "poolBackend \<Rightarrow> bool" where
  "namespaced b =
     (case b of
        ListBackend CiliumLoadBalancerIPPool _ \<Rightarrow> False
      | ListBackend CiliumCIDRGroup _ \<Rightarrow> False
      | ListBackend MetalLBIPAddressPool _ \<Rightarrow> True
      | calicoIPPoolBackend _ \<Rightarrow> False
      | kubevipConfigMapBackend _ \<Rightarrow> True)"

definition backendForGVK :: "GroupVersionKind \<Rightarrow> poolBackend option" where
  "backendForGVK g =
     (if gvk_Group g = ciliumAPIGroup \<and> gvk_Kind g = kindCiliumLoadBalancerIPPool then Some (ListBackend CiliumLoadBalancerIPPool g)
      else if gvk_Group g = ciliumAPIGroup \<and> gvk_Kind g = kindCiliumCIDRGroup then Some (ListBackend CiliumCIDRGroup g)
      else if gvk_Group g = metallbAPIGroup \<and> gvk_Kind g = kindMetalLBIPAddressPool then Some (ListBackend MetalLBIPAddressPool g)
      else if gvk_Group g = calicoAPIGroup \<and> gvk_Kind g = kindCalicoIPPool then Some (calicoIPPoolBackend g)
      else if gvk_Group g = '''' \<and> gvk_Kind g = ''ConfigMap'' then Some (kubevipConfigMapBackend g)
      else None)"

fun backends_from :: "GroupVersionKind set \<Rightarrow> GroupVersionKind list \<Rightarrow> poolBackend list" where
  "backends_from seen [] = []"
| "backends_from seen (g # gs) =
     (if g \<in> seen then backends_from seen gs
      else case backendForGVK g of
        None \<Rightarrow> backends_from seen gs
      | Some b \<Rightarrow> b # backends_from (insert g seen) gs)"

definition backendsForGVKs :: "GroupVersionKind list \<Rightarrow> poolBackend list" where
  "backendsForGVKs gvks = backends_from {} gvks"

definition DefaultCiliumLBIPPoolGVK :: GroupVersionKind where
  "DefaultCiliumLBIPPoolGVK = \<lparr>gvk_Group = ciliumAPIGroup, gvk_Version = ''v2'', gvk_Kind = kindCiliumLoadBalancerIPPool\<rparr>"

definition DefaultCiliumCIDRGroupGVK :: GroupVersionKind where
  "DefaultCiliumCIDRGroupGVK = \<lparr>gvk_Group = ciliumAPIGroup, gvk_Version = ''v2'', gvk_Kind = kindCiliumCIDRGroup\<rparr>"

text \<open>
  The reconciler's settings; the state it keeps is that of \<^verbatim>\<open>Pool_Status\<close>.
\<close>

record PoolSyncReconciler =
  psr_CiliumVersions :: "CiliumVersions option"
  psr_BackendGVKs :: "GroupVersionKind list"

definition lbIPPoolGVK :: "PoolSyncReconciler \<Rightarrow> GroupVersionKind" where
  "lbIPPoolGVK r = (case psr_CiliumVersions r of Some v \<Rightarrow> cv_LoadBalancerIPPool v | None \<Rightarrow> DefaultCiliumLBIPPoolGVK)"

definition cidrGroupGVK :: "PoolSyncReconciler \<Rightarrow> GroupVersionKind" where
  "cidrGroupGVK r = (case psr_CiliumVersions r of Some v \<Rightarrow> cv_CIDRGroup v | None \<Rightarrow> DefaultCiliumCIDRGroupGVK)"

definition poolBackends :: "PoolSyncReconciler \<Rightarrow> poolBackend list" where
  "poolBackends r =
     (if psr_BackendGVKs r \<noteq> [] then backendsForGVKs (psr_BackendGVKs r)
      else [ListBackend CiliumLoadBalancerIPPool (lbIPPoolGVK r), ListBackend CiliumCIDRGroup (cidrGroupGVK r)])"

subsection \<open>The cluster\<close>

record NamespacedName =
  nn_Namespace :: string
  nn_Name :: string

definition nn_String :: "NamespacedName \<Rightarrow> string" where
  "nn_String n = nn_Namespace n @ ''/'' @ nn_Name n"

text \<open>
  Objects are unstructured: beside the lists and annotations, their names, kind, labels, text fields and lists of
  texts (with whether the field is there), and the assembly of a new one from kind, name, labels,
  annotations and specification.
\<close>

record 'o object_api =
  obj_lists :: "'o unstructured_api"
  obj_data :: "'o data_api"
  GetName :: "'o \<Rightarrow> string"
  GetNamespace :: "'o \<Rightarrow> string"
  GetGVK :: "'o \<Rightarrow> GroupVersionKind"
  GetLabels :: "'o \<Rightarrow> annotations"
  NestedString :: "'o \<Rightarrow> string list \<Rightarrow> string + string"
  NestedStringSlice :: "'o \<Rightarrow> string list \<Rightarrow> string + string list option"
  NewObject :: "GroupVersionKind \<Rightarrow> string \<Rightarrow> annotations \<Rightarrow> annotations \<Rightarrow> (string \<times> json) list \<Rightarrow> 'o"

record ('w, 'o) pool_api = "'w status_api" +
  GetPool :: "'w \<Rightarrow> GroupVersionKind \<Rightarrow> NamespacedName \<Rightarrow> api_error + 'o"
  UpdatePool :: "'w \<Rightarrow> 'o \<Rightarrow> string option \<times> 'w"
  CreatePool :: "'w \<Rightarrow> 'o \<Rightarrow> string option \<times> 'w"
  DeletePool :: "'w \<Rightarrow> 'o \<Rightarrow> api_error option \<times> 'w"
  ListPools :: "'w \<Rightarrow> GroupVersionKind \<Rightarrow> (string \<times> string) list \<Rightarrow> api_error + 'o list"

text \<open>
  What one pass reads from outside: the clock, the digest of a text in hexadecimal, the order in which
  a map is ranged over, and the text of an error.
\<close>

datatype pool_error =
    ListUpdateFailed sync_error
  | KubevipFailed kubevip_error
  | CalicoFailed calico_error
  | SiblingReadCIDR string
  | SiblingSetCIDR string
  | SiblingUpdateFailed string string
  | SiblingCreateFailed string string
  | SiblingReadFailed string api_error
  | SiblingListFailed api_error
  | SiblingDeleteFailed string api_error
  | AllowedUsesUnreadable string
  | CIDRUnreadable string
  | CIDRSetFailed string
  | CalicoUpdateFailed string
  | ReleaseFailed string pool_error
  | ReleaseUpdateFailed string
  | BuildFailed build_error
  | DynamicPrefixUnreadable api_error
  | PoolUnreadable api_error

record pass_env =
  pe_clock :: clock_env
  pe_stamp :: string
  pe_sha256_hex :: "string \<Rightarrow> string"
  pe_range :: "(string \<times> string) list \<Rightarrow> (string \<times> string) list"
  pe_error_text :: "pool_error \<Rightarrow> string"

subsection \<open>Calico: one pool per draining prefix\<close>

definition LabelCalicoParentPool :: string where "LabelCalicoParentPool = ''dynamic-prefix.io/parent-pool''"

definition siblingPoolName :: "pass_env \<Rightarrow> string \<Rightarrow> string \<Rightarrow> string" where
  "siblingPoolName env parent cidr = parent @ ''-'' @ take 8 (pe_sha256_hex env cidr)"

definition newCalicoSibling :: "'o object_api \<Rightarrow> pass_env \<Rightarrow> GroupVersionKind \<Rightarrow> 'o \<Rightarrow> string \<Rightarrow> string \<Rightarrow> 'o" where
  "newCalicoSibling oa env g parent name cidr =
     (let uses = (case NestedStringSlice oa parent [fieldSpec, ''allowedUses''] of
                    Inr (Some us) \<Rightarrow> [(''allowedUses'', JArr (map JStr us))]
                  | _ \<Rightarrow> [])
      in NewObject oa g name
           [LabelManagedBy \<mapsto> LabelManagedByValue, LabelCalicoParentPool \<mapsto> GetName oa parent,
            LabelDynamicPrefixName \<mapsto> ann_text (GetAnnotations (obj_lists oa) parent) AnnotationName]
           [AnnotationLastSync \<mapsto> pe_stamp env]
           ((''cidr'', JStr cidr) # uses))"

text \<open>The siblings that should exist, by name; a prefix with no exact CIDR is left out.\<close>

definition expected_siblings :: "pass_env \<Rightarrow> string \<Rightarrow> poolConfiguration list \<Rightarrow> (string \<times> string) list" where
  "expected_siblings env parent configs =
     fold (\<lambda>c es. case calicoCIDRForConfig c of
             Inl _ \<Rightarrow> es
           | Inr cidr \<Rightarrow> AList.update (siblingPoolName env parent cidr) cidr es) configs []"

definition cluster_name :: "string \<Rightarrow> NamespacedName" where
  "cluster_name n = \<lparr>nn_Namespace = [], nn_Name = n\<rparr>"

text \<open>One expected sibling: left alone, repointed or created.\<close>

definition ensure_sibling ::
  "('w, 'o) pool_api \<Rightarrow> 'o object_api \<Rightarrow> pass_env \<Rightarrow> GroupVersionKind \<Rightarrow> 'o \<Rightarrow> string \<Rightarrow> string \<Rightarrow> 'w \<Rightarrow>
     bool \<times> pool_error option \<times> 'w" where
  "ensure_sibling api oa env g parent name cidr w =
     (case GetPool api w g (cluster_name name) of
        Inr sibling \<Rightarrow>
          (case NestedString oa sibling [fieldSpec, ''cidr''] of
             Inl e \<Rightarrow> (False, Some (SiblingReadCIDR e), w)
           | Inr existing \<Rightarrow>
               if existing = cidr then (False, None, w)
               else (case SetNestedField (obj_lists oa) sibling (JStr cidr) [fieldSpec, ''cidr''] of
                   Inl e \<Rightarrow> (False, Some (SiblingSetCIDR e), w)
                 | Inr sibling' \<Rightarrow>
                     (case UpdatePool api w sibling' of
                        (Some e, w) \<Rightarrow> (False, Some (SiblingUpdateFailed name e), w)
                      | (None, w) \<Rightarrow> (True, None, w))))
      | Inl NotFoundError \<Rightarrow>
          (case CreatePool api w (newCalicoSibling oa env g parent name cidr) of
             (Some e, w) \<Rightarrow> (False, Some (SiblingCreateFailed name e), w)
           | (None, w) \<Rightarrow> (True, None, w))
      | Inl e \<Rightarrow> (False, Some (SiblingReadFailed name e), w))"

fun ensure_siblings ::
  "('w, 'o) pool_api \<Rightarrow> 'o object_api \<Rightarrow> pass_env \<Rightarrow> GroupVersionKind \<Rightarrow> 'o \<Rightarrow> (string \<times> string) list \<Rightarrow> bool \<Rightarrow> 'w \<Rightarrow>
     bool \<times> pool_error option \<times> 'w" where
  "ensure_siblings api oa env g parent [] changed w = (changed, None, w)"
| "ensure_siblings api oa env g parent ((name, cidr) # es) changed w =
     (case ensure_sibling api oa env g parent name cidr w of
        (_, Some e, w) \<Rightarrow> (changed, Some e, w)
      | (c, None, w) \<Rightarrow> ensure_siblings api oa env g parent es (changed \<or> c) w)"

fun delete_siblings ::
  "('w, 'o) pool_api \<Rightarrow> 'o object_api \<Rightarrow> string set \<Rightarrow> 'o list \<Rightarrow> bool \<Rightarrow> 'w \<Rightarrow> bool \<times> pool_error option \<times> 'w" where
  "delete_siblings api oa keep [] changed w = (changed, None, w)"
| "delete_siblings api oa keep (item # items) changed w =
     (if GetName oa item \<in> keep then delete_siblings api oa keep items changed w
      else case DeletePool api w item of
        (Some (OtherError e), w) \<Rightarrow> (changed, Some (SiblingDeleteFailed (GetName oa item) (OtherError e)), w)
      | (_, w) \<Rightarrow> delete_siblings api oa keep items True w)"

definition syncDrainingSiblings ::
  "('w, 'o) pool_api \<Rightarrow> 'o object_api \<Rightarrow> pass_env \<Rightarrow> GroupVersionKind \<Rightarrow> 'o \<Rightarrow> poolConfiguration list \<Rightarrow> 'w \<Rightarrow>
     bool \<times> pool_error option \<times> 'w" where
  "syncDrainingSiblings api oa env g parent drainingConfigs w =
     (let expected = expected_siblings env (GetName oa parent) drainingConfigs in
      case ensure_siblings api oa env g parent (pe_range env expected) False w of
        (changed, Some e, w) \<Rightarrow> (changed, Some e, w)
      | (changed, None, w) \<Rightarrow>
          (case ListPools api w (ListGVK g)
                  [(LabelManagedBy, LabelManagedByValue), (LabelCalicoParentPool, GetName oa parent)] of
             Inl e \<Rightarrow> (changed, Some (SiblingListFailed e), w)
           | Inr items \<Rightarrow> delete_siblings api oa (fst ` set expected) items changed w))"

subsection \<open>Update and release of a backend\<close>

text \<open>The results: whether something changed, the error, the cluster and the object as the code left it.\<close>

definition calico_update ::
  "('w, 'o) pool_api \<Rightarrow> 'o object_api \<Rightarrow> pass_env \<Rightarrow> GroupVersionKind \<Rightarrow> 'o \<Rightarrow> poolConfiguration list \<Rightarrow> 'w \<Rightarrow>
     bool \<times> pool_error option \<times> 'w \<times> 'o" where
  "calico_update api oa env g pool configs w =
     (case configs of
        [] \<Rightarrow> (False, None, w, pool)
      | current # draining \<Rightarrow>
     (case calicoCIDRForConfig current of
        Inl e \<Rightarrow> (False, Some (CalicoFailed e), w, pool)
      | Inr cidr \<Rightarrow>
     (case syncDrainingSiblings api oa env g pool draining w of
        (_, Some e, w) \<Rightarrow> (False, Some e, w, pool)
      | (siblingsChanged, None, w) \<Rightarrow>
     (case NestedStringSlice oa pool [fieldSpec, ''allowedUses''] of
        Inl e \<Rightarrow> (False, Some (AllowedUsesUnreadable e), w, pool)
      | Inr _ \<Rightarrow>
     (case NestedString oa pool [fieldSpec, ''cidr''] of
        Inl e \<Rightarrow> (False, Some (CIDRUnreadable e), w, pool)
      | Inr currentCIDR \<Rightarrow>
          let recorded = (ann_text (GetAnnotations (obj_lists oa) pool) AnnotationManagedCIDR = cidr) in
          if currentCIDR = cidr \<and> recorded then (siblingsChanged, None, w, pool)
          else (case SetNestedField (obj_lists oa) pool (JStr cidr) [fieldSpec, ''cidr''] of
              Inl e \<Rightarrow> (False, Some (CIDRSetFailed e), w, pool)
            | Inr pool1 \<Rightarrow>
                let pool2 = setPoolAnnotation (obj_lists oa) pool1 AnnotationManagedCIDR (formatOwnershipRecord [cidr]);
                    pool3 = setLastSyncAnnotation (obj_lists oa) (pe_stamp env) pool2;
                    (err, w) = UpdatePool api w pool3
                in (True, map_option CalicoUpdateFailed err, w, pool3)))))))"

definition calico_release ::
  "('w, 'o) pool_api \<Rightarrow> 'o object_api \<Rightarrow> pass_env \<Rightarrow> GroupVersionKind \<Rightarrow> 'o \<Rightarrow> 'w \<Rightarrow> bool \<times> pool_error option \<times> 'w \<times> 'o" where
  "calico_release api oa env g pool w =
     (case syncDrainingSiblings api oa env g pool [] w of
        (changed, Some e, w) \<Rightarrow> (changed, Some e, w, pool)
      | (changed, None, w) \<Rightarrow>
          let ann = GetAnnotations (obj_lists oa) pool in
          if ann AnnotationManagedCIDR \<noteq> None
          then (True, None, w, SetAnnotations (obj_lists oa) pool (ann(AnnotationManagedCIDR := None)))
          else (changed, None, w, pool))"

text \<open>
  The list backends and kube-vip write through \<^verbatim>\<open>r.Update\<close> when they report a change, and only then: the
  object's \<^const>\<open>UpdateObject\<close> is the server's answer, and its effect on the cluster follows.
\<close>

definition lists_on :: "('w, 'o) pool_api \<Rightarrow> 'o object_api \<Rightarrow> 'w \<Rightarrow> 'o unstructured_api" where
  "lists_on api oa w = (obj_lists oa)\<lparr>UpdateObject := \<lambda>pool. fst (UpdatePool api w pool)\<rparr>"

definition written :: "('w, 'o) pool_api \<Rightarrow> ('e \<Rightarrow> pool_error) \<Rightarrow> 'w \<Rightarrow> bool \<times> 'e option \<times> 'o \<Rightarrow> bool \<times> pool_error option \<times> 'w \<times> 'o" where
  "written api f w res =
     (case res of (changed, err, pool') \<Rightarrow>
        (changed, map_option f err, if changed then snd (UpdatePool api w pool') else w, pool'))"

definition backend_update ::
  "('w, 'o) pool_api \<Rightarrow> 'o object_api \<Rightarrow> pass_env \<Rightarrow> poolBackend \<Rightarrow> 'o \<Rightarrow> poolConfiguration list \<Rightarrow> ipprefix list \<Rightarrow> 'w \<Rightarrow>
     bool \<times> pool_error option \<times> 'w \<times> 'o" where
  "backend_update api oa env b pool configs managed w =
     (case b of
        ListBackend lb g \<Rightarrow> written api ListUpdateFailed w (list_update lb (lists_on api oa w) (pe_stamp env) pool configs managed)
      | calicoIPPoolBackend g \<Rightarrow> calico_update api oa env g pool configs w
      | kubevipConfigMapBackend g \<Rightarrow>
          written api KubevipFailed w (kubevip_update (lists_on api oa w) (obj_data oa) (pe_stamp env) pool configs managed))"

definition backend_release ::
  "('w, 'o) pool_api \<Rightarrow> 'o object_api \<Rightarrow> pass_env \<Rightarrow> poolBackend \<Rightarrow> 'o \<Rightarrow> 'w \<Rightarrow> bool \<times> pool_error option \<times> 'w \<times> 'o" where
  "backend_release api oa env b pool w =
     (case b of
        ListBackend lb g \<Rightarrow>
          (case list_release lb (obj_lists oa) pool of (changed, err, pool') \<Rightarrow> (changed, map_option ListUpdateFailed err, w, pool'))
      | calicoIPPoolBackend g \<Rightarrow> calico_release api oa env g pool w
      | kubevipConfigMapBackend g \<Rightarrow>
          (case kubevip_release (obj_lists oa) (obj_data oa) pool of (changed, err, pool') \<Rightarrow> (changed, map_option KubevipFailed err, w, pool')))"

subsection \<open>One pool\<close>

definition eventReasonPoolUpdated :: string where "eventReasonPoolUpdated = ''PoolUpdated''"
definition eventReasonPoolReleased :: string where "eventReasonPoolReleased = ''PoolReleased''"
definition eventReasonPoolSyncFailed :: string where "eventReasonPoolSyncFailed = ''PoolSyncFailed''"

text \<open>The cluster, the memory of failing pools, and the events recorded so far.\<close>

record 'w sync_world =
  sw_cluster :: 'w
  sw_state :: poolSyncState
  sw_events :: "k_event list"

definition on_state :: "('w \<times> poolSyncState \<Rightarrow> 'w \<times> poolSyncState) \<Rightarrow> 'w sync_world \<Rightarrow> 'w sync_world" where
  "on_state f sw = (let (w, s) = f (sw_cluster sw, sw_state sw) in sw\<lparr>sw_cluster := w, sw_state := s\<rparr>)"

definition pool_event :: "k_event \<Rightarrow> 'w sync_world \<Rightarrow> 'w sync_world" where
  "pool_event e sw = sw\<lparr>sw_events := sw_events sw @ [e]\<rparr>"

definition stray_keys :: "string list" where
  "stray_keys = [AnnotationManagedBlocks, AnnotationManagedCIDRs, AnnotationManagedAddresses, AnnotationManagedCIDR,
     AnnotationManagedKubevipEntries, AnnotationLastSync]"

definition without_keys :: "string list \<Rightarrow> annotations \<Rightarrow> annotations" where
  "without_keys ks ann = fold (\<lambda>k ann. ann(k := None)) ks ann"

definition object_key :: "'o object_api \<Rightarrow> 'o \<Rightarrow> NamespacedName" where
  "object_key oa pool = \<lparr>nn_Namespace = GetNamespace oa pool, nn_Name = GetName oa pool\<rparr>"

definition releasePool ::
  "('w, 'o) pool_api \<Rightarrow> 'o object_api \<Rightarrow> pass_env \<Rightarrow> poolBackend \<Rightarrow> 'o \<Rightarrow> string \<Rightarrow> 'w sync_world \<Rightarrow>
     pool_error option \<times> 'w sync_world" where
  "releasePool api oa env b pool reason sw =
     (case backend_release api oa env b pool (sw_cluster sw) of
        (_, Some e, w, _) \<Rightarrow> (Some (ReleaseFailed (GetName oa pool) e), sw\<lparr>sw_cluster := w\<rparr>)
      | (changed, None, w, pool1) \<Rightarrow>
          let sw1 = sw\<lparr>sw_cluster := w\<rparr>;
              ann = GetAnnotations (obj_lists oa) pool1;
              strayRecords = list_ex (\<lambda>k. ann k \<noteq> None) stray_keys
          in if \<not> changed \<and> \<not> strayRecords then (None, sw1)
             else
               let pool2 = SetAnnotations (obj_lists oa) pool1 (without_keys stray_keys ann);
                   poolKey = nn_String (object_key oa pool2);
                   (err, w2) = UpdatePool api w pool2;
                   sw2 = sw1\<lparr>sw_cluster := w2\<rparr>
               in (case err of
                     Some e \<Rightarrow> (Some (ReleaseUpdateFailed e), sw2)
                   | None \<Rightarrow>
                       (None,
                        pool_event (NormalEvent eventReasonPoolReleased
                            (''Released the entries this operator wrote to '' @ backend_name b @ '' pool '' @ GetName oa pool2 @ '': '' @ reason))
                          (on_state (releasePoolsSyncedEntries api (pe_clock env)
                             (\<lambda>key. psk_backend key = backend_name b \<and> psk_pool key = poolKey)) sw2))))"

definition sync_failed ::
  "('w, 'o) pool_api \<Rightarrow> pass_env \<Rightarrow> string \<Rightarrow> poolStateKey \<Rightarrow> string \<Rightarrow> pool_error \<Rightarrow> 'w sync_world \<Rightarrow> 'w sync_world" where
  "sync_failed api env dpName stateKey message err sw =
     on_state (updatePoolsSyncedCondition api (pe_clock env) dpName stateKey (Some (pe_error_text env err)))
       (pool_event (WarningEvent eventReasonPoolSyncFailed message) sw)"

text \<open>
  A pass on one object: its error, or the delay after which the pass is to be repeated (none is 0).
\<close>

definition syncPool ::
  "('w, 'o) pool_api \<Rightarrow> 'o object_api \<Rightarrow> pass_env \<Rightarrow> NamespacedName \<Rightarrow> 'o \<Rightarrow> poolBackend \<Rightarrow> 'w sync_world \<Rightarrow>
     (pool_error + duration) \<times> 'w sync_world" where
  "syncPool api oa env req pool b sw =
     (let ann = GetAnnotations (obj_lists oa) pool;
          release = (\<lambda>reason. case releasePool api oa env b pool reason sw of
             (Some e, sw) \<Rightarrow> (Err e, sw) | (None, sw) \<Rightarrow> (Ok 0, sw))
      in case ann AnnotationName of
        None \<Rightarrow>
          if hasOwnershipRecord ann then release ''the dynamic-prefix.io/name annotation was removed''
          else (Ok 0, sw)
      | Some dpName \<Rightarrow>
          let stateKey = \<lparr>psk_backend = backend_name b, psk_pool = nn_String req\<rparr> in
          (case GetDynamicPrefix api (sw_cluster sw) dpName of
             Inl NotFoundError \<Rightarrow>
               if hasOwnershipRecord ann then release (''DynamicPrefix '' @ dpName @ '' no longer exists'') else (Ok 0, sw)
           | Inl e \<Rightarrow> (Err (DynamicPrefixUnreadable e), sw)
           | Inr dp \<Rightarrow>
               if st_CurrentPrefix (dp_Status dp) = [] then (Ok (30 * second), sw)
               else
                 (case buildPoolConfigurations dp (ann AnnotationAddressRange) (ann AnnotationSubnet) of
                    Inl e \<Rightarrow>
                      (Err (BuildFailed e),
                       sync_failed api env dpName stateKey
                         (''Cannot build configurations for '' @ backend_name b @ '' pool '' @ nn_Name req @ '' from DynamicPrefix '' @ dpName @
                          '': '' @ pe_error_text env (BuildFailed e)) (BuildFailed e) sw)
                  | Inr configs \<Rightarrow>
                      (case backend_update api oa env b pool configs (collectManagedPrefixes dp) (sw_cluster sw) of
                         (_, Some e, w, _) \<Rightarrow>
                           (Err e,
                            sync_failed api env dpName stateKey
                              (''Cannot update '' @ backend_name b @ '' pool '' @ nn_Name req @ '' from DynamicPrefix '' @ dpName @
                               '': '' @ pe_error_text env e) e (sw\<lparr>sw_cluster := w\<rparr>))
                       | (updated, None, w, _) \<Rightarrow>
                           let sw1 = sw\<lparr>sw_cluster := w\<rparr>;
                               sw2 = (if updated then
                                  pool_event (NormalEvent eventReasonPoolUpdated
                                    (''Synced '' @ backend_name b @ '' pool '' @ nn_Name req @ '' from DynamicPrefix '' @ dpName @ '' with '' @
                                     dec (length configs) @ '' managed configuration(s)'')) sw1
                                  else sw1)
                           in (Ok 0, on_state (updatePoolsSyncedCondition api (pe_clock env) dpName stateKey None) sw2)))))"

subsection \<open>The pass over a name\<close>

fun get_pools ::
  "('w, 'o) pool_api \<Rightarrow> 'w \<Rightarrow> NamespacedName \<Rightarrow> poolBackend list \<Rightarrow> ('o \<times> poolBackend) list \<Rightarrow> api_error option \<Rightarrow>
     ('o \<times> poolBackend) list \<times> api_error option" where
  "get_pools api w name [] matches lastErr = (matches, lastErr)"
| "get_pools api w name (b # bs) matches lastErr =
     (if namespaced b \<noteq> (nn_Namespace name \<noteq> []) then get_pools api w name bs matches lastErr
      else case GetPool api w (backend_gvk b) name of
        Inl NotFoundError \<Rightarrow> get_pools api w name bs matches lastErr
      | Inl e \<Rightarrow> get_pools api w name bs matches (Some e)
      | Inr pool \<Rightarrow> get_pools api w name bs (matches @ [(pool, b)]) lastErr)"

definition getPools ::
  "('w, 'o) pool_api \<Rightarrow> PoolSyncReconciler \<Rightarrow> 'w \<Rightarrow> NamespacedName \<Rightarrow> ('o \<times> poolBackend) list \<times> api_error option" where
  "getPools api r w name =
     (let (matches, lastErr) = get_pools api w name (poolBackends r) [] None
      in if matches = [] then ([], lastErr) else (matches, None))"

definition sooner :: "duration \<Rightarrow> duration \<Rightarrow> duration" where
  "sooner res acc = (if res > 0 \<and> (acc = 0 \<or> res < acc) then res else acc)"

fun sync_matches ::
  "('w, 'o) pool_api \<Rightarrow> 'o object_api \<Rightarrow> pass_env \<Rightarrow> NamespacedName \<Rightarrow> ('o \<times> poolBackend) list \<Rightarrow> pool_error list \<Rightarrow> duration \<Rightarrow>
     'w sync_world \<Rightarrow> pool_error list \<times> duration \<times> 'w sync_world" where
  "sync_matches api oa env req [] errs result sw = (errs, result, sw)"
| "sync_matches api oa env req ((pool, b) # ms) errs result sw =
     (case syncPool api oa env req pool b sw of
        (Inl e, sw) \<Rightarrow> sync_matches api oa env req ms (errs @ [e]) result sw
      | (Inr res, sw) \<Rightarrow> sync_matches api oa env req ms errs (sooner res result) sw)"

text \<open>The errors of a pass are joined in order; without any, the delay until the next one.\<close>

definition pool_Reconcile ::
  "('w, 'o) pool_api \<Rightarrow> 'o object_api \<Rightarrow> pass_env \<Rightarrow> PoolSyncReconciler \<Rightarrow> NamespacedName \<Rightarrow> 'w sync_world \<Rightarrow>
     (pool_error list + duration) \<times> 'w sync_world" where
  "pool_Reconcile api oa env r req sw =
     (case getPools api r (sw_cluster sw) req of
        (_, Some NotFoundError) \<Rightarrow> (Ok 0, sw)
      | (_, Some e) \<Rightarrow> (Err [PoolUnreadable e], sw)
      | (pools, None) \<Rightarrow>
          if pools = [] then
            (Ok 0, on_state (releasePoolsSyncedEntries api (pe_clock env) (\<lambda>key. psk_pool key = nn_String req)) sw)
          else
            let (errs, result, sw) = sync_matches api oa env req pools [] 0 sw
            in (if errs \<noteq> [] then Err errs else Ok result, sw))"

text \<open>Which objects are watched, and which passes a change of a DynamicPrefix asks for.\<close>

definition pool_watch :: "annotations \<Rightarrow> bool" where
  "pool_watch ann \<longleftrightarrow> ann AnnotationName \<noteq> None \<or> hasOwnershipRecord ann"

definition findReferencingPools :: "('w, 'o) pool_api \<Rightarrow> 'o object_api \<Rightarrow> PoolSyncReconciler \<Rightarrow> 'w \<Rightarrow> string \<Rightarrow> NamespacedName list" where
  "findReferencingPools api oa r w dpName =
     concat (map (\<lambda>b. case ListPools api w (ListGVK (backend_gvk b)) [] of
        Inl _ \<Rightarrow> []
      | Inr pools \<Rightarrow> map (object_key oa)
          (List.filter (\<lambda>pool. ann_text (GetAnnotations (obj_lists oa) pool) AnnotationName = dpName) pools)) (poolBackends r))"

subsection \<open>What is relied on\<close>

text \<open>
  The accessors of an unstructured object: a text set is the text read, and neither setting a field of
  the specification, the annotations or the data changes the object's identity.
\<close>

definition same_identity :: "'o object_api \<Rightarrow> 'o \<Rightarrow> 'o \<Rightarrow> bool" where
  "same_identity oa p q \<longleftrightarrow>
     GetName oa p = GetName oa q \<and> GetNamespace oa p = GetNamespace oa q \<and> GetGVK oa p = GetGVK oa q \<and> GetLabels oa p = GetLabels oa q"

definition object_laws :: "'o object_api \<Rightarrow> bool" where
  "object_laws oa \<longleftrightarrow>
     unstructured_laws (obj_lists oa) \<and>
     (\<forall>p v fs q. SetNestedField (obj_lists oa) p v (fieldSpec # fs) = Ok q \<longrightarrow> same_identity oa q p) \<and>
     (\<forall>p c fs q. SetNestedField (obj_lists oa) p (JStr c) (fieldSpec # fs) = Ok q \<longrightarrow> NestedString oa q (fieldSpec # fs) = Ok c) \<and>
     (\<forall>p m. same_identity oa (SetAnnotations (obj_lists oa) p m) p) \<and>
     (\<forall>p m fs. NestedString oa (SetAnnotations (obj_lists oa) p m) (fieldSpec # fs) = NestedString oa p (fieldSpec # fs)) \<and>
     (\<forall>p data q. SetNestedStringMap (obj_data oa) p data = Ok q \<longrightarrow> same_identity oa q p) \<and>
     (\<forall>g n ls ann spec. let p = NewObject oa g n ls ann spec in
        GetName oa p = n \<and> GetNamespace oa p = [] \<and> GetGVK oa p = g \<and> GetLabels oa p = ls \<and>
        (\<forall>k c. map_of spec k = Some (JStr c) \<longrightarrow> NestedString oa p [fieldSpec, k] = Ok c))"

lemma object_lawsD:
  assumes "object_laws oa"
  shows "unstructured_laws (obj_lists oa)"
    and "SetNestedField (obj_lists oa) p v (fieldSpec # fs) = Ok q \<Longrightarrow> same_identity oa q p"
    and "SetNestedField (obj_lists oa) p (JStr c) (fieldSpec # fs) = Ok q \<Longrightarrow> NestedString oa q (fieldSpec # fs) = Ok c"
    and "same_identity oa (SetAnnotations (obj_lists oa) p m) p"
    and "NestedString oa (SetAnnotations (obj_lists oa) p m) (fieldSpec # fs) = NestedString oa p (fieldSpec # fs)"
    and "SetNestedStringMap (obj_data oa) p data = Ok q \<Longrightarrow> same_identity oa q p"
    and "GetName oa (NewObject oa g n ls ann spec) = n" and "GetNamespace oa (NewObject oa g n ls ann spec) = []"
    and "GetGVK oa (NewObject oa g n ls ann spec) = g" and "GetLabels oa (NewObject oa g n ls ann spec) = ls"
    and "map_of spec k = Some (JStr c) \<Longrightarrow> NestedString oa (NewObject oa g n ls ann spec) [fieldSpec, k] = Ok c"
  using assms unfolding object_laws_def Let_def by metis+

text \<open>
  The cluster as a store of objects by kind and name: what a read finds, what a list holds, and what
  an accepted write leaves; writes of objects do not touch the DynamicPrefix resources, and conditions
  do not touch objects.
\<close>

type_synonym 'o store = "GroupVersionKind \<Rightarrow> NamespacedName \<rightharpoonup> 'o"

definition put :: "'o object_api \<Rightarrow> 'o \<Rightarrow> 'o option \<Rightarrow> 'o store \<Rightarrow> 'o store" where
  "put oa p v st = st(GetGVK oa p := (st (GetGVK oa p))(object_key oa p := v))"

definition matches :: "'o object_api \<Rightarrow> (string \<times> string) list \<Rightarrow> 'o \<Rightarrow> bool" where
  "matches oa ls p \<longleftrightarrow> (\<forall>(k, v) \<in> set ls. GetLabels oa p k = Some v)"

definition store_reads :: "('w, 'o) pool_api \<Rightarrow> 'o object_api \<Rightarrow> ('w \<Rightarrow> 'o store) \<Rightarrow> bool" where
  "store_reads api oa st \<longleftrightarrow>
     (\<forall>w g n p. GetPool api w g n = Ok p \<longrightarrow> st w g n = Some p) \<and>
     (\<forall>w g n. GetPool api w g n = Err NotFoundError \<longrightarrow> st w g n = None) \<and>
     (\<forall>w g n p. st w g n = Some p \<longrightarrow> GetGVK oa p = g \<and> object_key oa p = n) \<and>
     (\<forall>w g ls ps. ListPools api w (ListGVK g) ls = Ok ps \<longrightarrow> set ps = {p. \<exists>n. st w g n = Some p \<and> matches oa ls p})"

text \<open>What a write may answer, and the store it leaves.\<close>

definition writes_as :: "('w \<Rightarrow> 'o store) \<Rightarrow> 'w \<Rightarrow> 'o store \<Rightarrow> 'e option \<times> 'w \<Rightarrow> bool" where
  "writes_as st w st' res \<longleftrightarrow> st (snd res) = (if fst res = None then st' else st w)"

definition store_writes :: "('w, 'o) pool_api \<Rightarrow> 'o object_api \<Rightarrow> ('w \<Rightarrow> 'o store) \<Rightarrow> bool" where
  "store_writes api oa st \<longleftrightarrow>
     (\<forall>w p. writes_as st w (put oa p (Some p) (st w)) (UpdatePool api w p)) \<and>
     (\<forall>w p. writes_as st w (put oa p (Some p) (st w)) (CreatePool api w p)) \<and>
     (\<forall>w p. writes_as st w (put oa p None (st w)) (DeletePool api w p)) \<and>
     (\<forall>w p. fst (DeletePool api w p) = Some NotFoundError \<longrightarrow> st w (GetGVK oa p) (object_key oa p) = None)"

definition store_apart :: "('w, 'o) pool_api \<Rightarrow> ('w \<Rightarrow> 'o store) \<Rightarrow> bool" where
  "store_apart api st \<longleftrightarrow>
     (\<forall>w d c. st (snd (ApplyCondition api w d c)) = st w) \<and>
     (\<forall>w p d. GetDynamicPrefix api (snd (UpdatePool api w p)) d = GetDynamicPrefix api w d)"

definition store_laws :: "('w, 'o) pool_api \<Rightarrow> 'o object_api \<Rightarrow> ('w \<Rightarrow> 'o store) \<Rightarrow> bool" where
  "store_laws api oa st \<longleftrightarrow> store_reads api oa st \<and> store_writes api oa st \<and> store_apart api st"

lemma store_readsD:
  assumes "store_laws api oa st"
  shows "GetPool api w g n = Ok p \<Longrightarrow> st w g n = Some p"
    and "GetPool api w g n = Err NotFoundError \<Longrightarrow> st w g n = None"
    and "st w g n = Some p \<Longrightarrow> GetGVK oa p = g \<and> object_key oa p = n"
    and "ListPools api w (ListGVK g) ls = Ok ps \<Longrightarrow> set ps = {p. \<exists>n. st w g n = Some p \<and> matches oa ls p}"
  using assms unfolding store_laws_def store_reads_def by metis+

lemma store_writesD:
  assumes "store_laws api oa st"
  shows "UpdatePool api w p = (err, w') \<Longrightarrow> st w' = (if err = None then put oa p (Some p) (st w) else st w)"
    and "CreatePool api w p = (err, w') \<Longrightarrow> st w' = (if err = None then put oa p (Some p) (st w) else st w)"
    and "DeletePool api w p = (derr, w') \<Longrightarrow> st w' = (if derr = None then put oa p None (st w) else st w)"
    and "DeletePool api w p = (Some NotFoundError, w') \<Longrightarrow> st w (GetGVK oa p) (object_key oa p) = None"
  using assms unfolding store_laws_def store_writes_def writes_as_def by (metis fst_conv snd_conv)+

lemma store_apartD:
  assumes "store_laws api oa st"
  shows "st (snd (ApplyCondition api w d c)) = st w"
    and "GetDynamicPrefix api (snd (UpdatePool api w p)) d = GetDynamicPrefix api w d"
  using assms unfolding store_laws_def store_apart_def by metis+

lemma put_same [simp]: "put oa p v st (GetGVK oa p) (object_key oa p) = v"
  by (simp add: put_def)

lemma put_other: "g \<noteq> GetGVK oa p \<or> n \<noteq> object_key oa p \<Longrightarrow> put oa p v st g n = st g n"
  by (auto simp: put_def)

lemma put_key: "GetGVK oa p = g \<Longrightarrow> object_key oa p = k \<Longrightarrow> put oa p v st g n = (if n = k then v else st g n)"
  by (simp add: put_def)

lemma same_identity_key:
  assumes "same_identity oa q p"
  shows "object_key oa q = object_key oa p" "GetGVK oa q = GetGVK oa p" "GetName oa q = GetName oa p" "GetLabels oa q = GetLabels oa p"
    "GetNamespace oa q = GetNamespace oa p"
  using assms by (simp_all add: same_identity_def object_key_def)

lemma same_identity_trans: "same_identity oa r q \<Longrightarrow> same_identity oa q p \<Longrightarrow> same_identity oa r p"
  by (simp add: same_identity_def)

lemma same_identity_refl [simp]: "same_identity oa p p"
  by (simp add: same_identity_def)

lemma annotated_identity:
  assumes "object_laws oa"
  shows "same_identity oa (setPoolAnnotation (obj_lists oa) p k v) p"
    and "NestedString oa (setPoolAnnotation (obj_lists oa) p k v) (fieldSpec # fs) = NestedString oa p (fieldSpec # fs)"
  by (simp_all add: setPoolAnnotation_def object_lawsD(4,5) [OF assms])

subsection \<open>Siblings\<close>

text \<open>What one expected sibling's step leaves: the sibling with its CIDR, and everything else as it was.\<close>

lemma ensure_sibling_ok:
  assumes "object_laws oa" and "store_laws api oa st"
    and "ensure_sibling api oa env g parent name cidr w = (c, None, w')"
  shows "(\<exists>p. st w' g (cluster_name name) = Some p \<and> NestedString oa p [fieldSpec, ''cidr''] = Ok cidr)"
    and "g' \<noteq> g \<or> n \<noteq> cluster_name name \<Longrightarrow> st w' g' n = st w g' n"
proof -
  note ol = object_lawsD [OF assms(1)] and sr = store_readsD [OF assms(2)] and sw = store_writesD [OF assms(2)]
  have both: "(\<exists>p. st w' g (cluster_name name) = Some p \<and> NestedString oa p [fieldSpec, ''cidr''] = Ok cidr) \<and>
     (\<forall>g' n. g' \<noteq> g \<or> n \<noteq> cluster_name name \<longrightarrow> st w' g' n = st w g' n)"
  proof (cases "GetPool api w g (cluster_name name)")
    case (Inr sib)
    note key = sr(3) [OF sr(1) [OF Inr]]
    obtain existing where ex: "NestedString oa sib [fieldSpec, ''cidr''] = Ok existing"
      using assms(3) Inr by (cases "NestedString oa sib [fieldSpec, ''cidr'']") (auto simp: ensure_sibling_def)
    show ?thesis
    proof (cases "existing = cidr")
      case True
      then show ?thesis
        using assms(3) Inr ex sr(1) [OF Inr] by (auto simp: ensure_sibling_def)
    next
      case False
      then obtain sib' where set: "SetNestedField (obj_lists oa) sib (JStr cidr) [fieldSpec, ''cidr''] = Ok sib'"
        using assms(3) Inr ex by (cases "SetNestedField (obj_lists oa) sib (JStr cidr) [fieldSpec, ''cidr'']") (auto simp: ensure_sibling_def)
      then have up: "UpdatePool api w sib' = (None, w')"
        using assms(3) Inr ex False by (auto simp: ensure_sibling_def split: prod.splits option.splits)
      have id: "object_key oa sib' = cluster_name name" "GetGVK oa sib' = g"
        using same_identity_key [OF ol(2) [OF set]] key by simp_all
      show ?thesis
        unfolding sw(1) [OF up] using ol(3) [OF set] put_key [OF id(2,1)] put_other [of _ oa sib'] id by auto
    qed
  next
    case (Inl e)
    then have e: "e = NotFoundError"
      using assms(3) by (cases e) (auto simp: ensure_sibling_def)
    let ?p = "newCalicoSibling oa env g parent name cidr"
    have cr: "CreatePool api w ?p = (None, w')"
      using assms(3) Inl e by (auto simp: ensure_sibling_def split: prod.splits option.splits)
    have id: "object_key oa ?p = cluster_name name" "GetGVK oa ?p = g" "NestedString oa ?p [fieldSpec, ''cidr''] = Ok cidr"
      by (simp_all add: newCalicoSibling_def Let_def object_key_def cluster_name_def ol(7-11))
    then show ?thesis
      unfolding sw(2) [OF cr] using put_key [OF id(2,1)] put_other [of _ oa ?p] by auto
  qed
  then show "\<exists>p. st w' g (cluster_name name) = Some p \<and> NestedString oa p [fieldSpec, ''cidr''] = Ok cidr"
    "g' \<noteq> g \<or> n \<noteq> cluster_name name \<Longrightarrow> st w' g' n = st w g' n"
    by blast+
qed

definition holds_cidr :: "'o object_api \<Rightarrow> 'o store \<Rightarrow> GroupVersionKind \<Rightarrow> string \<Rightarrow> string \<Rightarrow> bool" where
  "holds_cidr oa st g name cidr \<longleftrightarrow>
     (\<exists>p. st g (cluster_name name) = Some p \<and> NestedString oa p [fieldSpec, ''cidr''] = Ok cidr)"

lemma cluster_name_inj [simp]: "cluster_name a = cluster_name b \<longleftrightarrow> a = b"
  by (simp add: cluster_name_def)

lemma ensure_siblings_ok:
  assumes "object_laws oa" and "store_laws api oa st" and "distinct (map fst es)"
    and "ensure_siblings api oa env g parent es ch w = (ch', None, w')"
  shows "\<forall>e \<in> set es. holds_cidr oa (st w') g (fst e) (snd e)"
    and "g' \<noteq> g \<or> n \<notin> cluster_name ` fst ` set es \<Longrightarrow> st w' g' n = st w g' n"
proof -
  have "(\<forall>e \<in> set es. holds_cidr oa (st w') g (fst e) (snd e)) \<and>
     (\<forall>g' n. g' \<noteq> g \<or> n \<notin> cluster_name ` fst ` set es \<longrightarrow> st w' g' n = st w g' n)"
    using assms(3,4)
  proof (induction es arbitrary: ch w)
    case Nil
    then show ?case
      by simp
  next
    case (Cons e es)
    obtain name cidr where e: "e = (name, cidr)"
      by (cases e)
    obtain c w1 where step: "ensure_sibling api oa env g parent name cidr w = (c, None, w1)"
      and rest: "ensure_siblings api oa env g parent es (ch \<or> c) w1 = (ch', None, w')"
      using Cons.prems(2) by (auto simp: e split: prod.splits option.splits)
    note here = ensure_sibling_ok [OF assms(1,2) step]
    have ih: "\<forall>e \<in> set es. holds_cidr oa (st w') g (fst e) (snd e)"
      "\<And>g' n. g' \<noteq> g \<or> n \<notin> cluster_name ` fst ` set es \<Longrightarrow> st w' g' n = st w1 g' n"
      using Cons.IH [OF _ rest] Cons.prems(1) by auto
    have "cluster_name name \<notin> cluster_name ` fst ` set es"
      using Cons.prems(1) by (force simp: e)
    then have "holds_cidr oa (st w') g name cidr"
      using here(1) ih(2) by (simp add: holds_cidr_def)
    then show ?case
      using ih here(2) by (simp add: e)
  qed
  then show "\<forall>e \<in> set es. holds_cidr oa (st w') g (fst e) (snd e)"
    "g' \<noteq> g \<or> n \<notin> cluster_name ` fst ` set es \<Longrightarrow> st w' g' n = st w g' n"
    by blast+
qed

lemma delete_siblings_ok:
  assumes "store_laws api oa st" and "\<forall>p \<in> set items. GetGVK oa p = g"
    and "delete_siblings api oa keep items ch w = (ch', None, w')"
  shows "st w' g' n = (if g' = g \<and> (\<exists>p \<in> set items. object_key oa p = n \<and> GetName oa p \<notin> keep) then None else st w g' n)"
  using assms(2,3)
proof (induction items arbitrary: ch w)
  case Nil
  then show ?case
    by simp
next
  case (Cons p items)
  note sw = store_writesD [OF assms(1)]
  show ?case
  proof (cases "GetName oa p \<in> keep")
    case True
    then show ?thesis
      using Cons by (auto split: if_splits)
  next
    case False
    obtain derr w1 where del: "DeletePool api w p = (derr, w1)"
      by (cases "DeletePool api w p")
    then have derr: "derr \<in> {None, Some NotFoundError}" and rest: "delete_siblings api oa keep items True w1 = (ch', None, w')"
      using Cons.prems(2) False by (auto split: option.splits api_error.splits)
    have "st w1 = put oa p None (st w)"
    proof (cases derr)
      case None
      then show ?thesis
        using sw(3) [OF del] by simp
    next
      case (Some a)
      then have "st w1 = st w" "st w (GetGVK oa p) (object_key oa p) = None"
        using sw(3) [OF del] sw(4) [of w p w1] del derr by simp_all
      then show ?thesis
        by (simp add: put_def fun_upd_idem)
    qed
    moreover have "GetGVK oa p = g"
      using Cons.prems(1) by simp
    ultimately have "st w1 g' n = (if g' = g \<and> n = object_key oa p then None else st w g' n)"
      by (simp add: put_def)
    then show ?thesis
      using Cons.IH [OF _ rest] Cons.prems(1) False by (auto split: if_splits)
  qed
qed

text \<open>The map of the expected siblings.\<close>

definition draining_cidrs :: "poolConfiguration list \<Rightarrow> string set" where
  "draining_cidrs configs = {cidr. \<exists>c \<in> set configs. calicoCIDRForConfig c = Ok cidr}"

definition digests_differ :: "pass_env \<Rightarrow> string set \<Rightarrow> bool" where
  "digests_differ env cs \<longleftrightarrow> inj_on (\<lambda>c. take 8 (pe_sha256_hex env c)) cs"

lemma expected_siblings_snoc:
  "expected_siblings env parent (configs @ [c]) =
     (case calicoCIDRForConfig c of Inl _ \<Rightarrow> expected_siblings env parent configs
      | Inr cidr \<Rightarrow> AList.update (siblingPoolName env parent cidr) cidr (expected_siblings env parent configs))"
  by (simp add: expected_siblings_def split: sum.split)

lemma draining_snoc:
  "draining_cidrs (configs @ [c]) =
     (case calicoCIDRForConfig c of Inl _ \<Rightarrow> draining_cidrs configs | Inr cidr \<Rightarrow> insert cidr (draining_cidrs configs))"
  by (auto simp: draining_cidrs_def split: sum.split)

lemma expected_siblings_map:
  assumes "digests_differ env (draining_cidrs configs)"
  shows "distinct (map fst (expected_siblings env parent configs)) \<and>
     set (expected_siblings env parent configs) = (\<lambda>cidr. (siblingPoolName env parent cidr, cidr)) ` draining_cidrs configs"
  using assms
proof (induction configs rule: rev_induct)
  case Nil
  then show ?case
    by (simp add: expected_siblings_def draining_cidrs_def)
next
  case (snoc c configs)
  let ?f = "\<lambda>cidr. (siblingPoolName env parent cidr, cidr)"
  show ?case
  proof (cases "calicoCIDRForConfig c")
    case (Inl e)
    then show ?thesis
      using snoc by (simp add: expected_siblings_snoc draining_snoc)
  next
    case (Inr cidr)
    have inj: "digests_differ env (insert cidr (draining_cidrs configs))"
      using snoc.prems by (simp add: draining_snoc Inr)
    then have ih: "distinct (map fst (expected_siblings env parent configs))"
      "set (expected_siblings env parent configs) = ?f ` draining_cidrs configs"
      using snoc.IH by (auto simp: digests_differ_def)
    have "map_of (AList.update (siblingPoolName env parent cidr) cidr (expected_siblings env parent configs)) k = Some v \<longleftrightarrow>
        (k, v) \<in> ?f ` insert cidr (draining_cidrs configs)" for k v
    proof -
      have old: "map_of (expected_siblings env parent configs) k = Some v \<longleftrightarrow> (k, v) \<in> ?f ` draining_cidrs configs"
        using map_of_eq_Some_iff [OF ih(1), of k v] by (simp add: ih(2))
      have one: "v = cidr" if "v \<in> draining_cidrs configs" "siblingPoolName env parent v = siblingPoolName env parent cidr"
        by (rule inj_onD [OF inj [unfolded digests_differ_def]]) (use that in \<open>simp_all add: siblingPoolName_def\<close>)
      show ?thesis
      proof (cases "k = siblingPoolName env parent cidr")
        case True
        have "map_of (AList.update k cidr (expected_siblings env parent configs)) k = Some cidr"
          by (simp add: AList.update_conv')
        then show ?thesis
          using one unfolding True by (simp add: image_iff) metis
      next
        case False
        then have "map_of (AList.update (siblingPoolName env parent cidr) cidr (expected_siblings env parent configs)) k =
            map_of (expected_siblings env parent configs) k"
          by (simp add: AList.update_conv')
        then show ?thesis
          using old False by simp
      qed
    qed
    note member = this
    let ?es = "AList.update (siblingPoolName env parent cidr) cidr (expected_siblings env parent configs)"
    have d: "distinct (map fst ?es)"
      using ih(1) by (rule AList.distinct_update)
    have "(k, v) \<in> set ?es \<longleftrightarrow> (k, v) \<in> ?f ` insert cidr (draining_cidrs configs)" for k v
      unfolding member [symmetric] by (rule map_of_eq_Some_iff [OF d, symmetric])
    then have "set ?es = ?f ` insert cidr (draining_cidrs configs)"
      by (intro set_eqI) (simp only: split_paired_all)
    with d show ?thesis
      unfolding expected_siblings_snoc draining_snoc Inr sum.case by blast
  qed
qed

definition range_laws :: "pass_env \<Rightarrow> bool" where
  "range_laws env \<longleftrightarrow>
     (\<forall>xs. set (pe_range env xs) = set xs \<and> (distinct (map fst xs) \<longrightarrow> distinct (map fst (pe_range env xs))))"

definition sibling_labels :: "string \<Rightarrow> (string \<times> string) list" where
  "sibling_labels parent = [(LabelManagedBy, LabelManagedByValue), (LabelCalicoParentPool, parent)]"

definition sibling_names :: "pass_env \<Rightarrow> string \<Rightarrow> poolConfiguration list \<Rightarrow> string set" where
  "sibling_names env parent configs = siblingPoolName env parent ` draining_cidrs configs"

lemma parent_no_sibling: "parent \<notin> sibling_names env parent configs"
  by (auto simp: sibling_names_def siblingPoolName_def)

lemma siblings_ok:
  assumes "object_laws oa" and "store_laws api oa st" and "range_laws env" and "digests_differ env (draining_cidrs configs)"
    and "syncDrainingSiblings api oa env g parent configs w = (ch, None, w')"
  shows "d \<in> draining_cidrs configs \<Longrightarrow> holds_cidr oa (st w') g (siblingPoolName env (GetName oa parent) d) d"
    and "st w' g n = Some p \<Longrightarrow> matches oa (sibling_labels (GetName oa parent)) p \<Longrightarrow>
       nn_Name n \<in> sibling_names env (GetName oa parent) configs"
    and "g' \<noteq> g \<or> n \<notin> cluster_name ` sibling_names env (GetName oa parent) configs \<and>
       (\<forall>p. st w g n = Some p \<longrightarrow> \<not> matches oa (sibling_labels (GetName oa parent)) p) \<Longrightarrow> st w' g' n = st w g' n"
proof -
  let ?parent = "GetName oa parent"
  let ?es = "expected_siblings env ?parent configs" and ?S = "sibling_names env ?parent configs"
  note sr = store_readsD [OF assms(2)]
  have es: "distinct (map fst (pe_range env ?es))" "set (pe_range env ?es) = (\<lambda>c. (siblingPoolName env ?parent c, c)) ` draining_cidrs configs"
    using expected_siblings_map [OF assms(4), of ?parent] assms(3) by (simp_all add: range_laws_def)
  have keep: "fst ` set ?es = ?S" "fst ` set (pe_range env ?es) = ?S"
    using expected_siblings_map [OF assms(4), of ?parent] by (simp_all add: es(2) sibling_names_def image_image)
  obtain c1 w1 items where en: "ensure_siblings api oa env g parent (pe_range env ?es) False w = (c1, None, w1)"
    and li: "ListPools api w1 (ListGVK g) (sibling_labels ?parent) = Ok items"
    and de: "delete_siblings api oa ?S items c1 w1 = (ch, None, w')"
    using assms(5) unfolding syncDrainingSiblings_def Let_def keep(1) sibling_labels_def by (auto split: prod.splits option.splits sum.splits)
  note ens = ensure_siblings_ok [OF assms(1,2) es(1) en, unfolded keep(2)]
  have items: "p \<in> set items \<longleftrightarrow> (\<exists>n. st w1 g n = Some p \<and> matches oa (sibling_labels ?parent) p)" for p
    using sr(4) [OF li] by simp
  then have "\<forall>p \<in> set items. GetGVK oa p = g"
    using sr(3) by blast
  note del = delete_siblings_ok [OF assms(2) this de]
  have name: "GetName oa p = nn_Name n" if "st w1 g n = Some p" for p n
    using sr(3) [OF that] by (auto simp: object_key_def)
  have gone: "st w' g n = (if (\<exists>p. st w1 g n = Some p \<and> matches oa (sibling_labels ?parent) p) \<and> nn_Name n \<notin> ?S then None else st w1 g n)" for n
  proof -
    have "(\<exists>p \<in> set items. object_key oa p = n \<and> GetName oa p \<notin> ?S) \<longleftrightarrow>
        (\<exists>p. st w1 g n = Some p \<and> matches oa (sibling_labels ?parent) p) \<and> nn_Name n \<notin> ?S"
    proof
      assume "\<exists>p \<in> set items. object_key oa p = n \<and> GetName oa p \<notin> ?S"
      then obtain p where p: "p \<in> set items" "object_key oa p = n" "GetName oa p \<notin> ?S"
        by blast
      then obtain n' where n': "st w1 g n' = Some p" "matches oa (sibling_labels ?parent) p"
        using items by blast
      moreover have "n' = n"
        using sr(3) [OF n'(1)] p(2) by simp
      ultimately show "(\<exists>p. st w1 g n = Some p \<and> matches oa (sibling_labels ?parent) p) \<and> nn_Name n \<notin> ?S"
        using p(3) name by auto
    next
      assume "(\<exists>p. st w1 g n = Some p \<and> matches oa (sibling_labels ?parent) p) \<and> nn_Name n \<notin> ?S"
      then obtain p where p: "st w1 g n = Some p" "matches oa (sibling_labels ?parent) p" "nn_Name n \<notin> ?S"
        by blast
      then have "p \<in> set items" "object_key oa p = n" "GetName oa p = nn_Name n"
        using items sr(3) [OF p(1)] name [OF p(1)] by blast+
      then show "\<exists>p \<in> set items. object_key oa p = n \<and> GetName oa p \<notin> ?S"
        using p(3) by metis
    qed
    then show ?thesis
      using del [of g n] by simp
  qed
  show "d \<in> draining_cidrs configs \<Longrightarrow> holds_cidr oa (st w') g (siblingPoolName env ?parent d) d"
  proof -
    assume d: "d \<in> draining_cidrs configs"
    then have "siblingPoolName env ?parent d \<in> ?S"
      by (simp add: sibling_names_def)
    then have "st w' g (cluster_name (siblingPoolName env ?parent d)) = st w1 g (cluster_name (siblingPoolName env ?parent d))"
      using gone by (simp add: cluster_name_def)
    moreover have "holds_cidr oa (st w1) g (siblingPoolName env ?parent d) d"
      using bspec [OF ens(1), of "(siblingPoolName env ?parent d, d)"] d by (simp add: es(2))
    ultimately show "holds_cidr oa (st w') g (siblingPoolName env ?parent d) d"
      by (simp add: holds_cidr_def)
  qed
  show "nn_Name n \<in> ?S" if "st w' g n = Some p" "matches oa (sibling_labels ?parent) p"
  proof (rule ccontr)
    assume "nn_Name n \<notin> ?S"
    then show False
      using that gone [of n] by (auto split: if_splits)
  qed
  show "st w' g' n = st w g' n" if other: "g' \<noteq> g \<or> n \<notin> cluster_name ` ?S \<and> (\<forall>p. st w g n = Some p \<longrightarrow> \<not> matches oa (sibling_labels ?parent) p)"
  proof (cases "g' = g")
    case True
    then have "st w1 g n = st w g n"
      using other ens(2) [of g n] by blast
    then show ?thesis
      using other True gone [of n] by auto
  next
    case False
    then show ?thesis
      using del [of g' n] ens(2) [of g' n] by simp
  qed
qed

text \<open>What remains of the update once the siblings are in place.\<close>

lemma calico_update_ok:
  assumes "calico_update api oa env g pool (current # draining) w = (ch, None, w', pool')"
  shows "\<exists>cidr c1 w1. calicoCIDRForConfig current = Ok cidr \<and> syncDrainingSiblings api oa env g pool draining w = (c1, None, w1) \<and>
     (w' = w1 \<and> pool' = pool \<and> NestedString oa pool [fieldSpec, ''cidr''] = Ok cidr \<or>
      (\<exists>pool1. SetNestedField (obj_lists oa) pool (JStr cidr) [fieldSpec, ''cidr''] = Ok pool1 \<and>
        pool' = setLastSyncAnnotation (obj_lists oa) (pe_stamp env)
          (setPoolAnnotation (obj_lists oa) pool1 AnnotationManagedCIDR (formatOwnershipRecord [cidr])) \<and>
        UpdatePool api w1 pool' = (None, w')))"
  using assms by (auto simp: calico_update_def Let_def split: sum.splits prod.splits option.splits if_splits)

text \<open>
  C19: A Calico pool holds one CIDR, so the window of prefixes is spread over pools.  When a pass over
  an annotated pool goes through, the pool itself holds the CIDR of the current prefix; every draining
  prefix that has an exact CIDR has a sibling holding it; no other object carries the labels of a sibling of this
  pool; and every object that is neither the pool nor one of its siblings is as it was.  The digests
  of the draining CIDRs must differ in the eight digits the names keep.
\<close>

theorem calico_pools_follow_prefixes:
  assumes "object_laws oa" and "store_laws api oa st" and "range_laws env" and "digests_differ env (draining_cidrs draining)"
    and "st w g (cluster_name parent) = Some pool" and "\<not> matches oa (sibling_labels parent) pool"
    and "calico_update api oa env g pool (current # draining) w = (changed, None, w', pool')"
  shows "(\<exists>cidr. calicoCIDRForConfig current = Ok cidr \<and> holds_cidr oa (st w') g parent cidr) \<and>
     (\<forall>d \<in> draining_cidrs draining. holds_cidr oa (st w') g (siblingPoolName env parent d) d) \<and>
     (\<forall>n p. st w' g n = Some p \<longrightarrow> matches oa (sibling_labels parent) p \<longrightarrow> nn_Name n \<in> sibling_names env parent draining) \<and>
     (\<forall>g' n. g' \<noteq> g \<or> n \<notin> cluster_name ` insert parent (sibling_names env parent draining) \<and>
         (\<forall>p. st w g n = Some p \<longrightarrow> \<not> matches oa (sibling_labels parent) p) \<longrightarrow> st w' g' n = st w g' n)"
proof -
  obtain cidr c1 w1 where cidr: "calicoCIDRForConfig current = Ok cidr"
    and sync: "syncDrainingSiblings api oa env g pool draining w = (c1, None, w1)"
    and rest: "w' = w1 \<and> pool' = pool \<and> NestedString oa pool [fieldSpec, ''cidr''] = Ok cidr \<or>
      (\<exists>pool1. SetNestedField (obj_lists oa) pool (JStr cidr) [fieldSpec, ''cidr''] = Ok pool1 \<and>
        pool' = setLastSyncAnnotation (obj_lists oa) (pe_stamp env)
          (setPoolAnnotation (obj_lists oa) pool1 AnnotationManagedCIDR (formatOwnershipRecord [cidr])) \<and>
        UpdatePool api w1 pool' = (None, w'))"
    using calico_update_ok [OF assms(7)] by blast
  have key: "GetGVK oa pool = g" "object_key oa pool = cluster_name parent" "GetName oa pool = parent"
    using store_readsD(3) [OF assms(2,5)] by (simp_all add: object_key_def cluster_name_def)
  note sib = siblings_ok [OF assms(1-4) sync, unfolded key(3)]
  have "cluster_name parent \<notin> cluster_name ` sibling_names env parent draining"
    using parent_no_sibling [of parent env draining] by auto
  then have pool1: "st w1 g (cluster_name parent) = Some pool"
    using sib(3) [of g "cluster_name parent"] assms(5,6) by simp
  have same: "same_identity oa pool' pool \<and> NestedString oa pool' [fieldSpec, ''cidr''] = Ok cidr"
    using rest
  proof
    assume "\<exists>pool1. SetNestedField (obj_lists oa) pool (JStr cidr) [fieldSpec, ''cidr''] = Ok pool1 \<and>
        pool' = setLastSyncAnnotation (obj_lists oa) (pe_stamp env)
          (setPoolAnnotation (obj_lists oa) pool1 AnnotationManagedCIDR (formatOwnershipRecord [cidr])) \<and>
        UpdatePool api w1 pool' = (None, w')"
    then obtain pool1 where set: "SetNestedField (obj_lists oa) pool (JStr cidr) [fieldSpec, ''cidr''] = Ok pool1"
      and pool': "pool' = setLastSyncAnnotation (obj_lists oa) (pe_stamp env)
          (setPoolAnnotation (obj_lists oa) pool1 AnnotationManagedCIDR (formatOwnershipRecord [cidr]))"
      by blast
    have "same_identity oa pool' pool1"
      unfolding pool' setLastSyncAnnotation_def
      by (rule same_identity_trans [OF annotated_identity(1) [OF assms(1)] annotated_identity(1) [OF assms(1)]])
    then show ?thesis
      using same_identity_trans [OF _ object_lawsD(2) [OF assms(1) set]] object_lawsD(3) [OF assms(1) set]
      by (simp add: pool' setLastSyncAnnotation_def annotated_identity(2) [OF assms(1)])
  qed simp
  note id = same_identity_key [OF conjunct1 [OF same], unfolded key]
  have w': "st w' g' n = (if g' = g \<and> n = cluster_name parent then Some pool' else st w1 g' n)" for g' n
    using rest
  proof
    assume "\<exists>pool1. SetNestedField (obj_lists oa) pool (JStr cidr) [fieldSpec, ''cidr''] = Ok pool1 \<and>
        pool' = setLastSyncAnnotation (obj_lists oa) (pe_stamp env)
          (setPoolAnnotation (obj_lists oa) pool1 AnnotationManagedCIDR (formatOwnershipRecord [cidr])) \<and>
        UpdatePool api w1 pool' = (None, w')"
    then show ?thesis
      using store_writesD(1) [OF assms(2), of w1 pool' None w'] id(1,2) by (auto simp: put_def)
  qed (use pool1 in auto)
  have other: "d \<in> draining_cidrs draining \<Longrightarrow> siblingPoolName env parent d \<noteq> parent" for d
    by (simp add: siblingPoolName_def)
  have "holds_cidr oa (st w') g parent cidr"
    using same w' by (simp add: holds_cidr_def)
  moreover have "holds_cidr oa (st w') g (siblingPoolName env parent d) d" if "d \<in> draining_cidrs draining" for d
    using sib(1) [OF that] other [OF that] by (simp add: holds_cidr_def w')
  moreover have "nn_Name n \<in> sibling_names env parent draining" if "st w' g n = Some p" "matches oa (sibling_labels parent) p" for n p
    using that sib(2) [of n p] assms(6) id(4) by (auto simp: w' matches_def split: if_splits)
  moreover have "st w' g' n = st w g' n" if "g' \<noteq> g \<or> n \<notin> cluster_name ` insert parent (sibling_names env parent draining) \<and>
         (\<forall>p. st w g n = Some p \<longrightarrow> \<not> matches oa (sibling_labels parent) p)" for g' n
    using that sib(3) [of g' n] by (auto simp: w')
  ultimately show ?thesis
    using cidr by blast
qed

text \<open>A cluster that keeps its objects in a list and accepts every write.\<close>

record demo_object =
  do_name :: string
  do_ns :: string
  do_gvk :: GroupVersionKind
  do_labels :: annotations
  do_ann :: annotations
  do_lists :: "string list \<Rightarrow> json list"
  do_texts :: "string list \<Rightarrow> string"
  do_data :: "(string \<times> string) list"

definition demo_lists :: "demo_object unstructured_api" where
  "demo_lists =
     \<lparr>NestedSlice = (\<lambda>p path. Ok (do_lists p path)),
      SetNestedField = (\<lambda>p v path. case v of
          JArr xs \<Rightarrow> Ok (p\<lparr>do_lists := (do_lists p)(path := xs)\<rparr>)
        | JStr c \<Rightarrow> Ok (p\<lparr>do_texts := (do_texts p)(path := c)\<rparr>)
        | _ \<Rightarrow> Err ''neither list nor text''),
      GetAnnotations = do_ann, SetAnnotations = (\<lambda>p m. p\<lparr>do_ann := m\<rparr>), DeepEqual = (=), UpdateObject = (\<lambda>_. None)\<rparr>"

definition demo_objects :: "demo_object object_api" where
  "demo_objects =
     \<lparr>obj_lists = demo_lists,
      obj_data = \<lparr>NestedStringMap = (\<lambda>p. Ok (AList.clearjunk (do_data p))), SetNestedStringMap = (\<lambda>p d. Ok (p\<lparr>do_data := d\<rparr>))\<rparr>,
      GetName = do_name, GetNamespace = do_ns, GetGVK = do_gvk, GetLabels = do_labels,
      NestedString = (\<lambda>p path. Ok (do_texts p path)), NestedStringSlice = (\<lambda>p path. Ok None),
      NewObject = (\<lambda>g n ls ann spec.
        \<lparr>do_name = n, do_ns = [], do_gvk = g, do_labels = ls, do_ann = ann, do_lists = (\<lambda>_. []),
         do_texts = (\<lambda>path. case path of [f, k] \<Rightarrow> (case map_of spec k of Some (JStr c) \<Rightarrow> c | _ \<Rightarrow> []) | _ \<Rightarrow> []), do_data = []\<rparr>)\<rparr>"

type_synonym demo_cluster = "demo_object list \<times> (string \<rightharpoonup> DynamicPrefix)"

definition demo_store :: "demo_cluster \<Rightarrow> demo_object store" where
  "demo_store w g n = find (\<lambda>p. do_gvk p = g \<and> object_key demo_objects p = n) (fst w)"

definition demo_without :: "demo_object \<Rightarrow> demo_object list \<Rightarrow> demo_object list" where
  "demo_without p ps = List.filter (\<lambda>q. \<not> (do_gvk q = do_gvk p \<and> object_key demo_objects q = object_key demo_objects p)) ps"

definition demo_api :: "(demo_cluster, demo_object) pool_api" where
  "demo_api =
     \<lparr>GetDynamicPrefix = (\<lambda>w d. GetDynamicPrefix table_api (snd w) d),
      ApplyCondition = (\<lambda>w d c. let (err, t) = ApplyCondition table_api (snd w) d c in (err, (fst w, t))),
      GetPool = (\<lambda>w g n. case demo_store w g n of None \<Rightarrow> Err NotFoundError | Some p \<Rightarrow> Ok p),
      UpdatePool = (\<lambda>w p. (None, (p # demo_without p (fst w), snd w))),
      CreatePool = (\<lambda>w p. (None, (p # demo_without p (fst w), snd w))),
      DeletePool = (\<lambda>w p. (None, (demo_without p (fst w), snd w))),
      ListPools = (\<lambda>w g ls. Ok (List.filter (\<lambda>p. ListGVK (do_gvk p) = g \<and> matches demo_objects ls p \<and>
         demo_store w (do_gvk p) (object_key demo_objects p) = Some p) (fst w)))\<rparr>"

lemma demo_unstructured_laws: "unstructured_laws demo_lists"
  by (simp add: unstructured_laws_def demo_lists_def)

lemma demo_object_laws: "object_laws demo_objects"
  using demo_unstructured_laws
  by (auto simp: object_laws_def demo_objects_def demo_lists_def same_identity_def Let_def split: json.splits)

lemma find_without:
  "find (\<lambda>q. do_gvk q = g \<and> object_key demo_objects q = n) (demo_without p ps) =
     (if do_gvk p = g \<and> object_key demo_objects p = n then None else find (\<lambda>q. do_gvk q = g \<and> object_key demo_objects q = n) ps)"
  by (induction ps) (auto simp: demo_without_def)

lemma ListGVK_inj: "ListGVK g = ListGVK g' \<longleftrightarrow> g = g'"
  by (cases g; cases g') (simp add: ListGVK_def)

lemma demo_store_laws: "store_laws demo_api demo_objects demo_store"
proof -
  have gvk [simp]: "GetGVK demo_objects = do_gvk"
    by (simp add: demo_objects_def)
  have "store_reads demo_api demo_objects demo_store"
  proof -
    have found: "do_gvk p = g \<and> object_key demo_objects p = n \<and> p \<in> set (fst w)" if "demo_store w g n = Some p" for w g n p
      using that by (auto simp: demo_store_def find_Some_iff)
    show ?thesis
      unfolding store_reads_def using found
      by (auto simp: demo_api_def ListGVK_inj split: option.splits)
  qed
  moreover have "store_writes demo_api demo_objects demo_store"
    by (auto simp: store_writes_def writes_as_def demo_api_def put_def demo_store_def fun_eq_iff find_without)
  moreover have "store_apart demo_api demo_store"
    by (auto simp: store_apart_def demo_api_def demo_store_def case_prod_beta Let_def fun_eq_iff)
  ultimately show ?thesis
    by (simp add: store_laws_def)
qed

definition demo_env :: pass_env where
  "demo_env = \<lparr>pe_clock = \<lparr>ce_meta = sample_meta, ce_now = 7\<rparr>, pe_stamp = ''2026-01-01T00:00:00Z'', pe_sha256_hex = (\<lambda>t. t),
     pe_range = (\<lambda>es. es), pe_error_text = (\<lambda>_. ''failed'')\<rparr>"

lemma demo_calls:
  "UpdatePool demo_api w p = (None, (p # demo_without p (fst w), snd w))"
  "CreatePool demo_api w p = (None, (p # demo_without p (fst w), snd w))"
  "GetPool demo_api w g n = (case demo_store w g n of None \<Rightarrow> Err NotFoundError | Some p \<Rightarrow> Ok p)"
  "NestedString demo_objects p path = Ok (do_texts p path)"
  "NestedStringSlice demo_objects p path = Ok None"
  "SetNestedField (obj_lists demo_objects) p (JStr c) path = Ok (p\<lparr>do_texts := (do_texts p)(path := c)\<rparr>)"
  by (simp_all add: demo_api_def demo_objects_def demo_lists_def)

lemma demo_ensure: "\<exists>c w'. ensure_siblings demo_api demo_objects demo_env g parent es ch w = (c, None, w')"
proof (induction es arbitrary: ch w)
  case (Cons e es)
  have "\<exists>c w1. ensure_sibling demo_api demo_objects demo_env g parent (fst e) (snd e) w = (c, None, w1)"
    by (cases "demo_store w g (cluster_name (fst e))") (simp_all add: ensure_sibling_def demo_calls ex_bool_eq)
  then obtain c w1 where "ensure_sibling demo_api demo_objects demo_env g parent (fst e) (snd e) w = (c, None, w1)"
    by blast
  then show ?case
    using Cons [of "ch \<or> c" w1] by (cases e) simp
qed simp

lemma demo_delete: "\<exists>c w'. delete_siblings demo_api demo_objects keep items ch w = (c, None, w')"
proof (induction items arbitrary: ch w)
  case (Cons p items)
  obtain w1 where "DeletePool demo_api w p = (None, w1)"
    by (simp add: demo_api_def)
  then show ?case
    using Cons by simp
qed simp

lemma demo_siblings: "\<exists>c w'. syncDrainingSiblings demo_api demo_objects demo_env g parent configs w = (c, None, w')"
proof -
  let ?es = "pe_range demo_env (expected_siblings demo_env (GetName demo_objects parent) configs)"
  obtain c w1 where e: "ensure_siblings demo_api demo_objects demo_env g parent ?es False w = (c, None, w1)"
    using demo_ensure by blast
  obtain items where l: "ListPools demo_api w1 (ListGVK g) [(LabelManagedBy, LabelManagedByValue),
      (LabelCalicoParentPool, GetName demo_objects parent)] = Ok items"
    by (simp add: demo_api_def)
  show ?thesis
    using demo_delete by (simp add: syncDrainingSiblings_def Let_def e l)
qed

definition calico_gvk :: GroupVersionKind where
  "calico_gvk = \<lparr>gvk_Group = calicoAPIGroup, gvk_Version = ''v3'', gvk_Kind = kindCalicoIPPool\<rparr>"

definition demo_calico :: demo_object where
  "demo_calico =
     \<lparr>do_name = ''lan'', do_ns = [], do_gvk = calico_gvk, do_labels = Map.empty, do_ann = [AnnotationName \<mapsto> ''home''],
      do_lists = (\<lambda>_. []), do_texts = (\<lambda>_. PrefixString net1), do_data = []\<rparr>"

lemma demo_calico_stored: "demo_store ([demo_calico], dps) calico_gvk (cluster_name ''lan'') = Some demo_calico"
  by (simp add: demo_store_def demo_calico_def object_key_def demo_objects_def cluster_name_def)

lemma net_config_cidr: "calicoCIDRForConfig (net_config p) = Ok (PrefixString p)"
proof -
  have "PrefixString p \<noteq> []"
    by (simp add: PrefixString_def split: addr.split)
  then show ?thesis
    by (simp add: calicoCIDRForConfig_def net_config_def)
qed

lemma draining_net: "draining_cidrs [net_config p] = {PrefixString p}"
  by (auto simp: draining_cidrs_def net_config_cidr)

lemma demo_env_laws: "range_laws demo_env" "digests_differ demo_env {cidr}"
  by (simp_all add: range_laws_def demo_env_def digests_differ_def)

theorem calico_pools_follow_prefixes_witness:
  "\<exists>changed w' pool'. calico_update demo_api demo_objects demo_env calico_gvk demo_calico [net_config net2, net_config net1]
      ([demo_calico], Map.empty) = (changed, None, w', pool') \<and>
     holds_cidr demo_objects (demo_store w') calico_gvk ''lan'' (PrefixString net2) \<and>
     holds_cidr demo_objects (demo_store w') calico_gvk (siblingPoolName demo_env ''lan'' (PrefixString net1)) (PrefixString net1)"
proof -
  let ?w = "([demo_calico], Map.empty) :: demo_cluster"
  obtain c w1 where "syncDrainingSiblings demo_api demo_objects demo_env calico_gvk demo_calico [net_config net1] ?w = (c, None, w1)"
    using demo_siblings by blast
  then have "\<exists>changed w' pool'. calico_update demo_api demo_objects demo_env calico_gvk demo_calico
      [net_config net2, net_config net1] ?w = (changed, None, w', pool')"
    by (simp add: calico_update_def net_config_cidr Let_def demo_calls ex_bool_eq)
  then obtain changed w' pool' where run: "calico_update demo_api demo_objects demo_env calico_gvk demo_calico
      [net_config net2, net_config net1] ?w = (changed, None, w', pool')"
    by blast
  have "range_laws demo_env" "digests_differ demo_env (draining_cidrs [net_config net1])"
    unfolding draining_net by (rule demo_env_laws)+
  moreover have "demo_store ?w calico_gvk (cluster_name ''lan'') = Some demo_calico"
    by (rule demo_calico_stored)
  moreover have "\<not> matches demo_objects (sibling_labels ''lan'') demo_calico"
    by (auto simp: demo_calico_def demo_objects_def matches_def sibling_labels_def)
  ultimately show ?thesis
    using calico_pools_follow_prefixes [OF demo_object_laws demo_store_laws _ _ _ _ run] run by (auto simp: net_config_cidr draining_net)
qed

subsection \<open>A server that refuses overlapping pools\<close>

text \<open>Calico's validation: a pool is not created over the CIDR of another one.\<close>

definition refuses_overlap :: "('w, 'o) pool_api \<Rightarrow> 'o object_api \<Rightarrow> ('w \<Rightarrow> 'o store) \<Rightarrow> GroupVersionKind \<Rightarrow> bool" where
  "refuses_overlap api oa st g \<longleftrightarrow>
     (\<forall>w p n q c. GetGVK oa p = g \<longrightarrow> NestedString oa p [fieldSpec, ''cidr''] = Ok c \<longrightarrow> st w g n = Some q \<longrightarrow> n \<noteq> object_key oa p \<longrightarrow>
        NestedString oa q [fieldSpec, ''cidr''] = Ok c \<longrightarrow> fst (CreatePool api w p) \<noteq> None)"

lemma ensure_sibling_error:
  assumes "store_laws api oa st" and "ensure_sibling api oa env g parent name cidr w = (c, Some e, w')"
  shows "st w' = st w"
  using assms(2) store_writesD(1) [OF assms(1)] store_writesD(2) [OF assms(1)]
  by (fastforce simp: ensure_sibling_def split: sum.splits api_error.splits prod.splits option.splits if_splits)

lemma ensure_siblings_blocked:
  assumes "object_laws oa" and "store_laws api oa st" and "refuses_overlap api oa st g"
    and "st w g (cluster_name parent) = Some pool" and "NestedString oa pool [fieldSpec, ''cidr''] = Ok cidr"
    and "st w g (cluster_name name) = None" and "(name, cidr) \<in> set es" and "distinct (map fst es)" and "parent \<notin> fst ` set es"
    and "ensure_siblings api oa env g obj es ch w = (ch', err, w')"
  shows "err \<noteq> None \<and> st w' g (cluster_name parent) = Some pool \<and> st w' g (cluster_name name) = None"
  using assms(4,6-)
proof (induction es arbitrary: ch w)
  case Nil
  then show ?case
    by simp
next
  case (Cons e es)
  obtain n d where e: "e = (n, d)"
    by (cases e)
  obtain c err1 w1 where step: "ensure_sibling api oa env g obj n d w = (c, err1, w1)"
    by (metis surj_pair)
  show ?case
  proof (cases err1)
    case (Some x)
    then have "st w1 = st w" "err = Some x" "w' = w1"
      using ensure_sibling_error [OF assms(2)] step Cons.prems(6) by (auto simp: e)
    then show ?thesis
      using Cons.prems by simp
  next
    case None
    note ok = ensure_sibling_ok [OF assms(1,2) step [unfolded None]]
    have other: "n \<noteq> name"
    proof
      assume n: "n = name"
      then have "d = cidr"
        using Cons.prems(3,4) by (auto simp: e intro: rev_image_eqI)
      let ?p = "newCalicoSibling oa env g obj name cidr"
      have "GetPool api w g (cluster_name name) \<noteq> Ok q" for q
        using store_readsD(1) [OF assms(2), of w g "cluster_name name" q] Cons.prems(2) by auto
      moreover have "fst (CreatePool api w ?p) \<noteq> None"
      proof -
        have "GetGVK oa ?p = g" "object_key oa ?p = cluster_name name" "NestedString oa ?p [fieldSpec, ''cidr''] = Ok cidr"
          by (simp_all add: newCalicoSibling_def Let_def object_key_def cluster_name_def object_lawsD(7-11) [OF assms(1)])
        moreover have "cluster_name parent \<noteq> cluster_name name"
          using Cons.prems(5) n by (auto simp: e)
        ultimately show ?thesis
          using assms(3,5) Cons.prems(1) unfolding refuses_overlap_def by metis
      qed
      ultimately show False
        using step None n \<open>d = cidr\<close>
        by (auto simp: ensure_sibling_def split: sum.splits api_error.splits prod.splits option.splits)
    qed
    have "n \<noteq> parent"
      using Cons.prems(5) by (auto simp: e)
    then have "st w1 g (cluster_name parent) = Some pool" "st w1 g (cluster_name name) = None"
      using ok(2) [of g "cluster_name parent"] ok(2) [of g "cluster_name name"] other Cons.prems(1,2) by simp_all
    moreover have "(name, cidr) \<in> set es" "distinct (map fst es)" "parent \<notin> fst ` set es"
      using Cons.prems(3,4,5) other by (auto simp: e)
    moreover have "ensure_siblings api oa env g obj es (ch \<or> c) w1 = (ch', err, w')"
      using Cons.prems(6) step by (simp add: e None)
    ultimately show ?thesis
      by (rule Cons.IH)
  qed
qed

text \<open>
  C37: The sibling of a prefix is created before the pool moves off it.  On a server that refuses a pool
  over the CIDR of another one, the pass after a rotation therefore fails: the pool keeps the CIDR of
  the prefix that is draining, that prefix still has no sibling, and every later pass starts from the
  same situation.
\<close>

theorem overlap_check_blocks_rotation:
  assumes "object_laws oa" and "store_laws api oa st" and "range_laws env" and "digests_differ env (draining_cidrs draining)"
    and "refuses_overlap api oa st g"
    and "st w g (cluster_name parent) = Some pool" and "NestedString oa pool [fieldSpec, ''cidr''] = Ok old"
    and "old \<in> draining_cidrs draining" and "st w g (cluster_name (siblingPoolName env parent old)) = None"
  shows "\<exists>e w'. calico_update api oa env g pool (current # draining) w = (False, Some e, w', pool) \<and>
     st w' g (cluster_name parent) = Some pool \<and> st w' g (cluster_name (siblingPoolName env parent old)) = None"
proof -
  have name: "GetName oa pool = parent"
    using store_readsD(3) [OF assms(2,6)] by (simp add: object_key_def cluster_name_def)
  let ?es = "pe_range env (expected_siblings env parent draining)"
  have es: "distinct (map fst ?es)" "set ?es = (\<lambda>c. (siblingPoolName env parent c, c)) ` draining_cidrs draining"
    using expected_siblings_map [OF assms(4), of parent] assms(3) by (simp_all add: range_laws_def)
  obtain ch err w1 where en: "ensure_siblings api oa env g pool ?es False w = (ch, err, w1)"
    by (metis surj_pair)
  have "(siblingPoolName env parent old, old) \<in> set ?es" "parent \<notin> fst ` set ?es"
    using assms(8) parent_no_sibling [of parent env draining] by (auto simp: es(2) sibling_names_def)
  then have blocked: "err \<noteq> None \<and> st w1 g (cluster_name parent) = Some pool \<and>
      st w1 g (cluster_name (siblingPoolName env parent old)) = None"
    using ensure_siblings_blocked [OF assms(1,2,5,6,7,9) _ es(1) _ en] by blast
  then obtain e where "syncDrainingSiblings api oa env g pool draining w = (ch, Some e, w1)"
    using en by (auto simp: syncDrainingSiblings_def name)
  then show ?thesis
    using blocked assms(6,9) by (cases "calicoCIDRForConfig current") (auto simp: calico_update_def)
qed

definition strict_api :: "(demo_cluster, demo_object) pool_api" where
  "strict_api = demo_api\<lparr>CreatePool := \<lambda>w p.
     if list_ex (\<lambda>q. do_gvk q = do_gvk p \<and> object_key demo_objects q \<noteq> object_key demo_objects p \<and>
          do_texts q [fieldSpec, ''cidr''] = do_texts p [fieldSpec, ''cidr'']) (fst w)
     then (Some ''overlaps'', w) else CreatePool demo_api w p\<rparr>"

lemma strict_laws: "store_laws strict_api demo_objects demo_store" "refuses_overlap strict_api demo_objects demo_store g"
proof -
  have "store_reads strict_api demo_objects demo_store" "store_apart strict_api demo_store"
    using demo_store_laws by (simp_all add: store_laws_def store_reads_def store_apart_def strict_api_def)
  moreover have "store_writes strict_api demo_objects demo_store"
    using demo_store_laws by (simp add: store_laws_def store_writes_def strict_api_def writes_as_def)
  ultimately show "store_laws strict_api demo_objects demo_store"
    by (simp add: store_laws_def)
  show "refuses_overlap strict_api demo_objects demo_store g"
    by (auto simp: refuses_overlap_def strict_api_def demo_store_def demo_calls find_Some_iff list_ex_iff demo_objects_def dest!: nth_mem)
qed

theorem overlap_check_blocks_rotation_witness:
  "\<exists>e w'. calico_update strict_api demo_objects demo_env calico_gvk demo_calico [net_config net2, net_config net1]
      ([demo_calico], Map.empty) = (False, Some e, w', demo_calico) \<and>
     demo_store w' calico_gvk (cluster_name ''lan'') = Some demo_calico"
proof -
  have "NestedString demo_objects demo_calico [fieldSpec, ''cidr''] = Ok (PrefixString net1)"
    by (simp add: demo_calls demo_calico_def)
  moreover have "demo_store ([demo_calico], Map.empty) calico_gvk (cluster_name (siblingPoolName demo_env ''lan'' (PrefixString net1))) = None"
    by (simp add: demo_store_def demo_calico_def object_key_def demo_objects_def cluster_name_def siblingPoolName_def)
  ultimately show ?thesis
    using overlap_check_blocks_rotation [OF demo_object_laws strict_laws(1) demo_env_laws(1) _ strict_laws(2) demo_calico_stored,
        of "[net_config net1]" "PrefixString net1" Map.empty "net_config net2"]
    by (auto simp: draining_net demo_env_laws(2))
qed

end
