(* ===== verification/Pool_Pass.thy ===== *)
theory Pool_Pass
  imports Pool_Sync
begin

text \<open>
  What a pass of the pool reconciler achieves, across its parts: the configurations of the
  DynamicPrefix end up in the stored pool, the outcome in the memory of failing pools and in the
  PoolsSynced condition, and a pool that is no longer annotated is handed back and leaves the watch.
\<close>

subsection \<open>Recording an outcome\<close>

lemma outcome_written:
  assumes "status_laws api (ce_meta env)" and "accepting api" and "exists_dp api w d" and "state_ok s" and "key_ok k"
    and "updatePoolsSyncedCondition api env d k e (w, s) = (w', s')"
  shows "view s' = (view s)(d := (view s d)(k := e)) \<and> state_ok s' \<and> up_to_date api (ce_meta env) w' (view s' d) d"
proof -
  obtain v s1 where rec: "record_outcome d k e s = (v, s1)"
    by (metis surj_pair)
  have "writePoolsSyncedCondition api env d v (w, s1) = (w', s')"
    using assms(6) by (simp add: updatePoolsSyncedCondition_def rec)
  note wr = write_displays [OF assms(1-3) this]
  have "view s' = (view s)(d := (view s d)(k := e))" "state_ok s'" "renders ((view s d)(k := e)) v"
    using view_record [of d k e s] state_ok_record [OF assms(4,5), of d e] record_renders [OF assms(4,5), of d e]
    by (simp_all add: rec wr(1))
  then show ?thesis
    using up_to_dateI [OF wr(2)] by simp
qed

lemma written_condition_store:
  assumes "store_laws api oa st" and "writePoolsSyncedCondition api env d v (w, s) = (w', s')"
  shows "st w' = st w" and "view s' d' k \<in> {None, view s d' k}"
proof -
  obtain status reason message where v: "v = (status, reason, message)"
    by (cases v)
  have "st w' = st w \<and> s' \<in> {s, forget d s}"
  proof (cases "GetDynamicPrefix api w d")
    case (Inl e)
    then show ?thesis
      using assms(2) by (cases e) (auto simp: writePoolsSyncedCondition_def v)
  next
    case (Inr dp)
    obtain entry changed where c: "conditionApplyEntry (ce_meta env) (ce_now env) dp ConditionTypePoolsSynced status reason message = (entry, changed)"
      by (metis surj_pair)
    obtain err w1 where a: "ApplyCondition api w d entry = (err, w1)"
      by (metis surj_pair)
    have "st w1 = st w"
      using store_apartD(1) [OF assms(1), of w d entry] by (simp add: a)
    then show ?thesis
      using assms(2) by (auto simp: writePoolsSyncedCondition_def v Inr c a split: if_splits option.splits api_error.splits)
  qed
  then show "st w' = st w" "view s' d' k \<in> {None, view s d' k}"
    by (auto simp: view_forget)
qed

lemma outcome_store:
  assumes "store_laws api oa st" and "updatePoolsSyncedCondition api env d k e (w, s) = (w', s')"
  shows "st w' = st w"
  using assms(2) written_condition_store(1) [OF assms(1)]
  by (auto simp: updatePoolsSyncedCondition_def Let_def split: prod.splits)

lemma released_entries_gone:
  assumes "store_laws api oa st" and "releasePoolsSyncedEntries api env matching (w, s) = (w', s')"
  shows "st w' = st w" and "matching k \<Longrightarrow> view s' d k = None"
proof -
  have run: "st (fst (fold (\<lambda>d (w, s). let (v, s') = condition d s in writePoolsSyncedCondition api env d v (w, s')) ds (w, s))) = st w \<and>
      view (snd (fold (\<lambda>d (w, s). let (v, s') = condition d s in writePoolsSyncedCondition api env d v (w, s')) ds (w, s))) d k \<in> {None, view s d k}"
    for ds w s d k
  proof (induction ds arbitrary: w s)
    case (Cons x ds)
    obtain v s1 where c: "condition x s = (v, s1)"
      by (metis surj_pair)
    obtain w2 s2 where wr: "writePoolsSyncedCondition api env x v (w, s1) = (w2, s2)"
      by (metis surj_pair)
    have "view s1 = view s"
      using view_condition [of x s] by (simp add: c)
    then show ?case
      using Cons [of w2 s2] written_condition_store(1) [OF assms(1) wr] written_condition_store(2) [OF assms(1) wr, of d k]
      by (auto simp: c wr)
  qed simp
  obtain ds s1 where f: "forgetEntries matching s = (ds, s1)"
    by (metis surj_pair)
  have w': "(w', s') = fold (\<lambda>d (w, s). let (v, s') = condition d s in writePoolsSyncedCondition api env d v (w, s')) ds (w, s1)"
    using assms(2) by (simp add: releasePoolsSyncedEntries_def f)
  show "st w' = st w"
    using run [of ds w s1] unfolding w' [symmetric] by simp
  show "view s' d k = None" if "matching k"
    using run [where ds = ds and w = w and s = s1 and d = d and k = k] that view_forgetEntries [of matching s]
    unfolding w' [symmetric] by (simp add: f)
qed

subsection \<open>A list backend on the cluster\<close>

lemma lists_on_laws: "unstructured_laws (obj_lists oa) \<Longrightarrow> unstructured_laws (lists_on api oa w)"
  by (simp add: unstructured_laws_def lists_on_def)

lemma lists_on_sel [simp]:
  "NestedSlice (lists_on api oa w) = NestedSlice (obj_lists oa)" "SetNestedField (lists_on api oa w) = SetNestedField (obj_lists oa)"
  "GetAnnotations (lists_on api oa w) = GetAnnotations (obj_lists oa)" "SetAnnotations (lists_on api oa w) = SetAnnotations (obj_lists oa)"
  "UpdateObject (lists_on api oa w) p = fst (UpdatePool api w p)"
  by (simp_all add: lists_on_def)

lemma lists_on_records [simp]:
  "recordFor (lists_on api oa w) = recordFor (obj_lists oa)" "setPoolAnnotation (lists_on api oa w) = setPoolAnnotation (obj_lists oa)"
  "setLastSyncAnnotation (lists_on api oa w) = setLastSyncAnnotation (obj_lists oa)"
  by (simp_all add: recordFor_def setPoolAnnotation_def setLastSyncAnnotation_def fun_eq_iff)

lemma syncOwnedList_identity:
  assumes "object_laws oa" and "ols_fields spec = [fieldSpec, f]"
    and "syncOwnedList (lists_on api oa w) now pool spec = (changed, err, pool')"
  shows "same_identity oa pool' pool \<and> (\<not> changed \<longrightarrow> pool' = pool) \<and> (changed \<longrightarrow> (err = None \<longleftrightarrow> fst (UpdatePool api w pool') = None))"
proof -
  have twice: "same_identity oa (setLastSyncAnnotation (obj_lists oa) now (setPoolAnnotation (obj_lists oa) p k v)) p" for p k v
    unfolding setLastSyncAnnotation_def
    by (rule same_identity_trans [OF annotated_identity(1) [OF assms(1)] annotated_identity(1) [OF assms(1)]])
  have "same_identity oa (setLastSyncAnnotation (obj_lists oa) now (setPoolAnnotation (obj_lists oa) p1 k v)) pool"
    if "SetNestedField (obj_lists oa) pool xs [fieldSpec, f] = Ok p1" for p1 k v xs
    by (rule same_identity_trans [OF twice object_lawsD(2) [OF assms(1) that]])
  then show ?thesis
    using assms(3) twice
    by (auto simp: syncOwnedList_def Let_def assms(2) split: sum.splits if_splits)
qed

lemma list_update_identity:
  assumes "object_laws oa" and "list_update b (lists_on api oa w) now pool configs managed = (changed, err, pool')"
  shows "same_identity oa pool' pool \<and> (\<not> changed \<longrightarrow> pool' = pool) \<and> (changed \<longrightarrow> (err = None \<longleftrightarrow> fst (UpdatePool api w pool') = None))"
  using assms by (cases b) (auto simp: list_defs Let_def dest!: syncOwnedList_identity [OF assms(1), rotated] )

subsection \<open>A pass over an annotated pool\<close>

definition state_key :: "poolBackend \<Rightarrow> NamespacedName \<Rightarrow> poolStateKey" where
  "state_key b req = \<lparr>psk_backend = backend_name b, psk_pool = nn_String req\<rparr>"

lemma state_key_ok: "key_ok (state_key b req)"
  by (cases b) (auto simp: key_ok_def state_key_def backend_name_def split: list_backend.split)

text \<open>Once the configurations are built, the rest of a pass is the backend's update and the report of its outcome.\<close>

lemma syncPool_update:
  assumes "ann = GetAnnotations (obj_lists oa) pool" and "ann AnnotationName = Some d" and "GetDynamicPrefix api (sw_cluster sw) d = Ok dp"
    and "buildPoolConfigurations dp (ann AnnotationAddressRange) (ann AnnotationSubnet) = Ok configs"
    and "backend_update api oa env b pool configs (collectManagedPrefixes dp) (sw_cluster sw) = (changed, err, w1, pool')"
    and "syncPool api oa env req pool b sw = (res, sw')"
  shows "\<exists>sw1. sw' = on_state (updatePoolsSyncedCondition api (pe_clock env) d (state_key b req) (map_option (pe_error_text env) err)) sw1 \<and>
     sw_cluster sw1 = w1 \<and> sw_state sw1 = sw_state sw \<and>
     (err \<noteq> None \<longrightarrow> (\<exists>msg. WarningEvent eventReasonPoolSyncFailed msg \<in> set (sw_events sw1))) \<and>
     res = (case err of None \<Rightarrow> Ok 0 | Some e \<Rightarrow> Err e)"
proof -
  have cur: "st_CurrentPrefix (dp_Status dp) \<noteq> []"
    using assms(4) by (auto simp: buildPoolConfigurations_def)
  show ?thesis
  proof (cases err)
    case None
    then show ?thesis
      using assms(6) unfolding syncPool_def assms(1) [symmetric] Let_def
      by (simp only: assms(2-5) cur option.case sum.case prod.case if_False option.map None state_key_def prod.inject not_False_eq_True)
        (elim conjE, rule exI, rule conjI, erule sym, simp add: pool_event_def)
  next
    case (Some e)
    then show ?thesis
      using assms(6) unfolding syncPool_def assms(1) [symmetric] Let_def sync_failed_def
      by (simp only: assms(2-5) cur option.case sum.case prod.case if_False option.map Some state_key_def prod.inject not_False_eq_True)
        (elim conjE, rule exI, rule conjI, erule sym, simp add: pool_event_def, blast)
  qed
qed

text \<open>
  C3: A pass over an annotated list pool does what it says.  When it reports success, the stored pool
  holds the user's entries followed by those of the DynamicPrefix's current and retained prefixes, the
  record names the latter, and the pool is no longer counted as failing.  When it reports an error, no
  stored object has changed, the error is what is remembered under this pool, and a warning has been
  recorded on it.  Either way no other object and no other pool's outcome changes, and the PoolsSynced
  condition in the cluster shows the outcome.
\<close>

theorem pool_pass_contract:
  assumes "object_laws oa" and "store_laws api oa st" and "status_laws api (ce_meta (pe_clock env))" and "accepting api"
    and "state_ok (sw_state sw)" and "st (sw_cluster sw) g req = Some pool"
    and "ann = GetAnnotations (obj_lists oa) pool" and "ann AnnotationName = Some d" and "GetDynamicPrefix api (sw_cluster sw) d = Ok dp"
    and "buildPoolConfigurations dp (ann AnnotationAddressRange) (ann AnnotationSubnet) = Ok configs" and "\<forall>c \<in> set configs. config_text c"
    and "NestedSlice (obj_lists oa) pool (list_path b) = Ok existing"
    and "U = user_entries b (obj_lists oa) pool (collectManagedPrefixes dp) existing"
    and "syncPool api oa env req pool (ListBackend b g) sw = (res, sw')"
  shows "(\<forall>t. res = Ok t \<longrightarrow> (\<exists>pool'. st (sw_cluster sw') g req = Some pool' \<and>
        NestedSlice (obj_lists oa) pool' (list_path b) = Ok (U @ map oe_value (operator_entries b U configs)) \<and>
        GetAnnotations (obj_lists oa) pool' (list_record b) = Some (formatOwnershipRecord (map oe_key (operator_entries b U configs))))) \<and>
     (\<forall>e. res = Err e \<longrightarrow> st (sw_cluster sw') g req = Some pool \<and> (\<exists>msg. WarningEvent eventReasonPoolSyncFailed msg \<in> set (sw_events sw'))) \<and>
     (\<forall>g' n. g' \<noteq> g \<or> n \<noteq> req \<longrightarrow> st (sw_cluster sw') g' n = st (sw_cluster sw) g' n) \<and>
     view (sw_state sw') = (view (sw_state sw))(d := (view (sw_state sw) d)(state_key (ListBackend b g) req :=
       (case res of Inl e \<Rightarrow> Some (pe_error_text env e) | Inr _ \<Rightarrow> None))) \<and>
     up_to_date api (ce_meta (pe_clock env)) (sw_cluster sw') (view (sw_state sw') d) d"
proof -
  let ?w = "sw_cluster sw" and ?k = "state_key (ListBackend b g) req"
  obtain changed err pool' where up: "list_update b (lists_on api oa ?w) (pe_stamp env) pool configs (collectManagedPrefixes dp) = (changed, err, pool')"
    by (metis surj_pair)
  note id = list_update_identity [OF assms(1) up]
  let ?w1 = "if changed then snd (UpdatePool api ?w pool') else ?w"
  have bu: "backend_update api oa env (ListBackend b g) pool configs (collectManagedPrefixes dp) ?w =
      (changed, map_option ListUpdateFailed err, ?w1, pool')"
    by (simp add: backend_update_def written_def up)
  obtain sw1 where sw1: "sw' = on_state (updatePoolsSyncedCondition api (pe_clock env) d ?k
        (map_option (pe_error_text env) (map_option ListUpdateFailed err))) sw1"
    and cl: "sw_cluster sw1 = ?w1" "sw_state sw1 = sw_state sw"
    and ev1: "map_option ListUpdateFailed err \<noteq> None \<Longrightarrow> \<exists>msg. WarningEvent eventReasonPoolSyncFailed msg \<in> set (sw_events sw1)"
    and res1: "res = (case map_option ListUpdateFailed err of None \<Rightarrow> Ok 0 | Some e \<Rightarrow> Err e)"
    using syncPool_update [OF assms(7-10) bu assms(14)] by (elim exE conjE) (rule that, assumption+, blast)
  have ev: "err \<noteq> None \<Longrightarrow> \<exists>msg. WarningEvent eventReasonPoolSyncFailed msg \<in> set (sw_events sw1)"
    using ev1 by simp
  have res: "res = (case err of None \<Rightarrow> Ok 0 | Some e \<Rightarrow> Err (ListUpdateFailed e))"
    using res1 by (cases err) simp_all
  have sw': "sw' = on_state (updatePoolsSyncedCondition api (pe_clock env) d ?k (map_option (pe_error_text env \<circ> ListUpdateFailed) err)) sw1"
    using sw1 by (simp add: option.map_comp)
  obtain w2 s2 where o: "updatePoolsSyncedCondition api (pe_clock env) d ?k (map_option (pe_error_text env \<circ> ListUpdateFailed) err)
      (?w1, sw_state sw) = (w2, s2)"
    by (metis surj_pair)
  have sw2: "sw_cluster sw' = w2" "sw_state sw' = s2" "sw_events sw' = sw_events sw1"
    by (simp_all add: sw' on_state_def cl o)
  have "exists_dp api ?w1 d"
    using assms(9) store_apartD(2) [OF assms(2)] by (simp add: exists_dp_def)
  note out = outcome_written [OF assms(3,4) this assms(5) state_key_ok o]
  have key: "GetGVK oa pool' = g" "object_key oa pool' = req"
    using store_readsD(3) [OF assms(2,6)] same_identity_key [OF conjunct1 [OF id]] by simp_all
  have st1: "st w2 g' n = (if g' = g \<and> n = req \<and> err = None then Some pool' else st ?w g' n)" for g' n
  proof -
    have "st w2 = st ?w1"
      by (rule outcome_store [OF assms(2) o])
    moreover have "st (snd (UpdatePool api ?w pool')) = (if fst (UpdatePool api ?w pool') = None then put oa pool' (Some pool') (st ?w) else st ?w)"
      using store_writesD(1) [OF assms(2), of ?w pool'] by (metis prod.collapse)
    ultimately show ?thesis
      using id key assms(6) by (auto simp: put_def)
  qed
  have "shared_list b (lists_on api oa ?w) pool' (user_entries b (lists_on api oa ?w) pool (collectManagedPrefixes dp) existing) configs" if "err = None"
    using list_update_success [OF lists_on_laws [OF object_lawsD(1) [OF assms(1)]] assms(11)] up that assms(12) by simp
  moreover have "user_entries b (lists_on api oa ?w) pool (collectManagedPrefixes dp) existing = U"
    by (simp add: assms(13) user_entries_def)
  ultimately have good: "NestedSlice (obj_lists oa) pool' (list_path b) = Ok (U @ map oe_value (operator_entries b U configs))"
    "GetAnnotations (obj_lists oa) pool' (list_record b) = Some (formatOwnershipRecord (map oe_key (operator_entries b U configs)))" if "err = None"
    using that by (simp_all add: shared_list_def)
  show ?thesis
    using conjunct1 [OF out] conjunct2 [OF conjunct2 [OF out]] good ev st1 assms(6) by (cases err) (simp_all add: sw2 res)
qed

definition net_dp :: DynamicPrefix where
  "net_dp = sample_dp\<lparr>dp_Status := sample_status\<lparr>st_CurrentPrefix := PrefixString net2, st_History := []\<rparr>\<rparr>"

definition group_gvk :: GroupVersionKind where
  "group_gvk = DefaultCiliumCIDRGroupGVK"

definition demo_group :: demo_object where
  "demo_group =
     \<lparr>do_name = ''lan'', do_ns = [], do_gvk = group_gvk, do_labels = Map.empty, do_ann = [AnnotationName \<mapsto> ''home''],
      do_lists = (\<lambda>_. [JStr (PrefixString user_net)]), do_texts = (\<lambda>_. []), do_data = []\<rparr>"

definition demo_world :: "demo_object \<Rightarrow> demo_cluster sync_world" where
  "demo_world p = \<lparr>sw_cluster = ([p], [''home'' \<mapsto> net_dp]), sw_state = \<lparr>failing = []\<rparr>, sw_events = []\<rparr>"

lemma demo_status_laws: "status_laws demo_api sample_meta" "accepting demo_api"
  by (auto simp: status_laws_def accepting_def demo_api_def table_api_def sample_meta_def Let_def split: option.splits)

lemma demo_facts:
  "collectManagedPrefixes net_dp = [net2]" "buildPoolConfigurations net_dp None None = Ok [net_config net2]"
  "state_ok \<lparr>failing = []\<rparr>" "GetAnnotations (obj_lists demo_objects) = do_ann"
  "NestedSlice (obj_lists demo_objects) p path = Ok (do_lists p path)" "GetDynamicPrefix demo_api (ps, [''home'' \<mapsto> dp]) ''home'' = Ok dp"
  "ce_meta (pe_clock demo_env) = sample_meta"
  by (simp_all add: collectManagedPrefixes_def net_dp_def ParsePrefix_PrefixString buildPoolConfigurations_def buildRawPrefixConfigs_def
      cidr_config_def net_config_def state_ok_def pools_of_def view_def demo_objects_def demo_lists_def demo_api_def table_api_def demo_env_def)

lemma demo_stored: "demo_store ([p], dps) (do_gvk p) (object_key demo_objects p) = Some p"
  by (simp add: demo_store_def)

lemma demo_list_update: "fst (snd (list_update CiliumCIDRGroup (lists_on demo_api demo_objects w) now p configs managed)) = None"
proof -
  have "SetNestedField (obj_lists demo_objects) q (JArr xs) path = Ok (q\<lparr>do_lists := (do_lists q)(path := xs)\<rparr>)" for q xs path
    by (simp add: demo_objects_def demo_lists_def)
  then show ?thesis
    by (simp add: list_defs Let_def syncOwnedList_def demo_calls demo_facts)
qed

theorem pool_pass_contract_witness:
  "\<exists>sw' pool'. syncPool demo_api demo_objects demo_env (cluster_name ''lan'') demo_group (ListBackend CiliumCIDRGroup group_gvk)
       (demo_world demo_group) = (Ok 0, sw') \<and>
     demo_store (sw_cluster sw') group_gvk (cluster_name ''lan'') = Some pool' \<and>
     do_lists pool' (list_path CiliumCIDRGroup) = [JStr (PrefixString user_net), JStr (PrefixString net2)]"
proof -
  let ?b = "ListBackend CiliumCIDRGroup group_gvk" and ?sw = "demo_world demo_group"
  have key: "do_gvk demo_group = group_gvk" "object_key demo_objects demo_group = cluster_name ''lan''"
    by (simp_all add: demo_group_def object_key_def demo_objects_def cluster_name_def)
  have stored: "demo_store (sw_cluster ?sw) group_gvk (cluster_name ''lan'') = Some demo_group"
    using demo_stored [of demo_group] by (simp add: key demo_world_def)
  have ann: "do_ann demo_group AnnotationName = Some ''home''" "do_ann demo_group AnnotationAddressRange = None"
      "do_ann demo_group AnnotationSubnet = None"
    by (simp_all add: demo_group_def AnnotationName_def AnnotationAddressRange_def AnnotationSubnet_def)
  have dp: "GetDynamicPrefix demo_api (sw_cluster ?sw) ''home'' = Ok net_dp" and ok: "state_ok (sw_state ?sw)"
    by (simp_all add: demo_world_def demo_facts)
  obtain changed err w1 pool' where bu: "backend_update demo_api demo_objects demo_env ?b demo_group [net_config net2] (collectManagedPrefixes net_dp)
      (sw_cluster ?sw) = (changed, err, w1, pool')"
    by (metis surj_pair)
  then have "err = None"
    using demo_list_update by (simp add: backend_update_def written_def split: prod.splits) (metis fst_conv option.map_disc_iff snd_conv)
  obtain res sw' where run: "syncPool demo_api demo_objects demo_env (cluster_name ''lan'') demo_group ?b ?sw = (res, sw')"
    by (metis surj_pair)
  have build: "buildPoolConfigurations net_dp (do_ann demo_group AnnotationAddressRange) (do_ann demo_group AnnotationSubnet) = Ok [net_config net2]"
    by (simp add: ann demo_facts)
  have res: "res = Ok 0"
    using syncPool_update [OF refl, of demo_objects demo_group "''home''" demo_api ?sw net_dp "[net_config net2]" demo_env ?b changed err w1 pool'
        "cluster_name ''lan''" res sw'] ann build dp bu run \<open>err = None\<close> by (auto simp: demo_facts(4))
  have U: "user_entries CiliumCIDRGroup (obj_lists demo_objects) demo_group (collectManagedPrefixes net_dp) [JStr (PrefixString user_net)] =
      [JStr (PrefixString user_net)]"
  proof -
    have "\<not> Contains net2 (pfx_ip user_net)"
      by (simp add: net2_def user_net_def Contains_def Zone_def) (simp add: PrefixFrom_def WithZone_def Contains_def Zone_def)
    then show ?thesis
      by (simp add: user_entries_def recordFor_def demo_facts(1,4) list_defs owned_cidr_def isOwnedCIDR_def ParsePrefix_PrefixString
          isPrefixSubsetOfManaged_def demo_group_def AnnotationManagedCIDRs_def AnnotationName_def)
  qed
  have slice: "NestedSlice (obj_lists demo_objects) demo_group (list_path CiliumCIDRGroup) = Ok [JStr (PrefixString user_net)]"
    by (simp add: demo_facts(5) demo_group_def)
  have "status_laws demo_api (ce_meta (pe_clock demo_env))"
    unfolding demo_facts(7) by (rule demo_status_laws)
  from pool_pass_contract [OF demo_object_laws demo_store_laws this demo_status_laws(2) ok stored refl, unfolded demo_facts(4),
      OF ann(1) dp build _ slice refl run]
  have "\<exists>pool'. demo_store (sw_cluster sw') group_gvk (cluster_name ''lan'') = Some pool' \<and>
      NestedSlice (obj_lists demo_objects) pool' (list_path CiliumCIDRGroup) = Ok [JStr (PrefixString user_net), JStr (PrefixString net2)]"
    using config_text_net [of net2] sample_operator_entries by (auto simp: res U)
  then show ?thesis
    using run res by (auto simp: demo_facts(5))
qed

subsection \<open>Handing a pool back\<close>

lemma without_keys_apply: "without_keys ks ann k = (if k \<in> set ks then None else ann k)"
  by (induction ks arbitrary: ann) (auto simp: without_keys_def)

lemma without_keys_upd: "k \<in> set ks \<Longrightarrow> without_keys ks (ann(k := v)) = without_keys ks ann"
  by (simp add: without_keys_apply fun_eq_iff)

lemma record_stray: "list_record b \<in> set stray_keys" "AnnotationManagedKubevipEntries \<in> set stray_keys" "AnnotationManagedCIDR \<in> set stray_keys"
  by (cases b) (simp_all add: list_record_def stray_keys_def)

text \<open>What a backend's release does to the object it is given: its annotations, and that it stays the same object.\<close>

definition release_frame :: "'o object_api \<Rightarrow> 'o \<Rightarrow> bool \<Rightarrow> 'o \<Rightarrow> bool" where
  "release_frame oa pool changed pool' \<longleftrightarrow>
     same_identity oa pool' pool \<and> (\<not> changed \<longrightarrow> GetAnnotations (obj_lists oa) pool' = GetAnnotations (obj_lists oa) pool) \<and>
     without_keys stray_keys (GetAnnotations (obj_lists oa) pool') = without_keys stray_keys (GetAnnotations (obj_lists oa) pool)"

lemma list_release_frame:
  assumes "object_laws oa" and "list_release b (obj_lists oa) pool = (changed, None, pool')"
  shows "release_frame oa pool changed pool'"
proof (cases "GetAnnotations (obj_lists oa) pool (list_record b)")
  case None
  then show ?thesis
    using assms(2) by (auto simp: list_release_def releaseRecordedSlice_def release_frame_def)
next
  case (Some v)
  obtain f where f: "list_path b = [fieldSpec, f]"
    by (cases b) (auto simp: list_path_def)
  obtain kept p1 where set: "SetNestedField (obj_lists oa) pool (JArr kept) [fieldSpec, f] = Ok p1"
    and p': "changed" "pool' = SetAnnotations (obj_lists oa) p1 ((GetAnnotations (obj_lists oa) p1)(list_record b := None))"
    using assms(2) Some by (auto simp: list_release_def releaseRecordedSlice_def f Let_def split: sum.splits)
  note ul = unstructured_lawsD [OF object_lawsD(1) [OF assms(1)]]
  have "same_identity oa pool' pool"
    unfolding p' by (rule same_identity_trans [OF object_lawsD(4) [OF assms(1)] object_lawsD(2) [OF assms(1) set]])
  then show ?thesis
    using ul(2) [OF set] by (simp add: release_frame_def p' ul(3) without_keys_upd record_stray)
qed

lemma kubevip_release_frame:
  assumes "object_laws oa" and "data_laws (obj_lists oa) (obj_data oa)"
    and "kubevip_release (obj_lists oa) (obj_data oa) pool = (changed, None, pool')"
  shows "release_frame oa pool changed pool'"
proof (cases "recordFor (obj_lists oa) pool AnnotationManagedKubevipEntries")
  case None
  then show ?thesis
    using assms(3) by (auto simp: kubevip_release_def release_frame_def)
next
  case (Some v)
  obtain data p1 where set: "SetNestedStringMap (obj_data oa) pool data = Ok p1"
    and p': "changed" "pool' = SetAnnotations (obj_lists oa) p1 ((GetAnnotations (obj_lists oa) p1)(AnnotationManagedKubevipEntries := None))"
    using assms(3) Some by (auto simp: kubevip_release_def Let_def split: sum.splits)
  have "same_identity oa pool' pool"
    unfolding p' by (rule same_identity_trans [OF object_lawsD(4) [OF assms(1)] object_lawsD(6) [OF assms(1) set]])
  then show ?thesis
    using data_lawsD(2) [OF assms(2) set] by (simp add: release_frame_def p' data_lawsD(4) [OF assms(2)] without_keys_upd record_stray)
qed

lemma calico_release_frame:
  assumes "object_laws oa" and "store_laws api oa st" and "range_laws env"
    and "st w g req = Some pool" and "\<not> matches oa (sibling_labels (GetName oa pool)) pool"
    and "calico_release api oa env g pool w = (changed, None, w', pool')"
  shows "release_frame oa pool changed pool' \<and> st w' g req = Some pool"
proof -
  obtain c where sync: "syncDrainingSiblings api oa env g pool [] w = (c, None, w')"
    and p': "pool' = (if GetAnnotations (obj_lists oa) pool AnnotationManagedCIDR \<noteq> None
       then SetAnnotations (obj_lists oa) pool ((GetAnnotations (obj_lists oa) pool)(AnnotationManagedCIDR := None)) else pool)"
    "changed = (GetAnnotations (obj_lists oa) pool AnnotationManagedCIDR \<noteq> None \<or> c)"
    using assms(6) by (auto simp: calico_release_def Let_def split: prod.splits option.splits if_splits)
  have "digests_differ env (draining_cidrs [])"
    by (simp add: digests_differ_def draining_cidrs_def)
  from siblings_ok(3) [OF assms(1-3) this sync, of g req] have "st w' g req = Some pool"
    using assms(4,5) by (simp add: sibling_names_def draining_cidrs_def)
  then show ?thesis
    using object_lawsD(4) [OF assms(1)] unstructured_lawsD(3) [OF object_lawsD(1) [OF assms(1)]] by (simp add: release_frame_def p' without_keys_upd record_stray)
qed

lemma backend_release_frame:
  assumes "object_laws oa" and "data_laws (obj_lists oa) (obj_data oa)" and "store_laws api oa st" and "range_laws env"
    and "st w (backend_gvk b) req = Some pool" and "\<not> matches oa (sibling_labels (GetName oa pool)) pool"
    and "backend_release api oa env b pool w = (changed, None, w', pool')"
  shows "release_frame oa pool changed pool' \<and> st w' (backend_gvk b) req = Some pool"
proof (cases b)
  case (ListBackend lb g)
  then show ?thesis
    using assms(5,7) list_release_frame [OF assms(1), of lb pool] by (auto simp: backend_release_def backend_gvk_def split: prod.splits)
next
  case (calicoIPPoolBackend g)
  then show ?thesis
    using calico_release_frame [OF assms(1,3,4) _ assms(6), of w g req] assms(5,7) by (simp add: backend_release_def backend_gvk_def)
next
  case (kubevipConfigMapBackend g)
  then show ?thesis
    using assms(5,7) kubevip_release_frame [OF assms(1,2), of pool] by (auto simp: backend_release_def backend_gvk_def split: prod.splits)
qed

lemma ownership_keys_split:
  assumes "ann AnnotationManagedIPs = None" and "ann AnnotationManagedTargets = None"
  shows "hasOwnershipRecord ann \<Longrightarrow> list_ex (\<lambda>k. ann k \<noteq> None) stray_keys" and "\<not> hasOwnershipRecord (without_keys stray_keys ann)"
  using assms by (auto simp: hasOwnershipRecord_def ownership_keys_def stray_keys_def without_keys_apply)


lemma demo_data_laws: "data_laws (obj_lists demo_objects) (obj_data demo_objects)"
  by (simp add: data_laws_def demo_objects_def demo_lists_def AList.map_of_clearjunk AList.distinct_clearjunk)

definition demo_left :: demo_object where
  "demo_left = demo_group\<lparr>do_ann := [AnnotationManagedCIDRs \<mapsto> PrefixString net1]\<rparr>"

definition failing_world :: "demo_object \<Rightarrow> demo_cluster sync_world" where
  "failing_world p = (demo_world p)\<lparr>sw_state := \<lparr>failing = [(''home'', [(state_key (ListBackend CiliumCIDRGroup group_gvk) (cluster_name ''lan''), ''refused'')])]\<rparr>\<rparr>"

lemmas annotation_names = AnnotationName_def AnnotationSubnet_def AnnotationAddressRange_def AnnotationManagedIPs_def AnnotationManagedTargets_def
  AnnotationManagedBlocks_def AnnotationManagedAddresses_def AnnotationManagedCIDRs_def AnnotationManagedCIDR_def
  AnnotationManagedKubevipEntries_def AnnotationLastSync_def

lemma demo_left_ann:
  "do_ann demo_left AnnotationName = None" "do_ann demo_left AnnotationManagedIPs = None" "do_ann demo_left AnnotationManagedTargets = None"
  "do_ann demo_left AnnotationManagedCIDRs = Some (PrefixString net1)" "hasOwnershipRecord (do_ann demo_left)"
  by (simp_all add: demo_left_def hasOwnershipRecord_def ownership_keys_def) (simp_all add: annotation_names)


subsection \<open>A failure nobody takes back\<close>

text \<open>
  A pool that failed before anything was written to it has no record.  When the user then removes
  the annotation that made it fail, the object is no longer watched, a pass over it does nothing, and
  the DynamicPrefix goes on naming it as out of sync.
\<close>

theorem abandoned_failure_stays_reported:
  assumes "status_laws api (ce_meta (pe_clock env))" and "accepting api" and "state_ok (sw_state sw)"
    and "ann = GetAnnotations (obj_lists oa) pool" and "ann AnnotationName = Some d" and "GetDynamicPrefix api (sw_cluster sw) d = Ok dp"
    and "st_CurrentPrefix (dp_Status dp) \<noteq> []"
    and "buildPoolConfigurations dp (ann AnnotationAddressRange) (ann AnnotationSubnet) = Err e"
    and "syncPool api oa env req pool b sw = (res, sw1)"
    and "GetAnnotations (obj_lists oa) pool' AnnotationName = None" and "\<not> hasOwnershipRecord (GetAnnotations (obj_lists oa) pool')"
  shows "syncPool api oa env' req pool' b sw1 = (Ok 0, sw1) \<and> \<not> pool_watch (GetAnnotations (obj_lists oa) pool') \<and>
     view (sw_state sw1) d (state_key b req) = Some (pe_error_text env (BuildFailed e)) \<and>
     (\<exists>v. displays api (ce_meta (pe_clock env)) (sw_cluster sw1) d v \<and> fst v = ConditionFalse)"
proof -
  let ?k = "state_key b req" and ?e = "Some (pe_error_text env (BuildFailed e))"
  obtain w1 s1 where o: "updatePoolsSyncedCondition api (pe_clock env) d ?k ?e (sw_cluster sw, sw_state sw) = (w1, s1)"
    by (metis surj_pair)
  have sw1: "sw_cluster sw1 = w1" "sw_state sw1 = s1"
    using assms(9) o by (auto simp: syncPool_def assms(4) [symmetric] assms(5-8) sync_failed_def on_state_def pool_event_def state_key_def)
  have "exists_dp api (sw_cluster sw) d"
    using assms(6) by (simp add: exists_dp_def)
  note out = outcome_written [OF assms(1,2) this assms(3) state_key_ok o]
  have vw: "view s1 d ?k = ?e"
    using conjunct1 [OF out] by simp
  obtain v where v: "displays api (ce_meta (pe_clock env)) w1 d v" "renders (view s1 d) v"
    using out by (auto simp: up_to_date_def)
  have "dom (view s1 d) \<noteq> {}"
    using vw by blast
  then have "fst v = ConditionFalse"
    using v(2) by (auto simp: renders_def failed_verdict_def)
  then show ?thesis
    unfolding sw1 using vw v(1) assms(10,11) by (intro conjI exI [of _ v]) (simp_all add: syncPool_def pool_watch_def)
qed

definition typo_group :: demo_object where
  "typo_group = demo_group\<lparr>do_ann := [AnnotationName \<mapsto> ''home'', AnnotationSubnet \<mapsto> ''lna'']\<rparr>"

theorem abandoned_failure_stays_reported_witness:
  "\<exists>e sw1. syncPool demo_api demo_objects demo_env (cluster_name ''lan'') typo_group (ListBackend CiliumCIDRGroup group_gvk)
       (demo_world typo_group) = (Err e, sw1) \<and>
     syncPool demo_api demo_objects demo_env (cluster_name ''lan'') (typo_group\<lparr>do_ann := Map.empty\<rparr>)
       (ListBackend CiliumCIDRGroup group_gvk) sw1 = (Ok 0, sw1) \<and>
     (\<exists>v. displays demo_api sample_meta (sw_cluster sw1) ''home'' v \<and> fst v = ConditionFalse)"
proof -
  let ?b = "ListBackend CiliumCIDRGroup group_gvk" and ?sw = "demo_world typo_group" and ?n = "cluster_name ''lan''"
  have ann: "do_ann typo_group AnnotationName = Some ''home''" "do_ann typo_group AnnotationAddressRange = None"
    "do_ann typo_group AnnotationSubnet = Some ''lna''"
    by (simp_all add: typo_group_def annotation_names)
  have dp: "GetDynamicPrefix demo_api (sw_cluster ?sw) ''home'' = Ok net_dp" and ok: "state_ok (sw_state ?sw)"
    by (simp_all add: demo_world_def demo_facts)
  have cur: "st_CurrentPrefix (dp_Status net_dp) \<noteq> []"
    by (simp add: net_dp_def)
  have build: "buildPoolConfigurations net_dp (do_ann typo_group AnnotationAddressRange) (do_ann typo_group AnnotationSubnet) =
      Err (NotInStatusOrSpec KindSubnet ''lna'')"
    by (simp add: ann buildPoolConfigurations_def buildSubnetConfigs_def buildModeConfigs_def findSubnetSpec_def findSubnetInStatus_def
        net_dp_def sample_dp_def sample_status_def)
  obtain e sw1 where run: "syncPool demo_api demo_objects demo_env ?n typo_group ?b ?sw = (Err e, sw1)"
    using dp cur build by (simp add: syncPool_def demo_facts(4) ann)
  have laws: "status_laws demo_api (ce_meta (pe_clock demo_env))"
    unfolding demo_facts(7) by (rule demo_status_laws)
  have none: "do_ann (typo_group\<lparr>do_ann := Map.empty\<rparr>) AnnotationName = None" "\<not> hasOwnershipRecord (do_ann (typo_group\<lparr>do_ann := Map.empty\<rparr>))"
    by (simp_all add: hasOwnershipRecord_def ownership_keys_def)
  show ?thesis
    using abandoned_failure_stays_reported [OF laws demo_status_laws(2) ok refl [of "GetAnnotations (obj_lists demo_objects) typo_group"], unfolded demo_facts(4),
        OF ann(1) dp cur build run none, of demo_env] run
    unfolding demo_facts(7) by blast
qed

subsection \<open>The whole pass\<close>

lemma state_ok_write: "state_ok s \<Longrightarrow> state_ok (snd (writePoolsSyncedCondition api env d v (w, s)))"
  using state_ok_forget [of s d]
  by (auto simp: writePoolsSyncedCondition_def Let_def case_prod_beta split: option.split api_error.split)

lemma state_ok_update: "state_ok s \<Longrightarrow> key_ok k \<Longrightarrow> state_ok (snd (updatePoolsSyncedCondition api env d k e (w, s)))"
  using state_ok_write [OF state_ok_record [of s k d e], of api env d _ w] by (simp add: updatePoolsSyncedCondition_def case_prod_beta Let_def)

lemma state_ok_rewrite:
  "state_ok (snd ws) \<Longrightarrow>
     state_ok (snd (fold (\<lambda>d (w, s). let (v, s') = condition d s in writePoolsSyncedCondition api env d v (w, s')) ds ws))"
proof (induction ds arbitrary: ws)
  case (Cons d ds)
  obtain w s where ws: "ws = (w, s)"
    by (cases ws)
  have "state_ok (snd (writePoolsSyncedCondition api env d (fst (condition d s)) (w, snd (condition d s))))"
    using Cons.prems by (intro state_ok_write state_ok_condition) (simp add: ws)
  then show ?case
    using Cons.IH by (simp add: ws case_prod_beta Let_def)
qed simp

lemma state_ok_released: "state_ok s \<Longrightarrow> state_ok (snd (releasePoolsSyncedEntries api env matching (w, s)))"
  using state_ok_rewrite [of "(w, snd (forgetEntries matching s))"] state_ok_forgetEntries [of s matching]
  by (simp add: releasePoolsSyncedEntries_def case_prod_beta Let_def)

lemma on_state_state: "sw_state (on_state f sw) = snd (f (sw_cluster sw, sw_state sw))"
  by (simp add: on_state_def case_prod_beta Let_def)

lemma pool_event_state [simp]: "sw_state (pool_event e sw) = sw_state sw"
  by (simp add: pool_event_def)

lemma state_ok_releasePool: "state_ok (sw_state sw) \<Longrightarrow> state_ok (sw_state (snd (releasePool api oa env b pool reason sw)))"
  by (simp add: releasePool_def Let_def on_state_state state_ok_released split: prod.split option.split)

lemma state_ok_syncPool:
  assumes "state_ok (sw_state sw)"
  shows "state_ok (sw_state (snd (syncPool api oa env req pool b sw)))"
proof -
  have k: "key_ok \<lparr>psk_backend = backend_name b, psk_pool = nn_String req\<rparr>"
    using state_key_ok [of b req] by (simp add: state_key_def)
  have rel: "state_ok (sw_state (snd (case releasePool api oa env b pool reason sw of
      (Some e, sw) \<Rightarrow> (Err e :: pool_error + duration, sw) | (None, sw) \<Rightarrow> (Ok 0, sw))))" for reason
    using state_ok_releasePool [OF assms, of api oa env b pool reason] by (auto split: prod.split option.split)
  show ?thesis
    unfolding syncPool_def Let_def using assms rel
    by (simp add: on_state_state state_ok_update [OF _ k] sync_failed_def split: option.split sum.split api_error.split prod.split)
qed

lemma state_ok_matches: "state_ok (sw_state sw) \<Longrightarrow> state_ok (sw_state (snd (snd (sync_matches api oa env req ms errs t sw))))"
proof (induction ms arbitrary: errs t sw)
  case (Cons m ms)
  obtain pool b where m: "m = (pool, b)"
    by (cases m)
  obtain res sw1 where "syncPool api oa env req pool b sw = (res, sw1)"
    by (metis surj_pair)
  then show ?case
    using Cons.IH [of sw1] state_ok_syncPool [OF Cons.prems, of api oa env req pool b] by (cases res) (simp_all add: m)
qed simp



lemma get_pools_exact:
  "get_pools api w name bs ms err = (ms', err') \<Longrightarrow>
     set ms' = set ms \<union> {(p, b). b \<in> set bs \<and> namespaced b = (nn_Namespace name \<noteq> []) \<and> GetPool api w (backend_gvk b) name = Ok p} \<and>
     (\<forall>e. err' = Some e \<longrightarrow> err = Some e \<or> e \<noteq> NotFoundError \<and> (\<exists>b \<in> set bs. GetPool api w (backend_gvk b) name = Err e))"
proof (induction bs arbitrary: ms err)
  case (Cons b bs)
  show ?case
  proof (cases "namespaced b = (nn_Namespace name \<noteq> [])")
    case False
    then show ?thesis
      using Cons.IH [of ms err] Cons.prems by auto
  next
    case True
    show ?thesis
    proof (cases "GetPool api w (backend_gvk b) name")
      case (Inl e)
      then show ?thesis
        using True Cons.IH [of ms err] Cons.IH [of ms "Some e"] Cons.prems by (cases e) auto
    next
      case (Inr p)
      then show ?thesis
        using True Cons.IH [of "ms @ [(p, b)]" err] Cons.prems by auto
    qed
  qed
qed auto

text \<open>A pass reaches every object that answers to the name in the request's scope, of whatever kind, and no other.\<close>

lemma getPools_exact:
  assumes "getPools api r w name = (ms, None)"
  shows "set ms = {(p, b). b \<in> set (poolBackends r) \<and> namespaced b = (nn_Namespace name \<noteq> []) \<and> GetPool api w (backend_gvk b) name = Ok p}"
proof -
  obtain ms' err where "get_pools api w name (poolBackends r) [] None = (ms', err)"
    by (metis surj_pair)
  from get_pools_exact [OF this] this show ?thesis
    using assms by (auto simp: getPools_def split: if_splits)
qed

text \<open>
  A pool that is gone is forgotten.  When no backend of the request's scope has an object of that
  name, the pass succeeds, touches no object, and leaves nothing remembered as failing under the name,
  for any DynamicPrefix and any kind of pool.
\<close>

theorem vanished_pool_is_forgotten:
  assumes "store_laws api oa st"
    and "\<forall>b \<in> set (poolBackends r). namespaced b = (nn_Namespace req \<noteq> []) \<longrightarrow> GetPool api (sw_cluster sw) (backend_gvk b) req = Err NotFoundError"
    and "pool_Reconcile api oa env r req sw = (res, sw')"
  shows "res = Ok 0 \<and> st (sw_cluster sw') = st (sw_cluster sw) \<and>
     (\<forall>d k. psk_pool k = nn_String req \<longrightarrow> view (sw_state sw') d k = None)"
proof -
  have quiet: "get_pools api (sw_cluster sw) req bs [] None = ([], None)"
    if "\<forall>b \<in> set bs. namespaced b = (nn_Namespace req \<noteq> []) \<longrightarrow> GetPool api (sw_cluster sw) (backend_gvk b) req = Err NotFoundError" for bs
    using that by (induction bs) auto
  have none: "getPools api r (sw_cluster sw) req = ([], None)"
    using quiet [OF assms(2)] by (simp add: getPools_def)
  obtain w s where re: "releasePoolsSyncedEntries api (pe_clock env) (\<lambda>key. psk_pool key = nn_String req) (sw_cluster sw, sw_state sw) = (w, s)"
    by (metis surj_pair)
  have "res = Ok 0" "sw_cluster sw' = w" "sw_state sw' = s"
    using assms(3) by (auto simp: pool_Reconcile_def none on_state_def re)
  then show ?thesis
    using released_entries_gone [OF assms(1) re] by auto
qed

theorem vanished_pool_is_forgotten_witness:
  "let req = cluster_name ''lan'';
       sw = (failing_world demo_group)\<lparr>sw_cluster := ([], [''home'' \<mapsto> net_dp])\<rparr>;
       (res, sw') = pool_Reconcile demo_api demo_objects demo_env \<lparr>psr_CiliumVersions = None, psr_BackendGVKs = []\<rparr> req sw
   in view (sw_state sw) ''home'' (state_key (ListBackend CiliumCIDRGroup group_gvk) req) = Some ''refused'' \<and>
      res = Ok 0 \<and> view (sw_state sw') ''home'' (state_key (ListBackend CiliumCIDRGroup group_gvk) req) = None"
proof -
  let ?r = "\<lparr>psr_CiliumVersions = None, psr_BackendGVKs = []\<rparr>" and ?req = "cluster_name ''lan''"
  let ?sw = "(failing_world demo_group)\<lparr>sw_cluster := ([], [''home'' \<mapsto> net_dp])\<rparr>"
  obtain res sw' where run: "pool_Reconcile demo_api demo_objects demo_env ?r ?req ?sw = (res, sw')"
    by (metis surj_pair)
  have "\<forall>b \<in> set (poolBackends ?r). namespaced b = (nn_Namespace ?req \<noteq> []) \<longrightarrow>
      GetPool demo_api (sw_cluster ?sw) (backend_gvk b) ?req = Err NotFoundError"
    by (simp add: demo_calls demo_store_def)
  from vanished_pool_is_forgotten [OF demo_store_laws this run]
  have "res = Ok 0" "view (sw_state sw') ''home'' (state_key (ListBackend CiliumCIDRGroup group_gvk) ?req) = None"
    by (simp_all add: state_key_def)
  moreover have "view (sw_state ?sw) ''home'' (state_key (ListBackend CiliumCIDRGroup group_gvk) ?req) = Some ''refused''"
    by (simp add: failing_world_def view_def pools_of_def)
  ultimately show ?thesis
    unfolding run Let_def prod.case by blast
qed

end
