(* ===== verification/CrowdSec.thy ===== *)
theory CrowdSec
  imports Pool_Status Owned_List
begin

text \<open>
  CrowdSec allow markers (\<^verbatim>\<open>internal/controller/crowdsec_controller.go\<close>): one allow decision in CrowdSec's
  Local API for the current prefix and each draining one of the configured DynamicPrefixes.  The Local
  API is a record of three operations, as the controller's interface \<^verbatim>\<open>crowdsecMarkerAPI\<close> has them;
  \<^verbatim>\<open>CrowdSec_LAPI\<close> shows that the HTTP client provides them.
\<close>

subsection \<open>The trusted prefixes\<close>

definition DefaultCrowdSecMaxMarkers :: int where "DefaultCrowdSecMaxMarkers = 3"
definition crowdsecMinPrefixLen :: int where "crowdsecMinPrefixLen = 48"
definition crowdsecMaxPrefixLen :: int where "crowdsecMaxPrefixLen = 64"
definition eventReasonCrowdSecMarkerCreated :: string where "eventReasonCrowdSecMarkerCreated = ''CrowdSecMarkerCreated''"
definition eventReasonCrowdSecMarkerRemoved :: string where "eventReasonCrowdSecMarkerRemoved = ''CrowdSecMarkerRemoved''"
definition eventReasonCrowdSecMarkerFailed :: string where "eventReasonCrowdSecMarkerFailed = ''CrowdSecMarkerFailed''"
definition eventReasonCrowdSecMarkerRefused :: string where "eventReasonCrowdSecMarkerRefused = ''CrowdSecMarkerRefused''"
definition eventReasonCrowdSecMarkerDropped :: string where "eventReasonCrowdSecMarkerDropped = ''CrowdSecMarkerDropped''"

definition globalUnicast :: ipprefix where
  "globalUnicast = PrefixFrom (Addr6 0x20000000000000000000000000000000 []) 3"

definition crowdsecTrustedPrefixes :: "DynamicPrefix \<Rightarrow> string list" where
  "crowdsecTrustedPrefixes dp =
     (if st_CurrentPrefix (dp_Status dp) = [] then []
      else fold (\<lambda>entry prefixes.
             if hist_State entry = PrefixStateExpired \<or> hist_Prefix entry \<in> set prefixes then prefixes
             else prefixes @ [hist_Prefix entry])
           (rev (st_History (dp_Status dp))) [st_CurrentPrefix (dp_Status dp)])"

datatype marker_refusal =
    DoesNotParse string prefix_error
  | NotIPv6 string
  | OutsideGlobalUnicast string
  | LengthOutOfBounds string
  | NotCanonical string string

definition checkMarkerPrefix :: "string \<Rightarrow> marker_refusal option" where
  "checkMarkerPrefix p =
     (case netip_ParsePrefix p of
        Inl e \<Rightarrow> Some (DoesNotParse p e)
      | Inr pfx \<Rightarrow>
          if \<not> Is6 (pfx_ip pfx) \<or> Is4In6 (pfx_ip pfx) then Some (NotIPv6 p)
          else if \<not> Contains globalUnicast (pfx_ip pfx) then Some (OutsideGlobalUnicast p)
          else if Bits pfx < crowdsecMinPrefixLen \<or> Bits pfx > crowdsecMaxPrefixLen then Some (LengthOutOfBounds p)
          else if PrefixString (Masked pfx) \<noteq> p then Some (NotCanonical p (PrefixString (Masked pfx)))
          else None)"

fun validateMarkerPrefixes :: "string list \<Rightarrow> marker_refusal option" where
  "validateMarkerPrefixes [] = None"
| "validateMarkerPrefixes (p # ps) = (case checkMarkerPrefix p of Some r \<Rightarrow> Some r | None \<Rightarrow> validateMarkerPrefixes ps)"

subsection \<open>Markers\<close>

record crowdsecMarker =
  mk_Value :: string
  mk_Owner :: string

record 'l marker_api =
  listMarkers :: "'l \<Rightarrow> (string + crowdsecMarker list) \<times> 'l"
  createMarker :: "'l \<Rightarrow> string \<Rightarrow> string \<Rightarrow> string option \<times> 'l"
  deleteMarker :: "'l \<Rightarrow> string \<Rightarrow> string option \<times> 'l"

text \<open>The endpoints of the Local API's Service: for each slice, what each endpoint says of being ready.\<close>

record 'c crowdsec_api = "'c status_api" +
  ListEndpoints :: "'c \<Rightarrow> string \<times> string \<Rightarrow> string + bool option list list"

record CrowdSecMarkerReconciler =
  cr_DynamicPrefixes :: "string list"
  cr_MaxMarkers :: int
  cr_LAPIService :: "(string \<times> string) option"

record ('c, 'l) marker_world =
  mw_cluster :: 'c
  mw_lapi :: 'l
  mw_events :: "k_event list"

datatype marker_error =
    MarkerGetFailed api_error
  | EndpointsFailed string
  | ListMarkersFailed string
  | CreateMarkerFailed string string
  | ExpireMarkerFailed string string

definition marker_event :: "k_event \<Rightarrow> ('c, 'l) marker_world \<Rightarrow> ('c, 'l) marker_world" where
  "marker_event e st = st\<lparr>mw_events := mw_events st @ [e]\<rparr>"

definition owned_values :: "string \<Rightarrow> crowdsecMarker list \<Rightarrow> string list" where
  "owned_values name markers =
     fold (\<lambda>m owned. if mk_Owner m = name \<and> mk_Value m \<notin> set owned then owned @ [mk_Value m] else owned) markers []"

fun create_markers ::
  "'l marker_api \<Rightarrow> string \<Rightarrow> string set \<Rightarrow> string list \<Rightarrow> ('c, 'l) marker_world \<Rightarrow> marker_error option \<times> ('c, 'l) marker_world" where
  "create_markers lapi name present [] st = (None, st)"
| "create_markers lapi name present (p # ps) st =
     (if p \<in> present then create_markers lapi name present ps st
      else case createMarker lapi (mw_lapi st) name p of
        (Some e, l) \<Rightarrow> (Some (CreateMarkerFailed p e), st\<lparr>mw_lapi := l\<rparr>)
      | (None, l) \<Rightarrow> create_markers lapi name present ps
          (marker_event (NormalEvent eventReasonCrowdSecMarkerCreated (''Created CrowdSec allow marker for '' @ p)) (st\<lparr>mw_lapi := l\<rparr>)))"

fun expire_markers ::
  "'l marker_api \<Rightarrow> string set \<Rightarrow> bool \<Rightarrow> string list \<Rightarrow> ('c, 'l) marker_world \<Rightarrow> marker_error option \<times> ('c, 'l) marker_world" where
  "expire_markers lapi desired found [] st = (None, st)"
| "expire_markers lapi desired found (p # ps) st =
     (if p \<in> desired then expire_markers lapi desired found ps st
      else case deleteMarker lapi (mw_lapi st) p of
        (Some e, l) \<Rightarrow> (Some (ExpireMarkerFailed p e), st\<lparr>mw_lapi := l\<rparr>)
      | (None, l) \<Rightarrow> expire_markers lapi desired found ps
          ((if found then marker_event (NormalEvent eventReasonCrowdSecMarkerRemoved (''Expired CrowdSec allow marker for '' @ p)) else (\<lambda>st. st))
             (st\<lparr>mw_lapi := l\<rparr>)))"

definition marker_sync ::
  "'l marker_api \<Rightarrow> string \<Rightarrow> string list \<Rightarrow> bool \<Rightarrow> ('c, 'l) marker_world \<Rightarrow> marker_error option \<times> ('c, 'l) marker_world" where
  "marker_sync lapi name desired found st =
     (case listMarkers lapi (mw_lapi st) of
        (Inl e, l) \<Rightarrow> (Some (ListMarkersFailed e), st\<lparr>mw_lapi := l\<rparr>)
      | (Inr markers, l) \<Rightarrow>
          (case create_markers lapi name (set (map mk_Value markers)) desired (st\<lparr>mw_lapi := l\<rparr>) of
             (Some e, st) \<Rightarrow> (Some e, st)
           | (None, st) \<Rightarrow> expire_markers lapi (set desired) found (owned_values name markers) st))"

subsection \<open>The reconcile\<close>

definition lapiReady :: "'c crowdsec_api \<Rightarrow> CrowdSecMarkerReconciler \<Rightarrow> 'c \<Rightarrow> string + bool" where
  "lapiReady api r c =
     (case cr_LAPIService r of
        None \<Rightarrow> Ok True
      | Some svc \<Rightarrow>
          (case ListEndpoints api c svc of
             Inl e \<Rightarrow> Err e
           | Inr slices \<Rightarrow> Ok (list_ex (list_ex (\<lambda>ready. ready \<noteq> Some False)) slices)))"

definition writeCondition ::
  "'c crowdsec_api \<Rightarrow> clock_env \<Rightarrow> DynamicPrefix \<Rightarrow> ConditionStatus \<Rightarrow> string \<Rightarrow> string \<Rightarrow> ('c, 'l) marker_world \<Rightarrow> ('c, 'l) marker_world" where
  "writeCondition api env dp status reason message st =
     (let (entry, changed) = conditionApplyEntry (ce_meta env) (ce_now env) dp ConditionTypeCrowdSecMarkersSynced status reason message
      in if \<not> changed then st else st\<lparr>mw_cluster := snd (ApplyCondition api (mw_cluster st) (dp_Name dp) entry)\<rparr>)"

definition marker_report ::
  "'c crowdsec_api \<Rightarrow> clock_env \<Rightarrow> DynamicPrefix \<Rightarrow> string \<Rightarrow> string \<Rightarrow> ('c, 'l) marker_world \<Rightarrow> ('c, 'l) marker_world" where
  "marker_report api env dp reason msg st =
     writeCondition api env dp ConditionFalse reason msg (marker_event (WarningEvent reason msg) st)"

text \<open>The texts of refusals and errors.\<close>

record marker_texts =
  mt_refusal :: "marker_refusal \<Rightarrow> string"
  mt_error :: "marker_error \<Rightarrow> string"

definition dropped_message :: "int \<Rightarrow> string list \<Rightarrow> string" where
  "dropped_message maxMarkers trusted =
     dec (length trusted) @ '' trusted prefixes exceed crowdsec max markers '' @ dec (nat maxMarkers) @
     ''; not keeping markers for the oldest: '' @ join_with '', '' (drop (nat maxMarkers) trusted)"

text \<open>The markers that should be there, and the warning when not all prefixes get one.\<close>

definition cut_markers :: "int \<Rightarrow> string list \<Rightarrow> ('c, 'l) marker_world \<Rightarrow> string list \<times> ('c, 'l) marker_world" where
  "cut_markers maxMarkers trusted st =
     (if int (length trusted) > maxMarkers
      then (take (nat maxMarkers) trusted, marker_event (WarningEvent eventReasonCrowdSecMarkerDropped (dropped_message maxMarkers trusted)) st)
      else (trusted, st))"

definition marker_pass ::
  "'c crowdsec_api \<Rightarrow> 'l marker_api \<Rightarrow> clock_env \<Rightarrow> marker_texts \<Rightarrow> CrowdSecMarkerReconciler \<Rightarrow> string \<Rightarrow> string list \<Rightarrow>
     DynamicPrefix option \<Rightarrow> ('c, 'l) marker_world \<Rightarrow> marker_error option \<times> ('c, 'l) marker_world" where
  "marker_pass api lapi env txts r name desired dpo st =
     (case lapiReady api r (mw_cluster st) of
        Inl e \<Rightarrow> (Some (EndpointsFailed e), st)
      | Inr False \<Rightarrow> (None, st)
      | Inr True \<Rightarrow>
          (case marker_sync lapi name desired (dpo \<noteq> None) st of
             (Some e, st) \<Rightarrow>
               (Some e, case dpo of
                  None \<Rightarrow> st
                | Some dp \<Rightarrow> marker_report api env dp eventReasonCrowdSecMarkerFailed (''CrowdSec marker sync failed: '' @ mt_error txts e) st)
           | (None, st) \<Rightarrow>
               (None, case dpo of
                  None \<Rightarrow> st
                | Some dp \<Rightarrow> writeCondition api env dp ConditionTrue ''MarkersSynced'' (''CrowdSec markers cover '' @ join_with '', '' desired) st)))"

text \<open>
  A negative bound makes the slice expression panic, which is \<open>None\<close>; the process refuses to start with
  one.
\<close>

definition marker_Reconcile ::
  "'c crowdsec_api \<Rightarrow> 'l marker_api \<Rightarrow> clock_env \<Rightarrow> marker_texts \<Rightarrow> CrowdSecMarkerReconciler \<Rightarrow> string \<Rightarrow> ('c, 'l) marker_world \<Rightarrow>
     (marker_error option \<times> ('c, 'l) marker_world) option" where
  "marker_Reconcile api lapi env txts r name st =
     (if name \<notin> set (cr_DynamicPrefixes r) then Some (None, st)
      else case GetDynamicPrefix api (mw_cluster st) name of
        Inl (OtherError e) \<Rightarrow> Some (Some (MarkerGetFailed (OtherError e)), st)
      | Inl NotFoundError \<Rightarrow> Some (marker_pass api lapi env txts r name [] None st)
      | Inr dp \<Rightarrow>
          let trusted = crowdsecTrustedPrefixes dp in
          if trusted = [] then Some (None, st)
          else if cr_MaxMarkers r < 0 then None
          else
            let (desired, st) = cut_markers (cr_MaxMarkers r) trusted st in
            (case validateMarkerPrefixes desired of
               Some refusal \<Rightarrow>
                 Some (None, marker_report api env dp eventReasonCrowdSecMarkerRefused
                   (''Refusing to write CrowdSec markers: '' @ mt_refusal txts refusal) st)
             | None \<Rightarrow> Some (marker_pass api lapi env txts r name desired (Some dp) st)))"

definition marker_watch :: "CrowdSecMarkerReconciler \<Rightarrow> string \<Rightarrow> bool" where
  "marker_watch r name \<longleftrightarrow> name \<in> set (cr_DynamicPrefixes r)"

text \<open>The slices of the Local API's Service, by namespace and label; a missing label reads as empty.\<close>

definition slice_watch :: "CrowdSecMarkerReconciler \<Rightarrow> string \<Rightarrow> (string \<rightharpoonup> string) \<Rightarrow> bool" where
  "slice_watch r namespace labels \<longleftrightarrow>
     (case cr_LAPIService r of
        None \<Rightarrow> False
      | Some (ns, svc) \<Rightarrow> namespace = ns \<and> (case labels ''kubernetes.io/service-name'' of None \<Rightarrow> [] | Some v \<Rightarrow> v) = svc)"

definition allDynamicPrefixes :: "CrowdSecMarkerReconciler \<Rightarrow> string list" where
  "allDynamicPrefixes r = cr_DynamicPrefixes r"

subsection \<open>What is accepted\<close>

definition marks_lan :: "string \<Rightarrow> bool" where
  "marks_lan v \<longleftrightarrow>
     (\<exists>p. netip_ParsePrefix v = Ok p \<and> PrefixString (Masked p) = v \<and> 48 \<le> Bits p \<and> Bits p \<le> 64 \<and>
        (\<forall>a. Contains p a \<longrightarrow> Contains globalUnicast a))"

lemma inside_global_unicast:
  assumes "Is6 (pfx_ip p)" and "Contains globalUnicast (pfx_ip p)" and "3 \<le> Bits p" and "Contains p a"
  shows "Contains globalUnicast a"
proof -
  obtain v z where v: "pfx_ip p = Addr6 v z"
    using assms(1) by (auto simp: Is6_def split: addr.splits)
  obtain w where w: "a = Addr6 w []"
    using assms(4) by (cases a) (auto simp: Contains_def v Zone_def)
  let ?g = "0x20000000000000000000000000000000 :: 128 word"
  have "?g AND mask6 3 = v AND mask6 3"
    using assms(2) Contains_v6 [of 3 ?g "[]" v z] by (simp add: globalUnicast_def v)
  moreover have "(v XOR w) AND mask6 (nat (Bits p)) = 0"
    using assms(4) by (simp add: Contains_def v w)
  then have "\<not> bit ((v XOR w) AND mask6 (nat (Bits p))) k" for k
    by simp
  then have differ: "\<not> (bit (v XOR w) k \<and> bit (mask6 (nat (Bits p))) k)" for k
    by (simp add: bit_and_iff)
  have "bit v k = bit w k" if "125 \<le> k" "k < 128" for k
  proof -
    have "128 - nat (Bits p) \<le> k"
      using that assms(3) by linarith
    then show ?thesis
      using differ [of k] that by (auto simp: bit_xor_iff bit_mask6)
  qed
  then have "v AND mask6 3 = w AND mask6 3"
    by (simp add: and_mask6_eq_iff)
  ultimately show ?thesis
    using Contains_v6 [of 3 ?g "[]" w "[]"] by (simp add: globalUnicast_def w)
qed

lemma accepted_marks_lan: "checkMarkerPrefix v = None \<Longrightarrow> marks_lan v"
  unfolding checkMarkerPrefix_def marks_lan_def crowdsecMinPrefixLen_def crowdsecMaxPrefixLen_def
  using inside_global_unicast by (fastforce split: sum.splits if_splits)

lemma validated_marks_lan: "validateMarkerPrefixes ps = None \<Longrightarrow> p \<in> set ps \<Longrightarrow> marks_lan p"
  by (induction ps) (auto simp: accepted_marks_lan split: option.splits)

lemma trusted_starts_with_current:
  assumes "st_CurrentPrefix (dp_Status dp) \<noteq> []"
  shows "\<exists>rest. crowdsecTrustedPrefixes dp = st_CurrentPrefix (dp_Status dp) # rest"
proof -
  have "\<exists>rest. fold (\<lambda>entry prefixes. if hist_State entry = PrefixStateExpired \<or> hist_Prefix entry \<in> set prefixes then prefixes
      else prefixes @ [hist_Prefix entry]) hs (c # ps) = c # rest" for hs and c :: string and ps
    by (induction hs arbitrary: ps) auto
  then show ?thesis
    using assms by (simp add: crowdsecTrustedPrefixes_def)
qed

subsection \<open>One synchronisation\<close>

text \<open>
  The Local API as a set of markers: a list shows it, a create adds one marker, a delete expires every
  marker of a value; a call that fails has had its effect or none.
\<close>

definition marker_laws :: "'l marker_api \<Rightarrow> ('l \<Rightarrow> crowdsecMarker set) \<Rightarrow> bool" where
  "marker_laws lapi vw \<longleftrightarrow>
     (\<forall>l res l'. listMarkers lapi l = (res, l') \<longrightarrow> vw l' = vw l \<and> (\<forall>ms. res = Ok ms \<longrightarrow> set ms = vw l)) \<and>
     (\<forall>l n p err l'. createMarker lapi l n p = (err, l') \<longrightarrow>
        vw l' = insert \<lparr>mk_Value = p, mk_Owner = n\<rparr> (vw l) \<or> err \<noteq> None \<and> vw l' = vw l) \<and>
     (\<forall>l p err l'. deleteMarker lapi l p = (err, l') \<longrightarrow> vw l' = {m \<in> vw l. mk_Value m \<noteq> p} \<or> err \<noteq> None \<and> vw l' = vw l)"

lemma marker_lawsD:
  assumes "marker_laws lapi vw"
  shows "listMarkers lapi l = (res, l') \<Longrightarrow> vw l' = vw l" and "listMarkers lapi l = (Ok ms, l') \<Longrightarrow> set ms = vw l"
    and "createMarker lapi l n p = (err, l') \<Longrightarrow> vw l' = insert \<lparr>mk_Value = p, mk_Owner = n\<rparr> (vw l) \<or> err \<noteq> None \<and> vw l' = vw l"
    and "deleteMarker lapi l p = (err, l') \<Longrightarrow> vw l' = {m \<in> vw l. mk_Value m \<noteq> p} \<or> err \<noteq> None \<and> vw l' = vw l"
  using assms unfolding marker_laws_def by metis+

lemma owned_values_set: "set (owned_values name ms) = mk_Value ` {m \<in> set ms. mk_Owner m = name}"
proof -
  have "set (fold (\<lambda>m owned. if mk_Owner m = name \<and> mk_Value m \<notin> set owned then owned @ [mk_Value m] else owned) ms acc) =
      set acc \<union> mk_Value ` {m \<in> set ms. mk_Owner m = name}" for acc
    by (induction ms arbitrary: acc) auto
  then show ?thesis
    by (simp add: owned_values_def)
qed

lemma marker_event_lapi [simp]: "mw_lapi (marker_event e st) = mw_lapi st" "mw_cluster (marker_event e st) = mw_cluster st"
  by (simp_all add: marker_event_def)

definition new_markers :: "string \<Rightarrow> string set \<Rightarrow> crowdsecMarker set" where
  "new_markers name A = (\<lambda>p. \<lparr>mk_Value = p, mk_Owner = name\<rparr>) ` A"

lemma create_markers_view:
  assumes "marker_laws lapi vw" and "create_markers lapi name present ps st = (err, st')"
  shows "\<exists>A. A \<subseteq> set ps - present \<and> vw (mw_lapi st') = vw (mw_lapi st) \<union> new_markers name A \<and> (err = None \<longrightarrow> A = set ps - present)"
  using assms(2)
proof (induction ps arbitrary: st)
  case Nil
  then show ?case
    by (auto simp: new_markers_def)
next
  case (Cons p ps)
  show ?case
  proof (cases "p \<in> present")
    case True
    then have "set (p # ps) - present = set ps - present"
      by auto
    then show ?thesis
      using Cons True by simp
  next
    case False
    obtain cerr l where cr: "createMarker lapi (mw_lapi st) name p = (cerr, l)"
      by (metis surj_pair)
    note law = marker_lawsD(3) [OF assms(1) cr]
    show ?thesis
    proof (cases cerr)
      case (Some e)
      then have "vw (mw_lapi st') = vw l" "err \<noteq> None"
        using Cons.prems False cr by auto
      then show ?thesis
        using law False by (intro exI [of _ "if vw l = vw (mw_lapi st) then {} else {p}"]) (auto simp: new_markers_def)
    next
      case None
      define st1 where "st1 = marker_event (NormalEvent eventReasonCrowdSecMarkerCreated (''Created CrowdSec allow marker for '' @ p))
          (st\<lparr>mw_lapi := l\<rparr>)"
      have l: "mw_lapi st1 = l"
        by (simp add: st1_def)
      have "create_markers lapi name present ps st1 = (err, st')"
        using Cons.prems False cr None by (simp add: st1_def)
      then obtain A where A: "A \<subseteq> set ps - present" "vw (mw_lapi st') = vw l \<union> new_markers name A" "err = None \<longrightarrow> A = set ps - present"
        using Cons.IH [of st1] l by auto
      have "vw (mw_lapi st') = vw (mw_lapi st) \<union> new_markers name (insert p A)"
        using A(2) law None by (auto simp: new_markers_def)
      moreover have "insert p A \<subseteq> set (p # ps) - present" "err = None \<longrightarrow> insert p A = set (p # ps) - present"
        using A(1,3) False by auto
      ultimately show ?thesis
        by blast
    qed
  qed
qed

lemma expire_markers_view:
  assumes "marker_laws lapi vw" and "expire_markers lapi desired found ps st = (err, st')"
  shows "\<exists>D. D \<subseteq> set ps - desired \<and> vw (mw_lapi st') = {m \<in> vw (mw_lapi st). mk_Value m \<notin> D} \<and> (err = None \<longrightarrow> D = set ps - desired)"
  using assms(2)
proof (induction ps arbitrary: st)
  case Nil
  then show ?case
    by auto
next
  case (Cons p ps)
  show ?case
  proof (cases "p \<in> desired")
    case True
    then have "set (p # ps) - desired = set ps - desired"
      by auto
    then show ?thesis
      using Cons True by simp
  next
    case False
    obtain derr l where de: "deleteMarker lapi (mw_lapi st) p = (derr, l)"
      by (metis surj_pair)
    note law = marker_lawsD(4) [OF assms(1) de]
    show ?thesis
    proof (cases derr)
      case (Some e)
      then have "vw (mw_lapi st') = vw l" "err \<noteq> None"
        using Cons.prems False de by auto
      then show ?thesis
        using law False by (intro exI [of _ "if vw l = vw (mw_lapi st) then {} else {p}"]) auto
    next
      case None
      define st1 where "st1 = (if found then marker_event (NormalEvent eventReasonCrowdSecMarkerRemoved (''Expired CrowdSec allow marker for '' @ p))
          else (\<lambda>st. st)) (st\<lparr>mw_lapi := l\<rparr>)"
      have l: "mw_lapi st1 = l"
        by (simp add: st1_def)
      have "expire_markers lapi desired found ps st1 = (err, st')"
        using Cons.prems False de None by (simp add: st1_def)
      then obtain D where D: "D \<subseteq> set ps - desired" "vw (mw_lapi st') = {m \<in> vw l. mk_Value m \<notin> D}" "err = None \<longrightarrow> D = set ps - desired"
        using Cons.IH [of st1] l by auto
      have "vw (mw_lapi st') = {m \<in> vw (mw_lapi st). mk_Value m \<notin> insert p D}"
        using D(2) law None by auto
      moreover have "insert p D \<subseteq> set (p # ps) - desired" "err = None \<longrightarrow> insert p D = set (p # ps) - desired"
        using D(1,3) False by auto
      ultimately show ?thesis
        by blast
    qed
  qed
qed

text \<open>
  What a synchronisation may do to the set of markers, and what it does when nothing fails.  New markers
  come first: nothing is expired unless every desired value has its marker.
\<close>

definition marked :: "crowdsecMarker set \<Rightarrow> string set" where
  "marked V = mk_Value ` V"

definition marked_by :: "string \<Rightarrow> crowdsecMarker set \<Rightarrow> string set" where
  "marked_by name V = mk_Value ` {m \<in> V. mk_Owner m = name}"

definition marker_target :: "string \<Rightarrow> string set \<Rightarrow> crowdsecMarker set \<Rightarrow> crowdsecMarker set" where
  "marker_target name desired V =
     {m \<in> V \<union> new_markers name (desired - marked V). mk_Value m \<in> desired \<or> mk_Value m \<notin> marked_by name V}"

definition marker_progress :: "string \<Rightarrow> string set \<Rightarrow> crowdsecMarker set \<Rightarrow> crowdsecMarker set \<Rightarrow> bool" where
  "marker_progress name desired V V' \<longleftrightarrow>
     (\<exists>A D. A \<subseteq> desired - marked V \<and> D \<subseteq> marked_by name V - desired \<and>
        V' = {m \<in> V \<union> new_markers name A. mk_Value m \<notin> D} \<and> (D \<noteq> {} \<longrightarrow> A = desired - marked V))"

lemma no_progress: "marker_progress name desired V V"
  unfolding marker_progress_def by (intro exI [of _ "{}"]) (simp add: new_markers_def)

lemma new_markers_value: "m \<in> new_markers name A \<Longrightarrow> mk_Value m \<in> A \<and> mk_Owner m = name"
  by (auto simp: new_markers_def)

lemma marker_target_eq:
  "marker_target name desired V = {m \<in> V \<union> new_markers name (desired - marked V). mk_Value m \<notin> marked_by name V - desired}"
  by (auto simp: marker_target_def)

lemma marker_sync_view:
  assumes laws: "marker_laws lapi vw" and run: "marker_sync lapi name desired found st = (err, st')"
  shows "marker_progress name (set desired) (vw (mw_lapi st)) (vw (mw_lapi st'))"
    and "err = None \<Longrightarrow> vw (mw_lapi st') = marker_target name (set desired) (vw (mw_lapi st))"
proof -
  let ?V = "vw (mw_lapi st)"
  obtain res l where li: "listMarkers lapi (mw_lapi st) = (res, l)"
    by (metis surj_pair)
  note l = marker_lawsD(1) [OF laws li]
  have "marker_progress name (set desired) ?V (vw (mw_lapi st')) \<and>
      (err = None \<longrightarrow> vw (mw_lapi st') = marker_target name (set desired) ?V)"
  proof (cases res)
    case (Inl e)
    then show ?thesis
      using run li l by (auto simp: marker_sync_def no_progress)
  next
    case (Inr ms)
    have ms: "set ms = ?V"
      using marker_lawsD(2) [OF laws] li Inr by simp
    obtain cerr st1 where cr: "create_markers lapi name (marked ?V) desired (st\<lparr>mw_lapi := l\<rparr>) = (cerr, st1)"
      by (metis surj_pair)
    obtain A where A: "A \<subseteq> set desired - marked ?V" "vw (mw_lapi st1) = ?V \<union> new_markers name A" "cerr = None \<longrightarrow> A = set desired - marked ?V"
      using create_markers_view [OF laws cr] l by auto
    show ?thesis
    proof (cases cerr)
      case (Some e)
      then have "st' = st1" "err \<noteq> None"
        using run li Inr ms cr by (auto simp: marker_sync_def marked_def)
      then show ?thesis
        unfolding marker_progress_def using A(1,2) by (intro conjI exI [of _ A] exI [of _ "{}"]) auto
    next
      case None
      then have ex: "expire_markers lapi (set desired) found (owned_values name ms) st1 = (err, st')"
        using run li Inr ms cr by (simp add: marker_sync_def marked_def)
      obtain D where D: "D \<subseteq> marked_by name ?V - set desired" "vw (mw_lapi st') = {m \<in> ?V \<union> new_markers name A. mk_Value m \<notin> D}"
          "err = None \<longrightarrow> D = marked_by name ?V - set desired"
        using expire_markers_view [OF laws ex] A(2) by (auto simp: owned_values_set ms marked_by_def)
      have "marker_progress name (set desired) ?V (vw (mw_lapi st'))"
        unfolding marker_progress_def using A(1,3) D(1,2) None by blast
      moreover have "err = None \<longrightarrow> vw (mw_lapi st') = marker_target name (set desired) ?V"
        using A(3) None D(2,3) by (simp add: marker_target_eq)
      ultimately show ?thesis
        by simp
    qed
  qed
  then show "marker_progress name (set desired) ?V (vw (mw_lapi st'))"
    and "err = None \<Longrightarrow> vw (mw_lapi st') = marker_target name (set desired) ?V"
    by auto
qed

lemma marker_report_lapi [simp]:
  "mw_lapi (writeCondition api env dp s reason msg st) = mw_lapi st"
  "mw_lapi (marker_report api env dp reason msg st) = mw_lapi st"
  by (simp_all add: writeCondition_def marker_report_def Let_def split: prod.splits)

lemma marker_pass_view:
  assumes laws: "marker_laws lapi vw" and run: "marker_pass api lapi env txts r name desired dpo st = (err, st')"
  shows "marker_progress name (set desired) (vw (mw_lapi st)) (vw (mw_lapi st'))"
    and "err = None \<Longrightarrow> lapiReady api r (mw_cluster st) = Ok True \<Longrightarrow> vw (mw_lapi st') = marker_target name (set desired) (vw (mw_lapi st))"
proof -
  obtain serr st1 where sy: "marker_sync lapi name desired (dpo \<noteq> None) st = (serr, st1)"
    by (metis surj_pair)
  note s = marker_sync_view [OF laws sy]
  consider "st' = st" "lapiReady api r (mw_cluster st) \<noteq> Ok True" | "mw_lapi st' = mw_lapi st1" "err = serr"
    using run sy by (cases serr; cases dpo) (auto simp: marker_pass_def split: sum.splits bool.splits)
  note cases = this
  from cases show "marker_progress name (set desired) (vw (mw_lapi st)) (vw (mw_lapi st'))"
    by cases (use s no_progress in auto)
  assume "err = None" "lapiReady api r (mw_cluster st) = Ok True"
  with cases show "vw (mw_lapi st') = marker_target name (set desired) (vw (mw_lapi st))"
    by cases (use s in auto)
qed

subsection \<open>The trusted list\<close>

lemma trusted_fold:
  assumes "distinct ps"
  shows "distinct (fold (\<lambda>entry prefixes. if hist_State entry = PrefixStateExpired \<or> hist_Prefix entry \<in> set prefixes then prefixes
      else prefixes @ [hist_Prefix entry]) hs ps) \<and>
    set (fold (\<lambda>entry prefixes. if hist_State entry = PrefixStateExpired \<or> hist_Prefix entry \<in> set prefixes then prefixes
      else prefixes @ [hist_Prefix entry]) hs ps) = set ps \<union> hist_Prefix ` {h \<in> set hs. hist_State h \<noteq> PrefixStateExpired}"
  using assms by (induction hs arbitrary: ps) auto

lemma trusted_prefixes:
  "distinct (crowdsecTrustedPrefixes dp)"
  "st_CurrentPrefix (dp_Status dp) \<noteq> [] \<Longrightarrow> set (crowdsecTrustedPrefixes dp) =
     insert (st_CurrentPrefix (dp_Status dp)) (hist_Prefix ` {h \<in> set (st_History (dp_Status dp)). hist_State h \<noteq> PrefixStateExpired})"
  using trusted_fold [of "[st_CurrentPrefix (dp_Status dp)]" "rev (st_History (dp_Status dp))"]
  by (simp_all add: crowdsecTrustedPrefixes_def)

lemma trusted_empty_iff: "crowdsecTrustedPrefixes dp = [] \<longleftrightarrow> st_CurrentPrefix (dp_Status dp) = []"
  using trusted_starts_with_current [of dp] by (auto simp: crowdsecTrustedPrefixes_def)

subsection \<open>When the Local API answers\<close>

text \<open>The states in which every call is answered, and which calls do not leave.\<close>

definition answering :: "'l marker_api \<Rightarrow> ('l \<Rightarrow> bool) \<Rightarrow> bool" where
  "answering lapi up \<longleftrightarrow>
     (\<forall>l. up l \<longrightarrow> (\<exists>ms l'. listMarkers lapi l = (Ok ms, l') \<and> up l')) \<and>
     (\<forall>l n p. up l \<longrightarrow> (\<exists>l'. createMarker lapi l n p = (None, l') \<and> up l')) \<and>
     (\<forall>l p. up l \<longrightarrow> p \<noteq> [] \<longrightarrow> (\<exists>l'. deleteMarker lapi l p = (None, l') \<and> up l'))"

lemma answeringD:
  assumes "answering lapi up" and "up l"
  shows "\<exists>ms l'. listMarkers lapi l = (Ok ms, l') \<and> up l'" and "\<exists>l'. createMarker lapi l n p = (None, l') \<and> up l'"
    and "p \<noteq> [] \<Longrightarrow> \<exists>l'. deleteMarker lapi l p = (None, l') \<and> up l'"
  using assms unfolding answering_def by blast+

lemma create_markers_answered:
  assumes "answering lapi up" and "up (mw_lapi st)"
  shows "\<exists>st'. create_markers lapi name present ps st = (None, st') \<and> up (mw_lapi st')"
  using assms(2)
proof (induction ps arbitrary: st)
  case (Cons p ps)
  then show ?case
    using answeringD(2) [OF assms(1) Cons.prems, of name p] by auto
qed simp

lemma expire_markers_answered:
  assumes "answering lapi up" and "up (mw_lapi st)" and "[] \<notin> set ps"
  shows "\<exists>st'. expire_markers lapi desired found ps st = (None, st') \<and> up (mw_lapi st')"
  using assms(2,3)
proof (induction ps arbitrary: st)
  case (Cons p ps)
  then obtain l where "deleteMarker lapi (mw_lapi st) p = (None, l)" "up l"
    using answeringD(3) [OF assms(1) Cons.prems(1), of p] by auto
  then show ?case
    using Cons by simp
qed simp

lemma marker_sync_answered:
  assumes "marker_laws lapi vw" and "answering lapi up" and "up (mw_lapi st)" and "[] \<notin> marked_by name (vw (mw_lapi st))"
  shows "\<exists>st'. marker_sync lapi name desired found st = (None, st')"
proof -
  obtain ms l where li: "listMarkers lapi (mw_lapi st) = (Ok ms, l)" "up l"
    using answeringD(1) [OF assms(2,3)] by blast
  have "[] \<notin> set (owned_values name ms)"
    using marker_lawsD(2) [OF assms(1) li(1)] assms(4) by (simp add: owned_values_set marked_by_def)
  moreover obtain st1 where "create_markers lapi name (set (map mk_Value ms)) desired (st\<lparr>mw_lapi := l\<rparr>) = (None, st1)" "up (mw_lapi st1)"
    using create_markers_answered [OF assms(2), of "st\<lparr>mw_lapi := l\<rparr>" name "set (map mk_Value ms)" desired] li(2) by auto
  ultimately show ?thesis
    using expire_markers_answered [OF assms(2), of st1 "owned_values name ms" "set desired" found] li(1) by (auto simp: marker_sync_def)
qed

lemma marker_pass_answered:
  assumes "marker_laws lapi vw" and "answering lapi up" and "up (mw_lapi st)" and "[] \<notin> marked_by name (vw (mw_lapi st))"
    and "lapiReady api r (mw_cluster st) = Ok True"
  shows "\<exists>st'. marker_pass api lapi env txts r name desired dpo st = (None, st')"
  using marker_sync_answered [OF assms(1-4), of desired "dpo \<noteq> None"] assms(5) by (auto simp: marker_pass_def)

subsection \<open>What a reconcile does\<close>

definition desired_markers :: "CrowdSecMarkerReconciler \<Rightarrow> DynamicPrefix \<Rightarrow> string list" where
  "desired_markers r dp = take (nat (cr_MaxMarkers r)) (crowdsecTrustedPrefixes dp)"

lemma cut_markers_desired:
  assumes "0 \<le> cr_MaxMarkers r" and "cut_markers (cr_MaxMarkers r) (crowdsecTrustedPrefixes dp) st = (desired, st1)"
  shows "desired = desired_markers r dp" "mw_lapi st1 = mw_lapi st" "mw_cluster st1 = mw_cluster st"
  using assms by (auto simp: cut_markers_def desired_markers_def split: if_splits)

text \<open>Of a DynamicPrefix that has a current prefix, a reconcile either refuses to write or makes one pass.\<close>

lemma marker_Reconcile_found:
  assumes "name \<in> set (cr_DynamicPrefixes r)" and "GetDynamicPrefix api (mw_cluster st) name = Ok dp"
    and "st_CurrentPrefix (dp_Status dp) \<noteq> []" and "0 \<le> cr_MaxMarkers r"
  shows "\<exists>st1. mw_lapi st1 = mw_lapi st \<and> mw_cluster st1 = mw_cluster st \<and>
    marker_Reconcile api lapi env txts r name st =
      (case validateMarkerPrefixes (desired_markers r dp) of
         Some refusal \<Rightarrow> Some (None, marker_report api env dp eventReasonCrowdSecMarkerRefused
           (''Refusing to write CrowdSec markers: '' @ mt_refusal txts refusal) st1)
       | None \<Rightarrow> Some (marker_pass api lapi env txts r name (desired_markers r dp) (Some dp) st1))"
proof -
  obtain desired st1 where cut: "cut_markers (cr_MaxMarkers r) (crowdsecTrustedPrefixes dp) st = (desired, st1)"
    by (metis surj_pair)
  show ?thesis
    using assms cut_markers_desired [OF assms(4) cut]
    by (intro exI [of _ st1]) (simp add: marker_Reconcile_def trusted_empty_iff cut Let_def split: option.splits)
qed

lemma progress_new: "marker_progress name desired V V' \<Longrightarrow> m \<in> V' - V \<Longrightarrow> mk_Owner m = name \<and> mk_Value m \<in> desired"
  unfolding marker_progress_def using new_markers_value by blast

lemma marked_new: "marked (V \<union> new_markers name A) = marked V \<union> A"
  by (simp add: marked_def new_markers_def image_Un image_image)

lemma marked_filter: "marked {m \<in> V. mk_Value m \<notin> D} = marked V - D"
  by (auto simp: marked_def)

lemma progress_lost:
  assumes "marker_progress name desired V V'" and "m \<in> V - V'"
  shows "mk_Value m \<in> marked_by name V - desired \<and> desired \<subseteq> marked V'"
proof -
  obtain A D where D: "D \<subseteq> marked_by name V - desired" "V' = {m \<in> V \<union> new_markers name A. mk_Value m \<notin> D}"
      "D \<noteq> {} \<longrightarrow> A = desired - marked V"
    using assms(1) unfolding marker_progress_def by blast
  have "mk_Value m \<in> D"
    using assms(2) D(2) by blast
  moreover from this have "A = desired - marked V"
    using D(3) by blast
  then have "desired \<subseteq> marked V'"
    using D(1) unfolding D(2) marked_filter marked_new by blast
  ultimately show ?thesis
    using D(1) by blast
qed

lemma marker_target_covers: "desired \<subseteq> marked (marker_target name desired V)" "marked_by name (marker_target name desired V) \<subseteq> desired"
proof -
  show "desired \<subseteq> marked (marker_target name desired V)"
    unfolding marker_target_eq marked_filter marked_new by blast
  show "marked_by name (marker_target name desired V) \<subseteq> desired"
    using new_markers_value unfolding marked_by_def marker_target_def by blast
qed

lemma marker_Reconcile_progress:
  assumes laws: "marker_laws lapi vw" and run: "marker_Reconcile api lapi env txts r name st = Some (err, st')"
  shows "vw (mw_lapi st') = vw (mw_lapi st) \<or>
    GetDynamicPrefix api (mw_cluster st) name = Err NotFoundError \<and> marker_progress name {} (vw (mw_lapi st)) (vw (mw_lapi st')) \<or>
    (\<exists>dp. GetDynamicPrefix api (mw_cluster st) name = Ok dp \<and> validateMarkerPrefixes (desired_markers r dp) = None \<and>
       marker_progress name (set (desired_markers r dp)) (vw (mw_lapi st)) (vw (mw_lapi st')))"
proof (cases "GetDynamicPrefix api (mw_cluster st) name")
  case (Inl e)
  then show ?thesis
    using run marker_pass_view(1) [OF laws, of api env txts r name "[]" None st err st']
    by (cases e) (auto simp: marker_Reconcile_def split: if_splits)
next
  case (Inr dp)
  show ?thesis
  proof (cases "name \<in> set (cr_DynamicPrefixes r) \<and> st_CurrentPrefix (dp_Status dp) \<noteq> []")
    case False
    then show ?thesis
      using run Inr by (auto simp: marker_Reconcile_def trusted_empty_iff split: if_splits)
  next
    case True
    then have "0 \<le> cr_MaxMarkers r"
      using run Inr by (auto simp: marker_Reconcile_def trusted_empty_iff Let_def split: if_splits)
    then obtain st1 where st1: "mw_lapi st1 = mw_lapi st" "marker_Reconcile api lapi env txts r name st =
      (case validateMarkerPrefixes (desired_markers r dp) of
         Some refusal \<Rightarrow> Some (None, marker_report api env dp eventReasonCrowdSecMarkerRefused
           (''Refusing to write CrowdSec markers: '' @ mt_refusal txts refusal) st1)
       | None \<Rightarrow> Some (marker_pass api lapi env txts r name (desired_markers r dp) (Some dp) st1))"
      using marker_Reconcile_found [of name r api st dp lapi env txts] True Inr by blast
    show ?thesis
    proof (cases "validateMarkerPrefixes (desired_markers r dp)")
      case None
      then have "marker_pass api lapi env txts r name (desired_markers r dp) (Some dp) st1 = (err, st')"
        using run st1(2) by simp
      from marker_pass_view(1) [OF laws this] show ?thesis
        using Inr None st1(1) by auto
    next
      case (Some refusal)
      then show ?thesis
        using run st1 by auto
    qed
  qed
qed

subsection \<open>Sample\<close>

text \<open>A Local API that holds its markers in a list, and a cluster whose DynamicPrefix has rotated.\<close>

definition memory_lapi :: "crowdsecMarker list marker_api" where
  "memory_lapi =
     \<lparr>listMarkers = (\<lambda>l. (Ok l, l)), createMarker = (\<lambda>l n p. (None, \<lparr>mk_Value = p, mk_Owner = n\<rparr> # l)),
      deleteMarker = (\<lambda>l p. (None, List.filter (\<lambda>m. mk_Value m \<noteq> p) l))\<rparr>"

lemma memory_lapi_laws: "marker_laws memory_lapi set" "answering memory_lapi (\<lambda>_. True)"
  by (auto simp: marker_laws_def answering_def memory_lapi_def)

definition lan_dp :: DynamicPrefix where
  "lan_dp = sample_dp\<lparr>dp_Status := (dp_Status sample_dp)\<lparr>st_CurrentPrefix := PrefixString net2, st_History := []\<rparr>\<rparr>"

definition lan_api :: "(string \<rightharpoonup> DynamicPrefix) crowdsec_api" where
  "lan_api = \<lparr>GetDynamicPrefix = GetDynamicPrefix table_api, ApplyCondition = ApplyCondition table_api, ListEndpoints = (\<lambda>_ _. Ok [])\<rparr>"

definition lan_markers :: CrowdSecMarkerReconciler where
  "lan_markers = \<lparr>cr_DynamicPrefixes = [''home''], cr_MaxMarkers = DefaultCrowdSecMaxMarkers, cr_LAPIService = None\<rparr>"

definition lan_world :: "(string \<rightharpoonup> DynamicPrefix) \<Rightarrow> (string \<rightharpoonup> DynamicPrefix, crowdsecMarker list) marker_world" where
  "lan_world c = \<lparr>mw_cluster = c,
     mw_lapi = [\<lparr>mk_Value = PrefixString net1, mk_Owner = ''home''\<rparr>, \<lparr>mk_Value = PrefixString user_net, mk_Owner = ''office''\<rparr>], mw_events = []\<rparr>"

definition lan_env :: clock_env where
  "lan_env = \<lparr>ce_meta = sample_meta, ce_now = 7\<rparr>"

definition lan_texts :: marker_texts where
  "lan_texts = \<lparr>mt_refusal = (\<lambda>_. ''refused''), mt_error = (\<lambda>_. ''failed'')\<rparr>"

lemma lan_desired: "desired_markers lan_markers lan_dp = [PrefixString net2]"
  by (simp add: desired_markers_def lan_markers_def lan_dp_def crowdsecTrustedPrefixes_def sample_nets DefaultCrowdSecMaxMarkers_def)

lemma lan_validated: "validateMarkerPrefixes [PrefixString net2] = None"
proof -
  have "Masked net2 = net2" "Contains globalUnicast (pfx_ip net2)"
    by code_simp+
  moreover have "Is6 (pfx_ip net2)" "\<not> Is4In6 (pfx_ip net2)" "Bits net2 = 64"
    by code_simp+
  ultimately show ?thesis
    using ParsePrefix_PrefixString [of net2] sample_nets
    by (simp add: checkMarkerPrefix_def crowdsecMinPrefixLen_def crowdsecMaxPrefixLen_def)
qed

subsection \<open>Properties\<close>

text \<open>
  When the Local API is ready and answers, a reconcile of a configured DynamicPrefix with a current
  prefix succeeds whatever markers were there: the current prefix is among those covered, every desired
  prefix (the trusted ones up to the bound, newest first) has a marker, no marker of this DynamicPrefix is
  left on any other value, and the markers of values that this DynamicPrefix had not marked and does not
  want are as they were.
\<close>

lemma markers_follow_trusted_prefixes:
  assumes "marker_laws lapi vw" and "answering lapi up" and "up (mw_lapi st)" and "[] \<notin> marked_by name (vw (mw_lapi st))"
    and "name \<in> set (cr_DynamicPrefixes r)" and "GetDynamicPrefix api (mw_cluster st) name = Ok dp"
    and "st_CurrentPrefix (dp_Status dp) \<noteq> []" and "1 \<le> cr_MaxMarkers r"
    and "validateMarkerPrefixes (desired_markers r dp) = None" and "lapiReady api r (mw_cluster st) = Ok True"
  shows "\<exists>st'. marker_Reconcile api lapi env txts r name st = Some (None, st') \<and>
    st_CurrentPrefix (dp_Status dp) \<in> set (desired_markers r dp) \<and>
    set (desired_markers r dp) \<subseteq> marked (vw (mw_lapi st')) \<and> marked_by name (vw (mw_lapi st')) \<subseteq> set (desired_markers r dp) \<and>
    (\<forall>m. mk_Value m \<notin> set (desired_markers r dp) \<union> marked_by name (vw (mw_lapi st)) \<longrightarrow> m \<in> vw (mw_lapi st') \<longleftrightarrow> m \<in> vw (mw_lapi st))"
proof -
  let ?D = "set (desired_markers r dp)"
  obtain st1 where st1: "mw_lapi st1 = mw_lapi st" "mw_cluster st1 = mw_cluster st"
      "marker_Reconcile api lapi env txts r name st = Some (marker_pass api lapi env txts r name (desired_markers r dp) (Some dp) st1)"
    using marker_Reconcile_found [OF assms(5-7), of lapi env txts] assms(8,9) by auto
  obtain st' where pass: "marker_pass api lapi env txts r name (desired_markers r dp) (Some dp) st1 = (None, st')"
    using marker_pass_answered [OF assms(1,2), of st1 name api r env txts "desired_markers r dp" "Some dp"] assms(3,4,10) st1(1,2) by auto
  have V': "vw (mw_lapi st') = marker_target name ?D (vw (mw_lapi st))"
    using marker_pass_view(2) [OF assms(1) pass] assms(10) st1(1,2) by simp
  obtain rest where "crowdsecTrustedPrefixes dp = st_CurrentPrefix (dp_Status dp) # rest"
    using trusted_starts_with_current assms(7) by blast
  then have "st_CurrentPrefix (dp_Status dp) \<in> ?D"
    using assms(8) by (cases "nat (cr_MaxMarkers r)") (auto simp: desired_markers_def)
  moreover have "m \<in> vw (mw_lapi st') \<longleftrightarrow> m \<in> vw (mw_lapi st)" if "mk_Value m \<notin> ?D \<union> marked_by name (vw (mw_lapi st))" for m
    using that new_markers_value unfolding V' marker_target_def by blast
  ultimately show ?thesis
    using st1(3) pass marker_target_covers [where desired = ?D and name = name and V = "vw (mw_lapi st)"]
    by (intro exI [of _ st']) (simp add: V')
qed

text \<open>
  C29: Whatever fails on the way, a reconcile writes markers of the configured DynamicPrefix only, only for
  values on its trusted list within the bound, and only for canonical prefixes of 48 to 64 bits that lie
  inside global unicast as a whole.  It takes away only values this DynamicPrefix had marked and no longer
  wants, and only once every wanted prefix has its marker.
\<close>

theorem only_trusted_prefixes_are_marked:
  assumes laws: "marker_laws lapi vw" and run: "marker_Reconcile api lapi env txts r name st = Some (err, st')"
  shows "(\<forall>m \<in> vw (mw_lapi st') - vw (mw_lapi st). mk_Owner m = name \<and> marks_lan (mk_Value m) \<and>
      (\<exists>dp. GetDynamicPrefix api (mw_cluster st) name = Ok dp \<and> mk_Value m \<in> set (desired_markers r dp))) \<and>
    (\<forall>m \<in> vw (mw_lapi st) - vw (mw_lapi st'). mk_Value m \<in> marked_by name (vw (mw_lapi st)) \<and>
      (\<forall>dp. GetDynamicPrefix api (mw_cluster st) name = Ok dp \<longrightarrow>
         mk_Value m \<notin> set (desired_markers r dp) \<and> set (desired_markers r dp) \<subseteq> marked (vw (mw_lapi st'))))"
  using marker_Reconcile_progress [OF laws run]
proof (elim disjE exE conjE, goal_cases)
  case 1
  then show ?case
    by simp
next
  case 2
  then show ?case
    using progress_new [OF 2(2)] progress_lost [OF 2(2)] by auto
next
  case (3 dp)
  then show ?case
    using progress_new [OF 3(3)] progress_lost [OF 3(3)] validated_marks_lan by auto
qed

theorem only_trusted_prefixes_are_marked_witness:
  "\<exists>err st'. marker_Reconcile lan_api memory_lapi lan_env lan_texts lan_markers ''home'' (lan_world [''home'' \<mapsto> lan_dp]) = Some (err, st') \<and>
     (\<forall>m \<in> set (mw_lapi st') - set (mw_lapi (lan_world [''home'' \<mapsto> lan_dp])). mk_Owner m = ''home'' \<and> marks_lan (mk_Value m))"
proof -
  have "GetDynamicPrefix lan_api (mw_cluster (lan_world [''home'' \<mapsto> lan_dp])) ''home'' = Ok lan_dp"
    "0 \<le> cr_MaxMarkers lan_markers" "''home'' \<in> set (cr_DynamicPrefixes lan_markers)" "st_CurrentPrefix (dp_Status lan_dp) \<noteq> []"
    by (simp_all add: lan_api_def table_api_def lan_world_def lan_markers_def DefaultCrowdSecMaxMarkers_def lan_dp_def)
  from marker_Reconcile_found [OF this(3,1,4,2), of memory_lapi lan_env lan_texts]
  obtain err st' where run: "marker_Reconcile lan_api memory_lapi lan_env lan_texts lan_markers ''home'' (lan_world [''home'' \<mapsto> lan_dp]) = Some (err, st')"
    by (metis lan_desired lan_validated option.simps(4) surj_pair)
  then show ?thesis
    using only_trusted_prefixes_are_marked [OF memory_lapi_laws(1) run] by blast
qed

text \<open>
  C39: Once a DynamicPrefix is gone, a reconcile expires exactly the markers of the values it had marked.
  Those include markers another DynamicPrefix had written for the same value: the delete goes by value.
\<close>

theorem deleted_prefix_takes_its_values:
  assumes "marker_laws lapi vw" and "answering lapi up" and "up (mw_lapi st)" and "[] \<notin> marked_by name (vw (mw_lapi st))"
    and "name \<in> set (cr_DynamicPrefixes r)" and "GetDynamicPrefix api (mw_cluster st) name = Err NotFoundError"
    and "lapiReady api r (mw_cluster st) = Ok True"
  shows "\<exists>st'. marker_Reconcile api lapi env txts r name st = Some (None, st') \<and>
    vw (mw_lapi st') = {m \<in> vw (mw_lapi st). mk_Value m \<notin> marked_by name (vw (mw_lapi st))}"
proof -
  obtain st' where pass: "marker_pass api lapi env txts r name [] None st = (None, st')"
    using marker_pass_answered [OF assms(1-4,7)] by blast
  have "vw (mw_lapi st') = {m \<in> vw (mw_lapi st). mk_Value m \<notin> marked_by name (vw (mw_lapi st))}"
    using marker_pass_view(2) [OF assms(1) pass _ assms(7)] by (simp add: marker_target_def new_markers_def)
  then show ?thesis
    using pass assms(5,6) by (simp add: marker_Reconcile_def)
qed

theorem deleted_prefix_takes_its_values_witness:
  "let V = [\<lparr>mk_Value = PrefixString net1, mk_Owner = ''home''\<rparr>, \<lparr>mk_Value = PrefixString net1, mk_Owner = ''office''\<rparr>];
       st = (lan_world Map.empty)\<lparr>mw_lapi := V\<rparr>
   in \<exists>st'. marker_Reconcile lan_api memory_lapi lan_env lan_texts lan_markers ''home'' st = Some (None, st') \<and> set (mw_lapi st') = {}"
proof -
  let ?V = "[\<lparr>mk_Value = PrefixString net1, mk_Owner = ''home''\<rparr>, \<lparr>mk_Value = PrefixString net1, mk_Owner = ''office''\<rparr>]"
  let ?st = "(lan_world Map.empty)\<lparr>mw_lapi := ?V\<rparr>"
  have V: "marked_by ''home'' (set (mw_lapi ?st)) = {PrefixString net1}"
    by (force simp: marked_by_def)
  have "''home'' \<in> set (cr_DynamicPrefixes lan_markers)" "GetDynamicPrefix lan_api (mw_cluster ?st) ''home'' = Err NotFoundError"
    "lapiReady lan_api lan_markers (mw_cluster ?st) = Ok True"
    by (simp_all add: lan_api_def table_api_def lan_world_def lapiReady_def lan_markers_def)
  moreover have "[] \<notin> marked_by ''home'' (set (mw_lapi ?st))"
    using sample_nets(11) by (metis V singletonD)
  ultimately obtain st' where "marker_Reconcile lan_api memory_lapi lan_env lan_texts lan_markers ''home'' ?st = Some (None, st')"
      "set (mw_lapi st') = {m \<in> set ?V. mk_Value m \<notin> {PrefixString net1}}"
    using deleted_prefix_takes_its_values [OF memory_lapi_laws TrueI, of "''home''" ?st lan_markers lan_api lan_env lan_texts]
    unfolding V by auto
  moreover have "{m \<in> set ?V. mk_Value m \<notin> {PrefixString net1}} = {}"
    by auto
  ultimately show ?thesis
    unfolding Let_def by metis
qed

end
