(* ===== verification/CrowdSec_LAPI.thy ===== *)
theory CrowdSec_LAPI
  imports CrowdSec
begin

text \<open>
  The client of CrowdSec's Local API (\<^verbatim>\<open>internal/controller/crowdsec_lapi.go\<close>): configuration, login and
  the cached token, requests with one retry, and the three operations on markers.  HTTP, files, the reading
  of JSON and the clock are the environment; over a server that keeps alerts, the client implements the
  set of markers that \<^verbatim>\<open>CrowdSec\<close> relies on.
\<close>

subsection \<open>Constants\<close>

definition CrowdSecMarkerScenario :: string where "CrowdSecMarkerScenario = ''dynamic-prefix/lan-allow''"
definition crowdsecMarkerOrigin :: string where "crowdsecMarkerOrigin = ''cscli''"
definition crowdsecMarkerDuration :: string where "crowdsecMarkerDuration = ''87600h''"
definition crowdsecOwnerMetaKey :: string where "crowdsecOwnerMetaKey = ''dynamic_prefix''"
definition crowdsecDecisionAllow :: string where "crowdsecDecisionAllow = ''allow''"
definition crowdsecScopeRange :: string where "crowdsecScopeRange = ''Range''"
definition crowdsecParamScenario :: string where "crowdsecParamScenario = ''scenario''"
definition schemeHTTPS :: string where "schemeHTTPS = ''https''"
definition crowdsecRequestTimeout :: duration where "crowdsecRequestTimeout = 10 * second"
definition crowdsecTokenSlack :: duration where "crowdsecTokenSlack = minute"

lemmas lapi_constants = CrowdSecMarkerScenario_def crowdsecMarkerOrigin_def crowdsecMarkerDuration_def crowdsecOwnerMetaKey_def
  crowdsecDecisionAllow_def crowdsecScopeRange_def crowdsecParamScenario_def schemeHTTPS_def

text \<open>The version comes from the build information, when there is any.\<close>

definition crowdsecUserAgent :: "string option \<Rightarrow> string" where
  "crowdsecUserAgent info =
     (let version = (case info of
            Some v \<Rightarrow> if v \<noteq> [] then map (\<lambda>c. if c = CHR ''/'' then CHR ''_'' else c) v else ''unknown''
          | None \<Rightarrow> ''unknown'')
      in ''dynamic-prefix-operator/'' @ version)"

text \<open>Whatever the version, the server finds the two parts it asks for.\<close>

lemma user_agent_has_two_parts: "\<exists>version. Go_Prelude.split (CHR ''/'') (crowdsecUserAgent info) = [''dynamic-prefix-operator'', version]"
proof -
  define version where "version = drop 24 (crowdsecUserAgent info)"
  have "crowdsecUserAgent info = ''dynamic-prefix-operator'' @ CHR ''/'' # version"
    by (simp add: version_def crowdsecUserAgent_def Let_def)
  moreover have "CHR ''/'' \<notin> set version"
    by (auto simp: version_def crowdsecUserAgent_def Let_def split: option.splits)
  ultimately show ?thesis
    using split_append_sep [of "CHR ''/''" "''dynamic-prefix-operator''" version] by (simp add: split_no_sep)
qed

subsection \<open>The durations the server reports\<close>

text \<open>
  Go's \<^verbatim>\<open>time.ParseDuration\<close>.  The fraction of a unit is computed in floating point, which is the
  parameter \<open>frac\<close>: digits, number of digits and unit to nanoseconds.
\<close>

type_synonym fraction = "nat \<Rightarrow> nat \<Rightarrow> nat \<Rightarrow> nat"

definition is_digit :: "char \<Rightarrow> bool" where
  "is_digit c \<longleftrightarrow> of_char c - (48 :: nat) \<le> 9 \<and> (48 :: nat) \<le> of_char c"

definition digit_of :: "char \<Rightarrow> nat" where
  "digit_of c = of_char c - 48"

fun leadingInt :: "nat \<Rightarrow> string \<Rightarrow> (nat \<times> string) option" where
  "leadingInt x [] = Some (x, [])"
| "leadingInt x (c # s) =
     (if \<not> is_digit c then Some (x, c # s)
      else if x > 2 ^ 63 div 10 then None
      else if x * 10 + digit_of c > 2 ^ 63 then None
      else leadingInt (x * 10 + digit_of c) s)"

fun leadingFraction :: "bool \<Rightarrow> nat \<Rightarrow> nat \<Rightarrow> string \<Rightarrow> nat \<times> nat \<times> string" where
  "leadingFraction over x n [] = (x, n, [])"
| "leadingFraction over x n (c # s) =
     (if \<not> is_digit c then (x, n, c # s)
      else if over \<or> x > (2 ^ 63 - 1) div 10 \<or> x * 10 + digit_of c > 2 ^ 63 then leadingFraction True x n s
      else leadingFraction False (x * 10 + digit_of c) (Suc n) s)"

definition unitMap :: "string \<rightharpoonup> nat" where
  "unitMap = map_of
     [(''ns'', 1), (''us'', 1000), (map char_of [0xC2 :: nat, 0xB5, 0x73], 1000), (map char_of [0xCE :: nat, 0xBC, 0x73], 1000),
      (''ms'', 1000000), (''s'', 1000000000), (''m'', 60 * 1000000000), (''h'', 3600 * 1000000000)]"

definition duration_part :: "fraction \<Rightarrow> string \<Rightarrow> (nat \<times> string) option" where
  "duration_part frac s =
     (case leadingInt 0 s of
        None \<Rightarrow> None
      | Some (v, s1) \<Rightarrow>
          let pre = length s1 \<noteq> length s;
              (f, n, s2) = (case s1 of c # r \<Rightarrow> if c = CHR ''.'' then leadingFraction False 0 0 r else (0, 0, s1) | [] \<Rightarrow> (0, 0, s1));
              post = (s1 \<noteq> [] \<and> hd s1 = CHR ''.'' \<and> length s2 \<noteq> length s1 - 1);
              u = takeWhile (\<lambda>c. c \<noteq> CHR ''.'' \<and> \<not> is_digit c) s2
          in if \<not> pre \<and> \<not> post \<or> u = [] then None
             else case unitMap u of
               None \<Rightarrow> None
             | Some unit \<Rightarrow>
                 if v > 2 ^ 63 div unit then None
                 else let v' = (if f > 0 then v * unit + frac f n unit else v * unit)
                      in if f > 0 \<and> v' > 2 ^ 63 then None else Some (v', drop (length u) s2))"

lemma leadingInt_length: "leadingInt x s = Some (v, r) \<Longrightarrow> length r \<le> length s"
  by (induction x s arbitrary: v r rule: leadingInt.induct) (auto simp: le_SucI split: if_splits)

lemma leadingFraction_length: "length (snd (snd (leadingFraction over x n s))) \<le> length s"
  by (induction over x n s rule: leadingFraction.induct) (auto simp: le_SucI)

lemma duration_part_shorter:
  assumes "duration_part frac s = Some (v, r)"
  shows "length r < length s"
proof -
  obtain v0 s1 where s1: "leadingInt 0 s = Some (v0, s1)"
    using assms by (auto simp: duration_part_def split: option.splits)
  obtain f n s2 where s2: "(case s1 of c # r \<Rightarrow> if c = CHR ''.'' then leadingFraction False 0 0 r else (0, 0, s1) | [] \<Rightarrow> (0, 0, s1)) = (f, n, s2)"
    by (metis surj_pair)
  let ?u = "takeWhile (\<lambda>c. c \<noteq> CHR ''.'' \<and> \<not> is_digit c) s2"
  have r: "?u \<noteq> []" "r = drop (length ?u) s2"
    using assms s1 s2 by (auto simp: duration_part_def Let_def split: option.splits if_splits)
  have "length s2 \<le> length s1"
    using s2 leadingFraction_length [of False 0 0 "tl s1"] by (cases s1) (auto split: if_splits)
  then have "length s2 \<le> length s"
    using leadingInt_length [OF s1] by simp
  moreover have "length r < length s2"
    using r by (cases s2) auto
  ultimately show ?thesis
    by simp
qed

function durations :: "fraction \<Rightarrow> nat \<Rightarrow> string \<Rightarrow> nat option" where
  "durations frac d s =
     (if s = [] then Some d
      else if \<not> (hd s = CHR ''.'' \<or> is_digit (hd s)) then None
      else case duration_part frac s of
        None \<Rightarrow> None
      | Some (v, r) \<Rightarrow> if (d + v) mod 2 ^ 64 > 2 ^ 63 then None else durations frac ((d + v) mod 2 ^ 64) r)"
  by pat_completeness auto

termination durations
  by (relation "measure (\<lambda>(_, _, s). length s)") (auto simp: duration_part_shorter)

declare durations.simps [simp del]

definition ParseDuration :: "fraction \<Rightarrow> string \<Rightarrow> duration option" where
  "ParseDuration frac s =
     (let neg = (s \<noteq> [] \<and> hd s = CHR ''-'');
          t = (if s \<noteq> [] \<and> (hd s = CHR ''-'' \<or> hd s = CHR ''+'') then tl s else s)
      in if t = ''0'' then Some 0
         else if t = [] then None
         else case durations frac 0 t of
           None \<Rightarrow> None
         | Some d \<Rightarrow> if neg then Some (- int d) else if d > 2 ^ 63 - 1 then None else Some (int d))"

lemma marker_duration: "\<exists>d > 0. ParseDuration frac crowdsecMarkerDuration = Some d"
proof -
  have "duration_part frac ''87600h'' = Some (315360000000000000, [])"
    by (simp add: duration_part_def is_digit_def digit_of_def unitMap_def)
  then have "durations frac 0 ''87600h'' = Some 315360000000000000"
    by (simp add: durations.simps is_digit_def)
  then show ?thesis
    by (simp add: ParseDuration_def crowdsecMarkerDuration_def)
qed

subsection \<open>Configuration\<close>

record CrowdSecLAPIConfig =
  lc_URL :: string
  lc_CertFile :: string
  lc_KeyFile :: string
  lc_CAFile :: string
  lc_MachineID :: string
  lc_PasswordFile :: string

record lapi_url =
  u_Scheme :: string
  u_Host :: string
  u_Path :: string

datatype lapi_config_error =
    BadURL string
  | BothCredentials
  | IncompleteCertificate
  | IncompletePassword
  | NoCredentials
  | CertificateNeedsHTTPS

text \<open>The parser of URLs is the parameter \<open>url_parse\<close>.\<close>

definition LAPIConfig_Validate :: "(string \<Rightarrow> lapi_url option) \<Rightarrow> CrowdSecLAPIConfig \<Rightarrow> lapi_config_error option" where
  "LAPIConfig_Validate url_parse c =
     (case url_parse (lc_URL c) of
        None \<Rightarrow> Some (BadURL (lc_URL c))
      | Some u \<Rightarrow>
          if u_Host u = [] \<or> u_Scheme u \<noteq> schemeHTTPS \<and> u_Scheme u \<noteq> ''http'' then Some (BadURL (lc_URL c))
          else let clientCert = (lc_CertFile c \<noteq> [] \<or> lc_KeyFile c \<noteq> []);
                   password = (lc_MachineID c \<noteq> [] \<or> lc_PasswordFile c \<noteq> [])
               in if clientCert \<and> password then Some BothCredentials
                  else if clientCert \<and> (lc_CertFile c = [] \<or> lc_KeyFile c = []) then Some IncompleteCertificate
                  else if password \<and> (lc_MachineID c = [] \<or> lc_PasswordFile c = []) then Some IncompletePassword
                  else if \<not> clientCert \<and> \<not> password then Some NoCredentials
                  else if clientCert \<and> u_Scheme u \<noteq> schemeHTTPS then Some CertificateNeedsHTTPS
                  else None)"

text \<open>An accepted configuration has one complete kind of credentials, and a certificate only over https.\<close>

lemma validated_config:
  assumes "LAPIConfig_Validate url_parse c = None"
  shows "(lc_CertFile c \<noteq> [] \<and> lc_KeyFile c \<noteq> [] \<and> lc_MachineID c = [] \<and> lc_PasswordFile c = [] \<and>
      (\<exists>u. url_parse (lc_URL c) = Some u \<and> u_Scheme u = ''https'')) \<or>
    (lc_MachineID c \<noteq> [] \<and> lc_PasswordFile c \<noteq> [] \<and> lc_CertFile c = [] \<and> lc_KeyFile c = [])"
  using assms by (auto simp: LAPIConfig_Validate_def schemeHTTPS_def Let_def split: option.splits if_splits)

record CrowdSecLAPI =
  la_cfg :: CrowdSecLAPIConfig
  la_base :: lapi_url
  la_token :: string
  la_expires :: instant

text \<open>Go's zero time, the first of January of the year 1.\<close>

definition zero_time :: instant where
  "zero_time = - 62135596800 * second"

text \<open>
  A failed second parse gives Go's \<^verbatim>\<open>nil\<close> URL, whose first use panics; that is \<open>None\<close>.  The transport's
  settings only concern connections, but for the certificates, which are read on each one.
\<close>

definition NewCrowdSecLAPI :: "(string \<Rightarrow> lapi_url option) \<Rightarrow> CrowdSecLAPIConfig \<Rightarrow> (lapi_config_error + CrowdSecLAPI) option" where
  "NewCrowdSecLAPI url_parse cfg =
     (case LAPIConfig_Validate url_parse cfg of
        Some e \<Rightarrow> Some (Err e)
      | None \<Rightarrow>
          (case url_parse (if lc_URL cfg \<noteq> [] \<and> last (lc_URL cfg) = CHR ''/'' then butlast (lc_URL cfg) else lc_URL cfg) of
             None \<Rightarrow> None
           | Some base \<Rightarrow> Some (Ok \<lparr>la_cfg = cfg, la_base = base, la_token = [], la_expires = zero_time\<rparr>)))"

subsection \<open>The environment\<close>

text \<open>
  A request carries its body as a JSON value, an answer a stream of bytes of type \<open>'b\<close>: the environment
  reads the first JSON value, or text, from at most so many bytes of it.
\<close>

record http_request =
  rq_Method :: string
  rq_URL :: lapi_url
  rq_Query :: "(string \<times> string list) list"
  rq_Body :: "json option"
  rq_Header :: "string \<rightharpoonup> string"

record 'b http_response =
  rs_StatusCode :: int
  rs_Status :: string
  rs_Body :: 'b

record ('s, 'b) lapi_env =
  le_Send :: "'s \<Rightarrow> http_request \<Rightarrow> (string + 'b http_response) \<times> 's"
  le_Now :: "'s \<Rightarrow> instant"
  le_ReadFile :: "'s \<Rightarrow> string \<Rightarrow> string + string"
  le_ReadJSON :: "nat \<Rightarrow> 'b \<Rightarrow> json option"
  le_ReadText :: "nat \<Rightarrow> 'b \<Rightarrow> string"
  le_UnmarshalTime :: "string \<Rightarrow> instant option"
  le_FormatRFC3339 :: "instant \<Rightarrow> string"
  le_DecodeError :: "'b \<Rightarrow> string"
  le_Fraction :: fraction
  le_BuildVersion :: "string option"
  le_PEMCertificates :: "string \<Rightarrow> string list"
  le_LoadX509KeyPair :: "'s \<Rightarrow> string \<Rightarrow> string \<Rightarrow> string + string"

record tls_config =
  tc_RootCAs :: "string list option"
  tc_Certificates :: "string list"

definition lapi_tlsConfig :: "('s, 'b) lapi_env \<Rightarrow> CrowdSecLAPIConfig \<Rightarrow> 's \<Rightarrow> string + tls_config" where
  "lapi_tlsConfig env c s =
     (case (if lc_CAFile c = [] then Ok None
            else case le_ReadFile env s (lc_CAFile c) of
              Inl e \<Rightarrow> Err (''read LAPI CA bundle: '' @ e)
            | Inr pem \<Rightarrow>
                if le_PEMCertificates env pem = [] then Err (''LAPI CA bundle '' @ lc_CAFile c @ '' holds no PEM certificate'')
                else Ok (Some (le_PEMCertificates env pem))) of
        Inl e \<Rightarrow> Err e
      | Inr roots \<Rightarrow>
          if lc_CertFile c = [] then Ok \<lparr>tc_RootCAs = roots, tc_Certificates = []\<rparr>
          else case le_LoadX509KeyPair env s (lc_CertFile c) (lc_KeyFile c) of
            Inl e \<Rightarrow> Err (''load LAPI client certificate: '' @ e)
          | Inr cert \<Rightarrow> Ok \<lparr>tc_RootCAs = roots, tc_Certificates = [cert]\<rparr>)"

subsection \<open>Reading JSON\<close>

text \<open>
  Decoding into Go's structs: a missing field or \<^verbatim>\<open>null\<close> leaves the zero value, another type is an
  error, other fields are ignored.  Fields have the names the server writes.
\<close>

definition json_string :: "json option \<Rightarrow> string option" where
  "json_string j = (case j of None \<Rightarrow> Some [] | Some JNull \<Rightarrow> Some [] | Some (JStr s) \<Rightarrow> Some s | _ \<Rightarrow> None)"

definition json_list :: "(json \<Rightarrow> 'a option) \<Rightarrow> json option \<Rightarrow> 'a list option" where
  "json_list f j = (case j of None \<Rightarrow> Some [] | Some JNull \<Rightarrow> Some [] | Some (JArr js) \<Rightarrow> those (map f js) | _ \<Rightarrow> None)"

definition json_struct :: "((string \<rightharpoonup> json) \<Rightarrow> 'a option) \<Rightarrow> json \<Rightarrow> 'a option" where
  "json_struct f j = (case j of JNull \<Rightarrow> f Map.empty | JObj m \<Rightarrow> f m | _ \<Rightarrow> None)"

record lapiDecision =
  ld_Type :: string
  ld_Scope :: string
  ld_Value :: string
  ld_Origin :: string
  ld_Scenario :: string
  ld_Duration :: string

record lapiMeta =
  lm_Key :: string
  lm_Value :: string

record lapiAlert =
  al_Decisions :: "lapiDecision list"
  al_Meta :: "lapiMeta list"

definition decode_decision :: "json \<Rightarrow> lapiDecision option" where
  "decode_decision = json_struct (\<lambda>m.
     case (json_string (m ''type''), json_string (m ''scope''), json_string (m ''value''), json_string (m ''origin''),
           json_string (m ''scenario''), json_string (m ''duration'')) of
       (Some t, Some sc, Some v, Some og, Some scen, Some d) \<Rightarrow>
         Some \<lparr>ld_Type = t, ld_Scope = sc, ld_Value = v, ld_Origin = og, ld_Scenario = scen, ld_Duration = d\<rparr>
     | _ \<Rightarrow> None)"

definition decode_meta :: "json \<Rightarrow> lapiMeta option" where
  "decode_meta = json_struct (\<lambda>m.
     case (json_string (m ''key''), json_string (m ''value'')) of
       (Some k, Some v) \<Rightarrow> Some \<lparr>lm_Key = k, lm_Value = v\<rparr>
     | _ \<Rightarrow> None)"

definition decode_alert :: "json \<Rightarrow> lapiAlert option" where
  "decode_alert = json_struct (\<lambda>m.
     case (json_list decode_decision (m ''decisions''), json_list decode_meta (m ''meta'')) of
       (Some ds, Some ms) \<Rightarrow> Some \<lparr>al_Decisions = ds, al_Meta = ms\<rparr>
     | _ \<Rightarrow> None)"

definition decode_alerts :: "json \<Rightarrow> lapiAlert list option" where
  "decode_alerts j = json_list decode_alert (Some j)"

text \<open>The answer to a login: the token and its end, which is the zero time when missing.\<close>

definition decode_login :: "('s, 'b) lapi_env \<Rightarrow> json \<Rightarrow> (string \<times> instant) option" where
  "decode_login env = json_struct (\<lambda>m.
     case (json_string (m ''token''),
           case m ''expire'' of
             None \<Rightarrow> Some zero_time
           | Some JNull \<Rightarrow> Some zero_time
           | Some (JStr t) \<Rightarrow> le_UnmarshalTime env t
           | _ \<Rightarrow> None) of
       (Some tok, Some e) \<Rightarrow> Some (tok, e)
     | _ \<Rightarrow> None)"

subsection \<open>Requests\<close>

datatype lapi_error =
    PasswordUnreadable string
  | LoginSendFailed string
  | LoginRefused string
  | NoToken
  | Unauthorized
  | SendFailed string string string
  | StatusRefused string string string string
  | DecodeFailed string string string
  | DeleteWithoutValue

fun lapi_error_text :: "lapi_error \<Rightarrow> string" where
  "lapi_error_text (PasswordUnreadable e) = ''read LAPI password file: '' @ e"
| "lapi_error_text (LoginSendFailed e) = ''LAPI login: '' @ e"
| "lapi_error_text (LoginRefused status) = ''LAPI login: '' @ status"
| "lapi_error_text NoToken = ''LAPI login: response carries no token''"
| "lapi_error_text Unauthorized = ''crowdsec LAPI: unauthorized''"
| "lapi_error_text (SendFailed method path e) = method @ '' '' @ path @ '': '' @ e"
| "lapi_error_text (StatusRefused method path status msg) = method @ '' '' @ path @ '': '' @ status @ '': '' @ msg"
| "lapi_error_text (DecodeFailed method path e) = method @ '' '' @ path @ '': decode response: '' @ e"
| "lapi_error_text DeleteWithoutValue = ''refusing a decision delete without a value''"

record lapi_call =
  lp_method :: string
  lp_path :: string
  lp_query :: "(string \<times> string list) list"
  lp_body :: "json option"

definition lapi_request :: "('s, 'b) lapi_env \<Rightarrow> CrowdSecLAPI \<Rightarrow> lapi_call \<Rightarrow> string \<Rightarrow> http_request" where
  "lapi_request env c call tok =
     \<lparr>rq_Method = lp_method call, rq_URL = (la_base c)\<lparr>u_Path := u_Path (la_base c) @ lp_path call\<rparr>,
      rq_Query = lp_query call, rq_Body = lp_body call,
      rq_Header = (\<lambda>h. if h = ''User-Agent'' then Some (crowdsecUserAgent (le_BuildVersion env))
        else if h = ''Content-Type'' \<and> lp_body call \<noteq> None then Some ''application/json''
        else if h = ''Authorization'' \<and> tok \<noteq> [] then Some (''Bearer '' @ tok)
        else None)\<rparr>"

definition lapi_send :: "('s, 'b) lapi_env \<Rightarrow> CrowdSecLAPI \<Rightarrow> lapi_call \<Rightarrow> string \<Rightarrow> 's \<Rightarrow> (string + 'b http_response) \<times> 's" where
  "lapi_send env c call tok s = le_Send env s (lapi_request env c call tok)"

definition login_call :: "CrowdSecLAPIConfig \<Rightarrow> string option \<Rightarrow> lapi_call" where
  "login_call cfg raw =
     \<lparr>lp_method = ''POST'', lp_path = ''/v1/watchers/login'', lp_query = [],
      lp_body = Some (JObj (case raw of
        None \<Rightarrow> [''scenarios'' \<mapsto> JArr []]
      | Some pw \<Rightarrow> [''scenarios'' \<mapsto> JArr [], ''machine_id'' \<mapsto> JStr (lc_MachineID cfg), ''password'' \<mapsto> JStr (TrimSpace pw)]))\<rparr>"

definition login_password :: "('s, 'b) lapi_env \<Rightarrow> CrowdSecLAPIConfig \<Rightarrow> 's \<Rightarrow> string + string option" where
  "login_password env cfg s =
     (if lc_PasswordFile cfg = [] then Ok None
      else case le_ReadFile env s (lc_PasswordFile cfg) of Inl e \<Rightarrow> Err e | Inr raw \<Rightarrow> Ok (Some raw))"

definition login :: "('s, 'b) lapi_env \<Rightarrow> CrowdSecLAPI \<times> 's \<Rightarrow> (lapi_error + string) \<times> CrowdSecLAPI \<times> 's" where
  "login env cs =
     (let (c, s) = cs in
      case login_password env (la_cfg c) s of
        Inl e \<Rightarrow> (Err (PasswordUnreadable e), c, s)
      | Inr raw \<Rightarrow>
          (case lapi_send env c (login_call (la_cfg c) raw) [] s of
             (Inl e, s) \<Rightarrow> (Err (LoginSendFailed e), c, s)
           | (Inr resp, s) \<Rightarrow>
               if rs_StatusCode resp \<noteq> 200 then (Err (LoginRefused (rs_Status resp)), c, s)
               else case Option.bind (le_ReadJSON env (2 ^ 16) (rs_Body resp)) (decode_login env) of
                 None \<Rightarrow> (Err NoToken, c, s)
               | Some (tok, expire) \<Rightarrow>
                   if tok = [] then (Err NoToken, c, s)
                   else (Ok tok, c\<lparr>la_token := tok, la_expires := expire - crowdsecTokenSlack\<rparr>, s)))"

definition cachedToken :: "instant \<Rightarrow> CrowdSecLAPI \<Rightarrow> string" where
  "cachedToken now c = (if la_token c = [] \<or> now > la_expires c then [] else la_token c)"

definition dropToken :: "CrowdSecLAPI \<Rightarrow> CrowdSecLAPI" where
  "dropToken c = c\<lparr>la_token := []\<rparr>"

text \<open>Without a decoder the answer is discarded and the result is \<open>None\<close>.\<close>

definition doOnce ::
  "('s, 'b) lapi_env \<Rightarrow> lapi_call \<Rightarrow> (json \<Rightarrow> 'a option) option \<Rightarrow> string \<Rightarrow> CrowdSecLAPI \<times> 's \<Rightarrow> (lapi_error + 'a option) \<times> CrowdSecLAPI \<times> 's" where
  "doOnce env call out tok cs =
     (let (c, s) = cs; (res, s') = lapi_send env c call tok s in
      (case res of
         Inl e \<Rightarrow> Err (SendFailed (lp_method call) (lp_path call) e)
       | Inr resp \<Rightarrow>
           if rs_StatusCode resp = 401 then Err Unauthorized
           else if rs_StatusCode resp < 200 \<or> rs_StatusCode resp > 299
           then Err (StatusRefused (lp_method call) (lp_path call) (rs_Status resp) (TrimSpace (le_ReadText env 512 (rs_Body resp))))
           else case out of
             None \<Rightarrow> Ok None
           | Some decode \<Rightarrow>
               (case Option.bind (le_ReadJSON env (4 * 2 ^ 20) (rs_Body resp)) decode of
                  None \<Rightarrow> Err (DecodeFailed (lp_method call) (lp_path call) (le_DecodeError env (rs_Body resp)))
                | Some a \<Rightarrow> Ok (Some a)),
       c, s'))"

definition obtain_token :: "('s, 'b) lapi_env \<Rightarrow> CrowdSecLAPI \<times> 's \<Rightarrow> (lapi_error + string) \<times> CrowdSecLAPI \<times> 's" where
  "obtain_token env cs =
     (let (c, s) = cs; tok = cachedToken (le_Now env s) c in if tok = [] then login env (c, s) else (Ok tok, c, s))"

function lapi_do ::
  "('s, 'b) lapi_env \<Rightarrow> nat \<Rightarrow> lapi_call \<Rightarrow> (json \<Rightarrow> 'a option) option \<Rightarrow> CrowdSecLAPI \<times> 's \<Rightarrow> (lapi_error + 'a option) \<times> CrowdSecLAPI \<times> 's" where
  "lapi_do env attempt call out cs =
     (case obtain_token env cs of
        (Inl e, cs) \<Rightarrow> (Err e, cs)
      | (Inr tok, cs) \<Rightarrow>
          (case doOnce env call out tok cs of
             (Inl Unauthorized, c, s) \<Rightarrow>
               if attempt = 0 then lapi_do env (Suc attempt) call out (dropToken c, s) else (Err Unauthorized, c, s)
           | (res, cs) \<Rightarrow> (res, cs)))"
  by pat_completeness auto

termination lapi_do
  by (relation "measure (\<lambda>(_, attempt, _). 1 - attempt)") auto

declare lapi_do.simps [simp del]

subsection \<open>The operations on markers\<close>

definition list_query :: "(string \<times> string list) list" where
  "list_query =
     [(crowdsecParamScenario, [CrowdSecMarkerScenario]), (''origin'', [crowdsecMarkerOrigin]), (''decision_type'', [crowdsecDecisionAllow]),
      (''scope'', [crowdsecScopeRange]), (''has_active_decision'', [''true'']), (''limit'', [''0''])]"

definition alert_owner :: "lapiAlert \<Rightarrow> string" where
  "alert_owner a = fold (\<lambda>m owner. if lm_Key m = crowdsecOwnerMetaKey then lm_Value m else owner) (al_Meta a) []"

definition marker_decision :: "fraction \<Rightarrow> lapiDecision \<Rightarrow> bool" where
  "marker_decision frac d \<longleftrightarrow>
     (case ParseDuration frac (ld_Duration d) of
        None \<Rightarrow> False
      | Some remaining \<Rightarrow>
          \<not> (remaining \<le> 0 \<or> ld_Type d \<noteq> crowdsecDecisionAllow \<or> ld_Scope d \<noteq> crowdsecScopeRange \<or>
             ld_Origin d \<noteq> crowdsecMarkerOrigin \<or> ld_Scenario d \<noteq> CrowdSecMarkerScenario))"

definition markers_of :: "fraction \<Rightarrow> lapiAlert list \<Rightarrow> crowdsecMarker list" where
  "markers_of frac alerts =
     concat (map (\<lambda>a. map (\<lambda>d. \<lparr>mk_Value = ld_Value d, mk_Owner = alert_owner a\<rparr>) (List.filter (marker_decision frac) (al_Decisions a))) alerts)"

definition lapi_listMarkers :: "('s, 'b) lapi_env \<Rightarrow> CrowdSecLAPI \<times> 's \<Rightarrow> (lapi_error + crowdsecMarker list) \<times> CrowdSecLAPI \<times> 's" where
  "lapi_listMarkers env cs =
     (case lapi_do env 0 \<lparr>lp_method = ''GET'', lp_path = ''/v1/alerts'', lp_query = list_query, lp_body = None\<rparr> (Some decode_alerts) cs of
        (Inl e, cs) \<Rightarrow> (Err e, cs)
      | (Inr alerts, cs) \<Rightarrow> (Ok (markers_of (le_Fraction env) (case alerts of None \<Rightarrow> [] | Some xs \<Rightarrow> xs)), cs))"

definition marker_alert :: "string \<Rightarrow> string \<Rightarrow> string \<Rightarrow> json" where
  "marker_alert now dynamicPrefix cidr = JObj
     [crowdsecParamScenario \<mapsto> JStr CrowdSecMarkerScenario, ''scenario_hash'' \<mapsto> JStr [], ''scenario_version'' \<mapsto> JStr [],
      ''message'' \<mapsto> JStr (''trusted LAN prefix '' @ cidr @ '' of DynamicPrefix '' @ dynamicPrefix), ''events_count'' \<mapsto> JNumber ''1'',
      ''events'' \<mapsto> JArr [], ''start_at'' \<mapsto> JStr now, ''stop_at'' \<mapsto> JStr now, ''capacity'' \<mapsto> JNumber ''0'',
      ''leakspeed'' \<mapsto> JStr ''0'', ''simulated'' \<mapsto> JBool False, ''remediation'' \<mapsto> JBool False,
      ''source'' \<mapsto> JObj [''scope'' \<mapsto> JStr crowdsecScopeRange, ''value'' \<mapsto> JStr cidr],
      ''meta'' \<mapsto> JArr [JObj [''key'' \<mapsto> JStr crowdsecOwnerMetaKey, ''value'' \<mapsto> JStr dynamicPrefix]],
      ''decisions'' \<mapsto> JArr [JObj
        [''type'' \<mapsto> JStr crowdsecDecisionAllow, ''scope'' \<mapsto> JStr crowdsecScopeRange, ''value'' \<mapsto> JStr cidr,
         ''origin'' \<mapsto> JStr crowdsecMarkerOrigin, ''scenario'' \<mapsto> JStr CrowdSecMarkerScenario, ''duration'' \<mapsto> JStr crowdsecMarkerDuration]]]"

definition lapi_createMarker ::
  "('s, 'b) lapi_env \<Rightarrow> CrowdSecLAPI \<times> 's \<Rightarrow> string \<Rightarrow> string \<Rightarrow> lapi_error option \<times> CrowdSecLAPI \<times> 's" where
  "lapi_createMarker env cs dynamicPrefix cidr =
     (let now = le_FormatRFC3339 env (le_Now env (snd cs));
          payload = JArr [marker_alert now dynamicPrefix cidr]
      in case lapi_do env 0 \<lparr>lp_method = ''POST'', lp_path = ''/v1/alerts'', lp_query = [], lp_body = Some payload\<rparr>
             (None :: (json \<Rightarrow> unit option) option) cs of
        (Inl e, cs) \<Rightarrow> (Some e, cs)
      | (Inr _, cs) \<Rightarrow> (None, cs))"

definition markerDeleteQuery :: "string \<Rightarrow> lapi_error + (string \<times> string list) list" where
  "markerDeleteQuery cidr =
     (if cidr = [] then Err DeleteWithoutValue
      else Ok [(''type'', [crowdsecDecisionAllow]), (''scopes'', [crowdsecScopeRange]), (''value'', [cidr]),
               (''origin'', [crowdsecMarkerOrigin]), (crowdsecParamScenario, [CrowdSecMarkerScenario])])"

definition lapi_deleteMarker :: "('s, 'b) lapi_env \<Rightarrow> CrowdSecLAPI \<times> 's \<Rightarrow> string \<Rightarrow> lapi_error option \<times> CrowdSecLAPI \<times> 's" where
  "lapi_deleteMarker env cs cidr =
     (case markerDeleteQuery cidr of
        Inl e \<Rightarrow> (Some e, cs)
      | Inr query \<Rightarrow>
          (case lapi_do env 0 \<lparr>lp_method = ''DELETE'', lp_path = ''/v1/decisions'', lp_query = query, lp_body = None\<rparr>
             (None :: (json \<Rightarrow> unit option) option) cs of
             (Inl e, cs) \<Rightarrow> (Some e, cs)
           | (Inr _, cs) \<Rightarrow> (None, cs)))"

text \<open>The client as the interface \<^verbatim>\<open>crowdsecMarkerAPI\<close> of the controller.\<close>

definition lapi_markers :: "('s, 'b) lapi_env \<Rightarrow> (CrowdSecLAPI \<times> 's) marker_api" where
  "lapi_markers env =
     \<lparr>listMarkers = (\<lambda>cs. case lapi_listMarkers env cs of (Inl e, cs) \<Rightarrow> (Err (lapi_error_text e), cs) | (Inr ms, cs) \<Rightarrow> (Ok ms, cs)),
      createMarker = (\<lambda>cs n p. case lapi_createMarker env cs n p of (e, cs) \<Rightarrow> (map_option lapi_error_text e, cs)),
      deleteMarker = (\<lambda>cs p. case lapi_deleteMarker env cs p of (e, cs) \<Rightarrow> (map_option lapi_error_text e, cs))\<rparr>"

subsection \<open>A server that keeps alerts\<close>

text \<open>
  What the Local API documents of the three requests, over the alerts it holds with their decisions: a
  login touches no alert, a list shows the alerts with a decision that passes every filter of the query
  (all of them at limit 0, and an answer cut short cannot be read), a posted alert is stored as given, a
  delete takes the decisions that match every parameter.  A request answered with 401 has no effect,
  another failure has its effect or none.
\<close>

definition accepted :: "string + 'b http_response \<Rightarrow> bool" where
  "accepted res \<longleftrightarrow> (case res of Inl _ \<Rightarrow> False | Inr resp \<Rightarrow> 200 \<le> rs_StatusCode resp \<and> rs_StatusCode resp \<le> 299)"

definition unauthorized :: "string + 'b http_response \<Rightarrow> bool" where
  "unauthorized res \<longleftrightarrow> (case res of Inl _ \<Rightarrow> False | Inr resp \<Rightarrow> rs_StatusCode resp = 401)"

definition addressed :: "http_request \<Rightarrow> string \<Rightarrow> string \<Rightarrow> bool" where
  "addressed rq method path \<longleftrightarrow> rq_Method rq = method \<and> (\<exists>p. u_Path (rq_URL rq) = p @ path)"

definition active :: "fraction \<Rightarrow> lapiDecision \<Rightarrow> bool" where
  "active frac d \<longleftrightarrow> (\<exists>r > 0. ParseDuration frac (ld_Duration d) = Some r)"

definition list_filter :: "fraction \<Rightarrow> string \<times> string list \<Rightarrow> lapiDecision \<Rightarrow> bool" where
  "list_filter frac kv d \<longleftrightarrow>
     (let (k, vs) = kv in
      if k = ''scenario'' then ld_Scenario d \<in> set vs else if k = ''origin'' then ld_Origin d \<in> set vs
      else if k = ''decision_type'' then ld_Type d \<in> set vs else if k = ''scope'' then ld_Scope d \<in> set vs
      else if k = ''has_active_decision'' then active frac d else True)"

definition listed :: "fraction \<Rightarrow> (string \<times> string list) list \<Rightarrow> lapiAlert \<Rightarrow> bool" where
  "listed frac q a \<longleftrightarrow> (\<exists>d \<in> set (al_Decisions a). \<forall>kv \<in> set q. list_filter frac kv d)"

definition delete_filter :: "string \<times> string list \<Rightarrow> lapiDecision \<Rightarrow> bool" where
  "delete_filter kv d \<longleftrightarrow>
     (let (k, vs) = kv in
      if k = ''type'' then ld_Type d \<in> set vs else if k = ''scopes'' then ld_Scope d \<in> set vs
      else if k = ''value'' then ld_Value d \<in> set vs else if k = ''origin'' then ld_Origin d \<in> set vs
      else if k = ''scenario'' then ld_Scenario d \<in> set vs else True)"

definition expire :: "(string \<times> string list) list \<Rightarrow> lapiAlert \<Rightarrow> lapiAlert" where
  "expire q a = a\<lparr>al_Decisions := List.filter (\<lambda>d. \<not> (\<forall>kv \<in> set q. delete_filter kv d)) (al_Decisions a)\<rparr>"

definition server_login :: "('s, 'b) lapi_env \<Rightarrow> ('s \<Rightarrow> lapiAlert list) \<Rightarrow> bool" where
  "server_login env alerts \<longleftrightarrow>
     (\<forall>s rq res s'. addressed rq ''POST'' ''/v1/watchers/login'' \<longrightarrow> le_Send env s rq = (res, s') \<longrightarrow> alerts s' = alerts s)"

definition server_list :: "('s, 'b) lapi_env \<Rightarrow> ('s \<Rightarrow> lapiAlert list) \<Rightarrow> bool" where
  "server_list env alerts \<longleftrightarrow>
     (\<forall>s rq res s'. addressed rq ''GET'' ''/v1/alerts'' \<longrightarrow> le_Send env s rq = (res, s') \<longrightarrow>
        alerts s' = alerts s \<and>
        (\<forall>resp n xs. res = Ok resp \<longrightarrow> accepted res \<longrightarrow> (''limit'', [''0'']) \<in> set (rq_Query rq) \<longrightarrow>
           Option.bind (le_ReadJSON env n (rs_Body resp)) decode_alerts = Some xs \<longrightarrow>
           xs = List.filter (listed (le_Fraction env) (rq_Query rq)) (alerts s)))"

definition takes_effect :: "string + 'b http_response \<Rightarrow> 'a \<Rightarrow> 'a \<Rightarrow> 'a \<Rightarrow> bool" where
  "takes_effect res before done after \<longleftrightarrow>
     (if accepted res then after = done else after = before \<or> after = done \<and> \<not> unauthorized res)"

definition server_create :: "('s, 'b) lapi_env \<Rightarrow> ('s \<Rightarrow> lapiAlert list) \<Rightarrow> bool" where
  "server_create env alerts \<longleftrightarrow>
     (\<forall>s rq res s' j as. addressed rq ''POST'' ''/v1/alerts'' \<longrightarrow> le_Send env s rq = (res, s') \<longrightarrow>
        rq_Body rq = Some j \<longrightarrow> decode_alerts j = Some as \<longrightarrow> takes_effect res (alerts s) (alerts s @ as) (alerts s'))"

definition server_delete :: "('s, 'b) lapi_env \<Rightarrow> ('s \<Rightarrow> lapiAlert list) \<Rightarrow> bool" where
  "server_delete env alerts \<longleftrightarrow>
     (\<forall>s rq res s'. addressed rq ''DELETE'' ''/v1/decisions'' \<longrightarrow> le_Send env s rq = (res, s') \<longrightarrow>
        takes_effect res (alerts s) (map (expire (rq_Query rq)) (alerts s)) (alerts s'))"

definition server_laws :: "('s, 'b) lapi_env \<Rightarrow> ('s \<Rightarrow> lapiAlert list) \<Rightarrow> bool" where
  "server_laws env alerts \<longleftrightarrow> server_login env alerts \<and> server_list env alerts \<and> server_create env alerts \<and> server_delete env alerts"

subsection \<open>One request with effect\<close>

lemma addressed_request [simp]: "addressed (lapi_request env c call tok) (lp_method call) (lp_path call)"
  by (auto simp: addressed_def lapi_request_def)

lemma request_parts [simp]:
  "rq_Query (lapi_request env c call tok) = lp_query call" "rq_Body (lapi_request env c call tok) = lp_body call"
  by (simp_all add: lapi_request_def)

lemma login_keeps:
  assumes "server_login env alerts" and "login env (c, s) = (res, c', s')"
  shows "alerts s' = alerts s \<and> la_cfg c' = la_cfg c \<and> la_base c' = la_base c"
proof (cases "login_password env (la_cfg c) s")
  case (Inl e)
  then show ?thesis
    using assms(2) by (simp add: login_def)
next
  case (Inr raw)
  obtain sres s1 where send: "lapi_send env c (login_call (la_cfg c) raw) [] s = (sres, s1)"
    by (metis surj_pair)
  then have "alerts s1 = alerts s"
    using assms(1) addressed_request [of env c "login_call (la_cfg c) raw" "[]"] unfolding server_login_def lapi_send_def
    by (metis lapi_call.select_convs(1,2) login_call_def)
  moreover have "s' = s1" "la_cfg c' = la_cfg c \<and> la_base c' = la_base c"
    using assms(2) Inr send by (auto simp: login_def split: sum.splits option.splits if_splits)
  ultimately show ?thesis
    by simp
qed

lemma obtain_token_keeps:
  assumes "server_login env alerts" and "obtain_token env (c, s) = (res, c', s')"
  shows "alerts s' = alerts s \<and> la_cfg c' = la_cfg c \<and> la_base c' = la_base c"
  using assms(2) login_keeps [OF assms(1)] by (auto simp: obtain_token_def Let_def split: if_splits)

lemma doOnce_send:
  assumes "doOnce env call out tok (c, s) = (res, c', s')"
  shows "\<exists>sres. lapi_send env c call tok s = (sres, s') \<and> c' = c \<and>
    (res = Err Unauthorized \<longrightarrow> unauthorized sres) \<and> (out = None \<longrightarrow> (accepted sres \<longleftrightarrow> res = Ok None) \<and> (\<not> accepted sres \<longleftrightarrow> (\<exists>e. res = Err e)))"
proof -
  obtain sres s1 where send: "lapi_send env c call tok s = (sres, s1)"
    by (metis surj_pair)
  then show ?thesis
    using assms by (cases sres) (auto simp: doOnce_def accepted_def unauthorized_def split: option.splits if_splits)
qed

definition unauthorized_quiet :: "('s, 'b) lapi_env \<Rightarrow> ('s \<Rightarrow> lapiAlert list) \<Rightarrow> lapi_call \<Rightarrow> bool" where
  "unauthorized_quiet env alerts call \<longleftrightarrow>
     (\<forall>c tok s res s'. lapi_send env c call tok s = (res, s') \<longrightarrow> unauthorized res \<longrightarrow> alerts s' = alerts s)"

text \<open>However often it logs in or is turned away, a call reaches the alerts once at most.\<close>

lemma lapi_do_once:
  assumes "server_login env alerts" and "unauthorized_quiet env alerts call"
    and "lapi_do env attempt call out (c, s) = (res, c', s')"
  shows "alerts s' = alerts s \<and> (\<exists>e. res = Err e) \<or> (\<exists>c1 s1 tok. alerts s1 = alerts s \<and> doOnce env call out tok (c1, s1) = (res, c', s'))"
  using assms(3)
proof (induction "1 - attempt" arbitrary: attempt c s rule: less_induct)
  case less
  obtain tres c1 s1 where tok: "obtain_token env (c, s) = (tres, c1, s1)"
    by (metis surj_pair)
  have s1: "alerts s1 = alerts s"
    using obtain_token_keeps [OF assms(1) tok] by simp
  show ?case
  proof (cases tres)
    case (Inl e)
    then have "res = Err e" "s' = s1"
      using less.prems tok by (simp_all add: lapi_do.simps [of env attempt])
    then show ?thesis
      using s1 by blast
  next
    case (Inr t)
    obtain dres c2 s2 where once: "doOnce env call out t (c1, s1) = (dres, c2, s2)"
      by (metis surj_pair)
    show ?thesis
    proof (cases "dres = Err Unauthorized \<and> attempt = 0")
      case True
      have "alerts s2 = alerts s"
        using doOnce_send [OF once] assms(2) True s1 unfolding unauthorized_quiet_def by metis
      moreover have "lapi_do env (Suc attempt) call out (dropToken c2, s2) = (res, c', s')"
        using less.prems tok Inr once True by (simp add: lapi_do.simps [of env 0])
      ultimately show ?thesis
        using less.hyps [of "Suc attempt" "dropToken c2" s2] True by simp
    next
      case False
      then have "(dres, c2, s2) = (res, c', s')"
        using less.prems tok Inr once by (auto simp: lapi_do.simps [of env attempt] split: sum.splits lapi_error.splits)
      then show ?thesis
        using once s1 by blast
    qed
  qed
qed

lemma server_lawsD:
  assumes "server_laws env alerts"
  shows "server_login env alerts" "server_list env alerts" "server_create env alerts" "server_delete env alerts"
  using assms by (simp_all add: server_laws_def)

lemma not_accepted: "unauthorized res \<Longrightarrow> \<not> accepted res"
  by (auto simp: unauthorized_def accepted_def split: sum.splits)

text \<open>A call whose single request takes effect does so as a whole.\<close>

definition call_effect :: "('s, 'b) lapi_env \<Rightarrow> ('s \<Rightarrow> lapiAlert list) \<Rightarrow> lapi_call \<Rightarrow> (lapiAlert list \<Rightarrow> lapiAlert list) \<Rightarrow> bool" where
  "call_effect env alerts call eff \<longleftrightarrow>
     (\<forall>c tok s res s'. lapi_send env c call tok s = (res, s') \<longrightarrow> takes_effect res (alerts s) (eff (alerts s)) (alerts s'))"

lemma lapi_do_effect:
  assumes login: "server_login env alerts"
    and effect: "call_effect env alerts call eff"
    and run: "lapi_do env 0 call (None :: (json \<Rightarrow> unit option) option) (c, s) = (res, c', s')"
  shows "alerts s' = eff (alerts s) \<or> (\<exists>e. res = Err e) \<and> alerts s' = alerts s"
proof -
  have quiet: "unauthorized_quiet env alerts call"
    using effect not_accepted unfolding unauthorized_quiet_def call_effect_def takes_effect_def by metis
  show ?thesis
    using lapi_do_once [OF login quiet run]
  proof (elim disjE exE conjE)
    fix c1 s1 tok
    assume s1: "alerts s1 = alerts s" and once: "doOnce env call None tok (c1, s1) = (res, c', s')"
    from doOnce_send [OF once] obtain sres where sres: "lapi_send env c1 call tok s1 = (sres, s')"
        "\<not> accepted sres \<longleftrightarrow> (\<exists>e. res = Err e)"
      by auto
    show ?thesis
      using effect sres s1 unfolding call_effect_def takes_effect_def by (metis (full_types))
  qed auto
qed

definition marker_record :: "string \<Rightarrow> string \<Rightarrow> lapiAlert" where
  "marker_record n p =
     \<lparr>al_Decisions = [\<lparr>ld_Type = crowdsecDecisionAllow, ld_Scope = crowdsecScopeRange, ld_Value = p, ld_Origin = crowdsecMarkerOrigin,
        ld_Scenario = CrowdSecMarkerScenario, ld_Duration = crowdsecMarkerDuration\<rparr>],
      al_Meta = [\<lparr>lm_Key = crowdsecOwnerMetaKey, lm_Value = n\<rparr>]\<rparr>"

text \<open>What is posted is read back as the marker it stands for.\<close>

lemma decode_marker_alert: "decode_alerts (JArr [marker_alert now n p]) = Some [marker_record n p]"
  by (simp add: decode_alerts_def json_list_def marker_alert_def decode_alert_def json_struct_def decode_decision_def
      decode_meta_def json_string_def marker_record_def crowdsecParamScenario_def)

lemma marker_decision_iff:
  "marker_decision frac d \<longleftrightarrow> active frac d \<and> ld_Type d = crowdsecDecisionAllow \<and> ld_Scope d = crowdsecScopeRange \<and>
     ld_Origin d = crowdsecMarkerOrigin \<and> ld_Scenario d = CrowdSecMarkerScenario"
  by (auto simp: marker_decision_def active_def split: option.splits)

lemma markers_of_append: "markers_of frac (xs @ ys) = markers_of frac xs @ markers_of frac ys"
  by (simp add: markers_of_def)

definition alert_markers :: "fraction \<Rightarrow> lapiAlert \<Rightarrow> crowdsecMarker set" where
  "alert_markers frac a = (\<lambda>d. \<lparr>mk_Value = ld_Value d, mk_Owner = alert_owner a\<rparr>) ` {d \<in> set (al_Decisions a). marker_decision frac d}"

lemma set_markers_of: "set (markers_of frac alerts) = (\<Union>a \<in> set alerts. alert_markers frac a)"
  by (auto simp: markers_of_def alert_markers_def)

lemma markers_of_record: "markers_of frac [marker_record n p] = [\<lparr>mk_Value = p, mk_Owner = n\<rparr>]"
  using marker_duration [of frac] by (auto simp: markers_of_def marker_record_def marker_decision_iff active_def alert_owner_def)

lemma markers_of_listed: "markers_of frac (List.filter (listed frac list_query) alerts) = markers_of frac alerts"
proof -
  have "listed frac list_query a" if "d \<in> set (al_Decisions a)" "marker_decision frac d" for a d
    unfolding listed_def
    by (rule bexI [OF _ that(1)]) (use that(2) in \<open>simp add: list_query_def list_filter_def marker_decision_iff crowdsecParamScenario_def\<close>)
  then have "List.filter (marker_decision frac) (al_Decisions a) = []" if "\<not> listed frac list_query a" for a
    using that by (auto simp: filter_empty_conv)
  then show ?thesis
    by (induction alerts) (auto simp: markers_of_def)
qed

lemma markers_of_expired:
  assumes "markerDeleteQuery p = Ok q"
  shows "set (markers_of frac (map (expire q) alerts)) = {m \<in> set (markers_of frac alerts). mk_Value m \<noteq> p}"
proof -
  have q: "q = [(''type'', [crowdsecDecisionAllow]), (''scopes'', [crowdsecScopeRange]), (''value'', [p]),
      (''origin'', [crowdsecMarkerOrigin]), (''scenario'', [CrowdSecMarkerScenario])]"
    using assms by (simp add: markerDeleteQuery_def crowdsecParamScenario_def split: if_splits)
  have "(\<forall>kv \<in> set q. delete_filter kv d) \<longleftrightarrow> ld_Value d = p" if "marker_decision frac d" for d
    using that by (simp add: q delete_filter_def marker_decision_iff)
  then have d: "marker_decision frac d \<Longrightarrow> d \<in> set (al_Decisions (expire q a)) \<longleftrightarrow> d \<in> set (al_Decisions a) \<and> ld_Value d \<noteq> p" for d a
    by (auto simp: expire_def)
  have ow: "alert_owner (expire q a) = alert_owner a" for a
    by (simp add: expire_def alert_owner_def)
  have "{d' \<in> set (al_Decisions (expire q a)). marker_decision frac d'} = {d' \<in> set (al_Decisions a). marker_decision frac d' \<and> ld_Value d' \<noteq> p}" for a
    using d by blast
  then have "alert_markers frac (expire q a) = {m \<in> alert_markers frac a. mk_Value m \<noteq> p}" for a
    unfolding alert_markers_def ow by auto
  then show ?thesis
    unfolding set_markers_of by auto
qed

subsection \<open>The client implements the set of markers\<close>

definition lapi_view :: "('s, 'b) lapi_env \<Rightarrow> ('s \<Rightarrow> lapiAlert list) \<Rightarrow> CrowdSecLAPI \<times> 's \<Rightarrow> crowdsecMarker set" where
  "lapi_view env alerts cs = set (markers_of (le_Fraction env) (alerts (snd cs)))"

lemma lapi_list_view:
  assumes laws: "server_laws env alerts" and run: "lapi_listMarkers env (c, s) = (res, c', s')"
  shows "alerts s' = alerts s \<and> (\<forall>ms. res = Ok ms \<longrightarrow> ms = markers_of (le_Fraction env) (alerts s))"
proof -
  let ?call = "\<lparr>lp_method = ''GET'', lp_path = ''/v1/alerts'', lp_query = list_query, lp_body = None\<rparr>"
  have sent: "alerts s2 = alerts s1 \<and>
      (\<forall>resp n xs. sres = Ok resp \<longrightarrow> accepted sres \<longrightarrow> Option.bind (le_ReadJSON env n (rs_Body resp)) decode_alerts = Some xs \<longrightarrow>
         xs = List.filter (listed (le_Fraction env) list_query) (alerts s1))"
    if "lapi_send env c1 ?call tok s1 = (sres, s2)" for c1 s1 tok sres s2
  proof -
    have "addressed (lapi_request env c1 ?call tok) ''GET'' ''/v1/alerts''" "(''limit'', [''0'']) \<in> set (rq_Query (lapi_request env c1 ?call tok))"
      using addressed_request [of env c1 ?call tok] by (simp_all add: list_query_def)
    then show ?thesis
      using server_lawsD(2) [OF laws] that unfolding server_list_def lapi_send_def by (metis lapi_call.select_convs(3) request_parts(1))
  qed
  have quiet: "unauthorized_quiet env alerts ?call"
    unfolding unauthorized_quiet_def using sent by blast
  obtain dres c2 s2 where do: "lapi_do env 0 ?call (Some decode_alerts) (c, s) = (dres, c2, s2)"
    by (metis surj_pair)
  have s2: "s' = s2" "\<And>e. dres = Err e \<Longrightarrow> res = Err e" "\<And>xs. dres = Ok (Some xs) \<Longrightarrow> res = Ok (markers_of (le_Fraction env) xs)"
    using run do by (auto simp: lapi_listMarkers_def split: sum.splits)
  show ?thesis
    using lapi_do_once [OF server_lawsD(1) [OF laws] quiet do]
  proof (elim disjE exE conjE)
    fix c1 s1 tok
    assume s1: "alerts s1 = alerts s" and once: "doOnce env ?call (Some decode_alerts) tok (c1, s1) = (dres, c2, s2)"
    obtain sres s3 where send: "lapi_send env c1 ?call tok s1 = (sres, s3)"
      by (metis surj_pair)
    have s3: "s3 = s2"
      using once send by (simp add: doOnce_def)
    consider (err) e where "dres = Err e" | (ok) resp xs where "dres = Ok (Some xs)" "sres = Ok resp" "accepted sres"
        "Option.bind (le_ReadJSON env (4 * 2 ^ 20) (rs_Body resp)) decode_alerts = Some xs"
      using once send by (cases sres) (auto simp: doOnce_def accepted_def split: option.splits if_splits)
    then show ?thesis
    proof cases
      case err
      then show ?thesis
        using sent [OF send] s1 s2 s3 by simp
    next
      case ok
      then have "xs = List.filter (listed (le_Fraction env) list_query) (alerts s1)"
        using sent [OF send] by blast
      then have "res = Ok (markers_of (le_Fraction env) (alerts s))"
        using s2(3) ok(1) s1 by (simp add: markers_of_listed)
      then show ?thesis
        using sent [OF send] s1 s2(1) s3 by simp
    qed
  qed (use s2 in auto)
qed

lemma lapi_create_view:
  assumes laws: "server_laws env alerts" and run: "lapi_createMarker env (c, s) n p = (err, c', s')"
  shows "alerts s' = alerts s @ [marker_record n p] \<or> err \<noteq> None \<and> alerts s' = alerts s"
proof -
  let ?call = "\<lparr>lp_method = ''POST'', lp_path = ''/v1/alerts'', lp_query = [],
      lp_body = Some (JArr [marker_alert (le_FormatRFC3339 env (le_Now env s)) n p])\<rparr>"
  have "takes_effect res (alerts s1) (alerts s1 @ [marker_record n p]) (alerts s2)"
    if "lapi_send env c1 ?call tok s1 = (res, s2)" for c1 tok s1 res s2
    using server_lawsD(3) [OF laws] that addressed_request [of env c1 ?call tok] decode_marker_alert
    unfolding server_create_def lapi_send_def by (metis lapi_call.select_convs(1,2,4) request_parts(2))
  then have effect: "call_effect env alerts ?call (\<lambda>as. as @ [marker_record n p])"
    unfolding call_effect_def by blast
  obtain dres c2 s2 where do: "lapi_do env 0 ?call (None :: (json \<Rightarrow> unit option) option) (c, s) = (dres, c2, s2)"
    by (metis surj_pair)
  have "s' = s2" "\<And>e. dres = Err e \<Longrightarrow> err \<noteq> None"
    using run do by (auto simp: lapi_createMarker_def Let_def split: sum.splits)
  then show ?thesis
    using lapi_do_effect [OF server_lawsD(1) [OF laws] effect do] by blast
qed

lemma lapi_delete_view:
  assumes laws: "server_laws env alerts" and run: "lapi_deleteMarker env (c, s) p = (err, c', s')"
  shows "(\<exists>q. markerDeleteQuery p = Ok q \<and> alerts s' = map (expire q) (alerts s)) \<or> err \<noteq> None \<and> alerts s' = alerts s"
proof (cases "markerDeleteQuery p")
  case (Inl e)
  then show ?thesis
    using run by (auto simp: lapi_deleteMarker_def)
next
  case (Inr q)
  let ?call = "\<lparr>lp_method = ''DELETE'', lp_path = ''/v1/decisions'', lp_query = q, lp_body = None\<rparr>"
  have "takes_effect res (alerts s1) (map (expire q) (alerts s1)) (alerts s2)"
    if "lapi_send env c1 ?call tok s1 = (res, s2)" for c1 tok s1 res s2
    using server_lawsD(4) [OF laws] that addressed_request [of env c1 ?call tok]
    unfolding server_delete_def lapi_send_def by (metis lapi_call.select_convs(1,2,3) request_parts(1))
  then have effect: "call_effect env alerts ?call (map (expire q))"
    unfolding call_effect_def by blast
  obtain dres c2 s2 where do: "lapi_do env 0 ?call (None :: (json \<Rightarrow> unit option) option) (c, s) = (dres, c2, s2)"
    by (metis surj_pair)
  have "s' = s2" "\<And>e. dres = Err e \<Longrightarrow> err \<noteq> None"
    using run do Inr by (auto simp: lapi_deleteMarker_def split: sum.splits)
  then show ?thesis
    using lapi_do_effect [OF server_lawsD(1) [OF laws] effect do] Inr by blast
qed

lemma client_implements_markers:
  assumes "server_laws env alerts"
  shows "marker_laws (lapi_markers env) (lapi_view env alerts)"
  unfolding marker_laws_def
proof (intro conjI allI impI, goal_cases)
  case (1 l res l')
  then show ?case
    using lapi_list_view [OF assms, of "fst l" "snd l" _ "fst l'" "snd l'"]
    by (auto simp: lapi_markers_def lapi_view_def split: prod.splits sum.splits)
next
  case (2 l res l' ms)
  then show ?case
    using lapi_list_view [OF assms, of "fst l" "snd l" "Ok ms" "fst l'" "snd l'"]
    by (auto simp: lapi_markers_def lapi_view_def split: prod.splits sum.splits)
next
  case (3 l n p err l')
  then obtain e where "lapi_createMarker env (fst l, snd l) n p = (e, fst l', snd l')" "err = map_option lapi_error_text e"
    by (auto simp: lapi_markers_def split: prod.splits)
  then show ?case
    using lapi_create_view [OF assms, of "fst l" "snd l" n p e "fst l'" "snd l'"]
    by (auto simp: lapi_view_def markers_of_append markers_of_record)
next
  case (4 l p err l')
  then obtain e where "lapi_deleteMarker env (fst l, snd l) p = (e, fst l', snd l')" "err = map_option lapi_error_text e"
    by (auto simp: lapi_markers_def split: prod.splits)
  then show ?case
    using lapi_delete_view [OF assms, of "fst l" "snd l" p e "fst l'" "snd l'"] markers_of_expired [of p]
    unfolding lapi_view_def by auto
qed

subsection \<open>A server that is up\<close>

text \<open>
  While the server is \<open>up\<close> the credentials can be read, a login with them gives a token that is good for
  the next request, and a request on markers is answered: with success for a good token, with 401
  otherwise.  Which tokens are \<open>good\<close> may change at any time.
\<close>

definition serves_login ::
  "('s, 'b) lapi_env \<Rightarrow> CrowdSecLAPIConfig \<Rightarrow> lapi_url \<Rightarrow> ('s \<Rightarrow> bool) \<Rightarrow> ('s \<Rightarrow> string set) \<Rightarrow> bool" where
  "serves_login env cfg base up good \<longleftrightarrow>
     (\<forall>s. up s \<longrightarrow> (\<exists>raw. login_password env cfg s = Ok raw \<and>
        (\<forall>rq. rq_Method rq = ''POST'' \<longrightarrow> rq_URL rq = base\<lparr>u_Path := u_Path base @ ''/v1/watchers/login''\<rparr> \<longrightarrow>
           rq_Body rq = lp_body (login_call cfg raw) \<longrightarrow>
           (\<exists>resp s' j tok e. le_Send env s rq = (Ok resp, s') \<and> rs_StatusCode resp = 200 \<and> le_ReadJSON env (2 ^ 16) (rs_Body resp) = Some j \<and>
              decode_login env j = Some (tok, e) \<and> tok \<noteq> [] \<and> tok \<in> good s' \<and> up s'))))"

definition marker_request :: "lapi_url \<Rightarrow> http_request \<Rightarrow> bool" where
  "marker_request base rq \<longleftrightarrow>
     (rq_Method rq = ''GET'' \<or> rq_Method rq = ''POST'') \<and> rq_URL rq = base\<lparr>u_Path := u_Path base @ ''/v1/alerts''\<rparr> \<or>
     rq_Method rq = ''DELETE'' \<and> rq_URL rq = base\<lparr>u_Path := u_Path base @ ''/v1/decisions''\<rparr>"

definition serves_markers :: "('s, 'b) lapi_env \<Rightarrow> lapi_url \<Rightarrow> ('s \<Rightarrow> bool) \<Rightarrow> ('s \<Rightarrow> string set) \<Rightarrow> bool" where
  "serves_markers env base up good \<longleftrightarrow>
     (\<forall>s rq tok. up s \<longrightarrow> marker_request base rq \<longrightarrow> rq_Header rq ''Authorization'' = Some (''Bearer '' @ tok) \<longrightarrow>
        (\<exists>resp s'. le_Send env s rq = (Ok resp, s') \<and> up s' \<and>
           (if tok \<in> good s
            then 200 \<le> rs_StatusCode resp \<and> rs_StatusCode resp \<le> 299 \<and>
              (rq_Method rq = ''GET'' \<longrightarrow> (\<exists>j xs. le_ReadJSON env (4 * 2 ^ 20) (rs_Body resp) = Some j \<and> decode_alerts j = Some xs))
            else rs_StatusCode resp = 401)))"

text \<open>A client of this configuration, whatever token it has cached.\<close>

definition client_up :: "CrowdSecLAPIConfig \<Rightarrow> lapi_url \<Rightarrow> ('s \<Rightarrow> bool) \<Rightarrow> CrowdSecLAPI \<times> 's \<Rightarrow> bool" where
  "client_up cfg base up cs \<longleftrightarrow> la_cfg (fst cs) = cfg \<and> la_base (fst cs) = base \<and> up (snd cs)"

lemma login_served:
  assumes "serves_login env cfg base up good" and "client_up cfg base up (c, s)"
  shows "\<exists>tok c' s'. login env (c, s) = (Ok tok, c', s') \<and> client_up cfg base up (c', s') \<and> tok \<in> good s' \<and> tok \<noteq> []"
proof -
  have c: "la_cfg c = cfg" "la_base c = base" "up s"
    using assms(2) by (simp_all add: client_up_def)
  obtain raw where raw: "login_password env cfg s = Ok raw"
    and send: "\<And>rq. rq_Method rq = ''POST'' \<Longrightarrow> rq_URL rq = base\<lparr>u_Path := u_Path base @ ''/v1/watchers/login''\<rparr> \<Longrightarrow>
           rq_Body rq = lp_body (login_call cfg raw) \<Longrightarrow>
           \<exists>resp s' j tok e. le_Send env s rq = (Ok resp, s') \<and> rs_StatusCode resp = 200 \<and> le_ReadJSON env (2 ^ 16) (rs_Body resp) = Some j \<and>
              decode_login env j = Some (tok, e) \<and> tok \<noteq> [] \<and> tok \<in> good s' \<and> up s'"
    using assms(1) c(3) unfolding serves_login_def by blast
  let ?rq = "lapi_request env c (login_call cfg raw) []"
  have "rq_Method ?rq = ''POST''" "rq_URL ?rq = base\<lparr>u_Path := u_Path base @ ''/v1/watchers/login''\<rparr>" "rq_Body ?rq = lp_body (login_call cfg raw)"
    by (simp_all add: lapi_request_def login_call_def c)
  from send [OF this] obtain resp s' j tok e where
    "le_Send env s ?rq = (Ok resp, s')" "rs_StatusCode resp = 200" "le_ReadJSON env (2 ^ 16) (rs_Body resp) = Some j"
    "decode_login env j = Some (tok, e)" "tok \<noteq> []" "tok \<in> good s'" "up s'"
    by blast
  then show ?thesis
    by (simp add: login_def c raw lapi_send_def client_up_def)
qed

lemma obtain_token_served:
  assumes "serves_login env cfg base up good" and "client_up cfg base up (c, s)"
  shows "\<exists>tok c' s'. obtain_token env (c, s) = (Ok tok, c', s') \<and> client_up cfg base up (c', s') \<and> tok \<noteq> [] \<and> (la_token c = [] \<longrightarrow> tok \<in> good s')"
  using login_served [OF assms] assms(2) by (auto simp: obtain_token_def cachedToken_def)

definition marker_call :: "lapi_call \<Rightarrow> bool" where
  "marker_call call \<longleftrightarrow>
     (lp_method call = ''GET'' \<or> lp_method call = ''POST'') \<and> lp_path call = ''/v1/alerts'' \<or>
     lp_method call = ''DELETE'' \<and> lp_path call = ''/v1/decisions''"

definition readable :: "lapi_call \<Rightarrow> (json \<Rightarrow> 'a option) option \<Rightarrow> bool" where
  "readable call out \<longleftrightarrow>
     (case out of None \<Rightarrow> True
      | Some decode \<Rightarrow> lp_method call = ''GET'' \<and> (\<forall>j xs. decode_alerts j = Some xs \<longrightarrow> decode j \<noteq> None))"

lemma doOnce_served:
  assumes "serves_markers env base up good" and "client_up cfg base up (c, s)" and "marker_call call" and "readable call out" and "tok \<noteq> []"
  shows "\<exists>s'. client_up cfg base up (c, s') \<and>
    (if tok \<in> good s then \<exists>a. doOnce env call out tok (c, s) = (Ok a, c, s') else doOnce env call out tok (c, s) = (Err Unauthorized, c, s'))"
proof -
  have c: "la_cfg c = cfg" "la_base c = base" "up s"
    using assms(2) by (simp_all add: client_up_def)
  let ?rq = "lapi_request env c call tok"
  have "marker_request base ?rq" "rq_Header ?rq ''Authorization'' = Some (''Bearer '' @ tok)" "rq_Method ?rq = lp_method call"
    using assms(3,5) by (auto simp: marker_request_def marker_call_def lapi_request_def c)
  then obtain resp s' where send: "le_Send env s ?rq = (Ok resp, s')" "up s'"
    and good: "tok \<in> good s \<Longrightarrow> 200 \<le> rs_StatusCode resp \<and> rs_StatusCode resp \<le> 299 \<and>
      (lp_method call = ''GET'' \<longrightarrow> (\<exists>j xs. le_ReadJSON env (4 * 2 ^ 20) (rs_Body resp) = Some j \<and> decode_alerts j = Some xs))"
    and bad: "tok \<notin> good s \<Longrightarrow> rs_StatusCode resp = 401"
    using assms(1) c(3) unfolding serves_markers_def by (metis (full_types))
  have "client_up cfg base up (c, s')"
    using c send(2) by (simp add: client_up_def)
  moreover have "doOnce env call out tok (c, s) = (Err Unauthorized, c, s')" if "tok \<notin> good s"
    using bad [OF that] send(1) by (simp add: doOnce_def lapi_send_def)
  moreover have "\<exists>a. doOnce env call out tok (c, s) = (Ok a, c, s')" if g: "tok \<in> good s"
  proof (cases out)
    case None
    then show ?thesis
      using good [OF g] send(1) by (simp add: doOnce_def lapi_send_def)
  next
    case (Some decode)
    then obtain j xs where "le_ReadJSON env (4 * 2 ^ 20) (rs_Body resp) = Some j" "decode_alerts j = Some xs"
      using good [OF g] assms(4) by (auto simp: readable_def)
    then show ?thesis
      using good [OF g] send(1) Some assms(4) by (auto simp: doOnce_def lapi_send_def readable_def)
  qed
  ultimately show ?thesis
    by metis
qed

text \<open>One renewal is enough.\<close>

lemma lapi_do_served:
  assumes login: "serves_login env cfg base up good" and markers: "serves_markers env base up good" and up: "client_up cfg base up (c, s)"
    and call: "marker_call call" "readable call out" and "attempt = 0 \<or> la_token c = []"
  shows "\<exists>a c' s'. lapi_do env attempt call out (c, s) = (Ok a, c', s') \<and> client_up cfg base up (c', s')"
  using up assms(6)
proof (induction "1 - attempt" arbitrary: attempt c s rule: less_induct)
  case less
  obtain tok c1 s1 where tok: "obtain_token env (c, s) = (Ok tok, c1, s1)" "client_up cfg base up (c1, s1)" "tok \<noteq> []" "la_token c = [] \<longrightarrow> tok \<in> good s1"
    using obtain_token_served [OF login less.prems(1)] by blast
  obtain s2 where s2: "client_up cfg base up (c1, s2)" "if tok \<in> good s1 then \<exists>a. doOnce env call out tok (c1, s1) = (Ok a, c1, s2)
      else doOnce env call out tok (c1, s1) = (Err Unauthorized, c1, s2)"
    using doOnce_served [OF markers tok(2) call tok(3)] by blast
  show ?case
  proof (cases "tok \<in> good s1")
    case True
    then show ?thesis
      using s2 tok(1) by (auto simp: lapi_do.simps [of env attempt])
  next
    case False
    then have "attempt = 0"
      using less.prems(2) tok(4) by blast
    then have "lapi_do env attempt call out (c, s) = lapi_do env (Suc 0) call out (dropToken c1, s2)"
      using s2(2) tok(1) False by (simp add: lapi_do.simps [of env 0])
    moreover have "client_up cfg base up (dropToken c1, s2)" "la_token (dropToken c1) = []"
      using s2(1) by (simp_all add: client_up_def dropToken_def)
    ultimately show ?thesis
      using less.hyps [of "Suc 0" "dropToken c1" s2] \<open>attempt = 0\<close> by simp
  qed
qed

lemma client_answers:
  assumes "serves_login env cfg base up good" and "serves_markers env base up good"
  shows "answering (lapi_markers env) (client_up cfg base up)"
  unfolding answering_def
proof (intro conjI allI impI, goal_cases)
  case (1 l)
  let ?call = "\<lparr>lp_method = ''GET'', lp_path = ''/v1/alerts'', lp_query = list_query, lp_body = None\<rparr>"
  obtain a c' s' where "lapi_do env 0 ?call (Some decode_alerts) (fst l, snd l) = (Ok a, c', s')" "client_up cfg base up (c', s')"
    using lapi_do_served [OF assms, of "fst l" "snd l" ?call "Some decode_alerts" 0] 1
    by (auto simp: marker_call_def readable_def)
  then show ?case
    by (auto simp: lapi_markers_def lapi_listMarkers_def)
next
  case (2 l n p)
  let ?call = "\<lparr>lp_method = ''POST'', lp_path = ''/v1/alerts'', lp_query = [],
      lp_body = Some (JArr [marker_alert (le_FormatRFC3339 env (le_Now env (snd l))) n p])\<rparr>"
  obtain a c' s' where "lapi_do env 0 ?call (None :: (json \<Rightarrow> unit option) option) (fst l, snd l) = (Ok a, c', s')" "client_up cfg base up (c', s')"
    using lapi_do_served [OF assms, of "fst l" "snd l" ?call "None :: (json \<Rightarrow> unit option) option" 0] 2
    by (auto simp: marker_call_def readable_def)
  then show ?case
    by (auto simp: lapi_markers_def lapi_createMarker_def Let_def)
next
  case (3 l p)
  obtain q where q: "markerDeleteQuery p = Ok q"
    using 3(2) by (simp add: markerDeleteQuery_def)
  let ?call = "\<lparr>lp_method = ''DELETE'', lp_path = ''/v1/decisions'', lp_query = q, lp_body = None\<rparr>"
  obtain a c' s' where "lapi_do env 0 ?call (None :: (json \<Rightarrow> unit option) option) (fst l, snd l) = (Ok a, c', s')" "client_up cfg base up (c', s')"
    using lapi_do_served [OF assms, of "fst l" "snd l" ?call "None :: (json \<Rightarrow> unit option) option" 0] 3
    by (auto simp: marker_call_def readable_def)
  then show ?case
    by (auto simp: lapi_markers_def lapi_deleteMarker_def q)
qed

subsection \<open>Sample\<close>

text \<open>A server that holds its alerts in a list and accepts one token; the body of an answer is its JSON.\<close>

definition encode_decision :: "lapiDecision \<Rightarrow> json" where
  "encode_decision d = JObj
     [''type'' \<mapsto> JStr (ld_Type d), ''scope'' \<mapsto> JStr (ld_Scope d), ''value'' \<mapsto> JStr (ld_Value d), ''origin'' \<mapsto> JStr (ld_Origin d),
      ''scenario'' \<mapsto> JStr (ld_Scenario d), ''duration'' \<mapsto> JStr (ld_Duration d)]"

definition encode_alert :: "lapiAlert \<Rightarrow> json" where
  "encode_alert a = JObj
     [''decisions'' \<mapsto> JArr (map encode_decision (al_Decisions a)),
      ''meta'' \<mapsto> JArr (map (\<lambda>m. JObj [''key'' \<mapsto> JStr (lm_Key m), ''value'' \<mapsto> JStr (lm_Value m)]) (al_Meta a))]"

lemma those_decode: "(\<And>x. x \<in> set xs \<Longrightarrow> f (g x) = Some x) \<Longrightarrow> those (map (f \<circ> g) xs) = Some xs"
  by (induction xs) simp_all

lemma decode_encode: "decode_alerts (JArr (map encode_alert xs)) = Some xs"
proof -
  have "decode_decision (encode_decision d) = Some d" for d
    by (simp add: decode_decision_def encode_decision_def json_struct_def json_string_def)
  then have ds: "json_list decode_decision (Some (JArr (map encode_decision ds))) = Some ds" for ds
    using those_decode [of ds decode_decision encode_decision] by (simp add: json_list_def)
  have "decode_meta (JObj [''key'' \<mapsto> JStr (lm_Key m), ''value'' \<mapsto> JStr (lm_Value m)]) = Some m" for m
    by (simp add: decode_meta_def json_struct_def json_string_def)
  then have ms: "json_list decode_meta (Some (JArr (map (\<lambda>m. JObj [''key'' \<mapsto> JStr (lm_Key m), ''value'' \<mapsto> JStr (lm_Value m)]) ms))) = Some ms" for ms
    using those_decode [of ms decode_meta "\<lambda>m. JObj [''key'' \<mapsto> JStr (lm_Key m), ''value'' \<mapsto> JStr (lm_Value m)]"] by (simp add: json_list_def)
  have "decode_alert (encode_alert a) = Some a" for a
    by (simp add: decode_alert_def encode_alert_def json_struct_def ds ms)
  then show ?thesis
    using those_decode [of xs decode_alert encode_alert] by (simp add: decode_alerts_def json_list_def)
qed

definition demo_fraction :: fraction where
  "demo_fraction f n unit = f * unit div 10 ^ n"

definition demo_send :: "lapiAlert list \<Rightarrow> http_request \<Rightarrow> (string + json http_response) \<times> lapiAlert list" where
  "demo_send as rq =
     (let answer = (\<lambda>code j. Ok \<lparr>rs_StatusCode = code, rs_Status = '''', rs_Body = j\<rparr>) in
      if rq_Method rq = ''POST'' \<and> last (u_Path (rq_URL rq)) = CHR ''n''
      then (answer 200 (JObj [''token'' \<mapsto> JStr ''t1'', ''expire'' \<mapsto> JStr '''']), as)
      else if rq_Header rq ''Authorization'' \<noteq> Some ''Bearer t1'' then (answer 401 JNull, as)
      else if rq_Method rq = ''GET'' then (answer 200 (JArr (map encode_alert (List.filter (listed demo_fraction (rq_Query rq)) as))), as)
      else if rq_Method rq = ''POST''
      then (case Option.bind (rq_Body rq) decode_alerts of None \<Rightarrow> (answer 201 JNull, as) | Some new \<Rightarrow> (answer 201 JNull, as @ new))
      else (answer 200 JNull, map (expire (rq_Query rq)) as))"

definition demo_lapi :: "(lapiAlert list, json) lapi_env" where
  "demo_lapi =
     \<lparr>le_Send = demo_send, le_Now = (\<lambda>_. 0), le_ReadFile = (\<lambda>_ _. Ok ''secret''), le_ReadJSON = (\<lambda>_ j. Some j), le_ReadText = (\<lambda>_ _. ''''),
      le_UnmarshalTime = (\<lambda>_. Some 0), le_FormatRFC3339 = (\<lambda>_. ''now''), le_DecodeError = (\<lambda>_. ''''), le_Fraction = demo_fraction,
      le_BuildVersion = None, le_PEMCertificates = (\<lambda>_. []), le_LoadX509KeyPair = (\<lambda>_ _ _. Err '''')\<rparr>"

lemma addressed_last: "addressed rq m path \<Longrightarrow> path \<noteq> [] \<Longrightarrow> rq_Method rq = m \<and> last (u_Path (rq_URL rq)) = last path"
  by (auto simp: addressed_def)

lemma demo_server_laws: "server_laws demo_lapi (\<lambda>as. as)"
proof -
  have "server_login demo_lapi (\<lambda>as. as)"
    unfolding server_login_def using addressed_last [of _ "''POST''" "''/v1/watchers/login''"]
    by (auto simp: demo_lapi_def demo_send_def Let_def)
  moreover have "server_list demo_lapi (\<lambda>as. as)"
    unfolding server_list_def using addressed_last [of _ "''GET''" "''/v1/alerts''"]
    by (auto simp: demo_lapi_def demo_send_def Let_def decode_encode accepted_def split: if_splits)
  moreover have "server_create demo_lapi (\<lambda>as. as)"
    unfolding server_create_def using addressed_last [of _ "''POST''" "''/v1/alerts''"]
    by (auto simp: demo_lapi_def demo_send_def Let_def takes_effect_def accepted_def split: if_splits)
  moreover have "server_delete demo_lapi (\<lambda>as. as)"
    unfolding server_delete_def using addressed_last [of _ "''DELETE''" "''/v1/decisions''"]
    by (auto simp: demo_lapi_def demo_send_def Let_def takes_effect_def accepted_def split: if_splits)
  ultimately show ?thesis
    by (simp add: server_laws_def)
qed

definition demo_cfg :: CrowdSecLAPIConfig where
  "demo_cfg = \<lparr>lc_URL = ''http://lapi:8080'', lc_CertFile = [], lc_KeyFile = [], lc_CAFile = [], lc_MachineID = ''operator'', lc_PasswordFile = ''/pw''\<rparr>"

definition demo_base :: lapi_url where
  "demo_base = \<lparr>u_Scheme = ''http'', u_Host = ''lapi:8080'', u_Path = []\<rparr>"

lemma demo_serves:
  "serves_login demo_lapi demo_cfg demo_base (\<lambda>_. True) (\<lambda>_. {''t1''})" "serves_markers demo_lapi demo_base (\<lambda>_. True) (\<lambda>_. {''t1''})"
proof -
  have "login_password demo_lapi demo_cfg s = Ok (Some ''secret'')" for s
    by (simp add: login_password_def demo_cfg_def demo_lapi_def)
  then show "serves_login demo_lapi demo_cfg demo_base (\<lambda>_. True) (\<lambda>_. {''t1''})"
    by (auto simp: serves_login_def demo_lapi_def demo_send_def demo_base_def decode_login_def json_struct_def json_string_def)
  show "serves_markers demo_lapi demo_base (\<lambda>_. True) (\<lambda>_. {''t1''})"
    unfolding serves_markers_def marker_request_def
    by (auto simp: demo_lapi_def demo_send_def demo_base_def decode_encode split: option.splits)
qed

text \<open>A client whose token the server no longer takes.\<close>

definition stale_client :: CrowdSecLAPI where
  "stale_client = \<lparr>la_cfg = demo_cfg, la_base = demo_base, la_token = ''t0'', la_expires = 1000\<rparr>"

definition lapi_world :: "lapiAlert list \<Rightarrow> (string \<rightharpoonup> DynamicPrefix, CrowdSecLAPI \<times> lapiAlert list) marker_world" where
  "lapi_world as = \<lparr>mw_cluster = [''home'' \<mapsto> lan_dp], mw_lapi = (stale_client, as), mw_events = []\<rparr>"

subsection \<open>Properties\<close>

text \<open>
  C31: Over a server that keeps alerts as the Local API documents it, the HTTP client is a set of markers:
  listing shows exactly the active allow decisions of this operator's scenario with their owners,
  creating adds one marker, deleting removes exactly the markers of the value, and a call that fails,
  whatever logins and retries it went through, has had its effect once or not at all.
\<close>

theorem lapi_client_implements_markers:
  assumes "server_laws env alerts"
  shows "marker_laws (lapi_markers env) (\<lambda>cs. set (markers_of (le_Fraction env) (alerts (snd cs))))"
  using client_implements_markers [OF assms] unfolding lapi_view_def .

theorem lapi_client_implements_markers_witness:
  "\<exists>l. createMarker (lapi_markers demo_lapi) (stale_client, []) ''home'' ''2001:db8::/56'' = (None, l) \<and>
     set (markers_of demo_fraction (snd l)) = {\<lparr>mk_Value = ''2001:db8::/56'', mk_Owner = ''home''\<rparr>}"
proof -
  have laws: "marker_laws (lapi_markers demo_lapi) (\<lambda>cs. set (markers_of demo_fraction (snd cs)))"
    using lapi_client_implements_markers [OF demo_server_laws] by (simp add: demo_lapi_def)
  obtain l where l: "createMarker (lapi_markers demo_lapi) (stale_client, []) ''home'' ''2001:db8::/56'' = (None, l)"
    using answeringD(2) [OF client_answers [OF demo_serves], of "(stale_client, [])" "''home''" "''2001:db8::/56''"]
    by (auto simp: client_up_def stale_client_def)
  then show ?thesis
    using marker_lawsD(3) [OF laws l] by (simp add: markers_of_def)
qed

end
