(* ===== verification/Startup.thy ===== *)
theory Startup
  imports CrowdSec_LAPI API_Versions Service_Sync
begin

text \<open>
  What the process decides before it starts (\<^verbatim>\<open>cmd/main.go\<close>): the lists and references of its flags, the
  scope of its caches, which backends it starts with, and the CrowdSec controller with its client.  The
  manager, its servers and the flag parser are the environment.
\<close>

subsection \<open>Flags\<close>

datatype flag_error =
    UnusableKey string
  | NoKeys
  | ExpectedNamespaceName

text \<open>Whether a key is a qualified name is the parameter \<open>qualified\<close>, of the API machinery.\<close>

fun annotation_keys :: "(string \<Rightarrow> bool) \<Rightarrow> string list \<Rightarrow> string list \<Rightarrow> flag_error + string list" where
  "annotation_keys qualified keys [] = Ok keys"
| "annotation_keys qualified keys (part # parts) =
     (let key = TrimSpace part in
      if key = [] then annotation_keys qualified keys parts
      else if \<not> qualified key then Err (UnusableKey key)
      else annotation_keys qualified (if key \<in> set keys then keys else keys @ [key]) parts)"

definition parseAnnotationKeyList :: "(string \<Rightarrow> bool) \<Rightarrow> string \<Rightarrow> flag_error + string list" where
  "parseAnnotationKeyList qualified raw =
     (case annotation_keys qualified [] (Go_Prelude.split (CHR '','') raw) of
        Inl e \<Rightarrow> Err e
      | Inr keys \<Rightarrow> if keys = [] then Err NoKeys else Ok keys)"

definition parseKubevipConfigMapRef :: "string \<Rightarrow> flag_error + (string \<times> string) option" where
  "parseKubevipConfigMapRef raw =
     (if raw = [] then Ok None
      else case Cut (CHR ''/'') raw of
        None \<Rightarrow> Err ExpectedNamespaceName
      | Some (namespace, name) \<Rightarrow> if namespace = [] \<or> name = [] then Err ExpectedNamespaceName else Ok (Some (namespace, name)))"

subsection \<open>Caches\<close>

record 'sel cache_options =
  co_Services :: "'sel option"
  co_ConfigMap :: "(string \<times> string) option"
  co_EndpointSlices :: "(string \<times> string) option"

text \<open>
  An informer without an entry is not restricted.  The ConfigMap informer is restricted to a namespace
  and a name, that of the EndpointSlices to a namespace and the label of a Service.
\<close>

definition newCacheOptions ::
  "(string \<Rightarrow> string + 'sel) \<Rightarrow> string \<Rightarrow> (string \<times> string) option \<Rightarrow> (string \<times> string) option \<Rightarrow> string + 'sel cache_options" where
  "newCacheOptions labels_Parse serviceSelector kubevipRef crowdsecServiceRef =
     (if serviceSelector = [] then Ok \<lparr>co_Services = None, co_ConfigMap = kubevipRef, co_EndpointSlices = crowdsecServiceRef\<rparr>
      else case labels_Parse serviceSelector of
        Inl e \<Rightarrow> Err e
      | Inr selector \<Rightarrow> Ok \<lparr>co_Services = Some selector, co_ConfigMap = kubevipRef, co_EndpointSlices = crowdsecServiceRef\<rparr>)"

subsection \<open>Backends\<close>

definition KubevipConfigMapGVK :: GroupVersionKind where
  "KubevipConfigMapGVK = \<lparr>gvk_Group = [], gvk_Version = ''v1'', gvk_Kind = ''ConfigMap''\<rparr>"

datatype 'a backend_start = StartWith 'a | PollFor

definition pool_backend_start :: "discovery_error + GroupVersionKind list \<Rightarrow> (string \<times> string) option \<Rightarrow> GroupVersionKind list backend_start" where
  "pool_backend_start discovered kubevipRef =
     (let gvks = (case discovered of Inl _ \<Rightarrow> [] | Inr gvks \<Rightarrow> gvks) @ (if kubevipRef \<noteq> None then [KubevipConfigMapGVK] else [])
      in if gvks \<noteq> [] then StartWith gvks else PollFor)"

definition bgp_start :: "discovery_error + CiliumVersions \<Rightarrow> CiliumVersions backend_start" where
  "bgp_start discovered = (case discovered of Inl _ \<Rightarrow> PollFor | Inr versions \<Rightarrow> StartWith versions)"

subsection \<open>CrowdSec\<close>

datatype marker_setup_error =
    NoDynamicPrefixNamed
  | TooFewMarkers
  | LAPIConfigRefused lapi_config_error

definition marker_names :: "string \<Rightarrow> string list" where
  "marker_names dynamicPrefixes =
     fold (\<lambda>n names. let n = TrimSpace n in if n \<noteq> [] \<and> n \<notin> set names then names @ [n] else names)
       (Go_Prelude.split (CHR '','') dynamicPrefixes) []"

text \<open>Without a URL there is no controller; otherwise it is registered with its client.\<close>

definition setupCrowdSecMarkers ::
  "(string \<Rightarrow> lapi_url option) \<Rightarrow> CrowdSecLAPIConfig \<Rightarrow> string \<Rightarrow> (string \<times> string) option \<Rightarrow> int \<Rightarrow>
     (marker_setup_error + (CrowdSecMarkerReconciler \<times> CrowdSecLAPI) option) option" where
  "setupCrowdSecMarkers url_parse cfg dynamicPrefixes lapiService maxMarkers =
     (if lc_URL cfg = [] then Some (Ok None)
      else let names = marker_names dynamicPrefixes in
        if names = [] then Some (Err NoDynamicPrefixNamed)
        else if maxMarkers < 1 then Some (Err TooFewMarkers)
        else case NewCrowdSecLAPI url_parse cfg of
          None \<Rightarrow> None
        | Some (Inl e) \<Rightarrow> Some (Err (LAPIConfigRefused e))
        | Some (Inr lapi) \<Rightarrow>
            Some (Ok (Some (\<lparr>cr_DynamicPrefixes = names, cr_MaxMarkers = maxMarkers, cr_LAPIService = lapiService\<rparr>, lapi))))"

subsection \<open>What the flags give\<close>

lemma annotation_keys_ok:
  assumes "annotation_keys qualified keys parts = Ok res" and "distinct keys" and "\<forall>k \<in> set keys. qualified k \<and> k \<noteq> []"
  shows "distinct res \<and> (\<forall>k \<in> set res. qualified k \<and> k \<noteq> []) \<and> set res = set keys \<union> (TrimSpace ` set parts - {[]})"
  using assms
proof (induction parts arbitrary: keys)
  case (Cons part parts)
  show ?case
  proof (cases "TrimSpace part = []")
    case True
    then have "annotation_keys qualified keys parts = Ok res"
      using Cons.prems(1) by (simp add: Let_def)
    then have IH: "distinct res \<and> (\<forall>k \<in> set res. qualified k \<and> k \<noteq> []) \<and> set res = set keys \<union> (TrimSpace ` set parts - {[]})"
      using Cons.IH Cons.prems(2,3) by blast
    have eq: "TrimSpace ` set (part # parts) - {[]} = TrimSpace ` set parts - {[]}"
      using True by simp
    show ?thesis
      using IH unfolding eq .
  next
    case False
    let ?keys = "if TrimSpace part \<in> set keys then keys else keys @ [TrimSpace part]"
    have q: "qualified (TrimSpace part)" and run: "annotation_keys qualified ?keys parts = Ok res"
      using Cons.prems(1) False by (auto simp: Let_def split: if_splits)
    have "distinct ?keys" "\<forall>k \<in> set ?keys. qualified k \<and> k \<noteq> []"
      using Cons.prems(2,3) q False by auto
    note IH = Cons.IH [OF run this]
    have eq: "set ?keys \<union> (TrimSpace ` set parts - {[]}) = set keys \<union> (TrimSpace ` set (part # parts) - {[]})"
      using False by auto
    show ?thesis
      using IH unfolding eq .
  qed
qed auto

text \<open>The list of keys is never empty and holds each usable key of the flag once.\<close>

lemma annotation_key_list:
  assumes "parseAnnotationKeyList qualified raw = Ok keys"
  shows "keys \<noteq> [] \<and> distinct keys \<and> (\<forall>k \<in> set keys. qualified k) \<and>
    set keys = TrimSpace ` set (Go_Prelude.split (CHR '','') raw) - {[]} \<and> targetAnnotationKeys keys = keys"
proof -
  have run: "annotation_keys qualified [] (Go_Prelude.split (CHR '','') raw) = Ok keys" and "keys \<noteq> []"
    using assms by (auto simp: parseAnnotationKeyList_def split: sum.splits if_splits)
  then show ?thesis
    using annotation_keys_ok [OF run] by (simp add: targetAnnotationKeys_def)
qed

lemma Cut_Some: "Cut c s = Some (a, b) \<Longrightarrow> s = a @ c # b \<and> c \<notin> set a"
  by (induction s arbitrary: a b) (auto split: if_splits option.splits)

text \<open>A reference is what was printed as namespace and name.\<close>

lemma reference_roundtrip:
  "parseKubevipConfigMapRef raw = Ok (Some (ns, nm)) \<longleftrightarrow> raw = ns @ ''/'' @ nm \<and> ns \<noteq> [] \<and> nm \<noteq> [] \<and> CHR ''/'' \<notin> set ns"
proof
  assume "parseKubevipConfigMapRef raw = Ok (Some (ns, nm))"
  then have "Cut (CHR ''/'') raw = Some (ns, nm)" "ns \<noteq> []" "nm \<noteq> []"
    by (auto simp: parseKubevipConfigMapRef_def split: option.splits if_splits)
  then show "raw = ns @ ''/'' @ nm \<and> ns \<noteq> [] \<and> nm \<noteq> [] \<and> CHR ''/'' \<notin> set ns"
    using Cut_Some [of "CHR ''/''" raw ns nm] by simp
next
  assume "raw = ns @ ''/'' @ nm \<and> ns \<noteq> [] \<and> nm \<noteq> [] \<and> CHR ''/'' \<notin> set ns"
  then show "parseKubevipConfigMapRef raw = Ok (Some (ns, nm))"
    by (simp add: parseKubevipConfigMapRef_def Cut_append)
qed

text \<open>
  Once kube-vip's ConfigMap is named nothing is polled for: pool kinds that are installed later are not
  found, although the log says so when none was there.
\<close>

lemma kubevip_stops_polling: "pool_backend_start (Err e) (Some ref) = StartWith [KubevipConfigMapGVK]"
  by (simp add: pool_backend_start_def)

lemma marker_names_spec:
  "distinct (marker_names flag) \<and> set (marker_names flag) = TrimSpace ` set (Go_Prelude.split (CHR '','') flag) - {[]}"
proof -
  have "distinct names \<Longrightarrow> distinct (fold (\<lambda>n names. let n = TrimSpace n in if n \<noteq> [] \<and> n \<notin> set names then names @ [n] else names) parts names) \<and>
      set (fold (\<lambda>n names. let n = TrimSpace n in if n \<noteq> [] \<and> n \<notin> set names then names @ [n] else names) parts names) =
        set names \<union> (TrimSpace ` set parts - {[]})" for parts names
    by (induction parts arbitrary: names) (auto simp: Let_def)
  then show ?thesis
    by (simp add: marker_names_def)
qed

lemma setup_markers:
  assumes "setupCrowdSecMarkers url_parse cfg flag svc maxMarkers = Some (Ok (Some (r, c)))"
  shows "cr_DynamicPrefixes r = marker_names flag" "1 \<le> cr_MaxMarkers r" "la_cfg c = cfg" "la_token c = []"
    "LAPIConfig_Validate url_parse cfg = None"
  using assms by (auto simp: setupCrowdSecMarkers_def NewCrowdSecLAPI_def Let_def split: if_splits option.splits sum.splits)

subsection \<open>From the flags to the server\<close>



end
