(* ===== verification/Spec2Isabelle.thy ===== *)
theory Spec2Isabelle
  imports DynamicPrefix_Controller Service_Sync L2_Nudge Pool_Pass Startup
begin

text \<open>
  A verification of the dynamic-prefix-operator, a Kubernetes operator that follows the IPv6 prefix an
  access provider delegates and carries each change to load balancer pools, Services, DNS targets and
  BGP advertisements.

  \<^bold>\<open>The program.\<close>  A \<^emph>\<open>receiver\<close> obtains the prefix, by DHCPv6 prefix delegation, from Router
  Advertisements, or by both with one as fallback; receivers of Router Advertisements on one interface
  are shared.  A \<^emph>\<open>factory\<close> builds receivers from a DynamicPrefix resource.  The \<^emph>\<open>DynamicPrefix
  controller\<close> keeps one receiver per resource, checks what it delivers against the resource's policy,
  publishes prefix, subnets and address ranges in the status, and retains the previous prefixes as
  draining.  The \<^emph>\<open>dependent controllers\<close> read that status: the pool controller writes the prefixes into
  the pools of Cilium, MetalLB, Calico and kube-vip, the Service controller requests addresses and
  publishes DNS targets, the BGP controller keeps advertisements, the CrowdSec controller keeps an allow
  marker for each trusted prefix in CrowdSec's Local API.  What they write into fields shared
  with the user is remembered in \<^emph>\<open>ownership records\<close>, so that it can be replaced and handed back.

  \<^bold>\<open>Foundations.\<close>  \<^verbatim>\<open>Go_Prelude\<close> holds results as sums (\<open>Inl\<close> the error), 64-bit durations, text
  operations and the collection \<open>go_eval\<close>.  \<^verbatim>\<open>Netip\<close> and \<^verbatim>\<open>Netip_Text\<close> model what is used of Go's
  \<^verbatim>\<open>net/netip\<close>: addresses as words of 32 and 128 bits, prefixes, containment, and the parsing and printing
  of both with their round trips.

  \<^bold>\<open>Package internal/prefix.\<close>
  \<^item> \<^verbatim>\<open>Address_Calc\<close> (addressrange.go, subnet.go): carved subnets partition the prefix, ranges are computed
    bit by bit, covering prefixes are smallest.
  \<^item> \<^verbatim>\<open>Prefix_Policy\<close> (policy.go, validate.go): what an accepted prefix is, trusted routers.
  \<^item> \<^verbatim>\<open>Receiver_Core\<close> (types.go, health.go): data, bounded event channels, the locale \<open>transition_invariant\<close>
    for step functions and the locale \<open>receiver_contract\<close> of the interface \<^verbatim>\<open>Receiver\<close>.
  \<^item> \<^verbatim>\<open>RA_Receiver\<close> (ra_receiver.go): the receive loop, validation and selection of Router Advertisements,
    expiry, solicitations; steps of the goroutines interleave, and the invariant holds in every
    reachable state.
  \<^item> \<^verbatim>\<open>DHCPv6_PD\<close> (dhcpv6pd_receiver.go): the exchanges, the reply, the lease life cycle and backoff.
  \<^item> \<^verbatim>\<open>Shared_RA\<close> (shared_ra_receiver.go) and \<^verbatim>\<open>Composite_Receiver\<close> (composite_receiver.go): reference-counted
    sharing and the fallback state machine; both satisfy \<open>receiver_contract\<close> again, the composite by
    a \<open>sublocale\<close> over any two parts.
  \<^item> \<^verbatim>\<open>Factory\<close> (factory.go): creation of receivers and the claims on interfaces.

  \<^bold>\<open>Package internal/controller.\<close>
  \<^item> \<^verbatim>\<open>API_Types\<close> (api/v1alpha1) and \<^verbatim>\<open>Prefix_Status\<close> (history, status and conditions of
    dynamicprefix_controller.go, conditions_apply.go, dynamicprefix_predicates.go).
  \<^item> \<^verbatim>\<open>Receiver_Manager\<close>, \<^verbatim>\<open>Factory_Provider\<close>, \<^verbatim>\<open>DynamicPrefix_Controller\<close> (dynamicprefix_controller.go,
    rarejections.go, events.go): the table of receivers and their goroutines over the locale
    \<open>receiver_provider\<close>, interpreted on the factory; the reconcile as a whole.
  \<^item> \<^verbatim>\<open>Entry_Text\<close>, \<^verbatim>\<open>Ownership\<close>, \<^verbatim>\<open>Owned_List\<close> (ownership.go, ownedlist.go, the list backends of
    poolsync_backends.go): records as text, and the locale \<open>owned_list_backend\<close> whose laws three backends
    discharge; rotations leave nothing behind and a release undoes them.
  \<^item> \<^verbatim>\<open>Pool_Config\<close> (the configurations of poolsync_controller.go, Calico's exact CIDR), \<^verbatim>\<open>Kubevip\<close>
    (kubevip_backend.go), \<^verbatim>\<open>Pool_Status\<close> (poolsync_condition.go, as a refinement of a map of outcomes).
  \<^item> \<^verbatim>\<open>Pool_Sync\<close> (poolsync_backends.go, poolsync_controller.go): dispatch on kinds, Calico's siblings, one
    pass over a pool, the pass over a name; \<^verbatim>\<open>Pool_Pass\<close>: what a pass achieves across configurations,
    backends, memory and condition.
  \<^item> \<^verbatim>\<open>Service_Addr\<close> and \<^verbatim>\<open>Service_Sync\<close> (servicesync_controller.go): the addresses of a Service in every
    mode, its annotations, DNS targets, nudges and release.  \<^verbatim>\<open>L2_Nudge\<close> (ciliuml2nudge.go): whether the
    nudge is needed.
  \<^item> \<^verbatim>\<open>BGP_Sync\<close> (bgpsync_controller.go) and \<^verbatim>\<open>API_Versions\<close> (ciliumversions.go).
  \<^item> \<^verbatim>\<open>CrowdSec\<close> (crowdsec_controller.go): the markers over the interface \<^verbatim>\<open>crowdsecMarkerAPI\<close>, whose laws
    (\<open>marker_laws\<close>) make the Local API a set of markers; \<^verbatim>\<open>CrowdSec_LAPI\<close> (crowdsec_lapi.go): the HTTP client
    as a refinement of that set over a server of alerts, with login, token and retry.
  \<^item> \<^verbatim>\<open>Startup\<close> (cmd/main.go): the values of the flags, caches and backends, and the way from the flags
    through controller and client to the server.

  \<^bold>\<open>State and operations.\<close>  A struct is a record, a method a function that returns the record updated, a
  goroutine a step of a transition function over which any interleaving is allowed; a lock is the
  atomicity of a step, and where the code releases a lock between two halves of an operation there
  are two steps.  Maps are functions, or association lists where the code ranges over them; the order
  of a range is a parameter or shown not to matter.  An operation that panics is \<open>None\<close>.

  \<^bold>\<open>The environment.\<close>  Sockets and the NDP decoder, the DHCPv6 client, HTTP and files, the clock, the
  Kubernetes API server with its unstructured objects, the condition helpers, the semantic versions, the SHA-256
  digest and the texts of errors are parameters (records of functions).  What is relied on is stated as named
  hypotheses (\<open>unstructured_laws\<close>, \<open>data_laws\<close>, \<open>object_laws\<close>, \<open>store_laws\<close>, \<open>status_laws\<close>, \<open>meta_laws\<close>,
  \<open>bgp_laws\<close>, \<open>range_laws\<close>, and of the Local API \<open>server_laws\<close>, \<open>serves_login\<close>, \<open>serves_markers\<close>), and every
  property that uses one has a witness on a concrete instance.

  \<^bold>\<open>Bounds.\<close>  There is no fuel: every loop is structural recursion, a recursion with a measure (the two
  attempts of a request), a fold over a list the code holds, or a step of a transition function.
  Durations are integers with the 64-bit wrap-around written out where the code multiplies them; addresses are words; Go's \<^verbatim>\<open>int\<close> is an integer, with the machine
  bound written out where a computed size can reach it.

  \<^bold>\<open>Not modelled.\<close>  Logging and the Prometheus metrics, on which no decision depends (metrics.go,
  leaderelection_logger.go); the definition of the flags and the wiring of the manager (cmd/main.go);
  generated copies and apply configurations; the mock receiver; the transport of HTTP.  Of Go's texts only
  those that reach an object or a condition are spelled out.
\<close>

end
